(* ===== verification/Prelude.thy ===== *)
theory Prelude
  imports Main "HOL-Library.Word"
begin

text \<open>
  What the components of the development share: the machine integers of the C sources
  (\<^verbatim>\<open>student-distrib/types.h\<close>), the result codes, generic facts on lists and folds, and
  the collections of theorems that the component proofs hand to the simplifier.

  A character or a bit pattern is a word (\<open>byte\<close>, \<open>u32w\<close>). A counter or an index is a
  \<open>nat\<close> or an \<open>int\<close> and the conversion to the C type is written at every store:
  \<open>u8\<close> and \<open>u32\<close> truncate a \<open>nat\<close>, \<open>s8\<close>, \<open>s16\<close> and \<open>s32\<close> reduce an \<open>int\<close> to
  the two's complement range.
\<close>

unbundle bit_operations_syntax

type_synonym byte = "8 word"
type_synonym u32w = "32 word"

named_theorems wrap_simps \<open>conversions between C integer types that change nothing\<close>
named_theorems frame_simps \<open>fields that an operation leaves alone\<close>
named_theorems inv_intros \<open>operations that keep a component invariant\<close>

definition u8 :: "nat \<Rightarrow> nat" where
  "u8 n = n mod 256"

definition u16 :: "nat \<Rightarrow> nat" where
  "u16 n = n mod 65536"

definition u32 :: "nat \<Rightarrow> nat" where
  "u32 n = n mod 4294967296"

definition s8 :: "int \<Rightarrow> int" where
  "s8 x = (x + 128) mod 256 - 128"

definition s16 :: "int \<Rightarrow> int" where
  "s16 x = (x + 32768) mod 65536 - 32768"

definition s32 :: "int \<Rightarrow> int" where
  "s32 x = (x + 2147483648) mod 4294967296 - 2147483648"

text \<open>Conversion of a signed value to \<^verbatim>\<open>uint32_t\<close>, as in a mixed comparison.\<close>

definition to_u32 :: "int \<Rightarrow> nat" where
  "to_u32 x = nat (x mod 4294967296)"

text \<open>String literals of the sources, as the bytes before the terminating NUL.\<close>

definition bytes_of :: "string \<Rightarrow> byte list" where
  "bytes_of s = map of_char s"

text \<open>A C array of bytes read through a pointer to its first element.\<close>

definition list_mem :: "byte list \<Rightarrow> nat \<Rightarrow> byte" where
  "list_mem xs i = (if i < length xs then xs ! i else 0)"

text \<open>
  \<open>while (!cond) hlt;\<close> with interrupts enabled: every interrupt that arrives is a transformer of
  the state; the loop ends as soon as the condition holds. \<open>None\<close>: still waiting when the given
  interrupts have been served.
\<close>

fun hlt_until :: "('s \<Rightarrow> bool) \<Rightarrow> ('s \<Rightarrow> 's) list \<Rightarrow> 's \<Rightarrow> ('s \<times> ('s \<Rightarrow> 's) list) option" where
  "hlt_until cond irqs s =
     (if cond s then Some (s, irqs)
      else case irqs of [] \<Rightarrow> None | i # rest \<Rightarrow> hlt_until cond rest (i s))"

subsection \<open>Wrap-around\<close>

lemma u8_id [wrap_simps]: "n < 256 \<Longrightarrow> u8 n = n"
  by (simp add: u8_def)

lemma u16_id [wrap_simps]: "n < 65536 \<Longrightarrow> u16 n = n"
  by (simp add: u16_def)

lemma u32_id [wrap_simps]: "n < 4294967296 \<Longrightarrow> u32 n = n"
  by (simp add: u32_def)

lemma s8_id [wrap_simps]: "- 128 \<le> x \<Longrightarrow> x < 128 \<Longrightarrow> s8 x = x"
  by (simp add: s8_def mod_pos_pos_trivial)

lemma s16_id [wrap_simps]: "- 32768 \<le> x \<Longrightarrow> x < 32768 \<Longrightarrow> s16 x = x"
  by (simp add: s16_def mod_pos_pos_trivial)

lemma s32_id [wrap_simps]: "- 2147483648 \<le> x \<Longrightarrow> x < 2147483648 \<Longrightarrow> s32 x = x"
  by (simp add: s32_def mod_pos_pos_trivial)

lemma to_u32_id [wrap_simps]: "0 \<le> x \<Longrightarrow> x < 4294967296 \<Longrightarrow> to_u32 x = nat x"
  by (simp add: to_u32_def mod_pos_pos_trivial)

lemma u8_less: "u8 n < 256"
  by (simp add: u8_def)

lemma u32_less: "u32 n < 4294967296"
  by (simp add: u32_def)

lemma s8_range: "- 128 \<le> s8 x \<and> s8 x < 128"
  by (simp add: s8_def)

lemma s32_range: "- 2147483648 \<le> s32 x \<and> s32 x < 2147483648"
  by (simp add: s32_def)

text \<open>Reduction of a sum or a product may be done once, at the end.\<close>

lemma s32_add_left: "s32 (s32 a + b) = s32 (a + b)"
proof -
  have "(s32 a + b + 2147483648) mod 4294967296
      = ((a + 2147483648) mod 4294967296 + b) mod 4294967296"
    by (simp add: s32_def)
  also have "\<dots> = (a + b + 2147483648) mod 4294967296"
    by (simp only: mod_add_left_eq) (simp add: ac_simps)
  finally show ?thesis
    by (simp add: s32_def [of "s32 a + b"] s32_def [of "a + b"])
qed

lemma s32_mult_left: "s32 (s32 a * b) = s32 (a * b)"
proof -
  have "s32 a mod 4294967296 = a mod 4294967296"
    by (simp add: s32_def mod_diff_left_eq)
  then have "(s32 a * b) mod 4294967296 = (a * b) mod 4294967296"
    by (metis mod_mult_left_eq)
  then show ?thesis
    by (simp add: s32_def [of "s32 a * b"] s32_def [of "a * b"] mod_add_cong)
qed

declare hlt_until.simps [simp del]

lemma hlt_until_done [simp]: "cond s \<Longrightarrow> hlt_until cond irqs s = Some (s, irqs)"
  by (simp add: hlt_until.simps)

lemma hlt_until_wait: "\<not> cond s \<Longrightarrow> hlt_until cond (i # irqs) s = hlt_until cond irqs (i s)"
  by (simp add: hlt_until.simps)

lemma hlt_until_sound: "hlt_until cond irqs s = Some (s', rest) \<Longrightarrow> cond s'"
  by (induction irqs arbitrary: s) (auto simp: hlt_until.simps split: if_splits)

subsection \<open>Lists\<close>

lemma nth_upt_map [simp]: "i < n \<Longrightarrow> map f [0..<n] ! i = f i"
  by simp

lemma fold_preserves:
  assumes "\<And>x s. x \<in> set xs \<Longrightarrow> P s \<Longrightarrow> P (f x s)" and "P s"
  shows "P (fold f xs s)"
  using assms by (induction xs arbitrary: s) auto

lemma fold_frame:
  assumes "\<And>x s. x \<in> set xs \<Longrightarrow> g (f x s) = g s"
  shows "g (fold f xs s) = g s"
  using assms by (induction xs arbitrary: s) auto

lemma take_Suc_nth: "i < length xs \<Longrightarrow> take (Suc i) xs = take i xs @ [xs ! i]"
  by (rule take_Suc_conv_app_nth)

lemma list_mem_in [simp]: "i < length xs \<Longrightarrow> list_mem xs i = xs ! i"
  by (simp add: list_mem_def)

lemma list_mem_out [simp]: "length xs \<le> i \<Longrightarrow> list_mem xs i = 0"
  by (simp add: list_mem_def)

end
