(* ===== verification/Memory.thy ===== *)
theory Memory
  imports Prelude
begin

text \<open>
  Byte-addressed memory and the two effects a routine of the kernel has beside it: bytes
  written to I/O ports and the interrupt flag. Addresses are natural numbers; the objects the
  kernel works on never wrap around the end of the address space.

  \<^verbatim>\<open>lib.h\<close>: \<open>outb\<close>, \<open>cli\<close> and \<open>sti\<close>. A value read by \<^verbatim>\<open>inb\<close> comes from a device and
  is an argument of the definitions that read it.
\<close>

type_synonym addr = nat
type_synonym mem = "nat \<Rightarrow> byte"

record machine =
  mem :: mem
  ports :: "(nat \<times> byte) list"  \<comment> \<open>bytes written, oldest first, each with its port\<close>
  IF :: bool

definition outb :: "byte \<Rightarrow> nat \<Rightarrow> 'a machine_scheme \<Rightarrow> 'a machine_scheme" where
  "outb data port s = s\<lparr>ports := ports s @ [(port, data)]\<rparr>"

definition cli :: "'a machine_scheme \<Rightarrow> 'a machine_scheme" where
  "cli s = s\<lparr>IF := False\<rparr>"

definition sti :: "'a machine_scheme \<Rightarrow> 'a machine_scheme" where
  "sti s = s\<lparr>IF := True\<rparr>"

text \<open>Little-endian 32-bit accesses.\<close>

definition load32 :: "mem \<Rightarrow> addr \<Rightarrow> nat" where
  "load32 m a = unat (m a) + 256 * unat (m (a + 1)) + 65536 * unat (m (a + 2))
     + 16777216 * unat (m (a + 3))"

definition store32 :: "mem \<Rightarrow> addr \<Rightarrow> nat \<Rightarrow> mem" where
  "store32 m a v = m(a := word_of_nat v, a + 1 := word_of_nat (v div 256),
     a + 2 := word_of_nat (v div 65536), a + 3 := word_of_nat (v div 16777216))"

text \<open>Copying and filling a block, the reference for the routines of \<^verbatim>\<open>lib.c\<close>.\<close>

definition blit :: "mem \<Rightarrow> addr \<Rightarrow> addr \<Rightarrow> nat \<Rightarrow> mem" where
  "blit m d s n = (\<lambda>a. if d \<le> a \<and> a < d + n then m (s + (a - d)) else m a)"

definition fill :: "mem \<Rightarrow> addr \<Rightarrow> byte \<Rightarrow> nat \<Rightarrow> mem" where
  "fill m d c n = (\<lambda>a. if d \<le> a \<and> a < d + n then c else m a)"

definition store_list :: "mem \<Rightarrow> addr \<Rightarrow> byte list \<Rightarrow> mem" where
  "store_list m d xs = (\<lambda>a. if d \<le> a \<and> a < d + length xs then xs ! (a - d) else m a)"

definition load_list :: "mem \<Rightarrow> addr \<Rightarrow> nat \<Rightarrow> byte list" where
  "load_list m a n = map (\<lambda>i. m (a + i)) [0..<n]"

text \<open>\<open>cstr m s xs\<close>: the NUL-terminated string at \<open>s\<close> has the bytes \<open>xs\<close>.\<close>

definition cstr :: "mem \<Rightarrow> addr \<Rightarrow> byte list \<Rightarrow> bool" where
  "cstr m s xs \<longleftrightarrow> load_list m s (length xs) = xs \<and> 0 \<notin> set xs \<and> m (s + length xs) = 0"

text \<open>\<open>disjoint_ranges a m b n\<close>: the blocks \<open>[a, a + m)\<close> and \<open>[b, b + n)\<close> do not meet.\<close>

definition disjoint_ranges :: "addr \<Rightarrow> nat \<Rightarrow> addr \<Rightarrow> nat \<Rightarrow> bool" where
  "disjoint_ranges a m b n \<longleftrightarrow> a + m \<le> b \<or> b + n \<le> a"

subsection \<open>Machine effects\<close>

lemma outb_frame [frame_simps, simp]:
  "mem (outb d p s) = mem s" "IF (outb d p s) = IF s" "machine.more (outb d p s) = machine.more s"
  "ports (outb d p s) = ports s @ [(p, d)]"
  by (simp_all add: outb_def)

lemma cli_sti_frame [frame_simps, simp]:
  "mem (cli s) = mem s" "ports (cli s) = ports s" "machine.more (cli s) = machine.more s"
  "mem (sti s) = mem s" "ports (sti s) = ports s" "machine.more (sti s) = machine.more s"
  "IF (cli s) = False" "IF (sti s) = True"
  by (simp_all add: cli_def sti_def)

subsection \<open>Loads and stores\<close>

lemma load32_less: "load32 m a < 4294967296"
proof -
  have "unat (m b) < 256" for b
    using unsigned_less [of "m b"] by simp
  from this [of a] this [of "a + 1"] this [of "a + 2"] this [of "a + 3"] show ?thesis
    unfolding load32_def by linarith
qed

lemma unat_word_of_nat_byte: "unat (word_of_nat v :: byte) = v mod 256"
  by (simp add: unsigned_of_nat take_bit_eq_mod)

lemma word_of_nat_byte_add: "(word_of_nat (k + 256 * j) :: byte) = word_of_nat k"
  by (simp only: word_unat_eq_iff unat_word_of_nat_byte mod_mult_self2)

lemma load32_store32 [simp]: "load32 (store32 m a v) a = v mod 4294967296"
proof -
  have "v mod 256 + 256 * (v div 256 mod 256) + 65536 * (v div 65536 mod 256)
      + 16777216 * (v div 16777216 mod 256) = v mod 4294967296"
    using mod_mult2_eq [of v 256 256] mod_mult2_eq [of v 65536 256]
      mod_mult2_eq [of v 16777216 256] by simp
  then show ?thesis
    by (simp add: load32_def store32_def unat_word_of_nat_byte)
qed

lemma store32_other [simp]: "b < a \<or> a + 4 \<le> b \<Longrightarrow> store32 m a v b = m b"
  by (auto simp: store32_def)

lemma load32_store32_other [simp]:
  "b + 4 \<le> a \<or> a + 4 \<le> b \<Longrightarrow> load32 (store32 m a v) b = load32 m b"
  unfolding load32_def by (auto simp: store32_def)

lemma load32_cong:
  "(\<And>i. i < 4 \<Longrightarrow> m (a + i) = m' (a + i)) \<Longrightarrow> load32 m a = load32 m' a"
proof -
  assume eq: "\<And>i. i < 4 \<Longrightarrow> m (a + i) = m' (a + i)"
  show ?thesis
    using eq [of 0] eq [of 1] eq [of 2] eq [of 3] by (simp add: load32_def)
qed

text \<open>The low byte of a 32-bit load is the byte at the address.\<close>

lemma load32_low_byte [simp]: "(word_of_nat (load32 m a) :: byte) = m a"
proof -
  have "load32 m a mod 256 = unat (m a)"
  proof -
    have "unat (m a) < 256"
      using unsigned_less [of "m a"] by simp
    moreover have "load32 m a = unat (m a)
        + 256 * (unat (m (a + 1)) + 256 * unat (m (a + 2)) + 65536 * unat (m (a + 3)))"
      by (simp add: load32_def)
    ultimately show ?thesis by (simp only: mod_mult_self2 mod_less)
  qed
  then have "unat (word_of_nat (load32 m a) :: byte) = unat (m a)"
    by (simp add: unat_word_of_nat_byte)
  then show ?thesis by (rule unsigned_word_eqI)
qed

lemma length_load_list [simp]: "length (load_list m a n) = n"
  by (simp add: load_list_def)

lemma nth_load_list [simp]: "i < n \<Longrightarrow> load_list m a n ! i = m (a + i)"
  by (simp add: load_list_def)

lemma load_list_0 [simp]: "load_list m a 0 = []"
  by (simp add: load_list_def)

lemma load_list_Suc: "load_list m a (Suc n) = m a # load_list m (a + 1) n"
  by (simp add: load_list_def upt_conv_Cons map_Suc_upt [symmetric] del: upt_Suc)

lemma load_list_append: "load_list m a (n + k) = load_list m a n @ load_list m (a + n) k"
  by (rule nth_equalityI) (auto simp: nth_append)

lemma load_list_cong:
  "(\<And>i. i < n \<Longrightarrow> m (a + i) = m' (a + i)) \<Longrightarrow> load_list m a n = load_list m' a n"
  by (simp add: load_list_def)

lemma load_store_list [simp]: "load_list (store_list m d xs) d (length xs) = xs"
  by (rule nth_equalityI) (auto simp: store_list_def)

lemma load_store_list_other [simp]:
  "disjoint_ranges a n d (length xs) \<Longrightarrow> load_list (store_list m d xs) a n = load_list m a n"
  by (auto simp: load_list_def store_list_def disjoint_ranges_def)

lemma store_list_other: "a < d \<or> d + length xs \<le> a \<Longrightarrow> store_list m d xs a = m a"
  by (auto simp: store_list_def)

lemma store_list_Nil [simp]: "store_list m d [] = m"
  by (rule ext) (auto simp: store_list_def)

lemma store_list_snoc: "store_list m d (xs @ [x]) = (store_list m d xs)(d + length xs := x)"
  by (rule ext) (auto simp: store_list_def nth_append)

lemma store_list_append:
  "store_list (store_list m d xs) (d + length xs) ys = store_list m d (xs @ ys)"
  by (rule ext) (auto simp: store_list_def nth_append)

subsection \<open>Block copies\<close>

lemma blit_0 [simp]: "blit m d s 0 = m"
  by (rule ext) (auto simp: blit_def)

lemma blit_in: "i < n \<Longrightarrow> blit m d s n (d + i) = m (s + i)"
  by (simp add: blit_def)

lemma blit_out: "a < d \<or> d + n \<le> a \<Longrightarrow> blit m d s n a = m a"
  by (auto simp: blit_def)

lemma blit_store_list: "blit m d s n = store_list m d (load_list m s n)"
  by (rule ext) (auto simp: blit_def store_list_def)

text \<open>A copy may be cut into two when the first part leaves the source of the second alone.\<close>

lemma blit_split:
  assumes "d \<le> s \<or> s + (a + b) \<le> d"
  shows "blit (blit m d s a) (d + a) (s + a) b = blit m d s (a + b)"
proof (rule ext)
  fix x
  show "blit (blit m d s a) (d + a) (s + a) b x = blit m d s (a + b) x"
    using assms by (auto simp: blit_def)
qed

lemma blit_split_back:
  assumes "s \<le> d"
  shows "blit (blit m (d + a) (s + a) b) d s a = blit m d s (a + b)"
proof (rule ext)
  fix x
  show "blit (blit m (d + a) (s + a) b) d s a x = blit m d s (a + b) x"
    using assms by (auto simp: blit_def)
qed

lemma fill_split: "fill (fill m d c a) (d + a) c b = fill m d c (a + b)"
  by (rule ext) (auto simp: fill_def)

lemma fill_0 [simp]: "fill m d c 0 = m"
  by (rule ext) (auto simp: fill_def)

subsection \<open>C strings\<close>

lemma cstr_nth: "cstr m s xs \<Longrightarrow> i < length xs \<Longrightarrow> m (s + i) = xs ! i"
  by (metis cstr_def nth_load_list)

lemma cstr_nonzero: "cstr m s xs \<Longrightarrow> i < length xs \<Longrightarrow> m (s + i) \<noteq> 0"
  by (metis cstr_nth cstr_def nth_mem)

lemma cstr_end: "cstr m s xs \<Longrightarrow> m (s + length xs) = 0"
  by (simp add: cstr_def)

lemma cstr_cong:
  "cstr m s xs \<Longrightarrow> (\<And>i. i \<le> length xs \<Longrightarrow> m' (s + i) = m (s + i)) \<Longrightarrow> cstr m' s xs"
  unfolding cstr_def using load_list_cong [of "length xs" m' s m] by simp

lemma cstr_store: "0 \<notin> set xs \<Longrightarrow> cstr (store_list m s (xs @ [0])) s xs"
  unfolding cstr_def by (auto simp: load_list_def store_list_def nth_append intro: nth_equalityI)

end
