(* ===== verification/Tasks.thy ===== *)
theory Tasks
  imports Memory
begin

text \<open>
  The data every component of the kernel shares: open files and process control blocks
  (\<^verbatim>\<open>task.h\<close>), signals (\<^verbatim>\<open>signals.h\<close>), keys (\<^verbatim>\<open>kb.h\<close>) and terminals (\<^verbatim>\<open>term.h\<close>).

  A pointer to a table of file operations is the name of the table; a pointer to a PCB is the
  process number whose kernel stack holds it; a pointer to an open file is the pair of a process
  number and a descriptor; a pointer to a terminal is its index in \<^verbatim>\<open>terms\<close>. Flags that the code
  only sets to 0 and 1 and only tests are \<open>bool\<close>.
\<close>

abbreviation (input) BUF_SIZE :: nat where "BUF_SIZE \<equiv> 256"
abbreviation (input) TASK_MAX_FILES :: nat where "TASK_MAX_FILES \<equiv> 8"
abbreviation (input) MAX_PROC_NUM :: nat where "MAX_PROC_NUM \<equiv> 10"

definition TASK_PAGE_INDEX :: "nat \<Rightarrow> nat" where
  "TASK_PAGE_INDEX c = 2 + c"

definition TASK_KSTACK_TOP :: "nat \<Rightarrow> nat" where
  "TASK_KSTACK_TOP c = 0x800000 - 0x2000 * (c + 1)"

definition TASK_KSTACK_BOT :: "nat \<Rightarrow> nat" where
  "TASK_KSTACK_BOT c = 0x800000 - 0x2000 * c"

datatype task_file_flags_type = TASK_FILE_REG | TASK_FILE_DIR | TASK_FILE_RTC | TASK_FILE_TERM

datatype file_ops_table =
  fs_file_ops_table | fs_dir_ops_table | rtc_file_ops_table
  | stdin_file_ops_table | stdout_file_ops_table

record FILE =
  file_ops :: file_ops_table
  inode :: u32w
  pos :: int
  ftype :: task_file_flags_type
  used :: bool

subsection \<open>Signals\<close>

datatype signal = SIG_DIV_ZERO | SIG_SEGFAULT | SIG_KB_INT | SIG_ALARM | SIG_USER0

fun signum_of :: "signal \<Rightarrow> nat" where
  "signum_of SIG_DIV_ZERO = 0"
| "signum_of SIG_SEGFAULT = 1"
| "signum_of SIG_KB_INT = 2"
| "signum_of SIG_ALARM = 3"
| "signum_of SIG_USER0 = 4"

abbreviation (input) SIG_SIZE :: nat where "SIG_SIZE \<equiv> 5"

definition SIG_FLAG :: "nat \<Rightarrow> byte" where
  "SIG_FLAG s = push_bit s 1"

subsection \<open>Process control blocks\<close>

text \<open>
  \<open>cmd_args\<close> is the copied argument string (without its NUL), \<open>None\<close> for the null pointer;
  a signal handler is its address, 0 for none.
\<close>

record PCB =
  open_files :: "FILE list"
  parent :: "nat option"
  cmd_args :: "byte list option"
  pcb_esp :: nat
  pcb_ebp :: nat
  signals :: byte
  pid :: nat
  term_ind :: nat
  malloc_obj_count :: nat
  signal_handlers :: "nat list"

subsection \<open>Keys\<close>

datatype key_type = KEY_RAW | KEY_PRINT

record key_t =
  kt :: key_type
  modifiers :: byte
  key :: byte

definition MOD_CTRL :: byte where "MOD_CTRL = 0x80"
definition MOD_SHIFT :: byte where "MOD_SHIFT = 0x40"
definition MOD_ALT :: byte where "MOD_ALT = 0x20"

definition KEY_TAB :: byte where "KEY_TAB = 0x80"
definition KEY_ESC :: byte where "KEY_ESC = 0x81"
definition KEY_BACK :: byte where "KEY_BACK = 0x82"
definition KEY_ENTER :: byte where "KEY_ENTER = 0x83"
definition KEY_LEFT :: byte where "KEY_LEFT = 0x86"
definition KEY_RIGHT :: byte where "KEY_RIGHT = 0x87"
definition KEY_F1 :: byte where "KEY_F1 = 0x8A"
definition KEY_F2 :: byte where "KEY_F2 = 0x8B"
definition KEY_F3 :: byte where "KEY_F3 = 0x8C"
definition KEY_F11 :: byte where "KEY_F11 = 0x94"
definition KEY_F12 :: byte where "KEY_F12 = 0x95"

definition key_P :: "byte \<Rightarrow> key_t" where "key_P c = \<lparr>kt = KEY_PRINT, modifiers = 0, key = c\<rparr>"
definition key_R :: "byte \<Rightarrow> key_t" where "key_R c = \<lparr>kt = KEY_RAW, modifiers = 0, key = c\<rparr>"
definition key_C :: "byte \<Rightarrow> key_t" where "key_C c = \<lparr>kt = KEY_RAW, modifiers = MOD_CTRL, key = c\<rparr>"
definition key_A :: "byte \<Rightarrow> key_t" where "key_A c = \<lparr>kt = KEY_RAW, modifiers = MOD_ALT, key = c\<rparr>"

lemmas key_defs = MOD_CTRL_def MOD_SHIFT_def MOD_ALT_def KEY_TAB_def KEY_ESC_def KEY_BACK_def
  KEY_ENTER_def KEY_LEFT_def KEY_RIGHT_def KEY_F1_def KEY_F2_def KEY_F3_def KEY_F11_def KEY_F12_def
  key_P_def key_R_def key_C_def key_A_def

subsection \<open>Terminals\<close>

abbreviation (input) TERM_NUM :: nat where "TERM_NUM \<equiv> 3"
abbreviation (input) TERM_BUF_SIZE :: nat where "TERM_BUF_SIZE \<equiv> 127"
abbreviation (input) TERM_BUF_SIZE_W_NL :: nat where "TERM_BUF_SIZE_W_NL \<equiv> 128"
abbreviation (input) NUM_COLS :: nat where "NUM_COLS \<equiv> 80"
abbreviation (input) NUM_ROWS :: nat where "NUM_ROWS \<equiv> 25"
abbreviation (input) VID_MEM_SIZE :: nat where "VID_MEM_SIZE \<equiv> 4000"
abbreviation (input) VIDEO :: addr where "VIDEO \<equiv> 0xB8000"
abbreviation (input) DEF_ATTR :: byte where "DEF_ATTR \<equiv> 0x0F"

datatype esc_state_t = IDLE | A_ESCAPE | A_BRACKET | ARG_PARSE | PARTIAL_FINISH

record term_t =
  term_buf :: "byte list"
  term_buf_count :: nat
  term_read_done :: bool
  term_curpos :: nat
  cur_x :: int
  cur_y :: int
  cur_x_store :: int
  cur_y_store :: int
  attr :: byte
  reading :: bool
  video_mem :: addr
  video_buffer :: addr
  term_noecho :: bool
  term_canon :: bool
  cur_pid :: nat
  esc_state :: esc_state_t
  esc_buf :: "byte list"
  buf_len :: nat
  args :: "byte list"
  arg_len :: nat

text \<open>
  The state of the terminal driver: memory and ports, the terminals, the index of the one on
  screen and the global pointer \<^verbatim>\<open>cur_term\<close>. The process table extends it.
\<close>

record term_sys = machine +
  terms :: "term_t list"
  cur_term_ind :: nat
  cur_term :: nat

record proc_sys = term_sys +
  pcbs :: "nat \<Rightarrow> PCB"
  cur :: nat  \<comment> \<open>the process on whose kernel stack the kernel runs\<close>

lemma TASK_KSTACK_pages:
  "c < MAX_PROC_NUM \<Longrightarrow> TASK_KSTACK_BOT c = TASK_KSTACK_TOP c + 0x2000"
  by (simp add: TASK_KSTACK_TOP_def TASK_KSTACK_BOT_def)

lemma TASK_KSTACK_TOP_inj:
  "c < MAX_PROC_NUM \<Longrightarrow> d < MAX_PROC_NUM \<Longrightarrow> TASK_KSTACK_TOP c = TASK_KSTACK_TOP d \<Longrightarrow> c = d"
  by (simp add: TASK_KSTACK_TOP_def)

end
