(* ===== verification/Paging.thy ===== *)
theory Paging
  imports Tasks
begin

text \<open>
  Paging (\<^verbatim>\<open>student-distrib/page.c\<close>, \<^verbatim>\<open>page.h\<close>): the page directory and the two page tables that
  \<open>init_page\<close> builds. The entries are records with the fields of the packed structures; \<open>pte_bits\<close>
  and \<open>pde_bits\<close> lay them out as the 32-bit numbers the processor reads, and \<open>translate\<close> is the
  processor's walk (IA-32 manual, volume 3, chapter 3, with 4 MB pages) over those numbers.

  The addresses of the two tables are chosen by the linker; they are the arguments \<open>vt\<close> and \<open>ut\<close>
  (as page frame numbers).
\<close>

record PTE_t =
  pt_present :: bool
  pt_read_write :: bool
  pt_user_super :: bool
  pt_pwt :: bool
  pt_pcd :: bool
  pt_accessed :: bool
  pt_dirty :: bool
  pt_pat :: bool
  pt_global :: bool
  pt_available :: nat
  pt_page_addr :: nat

record page_PDE_t =
  pp_present :: bool
  pp_read_write :: bool
  pp_user_super :: bool
  pp_pwt :: bool
  pp_pcd :: bool
  pp_accessed :: bool
  pp_dirty :: bool
  pp_page_size :: bool
  pp_global :: bool
  pp_available :: nat
  pp_pat :: bool
  pp_reserved :: nat
  pp_page_addr :: nat

record table_PDE_t =
  tp_present :: bool
  tp_read_write :: bool
  tp_user_super :: bool
  tp_pwt :: bool
  tp_pcd :: bool
  tp_accessed :: bool
  tp_reserved :: bool
  tp_page_size :: bool
  tp_global :: bool
  tp_available :: nat
  tp_table_addr :: nat

datatype PDE_t = page_PDE page_PDE_t | table_PDE table_PDE_t

record paging =
  page_directory :: "PDE_t list"
  vidmem_page_table :: "PTE_t list"
  user_vidmem_page_table :: "PTE_t list"

abbreviation (input) MAX_ENTRIES :: nat where "MAX_ENTRIES \<equiv> 1024"
abbreviation (input) VID_MEM_ADDR :: nat where "VID_MEM_ADDR \<equiv> 0xB8"
abbreviation (input) BACKGROUND_1 :: nat where "BACKGROUND_1 \<equiv> 0xB9"
abbreviation (input) TASK_VIRT_PAGE_BEG :: nat where "TASK_VIRT_PAGE_BEG \<equiv> 0x8000000"
abbreviation (input) TASK_VIRT_PAGE_END :: nat where "TASK_VIRT_PAGE_END \<equiv> 0x8400000"
abbreviation (input) TASK_VIDMEM_START :: nat where "TASK_VIDMEM_START \<equiv> 0x8800000"
abbreviation (input) USER_PAGE_INDEX :: nat where "USER_PAGE_INDEX \<equiv> 32"
abbreviation (input) USER_VIDMEM_INDEX :: nat where "USER_VIDMEM_INDEX \<equiv> 34"

definition page_entry :: "bool \<Rightarrow> bool \<Rightarrow> bool \<Rightarrow> nat \<Rightarrow> PDE_t" where
  "page_entry pres us glob pa = page_PDE \<lparr>pp_present = pres, pp_read_write = True, pp_user_super = us, pp_pwt = False,
     pp_pcd = False, pp_accessed = False, pp_dirty = False, pp_page_size = True, pp_global = glob,
     pp_available = 0, pp_pat = False, pp_reserved = 0, pp_page_addr = pa\<rparr>"

definition table_entry :: "bool \<Rightarrow> nat \<Rightarrow> PDE_t" where
  "table_entry us ta = table_PDE \<lparr>tp_present = True, tp_read_write = True, tp_user_super = us, tp_pwt = False,
     tp_pcd = False, tp_accessed = False, tp_reserved = False, tp_page_size = False, tp_global = False,
     tp_available = 0, tp_table_addr = ta\<rparr>"

definition table_slot :: "bool \<Rightarrow> nat \<Rightarrow> PTE_t" where
  "table_slot pres pa = \<lparr>pt_present = pres, pt_read_write = True, pt_user_super = pres, pt_pwt = False,
     pt_pcd = False, pt_accessed = False, pt_dirty = False, pt_pat = False, pt_global = False,
     pt_available = 0, pt_page_addr = pa\<rparr>"

definition init_page :: "nat \<Rightarrow> nat \<Rightarrow> paging" where
  "init_page vt ut =
     (let pd0 = [table_entry False vt, page_entry True True True 1];
          vid = map (\<lambda>i. table_slot (i = VID_MEM_ADDR \<or> i = BACKGROUND_1 \<or> i = 0xBA \<or> i = 0xBB) i) [0..<MAX_ENTRIES];
          uvid = map (\<lambda>i. if i = 0 then table_slot True VID_MEM_ADDR else table_slot False i) [0..<MAX_ENTRIES];
          pd1 = pd0 @ map (\<lambda>j. page_entry False False False 0) [2..<MAX_ENTRIES];
          pd2 = pd1[USER_PAGE_INDEX := page_entry True True False USER_PAGE_INDEX];
          pd3 = pd2[USER_VIDMEM_INDEX := table_entry True ut]
      in \<lparr>page_directory = pd3, vidmem_page_table = vid, user_vidmem_page_table = uvid\<rparr>)"

text \<open>The two places where other code changes the tables.\<close>

definition set_user_page :: "nat \<Rightarrow> paging \<Rightarrow> paging" where
  "set_user_page pa P = P\<lparr>page_directory := (page_directory P)[USER_PAGE_INDEX :=
     (case page_directory P ! USER_PAGE_INDEX of page_PDE e \<Rightarrow> page_PDE (e\<lparr>pp_page_addr := pa mod 2 ^ 10\<rparr>) | e \<Rightarrow> e)]\<rparr>"

definition set_user_vidmem :: "nat \<Rightarrow> paging \<Rightarrow> paging" where
  "set_user_vidmem pa P = P\<lparr>user_vidmem_page_table := (user_vidmem_page_table P)[0 :=
     (user_vidmem_page_table P ! 0)\<lparr>pt_page_addr := pa mod 2 ^ 20\<rparr>]\<rparr>"

subsection \<open>What the processor reads\<close>

definition flag_bits :: "bool list \<Rightarrow> nat" where
  "flag_bits bs = horner_sum of_bool 2 bs"

definition pte_bits :: "PTE_t \<Rightarrow> nat" where
  "pte_bits p = flag_bits [pt_present p, pt_read_write p, pt_user_super p, pt_pwt p, pt_pcd p, pt_accessed p,
     pt_dirty p, pt_pat p, pt_global p] + 2 ^ 9 * pt_available p + 2 ^ 12 * pt_page_addr p"

fun pde_bits :: "PDE_t \<Rightarrow> nat" where
  "pde_bits (page_PDE p) = flag_bits [pp_present p, pp_read_write p, pp_user_super p, pp_pwt p, pp_pcd p, pp_accessed p,
     pp_dirty p, pp_page_size p, pp_global p] + 2 ^ 9 * pp_available p + 2 ^ 12 * of_bool (pp_pat p)
     + 2 ^ 13 * pp_reserved p + 2 ^ 22 * pp_page_addr p"
| "pde_bits (table_PDE p) = flag_bits [tp_present p, tp_read_write p, tp_user_super p, tp_pwt p, tp_pcd p, tp_accessed p,
     tp_reserved p, tp_page_size p, tp_global p] + 2 ^ 9 * tp_available p + 2 ^ 12 * tp_table_addr p"

text \<open>
  The walk: \<open>None\<close> is a page fault. \<open>user\<close> tells the privilege of the access; since every entry is
  writable, reads and writes are translated alike.
\<close>

definition translate :: "nat \<Rightarrow> nat \<Rightarrow> paging \<Rightarrow> bool \<Rightarrow> nat \<Rightarrow> nat option" where
  "translate vt ut P user va =
     (let pde = pde_bits (page_directory P ! (va div 2 ^ 22)) in
      if \<not> bit pde 0 \<or> (user \<and> \<not> bit pde 2) then None
      else if bit pde 7 then Some (pde div 2 ^ 22 * 2 ^ 22 + va mod 2 ^ 22)
      else
        let idx = va div 2 ^ 12 mod 2 ^ 10;
            frame = pde div 2 ^ 12;
            table = (if frame = vt then vidmem_page_table P else user_vidmem_page_table P);
            pte = pte_bits (table ! idx)
        in if frame \<noteq> vt \<and> frame \<noteq> ut then None
           else if \<not> bit pte 0 \<or> (user \<and> \<not> bit pte 2) then None
           else Some (pte div 2 ^ 12 * 2 ^ 12 + va mod 2 ^ 12))"

text \<open>
  The memory map the tables are meant to give while the user page is on 4 MB frame \<open>pa\<close> and the
  user's video page on 4 KB frame \<open>f\<close>: what each address stands for at each privilege. The tables
  in that state are \<open>tables_for\<close>; \<open>task_map\<close> is the map of process \<open>p\<close>.
\<close>

definition user_map :: "nat \<Rightarrow> nat \<Rightarrow> bool \<Rightarrow> nat \<Rightarrow> nat option" where
  "user_map pa f user va =
     (if 0xB8000 \<le> va \<and> va < 0xBC000 then (if user then None else Some va)
      else if 0x400000 \<le> va \<and> va < 0x800000 then Some va
      else if TASK_VIRT_PAGE_BEG \<le> va \<and> va < TASK_VIRT_PAGE_END
           then Some (pa * 0x400000 + (va - TASK_VIRT_PAGE_BEG))
      else if TASK_VIDMEM_START \<le> va \<and> va < TASK_VIDMEM_START + 0x1000
           then Some (f * 0x1000 + (va - TASK_VIDMEM_START))
      else None)"

definition tables_for :: "nat \<Rightarrow> nat \<Rightarrow> nat \<Rightarrow> nat \<Rightarrow> paging" where
  "tables_for vt ut pa f = set_user_vidmem f (set_user_page pa (init_page vt ut))"

definition task_map :: "nat \<Rightarrow> nat \<Rightarrow> bool \<Rightarrow> nat \<Rightarrow> nat option" where
  "task_map p f = user_map (TASK_PAGE_INDEX p) f"

subsection \<open>Lemmas\<close>

lemma flag_bits_less: "length bs = 9 \<Longrightarrow> flag_bits bs < 2 ^ 9"
  using horner_sum_of_bool_2_less [of bs] by (simp add: flag_bits_def)

lemma bit_flags:
  assumes "length bs = 9" "n < 9"
  shows "bit (flag_bits bs + 2 ^ 9 * k) n = bs ! n"
proof -
  have "bit (flag_bits bs + 2 ^ 9 * k) n = bit (take_bit 9 (flag_bits bs + 2 ^ 9 * k)) n"
    using assms(2) by (simp add: bit_take_bit_iff)
  also have "take_bit 9 (flag_bits bs + 2 ^ 9 * k) = flag_bits bs"
    using flag_bits_less [OF assms(1)] by (simp add: take_bit_eq_mod)
  finally show ?thesis using assms by (simp add: flag_bits_def bit_horner_sum_bit_iff)
qed

lemma flags_of: "x = flag_bits bs + 2 ^ 9 * k \<Longrightarrow> length bs = 9 \<Longrightarrow> n < 9 \<Longrightarrow> bit x n = bs ! n"
  by (simp only: bit_flags)

lemma pte_bits_decode:
  assumes "pt_available p < 8"
  shows "bit (pte_bits p) 0 = pt_present p" "bit (pte_bits p) 2 = pt_user_super p" "pte_bits p div 2 ^ 12 = pt_page_addr p"
proof -
  define bs where "bs = [pt_present p, pt_read_write p, pt_user_super p, pt_pwt p, pt_pcd p, pt_accessed p, pt_dirty p, pt_pat p, pt_global p]"
  have l: "length bs = 9" by (simp add: bs_def)
  have e: "pte_bits p = flag_bits bs + 2 ^ 9 * (pt_available p + 8 * pt_page_addr p)"
    by (simp add: pte_bits_def bs_def)
  show "bit (pte_bits p) 0 = pt_present p" "bit (pte_bits p) 2 = pt_user_super p"
    by (rule trans [OF flags_of [OF e l]], simp, simp add: bs_def)+
  have "flag_bits bs < 512" using flag_bits_less [OF l] by simp
  then have "flag_bits bs + 512 * pt_available p < 4096" using assms by simp
  then show "pte_bits p div 2 ^ 12 = pt_page_addr p" by (simp add: pte_bits_def bs_def)
qed

lemma page_pde_decode:
  assumes "pp_available p < 8" "pp_reserved p < 512"
  shows "bit (pde_bits (page_PDE p)) 0 = pp_present p" "bit (pde_bits (page_PDE p)) 2 = pp_user_super p"
    "bit (pde_bits (page_PDE p)) 7 = pp_page_size p" "pde_bits (page_PDE p) div 2 ^ 22 = pp_page_addr p"
proof -
  define bs where "bs = [pp_present p, pp_read_write p, pp_user_super p, pp_pwt p, pp_pcd p, pp_accessed p, pp_dirty p, pp_page_size p, pp_global p]"
  have l: "length bs = 9" by (simp add: bs_def)
  have e: "pde_bits (page_PDE p) = flag_bits bs
      + 2 ^ 9 * (pp_available p + 8 * of_bool (pp_pat p) + 16 * pp_reserved p + 8192 * pp_page_addr p)"
    by (simp add: bs_def)
  show "bit (pde_bits (page_PDE p)) 0 = pp_present p" "bit (pde_bits (page_PDE p)) 2 = pp_user_super p"
    "bit (pde_bits (page_PDE p)) 7 = pp_page_size p"
    by (rule trans [OF flags_of [OF e l]], simp, simp add: bs_def)+
  have "flag_bits bs < 512" using flag_bits_less [OF l] by simp
  moreover have "of_bool (pp_pat p) \<le> (1::nat)" by simp
  ultimately have "flag_bits bs + 512 * pp_available p + 4096 * of_bool (pp_pat p) + 8192 * pp_reserved p < 4194304"
    using assms by linarith
  then show "pde_bits (page_PDE p) div 2 ^ 22 = pp_page_addr p" by (simp add: bs_def)
qed

lemma table_pde_decode:
  assumes "tp_available p < 8"
  shows "bit (pde_bits (table_PDE p)) 0 = tp_present p" "bit (pde_bits (table_PDE p)) 2 = tp_user_super p"
    "bit (pde_bits (table_PDE p)) 7 = tp_page_size p" "pde_bits (table_PDE p) div 2 ^ 12 = tp_table_addr p"
proof -
  define bs where "bs = [tp_present p, tp_read_write p, tp_user_super p, tp_pwt p, tp_pcd p, tp_accessed p, tp_reserved p, tp_page_size p, tp_global p]"
  have l: "length bs = 9" by (simp add: bs_def)
  have e: "pde_bits (table_PDE p) = flag_bits bs + 2 ^ 9 * (tp_available p + 8 * tp_table_addr p)"
    by (simp add: bs_def)
  show "bit (pde_bits (table_PDE p)) 0 = tp_present p" "bit (pde_bits (table_PDE p)) 2 = tp_user_super p"
    "bit (pde_bits (table_PDE p)) 7 = tp_page_size p"
    by (rule trans [OF flags_of [OF e l]], simp, simp add: bs_def)+
  have "flag_bits bs < 512" using flag_bits_less [OF l] by simp
  then have "flag_bits bs + 512 * tp_available p < 4096" using assms by simp
  then show "pde_bits (table_PDE p) div 2 ^ 12 = tp_table_addr p" by (simp add: bs_def)
qed

lemmas entry_decode = page_pde_decode table_pde_decode pte_bits_decode

text \<open>Walks through one entry of each kind.\<close>

lemma translate_page:
  assumes "page_directory P ! (va div 2 ^ 22) = page_entry pres us glob pa"
  shows "translate vt ut P user va =
    (if pres \<and> (user \<longrightarrow> us) then Some (pa * 2 ^ 22 + va mod 2 ^ 22) else None)"
  unfolding translate_def Let_def assms page_entry_def
  by (subst entry_decode, simp, simp)+ (simp add: entry_decode)

lemma translate_table:
  assumes "page_directory P ! (va div 2 ^ 22) = table_entry us fr"
    and "fr = vt \<and> tab = vidmem_page_table P \<or> fr = ut \<and> vt \<noteq> ut \<and> tab = user_vidmem_page_table P"
    and "tab ! (va div 2 ^ 12 mod 2 ^ 10) = table_slot pres pa"
  shows "translate vt ut P user va =
    (if (user \<longrightarrow> us) \<and> pres then Some (pa * 2 ^ 12 + va mod 2 ^ 12) else None)"
proof -
  let ?e = "\<lparr>tp_present = True, tp_read_write = True, tp_user_super = us, tp_pwt = False,
     tp_pcd = False, tp_accessed = False, tp_reserved = False, tp_page_size = False, tp_global = False,
     tp_available = 0, tp_table_addr = fr\<rparr>"
  have d: "bit (pde_bits (table_PDE ?e)) 0" "bit (pde_bits (table_PDE ?e)) 2 = us"
    "\<not> bit (pde_bits (table_PDE ?e)) 7" "pde_bits (table_PDE ?e) div 2 ^ 12 = fr"
    using table_pde_decode [of ?e] by (simp_all del: pde_bits.simps)
  have p: "bit (pte_bits (table_slot pres pa)) 0 = pres" "bit (pte_bits (table_slot pres pa)) 2 = pres"
    "pte_bits (table_slot pres pa) div 2 ^ 12 = pa"
    using pte_bits_decode [of "table_slot pres pa"] by (simp_all add: table_slot_def)
  have t: "(if fr = vt then vidmem_page_table P else user_vidmem_page_table P) = tab" "fr = vt \<or> fr = ut"
    using assms(2) by auto
  show ?thesis
    unfolding translate_def Let_def assms(1) table_entry_def d(4) t(1) assms(3) p(3)
    using d(1-3) p(1,2) t(2) by (auto simp del: pde_bits.simps)
qed

lemma div_range:
  fixes k :: nat
  assumes "0 < k"
  shows "(a \<le> v div k \<and> v div k \<le> b) = (a * k \<le> v \<and> v < (b + 1) * k)"
  using assms by (metis Suc_eq_plus1 div_less_iff_less_mult less_Suc_eq_le less_eq_div_iff_mult_less_eq)

lemma nth_pair_tail:
  assumes "d < N" "2 \<le> N"
  shows "([x, y] @ map (\<lambda>j. z) [2..<N]) ! d = (if d = 0 then x else if d = 1 then y else z)"
  using assms by (cases d; cases "d - 1") (auto simp: nth_append)

lemma init_page_directory:
  assumes "d < 1024"
  shows "page_directory (init_page vt ut) ! d =
    (if d = 0 then table_entry False vt else if d = 1 then page_entry True True True 1
     else if d = 32 then page_entry True True False 32 else if d = 34 then table_entry True ut
     else page_entry False False False 0)"
proof -
  define z where "z = [table_entry False vt, page_entry True True True 1] @ map (\<lambda>j. page_entry False False False 0) [2..<1024]"
  have z: "z ! d = (if d = 0 then table_entry False vt else if d = 1 then page_entry True True True 1
     else page_entry False False False 0)" "length z = 1024"
    using assms nth_pair_tail [of d 1024 "table_entry False vt" "page_entry True True True 1" "page_entry False False False 0"]
    by (simp_all only: z_def) simp
  have "page_directory (init_page vt ut) = z[32 := page_entry True True False 32, 34 := table_entry True ut]"
    by (simp only: init_page_def Let_def z_def paging.simps)
  then show ?thesis using z assms by (auto simp add: nth_list_update)
qed

lemma init_page_tables:
  assumes "i < 1024"
  shows "vidmem_page_table (init_page vt ut) ! i = table_slot (0xB8 \<le> i \<and> i \<le> 0xBB) i"
    "user_vidmem_page_table (init_page vt ut) ! i = table_slot (i = 0) (if i = 0 then 0xB8 else i)"
proof -
  have "(i = 0xB8 \<or> i = 0xB9 \<or> i = 0xBA \<or> i = 0xBB) = (0xB8 \<le> i \<and> i \<le> 0xBB)" by auto
  then show "vidmem_page_table (init_page vt ut) ! i = table_slot (0xB8 \<le> i \<and> i \<le> 0xBB) i"
    "user_vidmem_page_table (init_page vt ut) ! i = table_slot (i = 0) (if i = 0 then 0xB8 else i)"
    using assms by (simp_all add: init_page_def Let_def)
qed

lemma init_page_lengths [simp]:
  "length (page_directory (init_page vt ut)) = 1024"
  "length (vidmem_page_table (init_page vt ut)) = 1024"
  "length (user_vidmem_page_table (init_page vt ut)) = 1024"
  by (simp_all only: init_page_def Let_def paging.simps length_list_update length_append length_map length_upt) simp_all

text \<open>The tables in the state \<open>tables_for\<close>, entry by entry.\<close>

lemma tables_for_directory:
  assumes "d < 1024" "pa < 2 ^ 10"
  shows "page_directory (tables_for vt ut pa f) ! d =
    (if d = 0 then table_entry False vt else if d = 1 then page_entry True True True 1
     else if d = 32 then page_entry True True False pa else if d = 34 then table_entry True ut
     else page_entry False False False 0)"
  using assms
  by (auto simp: tables_for_def set_user_page_def set_user_vidmem_def nth_list_update init_page_directory page_entry_def)

lemma tables_for_tables:
  assumes "i < 1024" "f < 2 ^ 20"
  shows "vidmem_page_table (tables_for vt ut pa f) ! i = table_slot (0xB8 \<le> i \<and> i \<le> 0xBB) i"
    "user_vidmem_page_table (tables_for vt ut pa f) ! i = table_slot (i = 0) (if i = 0 then f else i)"
  using assms
  by (auto simp: tables_for_def set_user_page_def set_user_vidmem_def nth_list_update init_page_tables table_slot_def)

lemma tables_for_set [simp]:
  "set_user_page pa' (tables_for vt ut pa f) = tables_for vt ut pa' f"
  "set_user_vidmem f' (tables_for vt ut pa f) = tables_for vt ut pa f'"
  by (auto simp: tables_for_def set_user_page_def set_user_vidmem_def nth_list_update split: PDE_t.splits)

lemma init_page_tables_for: "init_page vt ut = tables_for vt ut 32 0xB8"
proof (rule paging.equality)
  show "page_directory (init_page vt ut) = page_directory (tables_for vt ut 32 0xB8)"
    by (rule nth_equalityI)
      (auto simp: tables_for_directory init_page_directory, simp add: tables_for_def set_user_page_def set_user_vidmem_def)
  show "user_vidmem_page_table (init_page vt ut) = user_vidmem_page_table (tables_for vt ut 32 0xB8)"
    by (rule nth_equalityI)
      (auto simp: tables_for_tables init_page_tables, simp add: tables_for_def set_user_page_def set_user_vidmem_def)
qed (simp_all add: tables_for_def set_user_page_def set_user_vidmem_def)

text \<open>The walk through the two page tables, in terms of addresses.\<close>

lemma frame_split:
  fixes va :: nat
  shows "va div 2 ^ 12 = va div 2 ^ 22 * 2 ^ 10 + va div 2 ^ 12 mod 2 ^ 10"
  using div_mult_mod_eq [of "va div 2 ^ 12" "2 ^ 10"] by (simp add: div_mult2_eq [symmetric])

lemma low_table_walk:
  assumes "va < 0x400000" "pa < 2 ^ 10" "f < 2 ^ 20"
  shows "translate vt ut (tables_for vt ut pa f) user va =
    (if \<not> user \<and> 0xB8000 \<le> va \<and> va < 0xBC000 then Some va else None)"
proof -
  let ?P = "tables_for vt ut pa f" and ?i = "va div 2 ^ 12 mod 2 ^ 10"
  have d: "va div 2 ^ 22 = 0" and i: "?i = va div 2 ^ 12" "?i < 1024" using assms(1) frame_split [of va] by simp_all
  have fr: "va div 2 ^ 12 * 2 ^ 12 + va mod 2 ^ 12 = va" by simp
  have "translate vt ut ?P user va = (if \<not> user \<and> 0xB8 \<le> va div 2 ^ 12 \<and> va div 2 ^ 12 \<le> 0xBB then Some va else None)"
    using translate_table [where tab = "vidmem_page_table ?P" and fr = vt, OF _ _ tables_for_tables(1) [OF i(2) assms(3)]]
      tables_for_directory [of 0 pa vt ut f] assms(2) d i(1) fr by simp
  then show ?thesis using div_range [of "2 ^ 12" "0xB8" va "0xBB"] by simp
qed

lemma user_video_walk:
  assumes "0x8800000 \<le> va" "va < 0x8C00000" "pa < 2 ^ 10" "f < 2 ^ 20" "vt \<noteq> ut"
  shows "translate vt ut (tables_for vt ut pa f) user va =
    (if va < 0x8801000 then Some (f * 0x1000 + (va - 0x8800000)) else None)"
proof -
  let ?P = "tables_for vt ut pa f" and ?i = "va div 2 ^ 12 mod 2 ^ 10"
  have d: "va div 2 ^ 22 = 34" using div_range [of "2 ^ 22" 34 va 34] assms(1,2) by simp
  have i: "va div 2 ^ 12 = 0x8800 + ?i" "?i < 1024" using frame_split [of va] d by simp_all
  have "translate vt ut ?P user va = (if ?i = 0 then Some (f * 2 ^ 12 + va mod 2 ^ 12) else None)"
    using translate_table [where tab = "user_vidmem_page_table ?P" and fr = ut and vt = vt,
        OF _ _ tables_for_tables(2) [OF i(2) assms(4)]] tables_for_directory [of 34 pa vt ut f] d assms(3,5)
    by simp
  moreover have first: "(?i = 0) = (va < 0x8801000)"
  proof -
    have "(?i = 0) = (0x8800 \<le> va div 2 ^ 12 \<and> va div 2 ^ 12 \<le> 0x8800)" using i(1) by linarith
    then show ?thesis using div_range [of "2 ^ 12" "0x8800" va "0x8800"] assms(1) by simp
  qed
  moreover have "?i = 0 \<Longrightarrow> va mod 2 ^ 12 = va - 0x8800000"
    using i(1) div_mult_mod_eq [of va "2 ^ 12"] by simp
  ultimately show ?thesis by simp
qed

lemma tables_for_map:
  assumes "vt \<noteq> ut" "va < 2 ^ 32" "pa < 2 ^ 10" "f < 2 ^ 20"
  shows "translate vt ut (tables_for vt ut pa f) user va = user_map pa f user va"
proof -
  let ?P = "tables_for vt ut pa f" and ?d = "va div 2 ^ 22"
  have d: "?d < 1024" using assms(2) by simp
  note D = tables_for_directory [OF d assms(3), of vt ut f]
  have big: "?d * 2 ^ 22 + va mod 2 ^ 22 = va" by simp
  have at: "(?d = c) = (c * 2 ^ 22 \<le> va \<and> va < (c + 1) * 2 ^ 22)" for c
    using div_range [of "2 ^ 22" c va c] by auto
  note slots = at [of 0] at [of 1] at [of 32] at [of 34]
  consider "?d = 0" | "?d = 1" | "?d = 32" | "?d = 34" | "?d \<noteq> 0" "?d \<noteq> 1" "?d \<noteq> 32" "?d \<noteq> 34" by metis
  then show ?thesis
  proof cases
    case 1
    then show ?thesis using low_table_walk [OF _ assms(3,4)] slots by (simp add: user_map_def)
  next
    case 2
    then show ?thesis using translate_page [of ?P va, OF trans [OF D], of True True True 1] slots big
      by (simp add: user_map_def)
  next
    case 3
    then show ?thesis using translate_page [of ?P va, OF trans [OF D], of True True False pa] slots big
      by (simp add: user_map_def)
  next
    case 4
    then show ?thesis using user_video_walk [OF _ _ assms(3,4,1)] slots by (simp add: user_map_def)
  next
    case 5
    then have "translate vt ut ?P user va = None"
      using translate_page [of ?P va, OF trans [OF D], of False False False 0] by simp
    then show ?thesis using 5 slots by (simp add: user_map_def) linarith
  qed
qed

text \<open>
  C9: In every state the kernel puts the page tables into, laid out as the bits the processor reads,
  they map the whole 32-bit address space as intended: the four text pages to themselves for the
  kernel only, the kernel's 4 MB to itself, the user page to the frame that was set, the first page
  of the user's video area to the frame that was set, and a page fault everywhere else. (The
  kernel's own page is open to user mode too: the map says so.)
\<close>

theorem page_tables_map:
  assumes "vt \<noteq> ut" "va < 2 ^ 32" "pa < 2 ^ 10" "f < 2 ^ 20"
  shows "translate vt ut (set_user_vidmem f (set_user_page pa (init_page vt ut))) user va = user_map pa f user va"
  using tables_for_map [OF assms] by (simp add: tables_for_def)

theorem page_tables_map_witness:
  "translate 0x410 0x411 (set_user_vidmem 0xBA (set_user_page 3 (init_page 0x410 0x411))) True 0x8801004 = None
   \<and> translate 0x410 0x411 (set_user_vidmem 0xBA (set_user_page 3 (init_page 0x410 0x411))) True 0x8800004 = Some 0xBA004"
  using page_tables_map [of "0x410" "0x411" "0x8801004" 3 "0xBA" True] page_tables_map [of "0x410" "0x411" "0x8800004" 3 "0xBA" True]
  by (simp add: user_map_def)

text \<open>
  C25: Two processes never share a byte of their user pages: with the tables set for one process and
  then for another, any two addresses of the user page stand for different physical addresses, and
  neither lies in the 8 MB that hold the kernel, its stacks and the video memory.
\<close>

theorem user_pages_disjoint:
  assumes "p < MAX_PROC_NUM" "q < MAX_PROC_NUM" "p \<noteq> q" "vt \<noteq> ut" "f < 2 ^ 20" "g < 2 ^ 20"
    "TASK_VIRT_PAGE_BEG \<le> va" "va < TASK_VIRT_PAGE_END" "TASK_VIRT_PAGE_BEG \<le> vb" "vb < TASK_VIRT_PAGE_END"
  shows "\<exists>m n. translate vt ut (set_user_vidmem f (set_user_page (TASK_PAGE_INDEX p) (init_page vt ut))) user va = Some m
    \<and> translate vt ut (set_user_vidmem g (set_user_page (TASK_PAGE_INDEX q) (init_page vt ut))) user' vb = Some n
    \<and> m \<noteq> n \<and> 0x800000 \<le> m \<and> 0x800000 \<le> n"
  using assms tables_for_map [of vt ut va "TASK_PAGE_INDEX p" f user] tables_for_map [of vt ut vb "TASK_PAGE_INDEX q" g user']
  by (auto simp: tables_for_def user_map_def TASK_PAGE_INDEX_def)

theorem user_pages_disjoint_witness:
  "\<exists>m n. translate 0x410 0x411 (set_user_vidmem 0xB8 (set_user_page (TASK_PAGE_INDEX 1) (init_page 0x410 0x411))) True 0x8048000 = Some m
    \<and> translate 0x410 0x411 (set_user_vidmem 0xB9 (set_user_page (TASK_PAGE_INDEX 2) (init_page 0x410 0x411))) True 0x8048000 = Some n
    \<and> m \<noteq> n \<and> 0x800000 \<le> m \<and> 0x800000 \<le> n"
  by (rule user_pages_disjoint) simp_all

end
