(* ===== verification/Heap.thy ===== *)
theory Heap
  imports Tasks "HOL-Library.Multiset"
begin

text \<open>
  The heap of a process (\<^verbatim>\<open>syscall.c\<close>: \<^verbatim>\<open>syscall_malloc\<close>, \<^verbatim>\<open>syscall_free\<close>; \<^verbatim>\<open>syscall.h\<close>). The array
  \<^verbatim>\<open>malloc_objs\<close> at the start of the user page describes the heap from left to right as used and
  unused objects, each a number of 32-byte blocks. It is a function of the index, since the code
  also reads and writes entries past the last object; the count is the field \<^verbatim>\<open>malloc_obj_count\<close>
  of the PCB.

  The abstract heap is the list of the objects; \<open>first_fit\<close> is the allocation strategy on it, and
  \<open>live\<close> lists the addresses and sizes of what the process holds.
\<close>

record malloc_obj_t =
  obj_used :: bool
  obj_size :: nat

record malloc_heap =
  malloc_objs :: "nat \<Rightarrow> malloc_obj_t"
  obj_count :: nat

abbreviation (input) MALLOC_HEAP_SIZE :: nat where "MALLOC_HEAP_SIZE \<equiv> 8192"
abbreviation (input) MALLOC_OBJ_NUM :: nat where "MALLOC_OBJ_NUM \<equiv> 2048"
abbreviation (input) MALLOC_BLOCK_SIZE :: nat where "MALLOC_BLOCK_SIZE \<equiv> 32"
abbreviation (input) PCB_SIZE :: nat where "PCB_SIZE \<equiv> 204"

definition HEAP_START :: nat where
  "HEAP_START = 0x8000000 + PCB_SIZE + 4096"

definition set_obj_used :: "nat \<Rightarrow> bool \<Rightarrow> malloc_heap \<Rightarrow> malloc_heap" where
  "set_obj_used i u h = h\<lparr>malloc_objs := (malloc_objs h)(i := (malloc_objs h i)\<lparr>obj_used := u\<rparr>)\<rparr>"

definition set_obj_size :: "nat \<Rightarrow> nat \<Rightarrow> malloc_heap \<Rightarrow> malloc_heap" where
  "set_obj_size i n h = h\<lparr>malloc_objs := (malloc_objs h)(i := (malloc_objs h i)\<lparr>obj_size := n mod 2 ^ 15\<rparr>)\<rparr>"

text \<open>What \<^verbatim>\<open>_syscall_execute\<close> sets up for a new process.\<close>

definition init_heap :: "malloc_heap \<Rightarrow> malloc_heap" where
  "init_heap h = (set_obj_size 0 MALLOC_HEAP_SIZE (set_obj_used 0 False h))\<lparr>obj_count := 1\<rparr>"

subsection \<open>malloc\<close>

definition copy_obj :: "nat \<Rightarrow> nat \<Rightarrow> malloc_heap \<Rightarrow> malloc_heap" where
  "copy_obj i j h = h\<lparr>malloc_objs := (malloc_objs h)(i := malloc_objs h j)\<rparr>"

definition malloc_shift :: "nat \<Rightarrow> malloc_heap \<Rightarrow> malloc_heap" where
  "malloc_shift i h = fold (\<lambda>j. copy_obj (Suc j) j)
     (rev [i..<Suc (obj_count h)]) h"

definition malloc_split :: "nat \<Rightarrow> nat \<Rightarrow> nat \<Rightarrow> malloc_heap \<Rightarrow> malloc_heap" where
  "malloc_split sz block_size i h =
     (let h1 = malloc_shift i h;
          h2 = set_obj_size i (sz div 32 + 1) (set_obj_used i True h1);
          h3 = set_obj_size (i + 1) (block_size - obj_size (malloc_objs h2 i)) h2
      in h3\<lparr>obj_count := obj_count h3 + 1\<rparr>)"

function malloc_loop :: "nat \<Rightarrow> malloc_heap \<Rightarrow> nat \<Rightarrow> nat \<Rightarrow> nat \<times> malloc_heap" where
  "malloc_loop sz h i obj_ptr =
     (if i < obj_count h then
        let obj_block_size = obj_size (malloc_objs h i);
            obj_sz = obj_block_size * MALLOC_BLOCK_SIZE mod 2 ^ 32
        in if \<not> obj_used (malloc_objs h i) \<and> sz < obj_sz then
             (if obj_count h = MALLOC_OBJ_NUM then (0, h) else (obj_ptr, malloc_split sz obj_block_size i h))
           else if \<not> obj_used (malloc_objs h i) \<and> \<not> sz > obj_sz then (obj_ptr, set_obj_used i True h)
           else malloc_loop sz h (i + 1) ((obj_ptr + obj_size (malloc_objs h i) * MALLOC_BLOCK_SIZE) mod 2 ^ 32)
      else (0, h))"
  by pat_completeness auto

termination malloc_loop
  by (relation "measure (\<lambda>(s, h, i, p). obj_count h - i)") auto

definition syscall_malloc :: "nat \<Rightarrow> malloc_heap \<Rightarrow> nat \<times> malloc_heap" where
  "syscall_malloc sz h = malloc_loop sz h 0 HEAP_START"

subsection \<open>free\<close>

function free_find :: "nat \<Rightarrow> malloc_heap \<Rightarrow> nat \<Rightarrow> nat \<Rightarrow> nat \<times> nat" where
  "free_find ptr h i obj_ptr =
     (if i < obj_count h \<and> ptr > obj_ptr
      then free_find ptr h (i + 1) ((obj_ptr + obj_size (malloc_objs h i) * MALLOC_BLOCK_SIZE) mod 2 ^ 32)
      else (i, obj_ptr))"
  by pat_completeness auto

termination free_find
  by (relation "measure (\<lambda>(ptr, h, i, p). obj_count h - i)") auto

definition free_shift :: "nat \<Rightarrow> nat \<Rightarrow> malloc_heap \<Rightarrow> malloc_heap" where
  "free_shift i move h = fold (\<lambda>j. copy_obj j (j + move))
     [i + 1..<obj_count h] h"

definition free_at :: "nat \<Rightarrow> malloc_heap \<Rightarrow> malloc_heap" where
  "free_at i h =
     (let size_at = (\<lambda>k. obj_size (malloc_objs h k));
          next_free = (i < obj_count h \<and> \<not> obj_used (malloc_objs h (i + 1)));
          prev_free = (i > 0 \<and> \<not> obj_used (malloc_objs h (i - 1)));
          empty0 = size_at i;
          empty1 = (if next_free then (empty0 + size_at (i + 1)) mod 2 ^ 16 else empty0);
          empty2 = (if prev_free then (empty1 + size_at (i + 1)) mod 2 ^ 16 else empty1);
          move = of_bool next_free + of_bool prev_free;
          i' = (if prev_free then i - 1 else i);
          h1 = free_shift i' move (h\<lparr>obj_count := obj_count h - move\<rparr>)
      in set_obj_size i' empty2 (set_obj_used i' False h1))"

definition syscall_free :: "nat \<Rightarrow> malloc_heap \<Rightarrow> int \<times> malloc_heap" where
  "syscall_free ptr h =
     (if ptr = 0 then (0, h)
      else let (i, obj_ptr) = free_find ptr h 0 HEAP_START in
           if obj_ptr \<noteq> ptr then (-1, h) else (0, free_at i h))"

subsection \<open>Specifications\<close>

definition blocks :: "malloc_heap \<Rightarrow> malloc_obj_t list" where
  "blocks h = map (malloc_objs h) [0..<obj_count h]"

definition total :: "malloc_obj_t list \<Rightarrow> nat" where
  "total bs = sum_list (map obj_size bs)"

definition heap_ok :: "malloc_heap \<Rightarrow> bool" where
  "heap_ok h \<longleftrightarrow> total (blocks h) = MALLOC_HEAP_SIZE \<and> obj_count h \<le> MALLOC_OBJ_NUM"

fun first_fit :: "nat \<Rightarrow> malloc_obj_t list \<Rightarrow> nat \<Rightarrow> (nat \<times> malloc_obj_t list) option" where
  "first_fit n [] p = None"
| "first_fit n (b # bs) p =
     (if obj_used b \<or> 32 * obj_size b < n
      then map_option (\<lambda>(q, bs'). (q, b # bs')) (first_fit n bs (p + 32 * obj_size b))
      else if n = 32 * obj_size b then Some (p, b\<lparr>obj_used := True\<rparr> # bs)
      else Some (p, \<lparr>obj_used = True, obj_size = n div 32 + 1\<rparr>
                  # \<lparr>obj_used = False, obj_size = obj_size b - (n div 32 + 1)\<rparr> # bs))"

text \<open>The result \<open>res\<close> of \<open>malloc\<close> is the one that first fit \<open>ff\<close> on the rest of the objects asks for.\<close>

definition fitted :: "nat \<Rightarrow> malloc_heap \<Rightarrow> nat \<times> malloc_heap \<Rightarrow> malloc_obj_t list \<Rightarrow> (nat \<times> malloc_obj_t list) option \<Rightarrow> bool" where
  "fitted n h res pre ff = (case ff of
     None \<Rightarrow> res = (0, h)
   | Some (q, cs) \<Rightarrow> if MALLOC_OBJ_NUM < length (pre @ cs) then res = (0, h)
       else fst res = q \<and> blocks (snd res) = pre @ cs)"

text \<open>The addresses and byte counts of the used objects, from left to right.\<close>

fun live_from :: "nat \<Rightarrow> malloc_obj_t list \<Rightarrow> (nat \<times> nat) list" where
  "live_from p [] = []"
| "live_from p (b # bs) =
     (if obj_used b then [(p, 32 * obj_size b)] else []) @ live_from (p + 32 * obj_size b) bs"

definition live :: "malloc_heap \<Rightarrow> (nat \<times> nat) list" where
  "live h = live_from HEAP_START (blocks h)"

definition apart :: "nat \<times> nat \<Rightarrow> nat \<times> nat \<Rightarrow> bool" where
  "apart r s \<longleftrightarrow> fst r + snd r \<le> fst s \<or> fst s + snd s \<le> fst r"

text \<open>A heap with given objects, for examples.\<close>

definition heap_of :: "malloc_obj_t list \<Rightarrow> malloc_heap" where
  "heap_of bs = \<lparr>malloc_objs = (\<lambda>i. bs ! i), obj_count = length bs\<rparr>"

definition obj :: "bool \<Rightarrow> nat \<Rightarrow> malloc_obj_t" where
  "obj u n = \<lparr>obj_used = u, obj_size = n\<rparr>"

subsection \<open>malloc implements first fit\<close>

declare malloc_loop.simps [simp del] free_find.simps [simp del]

lemma set_obj_simps [simp]:
  "obj_count (set_obj_used i u h) = obj_count h" "obj_count (set_obj_size i n h) = obj_count h"
  "malloc_objs (set_obj_used i u h) = (malloc_objs h)(i := (malloc_objs h i)\<lparr>obj_used := u\<rparr>)"
  "malloc_objs (set_obj_size i n h) = (malloc_objs h)(i := (malloc_objs h i)\<lparr>obj_size := n mod 2 ^ 15\<rparr>)"
  by (simp_all add: set_obj_used_def set_obj_size_def)

lemma copy_obj_simps [simp]:
  "obj_count (copy_obj i j h) = obj_count h"
  "malloc_objs (copy_obj i j h) = (malloc_objs h)(i := malloc_objs h j)"
  by (simp_all add: copy_obj_def)

lemma malloc_heap_eqI: "malloc_objs g = malloc_objs h \<Longrightarrow> obj_count g = obj_count h \<Longrightarrow> g = (h :: malloc_heap)"
  by simp

lemma fold_shift_up:
  "fold (\<lambda>j. copy_obj (Suc j) j) (rev [i..<i + n]) h
   = h\<lparr>malloc_objs := (\<lambda>k. if i < k \<and> k \<le> i + n then malloc_objs h (k - 1) else malloc_objs h k)\<rparr>"
proof (induction n arbitrary: h)
  case 0
  show ?case by (rule malloc_heap_eqI) (auto simp: fun_eq_iff)
next
  case (Suc n)
  show ?case by (rule malloc_heap_eqI) (auto simp: Suc.IH fun_eq_iff)
qed

lemma malloc_shift_eq:
  "i \<le> obj_count h \<Longrightarrow> malloc_shift i h =
    h\<lparr>malloc_objs := (\<lambda>k. if i < k \<and> k \<le> Suc (obj_count h) then malloc_objs h (k - 1) else malloc_objs h k)\<rparr>"
  using fold_shift_up [of i "Suc (obj_count h) - i" h] by (simp add: malloc_shift_def)

lemma blocks_nth [simp]: "length (blocks h) = obj_count h" "i < obj_count h \<Longrightarrow> blocks h ! i = malloc_objs h i"
  by (simp_all add: blocks_def)

lemma blocks_drop: "i < obj_count h \<Longrightarrow> drop i (blocks h) = malloc_objs h i # drop (Suc i) (blocks h)"
  by (metis Cons_nth_drop_Suc blocks_nth)

lemma blocks_set_used:
  "blocks (set_obj_used i u h) = (blocks h)[i := (malloc_objs h i)\<lparr>obj_used := u\<rparr>]"
  by (rule nth_equalityI) (auto simp: nth_list_update)

lemma blocks_split:
  assumes i: "i < obj_count h" and free: "\<not> obj_used (malloc_objs h i)"
    and fits: "sz < 32 * obj_size (malloc_objs h i)" "obj_size (malloc_objs h i) < 2 ^ 15"
  shows "blocks (malloc_split sz (obj_size (malloc_objs h i)) i h) =
    take i (blocks h) @ \<lparr>obj_used = True, obj_size = sz div 32 + 1\<rparr>
      # \<lparr>obj_used = False, obj_size = obj_size (malloc_objs h i) - (sz div 32 + 1)\<rparr> # drop (Suc i) (blocks h)"
    (is "blocks ?h' = ?bs")
proof (rule nth_equalityI)
  have n: "sz div 32 + 1 < 2 ^ 15" using fits by simp
  show "length (blocks ?h') = length ?bs" using i by (simp add: malloc_split_def Let_def malloc_shift_eq)
  fix k assume "k < length (blocks ?h')"
  moreover have "\<not> k \<le> Suc i \<Longrightarrow> k - Suc 0 = Suc (k - 2)" by simp
  ultimately show "blocks ?h' ! k = ?bs ! k"
    using i n free fits
    by (auto simp: malloc_split_def Let_def malloc_shift_eq nth_append nth_Cons' not_less)
qed

text \<open>The loop on the array is first fit on the list.\<close>

lemma total_Cons [simp]: "total [] = 0" "total (b # bs) = obj_size b + total bs" "total (bs @ cs) = total bs + total cs"
  by (simp_all add: total_def)

lemma first_fit_lengths:
  "first_fit n bs p = Some (q, cs) \<Longrightarrow> length cs = length bs \<or> length cs = Suc (length bs)"
  by (induction n bs p arbitrary: q cs rule: first_fit.induct) (auto split: if_splits)

lemma malloc_loop_first_fit:
  assumes "i \<le> obj_count h" "obj_count h \<le> MALLOC_OBJ_NUM"
    "total (drop i (blocks h)) \<le> MALLOC_HEAP_SIZE" "p + 32 * total (drop i (blocks h)) < 2 ^ 32"
  shows "fitted sz h (malloc_loop sz h i p) (take i (blocks h)) (first_fit sz (drop i (blocks h)) p)"
  using assms
proof (induction sz h i p rule: malloc_loop.induct)
  case (1 sz h i p)
  show ?case
  proof (cases "i < obj_count h")
    case False
    then show ?thesis using 1 malloc_loop.simps [of sz h i p] by (simp add: fitted_def)
  next
    case True
    let ?b = "malloc_objs h i"
    note d = blocks_drop [OF True]
    have small: "obj_size ?b \<le> 8192" using 1(4) d by simp
    consider (split) "\<not> obj_used ?b" "sz < 32 * obj_size ?b" | (exact) "\<not> obj_used ?b" "sz = 32 * obj_size ?b"
      | (skip) "obj_used ?b \<or> 32 * obj_size ?b < sz" by linarith
    then show ?thesis
    proof cases
      case split
      then show ?thesis using True small blocks_split [OF True split] 1(3)
        by (auto simp: fitted_def malloc_loop.simps [of sz h i p] d Let_def mult.commute)
    next
      case exact
      then have "malloc_loop sz h i p = (p, set_obj_used i True h)"
        using True small by (subst malloc_loop.simps) (simp add: Let_def)
      then show ?thesis using True small 1(3) d exact
        by (auto simp: fitted_def blocks_set_used upd_conv_take_nth_drop)
    next
      case skip
      have "fitted sz h (malloc_loop sz h (i + 1) (p + 32 * obj_size ?b)) (take (i + 1) (blocks h))
          (first_fit sz (drop (i + 1) (blocks h)) (p + 32 * obj_size ?b))"
        using 1 True skip small d by (auto simp: mult.commute)
      then show ?thesis
        using True skip small 1(5) d
        by (auto simp: fitted_def malloc_loop.simps [of sz h i p] d Let_def mult.commute take_Suc_conv_app_nth
            split: option.splits)
    qed
  qed
qed

text \<open>First fit on lists: what it keeps and what it returns.\<close>

lemma first_fit_total: "first_fit n bs p = Some (q, cs) \<Longrightarrow> total cs = total bs"
proof (induction n bs p arbitrary: q cs rule: first_fit.induct)
  case (2 n b bs p)
  then show ?case by (auto split: if_splits)
qed simp

lemma live_from_bounds:
  "r \<in> set (live_from p bs) \<Longrightarrow> p \<le> fst r \<and> fst r + snd r \<le> p + 32 * total bs"
  by (induction p bs rule: live_from.induct) (fastforce split: if_splits)+

lemma live_from_apart: "sorted_wrt (\<lambda>r s. fst r + snd r \<le> fst s) (live_from p bs)"
  by (induction p bs rule: live_from.induct) (auto dest: live_from_bounds)

lemma first_fit_live:
  assumes "first_fit n bs p = Some (q, cs)"
  shows "\<exists>m xs ys. live_from p bs = xs @ ys \<and> live_from p cs = xs @ (q, m) # ys \<and> n \<le> m \<and> m \<le> n + 32"
  using assms
proof (induction n bs p arbitrary: q cs rule: first_fit.induct)
  case (2 n b bs p)
  show ?case
  proof (cases "obj_used b \<or> 32 * obj_size b < n")
    case True
    then obtain cs' where "first_fit n bs (p + 32 * obj_size b) = Some (q, cs')" "cs = b # cs'"
      using 2(2) by (auto split: if_splits)
    with 2(1) True obtain m xs ys where "live_from (p + 32 * obj_size b) bs = xs @ ys"
      "live_from (p + 32 * obj_size b) cs' = xs @ (q, m) # ys" "n \<le> m \<and> m \<le> n + 32" by blast
    with \<open>cs = b # cs'\<close> show ?thesis
      by - (rule exI [of _ m], rule exI [of _ "(if obj_used b then [(p, 32 * obj_size b)] else []) @ xs"], rule exI [of _ ys], simp)
  next
    case False
    then have "n \<noteq> 32 * obj_size b \<Longrightarrow> n div 32 < obj_size b" by (simp add: div_less_iff_less_mult)
    then have "n \<noteq> 32 * obj_size b \<Longrightarrow> p + 32 * (n div 32 + 1) + 32 * (obj_size b - (n div 32 + 1)) = p + 32 * obj_size b"
      by (metis Suc_eq_plus1 Suc_leI add.assoc distrib_left le_add_diff_inverse)
    then show ?thesis using 2(2) False
      by - (rule exI [of _ "if n = 32 * obj_size b then n else 32 * (n div 32 + 1)"], rule exI [of _ "[]"],
        rule exI [of _ "live_from (p + 32 * obj_size b) bs"], auto split: if_splits simp: add.assoc)
  qed
qed simp

lemma first_fit_None: "first_fit n bs p = None \<longleftrightarrow> (\<forall>b \<in> set bs. obj_used b \<or> 32 * obj_size b < n)"
  by (induction n bs p rule: first_fit.induct) auto

lemma heap_ok_init: "heap_ok (init_heap h)"
  by (simp add: heap_ok_def init_heap_def blocks_def)

lemma malloc_fitted:
  assumes "heap_ok h"
  shows "fitted sz h (syscall_malloc sz h) [] (first_fit sz (blocks h) HEAP_START)"
  using assms malloc_loop_first_fit [of 0 h HEAP_START sz]
  by (simp add: heap_ok_def syscall_malloc_def HEAP_START_def)

lemma malloc_result:
  assumes "heap_ok h" "syscall_malloc sz h = (p, h')"
  shows "heap_ok h' \<and>
    (p = 0 \<and> h' = h \<and> ((\<forall>b \<in> set (blocks h). obj_used b \<or> 32 * obj_size b < sz) \<or> obj_count h = MALLOC_OBJ_NUM)
     \<or> (\<exists>m. sz \<le> m \<and> m \<le> sz + 32 \<and> HEAP_START \<le> p \<and> p + m \<le> HEAP_START + 256 * 1024
          \<and> mset (live h') = add_mset (p, m) (mset (live h)) \<and> (\<forall>r \<in> set (live h). apart (p, m) r)))"
proof (cases "first_fit sz (blocks h) HEAP_START")
  case None
  moreover have "(p, h') = (0, h)" using malloc_fitted [OF assms(1), of sz] assms None by (simp add: fitted_def)
  ultimately show ?thesis using assms(1) by (simp add: first_fit_None)
next
  case (Some a)
  then obtain q cs where ff: "first_fit sz (blocks h) HEAP_START = Some (q, cs)" by (cases a) auto
  show ?thesis
  proof (cases "MALLOC_OBJ_NUM < length cs")
    case True
    then show ?thesis using malloc_fitted [OF assms(1), of sz] ff first_fit_lengths [OF ff] assms
      by (auto simp: fitted_def heap_ok_def)
  next
    case False
    then have res: "p = q" "blocks h' = cs" using malloc_fitted [OF assms(1), of sz] ff assms(2) by (auto simp: fitted_def)
    then have "length cs = obj_count h'" by (metis blocks_nth(1))
    with res False first_fit_total [OF ff] assms(1) have ok: "heap_ok h'" by (auto simp: heap_ok_def)
    obtain m xs ys where m: "live h = xs @ ys" "live h' = xs @ (q, m) # ys" "sz \<le> m" "m \<le> sz + 32"
      using first_fit_live [OF ff] res(2) by (auto simp: live_def)
    have "HEAP_START \<le> q \<and> q + m \<le> HEAP_START + 256 * 1024"
      using live_from_bounds [of "(q, m)" HEAP_START "blocks h'"] m(2) ok by (simp add: live_def heap_ok_def)
    moreover have "\<forall>r \<in> set (live h). apart (q, m) r"
      using live_from_apart [of HEAP_START "blocks h'"] m(1,2) by (auto simp: live_def sorted_wrt_append apart_def)
    ultimately show ?thesis using ok res(1) m by auto
  qed
qed

text \<open>
  C10: \<open>malloc\<close> on a consistent heap: it either returns NULL and changes nothing, and then no unused
  object is large enough or the table of 2048 objects is full; or it returns a new object of at
  least the size asked for (and at most 32 bytes more) inside the heap, apart from every object the
  process already holds, and those all stay in place. The heap stays consistent.
\<close>

theorem malloc_correct:
  assumes "heap_ok h" "syscall_malloc sz h = (p, h')"
  shows "heap_ok h' \<and>
    (p = 0 \<and> h' = h \<and> ((\<forall>b \<in> set (blocks h). obj_used b \<or> 32 * obj_size b < sz) \<or> obj_count h = MALLOC_OBJ_NUM)
     \<or> (\<exists>m. sz \<le> m \<and> m \<le> sz + 32 \<and> HEAP_START \<le> p \<and> p + m \<le> HEAP_START + 256 * 1024
          \<and> mset (live h') = add_mset (p, m) (mset (live h)) \<and> (\<forall>r \<in> set (live h). apart (p, m) r)))"
  using assms by (rule malloc_result)

theorem malloc_correct_witness:
  "\<exists>p h'. syscall_malloc 100 (init_heap \<lparr>malloc_objs = \<lambda>i. \<lparr>obj_used = True, obj_size = 7\<rparr>, obj_count = 0\<rparr>) = (p, h')
    \<and> heap_ok h' \<and> p \<noteq> 0"
proof -
  let ?h = "init_heap \<lparr>malloc_objs = \<lambda>i. \<lparr>obj_used = True, obj_size = 7\<rparr>, obj_count = 0\<rparr>"
  obtain p h' where r: "syscall_malloc 100 ?h = (p, h')" by (cases "syscall_malloc 100 ?h")
  have "\<not> (\<forall>b \<in> set (blocks ?h). obj_used b \<or> 32 * obj_size b < 100)" "obj_count ?h \<noteq> MALLOC_OBJ_NUM"
    by (simp_all add: init_heap_def blocks_def)
  with malloc_correct [OF heap_ok_init r] have "heap_ok h'" "HEAP_START \<le> p" by blast+
  then show ?thesis using r by (auto simp: HEAP_START_def)
qed

subsection \<open>free\<close>

lemma fold_shift_down:
  assumes "0 < m"
  shows "fold (\<lambda>j. copy_obj j (j + m)) [i..<i + n] h
   = h\<lparr>malloc_objs := (\<lambda>k. if i \<le> k \<and> k < i + n then malloc_objs h (k + m) else malloc_objs h k)\<rparr>"
proof (induction n arbitrary: h)
  case 0
  show ?case by (rule malloc_heap_eqI) (auto simp: fun_eq_iff)
next
  case (Suc n)
  show ?case using assms by (intro malloc_heap_eqI) (auto simp: Suc.IH fun_eq_iff)
qed

lemma free_shift_eq:
  assumes "i < obj_count h"
  shows "free_shift i m h = h\<lparr>malloc_objs := (\<lambda>k. if i < k \<and> k < obj_count h then malloc_objs h (k + m) else malloc_objs h k)\<rparr>"
proof (cases m)
  case 0
  have "fold (\<lambda>j. copy_obj j j) xs h = h" for xs by (induction xs) (simp_all add: copy_obj_def)
  then have "free_shift i m h = h" using 0 by (simp add: free_shift_def)
  then show ?thesis using 0 by (intro malloc_heap_eqI) (auto simp: fun_eq_iff)
next
  case (Suc m')
  then show ?thesis using assms fold_shift_down [of m "Suc i" "obj_count h - Suc i" h]
    by (simp add: free_shift_def Suc_le_eq)
qed

text \<open>The address of object \<open>i\<close>.\<close>

lemma free_find_at:
  assumes "i \<le> j" "j < obj_count h" "\<forall>k. i \<le> k \<and> k < j \<longrightarrow> 0 < obj_size (malloc_objs h k)"
    "p + 32 * total (drop i (blocks h)) < 2 ^ 32"
  shows "free_find (p + 32 * total (take (j - i) (drop i (blocks h)))) h i p = (j, p + 32 * total (take (j - i) (drop i (blocks h))))"
  using assms
proof (induction "j - i" arbitrary: i p)
  case 0
  then show ?case by (subst free_find.simps) simp
next
  case (Suc n)
  let ?b = "malloc_objs h i"
  have d: "drop i (blocks h) = ?b # drop (Suc i) (blocks h)" using Suc by (simp add: blocks_drop)
  have "j - i = Suc (j - Suc i)" using Suc(2) by simp
  then have t: "p + 32 * total (take (j - i) (drop i (blocks h)))
      = (p + 32 * obj_size ?b) + 32 * total (take (j - Suc i) (drop (Suc i) (blocks h)))" using d by simp
  have "0 < obj_size ?b" using Suc by simp
  moreover have "p + obj_size ?b * 32 < 2 ^ 32" using Suc(6) d by simp
  ultimately show ?case unfolding t using Suc d
    by (subst free_find.simps) (simp add: mult.commute)
qed

lemma blocks_parts: "i + 1 < obj_count h \<Longrightarrow> blocks h = take i (blocks h) @ malloc_objs h i # malloc_objs h (i + 1) # drop (i + 2) (blocks h)"
  by (metis Suc_1 Suc_eq_plus1 Suc_lessD add_Suc_right append_take_drop_id blocks_drop)

lemma free_at_blocks:
  assumes "i + 1 < obj_count h" "i = 0 \<or> obj_used (malloc_objs h (i - 1))"
    "obj_size (malloc_objs h i) + obj_size (malloc_objs h (i + 1)) < 2 ^ 15"
  shows "blocks (free_at i h) = take i (blocks h) @
    (if obj_used (malloc_objs h (i + 1))
     then (malloc_objs h i)\<lparr>obj_used := False\<rparr> # malloc_objs h (i + 1) # drop (i + 2) (blocks h)
     else \<lparr>obj_used = False, obj_size = obj_size (malloc_objs h i) + obj_size (malloc_objs h (i + 1))\<rparr> # drop (i + 2) (blocks h))"
    (is "blocks ?h' = take i (blocks h) @ ?tail")
proof -
  have np: "(i > 0 \<and> \<not> obj_used (malloc_objs h (i - 1))) = False" using assms(2) by auto
  show ?thesis
  proof (cases "obj_used (malloc_objs h (i + 1))")
    case True
    then have "free_at i h = set_obj_size i (obj_size (malloc_objs h i)) (set_obj_used i False (free_shift i 0 h))"
      by (simp only: free_at_def Let_def np) simp
    then have "malloc_objs ?h' = (malloc_objs h)(i := (malloc_objs h i)\<lparr>obj_used := False\<rparr>)" "obj_count ?h' = obj_count h"
      using assms by (simp_all add: free_shift_eq fun_eq_iff)
    then have "blocks ?h' = (blocks h)[i := (malloc_objs h i)\<lparr>obj_used := False\<rparr>]"
      by (intro nth_equalityI) (auto simp: nth_list_update)
    then show ?thesis using True assms(1) blocks_drop [of "Suc i" h] by (simp add: upd_conv_take_nth_drop)
  next
    case False
    let ?n = "obj_size (malloc_objs h i) + obj_size (malloc_objs h (i + 1))"
    have "free_at i h = set_obj_size i (?n mod 2 ^ 16) (set_obj_used i False (free_shift i 1 (h\<lparr>obj_count := obj_count h - 1\<rparr>)))"
      using False assms(1) by (simp only: free_at_def Let_def np) simp
    then have at: "malloc_objs ?h' k = (if k = i then \<lparr>obj_used = False, obj_size = ?n\<rparr>
        else if i < k \<and> k < obj_count h - 1 then malloc_objs h (k + 1) else malloc_objs h k)"
      and len: "obj_count ?h' = obj_count h - 1" for k
      using assms by (simp_all add: free_shift_eq)
    show ?thesis
    proof (rule nth_equalityI)
      show "length (blocks ?h') = length (take i (blocks h) @ ?tail)" using False assms(1) len by simp
      fix k assume "k < length (blocks ?h')"
      then have k: "k < obj_count h - 1" using len by simp
      have "i < k \<Longrightarrow> drop (i + 2) (blocks h) ! (k - Suc i) = malloc_objs h (Suc k)"
        using assms(1) k nth_drop [of "i + 2" "blocks h" "k - Suc i"] by simp
      then show "blocks ?h' ! k = (take i (blocks h) @ ?tail) ! k"
        using False assms(1) k len by (simp add: at nth_append nth_Cons' not_less le_eq_less_or_eq)
    qed
  qed
qed

lemma live_from_append: "live_from p (as @ bs) = live_from p as @ live_from (p + 32 * total as) bs"
  by (induction p as rule: live_from.induct) (simp_all add: algebra_simps)

text \<open>
  C37: \<open>free\<close> of a used object whose neighbour to the left is not free, with another object after it
  and no empty object before it: the call succeeds, exactly this object leaves the live objects, and
  the heap stays consistent. The table afterwards is given exactly: a used neighbour to the right
  stays as it is, a free one is merged, into one free object of both sizes, and the objects before and
  behind the two are unchanged.
\<close>

theorem free_correct:
  assumes "heap_ok h" "i + 1 < obj_count h" "obj_used (malloc_objs h i)"
    "\<forall>k < i. 0 < obj_size (malloc_objs h k)" "i = 0 \<or> obj_used (malloc_objs h (i - 1))"
    "ptr = HEAP_START + 32 * total (take i (blocks h))"
  shows "\<exists>h' xs ys. syscall_free ptr h = (0, h') \<and> heap_ok h'
    \<and> live h = xs @ (ptr, 32 * obj_size (malloc_objs h i)) # ys \<and> live h' = xs @ ys
    \<and> blocks h' = take i (blocks h) @
        (if obj_used (malloc_objs h (i + 1)) then [obj False (obj_size (malloc_objs h i)), malloc_objs h (i + 1)]
         else [obj False (obj_size (malloc_objs h i) + obj_size (malloc_objs h (i + 1)))])
        @ drop (i + 2) (blocks h)"
proof -
  let ?b = "malloc_objs h i" and ?c = "malloc_objs h (i + 1)" and ?l = "take i (blocks h)" and ?r = "drop (i + 2) (blocks h)"
  note parts = blocks_parts [OF assms(2)]
  have tot: "total ?l + (obj_size ?b + (obj_size ?c + total ?r)) = 8192"
    using assms(1) parts by (metis heap_ok_def total_Cons(2,3))
  then have "obj_size ?b + obj_size ?c < 2 ^ 15" by simp
  note fr = free_at_blocks [OF assms(2,5) this]
  have "syscall_free ptr h = (0, free_at i h)"
    using free_find_at [of 0 i h HEAP_START] assms
    by (simp add: syscall_free_def HEAP_START_def heap_ok_def)
  moreover have "heap_ok (free_at i h)"
    using fr tot assms(1,2) by (auto simp: heap_ok_def free_at_def Let_def free_shift_eq)
  moreover have "live h = live_from HEAP_START ?l @ (ptr, 32 * obj_size ?b) # live_from (ptr + 32 * obj_size ?b) (?c # ?r)"
    using arg_cong [OF parts, of "live_from HEAP_START"] assms(3,6) by (simp add: live_def live_from_append del: append_take_drop_id)
  moreover have "live (free_at i h) = live_from HEAP_START ?l @ live_from (ptr + 32 * obj_size ?b) (?c # ?r)"
    using fr assms(6) by (auto simp: live_def live_from_append algebra_simps)
  moreover have "blocks (free_at i h) = ?l @ (if obj_used ?c then [obj False (obj_size ?b), ?c] else [obj False (obj_size ?b + obj_size ?c)]) @ ?r"
    unfolding fr by (cases ?b) (simp add: obj_def)
  ultimately show ?thesis by blast
qed

lemma heap_of_simps [simp]: "blocks (heap_of bs) = bs" "obj_count (heap_of bs) = length bs" "malloc_objs (heap_of bs) i = bs ! i"
  by (simp_all add: heap_of_def blocks_def map_nth)

theorem free_correct_witness:
  "\<exists>h' xs ys. syscall_free (HEAP_START + 32) (heap_of [obj True 1, obj True 2, obj False 8189]) = (0, h') \<and> heap_ok h'
    \<and> live (heap_of [obj True 1, obj True 2, obj False 8189]) = xs @ (HEAP_START + 32, 64) # ys \<and> live h' = xs @ ys
    \<and> blocks h' = [obj True 1, obj False 8191]"
  using free_correct [of "heap_of [obj True 1, obj True 2, obj False 8189]" 1 "HEAP_START + 32"]
  by (simp add: heap_ok_def obj_def)

text \<open>
  When the object to the left is free, \<open>free\<close> should add its size; the code adds the size of the
  object to the right instead.
\<close>

lemma free_at_blocks_prev:
  assumes "0 < i" "i + 1 < obj_count h" "\<not> obj_used (malloc_objs h (i - 1))" "obj_used (malloc_objs h (i + 1))"
    "obj_size (malloc_objs h i) + obj_size (malloc_objs h (i + 1)) < 2 ^ 15"
  shows "blocks (free_at i h) = take (i - 1) (blocks h) @
    \<lparr>obj_used = False, obj_size = obj_size (malloc_objs h i) + obj_size (malloc_objs h (i + 1))\<rparr> # drop (i + 1) (blocks h)"
    (is "blocks ?h' = ?bs")
proof -
  let ?n = "obj_size (malloc_objs h i) + obj_size (malloc_objs h (i + 1))"
  have "free_at i h = set_obj_size (i - 1) (?n mod 2 ^ 16) (set_obj_used (i - 1) False
      (free_shift (i - 1) 1 (h\<lparr>obj_count := obj_count h - 1\<rparr>)))"
    using assms by (simp add: free_at_def Let_def)
  then have at: "malloc_objs ?h' k = (if k = i - 1 then \<lparr>obj_used = False, obj_size = ?n\<rparr>
      else if i - 1 < k \<and> k < obj_count h - 1 then malloc_objs h (k + 1) else malloc_objs h k)"
    and len: "obj_count ?h' = obj_count h - 1" for k
    using assms by (simp_all add: free_shift_eq)
  show ?thesis
  proof (rule nth_equalityI)
    show "length (blocks ?h') = length ?bs" using assms(1,2) len by simp
    fix k assume "k < length (blocks ?h')"
    then have k: "k < obj_count h - 1" using len by simp
    have "i - 1 < k \<Longrightarrow> drop (i + 1) (blocks h) ! (k - i) = malloc_objs h (Suc k)"
      using assms(1,2) k nth_drop [of "i + 1" "blocks h" "k - i"] by simp
    moreover have "i - 1 < k \<Longrightarrow> k - (i - 1) - 1 = k - i" using assms(1) by simp
    ultimately show "blocks ?h' ! k = ?bs ! k"
      using assms(1,2) k len by (auto simp: at nth_append nth_Cons' not_less le_eq_less_or_eq)
  qed
qed

text \<open>
  \<open>free\<close> of an object with a free object to its left and a used one to its right: the merged
  object gets the size of the right neighbour instead of the left one, so the objects still fill
  the heap exactly only when the two neighbours happen to have the same size; otherwise every
  later object is taken to be at a wrong address.
\<close>

theorem free_merges_wrong_size:
  assumes "heap_ok h" "0 < i" "i + 1 < obj_count h" "\<not> obj_used (malloc_objs h (i - 1))" "obj_used (malloc_objs h (i + 1))"
  shows "heap_ok (free_at i h) \<longleftrightarrow> obj_size (malloc_objs h (i - 1)) = obj_size (malloc_objs h (i + 1))"
proof -
  let ?z = "\<lambda>k. obj_size (malloc_objs h k)"
  have parts: "blocks h = take (i - 1) (blocks h) @ malloc_objs h (i - 1) # malloc_objs h i # drop (i + 1) (blocks h)"
    "drop (i + 1) (blocks h) = malloc_objs h (i + 1) # drop (i + 2) (blocks h)"
    using blocks_parts [of "i - 1" h] blocks_drop [of "i + 1" h] assms(2,3) by simp_all
  have tot: "total (take (i - 1) (blocks h)) + (?z (i - 1) + (?z i + total (drop (i + 1) (blocks h)))) = 8192"
    using assms(1) parts(1) by (metis heap_ok_def total_Cons(2,3))
  moreover have "?z (i + 1) \<le> total (drop (i + 1) (blocks h))" using parts(2) by simp
  ultimately have "?z i + ?z (i + 1) < 2 ^ 15" by simp
  note fr = free_at_blocks_prev [OF assms(2-5) this]
  have "obj_count (free_at i h) \<le> 2048" using assms(1,3) by (auto simp: free_at_def Let_def free_shift_eq heap_ok_def)
  then have "heap_ok (free_at i h) \<longleftrightarrow> total (blocks (free_at i h)) = 8192" by (simp add: heap_ok_def)
  then show ?thesis using fr tot by auto
qed

theorem free_merges_wrong_size_witness:
  "\<not> heap_ok (free_at 1 (heap_of [obj False 1, obj True 1, obj True 10, obj False 8180]))"
  using free_merges_wrong_size [of "heap_of [obj False 1, obj True 1, obj True 10, obj False 8180]" 1]
  by (simp add: heap_ok_def obj_def)

end
