(* ===== verification/Lib.thy ===== *)
theory Lib
  imports Memory
begin

text \<open>
  \<^verbatim>\<open>student-distrib/lib.c\<close>: character classes, number conversion, C strings and the block
  routines written in assembly. Every loop is the loop of the source. A scan for the
  terminating NUL that may run forever is a partial function whose value \<open>None\<close> is "does not
  return"; a trap (division by zero) or a read outside \<^verbatim>\<open>lookup\<close> is \<open>None\<close> too.
\<close>

subsection \<open>Character classes and numbers\<close>

definition isalpha :: "byte \<Rightarrow> bool" where
  "isalpha ch \<longleftrightarrow> (97 \<le> ch \<and> ch \<le> 122) \<or> (65 \<le> ch \<and> ch \<le> 90)"

definition isnum :: "byte \<Rightarrow> bool" where
  "isnum ch \<longleftrightarrow> 48 \<le> ch \<and> ch \<le> 57"

definition isalnum :: "byte \<Rightarrow> bool" where
  "isalnum ch \<longleftrightarrow> isalpha ch \<or> isnum ch"

partial_function (option) strlen_loop :: "mem \<Rightarrow> addr \<Rightarrow> nat \<Rightarrow> nat option" where
  "strlen_loop m s len = (if m (s + len) \<noteq> 0 then strlen_loop m s (len + 1) else Some len)"

definition strlen :: "mem \<Rightarrow> addr \<Rightarrow> nat option" where
  "strlen m s = strlen_loop m s 0"

function strrev_loop :: "mem \<Rightarrow> addr \<Rightarrow> int \<Rightarrow> int \<Rightarrow> mem" where
  "strrev_loop m s b e =
     (if b < e
      then strrev_loop (m(s + nat e := m (s + nat b), s + nat b := m (s + nat e))) s (b + 1) (e - 1)
      else m)"
  by pat_completeness auto
termination
  by (relation "measure (\<lambda>(m, s, b, e). nat (e - b))") auto

declare strrev_loop.simps [simp del]

definition strrev :: "mem \<Rightarrow> addr \<Rightarrow> mem option" where
  "strrev m s =
     (case strlen m s of
        None \<Rightarrow> None
      | Some n \<Rightarrow> Some (strrev_loop m s 0 (s32 (int n) - 1)))"

definition lookup :: "byte list" where
  "lookup = bytes_of ''0123456789ABCDEFGHIJKLMNOPQRSTUVWXYZ'' @ [0]"

partial_function (option) itoa_loop :: "mem \<Rightarrow> addr \<Rightarrow> nat \<Rightarrow> nat \<Rightarrow> (mem \<times> addr) option" where
  "itoa_loop m newbuf newval radix =
     (if newval = 0 then Some (m, newbuf)
      else if radix = 0 then None
      else if newval mod radix < length lookup
      then itoa_loop (m(newbuf := lookup ! (newval mod radix))) (newbuf + 1) (newval div radix) radix
      else None)"

definition itoa :: "mem \<Rightarrow> nat \<Rightarrow> addr \<Rightarrow> int \<Rightarrow> mem option" where
  "itoa m val buf radix =
     (if val = 0 then Some (m(buf := 48, buf + 1 := 0))
      else case itoa_loop m buf val (to_u32 radix) of
             None \<Rightarrow> None
           | Some (m', newbuf) \<Rightarrow> strrev (m'(newbuf := 0)) buf)"

definition atoi_digit :: "byte \<Rightarrow> int" where
  "atoi_digit c =
     (if 48 \<le> sint c \<and> sint c \<le> 57 then sint c - 48
      else if 97 \<le> sint c \<and> sint c \<le> 122 then sint c - 97 + 10
      else if 65 \<le> sint c \<and> sint c \<le> 90 then sint c - 65 + 10
      else 0)"

partial_function (option) atoi_loop :: "mem \<Rightarrow> addr \<Rightarrow> int \<Rightarrow> int \<Rightarrow> int option" where
  "atoi_loop m buf radix res =
     (if m buf = 0 then Some res
      else atoi_loop m (buf + 1) radix (s32 (s32 (res * radix) + atoi_digit (m buf))))"

definition atoi :: "mem \<Rightarrow> addr \<Rightarrow> int \<Rightarrow> int option" where
  "atoi m buf radix = atoi_loop m buf radix 0"

subsection \<open>Block routines\<close>

text \<open>
  The assembly of \<open>memset\<close> and \<open>memcpy\<close> moves single bytes until the destination is aligned,
  then double words with a repeated string instruction, then the remaining bytes.
\<close>

fun rep_stosl :: "nat \<Rightarrow> mem \<Rightarrow> addr \<Rightarrow> nat \<Rightarrow> mem \<times> addr" where
  "rep_stosl 0 m edi eax = (m, edi)"
| "rep_stosl (Suc ecx) m edi eax = rep_stosl ecx (store32 m edi eax) (edi + 4) eax"

fun memset_bottom :: "nat \<Rightarrow> mem \<Rightarrow> addr \<Rightarrow> nat \<Rightarrow> mem" where
  "memset_bottom 0 m edi eax = m"
| "memset_bottom (Suc edx) m edi eax = memset_bottom edx (m(edi := word_of_nat eax)) (edi + 1) eax"

fun memset_top :: "nat \<Rightarrow> mem \<Rightarrow> addr \<Rightarrow> nat \<Rightarrow> mem" where
  "memset_top 0 m edi eax = m"
| "memset_top (Suc ecx) m edi eax =
     (if edi mod 4 = 0
      then (case rep_stosl (Suc ecx div 4) m edi eax of
              (m', edi') \<Rightarrow> memset_bottom (Suc ecx mod 4) m' edi' eax)
      else memset_top ecx (m(edi := word_of_nat eax)) (edi + 1) eax)"

definition memset :: "mem \<Rightarrow> addr \<Rightarrow> int \<Rightarrow> nat \<Rightarrow> mem" where
  "memset m s c n =
     (let c' = nat (c mod 256)
      in memset_top n m s (c' * 16777216 + c' * 65536 + c' * 256 + c'))"

fun memset_word :: "mem \<Rightarrow> addr \<Rightarrow> nat \<Rightarrow> nat \<Rightarrow> mem" where
  "memset_word m s c 0 = m"
| "memset_word m s c (Suc n) =
     memset_word (m(s := word_of_nat c, s + 1 := word_of_nat (c div 256))) (s + 2) c n"

definition memset_dword :: "mem \<Rightarrow> addr \<Rightarrow> nat \<Rightarrow> nat \<Rightarrow> mem" where
  "memset_dword m s c n = fst (rep_stosl n m s c)"

fun rep_movsl :: "nat \<Rightarrow> mem \<Rightarrow> addr \<Rightarrow> addr \<Rightarrow> mem \<times> addr \<times> addr" where
  "rep_movsl 0 m edi esi = (m, edi, esi)"
| "rep_movsl (Suc ecx) m edi esi =
     rep_movsl ecx (store32 m edi (load32 m esi)) (edi + 4) (esi + 4)"

fun memcpy_bottom :: "nat \<Rightarrow> mem \<Rightarrow> addr \<Rightarrow> addr \<Rightarrow> mem" where
  "memcpy_bottom 0 m edi esi = m"
| "memcpy_bottom (Suc edx) m edi esi = memcpy_bottom edx (m(edi := m esi)) (edi + 1) (esi + 1)"

fun memcpy_top :: "nat \<Rightarrow> mem \<Rightarrow> addr \<Rightarrow> addr \<Rightarrow> mem" where
  "memcpy_top 0 m edi esi = m"
| "memcpy_top (Suc ecx) m edi esi =
     (if edi mod 4 = 0
      then (case rep_movsl (Suc ecx div 4) m edi esi of
              (m', edi', esi') \<Rightarrow> memcpy_bottom (Suc ecx mod 4) m' edi' esi')
      else memcpy_top ecx (m(edi := m esi)) (edi + 1) (esi + 1))"

definition memcpy :: "mem \<Rightarrow> addr \<Rightarrow> addr \<Rightarrow> nat \<Rightarrow> mem" where
  "memcpy m dest src n = memcpy_top n m dest src"

text \<open>
  \<open>rep_movsb df\<close> moves bytes upwards when the direction flag is clear, downwards when it is
  set. \<open>memmove\<close> also returns the direction flag it leaves behind.
\<close>

fun rep_movsb :: "bool \<Rightarrow> nat \<Rightarrow> mem \<Rightarrow> addr \<Rightarrow> addr \<Rightarrow> mem" where
  "rep_movsb df 0 m edi esi = m"
| "rep_movsb df (Suc ecx) m edi esi =
     (if df then rep_movsb df ecx (m(edi := m esi)) (edi - 1) (esi - 1)
      else rep_movsb df ecx (m(edi := m esi)) (edi + 1) (esi + 1))"

definition memmove :: "mem \<Rightarrow> addr \<Rightarrow> addr \<Rightarrow> nat \<Rightarrow> mem \<times> bool" where
  "memmove m dest src n =
     (if dest \<le> src then (rep_movsb False n m dest src, False)
      else (rep_movsb True n m (dest + n - 1) (src + n - 1), True))"

subsection \<open>C strings\<close>

fun strncmp_loop :: "mem \<Rightarrow> addr \<Rightarrow> addr \<Rightarrow> nat \<Rightarrow> nat \<Rightarrow> int" where
  "strncmp_loop m p1 p2 i 0 = 0"
| "strncmp_loop m p1 p2 i (Suc k) =
     (if m (p1 + i) \<noteq> m (p2 + i) \<or> m (p1 + i) = 0 \<or> m (p2 + i) = 0
      then sint (m (p1 + i)) - sint (m (p2 + i))
      else strncmp_loop m p1 p2 (i + 1) k)"

definition strncmp :: "mem \<Rightarrow> addr \<Rightarrow> addr \<Rightarrow> nat \<Rightarrow> int" where
  "strncmp m p1 p2 n = strncmp_loop m p1 p2 0 n"

partial_function (option) strcpy_loop :: "mem \<Rightarrow> addr \<Rightarrow> addr \<Rightarrow> nat \<Rightarrow> mem option" where
  "strcpy_loop m dest src i =
     (if m (src + i) \<noteq> 0 then strcpy_loop (m(dest + i := m (src + i))) dest src (i + 1)
      else Some (m(dest + i := 0)))"

definition strcpy :: "mem \<Rightarrow> addr \<Rightarrow> addr \<Rightarrow> mem option" where
  "strcpy m dest src = strcpy_loop m dest src 0"

fun strncpy_pad :: "mem \<Rightarrow> addr \<Rightarrow> nat \<Rightarrow> nat \<Rightarrow> mem" where
  "strncpy_pad m dest i 0 = m"
| "strncpy_pad m dest i (Suc k) = strncpy_pad (m(dest + i := 0)) dest (i + 1) k"

fun strncpy_loop :: "mem \<Rightarrow> addr \<Rightarrow> addr \<Rightarrow> nat \<Rightarrow> nat \<Rightarrow> mem" where
  "strncpy_loop m dest src i 0 = m"
| "strncpy_loop m dest src i (Suc k) =
     (if m (src + i) \<noteq> 0 then strncpy_loop (m(dest + i := m (src + i))) dest src (i + 1) k
      else strncpy_pad m dest i (Suc k))"

definition strncpy :: "mem \<Rightarrow> addr \<Rightarrow> addr \<Rightarrow> nat \<Rightarrow> mem" where
  "strncpy m dest src n = strncpy_loop m dest src 0 n"

subsection \<open>Specifications\<close>

text \<open>Digits of a number, least significant first, and the value they stand for.\<close>

function ldigits :: "nat \<Rightarrow> nat \<Rightarrow> nat list" where
  "ldigits r n = (if n = 0 \<or> r < 2 then [] else n mod r # ldigits r (n div r))"
  by pat_completeness auto
termination
  by (relation "measure snd") auto

declare ldigits.simps [simp del]

text \<open>The ASCII form of a number: its digits, most significant first; a single 0 for zero.\<close>

definition ascii_digits :: "nat \<Rightarrow> nat \<Rightarrow> byte list" where
  "ascii_digits r n = (if n = 0 then [48] else map (\<lambda>d. lookup ! d) (rev (ldigits r n)))"

text \<open>The part of a fixed-size name field that counts: up to its first NUL, at most \<open>n\<close> bytes.\<close>

definition name_at :: "mem \<Rightarrow> addr \<Rightarrow> nat \<Rightarrow> byte list" where
  "name_at m a n = takeWhile (\<lambda>c. c \<noteq> 0) (load_list m a n)"

text \<open>A name field of \<open>n\<close> bytes: the name padded with NULs.\<close>

definition name_field :: "byte list \<Rightarrow> nat \<Rightarrow> byte list" where
  "name_field xs n = xs @ replicate (n - length xs) 0"

subsection \<open>Block routines meet their specification\<close>

lemma blit_Suc_byte: "m(d := m s) = blit m d s 1"
  by (rule ext) (auto simp: blit_def)

lemma load32_bytes:
  "(word_of_nat (load32 m a div 256) :: byte) = m (a + 1)"
  "(word_of_nat (load32 m a div 65536) :: byte) = m (a + 2)"
  "(word_of_nat (load32 m a div 16777216) :: byte) = m (a + 3)"
proof -
  have b: "unat (m x) < 256" for x
    using unsigned_less [of "m x"] by simp
  have 1: "load32 m a div 256 = unat (m (a + 1)) + 256 * (unat (m (a + 2)) + 256 * unat (m (a + 3)))"
    using b [of a] by (simp add: load32_def)
  have 2: "load32 m a div 65536 = unat (m (a + 2)) + 256 * unat (m (a + 3))"
    using b [of a] b [of "a + 1"] by (simp add: load32_def)
  have 3: "load32 m a div 16777216 = unat (m (a + 3)) + 256 * 0"
    using b [of a] b [of "a + 1"] b [of "a + 2"] by (simp add: load32_def)
  have low: "(word_of_nat (unat (m x) + 256 * k) :: byte) = m x" for x k
  proof -
    have "unat (word_of_nat (unat (m x) + 256 * k) :: byte) = unat (m x)"
      by (simp only: unat_word_of_nat_byte mod_mult_self2 mod_less [OF b])
    then show ?thesis by (rule unsigned_word_eqI)
  qed
  show "(word_of_nat (load32 m a div 256) :: byte) = m (a + 1)" by (simp only: 1 low)
  show "(word_of_nat (load32 m a div 65536) :: byte) = m (a + 2)" by (simp only: 2 low)
  show "(word_of_nat (load32 m a div 16777216) :: byte) = m (a + 3)" by (simp only: 3 low)
qed

lemma store_load32_blit: "store32 m d (load32 m s) = blit m d s 4"
proof (rule ext)
  fix x
  consider "x < d \<or> d + 4 \<le> x" | "x = d" | "x = d + 1" | "x = d + 2" | "x = d + 3" by linarith
  then show "store32 m d (load32 m s) x = blit m d s 4 x"
    by cases (auto simp: store32_def blit_def load32_bytes [simplified])
qed

lemma rep_movsl_blit:
  "d \<le> s \<or> s + 4 * n \<le> d \<Longrightarrow> rep_movsl n m d s = (blit m d s (4 * n), d + 4 * n, s + 4 * n)"
proof (induction n arbitrary: m d s)
  case 0
  then show ?case by simp
next
  case (Suc n)
  have "rep_movsl (Suc n) m d s = (blit (blit m d s 4) (d + 4) (s + 4) (4 * n), d + 4 + 4 * n, s + 4 + 4 * n)"
    using Suc.prems by (auto simp: store_load32_blit intro!: Suc.IH)
  moreover have "blit (blit m d s 4) (d + 4) (s + 4) (4 * n) = blit m d s (4 + 4 * n)"
    using Suc.prems by (intro blit_split) auto
  ultimately show ?case by simp
qed

lemma memcpy_bottom_blit: "d \<le> s \<or> s + n \<le> d \<Longrightarrow> memcpy_bottom n m d s = blit m d s n"
proof (induction n arbitrary: m d s)
  case 0
  then show ?case by simp
next
  case (Suc n)
  have "memcpy_bottom (Suc n) m d s = blit (blit m d s 1) (d + 1) (s + 1) n"
    using Suc.prems by (auto simp: blit_Suc_byte intro!: Suc.IH)
  also have "\<dots> = blit m d s (1 + n)"
    using Suc.prems by (intro blit_split) auto
  finally show ?case by simp
qed

lemma memcpy_top_blit: "d \<le> s \<or> s + n \<le> d \<Longrightarrow> memcpy_top n m d s = blit m d s n"
proof (induction n arbitrary: m d s)
  case 0
  then show ?case by simp
next
  case (Suc n)
  show ?case
  proof (cases "d mod 4 = 0")
    case True
    let ?w = "Suc n div 4" and ?t = "Suc n mod 4"
    have n: "4 * ?w + ?t = Suc n" by simp
    have le: "4 * ?w \<le> Suc n" by simp
    have "memcpy_top (Suc n) m d s = memcpy_bottom ?t (blit m d s (4 * ?w)) (d + 4 * ?w) (s + 4 * ?w)"
      using True rep_movsl_blit [of d s ?w m] Suc.prems le by auto
    also have "\<dots> = blit (blit m d s (4 * ?w)) (d + 4 * ?w) (s + 4 * ?w) ?t"
      using Suc.prems n by (intro memcpy_bottom_blit) linarith
    also have "\<dots> = blit m d s (4 * ?w + ?t)"
      using Suc.prems n by (intro blit_split) linarith
    finally show ?thesis by (simp only: n)
  next
    case False
    then have "memcpy_top (Suc n) m d s = blit (blit m d s 1) (d + 1) (s + 1) n"
      using Suc.prems by (auto simp: blit_Suc_byte intro!: Suc.IH)
    also have "\<dots> = blit m d s (1 + n)"
      using Suc.prems by (intro blit_split) auto
    finally show ?thesis by simp
  qed
qed

lemma memcpy_blit: "d \<le> s \<or> s + n \<le> d \<Longrightarrow> memcpy m d s n = blit m d s n"
  by (simp add: memcpy_def memcpy_top_blit)

lemma rep_movsb_up: "d \<le> s \<Longrightarrow> rep_movsb False n m d s = blit m d s n"
proof (induction n arbitrary: m d s)
  case 0
  then show ?case by simp
next
  case (Suc n)
  then have "rep_movsb False (Suc n) m d s = blit (blit m d s 1) (d + 1) (s + 1) n"
    by (simp add: blit_Suc_byte)
  also have "\<dots> = blit m d s (1 + n)"
    using Suc.prems by (intro blit_split) auto
  finally show ?case by simp
qed

lemma rep_movsb_down: "s \<le> d \<Longrightarrow> rep_movsb True n m (d + n - 1) (s + n - 1) = blit m d s n"
proof (induction n arbitrary: m)
  case 0
  then show ?case by simp
next
  case (Suc n)
  then have "rep_movsb True (Suc n) m (d + Suc n - 1) (s + Suc n - 1)
      = blit (blit m (d + n) (s + n) 1) d s n"
    by (simp add: blit_Suc_byte)
  also have "\<dots> = blit m d s (n + 1)"
    using Suc.prems by (intro blit_split_back) auto
  finally show ?case by simp
qed


lemma memmove_blit: "fst (memmove m d s n) = blit m d s n"
  using rep_movsb_down [of s d n m] by (auto simp: memmove_def rep_movsb_up)

lemma rep_stosl_fill:
  assumes "\<And>m' e. store32 m' e v = fill m' e c 4"
  shows "rep_stosl n m d v = (fill m d c (4 * n), d + 4 * n)"
proof (induction n arbitrary: m d)
  case 0
  then show ?case by simp
next
  case (Suc n)
  then show ?case by (simp add: assms fill_split)
qed

lemma fill_Suc_byte: "m(d := c) = fill m d c 1"
  by (rule ext) (auto simp: fill_def)

lemma memset_bottom_fill: "memset_bottom n m d v = fill m d (word_of_nat v) n"
proof (induction n arbitrary: m d)
  case 0
  then show ?case by simp
next
  case (Suc n)
  then show ?case using fill_split [of m d "word_of_nat v" 1 n] by (simp add: fill_Suc_byte)
qed

lemma memset_top_fill:
  assumes st: "\<And>m' e. store32 m' e v = fill m' e (word_of_nat v) 4"
  shows "memset_top n m d v = fill m d (word_of_nat v) n"
proof (induction n arbitrary: m d)
  case 0
  then show ?case by simp
next
  case (Suc n)
  show ?case
  proof (cases "d mod 4 = 0")
    case True
    then have "memset_top (Suc n) m d v
        = fill (fill m d (word_of_nat v) (4 * (Suc n div 4))) (d + 4 * (Suc n div 4)) (word_of_nat v) (Suc n mod 4)"
      by (simp add: rep_stosl_fill [OF st] memset_bottom_fill)
    also have "\<dots> = fill m d (word_of_nat v) (4 * (Suc n div 4) + Suc n mod 4)"
      by (rule fill_split)
    finally show ?thesis by (simp only: mult_div_mod_eq)
  next
    case False
    with Suc.IH show ?thesis
      using fill_split [of m d "word_of_nat v" 1 n] by (simp add: fill_Suc_byte)
  qed
qed

lemma memset_fill: "memset m d c n = fill m d (word_of_int c) n"
proof -
  define k where "k = nat (c mod 256)"
  define v where "v = k * 16777216 + k * 65536 + k * 256 + k"
  have k: "k < 256" by (simp add: k_def nat_less_iff)
  have d: "v div 256 = k * 65536 + k * 256 + k" "v div 65536 = k * 256 + k" "v div 16777216 = k"
    using k by (simp_all add: v_def)
  have v: "v = k + 256 * (k * 65536 + k * 256 + k)" "v div 256 = k + 256 * (k * 256 + k)"
    "v div 65536 = k + 256 * k"
    using d by (simp_all add: v_def)
  have w: "(word_of_nat v :: byte) = word_of_nat k" "(word_of_nat (v div 256) :: byte) = word_of_nat k"
    "(word_of_nat (v div 65536) :: byte) = word_of_nat k" "(word_of_nat (v div 16777216) :: byte) = word_of_nat k"
    by (subst v, rule word_of_nat_byte_add)+ (simp only: d)
  have "store32 m' e v = fill m' e (word_of_nat v) 4" for m' e
    by (rule ext) (simp only: store32_def w, auto simp: fill_def)
  then have "memset_top n m d v = fill m d (word_of_nat v) n"
    by (rule memset_top_fill)
  moreover have "(word_of_nat k :: byte) = word_of_int c"
    by (simp add: k_def of_nat_nat word_of_int_eq_iff take_bit_eq_mod)
  moreover have "memset m d c n = memset_top n m d v"
    by (simp only: memset_def Let_def v_def k_def)
  ultimately show ?thesis by (simp only: w)
qed


subsection \<open>String routines meet their specification\<close>

lemma strlen_loop_cstr:
  "cstr m s xs \<Longrightarrow> i \<le> length xs \<Longrightarrow> strlen_loop m s i = Some (length xs)"
proof (induction "length xs - i" arbitrary: i)
  case 0
  then show ?case using cstr_end [of m s xs] by (simp add: strlen_loop.simps)
next
  case (Suc k)
  then have "m (s + i) \<noteq> 0" by (intro cstr_nonzero) auto
  with Suc show ?case by (subst strlen_loop.simps) auto
qed

lemma strlen_cstr: "cstr m s xs \<Longrightarrow> strlen m s = Some (length xs)"
  by (simp add: strlen_def strlen_loop_cstr)

lemma strrev_loop_nth:
  "strrev_loop m s (int b) (int e) a =
    (if s + b \<le> a \<and> a \<le> s + e then m (s + (b + e - (a - s))) else m a)"
proof (induction "e - b" arbitrary: m b e rule: less_induct)
  case less
  show ?case
  proof (cases "b < e")
    case False
    then show ?thesis by (subst strrev_loop.simps) (auto simp: le_less)
  next
    case True
    let ?m = "m(s + e := m (s + b), s + b := m (s + e))"
    have "strrev_loop m s (int b) (int e) a = strrev_loop ?m s (int b + 1) (int e - 1) a"
      using True by (subst strrev_loop.simps) simp
    also have "int b + 1 = int (Suc b)" by simp
    also have "int e - 1 = int (e - 1)" using True by simp
    also have "strrev_loop ?m s (int (Suc b)) (int (e - 1)) a =
        (if s + Suc b \<le> a \<and> a \<le> s + (e - 1) then ?m (s + (Suc b + (e - 1) - (a - s))) else ?m a)"
      using True by (intro less) simp
    also have "\<dots> = (if s + b \<le> a \<and> a \<le> s + e then m (s + (b + e - (a - s))) else m a)"
    proof -
      consider "a < s + b \<or> s + e < a" | "a = s + b" | "a = s + e"
        | "s + b < a" "a < s + e" by linarith
      then show ?thesis
      proof cases
        case 4
        define j where "j = a - s"
        with 4 have j: "a = s + j" "b < j" "j < e" by auto
        define k where "k = b + e - j"
        have k: "k \<noteq> b" "k \<noteq> e" "Suc b + (e - 1) - j = k" "b + e - j = k" and "j \<le> e - 1"
          unfolding k_def using j(2,3) by arith+
        have a: "a - s = j" using j(1) by simp
        have c: "s + Suc b \<le> a" "a \<le> s + (e - 1)" "s + b \<le> a" "a \<le> s + e"
          unfolding j(1) using j(2,3) \<open>j \<le> e - 1\<close> by (intro add_left_mono; simp)+
        have "?m (s + k) = m (s + k)" using k(1,2) by simp
        then show ?thesis by (simp only: a k c simp_thms if_True)
      next
        case 1
        then have "\<not> (s + Suc b \<le> a \<and> a \<le> s + (e - 1))" "\<not> (s + b \<le> a \<and> a \<le> s + e)"
          "a \<noteq> s + b" "a \<noteq> s + e" using True by linarith+
        then show ?thesis by (simp only: if_False) (simp only: fun_upd_apply if_False)
      next
        case 2
        with True show ?thesis by simp
      next
        case 3
        then have "\<not> a \<le> s + (e - 1)" "a \<noteq> s + b" using True by linarith+
        with 3 True show ?thesis by simp
      qed
    qed
    finally show ?thesis .
  qed
qed

lemma strrev_cstr:
  assumes "cstr m s xs" and "length xs < 2147483648"
  shows "strrev m s = Some (store_list m s (rev xs))"
proof (cases "xs = []")
  case True
  with assms show ?thesis by (simp add: strrev_def strlen_cstr s32_def strrev_loop.simps)
next
  case False
  let ?e = "length xs - 1"
  have e: "s32 (int (length xs)) - 1 = int ?e"
    using assms(2) False by (simp add: wrap_simps of_nat_diff Suc_le_eq)
  have "strrev m s = Some (strrev_loop m s (int 0) (int ?e))"
    using assms by (simp add: strrev_def strlen_cstr e)
  moreover have "strrev_loop m s (int 0) (int ?e) a = store_list m s (rev xs) a" for a
  proof (cases "s \<le> a \<and> a < s + length xs")
    case True
    then obtain j where j: "a = s + j" "j < length xs"
      using that [of "a - s"] by auto
    then have "strrev_loop m s (int 0) (int ?e) a = m (s + (length xs - Suc j))"
      by (subst strrev_loop_nth) auto
    also have "\<dots> = xs ! (length xs - Suc j)"
      using assms(1) j by (intro cstr_nth) auto
    finally show ?thesis using j by (simp add: store_list_def rev_nth)
  next
    case out: False
    then have "\<not> (s + 0 \<le> a \<and> a \<le> s + ?e)" using False by (cases xs) auto
    then have "strrev_loop m s (int 0) (int ?e) a = m a" by (subst strrev_loop_nth) auto
    with out show ?thesis by (auto simp: store_list_def)
  qed
  ultimately show ?thesis by auto
qed

lemma length_lookup [simp]: "length lookup = 37"
  by (simp add: lookup_def bytes_of_def)

lemma ldigits_0 [simp]: "ldigits r 0 = []"
  by (simp add: ldigits.simps)

lemma ldigits_less: "d \<in> set (ldigits r n) \<Longrightarrow> d < r"
proof (induction r n rule: ldigits.induct)
  case (1 r n)
  show ?case
  proof (cases "n = 0 \<or> r < 2")
    case True
    with "1.prems" show ?thesis by (simp add: ldigits.simps [of r n])
  next
    case False
    with "1.prems" have "d = n mod r \<or> d \<in> set (ldigits r (n div r))"
      by (simp add: ldigits.simps [of r n])
    with False "1.IH" show ?thesis by auto
  qed
qed

lemma itoa_loop_digits:
  "2 \<le> r \<Longrightarrow> r \<le> 36 \<Longrightarrow> itoa_loop m b n r =
     Some (store_list m b (map (\<lambda>d. lookup ! d) (ldigits r n)), b + length (ldigits r n))"
proof (induction r n arbitrary: m b rule: ldigits.induct)
  case (1 r n)
  show ?case
  proof (cases "n = 0")
    case True
    then show ?thesis by (simp add: itoa_loop.simps)
  next
    case False
    let ?m = "m(b := lookup ! (n mod r))"
    have "n mod r < r" using "1.prems" by simp
    then have lt: "n mod r < 37" using "1.prems" by linarith
    have "itoa_loop m b n r = itoa_loop ?m (b + 1) (n div r) r"
      using False lt "1.prems" by (subst itoa_loop.simps) simp
    also have "\<dots> = Some (store_list ?m (b + 1) (map (\<lambda>d. lookup ! d) (ldigits r (n div r))),
        b + 1 + length (ldigits r (n div r)))"
      using False "1.prems" by (intro "1.IH") auto
    also have "?m = store_list m b [lookup ! (n mod r)]"
      using store_list_snoc [of m b "[]"] by simp
    finally show ?thesis
      using False "1.prems" store_list_append [of m b "[lookup ! (n mod r)]"]
      by (simp add: ldigits.simps [of r n])
  qed
qed

lemma lookup_nonzero: "d < 36 \<Longrightarrow> lookup ! d \<noteq> 0"
proof -
  assume "d < 36"
  then have "lookup ! d = butlast lookup ! d" by (simp add: nth_butlast)
  moreover have "0 \<notin> set (butlast lookup)"
    by (simp add: lookup_def bytes_of_def butlast_append)
  ultimately show ?thesis
    using \<open>d < 36\<close> nth_mem [of d "butlast lookup"] by force
qed

lemma cstr_ascii_digits:
  assumes "2 \<le> r" and "r \<le> 36"
  shows "0 \<notin> set (ascii_digits r n)"
proof -
  have "lookup ! d \<noteq> 0" if "d \<in> set (ldigits r n)" for d
    using ldigits_less [OF that] assms by (intro lookup_nonzero) linarith
  then show ?thesis by (auto simp: ascii_digits_def)
qed

lemma length_ldigits_le: "2 \<le> r \<Longrightarrow> n < r ^ k \<Longrightarrow> length (ldigits r n) \<le> k"
proof (induction k arbitrary: n)
  case 0
  then show ?case by simp
next
  case (Suc k)
  then have "n div r < r ^ k" by (simp add: less_mult_imp_div_less mult.commute)
  with Suc show ?case by (subst ldigits.simps) auto
qed

lemma length_ldigits_u32: "2 \<le> r \<Longrightarrow> n < 4294967296 \<Longrightarrow> length (ldigits r n) \<le> 32"
proof -
  assume a: "2 \<le> r" "n < 4294967296"
  have "(4294967296::nat) = 2 ^ 32" by simp
  also have "\<dots> \<le> r ^ 32" using a by (intro power_mono) auto
  finally show ?thesis using a by (intro length_ldigits_le) auto
qed

lemma itoa_spec:
  assumes "2 \<le> r" and "r \<le> 36" and "n < 4294967296"
  shows "itoa m n buf (int r) = Some (store_list m buf (ascii_digits r n @ [0]))"
proof (cases "n = 0")
  case True
  have "m(buf := 48, buf + 1 := 0) = store_list m buf [48, 0]"
    using store_list_snoc [of m buf "[48]"] store_list_snoc [of m buf "[]"] by simp
  with True show ?thesis by (simp add: itoa_def ascii_digits_def)
next
  case False
  let ?d = "map (\<lambda>d. lookup ! d) (ldigits r n)"
  let ?m = "(store_list m buf ?d)(buf + length ?d := 0)"
  have m: "?m = store_list m buf (?d @ [0])"
    by (simp add: store_list_snoc)
  have "0 \<notin> set ?d"
    using cstr_ascii_digits [of r n] assms False by (simp add: ascii_digits_def)
  then have c: "cstr ?m buf ?d" unfolding m by (rule cstr_store)
  have "length ?d < 2147483648"
    using length_ldigits_u32 [of r n] assms by simp
  then have "strrev ?m buf = Some (store_list ?m buf (rev ?d))"
    using c by (rule strrev_cstr [rotated])
  moreover have "store_list ?m buf (rev ?d) = store_list m buf (rev ?d @ [0])"
    unfolding m by (rule ext) (auto simp: store_list_def nth_append)
  ultimately show ?thesis
    using False assms itoa_loop_digits [of r m buf n]
    by (simp add: itoa_def wrap_simps ascii_digits_def rev_map)
qed


lemma atoi_loop_cstr:
  "cstr m b xs \<Longrightarrow> atoi_loop m b r res
     = Some (foldl (\<lambda>res c. s32 (s32 (res * r) + atoi_digit c)) res xs)"
proof (induction xs arbitrary: b res)
  case Nil
  then show ?case by (simp add: cstr_def atoi_loop.simps)
next
  case (Cons x xs)
  then have "m b = x" "x \<noteq> 0" and tl: "cstr m (b + 1) xs"
    by (auto simp: cstr_def load_list_Suc)
  with Cons.IH [OF tl] show ?case by (subst atoi_loop.simps) simp
qed

lemma foldl_s32:
  "foldl (\<lambda>res c. s32 (s32 (res * r) + f c)) (s32 a) xs = s32 (foldl (\<lambda>res c. res * r + f c) a xs)"
proof (induction xs arbitrary: a)
  case (Cons x xs)
  have "s32 (s32 (s32 a * r) + f x) = s32 (a * r + f x)"
    by (simp only: s32_mult_left s32_add_left)
  then show ?case by (simp only: foldl_Cons Cons.IH)
qed simp

lemma atoi_digit_lookup: "d < 36 \<Longrightarrow> atoi_digit (lookup ! d) = int d"
proof -
  have "map (\<lambda>d. atoi_digit (lookup ! d)) [0..<36] = map int [0..<36]"
    by (simp add: lookup_def bytes_of_def atoi_digit_def upt_rec numeral_eq_Suc)
  then show "d < 36 \<Longrightarrow> atoi_digit (lookup ! d) = int d"
    by (metis (no_types, lifting) add_0 diff_zero length_map length_upt nth_map nth_upt)
qed

lemma horner_ldigits:
  "2 \<le> r \<Longrightarrow> foldr (\<lambda>d res. res * int r + int d) (ldigits r n) 0 = int n"
proof (induction r n rule: ldigits.induct)
  case (1 r n)
  show ?case
  proof (cases "n = 0")
    case False
    with "1" have "foldr (\<lambda>d res. res * int r + int d) (ldigits r (n div r)) 0 = int (n div r)"
      by simp
    with False "1.prems" show ?thesis
      by (simp add: ldigits.simps [of r n] flip: of_nat_mult of_nat_add)
  qed simp
qed

lemma atoi_ascii_digits:
  assumes "2 \<le> r" and "r \<le> 36" and "cstr m b (ascii_digits r n)"
  shows "atoi m b (int r) = Some (s32 (int n))"
proof -
  let ?f = "\<lambda>res c. res * int r + atoi_digit c"
  have "atoi m b (int r) = Some (s32 (foldl ?f 0 (ascii_digits r n)))"
    using atoi_loop_cstr [OF assms(3), of "int r" 0] foldl_s32 [of "int r" atoi_digit 0]
    by (simp add: atoi_def s32_id)
  moreover have "foldl ?f 0 (ascii_digits r n) = int n"
  proof (cases "n = 0")
    case True
    then show ?thesis by (simp add: ascii_digits_def atoi_digit_def)
  next
    case False
    have "foldl ?f 0 (ascii_digits r n) = foldr (\<lambda>d res. res * int r + atoi_digit (lookup ! d)) (ldigits r n) 0"
      using False by (simp add: ascii_digits_def foldl_conv_foldr rev_map foldr_map comp_def)
    also have "\<dots> = foldr (\<lambda>d res. res * int r + int d) (ldigits r n) 0"
      using assms(2) ldigits_less [of _ r n] 
      by (intro foldr_cong refl ext) (metis atoi_digit_lookup order_less_le_trans)
    finally show ?thesis using assms(1) by (simp add: horner_ldigits)
  qed
  ultimately show ?thesis by simp
qed

lemma strcpy_loop_spec:
  assumes "cstr m src xs" and "disjoint_ranges dest (length xs + 1) src (length xs + 1)" and "i \<le> length xs"
  shows "strcpy_loop (store_list m dest (take i xs)) dest src i = Some (store_list m dest (xs @ [0]))"
  using assms(3)
proof (induction "length xs - i" arbitrary: i)
  case 0
  then have i: "i = length xs" by simp
  have "store_list m dest xs (src + length xs) = 0"
    using assms(1,2) by (subst store_list_other) (auto simp: disjoint_ranges_def cstr_def)
  with i show ?case by (subst strcpy_loop.simps) (simp add: store_list_snoc)
next
  case (Suc k)
  then have i: "i < length xs" by simp
  let ?m = "store_list m dest (take i xs)"
  have "?m (src + i) = m (src + i)"
    using assms(2) i by (intro store_list_other) (auto simp: disjoint_ranges_def)
  then have x: "?m (src + i) = xs ! i" and nz: "xs ! i \<noteq> 0"
    using cstr_nth [OF assms(1) i] cstr_nonzero [OF assms(1) i] by simp_all
  have "?m(dest + i := xs ! i) = store_list m dest (take (Suc i) xs)"
    using i store_list_snoc [of m dest "take i xs" "xs ! i"] by (simp add: take_Suc_conv_app_nth)
  with Suc x nz show ?case by (subst strcpy_loop.simps) simp
qed

lemma strcpy_spec:
  assumes "cstr m src xs" and "disjoint_ranges dest (length xs + 1) src (length xs + 1)"
  shows "strcpy m dest src = Some (store_list m dest (xs @ [0]))"
  using strcpy_loop_spec [OF assms, of 0] by (simp add: strcpy_def)

lemma strncmp_loop_eq0:
  "strncmp_loop m p1 p2 i k = 0 \<longleftrightarrow> name_at m (p1 + i) k = name_at m (p2 + i) k"
proof (induction k arbitrary: i)
  case 0
  then show ?case by (simp add: name_at_def)
next
  case (Suc k)
  have "sint (a :: byte) - sint b = 0 \<longleftrightarrow> a = b" for a b
    by (metis eq_iff_diff_eq_0 signed_word_eqI)
  moreover from this [of _ 0] have "sint (a :: byte) = 0 \<longleftrightarrow> a = 0" for a
    by simp
  ultimately show ?case
    using Suc [of "i + 1"] by (auto simp: name_at_def load_list_Suc)
qed

lemma strncmp_eq0: "strncmp m p1 p2 n = 0 \<longleftrightarrow> name_at m p1 n = name_at m p2 n"
  by (simp add: strncmp_def strncmp_loop_eq0)


lemma length_name_at: "length (name_at m a n) \<le> n"
  by (metis length_load_list length_takeWhile_le name_at_def)

lemma name_at_Suc:
  "name_at m a (Suc n) = (if m a = 0 then [] else m a # name_at m (a + 1) n)"
  by (simp add: name_at_def load_list_Suc)

lemma strncpy_pad_fill: "strncpy_pad m dest i k = fill m (dest + i) 0 k"
proof (induction k arbitrary: m i)
  case (Suc k)
  then show ?case using fill_split [of m "dest + i" 0 1 k] by (simp add: fill_Suc_byte)
qed simp

lemma strncpy_loop_spec:
  "disjoint_ranges (dest + i) k (src + i) k \<Longrightarrow> strncpy_loop m dest src i k
     = store_list m (dest + i) (name_field (name_at m (src + i) k) k)"
proof (induction k arbitrary: m i)
  case 0
  then show ?case by (simp add: name_at_def name_field_def)
next
  case (Suc k)
  show ?case
  proof (cases "m (src + i) = 0")
    case True
    then show ?thesis
      by (auto simp: name_at_Suc name_field_def strncpy_pad_fill fill_def store_list_def fun_eq_iff
          simp del: strncpy_pad.simps replicate_Suc)
  next
    case False
    let ?m = "m(dest + i := m (src + i))"
    have d: "disjoint_ranges (dest + (i + 1)) k (src + (i + 1)) k"
      using Suc.prems by (auto simp: disjoint_ranges_def)
    have "name_at ?m (src + i + 1) k = name_at m (src + i + 1) k"
      using Suc.prems unfolding name_at_def disjoint_ranges_def
      by (intro arg_cong [where f = "takeWhile _"] load_list_cong) auto
    moreover have "?m = store_list m (dest + i) [m (src + i)]"
      using store_list_snoc [of m "dest + i" "[]"] by simp
    ultimately show ?thesis
      using False Suc.IH [OF d, of ?m] store_list_append [of m "dest + i" "[m (src + i)]"]
      by (simp add: name_at_Suc name_field_def add.assoc)
  qed
qed

lemma strncpy_spec:
  "disjoint_ranges dest n src n \<Longrightarrow>
     strncpy m dest src n = store_list m dest (name_field (name_at m src n) n)"
  using strncpy_loop_spec [of dest 0 n src m] by (simp add: strncpy_def)

lemma length_name_field [simp]: "length xs \<le> n \<Longrightarrow> length (name_field xs n) = n"
  by (simp add: name_field_def)

lemma name_at_field: "0 \<notin> set xs \<Longrightarrow> length xs \<le> n \<Longrightarrow> name_at (store_list m a (name_field xs n)) a n = xs"
proof -
  assume a: "0 \<notin> set xs" "length xs \<le> n"
  then have "load_list (store_list m a (name_field xs n)) a n = name_field xs n"
    using load_store_list [of m a "name_field xs n"] by simp
  moreover have "takeWhile (\<lambda>c. c \<noteq> 0) (name_field xs n) = xs"
    using a by (cases "n - length xs") (auto simp: name_field_def takeWhile_append2 takeWhile_tail)
  ultimately show ?thesis by (simp add: name_at_def)
qed


subsection \<open>Properties\<close>

text \<open>
  C31: \<open>memcpy\<close>, with its byte head, aligned double-word middle and byte tail, copies exactly the
  \<open>n\<close> bytes, as if at once, whenever the destination does not start inside the source block.
\<close>

theorem memcpy_correct:
  assumes "dest \<le> src \<or> src + n \<le> dest"
  shows "memcpy m dest src n = blit m dest src n"
  using assms by (rule memcpy_blit)

theorem memcpy_correct_witness:
  "memcpy (list_mem [1, 2, 3, 4, 5, 6]) 1 3 3 = blit (list_mem [1, 2, 3, 4, 5, 6]) 1 3 3"
  using memcpy_correct [of 1 3 3 "list_mem [1, 2, 3, 4, 5, 6]"] by simp

text \<open>
  C32: \<open>memmove\<close> copies correctly however the blocks overlap, and it returns with the direction flag
  set exactly when it copied downwards.
\<close>

theorem memmove_correct: "memmove m dest src n = (blit m dest src n, src < dest)"
  using memmove_blit [of m dest src n] by (auto simp: memmove_def split: if_splits)

text \<open>
  \<open>memset\<close> stores the low byte of its argument in exactly the \<open>n\<close> bytes of the block.
\<close>

theorem memset_correct: "memset m s c n = fill m s (word_of_int c) n"
  by (rule memset_fill)

text \<open>
  Number conversion round trip: for every radix from 2 to 36 \<open>itoa\<close> returns, stores a
  NUL-terminated string of at most 32 digits and nothing beyond it, and \<open>atoi\<close> on that string
  returns the number as a signed 32-bit value.
\<close>

theorem itoa_atoi_roundtrip:
  assumes "2 \<le> r" and "r \<le> 36" and "v < 4294967296"
  shows "\<exists>m'. itoa m v buf (int r) = Some m' \<and> cstr m' buf (ascii_digits r v)
    \<and> length (ascii_digits r v) \<le> 32
    \<and> (\<forall>a. a < buf \<or> buf + length (ascii_digits r v) < a \<longrightarrow> m' a = m a)
    \<and> atoi m' buf (int r) = Some (s32 (int v))"
proof -
  let ?m = "store_list m buf (ascii_digits r v @ [0])"
  have c: "cstr ?m buf (ascii_digits r v)"
    by (rule cstr_store) (rule cstr_ascii_digits [OF assms(1,2)])
  have "length (ascii_digits r v) \<le> 32"
    using length_ldigits_u32 [OF assms(1,3)] by (simp add: ascii_digits_def)
  moreover have "?m a = m a" if "a < buf \<or> buf + length (ascii_digits r v) < a" for a
    using that by (intro store_list_other) auto
  ultimately show ?thesis
    using c itoa_spec [OF assms] atoi_ascii_digits [OF assms(1,2) c] by blast
qed

theorem itoa_atoi_roundtrip_witness:
  "\<exists>m'. itoa (\<lambda>_. 0) 4095 100 16 = Some m' \<and> atoi m' 100 16 = Some 4095"
proof -
  have "s32 4095 = 4095" by (simp add: s32_def)
  then show ?thesis
    using itoa_atoi_roundtrip [where r = 16 and v = 4095 and buf = 100 and m = "\<lambda>_. 0"] by auto
qed

end
