(* ===== verification/File_Sys.thy ===== *)
theory File_Sys
  imports Lib Tasks
begin

text \<open>
  \<^verbatim>\<open>student-distrib/file_sys.c\<close>: the read-only file system. Its image lies in memory from the
  boot block on: the boot block with the counts and 63 directory entries of 64 bytes, one
  4096-byte inode per file (size, then data block numbers), then the data blocks.

  \<open>read_data\<close> is the loop of the source, byte by byte over memory that it also writes.
  \<open>file_bytes\<close> is what an inode stands for; the refinement is in \<open>read_data_spec\<close>.
\<close>

abbreviation (input) MAX_NAME_LENGTH :: nat where "MAX_NAME_LENGTH \<equiv> 32"
abbreviation (input) MAX_BLOCK_NUM :: nat where "MAX_BLOCK_NUM \<equiv> 1023"
abbreviation (input) BLOCK_SIZE :: nat where "BLOCK_SIZE \<equiv> 4096"

definition FILE_TYPE_RTC :: int where "FILE_TYPE_RTC = 0"
definition FILE_TYPE_DIR :: int where "FILE_TYPE_DIR = 1"
definition FILE_TYPE_REG :: int where "FILE_TYPE_REG = 2"

record dentry_t =
  filename :: "byte list"
  filetype :: int
  inode_num :: int

record fs_globals =
  bblock_ptr :: addr
  inodes :: addr
  dentries :: addr

definition fs_init :: "addr \<Rightarrow> fs_globals" where
  "fs_init boot_ptr = \<lparr>bblock_ptr = boot_ptr, inodes = boot_ptr + BLOCK_SIZE, dentries = boot_ptr + 64\<rparr>"

subsection \<open>Directory entries\<close>

fun fn_length_loop :: "mem \<Rightarrow> addr \<Rightarrow> nat \<Rightarrow> nat \<Rightarrow> nat" where
  "fn_length_loop m fname len 0 = len"
| "fn_length_loop m fname len (Suc k) =
     (if m (fname + len) \<noteq> 0 then fn_length_loop m fname (len + 1) k else len)"

definition fn_length :: "mem \<Rightarrow> addr \<Rightarrow> nat" where
  "fn_length m fname = fn_length_loop m fname 0 MAX_NAME_LENGTH"

text \<open>
  The copy of the name goes to a local structure; \<open>strncpy_spec\<close> gives the bytes it has then.
  \<open>None\<close> is the result -1.
\<close>

definition read_dentry_by_index :: "mem \<Rightarrow> fs_globals \<Rightarrow> nat \<Rightarrow> dentry_t option" where
  "read_dentry_by_index m g index =
     (if load32 m (bblock_ptr g) \<le> index then None
      else let d = dentries g + 64 * index
           in Some \<lparr>filename = name_field (name_at m d MAX_NAME_LENGTH) MAX_NAME_LENGTH,
                filetype = s32 (int (load32 m (d + 32))), inode_num = s32 (int (load32 m (d + 36)))\<rparr>)"

fun dentry_loop :: "mem \<Rightarrow> fs_globals \<Rightarrow> addr \<Rightarrow> nat \<Rightarrow> nat \<Rightarrow> dentry_t option" where
  "dentry_loop m g fname i 0 = None"
| "dentry_loop m g fname i (Suc k) =
     (if strncmp m (dentries g + 64 * i) fname MAX_NAME_LENGTH = 0 then read_dentry_by_index m g i
      else dentry_loop m g fname (i + 1) k)"

definition read_dentry_by_name :: "mem \<Rightarrow> fs_globals \<Rightarrow> addr \<Rightarrow> dentry_t option" where
  "read_dentry_by_name m g fname =
     (if fn_length m fname = 0 then None
      else dentry_loop m g fname 0 (nat (s32 (int (load32 m (bblock_ptr g))))))"

subsection \<open>File data\<close>

definition file_size :: "mem \<Rightarrow> fs_globals \<Rightarrow> nat \<Rightarrow> nat" where
  "file_size m g ino = load32 m (inodes g + BLOCK_SIZE * ino)"

definition data_block :: "mem \<Rightarrow> fs_globals \<Rightarrow> nat \<Rightarrow> nat \<Rightarrow> nat" where
  "data_block m g ino j = load32 m (inodes g + BLOCK_SIZE * ino + 4 + 4 * j)"

fun read_data_loop ::
  "mem \<Rightarrow> fs_globals \<Rightarrow> nat \<Rightarrow> nat \<Rightarrow> nat \<Rightarrow> nat \<Rightarrow> nat \<Rightarrow> nat \<Rightarrow> nat \<Rightarrow> addr \<Rightarrow> mem" where
  "read_data_loop m g ino inode_count data_offset 0 i starting_index cur_byte cur_buf_pos = m"
| "read_data_loop m g ino inode_count data_offset (Suc k) i starting_index cur_byte cur_buf_pos =
     (let switch = (i + data_offset) mod BLOCK_SIZE = 0 \<and> i + data_offset \<noteq> 0;
          starting_index' = (if switch then starting_index + 1 else starting_index);
          cur_byte' = (if switch
            then u32 (bblock_ptr g + inode_count * BLOCK_SIZE
                  + data_block m g ino starting_index' * BLOCK_SIZE + BLOCK_SIZE)
            else cur_byte)
      in read_data_loop (m(cur_buf_pos := word_of_nat (load32 m cur_byte'))) g ino inode_count
           data_offset k (i + 1) starting_index' (u32 (cur_byte' + 1)) (cur_buf_pos + 1))"

definition read_data :: "mem \<Rightarrow> fs_globals \<Rightarrow> int \<Rightarrow> nat \<Rightarrow> addr \<Rightarrow> nat \<Rightarrow> int \<times> mem" where
  "read_data m g inum offset buf len =
     (let inode_count = load32 m (bblock_ptr g + 4)
      in if s32 (int inode_count) < inum \<or> inum < 0 then (0, m)
         else let ino = nat inum; size = file_size m g ino
         in if size \<le> offset then (0, m)
            else let actual_len = s32 (int (if size < u32 (len + offset) then u32 (size - offset) else len));
                     starting_index = offset div BLOCK_SIZE;
                     data_offset = offset mod BLOCK_SIZE;
                     cur_byte = u32 (bblock_ptr g + inode_count * BLOCK_SIZE
                       + data_block m g ino starting_index * BLOCK_SIZE + data_offset + BLOCK_SIZE);
                     k = nat actual_len
                 in (int k, read_data_loop m g ino inode_count data_offset k 0 starting_index cur_byte buf))"

subsection \<open>File operations\<close>

definition fs_open :: "mem \<Rightarrow> fs_globals \<Rightarrow> addr \<Rightarrow> FILE \<Rightarrow> int \<times> FILE" where
  "fs_open m g fname file =
     (case read_dentry_by_name m g fname of
        None \<Rightarrow> (-1, file)
      | Some dent \<Rightarrow>
          let file' = file\<lparr>pos := 0, inode := word_of_int (inode_num dent)\<rparr>
          in (0, if filetype dent = FILE_TYPE_REG
                 then file'\<lparr>file_ops := fs_file_ops_table, ftype := TASK_FILE_REG\<rparr>
                 else file'\<lparr>file_ops := fs_dir_ops_table, ftype := TASK_FILE_DIR\<rparr>))"

definition fs_file_read :: "mem \<Rightarrow> fs_globals \<Rightarrow> addr \<Rightarrow> nat \<Rightarrow> FILE \<Rightarrow> int \<times> mem \<times> FILE" where
  "fs_file_read m g buf len file =
     (case read_data m g (sint (inode file)) (to_u32 (pos file)) buf len of
        (bytes_read, m') \<Rightarrow> (bytes_read, m', file\<lparr>pos := s32 (pos file + bytes_read)\<rparr>))"

definition fs_file_write :: int where "fs_file_write = -1"
definition fs_file_close :: int where "fs_file_close = 0"

definition fs_dir_read :: "mem \<Rightarrow> fs_globals \<Rightarrow> addr \<Rightarrow> nat \<Rightarrow> FILE \<Rightarrow> int \<times> mem \<times> FILE" where
  "fs_dir_read m g buf len file =
     (case read_dentry_by_index m g (to_u32 (pos file)) of
        None \<Rightarrow> (0, m, file)
      | Some d \<Rightarrow>
          let m' = store_list m buf (filename d)
          in (int (fn_length m' buf), m', file\<lparr>pos := s32 (pos file + 1)\<rparr>))"

definition fs_dir_write :: int where "fs_dir_write = -1"
definition fs_dir_close :: int where "fs_dir_close = 0"

subsection \<open>What an image stands for\<close>

definition inode_count_of :: "mem \<Rightarrow> fs_globals \<Rightarrow> nat" where
  "inode_count_of m g = load32 m (bblock_ptr g + 4)"

definition data_block_count_of :: "mem \<Rightarrow> fs_globals \<Rightarrow> nat" where
  "data_block_count_of m g = load32 m (bblock_ptr g + 8)"

definition image_size :: "mem \<Rightarrow> fs_globals \<Rightarrow> nat" where
  "image_size m g = BLOCK_SIZE * (1 + inode_count_of m g + data_block_count_of m g)"

definition byte_addr :: "mem \<Rightarrow> fs_globals \<Rightarrow> nat \<Rightarrow> nat \<Rightarrow> addr" where
  "byte_addr m g ino p =
     bblock_ptr g + BLOCK_SIZE * (1 + inode_count_of m g + data_block m g ino (p div BLOCK_SIZE)) + p mod BLOCK_SIZE"

definition file_bytes :: "mem \<Rightarrow> fs_globals \<Rightarrow> nat \<Rightarrow> byte list" where
  "file_bytes m g ino = map (\<lambda>p. m (byte_addr m g ino p)) [0..<file_size m g ino]"

text \<open>
  A well-formed file: its inode exists, its size fits the block table, every block it uses
  exists, and the image ends below 4 GB.
\<close>

definition wf_file :: "mem \<Rightarrow> fs_globals \<Rightarrow> nat \<Rightarrow> bool" where
  "wf_file m g ino \<longleftrightarrow>
     inodes g = bblock_ptr g + BLOCK_SIZE \<and>
     ino < inode_count_of m g \<and> inode_count_of m g < 2147483648 \<and>
     file_size m g ino \<le> MAX_BLOCK_NUM * BLOCK_SIZE \<and>
     (\<forall>j. j * BLOCK_SIZE < file_size m g ino \<longrightarrow> data_block m g ino j < data_block_count_of m g) \<and>
     bblock_ptr g + image_size m g < 4294967296"

text \<open>
  Reading a file in chunks: \<open>reads rd n k s\<close> makes \<open>k\<close> reads of \<open>n\<close> bytes and collects what they
  deliver. \<open>fs_chunk\<close> is one call of \<open>fs_file_read\<close> into a fixed buffer, with the bytes it
  leaves there; \<open>fs_rest\<close> is what the descriptor has not delivered yet.
\<close>

primrec reads :: "(nat \<Rightarrow> 's \<Rightarrow> byte list \<times> 's) \<Rightarrow> nat \<Rightarrow> nat \<Rightarrow> 's \<Rightarrow> byte list \<times> 's" where
  "reads rd n 0 s = ([], s)"
| "reads rd n (Suc k) s =
     (case rd n s of (bs, s') \<Rightarrow> case reads rd n k s' of (bs', s'') \<Rightarrow> (bs @ bs', s''))"

definition fs_chunk :: "fs_globals \<Rightarrow> addr \<Rightarrow> nat \<Rightarrow> mem \<times> FILE \<Rightarrow> byte list \<times> mem \<times> FILE" where
  "fs_chunk g buf n s =
     (case s of (m, f) \<Rightarrow> case fs_file_read m g buf n f of
        (k, m', f') \<Rightarrow> (load_list m' buf (nat k), m', f'))"

definition file_ino :: "FILE \<Rightarrow> nat" where
  "file_ino f = nat (sint (inode f))"

definition fs_rest :: "fs_globals \<Rightarrow> mem \<times> FILE \<Rightarrow> byte list" where
  "fs_rest g s = (case s of (m, f) \<Rightarrow> drop (nat (pos f)) (file_bytes m g (file_ino f)))"

definition fs_ok :: "fs_globals \<Rightarrow> addr \<Rightarrow> nat \<Rightarrow> mem \<times> FILE \<Rightarrow> bool" where
  "fs_ok g buf cap s =
     (case s of (m, f) \<Rightarrow>
        0 \<le> sint (inode f) \<and> wf_file m g (file_ino f) \<and>
        0 \<le> pos f \<and> pos f \<le> int (file_size m g (file_ino f)) \<and>
        cap < 2147483648 \<and> disjoint_ranges buf cap (bblock_ptr g) (image_size m g))"

text \<open>A one-file image at \<^verbatim>\<open>0x1000\<close>, with a file name at \<^verbatim>\<open>0x500\<close>, for concrete instances.\<close>

definition demo_mem :: mem where
  "demo_mem = (\<lambda>_. 0)(0x1000 := 1, 0x1004 := 1, 0x1008 := 1, 0x1040 := 97, 0x1060 := 2,
     0x2000 := 3, 0x3000 := 65, 0x3001 := 66, 0x3002 := 67, 0x500 := 97)"

definition demo_fs :: fs_globals where
  "demo_fs = fs_init 0x1000"

definition demo_file :: FILE where
  "demo_file = \<lparr>file_ops = fs_file_ops_table, inode = 0, pos = 0, ftype = TASK_FILE_REG, used = True\<rparr>"

text \<open>Memory that agrees on the image, wherever else it differs.\<close>

definition same_image :: "fs_globals \<Rightarrow> nat \<Rightarrow> mem \<Rightarrow> mem \<Rightarrow> bool" where
  "same_image g n m m' \<longleftrightarrow> (\<forall>a. bblock_ptr g \<le> a \<and> a < bblock_ptr g + n \<longrightarrow> m' a = m a)"

subsection \<open>Names\<close>

lemma fn_length_loop_name: "fn_length_loop m fname len k = len + length (name_at m (fname + len) k)"
proof (induction k arbitrary: len)
  case 0
  then show ?case by (simp add: name_at_def)
next
  case (Suc k)
  then show ?case by (simp add: name_at_Suc)
qed

lemma fn_length_name: "fn_length m fname = length (name_at m fname MAX_NAME_LENGTH)"
  by (simp add: fn_length_def fn_length_loop_name)

lemma fn_length_bound: "fn_length m fname \<le> MAX_NAME_LENGTH"
  by (simp add: fn_length_name length_name_at)

lemma dentry_loop_spec:
  "dentry_loop m g fname i k = (case find (\<lambda>j. name_at m (dentries g + 64 * j) MAX_NAME_LENGTH
      = name_at m fname MAX_NAME_LENGTH) [i..<i + k] of
      None \<Rightarrow> None | Some j \<Rightarrow> read_dentry_by_index m g j)"
proof (induction k arbitrary: i)
  case 0
  then show ?case by simp
next
  case (Suc k)
  have "[i..<i + Suc k] = i # [i + 1..<(i + 1) + k]" by (simp add: upt_conv_Cons)
  with Suc [of "i + 1"] show ?case by (simp add: strncmp_eq0)
qed

subsection \<open>Reading a file\<close>

lemma same_imageD: "same_image g n m m' \<Longrightarrow> a < n \<Longrightarrow> m' (bblock_ptr g + a) = m (bblock_ptr g + a)"
  by (simp add: same_image_def)

lemma same_image_load32:
  "same_image g n m m' \<Longrightarrow> a + 4 \<le> n \<Longrightarrow> load32 m' (bblock_ptr g + a) = load32 m (bblock_ptr g + a)"
  by (rule load32_cong) (auto simp: same_image_def)

lemma same_image_upd:
  "buf < bblock_ptr g \<or> bblock_ptr g + n \<le> buf \<Longrightarrow> same_image g n m (m(buf := v))"
  by (auto simp: same_image_def)

lemma same_image_store:
  "disjoint_ranges buf (length xs) (bblock_ptr g) n \<Longrightarrow> same_image g n m (store_list m buf xs)"
  by (auto simp: same_image_def disjoint_ranges_def intro!: store_list_other)

lemma wf_inode_range:
  assumes "wf_file m g ino" and "k \<le> BLOCK_SIZE"
  shows "BLOCK_SIZE + BLOCK_SIZE * ino + k \<le> image_size m g"
proof -
  have "ino + 1 \<le> inode_count_of m g"
    using assms by (simp add: wf_file_def)
  then have "BLOCK_SIZE * (ino + 1) \<le> BLOCK_SIZE * inode_count_of m g"
    by (intro mult_left_mono) auto
  with assms(2) show ?thesis by (simp add: image_size_def algebra_simps)
qed

lemma same_image_counts:
  assumes "wf_file m g ino" and "same_image g (image_size m g) m m'"
  shows "inode_count_of m' g = inode_count_of m g" "data_block_count_of m' g = data_block_count_of m g"
    "file_size m' g ino = file_size m g ino"
    and "j < MAX_BLOCK_NUM \<Longrightarrow> data_block m' g ino j = data_block m g ino j"
proof -
  have r: "BLOCK_SIZE \<le> image_size m g"
    by (simp add: image_size_def)
  have i: "inodes g = bblock_ptr g + BLOCK_SIZE"
    using assms(1) by (simp add: wf_file_def)
  show "inode_count_of m' g = inode_count_of m g"
    using same_image_load32 [OF assms(2), of 4] r by (simp add: inode_count_of_def)
  show "data_block_count_of m' g = data_block_count_of m g"
    using same_image_load32 [OF assms(2), of 8] r by (simp add: data_block_count_of_def)
  show "file_size m' g ino = file_size m g ino"
    using same_image_load32 [OF assms(2), of "BLOCK_SIZE + BLOCK_SIZE * ino"]
      wf_inode_range [OF assms(1), of 4] by (simp add: file_size_def i add.assoc)
  show "data_block m' g ino j = data_block m g ino j" if "j < MAX_BLOCK_NUM"
  proof -
    have "4 + 4 * j + 4 \<le> BLOCK_SIZE" using that by simp
    with wf_inode_range [OF assms(1), of "4 + 4 * j + 4"] show ?thesis
      using same_image_load32 [OF assms(2), of "BLOCK_SIZE + BLOCK_SIZE * ino + 4 + 4 * j"]
      by (simp add: data_block_def i add.assoc)
  qed
qed

lemma wf_file_block:
  assumes "wf_file m g ino" and "p < file_size m g ino"
  shows "p div BLOCK_SIZE < MAX_BLOCK_NUM"
    and "data_block m g ino (p div BLOCK_SIZE) < data_block_count_of m g"
    and "byte_addr m g ino p < bblock_ptr g + image_size m g"
    and "byte_addr m g ino p < 4294967296"
proof -
  have "p < MAX_BLOCK_NUM * BLOCK_SIZE" using assms by (simp add: wf_file_def)
  then show "p div BLOCK_SIZE < MAX_BLOCK_NUM" by (simp add: less_mult_imp_div_less)
  have "p div BLOCK_SIZE * BLOCK_SIZE \<le> p" by (rule div_times_less_eq_dividend)
  with assms show b: "data_block m g ino (p div BLOCK_SIZE) < data_block_count_of m g"
    unfolding wf_file_def by (meson le_less_trans)
  then have "BLOCK_SIZE * (data_block m g ino (p div BLOCK_SIZE) + 1) \<le> BLOCK_SIZE * data_block_count_of m g"
    by (intro mult_left_mono) auto
  moreover have "p mod BLOCK_SIZE < BLOCK_SIZE" by simp
  ultimately show r: "byte_addr m g ino p < bblock_ptr g + image_size m g"
    by (simp add: byte_addr_def image_size_def algebra_simps)
  with assms show "byte_addr m g ino p < 4294967296"
    unfolding wf_file_def by linarith
qed

lemma same_image_byte:
  assumes "wf_file m g ino" and "same_image g (image_size m g) m m'" and "p < file_size m g ino"
  shows "byte_addr m' g ino p = byte_addr m g ino p" "m' (byte_addr m g ino p) = m (byte_addr m g ino p)"
proof -
  note c = same_image_counts [OF assms(1,2)] and w = wf_file_block [OF assms(1,3)]
  show "byte_addr m' g ino p = byte_addr m g ino p"
    by (simp add: byte_addr_def c w)
  have "bblock_ptr g \<le> byte_addr m g ino p" by (simp add: byte_addr_def)
  with w assms(2) show "m' (byte_addr m g ino p) = m (byte_addr m g ino p)"
    by (simp add: same_image_def)
qed

lemma same_image_wf:
  assumes "wf_file m g ino" and "same_image g (image_size m g) m m'"
  shows "wf_file m' g ino" "image_size m' g = image_size m g" "file_bytes m' g ino = file_bytes m g ino"
proof -
  note c = same_image_counts [OF assms]
  show i: "image_size m' g = image_size m g" by (simp add: image_size_def c)
  have "data_block m' g ino j < data_block_count_of m g" if "j * BLOCK_SIZE < file_size m g ino" for j
    using wf_file_block(1,2) [OF assms(1) that] c by simp
  with assms(1) c i show "wf_file m' g ino" by (simp add: wf_file_def)
  show "file_bytes m' g ino = file_bytes m g ino"
    using same_image_byte [OF assms] by (simp add: file_bytes_def c)
qed

lemma byte_addr_Suc:
  "Suc p mod BLOCK_SIZE \<noteq> 0 \<Longrightarrow> Suc p div BLOCK_SIZE = p div BLOCK_SIZE"
  "Suc p mod BLOCK_SIZE \<noteq> 0 \<Longrightarrow> byte_addr m g ino (Suc p) = byte_addr m g ino p + 1"
  "Suc p mod BLOCK_SIZE = 0 \<Longrightarrow> Suc p div BLOCK_SIZE = p div BLOCK_SIZE + 1"
  by (simp_all add: byte_addr_def div_Suc mod_Suc split: if_splits)

text \<open>
  The loop invariant: either the next byte starts a new block and the index is still that of
  the block before, or index and address are those of the next byte.
\<close>

definition read_inv :: "mem \<Rightarrow> fs_globals \<Rightarrow> nat \<Rightarrow> nat \<Rightarrow> nat \<Rightarrow> nat \<Rightarrow> nat \<Rightarrow> bool" where
  "read_inv m g ino offset i starting_index cur_byte \<longleftrightarrow>
     (if (i + offset mod BLOCK_SIZE) mod BLOCK_SIZE = 0 \<and> i + offset mod BLOCK_SIZE \<noteq> 0
      then starting_index + 1 = (offset + i) div BLOCK_SIZE
      else starting_index = (offset + i) div BLOCK_SIZE \<and> cur_byte = byte_addr m g ino (offset + i))"

lemma offset_mod: "(i + offset mod BLOCK_SIZE) mod BLOCK_SIZE = (offset + i) mod BLOCK_SIZE"
  by (simp add: mod_add_right_eq add.commute)

lemma read_inv_next:
  "p = offset + i \<Longrightarrow> read_inv m g ino offset (i + 1) (p div BLOCK_SIZE) (byte_addr m g ino p + 1)"
  using byte_addr_Suc [of "offset + i"] offset_mod [of "Suc i" offset] by (simp add: read_inv_def)

lemma read_inv_step:
  assumes wf: "wf_file m g ino" and p: "p = offset + i" "p < file_size m g ino"
    and inv: "read_inv m g ino offset i si cb"
    and sw: "sw = ((i + offset mod BLOCK_SIZE) mod BLOCK_SIZE = 0 \<and> i + offset mod BLOCK_SIZE \<noteq> 0)"
  shows "(if sw then si + 1 else si) = p div BLOCK_SIZE"
    and "(if sw then u32 (bblock_ptr g + inode_count_of m g * BLOCK_SIZE
            + data_block m g ino (p div BLOCK_SIZE) * BLOCK_SIZE + BLOCK_SIZE) else cb) = byte_addr m g ino p"
proof -
  from inv have inv': "if sw then si + 1 = p div BLOCK_SIZE else si = p div BLOCK_SIZE \<and> cb = byte_addr m g ino p"
    by (simp only: read_inv_def sw p)
  then show "(if sw then si + 1 else si) = p div BLOCK_SIZE"
    by (simp split: if_splits)
  show "(if sw then u32 (bblock_ptr g + inode_count_of m g * BLOCK_SIZE
            + data_block m g ino (p div BLOCK_SIZE) * BLOCK_SIZE + BLOCK_SIZE) else cb) = byte_addr m g ino p"
  proof (cases sw)
    case True
    then have "p mod BLOCK_SIZE = 0" using sw p by (simp add: offset_mod)
    then have "byte_addr m g ino p = bblock_ptr g + inode_count_of m g * BLOCK_SIZE
        + data_block m g ino (p div BLOCK_SIZE) * BLOCK_SIZE + BLOCK_SIZE"
      by (simp add: byte_addr_def algebra_simps)
    with wf_file_block(4) [OF wf p(2)] True show ?thesis by (simp add: u32_id)
  next
    case False
    with inv' show ?thesis by simp
  qed
qed

lemma read_data_loop_spec:
  assumes "wf_file m g ino" and "offset + i + k \<le> file_size m g ino"
    and "disjoint_ranges buf k (bblock_ptr g) (image_size m g)"
    and "read_inv m g ino offset i si cb" and "ic = inode_count_of m g"
  shows "read_data_loop m g ino ic (offset mod BLOCK_SIZE) k i si cb buf
    = store_list m buf (map (\<lambda>p. m (byte_addr m g ino p)) [offset + i..<offset + i + k])"
  using assms
proof (induction k arbitrary: m i si cb buf)
  case 0
  then show ?case by simp
next
  case (Suc k)
  define p where "p = offset + i"
  define x where "x = m (byte_addr m g ino p)"
  let ?m = "m(buf := x)"
  have lt: "p < file_size m g ino" using Suc.prems(2) by (simp add: p_def)
  note st = read_inv_step [OF Suc.prems(1) p_def lt Suc.prems(4) refl]
  note wf = wf_file_block [OF Suc.prems(1) lt]
  have im: "same_image g (image_size m g) m ?m"
    using Suc.prems(3) by (intro same_image_upd) (auto simp: disjoint_ranges_def)
  note c = same_image_counts [OF Suc.prems(1) im] same_image_wf [OF Suc.prems(1) im]
  have u: "u32 (byte_addr m g ino p + 1) = byte_addr ?m g ino p + 1"
    using wf(3) Suc.prems(1) same_image_byte(1) [OF Suc.prems(1) im lt]
    by (simp add: u32_id wf_file_def)
  have "read_data_loop m g ino ic (offset mod BLOCK_SIZE) (Suc k) i si cb buf
      = read_data_loop ?m g ino ic (offset mod BLOCK_SIZE) k (i + 1) (p div BLOCK_SIZE) (byte_addr ?m g ino p + 1) (buf + 1)"
    unfolding read_data_loop.simps Let_def x_def st Suc.prems(5) load32_low_byte u ..
  also have "\<dots> = store_list ?m (buf + 1) (map (\<lambda>p. ?m (byte_addr ?m g ino p)) [offset + (i + 1)..<offset + (i + 1) + k])"
  proof (rule Suc.IH)
    show "offset + (i + 1) + k \<le> file_size ?m g ino" using Suc.prems(2) c(3) by simp
    show "disjoint_ranges (buf + 1) k (bblock_ptr g) (image_size ?m g)"
      using Suc.prems(3) c(6) by (auto simp: disjoint_ranges_def)
    show "read_inv ?m g ino offset (i + 1) (p div BLOCK_SIZE) (byte_addr ?m g ino p + 1)"
      using p_def by (rule read_inv_next)
    show "wf_file ?m g ino" by (rule c(5))
    show "ic = inode_count_of ?m g" by (simp only: Suc.prems(5) c(1))
  qed
  also have "map (\<lambda>p. ?m (byte_addr ?m g ino p)) [offset + (i + 1)..<offset + (i + 1) + k]
      = map (\<lambda>p. m (byte_addr m g ino p)) [offset + (i + 1)..<offset + (i + 1) + k]"
  proof (rule map_cong [OF refl])
    fix q assume "q \<in> set [offset + (i + 1)..<offset + (i + 1) + k]"
    then have "q < file_size m g ino" using Suc.prems(2) by auto
    then show "?m (byte_addr ?m g ino q) = m (byte_addr m g ino q)"
      by (simp only: same_image_byte [OF Suc.prems(1) im])
  qed
  also have "?m = store_list m buf [x]"
    using store_list_snoc [of m buf "[]" x] by simp
  also have "store_list (store_list m buf [x]) (buf + 1) ys = store_list m buf (x # ys)" for ys
    using store_list_append [of m buf "[x]" ys] by simp
  also have "x # map (\<lambda>p. m (byte_addr m g ino p)) [offset + (i + 1)..<offset + (i + 1) + k]
      = map (\<lambda>p. m (byte_addr m g ino p)) [offset + i..<offset + i + Suc k]"
    by (simp add: x_def p_def upt_conv_Cons del: upt_Suc)
  finally show ?case .
qed

lemma read_data_spec:
  assumes wf: "wf_file m g ino" and "n < 2147483648" and "offset < 2147483648"
    and "disjoint_ranges buf n (bblock_ptr g) (image_size m g)"
  shows "read_data m g (int ino) offset buf n =
    (let bs = take n (drop offset (file_bytes m g ino)) in (int (length bs), store_list m buf bs))"
proof -
  let ?size = "file_size m g ino"
  have ic: "load32 m (bblock_ptr g + 4) = inode_count_of m g" by (simp add: inode_count_of_def)
  have ino: "\<not> (s32 (int (inode_count_of m g)) < int ino)"
    using wf by (simp add: wf_file_def s32_id)
  show ?thesis
  proof (cases "?size \<le> offset")
    case True
    then show ?thesis using ino by (simp add: read_data_def ic Let_def file_bytes_def)
  next
    case False
    let ?k = "min n (?size - offset)"
    have sz: "?size \<le> 4190208" using wf by (simp add: wf_file_def)
    have u: "u32 (n + offset) = n + offset" "u32 (?size - offset) = ?size - offset"
      using assms(2,3) sz by (simp_all add: u32_id)
    have k: "nat (s32 (int (if ?size < n + offset then ?size - offset else n))) = ?k"
      using assms(2) sz by (auto simp: s32_id min_def)
    have lt: "offset < ?size" using False by simp
    have cb: "u32 (bblock_ptr g + inode_count_of m g * BLOCK_SIZE
        + data_block m g ino (offset div BLOCK_SIZE) * BLOCK_SIZE + offset mod BLOCK_SIZE + BLOCK_SIZE)
        = byte_addr m g ino offset"
      using wf_file_block(4) [OF wf lt] by (simp add: byte_addr_def algebra_simps u32_id)
    have "read_data m g (int ino) offset buf n = (int ?k,
        read_data_loop m g ino (inode_count_of m g) (offset mod BLOCK_SIZE) ?k 0 (offset div BLOCK_SIZE) (byte_addr m g ino offset) buf)"
      by (simp only: read_data_def ic Let_def nat_int ino False u k cb if_False simp_thms of_nat_less_0_iff)
    also have "\<dots> = (int ?k, store_list m buf (map (\<lambda>p. m (byte_addr m g ino p)) [offset + 0..<offset + 0 + ?k]))"
      using False assms(4) by (subst read_data_loop_spec [OF wf])
        (auto simp: disjoint_ranges_def read_inv_def)
    also have "map (\<lambda>p. m (byte_addr m g ino p)) [offset + 0..<offset + 0 + ?k]
        = take n (drop offset (file_bytes m g ino))"
      using False by (simp add: file_bytes_def take_map drop_map min_def)
    finally show ?thesis by (simp add: Let_def file_bytes_def)
  qed
qed


subsection \<open>Sequential reads\<close>

text \<open>
  The contract a client of a readable object relies on: a read delivers the next bytes and
  leaves the rest. The program loader of \<^verbatim>\<open>syscall.c\<close> is such a client.
\<close>

locale chunk_reader =
  fixes rd :: "nat \<Rightarrow> 's \<Rightarrow> byte list \<times> 's"
    and rest :: "'s \<Rightarrow> byte list"
    and ok :: "'s \<Rightarrow> bool"
    and cap :: nat
  assumes rd_bytes: "ok s \<Longrightarrow> n \<le> cap \<Longrightarrow> fst (rd n s) = take n (rest s)"
    and rd_rest: "ok s \<Longrightarrow> n \<le> cap \<Longrightarrow> rest (snd (rd n s)) = drop n (rest s)"
    and rd_ok: "ok s \<Longrightarrow> n \<le> cap \<Longrightarrow> ok (snd (rd n s))"
begin

lemma reads_spec:
  "ok s \<Longrightarrow> n \<le> cap \<Longrightarrow>
     fst (reads rd n k s) = take (k * n) (rest s) \<and> rest (snd (reads rd n k s)) = drop (k * n) (rest s)
       \<and> ok (snd (reads rd n k s))"
proof (induction k arbitrary: s)
  case 0
  then show ?case by simp
next
  case (Suc k)
  obtain bs s' where rd: "rd n s = (bs, s')" by fastforce
  with Suc.prems rd_bytes rd_rest rd_ok have
    "bs = take n (rest s)" "rest s' = drop n (rest s)" "ok s'" by (metis fst_conv snd_conv)+
  with Suc.IH [of s'] Suc.prems rd show ?case
    by (simp add: take_add add.commute case_prod_beta)
qed

lemma reads_all:
  assumes "ok s" and "n \<le> cap" and "length (rest s) \<le> k * n"
  shows "fst (reads rd n k s) = rest s" and "fst (rd n (snd (reads rd n k s))) = []"
  using reads_spec [OF assms(1,2), of k] rd_bytes [OF _ assms(2)] assms(3) by simp_all

end

lemma fs_file_read_spec:
  assumes "fs_ok g buf cap (m, f)" and "n \<le> cap"
  shows "fs_file_read m g buf n f =
    (let bs = take n (fs_rest g (m, f))
     in (int (length bs), store_list m buf bs, f\<lparr>pos := pos f + int (length bs)\<rparr>))"
proof -
  let ?ino = "file_ino f"
  let ?bs = "take n (fs_rest g (m, f))"
  have wf: "wf_file m g ?ino" and p: "0 \<le> pos f" "pos f \<le> int (file_size m g ?ino)" and i: "int ?ino = sint (inode f)"
    using assms(1) by (simp_all add: fs_ok_def file_ino_def)
  have sz: "file_size m g ?ino \<le> 4190208" using wf by (simp add: wf_file_def)
  have off: "to_u32 (pos f) = nat (pos f)" using p sz by (simp add: to_u32_id)
  have "read_data m g (int ?ino) (nat (pos f)) buf n = (int (length ?bs), store_list m buf ?bs)"
    using assms p sz by (subst read_data_spec [OF wf]) (auto simp: fs_ok_def fs_rest_def disjoint_ranges_def)
  moreover have "length ?bs \<le> file_size m g ?ino - nat (pos f)"
    by (simp add: fs_rest_def file_bytes_def)
  then have "s32 (pos f + int (length ?bs)) = pos f + int (length ?bs)"
    using p sz by (intro s32_id) linarith+
  ultimately show ?thesis
    by (simp add: fs_file_read_def off flip: i)
qed

lemma fs_ok_read:
  assumes "fs_ok g buf cap (m, f)" and "n \<le> cap"
  shows "let bs = take n (fs_rest g (m, f)); s' = (store_list m buf bs, f\<lparr>pos := pos f + int (length bs)\<rparr>)
     in fs_rest g s' = drop n (fs_rest g (m, f)) \<and> fs_ok g buf cap s'"
proof -
  let ?bs = "take n (fs_rest g (m, f))"
  let ?f = "f\<lparr>pos := pos f + int (length ?bs)\<rparr>"
  have wf: "wf_file m g (file_ino f)" and p: "0 \<le> pos f" "pos f \<le> int (file_size m g (file_ino f))"
    and d: "disjoint_ranges buf cap (bblock_ptr g) (image_size m g)"
    using assms(1) by (simp_all add: fs_ok_def)
  have ino: "file_ino ?f = file_ino f" by (simp add: file_ino_def)
  have im: "same_image g (image_size m g) m (store_list m buf ?bs)"
    using d assms(2) by (intro same_image_store) (auto simp: disjoint_ranges_def)
  note c = same_image_wf [OF wf im] same_image_counts(3) [OF wf im]
  have len: "length ?bs = min n (file_size m g (file_ino f) - nat (pos f))"
    by (simp add: fs_rest_def file_bytes_def min.commute)
  have "nat (pos ?f) = nat (pos f) + length ?bs" using p by simp
  then have "fs_rest g (store_list m buf ?bs, ?f) = drop (length ?bs) (fs_rest g (m, f))"
    using c(3) ino by (simp add: fs_rest_def add.commute)
  also have "\<dots> = drop n (fs_rest g (m, f))"
    by (cases "n \<le> length (fs_rest g (m, f))") simp_all
  finally have "fs_rest g (store_list m buf ?bs, ?f) = drop n (fs_rest g (m, f))" .
  moreover have "pos f + int (length ?bs) \<le> int (file_size m g (file_ino f))"
    using p len by linarith
  then have "fs_ok g buf cap (store_list m buf ?bs, ?f)"
    using assms(1) c ino by (simp add: fs_ok_def)
  ultimately show ?thesis by (simp add: Let_def)
qed

interpretation fsr: chunk_reader "fs_chunk g buf" "fs_rest g" "fs_ok g buf cap" cap
  for g buf cap
proof
  fix s :: "mem \<times> FILE" and n
  assume a: "fs_ok g buf cap s" "n \<le> cap"
  obtain m f where s: "s = (m, f)" by fastforce
  let ?bs = "take n (fs_rest g (m, f))"
  have c: "fs_chunk g buf n s = (?bs, store_list m buf ?bs, f\<lparr>pos := pos f + int (length ?bs)\<rparr>)"
    using fs_file_read_spec [OF a [unfolded s]] load_store_list [of m buf ?bs]
    by (simp only: fs_chunk_def s prod.case Let_def nat_int)
  note o = fs_ok_read [OF a [unfolded s], unfolded Let_def]
  show "fst (fs_chunk g buf n s) = take n (fs_rest g s)" unfolding c by (simp only: fst_conv s)
  show "fs_rest g (snd (fs_chunk g buf n s)) = drop n (fs_rest g s)" using o unfolding c by (simp only: snd_conv s)
  show "fs_ok g buf cap (snd (fs_chunk g buf n s))" using o unfolding c by (simp only: snd_conv)
qed


subsection \<open>The concrete image\<close>

lemma demo_image:
  "bblock_ptr demo_fs = 0x1000" "inodes demo_fs = 0x2000" "dentries demo_fs = 0x1040"
  "inode_count_of demo_mem demo_fs = 1" "data_block_count_of demo_mem demo_fs = 1"
  "file_size demo_mem demo_fs 0 = 3" "image_size demo_mem demo_fs = 12288"
  "data_block demo_mem demo_fs 0 0 = 0" "load32 demo_mem 0x1000 = 1"
  by (simp_all add: demo_fs_def fs_init_def inode_count_of_def data_block_count_of_def file_size_def
      image_size_def data_block_def load32_def demo_mem_def)

lemma demo_wf: "wf_file demo_mem demo_fs 0"
proof -
  have "data_block demo_mem demo_fs 0 j < 1" if "j * BLOCK_SIZE < 3" for j
  proof -
    from that have "j = 0" by (cases j) auto
    then show ?thesis by (simp add: demo_image)
  qed
  then show ?thesis
    by (simp add: wf_file_def demo_image)
qed

lemma demo_bytes: "file_bytes demo_mem demo_fs 0 = [65, 66, 67]"
  by (simp add: file_bytes_def demo_image byte_addr_def upt_rec numeral_3_eq_3)
    (simp add: demo_mem_def)

lemma demo_ok: "fs_ok demo_fs 0x9000 256 (demo_mem, demo_file)"
  by (simp add: fs_ok_def demo_file_def file_ino_def demo_wf demo_image disjoint_ranges_def)

subsection \<open>Properties\<close>

text \<open>
  C2: \<open>read_data\<close> on a well-formed file delivers exactly the bytes of the file from the offset on,
  as many as asked for and as there are, crosses block boundaries correctly, stores them at the
  buffer, changes no other byte of memory and returns their number.
\<close>

theorem read_data_correct:
  assumes "wf_file m g ino" and "n < 2147483648" and "offset < 2147483648"
    and "disjoint_ranges buf n (bblock_ptr g) (image_size m g)"
  shows "read_data m g (int ino) offset buf n =
    (int (min n (file_size m g ino - offset)),
     store_list m buf (take n (drop offset (file_bytes m g ino))))"
  using read_data_spec [OF assms] by (simp add: Let_def file_bytes_def min.commute)

theorem read_data_correct_witness:
  "wf_file demo_mem demo_fs 0 \<and>
   read_data demo_mem demo_fs 0 1 0x9000 5 = (2, store_list demo_mem 0x9000 [66, 67])"
  using read_data_correct [where m = demo_mem and g = demo_fs and ino = 0 and n = 5 and offset = 1 and buf = "0x9000"] demo_wf
  by (simp add: demo_image demo_bytes disjoint_ranges_def)

text \<open>
  Reading an open file in chunks of any size, as \<^verbatim>\<open>cat\<close> and the program loader do: enough calls of
  \<open>fs_file_read\<close> deliver, put together, exactly the part of the file the descriptor had not
  delivered, and the next call returns 0 bytes.
\<close>

theorem fs_file_reads_whole:
  assumes "fs_ok g buf cap (m, f)" and "n \<le> cap" and "length (fs_rest g (m, f)) \<le> k * n"
  shows "fst (reads (fs_chunk g buf) n k (m, f)) = fs_rest g (m, f)
    \<and> fst (fs_chunk g buf n (snd (reads (fs_chunk g buf) n k (m, f)))) = []"
  using fsr.reads_all [OF assms] by simp

theorem fs_file_reads_whole_witness:
  "fst (reads (fs_chunk demo_fs 0x9000) 2 2 (demo_mem, demo_file)) = [65, 66, 67]"
  using fs_file_reads_whole [OF demo_ok, where n = 2 and k = 2]
  by (simp add: fs_rest_def demo_file_def file_ino_def demo_bytes)


text \<open>
  Reading a directory: while entries are left, a read stores the 32-byte name field of the
  next one (whatever the length asked for), returns the length of the name and moves on; past the
  last entry it returns 0 and changes nothing.
\<close>

theorem fs_dir_read_correct:
  "fs_dir_read m g buf n f =
     (let i = to_u32 (pos f); nm = name_at m (dentries g + 64 * i) MAX_NAME_LENGTH
      in if i < load32 m (bblock_ptr g)
         then (int (length nm), store_list m buf (name_field nm MAX_NAME_LENGTH), f\<lparr>pos := s32 (pos f + 1)\<rparr>)
         else (0, m, f))"
proof -
  have "0 \<notin> set (name_at m a k)" for a k
    by (auto simp: name_at_def dest: set_takeWhileD)
  then show ?thesis
    by (simp add: fs_dir_read_def read_dentry_by_index_def Let_def fn_length_name name_at_field length_name_at)
qed

subsection \<open>Limits of the code\<close>

text \<open>
  \<open>len + offset\<close> is computed in 32 bits. A length for which it wraps is not truncated to the file
  and becomes a negative \<open>actual_len\<close>: the read returns 0 bytes in the middle of the file, which
  callers take for its end.
\<close>

lemma read_data_length_wraps:
  assumes "offset < file_size m g (nat i)" and "file_size m g (nat i) < 2147483648"
    and "n < 4294967296" and "4294967296 \<le> n + offset"
  shows "read_data m g i offset buf n = (0, m)"
proof -
  have "u32 (n + offset) = n + offset - 4294967296"
    using assms by (simp add: u32_def mod_if)
  then have "\<not> file_size m g (nat i) < u32 (n + offset)"
    using assms by linarith
  moreover have "nat (s32 (int n)) = 0"
  proof -
    have "(int n + 2147483648) mod 4294967296 = int n + 2147483648 - 4294967296"
      using assms by (subst mod_pos_geq) (auto intro!: mod_pos_pos_trivial)
    then have "s32 (int n) = int n - 4294967296" by (simp add: s32_def)
    then show ?thesis using assms by simp
  qed
  ultimately show ?thesis by (simp add: read_data_def Let_def)
qed

text \<open>The guard on the inode number admits the number one past the last inode.\<close>

lemma read_data_inode_off_by_one:
  assumes "inode_count_of m g = c" and "c < 2147483648"
    and "offset < file_size m g c" and "file_size m g c < 2147483648" and "n + offset \<le> file_size m g c"
  shows "fst (read_data m g (int c) offset buf n) = int n"
  using assms by (simp add: read_data_def Let_def s32_id u32_id inode_count_of_def [symmetric])

end
