(* ===== verification/Screen.thy ===== *)
theory Screen
  imports Lib Tasks
begin

text \<open>
  The display half of \<^verbatim>\<open>student-distrib/term.c\<close>: cursor, attribute, cells of video memory,
  scrolling and \<open>putc\<close>. A terminal is an index \<open>t\<close> into \<^verbatim>\<open>terms\<close>; its cells are the bytes of
  memory from its \<^verbatim>\<open>video_mem\<close> pointer on, two per cell (character, attribute).

  \<open>draws\<close> is the contract of all drawing operations: only the cursor of the terminal and its own
  4000 bytes of video memory change, and the cursor stays on the screen.
\<close>

abbreviation tm :: "nat \<Rightarrow> 'a term_sys_scheme \<Rightarrow> term_t" where
  "tm t s \<equiv> terms s ! t"

definition upd_term :: "nat \<Rightarrow> (term_t \<Rightarrow> term_t) \<Rightarrow> 'a term_sys_scheme \<Rightarrow> 'a term_sys_scheme" where
  "upd_term t f s = s\<lparr>terms := (terms s)[t := f (tm t s)]\<rparr>"

definition getposx :: "nat \<Rightarrow> 'a term_sys_scheme \<Rightarrow> int" where
  "getposx t s = cur_x (tm t s)"

definition getposy :: "nat \<Rightarrow> 'a term_sys_scheme \<Rightarrow> int" where
  "getposy t s = cur_y (tm t s)"

definition vga_cursor :: "nat \<Rightarrow> 'a term_sys_scheme \<Rightarrow> 'a term_sys_scheme" where
  "vga_cursor curpos s =
     outb (word_of_nat (curpos div 256)) 0x3D5 (outb 0x0E 0x3D4
       (outb (word_of_nat curpos) 0x3D5 (outb 0x0F 0x3D4 s)))"

definition clamp_pos :: "int \<Rightarrow> nat \<Rightarrow> int" where
  "clamp_pos v n = (if v < 0 then 0 else if int n \<le> v then int n - 1 else v)"

definition setpos :: "int \<Rightarrow> int \<Rightarrow> nat \<Rightarrow> 'a term_sys_scheme \<Rightarrow> 'a term_sys_scheme" where
  "setpos x y t s =
     (let s' = upd_term t (\<lambda>T. T\<lparr>cur_x := s8 (clamp_pos x NUM_COLS), cur_y := s8 (clamp_pos y NUM_ROWS)\<rparr>) s
      in if t = cur_term_ind s'
         then vga_cursor (u16 (nat (cur_x (tm t s') + cur_y (tm t s') * int NUM_COLS))) s'
         else s')"

definition setattr :: "byte \<Rightarrow> nat \<Rightarrow> 'a term_sys_scheme \<Rightarrow> 'a term_sys_scheme" where
  "setattr a t s = upd_term t (\<lambda>T. T\<lparr>attr := a\<rparr>) s"

definition getattr :: "nat \<Rightarrow> 'a term_sys_scheme \<Rightarrow> byte" where
  "getattr t s = attr (tm t s)"

definition poke :: "addr \<Rightarrow> byte \<Rightarrow> 'a machine_scheme \<Rightarrow> 'a machine_scheme" where
  "poke a v s = s\<lparr>mem := (mem s)(a := v)\<rparr>"

definition clear :: "nat \<Rightarrow> 'a term_sys_scheme \<Rightarrow> 'a term_sys_scheme" where
  "clear t s =
     fold (\<lambda>i s. poke (video_mem (tm t s) + 2 * i + 1) (attr (tm t s))
                  (poke (video_mem (tm t s) + 2 * i) 32 s))
       [0..<NUM_ROWS * NUM_COLS] s"

definition on_screen :: "int \<Rightarrow> int \<Rightarrow> bool" where
  "on_screen x y \<longleftrightarrow> 0 \<le> x \<and> x < int NUM_COLS \<and> 0 \<le> y \<and> y < int NUM_ROWS"

definition cell_addr :: "nat \<Rightarrow> int \<Rightarrow> int \<Rightarrow> 'a term_sys_scheme \<Rightarrow> addr" where
  "cell_addr t x y s = video_mem (tm t s) + nat ((int NUM_COLS * y + x) * 2)"

definition get_vid_char :: "int \<Rightarrow> int \<Rightarrow> nat \<Rightarrow> 'a term_sys_scheme \<Rightarrow> byte" where
  "get_vid_char x y t s = (if on_screen x y then mem s (cell_addr t x y s) else 0)"

definition set_vid_char :: "int \<Rightarrow> int \<Rightarrow> byte \<Rightarrow> nat \<Rightarrow> 'a term_sys_scheme \<Rightarrow> 'a term_sys_scheme" where
  "set_vid_char x y ch t s =
     (if on_screen x y
      then poke (cell_addr t x y s + 1) (attr (tm t s)) (poke (cell_addr t x y s) ch s)
      else s)"

definition scroll_cell :: "nat \<Rightarrow> nat \<Rightarrow> nat \<Rightarrow> 'a term_sys_scheme \<Rightarrow> 'a term_sys_scheme" where
  "scroll_cell t y x s =
     (let s' = setattr (mem s (cell_addr t (int x) (int y + 1) s + 1)) t s
      in set_vid_char (int x) (int y) (get_vid_char (int x) (int y + 1) t s') t s')"

definition scroll :: "nat \<Rightarrow> 'a term_sys_scheme \<Rightarrow> 'a term_sys_scheme" where
  "scroll t s =
     (let s0 = cli s;
          old_attr = attr (tm t s0);
          s1 = fold (\<lambda>y. fold (scroll_cell t y) [0..<NUM_COLS]) [0..<NUM_ROWS - 1] s0;
          s2 = setattr DEF_ATTR t s1;
          s3 = fold (\<lambda>x. set_vid_char (int x) (int NUM_ROWS - 1) 32 t) [0..<NUM_COLS] s2;
          s4 = setpos (cur_x (tm t s3)) (cur_y (tm t s3) - 1) t s3
      in setattr old_attr t s4)"

definition term_back :: "nat \<Rightarrow> 'a term_sys_scheme \<Rightarrow> 'a term_sys_scheme" where
  "term_back t s =
     (let s1 = upd_term t (\<lambda>T. T\<lparr>cur_x := s8 (cur_x T - 1)\<rparr>) s;
          s2 = (if cur_x (tm t s1) < 0
                then upd_term t (\<lambda>T. T\<lparr>cur_x := s8 (cur_x T + int NUM_COLS), cur_y := s8 (cur_y T - 1)\<rparr>) s1
                else s1)
      in setpos (cur_x (tm t s2)) (cur_y (tm t s2)) t s2)"

definition forward :: "nat \<Rightarrow> 'a term_sys_scheme \<Rightarrow> 'a term_sys_scheme" where
  "forward t s =
     (let s1 = upd_term t (\<lambda>T. T\<lparr>cur_x := s8 (cur_x T + 1)\<rparr>) s;
          s2 = (if int NUM_COLS \<le> cur_x (tm t s1)
                then upd_term t (\<lambda>T. T\<lparr>cur_x := s8 (cur_x T - int NUM_COLS), cur_y := s8 (cur_y T + 1)\<rparr>) s1
                else s1)
      in setpos (cur_x (tm t s2)) (cur_y (tm t s2)) t s2)"

definition putc_scroll :: "nat \<Rightarrow> 'a term_sys_scheme \<Rightarrow> 'a term_sys_scheme" where
  "putc_scroll t s =
     (if int NUM_ROWS \<le> cur_y (tm t s)
      then upd_term t (\<lambda>T. T\<lparr>cur_y := int NUM_ROWS - 1\<rparr>) (scroll t s)
      else s)"

definition putc_body :: "byte \<Rightarrow> nat \<Rightarrow> 'a term_sys_scheme \<Rightarrow> 'a term_sys_scheme" where
  "putc_body c t s =
     (if c = 10 then
        putc_scroll t (upd_term t (\<lambda>T. T\<lparr>cur_y := s8 (cur_y T + 1), cur_x := 0\<rparr>) s)
      else if c = 13 then upd_term t (\<lambda>T. T\<lparr>cur_x := 0\<rparr>) s
      else if c = 8 then
        (let s1 = term_back t s in set_vid_char (cur_x (tm t s1)) (cur_y (tm t s1)) 32 t s1)
      else
        (let s1 = set_vid_char (cur_x (tm t s)) (cur_y (tm t s)) c t s;
             s2 = upd_term t (\<lambda>T. T\<lparr>cur_x := s8 (cur_x T + 1)\<rparr>) s1;
             s3 = (if int NUM_COLS \<le> cur_x (tm t s2)
                   then upd_term t (\<lambda>T. T\<lparr>cur_x := s8 (cur_x T - int NUM_COLS), cur_y := s8 (cur_y T + 1)\<rparr>) s2
                   else s2)
         in putc_scroll t s3))"

definition putc :: "byte \<Rightarrow> nat \<Rightarrow> 'a term_sys_scheme \<Rightarrow> 'a term_sys_scheme" where
  "putc c t s =
     (let s' = putc_body c t s in setpos (cur_x (tm t s')) (cur_y (tm t s')) t s')"

text \<open>A string is given by its bytes; the part before the first NUL is printed.\<close>

definition puts :: "byte list \<Rightarrow> nat \<Rightarrow> 'a term_sys_scheme \<Rightarrow> int \<times> 'a term_sys_scheme" where
  "puts str t s =
     (let cs = takeWhile (\<lambda>c. c \<noteq> 0) str in (int (length cs), fold (\<lambda>c. putc c t) cs s))"

subsection \<open>Specifications\<close>

definition cursor_ok :: "term_t \<Rightarrow> bool" where
  "cursor_ok T \<longleftrightarrow> 0 \<le> cur_x T \<and> cur_x T < 80 \<and> 0 \<le> cur_y T \<and> cur_y T < 25"

definition scroll_mem :: "mem \<Rightarrow> addr \<Rightarrow> mem" where
  "scroll_mem m vm = (\<lambda>a.
     if vm \<le> a \<and> a < vm + 3840 then m (a + 160)
     else if vm + 3840 \<le> a \<and> a < vm + 4000 then (if even (a - vm) then 32 else DEF_ATTR)
     else m a)"

text \<open>The last row of a scrolled screen: \<open>n\<close> blank cells with the default attribute.\<close>

definition blank_cells :: "mem \<Rightarrow> addr \<Rightarrow> byte \<Rightarrow> nat \<Rightarrow> mem" where
  "blank_cells m d v n = (\<lambda>a. if d \<le> a \<and> a < d + 2 * n then (if even (a - d) then 32 else v) else m a)"

text \<open>
  The terminals before \<open>init_term\<close>: the zero-initialised array \<^verbatim>\<open>terms\<close>.
\<close>

definition term_zero :: term_t where
  "term_zero = \<lparr>term_buf = replicate TERM_BUF_SIZE_W_NL 0, term_buf_count = 0, term_read_done = False,
     term_curpos = 0, cur_x = 0, cur_y = 0, cur_x_store = 0, cur_y_store = 0, attr = 0,
     reading = False, video_mem = 0, video_buffer = 0, term_noecho = False, term_canon = False,
     cur_pid = 0, esc_state = IDLE, esc_buf = replicate 4 0, buf_len = 0, args = replicate 4 0,
     arg_len = 0\<rparr>"

definition boot_terms :: "mem \<Rightarrow> term_sys" where
  "boot_terms m = \<lparr>mem = m, ports = [], IF = False, terms = replicate TERM_NUM term_zero,
     cur_term_ind = 0, cur_term = 0\<rparr>"

text \<open>
  \<open>touches t s s'\<close>: between \<open>s\<close> and \<open>s'\<close> only the cursor of terminal \<open>t\<close>, its own cells,
  the ports and the interrupt flag may differ.
\<close>

definition touches :: "nat \<Rightarrow> 'a term_sys_scheme \<Rightarrow> 'a term_sys_scheme \<Rightarrow> bool" where
  "touches t s s' \<longleftrightarrow>
     terms s' = (terms s)[t := (tm t s)\<lparr>cur_x := cur_x (tm t s'), cur_y := cur_y (tm t s')\<rparr>]
     \<and> (\<forall>a. a < video_mem (tm t s) \<or> video_mem (tm t s) + VID_MEM_SIZE \<le> a \<longrightarrow> mem s' a = mem s a)
     \<and> cur_term_ind s' = cur_term_ind s \<and> cur_term s' = cur_term s
     \<and> term_sys.more s' = term_sys.more s"

text \<open>
  The abstract screen: 2000 cells in reading order, the cursor as column and row, the current
  attribute. \<open>screen_putc\<close> is what printing a character means on it.
\<close>

record screen =
  cells :: "(byte \<times> byte) list"
  col :: nat
  row :: nat
  sattr :: byte

definition screen_scroll :: "(byte \<times> byte) list \<Rightarrow> (byte \<times> byte) list" where
  "screen_scroll cs = drop 80 cs @ replicate 80 (32, DEF_ATTR)"

definition screen_newline :: "screen \<Rightarrow> screen" where
  "screen_newline S = (if row S < 24 then S\<lparr>col := 0, row := row S + 1\<rparr>
                       else S\<lparr>col := 0, row := 24, cells := screen_scroll (cells S)\<rparr>)"

definition screen_put :: "byte \<Rightarrow> screen \<Rightarrow> screen" where
  "screen_put c S = S\<lparr>cells := (cells S)[80 * row S + col S := (c, sattr S)]\<rparr>"

definition screen_back :: "screen \<Rightarrow> screen" where
  "screen_back S = (if col S = 0 then S\<lparr>col := 79, row := row S - 1\<rparr> else S\<lparr>col := col S - 1\<rparr>)"

definition screen_putc :: "byte \<Rightarrow> screen \<Rightarrow> screen" where
  "screen_putc c S =
     (if c = 10 then screen_newline S
      else if c = 13 then S\<lparr>col := 0\<rparr>
      else if c = 8 then screen_put 32 (screen_back S)
      else let S' = screen_put c S
           in if col S < 79 then S'\<lparr>col := col S + 1\<rparr> else screen_newline S')"

definition cells_of :: "mem \<Rightarrow> addr \<Rightarrow> (byte \<times> byte) list" where
  "cells_of m v = map (\<lambda>i. (m (v + 2 * i), m (v + 2 * i + 1))) [0..<2000]"

definition abs_screen :: "nat \<Rightarrow> 'a term_sys_scheme \<Rightarrow> screen" where
  "abs_screen t s = \<lparr>cells = cells_of (mem s) (video_mem (tm t s)), col = nat (cur_x (tm t s)),
                     row = nat (cur_y (tm t s)), sattr = attr (tm t s)\<rparr>"

subsection \<open>Frames\<close>

lemma upd_term_simps [simp]:
  "mem (upd_term t f s) = mem s" "ports (upd_term t f s) = ports s" "IF (upd_term t f s) = IF s"
  "cur_term_ind (upd_term t f s) = cur_term_ind s" "cur_term (upd_term t f s) = cur_term s"
  "term_sys.more (upd_term t f s) = term_sys.more s"
  "terms (upd_term t f s) = (terms s)[t := f (tm t s)]"
  by (simp_all add: upd_term_def)

lemma poke_simps [simp]:
  "mem (poke a v s) = (mem s)(a := v)" "ports (poke a v s) = ports s" "IF (poke a v s) = IF s"
  "machine.more (poke a v s) = machine.more s"
  by (simp_all add: poke_def)

lemma poke_term [simp]:
  fixes s :: "'a term_sys_scheme"
  shows "terms (poke a v s) = terms s" "cur_term_ind (poke a v s) = cur_term_ind s"
    "cur_term (poke a v s) = cur_term s" "term_sys.more (poke a v s) = term_sys.more s"
  by (simp_all add: poke_def)

lemma outb_term [simp]:
  fixes s :: "'a term_sys_scheme"
  shows "terms (outb d p s) = terms s" "cur_term_ind (outb d p s) = cur_term_ind s"
    "cur_term (outb d p s) = cur_term s" "term_sys.more (outb d p s) = term_sys.more s"
  by (simp_all add: outb_def)

lemma cli_sti_term [simp]:
  fixes s :: "'a term_sys_scheme"
  shows "terms (cli s) = terms s" "cur_term_ind (cli s) = cur_term_ind s"
    "cur_term (cli s) = cur_term s" "term_sys.more (cli s) = term_sys.more s"
    "terms (sti s) = terms s" "cur_term_ind (sti s) = cur_term_ind s"
    "cur_term (sti s) = cur_term s" "term_sys.more (sti s) = term_sys.more s"
  by (simp_all add: cli_def sti_def)

lemma vga_cursor_simps [simp]:
  "mem (vga_cursor p s) = mem s" "terms (vga_cursor p s) = terms s" "IF (vga_cursor p s) = IF s"
  "cur_term_ind (vga_cursor p s) = cur_term_ind s" "cur_term (vga_cursor p s) = cur_term s"
  "term_sys.more (vga_cursor p s) = term_sys.more s"
  by (simp_all add: vga_cursor_def)

lemma clamp_s8: "s8 (clamp_pos x 80) = clamp_pos x 80" "s8 (clamp_pos y 25) = clamp_pos y 25"
  by (simp_all add: clamp_pos_def s8_id)

lemma setpos_simps [simp]:
  "mem (setpos x y t s) = mem s" "IF (setpos x y t s) = IF s"
  "cur_term_ind (setpos x y t s) = cur_term_ind s" "cur_term (setpos x y t s) = cur_term s"
  "term_sys.more (setpos x y t s) = term_sys.more s"
  "terms (setpos x y t s) = (terms s)[t := (tm t s)\<lparr>cur_x := clamp_pos x NUM_COLS, cur_y := clamp_pos y NUM_ROWS\<rparr>]"
  by (simp_all add: setpos_def Let_def clamp_s8)

lemma clamp_pos_range [simp]:
  "0 \<le> clamp_pos x 80" "clamp_pos x 80 < 80" "0 \<le> clamp_pos y 25" "clamp_pos y 25 < 25"
  by (simp_all add: clamp_pos_def)

lemma clamp_pos_id [simp]:
  "0 \<le> x \<Longrightarrow> x < 80 \<Longrightarrow> clamp_pos x 80 = x" "0 \<le> y \<Longrightarrow> y < 25 \<Longrightarrow> clamp_pos y 25 = y"
  by (simp_all add: clamp_pos_def)

text \<open>The process table lies behind the terminals, so an operation that keeps the rest keeps it.\<close>

lemma more_pcbs:
  fixes s s' :: "'a proc_sys_scheme"
  assumes "term_sys.more s' = term_sys.more s"
  shows "pcbs s' = pcbs s" "cur s' = cur s" "proc_sys.more s' = proc_sys.more s"
  using assms by (cases s; cases s'; simp)+

lemma proc_frame [simp]:
  fixes s :: "'a proc_sys_scheme"
  shows "pcbs (upd_term t f s) = pcbs s" "cur (upd_term t f s) = cur s"
    "pcbs (outb d p s) = pcbs s" "cur (outb d p s) = cur s"
    "pcbs (cli s) = pcbs s" "cur (cli s) = cur s" "pcbs (sti s) = pcbs s" "cur (sti s) = cur s"
  by (rule more_pcbs, simp)+

lemma setattr_simps [simp]:
  "mem (setattr a t s) = mem s" "ports (setattr a t s) = ports s" "IF (setattr a t s) = IF s"
  "cur_term_ind (setattr a t s) = cur_term_ind s" "cur_term (setattr a t s) = cur_term s"
  "term_sys.more (setattr a t s) = term_sys.more s"
  "terms (setattr a t s) = (terms s)[t := (tm t s)\<lparr>attr := a\<rparr>]"
  by (simp_all add: setattr_def)

subsection \<open>Scrolling\<close>

lemma on_screen_nat [simp]: "x < 80 \<Longrightarrow> y < 25 \<Longrightarrow> on_screen (int x) (int y)"
  by (simp add: on_screen_def)

lemma cell_addr_nat: "cell_addr t (int x) (int y) s = video_mem (tm t s) + 2 * (80 * y + x)"
  by (simp add: cell_addr_def nat_mult_distrib nat_add_distrib)

lemma setattr_setattr [simp]: "setattr a t (setattr b t s) = setattr a t s"
proof (cases "t < length (terms s)")
  case False
  then show ?thesis by (simp add: setattr_def upd_term_def list_update_beyond)
qed (simp add: setattr_def upd_term_def)

lemma setattr_own [simp]: "setattr (attr (tm t s)) t s = s"
  by (simp add: setattr_def upd_term_def)

lemma setattr_mem: "(setattr a t s)\<lparr>mem := m\<rparr> = setattr a t (s\<lparr>mem := m\<rparr>)"
  by (simp add: setattr_def upd_term_def)

lemma attr_cur_commute: "T\<lparr>attr := a, cur_x := x, cur_y := y\<rparr> = T\<lparr>cur_x := x, cur_y := y, attr := a\<rparr>"
  by simp

lemma setattr_setpos:
  "t < length (terms s) \<Longrightarrow> setattr a t (setpos x y t s) = setpos x y t (setattr a t s)"
  by (rule term_sys.equality)
    (simp_all add: setpos_def setattr_def upd_term_def vga_cursor_def outb_def Let_def attr_cur_commute)

lemma blit_2: "d \<noteq> Suc s \<Longrightarrow> blit m d s 2 = m(d := m s, d + 1 := m (s + 1))"
  by (rule ext) (auto simp: blit_def le_Suc_eq numeral_2_eq_2 less_Suc_eq)

lemma scroll_cell_eq:
  assumes "t < length (terms s)" "x < 80" "y < 24"
  defines "d \<equiv> video_mem (tm t s) + 160 * y + 2 * x"
  shows "scroll_cell t y x s = setattr (mem s (d + 161)) t (s\<lparr>mem := blit (mem s) d (d + 160) 2\<rparr>)"
proof -
  have "int y + 1 = int (Suc y)" by simp
  then show ?thesis
    using assms(1-3)
    by (simp only: scroll_cell_def Let_def)
      (simp add: set_vid_char_def get_vid_char_def cell_addr_nat blit_2 d_def poke_def
        setattr_def upd_term_def algebra_simps del: of_nat_Suc)
qed

lemma scroll_row:
  assumes "t < length (terms s)" "y < 24" "n \<le> 80"
  defines "d \<equiv> video_mem (tm t s) + 160 * y"
  shows "\<exists>a. fold (scroll_cell t y) [0..<n] s
             = setattr a t (s\<lparr>mem := blit (mem s) d (d + 160) (2 * n)\<rparr>)"
  using assms(3)
proof (induction n)
  case 0
  show ?case by (rule exI [of _ "attr (tm t s)"]) (simp add: setattr_def upd_term_def)
next
  case (Suc n)
  then obtain a where a: "fold (scroll_cell t y) [0..<n] s
      = setattr a t (s\<lparr>mem := blit (mem s) d (d + 160) (2 * n)\<rparr>)" by auto
  have "blit (blit (mem s) d (d + 160) (2 * n)) (d + 2 * n) (d + 160 + 2 * n) 2
      = blit (mem s) d (d + 160) (2 * n + 2)"
    by (rule blit_split) simp
  then show ?case
    using a assms(1,2) Suc.prems
    by (simp add: scroll_cell_eq setattr_mem d_def algebra_simps) blast
qed

lemma scroll_rows:
  assumes "t < length (terms s)" "k \<le> 24"
  defines "v \<equiv> video_mem (tm t s)"
  shows "\<exists>a. fold (\<lambda>y. fold (scroll_cell t y) [0..<80]) [0..<k] s
             = setattr a t (s\<lparr>mem := blit (mem s) v (v + 160) (160 * k)\<rparr>)"
  using assms(2)
proof (induction k)
  case 0
  show ?case by (rule exI [of _ "attr (tm t s)"]) (simp add: setattr_def upd_term_def)
next
  case (Suc k)
  then obtain a where a: "fold (\<lambda>y. fold (scroll_cell t y) [0..<80]) [0..<k] s
      = setattr a t (s\<lparr>mem := blit (mem s) v (v + 160) (160 * k)\<rparr>)" by auto
  let ?s = "setattr a t (s\<lparr>mem := blit (mem s) v (v + 160) (160 * k)\<rparr>)"
  obtain b where b: "fold (scroll_cell t k) [0..<80] ?s = setattr b t
      (?s\<lparr>mem := blit (mem ?s) (v + 160 * k) (v + 160 * k + 160) 160\<rparr>)"
    using scroll_row [of t ?s k 80] assms(1) Suc.prems by (auto simp: v_def)
  have "blit (blit (mem s) v (v + 160) (160 * k)) (v + 160 * k) (v + 160 + 160 * k) 160
      = blit (mem s) v (v + 160) (160 * k + 160)"
    by (rule blit_split) simp
  then show ?case
    using a b by (simp add: setattr_mem algebra_simps) blast
qed

lemma blank_row:
  assumes "t < length (terms s)" "n \<le> 80"
  shows "fold (\<lambda>x. set_vid_char (int x) 24 32 t) [0..<n] s
       = s\<lparr>mem := blank_cells (mem s) (video_mem (tm t s) + 3840) (attr (tm t s)) n\<rparr>"
  using assms(2)
proof (induction n)
  case 0
  have "blank_cells (mem s) d v 0 = mem s" for d v by (rule ext) (auto simp: blank_cells_def)
  then show ?case by simp
next
  case (Suc n)
  let ?B = "blank_cells (mem s) (video_mem (tm t s) + 3840) (attr (tm t s))"
  let ?a = "video_mem (tm t s) + 3840 + 2 * n"
  have B: "?B (Suc n) = (?B n)(?a := 32, Suc ?a := attr (tm t s))"
    by (rule ext) (auto simp: blank_cells_def less_Suc_eq)
  have "fold (\<lambda>x. set_vid_char (int x) 24 32 t) [0..<Suc n] s
      = set_vid_char (int n) 24 32 t (s\<lparr>mem := ?B n\<rparr>)"
    using Suc by simp
  also have "\<dots> = s\<lparr>mem := (?B n)(?a := 32, Suc ?a := attr (tm t s))\<rparr>"
    using cell_addr_nat [of t n 24 "s\<lparr>mem := ?B n\<rparr>"] on_screen_nat [of n 24] Suc.prems
    by (simp add: set_vid_char_def poke_def add.assoc)
  finally show ?case by (simp only: B)
qed

lemma scroll_mem_eq: "blank_cells (blit m v (v + 160) 3840) (v + 3840) 15 80 = scroll_mem m v"
  by (rule ext) (auto simp: blank_cells_def blit_def scroll_mem_def add.commute)

lemma scroll_eq:
  assumes "t < length (terms s)"
  shows "scroll t s = setpos (cur_x (tm t s)) (cur_y (tm t s) - 1) t
           ((cli s)\<lparr>mem := scroll_mem (mem s) (video_mem (tm t s))\<rparr>)"
proof -
  obtain a where a: "fold (\<lambda>y. fold (scroll_cell t y) [0..<80]) [0..<24] (cli s)
      = setattr a t ((cli s)\<lparr>mem := blit (mem s) (video_mem (tm t s)) (video_mem (tm t s) + 160) 3840\<rparr>)"
    using scroll_rows [of t "cli s" 24] assms by auto
  have own: "setattr (attr (tm t s)) t ((cli s)\<lparr>mem := m\<rparr>) = (cli s)\<lparr>mem := m\<rparr>" for m
    by (simp add: setattr_def upd_term_def cli_def)
  show ?thesis
    using assms
    by (simp add: scroll_def Let_def a blank_row setattr_setpos setattr_mem scroll_mem_eq [simplified] own
        del: upt_Suc)
qed

subsection \<open>The contract of drawing\<close>

lemma touches_refl [simp]: "touches t s s"
  by (simp add: touches_def)

lemma touches_length [simp]: "touches t s s' \<Longrightarrow> length (terms s') = length (terms s)"
  by (metis touches_def length_list_update)

lemma touches_term:
  assumes "touches t s s'"
  shows "tm t s' = (tm t s)\<lparr>cur_x := cur_x (tm t s'), cur_y := cur_y (tm t s')\<rparr>"
proof -
  have e: "terms s' = (terms s)[t := (tm t s)\<lparr>cur_x := cur_x (tm t s'), cur_y := cur_y (tm t s')\<rparr>]"
    using assms by (simp add: touches_def)
  show ?thesis
  proof (cases "t < length (terms s)")
    case True
    then show ?thesis using arg_cong [OF e, of "\<lambda>l. l ! t"] by simp
  next
    case False
    then have "terms s' = terms s" using e by (metis list_update_beyond not_less)
    then show ?thesis by simp
  qed
qed

lemma touches_fields:
  assumes "touches t s s'"
  shows "video_mem (tm t s') = video_mem (tm t s)" "attr (tm t s') = attr (tm t s)"
    "term_buf (tm t s') = term_buf (tm t s)" "term_buf_count (tm t s') = term_buf_count (tm t s)"
    "term_curpos (tm t s') = term_curpos (tm t s)" "term_noecho (tm t s') = term_noecho (tm t s)"
    "term_canon (tm t s') = term_canon (tm t s)" "reading (tm t s') = reading (tm t s)"
    "term_read_done (tm t s') = term_read_done (tm t s)"
  by (subst touches_term [OF assms], simp)+

lemma touches_trans:
  assumes a: "touches t s s'" and b: "touches t s' s''" and t: "t < length (terms s)"
  shows "touches t s s''"
proof -
  have ta: "terms s' = (terms s)[t := (tm t s)\<lparr>cur_x := cur_x (tm t s'), cur_y := cur_y (tm t s')\<rparr>]"
    and tb: "terms s'' = (terms s')[t := (tm t s')\<lparr>cur_x := cur_x (tm t s''), cur_y := cur_y (tm t s'')\<rparr>]"
    using a b by (simp_all add: touches_def)
  note e = touches_term [OF a]
  have "(tm t s')\<lparr>cur_x := x, cur_y := y\<rparr> = (tm t s)\<lparr>cur_x := x, cur_y := y\<rparr>" for x y
    by (subst e) simp
  then have "terms s'' = (terms s)[t := (tm t s)\<lparr>cur_x := cur_x (tm t s''), cur_y := cur_y (tm t s'')\<rparr>]"
    using ta tb by (metis list_update_overwrite)
  then show ?thesis
    using a b touches_fields(1) [OF a] unfolding touches_def by auto
qed

lemma touches_other: "touches t s s' \<Longrightarrow> u \<noteq> t \<Longrightarrow> tm u s' = tm u s"
  by (metis touches_def nth_list_update_neq)

lemma touches_setpos [intro]: "t < length (terms s) \<Longrightarrow> touches t s (setpos x y t s)"
  by (simp add: touches_def)

lemma cur_yx: "T\<lparr>cur_y := y, cur_x := x\<rparr> = T\<lparr>cur_x := x, cur_y := y\<rparr>"
  by simp

lemma touches_cursor [intro]:
  "t < length (terms s) \<Longrightarrow> touches t s (upd_term t (\<lambda>T. T\<lparr>cur_x := f T\<rparr>) s)"
  "t < length (terms s) \<Longrightarrow> touches t s (upd_term t (\<lambda>T. T\<lparr>cur_y := f T\<rparr>) s)"
  "t < length (terms s) \<Longrightarrow> touches t s (upd_term t (\<lambda>T. T\<lparr>cur_x := f T, cur_y := g T\<rparr>) s)"
  "t < length (terms s) \<Longrightarrow> touches t s (upd_term t (\<lambda>T. T\<lparr>cur_y := g T, cur_x := f T\<rparr>) s)"
  by (simp_all add: touches_def cur_yx)

lemma touches_set_vid_char [intro]: "touches t s (set_vid_char x y c t s)"
  by (auto simp: touches_def set_vid_char_def on_screen_def cell_addr_def)

lemma touches_scroll [intro]: "t < length (terms s) \<Longrightarrow> touches t s (scroll t s)"
  by (simp add: touches_def scroll_eq scroll_mem_def)

lemma cursor_ok_clamped [simp]: "cursor_ok (T\<lparr>cur_x := clamp_pos x 80, cur_y := clamp_pos y 25\<rparr>)"
  by (simp add: cursor_ok_def)

lemma setpos_upd_term [simp]:
  "setpos x y t (upd_term t (\<lambda>T. T\<lparr>cur_x := f T\<rparr>) s) = setpos x y t s"
  "setpos x y t (upd_term t (\<lambda>T. T\<lparr>cur_y := f T\<rparr>) s) = setpos x y t s"
  "setpos x y t (upd_term t (\<lambda>T. T\<lparr>cur_x := f T, cur_y := g T\<rparr>) s) = setpos x y t s"
  "setpos x y t (upd_term t (\<lambda>T. T\<lparr>cur_y := g T, cur_x := f T\<rparr>) s) = setpos x y t s"
  by (cases "t < length (terms s)"; simp add: setpos_def upd_term_def Let_def list_update_beyond)+

text \<open>The two cursor motions are \<open>setpos\<close> to the neighbouring position.\<close>

lemma term_back_eq:
  assumes "t < length (terms s)" "cursor_ok (tm t s)"
  shows "term_back t s = (if cur_x (tm t s) = 0 then setpos 79 (cur_y (tm t s) - 1) t s
                     else setpos (cur_x (tm t s) - 1) (cur_y (tm t s)) t s)"
  using assms by (simp add: term_back_def Let_def cursor_ok_def s8_id)

lemma forward_eq:
  assumes "t < length (terms s)" "cursor_ok (tm t s)"
  shows "forward t s = (if cur_x (tm t s) = 79 then setpos 0 (cur_y (tm t s) + 1) t s
                     else setpos (cur_x (tm t s) + 1) (cur_y (tm t s)) t s)"
  using assms by (simp add: forward_def Let_def cursor_ok_def s8_id)

lemma touches_back [intro]: "t < length (terms s) \<Longrightarrow> touches t s (term_back t s)"
  by (auto simp: term_back_def Let_def)

lemma touches_forward [intro]: "t < length (terms s) \<Longrightarrow> touches t s (forward t s)"
  by (auto simp: forward_def Let_def)

lemma touches_putc_scroll [intro]:
  assumes t: "t < length (terms s)"
  shows "touches t s (putc_scroll t s)"
proof -
  have a: "touches t s (scroll t s)" using t by (rule touches_scroll)
  have "touches t (scroll t s) (upd_term t (\<lambda>T. T\<lparr>cur_y := 24\<rparr>) (scroll t s))"
    using a t by (intro touches_cursor) simp
  then show ?thesis
    using touches_trans [OF a _ t] by (simp add: putc_scroll_def)
qed

lemma touches_putc_body [intro]:
  assumes t: "t < length (terms s)"
  shows "touches t s (putc_body c t s)"
proof -
  have bk: "touches t s (let s1 = term_back t s in set_vid_char (cur_x (tm t s1)) (cur_y (tm t s1)) 32 t s1)"
    unfolding Let_def using t touches_back touches_set_vid_char touches_trans by blast
  have step: "touches t s (putc_scroll t s1)" if "touches t s s1" for s1
    using touches_trans [OF that touches_putc_scroll t] that t by simp
  have print: "touches t s (upd_term t (\<lambda>T. T\<lparr>cur_x := f T\<rparr>) (set_vid_char x y c t s))" for x y f
    using touches_trans [OF touches_set_vid_char touches_cursor(1) t] t
    by (simp add: touches_length [OF touches_set_vid_char])
  have wrap: "touches t s (upd_term t (\<lambda>T. T\<lparr>cur_x := f T, cur_y := g T\<rparr>) s1)" if "touches t s s1" for f g s1
    using touches_trans [OF that touches_cursor(3) t] that t by simp
  show ?thesis
    using t by (auto simp: putc_body_def Let_def intro!: bk [unfolded Let_def] step print wrap)
qed

text \<open>
  The interface a client of the display relies on: an operation that draws on a terminal leaves
  everything but its cursor and cells alone, and the cursor on the screen. A sequence of such
  operations then does so too.
\<close>

locale drawing =
  fixes draw :: "'b \<Rightarrow> nat \<Rightarrow> 'a term_sys_scheme \<Rightarrow> 'a term_sys_scheme"
  assumes draw_touches: "t < length (terms s) \<Longrightarrow> touches t s (draw x t s)"
    and draw_cursor: "t < length (terms s) \<Longrightarrow> cursor_ok (tm t (draw x t s))"
begin

lemma fold_touches:
  assumes "t < length (terms s)"
  shows "touches t s (fold (\<lambda>x. draw x t) xs s)"
  using assms
proof (induction xs arbitrary: s)
  case (Cons x xs)
  have d: "touches t s (draw x t s)" by (rule draw_touches [OF Cons.prems])
  then have "touches t (draw x t s) (fold (\<lambda>x. draw x t) xs (draw x t s))"
    using Cons by simp
  then show ?case using touches_trans [OF d] Cons.prems by simp
qed simp

lemma fold_cursor:
  assumes "t < length (terms s)" "cursor_ok (tm t s)"
  shows "cursor_ok (tm t (fold (\<lambda>x. draw x t) xs s))"
  using assms
proof (induction xs arbitrary: s)
  case (Cons x xs)
  then show ?case
    using draw_touches [of t s x] draw_cursor [of t s x] by simp
qed simp

end

interpretation putc: drawing putc
proof
  fix t :: nat and s :: "'a term_sys_scheme" and c
  assume t: "t < length (terms s)"
  have body: "touches t s (putc_body c t s)" using t by auto
  show "touches t s (putc c t s)"
    unfolding putc_def Let_def using touches_trans [OF body touches_setpos] body t by simp
  show "cursor_ok (tm t (putc c t s))"
    unfolding putc_def Let_def using body t by simp
qed

interpretation tback: drawing "\<lambda>_. term_back"
  by unfold_locales (auto simp: term_back_def Let_def)

interpretation forward: drawing "\<lambda>_. forward"
  by unfold_locales (auto simp: forward_def Let_def)

text \<open>
  Printing a character on a terminal never leaves the terminal: every byte of memory outside
  its 4000 bytes of video memory, every other terminal, its line buffer, attribute and modes, and
  the rest of the kernel state stay as they are, and the cursor ends inside the 80 by 25 screen,
  whatever it was before.
\<close>

theorem putc_stays_inside:
  assumes "t < length (terms s)"
  shows "touches t s (putc c t s) \<and> cursor_ok (tm t (putc c t s))"
  using putc.draw_touches [OF assms] putc.draw_cursor [OF assms] by simp

theorem putc_stays_inside_witness:
  "touches 0 (boot_terms (\<lambda>_. 0)) (putc 65 0 (boot_terms (\<lambda>_. 0))) \<and> cursor_ok (tm 0 (putc 65 0 (boot_terms (\<lambda>_. 0))))"
  using putc_stays_inside [of 0 "boot_terms (\<lambda>_. 0)" 65] by (simp add: boot_terms_def)

subsection \<open>Refinement of the abstract screen\<close>

lemma length_cells_of [simp]: "length (cells_of m v) = 2000"
  by (simp add: cells_of_def)

lemma nth_cells_of: "i < 2000 \<Longrightarrow> cells_of m v ! i = (m (v + 2 * i), m (v + 2 * i + 1))"
  by (simp add: cells_of_def)

lemma cells_of_update:
  assumes "i < 2000"
  shows "cells_of (m(v + 2 * i := c, Suc (v + 2 * i) := a)) v = (cells_of m v)[i := (c, a)]"
proof (rule nth_equalityI)
  fix j assume "j < length (cells_of (m(v + 2 * i := c, Suc (v + 2 * i) := a)) v)"
  then have j: "j < 2000" by simp
  have "v + 2 * j \<noteq> Suc (v + 2 * i)" "Suc (v + 2 * j) \<noteq> v + 2 * i" by presburger+
  then show "cells_of (m(v + 2 * i := c, Suc (v + 2 * i) := a)) v ! j = (cells_of m v)[i := (c, a)] ! j"
    using j assms by (cases "i = j") (simp_all add: nth_cells_of)
qed simp

lemma cells_of_scroll: "cells_of (scroll_mem m v) v = screen_scroll (cells_of m v)"
proof (rule nth_equalityI)
  fix j assume "j < length (cells_of (scroll_mem m v) v)"
  then have j: "j < 2000" by simp
  show "cells_of (scroll_mem m v) v ! j = screen_scroll (cells_of m v) ! j"
  proof (cases "j < 1920")
    case True
    then show ?thesis
      using j by (simp add: nth_cells_of screen_scroll_def nth_append scroll_mem_def algebra_simps)
  next
    case False
    then show ?thesis
      using j by (simp add: nth_cells_of screen_scroll_def nth_append scroll_mem_def)
  qed
qed (simp add: screen_scroll_def)

lemma set_vid_char_eq:
  assumes "t < length (terms s)" "cursor_ok (tm t s)"
  defines "a \<equiv> video_mem (tm t s) + 2 * (80 * nat (cur_y (tm t s)) + nat (cur_x (tm t s)))"
  shows "set_vid_char (cur_x (tm t s)) (cur_y (tm t s)) c t s
       = s\<lparr>mem := (mem s)(a := c, Suc a := attr (tm t s))\<rparr>"
proof -
  have "cell_addr t (int (nat (cur_x (tm t s)))) (int (nat (cur_y (tm t s)))) s = a"
    unfolding a_def by (rule cell_addr_nat)
  then show ?thesis
    using assms(2) by (simp add: set_vid_char_def on_screen_def cursor_ok_def poke_def)
qed

lemma abs_screen_set:
  assumes "t < length (terms s)" "cursor_ok (tm t s)"
  shows "abs_screen t (set_vid_char (cur_x (tm t s)) (cur_y (tm t s)) c t s) = screen_put c (abs_screen t s)"
proof -
  have "80 * nat (cur_y (tm t s)) + nat (cur_x (tm t s)) < 2000"
    using assms(2) by (simp add: cursor_ok_def) linarith
  from cells_of_update [OF this] show ?thesis
    using assms by (simp add: set_vid_char_eq abs_screen_def screen_put_def)
qed

lemma abs_screen_setpos:
  "t < length (terms s) \<Longrightarrow> abs_screen t (setpos x y t s)
     = (abs_screen t s)\<lparr>col := nat (clamp_pos x 80), row := nat (clamp_pos y 25)\<rparr>"
  by (simp add: abs_screen_def)

lemma abs_screen_cur:
  "t < length (terms s) \<Longrightarrow> abs_screen t (upd_term t (\<lambda>T. T\<lparr>cur_y := f T\<rparr>) s)
     = (abs_screen t s)\<lparr>row := nat (f (tm t s))\<rparr>"
  "t < length (terms s) \<Longrightarrow> abs_screen t (upd_term t (\<lambda>T. T\<lparr>cur_x := g T\<rparr>) s)
     = (abs_screen t s)\<lparr>col := nat (g (tm t s))\<rparr>"
  "t < length (terms s) \<Longrightarrow> abs_screen t (upd_term t (\<lambda>T. T\<lparr>cur_x := g T, cur_y := f T\<rparr>) s)
     = (abs_screen t s)\<lparr>col := nat (g (tm t s)), row := nat (f (tm t s))\<rparr>"
  "t < length (terms s) \<Longrightarrow> abs_screen t (upd_term t (\<lambda>T. T\<lparr>cur_y := f T, cur_x := g T\<rparr>) s)
     = (abs_screen t s)\<lparr>col := nat (g (tm t s)), row := nat (f (tm t s))\<rparr>"
  by (simp_all add: abs_screen_def)

lemma abs_screen_scroll:
  "t < length (terms s) \<Longrightarrow> abs_screen t (scroll t s)
     = (abs_screen t s)\<lparr>cells := screen_scroll (cells (abs_screen t s)),
         col := nat (clamp_pos (cur_x (tm t s)) 80), row := nat (clamp_pos (cur_y (tm t s) - 1) 25)\<rparr>"
  by (simp add: scroll_eq abs_screen_setpos) (simp add: abs_screen_def cells_of_scroll)

lemma abs_screen_back:
  "t < length (terms s) \<Longrightarrow> cursor_ok (tm t s) \<Longrightarrow> abs_screen t (term_back t s) = screen_back (abs_screen t s)"
  by (auto simp: term_back_eq abs_screen_setpos screen_back_def abs_screen_def cursor_ok_def clamp_pos_def)

lemma abs_screen_own:
  "t < length (terms s) \<Longrightarrow> cursor_ok (tm t s) \<Longrightarrow>
   abs_screen t (setpos (cur_x (tm t s)) (cur_y (tm t s)) t s) = abs_screen t s"
  by (simp add: abs_screen_setpos cursor_ok_def) (simp add: abs_screen_def)

lemma terms_set_vid_char [simp]: "terms (set_vid_char x y c t s) = terms s"
  by (simp add: set_vid_char_def)

lemma length_terms_scroll [simp]: "t < length (terms s) \<Longrightarrow> length (terms (scroll t s)) = length (terms s)"
  by (simp add: scroll_eq)

lemma putc_scroll_newline:
  assumes "t < length (terms s)" "cur_x (tm t s) = 0" "0 \<le> cur_y (tm t s)" "cur_y (tm t s) \<le> 25"
  shows "abs_screen t (putc_scroll t s) = (if cur_y (tm t s) < 25 then abs_screen t s
           else (abs_screen t s)\<lparr>col := 0, row := 24, cells := screen_scroll (cells (abs_screen t s))\<rparr>)"
    and "cursor_ok (tm t (putc_scroll t s))"
  using assms
  by (auto simp: putc_scroll_def abs_screen_cur abs_screen_scroll)
    (auto simp: cursor_ok_def scroll_eq)

lemma putc_body_newline:
  assumes "t < length (terms s)" "cursor_ok (tm t s)"
    and s': "terms s' = (terms s)[t := (tm t s)\<lparr>cur_x := 0, cur_y := cur_y (tm t s) + 1\<rparr>]"
    and "abs_screen t s' = (abs_screen t s)\<lparr>col := 0, row := Suc (row (abs_screen t s)), cells := cs\<rparr>"
  shows "abs_screen t (putc_scroll t s') = screen_newline ((abs_screen t s)\<lparr>cells := cs\<rparr>)"
    and "cursor_ok (tm t (putc_scroll t s'))"
proof -
  have "row (abs_screen t s) = nat (cur_y (tm t s))" by (simp add: abs_screen_def)
  then show "abs_screen t (putc_scroll t s') = screen_newline ((abs_screen t s)\<lparr>cells := cs\<rparr>)"
    and "cursor_ok (tm t (putc_scroll t s'))"
    using assms putc_scroll_newline [of t s'] by (auto simp: cursor_ok_def screen_newline_def)
qed

lemma putc_body_screen:
  assumes "t < length (terms s)" and "cursor_ok (tm t s)"
  shows "abs_screen t (putc_body c t s) = screen_putc c (abs_screen t s) \<and> cursor_ok (tm t (putc_body c t s))"
proof -
  consider "c = 10" | "c = 13" | "c = 8" | "c \<noteq> 10" "c \<noteq> 13" "c \<noteq> 8" by auto
  then show ?thesis
  proof cases
    case 1
    let ?s1 = "upd_term t (\<lambda>T. T\<lparr>cur_y := s8 (cur_y T + 1), cur_x := 0\<rparr>) s"
    have "terms ?s1 = (terms s)[t := (tm t s)\<lparr>cur_x := 0, cur_y := cur_y (tm t s) + 1\<rparr>]"
      using assms by (simp add: s8_id cursor_ok_def cur_yx)
    moreover have "abs_screen t ?s1 = (abs_screen t s)\<lparr>col := 0, row := Suc (row (abs_screen t s)),
        cells := cells (abs_screen t s)\<rparr>"
      using assms by (simp add: abs_screen_cur s8_id cursor_ok_def) (simp add: abs_screen_def nat_add_distrib)
    ultimately show ?thesis
      using putc_body_newline [OF assms, of ?s1 "cells (abs_screen t s)"] by (simp add: 1 putc_body_def screen_putc_def)
  next
    case 2
    then show ?thesis
      using assms by (simp add: putc_body_def screen_putc_def abs_screen_cur cursor_ok_def)
  next
    case 3
    have "cursor_ok (tm t (term_back t s))" "length (terms (term_back t s)) = length (terms s)"
      using assms(1) tback.draw_cursor touches_length [OF touches_back] by auto
    then show ?thesis
      using 3 assms by (simp add: putc_body_def screen_putc_def abs_screen_set abs_screen_back Let_def)
  next
    case 4
    let ?s1 = "set_vid_char (cur_x (tm t s)) (cur_y (tm t s)) c t s"
    have abs1: "abs_screen t ?s1 = screen_put c (abs_screen t s)"
      by (rule abs_screen_set [OF assms])
    have col: "col (abs_screen t s) = nat (cur_x (tm t s))" by (simp add: abs_screen_def)
    show ?thesis
    proof (cases "cur_x (tm t s) < 79")
      case True
      with 4 assms have "putc_body c t s = upd_term t (\<lambda>T. T\<lparr>cur_x := s8 (cur_x T + 1)\<rparr>) ?s1"
        by (simp add: putc_body_def Let_def putc_scroll_def s8_id cursor_ok_def)
      then show ?thesis
        using 4 assms True
        by (simp add: screen_putc_def Let_def s8_id cursor_ok_def abs_screen_cur abs1 col nat_add_distrib)
    next
      case False
      let ?s3 = "upd_term t (\<lambda>T. T\<lparr>cur_x := s8 (cur_x T - 80), cur_y := s8 (cur_y T + 1)\<rparr>)
          (upd_term t (\<lambda>T. T\<lparr>cur_x := s8 (cur_x T + 1)\<rparr>) ?s1)"
      have x: "cur_x (tm t s) = 79" using False assms(2) by (simp add: cursor_ok_def)
      then have body: "putc_body c t s = putc_scroll t ?s3"
        using 4 assms by (simp add: putc_body_def Let_def s8_id)
      have "terms ?s3 = (terms s)[t := (tm t s)\<lparr>cur_x := 0, cur_y := cur_y (tm t s) + 1\<rparr>]"
        using x assms by (simp add: s8_id cursor_ok_def)
      moreover have "abs_screen t ?s3 = (abs_screen t s)\<lparr>col := 0, row := Suc (row (abs_screen t s)),
          cells := cells (screen_put c (abs_screen t s))\<rparr>"
        using x assms abs1
        by (simp add: abs_screen_cur s8_id cursor_ok_def screen_put_def)
          (simp add: abs_screen_def nat_add_distrib)
      ultimately show ?thesis
        using putc_body_newline [OF assms, of ?s3 "cells (screen_put c (abs_screen t s))"] 4 x
        by (simp add: body screen_putc_def col screen_put_def)
    qed
  qed
qed

text \<open>
  C7: \<open>putc\<close> on the bytes of video memory does what printing means on the abstract screen: a
  printable character is stored with the current attribute and the cursor advances, wrapping to
  the next row; a newline, a carriage return and a backspace move the cursor; moving below the last
  row drops the first row and appends a blank one.
\<close>

theorem putc_refines_screen:
  assumes "t < length (terms s)" and "cursor_ok (tm t s)"
  shows "abs_screen t (putc c t s) = screen_putc c (abs_screen t s)"
  using putc_body_screen [OF assms, of c] abs_screen_own [of t "putc_body c t s"]
    touches_length [OF touches_putc_body [of t s c]] assms
  by (simp add: putc_def Let_def)

theorem putc_refines_screen_witness:
  "abs_screen 0 (putc 65 0 (boot_terms (\<lambda>_. 0))) = screen_putc 65 (abs_screen 0 (boot_terms (\<lambda>_. 0)))"
  using putc_refines_screen [of 0 "boot_terms (\<lambda>_. 0)" 65]
  by (simp add: boot_terms_def term_zero_def cursor_ok_def)

end
