(* ===== verification/Line_Edit.thy ===== *)
theory Line_Edit
  imports Screen
begin

text \<open>
  The keyboard half of \<^verbatim>\<open>student-distrib/term.c\<close>: the line buffer of a terminal (\<open>addch\<close>,
  \<open>delch\<close>), switching the terminal on screen and \<open>term_key_handler\<close>.

  A loop that walks the cursor to the left or to the right stops at the ends of the line, so it is
  a recursion on the number of characters on that side; the theorems show that this bound is
  never what ends it. The recursive calls of \<open>term_key_handler\<close> for Enter, Backspace and the
  arrows are the control characters they stand for (\<open>term_ctrl\<close>).

  The abstract line is a zipper: the characters before and after the cursor.
\<close>

subsection \<open>The line buffer\<close>

definition addch :: "byte \<Rightarrow> nat \<Rightarrow> 'a term_sys_scheme \<Rightarrow> 'a term_sys_scheme" where
  "addch ch t s =
     (if term_buf_count (tm t s) < TERM_BUF_SIZE \<and> reading (tm t s) then
        let s1 = upd_term t (\<lambda>T. T\<lparr>term_buf :=
                   fold (\<lambda>i b. b[i := b ! (i - 1)]) (rev [term_curpos T + 1..<term_buf_count T + 1]) (term_buf T)\<rparr>) s;
            s2 = upd_term t (\<lambda>T. T\<lparr>term_buf := (term_buf T)[term_curpos T := ch],
                   term_curpos := u8 (term_curpos T + 1), term_buf_count := u8 (term_buf_count T + 1)\<rparr>) s1
        in if term_noecho (tm t s2) then s2
           else
             let s3 = putc ch t s2;
                 s4 = fold (\<lambda>i s. putc (term_buf (tm t s) ! i) t s)
                        [term_curpos (tm t s3)..<term_buf_count (tm t s3)] s3
             in fold (\<lambda>_. term_back t) [0..<term_buf_count (tm t s4) - term_curpos (tm t s4)] s4
      else s)"

definition delch :: "nat \<Rightarrow> 'a term_sys_scheme \<Rightarrow> 'a term_sys_scheme" where
  "delch t s =
     (if 0 < term_curpos (tm t s) then
        let s1 = upd_term t (\<lambda>T. T\<lparr>term_buf :=
                   fold (\<lambda>i b. b[i := b ! (i + 1)]) [term_curpos T - 1..<term_buf_count T - 1] (term_buf T)\<rparr>) s;
            s2 = upd_term t (\<lambda>T. T\<lparr>term_curpos := u8 (term_curpos T + 255),
                   term_buf_count := u8 (term_buf_count T + 255)\<rparr>) s1
        in if term_canon (tm t s2) then s2
           else
             let s3 = term_back t s2;
                 old_x = getposx t s3;
                 old_y = getposy t s3;
                 s4 = fold (\<lambda>i s. putc (term_buf (tm t s) ! i) t s)
                        [term_curpos (tm t s3)..<term_buf_count (tm t s3)] s3;
                 s5 = putc 32 t s4
             in setpos old_x old_y t s5
      else s)"

subsection \<open>Motions and kills\<close>

definition curpos_back :: "nat \<Rightarrow> 'a term_sys_scheme \<Rightarrow> 'a term_sys_scheme" where
  "curpos_back t s = term_back t (upd_term t (\<lambda>T. T\<lparr>term_curpos := u8 (term_curpos T + 255)\<rparr>) s)"

definition curpos_forward :: "nat \<Rightarrow> 'a term_sys_scheme \<Rightarrow> 'a term_sys_scheme" where
  "curpos_forward t s = forward t (upd_term t (\<lambda>T. T\<lparr>term_curpos := u8 (term_curpos T + 1)\<rparr>) s)"

text \<open>\<open>while (term_curpos && p(term_buf[term_curpos - 1])) f\<close>, at most \<open>n\<close> rounds.\<close>

fun while_back :: "(byte \<Rightarrow> bool) \<Rightarrow> (nat \<Rightarrow> 'a term_sys_scheme \<Rightarrow> 'a term_sys_scheme) \<Rightarrow> nat \<Rightarrow> nat
    \<Rightarrow> 'a term_sys_scheme \<Rightarrow> 'a term_sys_scheme" where
  "while_back p f 0 t s = s"
| "while_back p f (Suc n) t s =
     (if 0 < term_curpos (tm t s) \<and> p (term_buf (tm t s) ! (term_curpos (tm t s) - 1))
      then while_back p f n t (f t s) else s)"

text \<open>\<open>while (term_curpos < term_buf_count && p(term_buf[term_curpos])) f\<close>, at most \<open>n\<close> rounds.\<close>

fun while_forward :: "(byte \<Rightarrow> bool) \<Rightarrow> (nat \<Rightarrow> 'a term_sys_scheme \<Rightarrow> 'a term_sys_scheme) \<Rightarrow> nat \<Rightarrow> nat
    \<Rightarrow> 'a term_sys_scheme \<Rightarrow> 'a term_sys_scheme" where
  "while_forward p f 0 t s = s"
| "while_forward p f (Suc n) t s =
     (if term_curpos (tm t s) < term_buf_count (tm t s) \<and> p (term_buf (tm t s) ! term_curpos (tm t s))
      then while_forward p f n t (f t s) else s)"

text \<open>The word before or after the cursor: a run of alphanumeric or of other characters.\<close>

definition word_back :: "(nat \<Rightarrow> 'a term_sys_scheme \<Rightarrow> 'a term_sys_scheme) \<Rightarrow> nat
    \<Rightarrow> 'a term_sys_scheme \<Rightarrow> 'a term_sys_scheme" where
  "word_back f t s =
     (let n = term_curpos (tm t s) in
      if n = 0 then s
      else if isalnum (term_buf (tm t s) ! (n - 1)) then while_back isalnum f n t s
      else while_back (\<lambda>c. \<not> isalnum c) f n t s)"

definition word_forward :: "(nat \<Rightarrow> 'a term_sys_scheme \<Rightarrow> 'a term_sys_scheme) \<Rightarrow> nat
    \<Rightarrow> 'a term_sys_scheme \<Rightarrow> 'a term_sys_scheme" where
  "word_forward f t s =
     (let n = term_buf_count (tm t s) - term_curpos (tm t s) in
      if term_buf_count (tm t s) \<le> term_curpos (tm t s) then s
      else if isalnum (term_buf (tm t s) ! term_curpos (tm t s)) then while_forward isalnum f n t s
      else while_forward (\<lambda>c. \<not> isalnum c) f n t s)"

definition term_clear_lines :: "nat \<Rightarrow> 'a term_sys_scheme \<Rightarrow> 'a term_sys_scheme" where
  "term_clear_lines t s =
     (let s1 = fold (\<lambda>_. term_back t) [0..<term_curpos (tm t s)] s;
          s2 = fold (\<lambda>_. scroll t) [0..<nat (getposy t s1)] s1
      in fold (\<lambda>_. forward t) [0..<term_curpos (tm t s2)] s2)"

subsection \<open>Switching terminals\<close>

definition switch_term :: "nat \<Rightarrow> 'a term_sys_scheme \<Rightarrow> 'a term_sys_scheme" where
  "switch_term ind s =
     (if ind = cur_term_ind s then s
      else
        let s0 = cli s;
            c = cur_term s0;
            s1 = s0\<lparr>mem := memcpy (mem s0) (video_buffer (tm c s0)) VIDEO VID_MEM_SIZE\<rparr>;
            s2 = upd_term c (\<lambda>T. T\<lparr>video_mem := video_buffer T\<rparr>) s1;
            s3 = s2\<lparr>cur_term_ind := ind, cur_term := ind\<rparr>;
            s4 = upd_term ind (\<lambda>T. T\<lparr>video_mem := VIDEO\<rparr>) s3;
            s5 = setpos (cur_x (tm ind s4)) (cur_y (tm ind s4)) ind s4;
            s6 = s5\<lparr>mem := memcpy (mem s5) VIDEO (video_buffer (tm ind s5)) VID_MEM_SIZE\<rparr>
        in sti s6)"

subsection \<open>The key handler\<close>

definition raise_signal :: "signal \<Rightarrow> nat \<Rightarrow> 'a proc_sys_scheme \<Rightarrow> 'a proc_sys_scheme" where
  "raise_signal sg p s =
     s\<lparr>pcbs := (pcbs s)(p := (pcbs s p)\<lparr>signals := signals (pcbs s p) OR SIG_FLAG (signum_of sg)\<rparr>)\<rparr>"

definition term_ctrl :: "byte \<Rightarrow> 'a proc_sys_scheme \<Rightarrow> 'a proc_sys_scheme" where
  "term_ctrl c s =
     (let t = cur_term s; T = tm t s in
      if c = 108 then term_clear_lines t s
      else if c = 98 then (if 0 < term_curpos T then curpos_back t s else s)
      else if c = 102 then (if term_curpos T < term_buf_count T then curpos_forward t s else s)
      else if c = 97 then while_back (\<lambda>_. True) curpos_back (term_curpos T) t s
      else if c = 101 then while_forward (\<lambda>_. True) curpos_forward (term_buf_count T - term_curpos T) t s
      else if c = 119 then word_back delch t s
      else if c = 117 then while_back (\<lambda>_. True) delch (term_curpos T) t s
      else if c = 104 then delch t s
      else if c = 99 then
        (let s1 = snd (puts (bytes_of ''^C'') t s)
         in raise_signal SIG_KB_INT (cur_pid (tm (cur_term_ind s1) s1)) s1)
      else if c = 109 then upd_term t (\<lambda>T. T\<lparr>term_read_done := True\<rparr>) s
      else s)"

definition term_alt :: "byte \<Rightarrow> 'a proc_sys_scheme \<Rightarrow> 'a proc_sys_scheme" where
  "term_alt c s =
     (let t = cur_term s in
      if c = KEY_F1 \<or> c = KEY_F2 \<or> c = KEY_F3 then switch_term (unat (c - KEY_F1)) s
      else if c = 98 then word_back curpos_back t s
      else if c = 102 then word_forward curpos_forward t s
      else s)"

definition term_key_handler :: "key_t \<Rightarrow> 'a proc_sys_scheme \<Rightarrow> 'a proc_sys_scheme" where
  "term_key_handler k s0 =
     (let s = s0\<lparr>cur_term := cur_term_ind s0\<rparr>; t = cur_term s in
      if term_canon (tm t s) \<and> \<not> (modifiers k = MOD_ALT \<and> KEY_F1 \<le> key k \<and> key k \<le> KEY_F3)
      then addch (key k) t (upd_term t (\<lambda>T. T\<lparr>term_curpos := term_buf_count T\<rparr>) s)
      else if modifiers k = MOD_CTRL then term_ctrl (key k) s
      else if modifiers k = MOD_ALT then term_alt (key k) s
      else if key k = KEY_ENTER then term_ctrl 109 s
      else if key k = KEY_BACK then term_ctrl 104 s
      else if key k = KEY_LEFT then term_ctrl 98 s
      else if key k = KEY_RIGHT then term_ctrl 102 s
      else if KEY_F1 \<le> key k \<and> key k \<le> KEY_F12 then s
      else addch (key k) t s)"

subsection \<open>Initialisation\<close>

definition init_term :: "'a term_sys_scheme \<Rightarrow> 'a term_sys_scheme" where
  "init_term s =
     (let s0 = outb 0x0F 0x3D5 (outb 0x0B 0x3D4 (outb 0x00 0x3D5 (outb 0x0A 0x3D4 (cli s))));
          s1 = upd_term 2 (\<lambda>T. T\<lparr>video_buffer := 0xBB000\<rparr>)
                (upd_term 1 (\<lambda>T. T\<lparr>video_buffer := 0xBA000\<rparr>)
                  (upd_term 0 (\<lambda>T. T\<lparr>video_buffer := 0xB9000\<rparr>) s0));
          s2 = upd_term 2 (\<lambda>T. T\<lparr>video_mem := video_buffer T\<rparr>)
                (upd_term 1 (\<lambda>T. T\<lparr>video_mem := video_buffer T\<rparr>)
                  (upd_term 0 (\<lambda>T. T\<lparr>video_mem := VIDEO\<rparr>) s1));
          s3 = upd_term 2 (\<lambda>T. T\<lparr>attr := DEF_ATTR\<rparr>)
                (upd_term 1 (\<lambda>T. T\<lparr>attr := DEF_ATTR\<rparr>) (upd_term 0 (\<lambda>T. T\<lparr>attr := DEF_ATTR\<rparr>) s2))
      in sti (clear 2 (clear 1 (clear 0 s3))))"

subsection \<open>Specification of the line\<close>

definition line_ok :: "term_t \<Rightarrow> bool" where
  "line_ok T \<longleftrightarrow> length (term_buf T) = TERM_BUF_SIZE_W_NL \<and> term_curpos T \<le> term_buf_count T
     \<and> term_buf_count T \<le> TERM_BUF_SIZE"

type_synonym zipper = "byte list \<times> byte list"

definition abs_line :: "term_t \<Rightarrow> zipper" where
  "abs_line T = (take (term_curpos T) (term_buf T),
                 drop (term_curpos T) (take (term_buf_count T) (term_buf T)))"

fun line_insert :: "byte \<Rightarrow> zipper \<Rightarrow> zipper" where
  "line_insert c (pre, post) = (if length pre + length post < TERM_BUF_SIZE then (pre @ [c], post) else (pre, post))"

fun line_delete :: "zipper \<Rightarrow> zipper" where
  "line_delete (pre, post) = (butlast pre, post)"

fun line_left :: "zipper \<Rightarrow> zipper" where
  "line_left (pre, post) = (if pre = [] then (pre, post) else (butlast pre, last pre # post))"

fun line_right :: "zipper \<Rightarrow> zipper" where
  "line_right (pre, []) = (pre, [])"
| "line_right (pre, c # post) = (pre @ [c], post)"

definition same_kind :: "byte \<Rightarrow> byte \<Rightarrow> bool" where
  "same_kind c d \<longleftrightarrow> isalnum c = isalnum d"

definition run_before :: "zipper \<Rightarrow> nat" where
  "run_before z = length (takeWhile (same_kind (last (fst z))) (rev (fst z)))"

definition run_after :: "zipper \<Rightarrow> nat" where
  "run_after z = length (takeWhile (same_kind (hd (snd z))) (snd z))"

definition edit_ctrl :: "byte \<Rightarrow> zipper \<Rightarrow> zipper" where
  "edit_ctrl c z =
     (if c = 98 then line_left z
      else if c = 102 then line_right z
      else if c = 97 then ([], fst z @ snd z)
      else if c = 101 then (fst z @ snd z, [])
      else if c = 119 then (line_delete ^^ run_before z) z
      else if c = 117 then ([], snd z)
      else if c = 104 then line_delete z
      else z)"

definition edit_alt :: "byte \<Rightarrow> zipper \<Rightarrow> zipper" where
  "edit_alt c z =
     (if c = 98 then (line_left ^^ run_before z) z
      else if c = 102 then (line_right ^^ run_after z) z
      else z)"

text \<open>
  What a key does to the line of the terminal on screen: \<open>canon\<close> and \<open>rd\<close> are the terminal's
  mode and whether a process is reading from it.
\<close>

definition edit_key :: "key_t \<Rightarrow> bool \<Rightarrow> bool \<Rightarrow> zipper \<Rightarrow> zipper" where
  "edit_key k canon rd z =
     (let ins = (\<lambda>z. if rd then line_insert (key k) z else z) in
      if canon \<and> \<not> (modifiers k = MOD_ALT \<and> KEY_F1 \<le> key k \<and> key k \<le> KEY_F3) then ins (fst z @ snd z, [])
      else if modifiers k = MOD_CTRL then edit_ctrl (key k) z
      else if modifiers k = MOD_ALT then edit_alt (key k) z
      else if key k = KEY_ENTER then z
      else if key k = KEY_BACK then line_delete z
      else if key k = KEY_LEFT then line_left z
      else if key k = KEY_RIGHT then line_right z
      else if KEY_F1 \<le> key k \<and> key k \<le> KEY_F12 then z
      else ins z)"

text \<open>
  The invariant of the terminals: each line, cursor and escape buffer is in bounds, the terminal
  on screen draws on the text frame buffer and each other one on its own backing page.
\<close>

definition esc_ok :: "term_t \<Rightarrow> bool" where
  "esc_ok T \<longleftrightarrow> length (esc_buf T) = 4 \<and> buf_len T \<le> 3 \<and> length (args T) = 4 \<and> arg_len T \<le> 3"

definition sys_ok :: "'a term_sys_scheme \<Rightarrow> bool" where
  "sys_ok s \<longleftrightarrow> length (terms s) = TERM_NUM \<and> cur_term_ind s < TERM_NUM \<and> cur_term s < TERM_NUM
     \<and> (\<forall>t < TERM_NUM. line_ok (tm t s) \<and> cursor_ok (tm t s) \<and> esc_ok (tm t s)
          \<and> video_buffer (tm t s) = 0xB9000 + 0x1000 * t
          \<and> video_mem (tm t s) = (if t = cur_term_ind s then VIDEO else 0xB9000 + 0x1000 * t))"

text \<open>
  \<open>edits t s s'\<close>: only the line, the cursor and the cells of terminal \<open>t\<close>, the ports and the
  interrupt flag may differ. \<open>ready t s\<close>: the terminal exists and its line and cursor are in
  bounds.
\<close>

definition line_frame :: "term_t \<Rightarrow> term_t" where
  "line_frame T = T\<lparr>term_buf := [], term_buf_count := 0, term_curpos := 0, cur_x := 0, cur_y := 0\<rparr>"

definition edits :: "nat \<Rightarrow> 'a term_sys_scheme \<Rightarrow> 'a term_sys_scheme \<Rightarrow> bool" where
  "edits t s s' \<longleftrightarrow>
     length (terms s') = length (terms s)
     \<and> (\<forall>u < length (terms s). u \<noteq> t \<longrightarrow> tm u s' = tm u s)
     \<and> line_frame (tm t s') = line_frame (tm t s)
     \<and> (\<forall>a. a < video_mem (tm t s) \<or> video_mem (tm t s) + VID_MEM_SIZE \<le> a \<longrightarrow> mem s' a = mem s a)
     \<and> cur_term_ind s' = cur_term_ind s \<and> cur_term s' = cur_term s
     \<and> term_sys.more s' = term_sys.more s"

definition ready :: "nat \<Rightarrow> 'a term_sys_scheme \<Rightarrow> bool" where
  "ready t s \<longleftrightarrow> t < length (terms s) \<and> line_ok (tm t s) \<and> cursor_ok (tm t s)"

text \<open>A step that keeps the terminal ready and leaves the line \<open>z\<close>.\<close>

definition line_step :: "nat \<Rightarrow> 'a term_sys_scheme \<Rightarrow> 'a term_sys_scheme \<Rightarrow> zipper \<Rightarrow> bool" where
  "line_step t s s' z \<longleftrightarrow> ready t s' \<and> edits t s s' \<and> abs_line (tm t s') = z"

text \<open>A kernel at boot, with zeroed terminals and process table, over the memory \<open>m\<close>.\<close>

definition pcb_zero :: PCB where
  "pcb_zero = \<lparr>open_files = replicate TASK_MAX_FILES \<lparr>file_ops = fs_file_ops_table, inode = 0, pos = 0,
      ftype = TASK_FILE_REG, used = False\<rparr>, parent = None, cmd_args = None, pcb_esp = 0, pcb_ebp = 0,
     signals = 0, pid = 0, term_ind = 0, malloc_obj_count = 0, signal_handlers = replicate SIG_SIZE 0\<rparr>"

definition boot_sys :: "mem \<Rightarrow> proc_sys" where
  "boot_sys m = \<lparr>mem = m, ports = [], IF = False, terms = replicate TERM_NUM term_zero,
     cur_term_ind = 0, cur_term = 0, pcbs = (\<lambda>_. pcb_zero), cur = 0\<rparr>"

subsection \<open>Shifting the buffer\<close>

lemma shift_up_nth:
  assumes "p \<le> n" "n < length xs"
  shows "length (fold (\<lambda>i b. b[i := b ! (i - 1)]) (rev [p + 1..<n + 1]) xs) = length xs
    \<and> (\<forall>j < length xs. fold (\<lambda>i b. b[i := b ! (i - 1)]) (rev [p + 1..<n + 1]) xs ! j
         = (if p < j \<and> j \<le> n then xs ! (j - 1) else xs ! j))"
  using assms
proof (induction n arbitrary: xs)
  case (Suc n)
  show ?case
  proof (cases "p = Suc n")
    case False
    then have p: "p \<le> n" using Suc.prems by simp
    then have up: "rev [p + 1..<Suc n + 1] = (n + 1) # rev [p + 1..<n + 1]" by simp
    have ih: "length (fold (\<lambda>i b. b[i := b ! (i - 1)]) (rev [p + 1..<n + 1]) (xs[n + 1 := xs ! n])) = length xs
      \<and> (\<forall>j < length xs. fold (\<lambda>i b. b[i := b ! (i - 1)]) (rev [p + 1..<n + 1]) (xs[n + 1 := xs ! n]) ! j
         = (if p < j \<and> j \<le> n then xs[n + 1 := xs ! n] ! (j - 1) else xs[n + 1 := xs ! n] ! j))"
      using Suc.IH [of "xs[n + 1 := xs ! n]"] p Suc.prems by (simp del: upt_Suc)
    have "fold (\<lambda>i b. b[i := b ! (i - 1)]) (rev [p + 1..<n + 1]) (xs[n + 1 := xs ! n]) ! j
        = (if p < j \<and> j \<le> Suc n then xs ! (j - 1) else xs ! j)" if "j < length xs" for j
      using ih that p Suc.prems
      by (cases "j \<le> n"; cases "j = Suc n") (auto simp: nth_list_update simp del: upt_Suc)
    then show ?thesis unfolding up using ih by (simp del: upt_Suc)
  qed auto
qed auto

lemma shift_down_nth:
  assumes "p \<le> n" "n < length xs"
  shows "length (fold (\<lambda>i b. b[i := b ! (i + 1)]) [p..<n] xs) = length xs
    \<and> (\<forall>j < length xs. fold (\<lambda>i b. b[i := b ! (i + 1)]) [p..<n] xs ! j
         = (if p \<le> j \<and> j < n then xs ! (j + 1) else xs ! j))"
  using assms
proof (induction n)
  case (Suc n)
  then show ?case by (cases "p = Suc n") (auto simp: nth_list_update less_Suc_eq)
qed auto

lemma shift_up_insert:
  fixes c :: 'b
  assumes "p \<le> n" "n < length xs"
  defines "ys \<equiv> (fold (\<lambda>i b. b[i := b ! (i - 1)]) (rev [p + 1..<n + 1]) xs)[p := c]"
  shows "length ys = length xs" "take (p + 1) ys = take p xs @ [c]"
    "drop (p + 1) (take (n + 1) ys) = drop p (take n xs)"
proof -
  note n = shift_up_nth [OF assms(1,2)]
  show "length ys = length xs" using n by (simp add: ys_def)
  show "take (p + 1) ys = take p xs @ [c]"
    by (rule nth_equalityI) (use n assms(1,2) in \<open>auto simp: ys_def nth_append nth_list_update less_Suc_eq\<close>)
  show "drop (p + 1) (take (n + 1) ys) = drop p (take n xs)"
    by (rule nth_equalityI) (use n assms(1,2) in \<open>auto simp: ys_def nth_list_update\<close>)
qed

lemma shift_down_delete:
  assumes "0 < p" "p \<le> n" "n \<le> length xs"
  defines "ys \<equiv> fold (\<lambda>i b. b[i := b ! (i + 1)]) [p - 1..<n - 1] xs"
  shows "length ys = length xs" "take (p - 1) ys = butlast (take p xs)"
    "drop (p - 1) (take (n - 1) ys) = drop p (take n xs)"
proof -
  have n: "length ys = length xs \<and> (\<forall>j < length xs. ys ! j = (if p - 1 \<le> j \<and> j < n - 1 then xs ! (j + 1) else xs ! j))"
    unfolding ys_def using assms(1-3) by (intro shift_down_nth) auto
  then show "length ys = length xs" by simp
  show "take (p - 1) ys = butlast (take p xs)"
    by (rule nth_equalityI) (use n assms(1-3) in \<open>auto simp: nth_butlast\<close>)
  show "drop (p - 1) (take (n - 1) ys) = drop p (take n xs)"
    by (rule nth_equalityI) (use n assms(1-3) in auto)
qed

subsection \<open>Frames of the editing operations\<close>

lemma line_frame_fields:
  assumes "line_frame T' = line_frame T"
  shows "video_mem T' = video_mem T" "video_buffer T' = video_buffer T" "attr T' = attr T"
    "term_noecho T' = term_noecho T" "term_canon T' = term_canon T" "reading T' = reading T"
    "term_read_done T' = term_read_done T" "cur_pid T' = cur_pid T" "esc_state T' = esc_state T"
    "esc_buf T' = esc_buf T" "buf_len T' = buf_len T" "args T' = args T" "arg_len T' = arg_len T"
  using assms by (cases T; cases T'; simp add: line_frame_def)+

lemma touches_edits: "touches t s s' \<Longrightarrow> edits t s s'"
proof -
  assume a: "touches t s s'"
  have "line_frame (tm t s') = line_frame (tm t s)"
    by (subst touches_term [OF a]) (simp add: line_frame_def)
  then show ?thesis
    using a touches_length [OF a] touches_other [OF a] by (simp add: edits_def touches_def)
qed

lemma edits_refl [simp]: "edits t s s"
  by (rule touches_edits) simp

lemma edits_length: "edits t s s' \<Longrightarrow> length (terms s') = length (terms s)"
  by (simp add: edits_def)

lemma edits_upd_line:
  assumes "\<And>T. line_frame (f T) = line_frame T"
  shows "edits t s (upd_term t f s)"
proof (cases "t < length (terms s)")
  case True
  then show ?thesis by (simp add: edits_def assms)
next
  case False
  then have "upd_term t f s = s" by (simp add: upd_term_def list_update_beyond)
  then show ?thesis by simp
qed

lemma edits_trans:
  assumes a: "edits t s s'" and b: "edits t s' s''"
  shows "edits t s s''"
proof -
  have "video_mem (tm t s') = video_mem (tm t s)"
    using a by (intro line_frame_fields) (simp add: edits_def)
  then show ?thesis
    using a b unfolding edits_def by (metis (no_types, lifting))
qed

lemma edits_frame: "edits t s s' \<Longrightarrow> line_frame (tm t s') = line_frame (tm t s)"
  by (simp add: edits_def)

lemmas edits_fields = line_frame_fields [OF edits_frame]

lemma touches_line:
  assumes "touches t s s'"
  shows "abs_line (tm t s') = abs_line (tm t s)" "line_ok (tm t s') = line_ok (tm t s)"
  using touches_fields [OF assms] by (simp_all add: abs_line_def line_ok_def)

text \<open>Echoing characters of the line buffer is a drawing operation too.\<close>

interpretation echo: drawing "\<lambda>i t s. putc (term_buf (tm t s) ! i) t s"
  by unfold_locales (auto intro: putc.draw_touches putc.draw_cursor)

subsection \<open>Insertion and deletion\<close>

lemma ready_touches:
  assumes "ready t s" "touches t s s'" "cursor_ok (tm t s')"
  shows "ready t s' \<and> edits t s s' \<and> abs_line (tm t s') = abs_line (tm t s)"
  using assms touches_edits [OF assms(2)] by (simp add: ready_def touches_line)

lemma line_step_touches:
  "line_step t s s' z \<Longrightarrow> touches t s' s'' \<Longrightarrow> cursor_ok (tm t s'') \<Longrightarrow> line_step t s s'' z"
  using ready_touches [of t s' s''] edits_trans [of t s s' s''] by (simp add: line_step_def)

lemma line_step_trans:
  "line_step t s s' z \<Longrightarrow> line_step t s' s'' z' \<Longrightarrow> line_step t s s'' z'"
  using edits_trans [of t s s' s''] by (simp add: line_step_def)

lemma line_step_refl: "ready t s \<Longrightarrow> line_step t s s (abs_line (tm t s))"
  by (simp add: line_step_def)

lemma line_step_upd:
  assumes "ready t s" "\<And>T. line_frame (f T) = line_frame T" "line_ok (f (tm t s))" "cursor_ok (f (tm t s))"
  shows "line_step t s (upd_term t f s) (abs_line (f (tm t s)))"
  using assms edits_upd_line [of f t s] by (simp add: line_step_def ready_def)

lemma length_abs_line:
  "line_ok T \<Longrightarrow> length (fst (abs_line T)) = term_curpos T"
  "line_ok T \<Longrightarrow> length (snd (abs_line T)) = term_buf_count T - term_curpos T"
  by (auto simp: abs_line_def line_ok_def)

lemma abs_line_insert:
  fixes T :: term_t and ch :: byte
  assumes "line_ok T" "term_buf_count T < 127"
  defines "T' \<equiv> T\<lparr>term_buf := (fold (\<lambda>i b. b[i := b ! (i - 1)])
             (rev [term_curpos T + 1..<term_buf_count T + 1]) (term_buf T))[term_curpos T := ch],
             term_curpos := u8 (term_curpos T + 1), term_buf_count := u8 (term_buf_count T + 1)\<rparr>"
  shows "line_ok T'" "abs_line T' = line_insert ch (abs_line T)"
proof -
  have b: "term_curpos T \<le> term_buf_count T" "term_buf_count T < length (term_buf T)"
    using assms(1,2) by (auto simp: line_ok_def)
  note i = shift_up_insert [OF b, of ch]
  show "line_ok T'" using i(1) assms(1,2) by (simp add: T'_def line_ok_def u8_id)
  show "abs_line T' = line_insert ch (abs_line T)"
    using i(2,3) assms(1,2) length_abs_line [OF assms(1)]
    by (simp add: T'_def abs_line_def line_ok_def u8_id)
qed

lemma abs_line_delete:
  fixes T :: term_t
  assumes "line_ok T" "0 < term_curpos T"
  defines "T' \<equiv> T\<lparr>term_buf := fold (\<lambda>i b. b[i := b ! (i + 1)]) [term_curpos T - 1..<term_buf_count T - 1] (term_buf T),
             term_curpos := u8 (term_curpos T + 255), term_buf_count := u8 (term_buf_count T + 255)\<rparr>"
  shows "line_ok T'" "abs_line T' = line_delete (abs_line T)"
proof -
  have b: "0 < term_curpos T" "term_curpos T \<le> term_buf_count T" "term_buf_count T \<le> length (term_buf T)"
    using assms(1,2) by (auto simp: line_ok_def)
  have u: "u8 (n + 255) = n - 1" if "0 < n" "n \<le> 127" for n :: nat
    using that by (cases n) (simp_all add: u8_def)
  note i = shift_down_delete [OF b]
  show "line_ok T'" using i(1) assms(1,2) by (auto simp: T'_def line_ok_def u)
  show "abs_line T' = line_delete (abs_line T)"
    using i(2,3) assms(1,2) by (simp add: T'_def abs_line_def line_ok_def u)
qed

lemma addch_line:
  assumes r: "ready t s"
  shows "line_step t s (addch ch t s)
           (if reading (tm t s) then line_insert ch (abs_line (tm t s)) else abs_line (tm t s))"
proof (cases "term_buf_count (tm t s) < 127 \<and> reading (tm t s)")
  case False
  have "line_insert ch (abs_line (tm t s)) = abs_line (tm t s)" if "\<not> term_buf_count (tm t s) < 127"
    using that length_abs_line [of "tm t s"] r
    by (cases "abs_line (tm t s)") (auto simp: ready_def line_ok_def)
  then show ?thesis using False r by (auto simp: addch_def line_step_def)
next
  case True
  define f where "f = (\<lambda>T :: term_t. T\<lparr>term_buf := (fold (\<lambda>i b. b[i := b ! (i - 1)])
      (rev [term_curpos T + 1..<term_buf_count T + 1]) (term_buf T))[term_curpos T := ch],
      term_curpos := u8 (term_curpos T + 1), term_buf_count := u8 (term_buf_count T + 1)\<rparr>)"
  have t: "t < length (terms s)" and ok: "line_ok (tm t s)" "cursor_ok (tm t s)"
    using r by (simp_all add: ready_def)
  let ?s2 = "upd_term t f s"
  have step: "line_step t s ?s2 (line_insert ch (abs_line (tm t s)))"
    using line_step_upd [OF r, of f] abs_line_insert [OF ok(1), of ch] True ok(2)
    by (simp add: f_def line_frame_def cursor_ok_def)
  let ?s3 = "putc ch t ?s2"
  let ?s4 = "fold (\<lambda>i s. putc (term_buf (tm t s) ! i) t s) [term_curpos (tm t ?s3)..<term_buf_count (tm t ?s3)] ?s3"
  let ?s5 = "fold (\<lambda>_. term_back t) [0..<term_buf_count (tm t ?s4) - term_curpos (tm t ?s4)] ?s4"
  have t2: "t < length (terms ?s2)" using t by simp
  have 3: "touches t ?s2 ?s3" "cursor_ok (tm t ?s3)"
    by (rule putc.draw_touches [OF t2] putc.draw_cursor [OF t2])+
  then have t3: "t < length (terms ?s3)" using t by simp
  have 4: "touches t ?s3 ?s4" "cursor_ok (tm t ?s4)"
    by (rule echo.fold_touches [OF t3] echo.fold_cursor [OF t3 3(2)])+
  then have t4: "t < length (terms ?s4)" using t3 by simp
  have 5: "touches t ?s4 ?s5" "cursor_ok (tm t ?s5)"
    by (rule tback.fold_touches [OF t4] tback.fold_cursor [OF t4 4(2)])+
  have "line_step t s ?s5 (line_insert ch (abs_line (tm t s)))"
    by (rule line_step_touches [OF line_step_touches [OF line_step_touches [OF step 3] 4] 5])
  moreover have "addch ch t s = (if term_noecho (tm t ?s2) then ?s2 else ?s5)"
    using True t by (simp add: addch_def Let_def f_def upd_term_def)
  ultimately show ?thesis using True step by simp
qed

lemma delch_line:
  assumes r: "ready t s"
  shows "line_step t s (delch t s) (line_delete (abs_line (tm t s)))"
proof (cases "0 < term_curpos (tm t s)")
  case False
  then show ?thesis using r by (simp add: delch_def line_step_def abs_line_def)
next
  case True
  define f where "f = (\<lambda>T :: term_t. T\<lparr>term_buf := fold (\<lambda>i b. b[i := b ! (i + 1)])
      [term_curpos T - 1..<term_buf_count T - 1] (term_buf T),
      term_curpos := u8 (term_curpos T + 255), term_buf_count := u8 (term_buf_count T + 255)\<rparr>)"
  have t: "t < length (terms s)" and ok: "line_ok (tm t s)" "cursor_ok (tm t s)"
    using r by (simp_all add: ready_def)
  let ?s2 = "upd_term t f s"
  have step: "line_step t s ?s2 (line_delete (abs_line (tm t s)))"
    using line_step_upd [OF r, of f] abs_line_delete [OF ok(1) True] ok(2)
    by (simp add: f_def line_frame_def cursor_ok_def)
  let ?s3 = "term_back t ?s2"
  let ?s4 = "fold (\<lambda>i s. putc (term_buf (tm t s) ! i) t s) [term_curpos (tm t ?s3)..<term_buf_count (tm t ?s3)] ?s3"
  let ?s5 = "putc 32 t ?s4"
  let ?s6 = "setpos (getposx t ?s3) (getposy t ?s3) t ?s5"
  have t2: "t < length (terms ?s2)" using t by simp
  have 3: "touches t ?s2 ?s3" "cursor_ok (tm t ?s3)"
    by (rule tback.draw_touches [OF t2] tback.draw_cursor [OF t2])+
  then have t3: "t < length (terms ?s3)" using t by simp
  have 4: "touches t ?s3 ?s4" "cursor_ok (tm t ?s4)"
    by (rule echo.fold_touches [OF t3] echo.fold_cursor [OF t3 3(2)])+
  then have t4: "t < length (terms ?s4)" using t3 by simp
  have 5: "touches t ?s4 ?s5" "cursor_ok (tm t ?s5)"
    by (rule putc.draw_touches [OF t4] putc.draw_cursor [OF t4])+
  then have t5: "t < length (terms ?s5)" using t4 by simp
  have 6: "touches t ?s5 ?s6" "cursor_ok (tm t ?s6)"
    using t5 by (auto simp: touches_setpos)
  have "line_step t s ?s6 (line_delete (abs_line (tm t s)))"
    by (rule line_step_touches [OF line_step_touches [OF line_step_touches [OF line_step_touches [OF step 3] 4] 5] 6])
  moreover have "delch t s = (if term_canon (tm t ?s2) then ?s2 else ?s6)"
    using True t by (simp add: delch_def Let_def f_def upd_term_def)
  ultimately show ?thesis using step by simp
qed

subsection \<open>Walking over the line\<close>

lemma curpos_back_line:
  assumes r: "ready t s" and p: "0 < term_curpos (tm t s)"
  shows "line_step t s (curpos_back t s) (line_left (abs_line (tm t s)))"
proof -
  define f where "f = (\<lambda>T :: term_t. T\<lparr>term_curpos := u8 (term_curpos T + 255)\<rparr>)"
  have t: "t < length (terms s)" and ok: "line_ok (tm t s)" "cursor_ok (tm t s)"
    using r by (simp_all add: ready_def)
  obtain k where k: "term_curpos (tm t s) = Suc k" "k < 127"
    using p ok(1) by (cases "term_curpos (tm t s)") (auto simp: line_ok_def)
  then have u: "u8 (term_curpos (tm t s) + 255) = k" by (simp add: u8_def)
  let ?b = "term_buf (tm t s)" and ?n = "term_buf_count (tm t s)"
  have "k < length ?b" "k < ?n" using ok(1) k by (auto simp: line_ok_def)
  then have tk: "take (Suc k) ?b = take k ?b @ [?b ! k]"
    and dr: "drop k (take ?n ?b) = ?b ! k # drop (Suc k) (take ?n ?b)"
    by (simp_all add: take_Suc_conv_app_nth Cons_nth_drop_Suc [symmetric])
  have z: "abs_line (f (tm t s)) = line_left (abs_line (tm t s))"
    using u by (simp add: f_def abs_line_def k(1) tk dr)
  have "line_step t s (upd_term t f s) (line_left (abs_line (tm t s)))"
    using line_step_upd [OF r, of f] ok u k unfolding z
    by (simp add: f_def line_frame_def cursor_ok_def line_ok_def)
  moreover have "t < length (terms (upd_term t f s))" using t by simp
  ultimately show ?thesis
    unfolding curpos_back_def f_def [symmetric]
    by (intro line_step_touches [OF _ tback.draw_touches tback.draw_cursor])
qed

lemma curpos_forward_line:
  assumes r: "ready t s" and p: "term_curpos (tm t s) < term_buf_count (tm t s)"
  shows "line_step t s (curpos_forward t s) (line_right (abs_line (tm t s)))"
proof -
  define f where "f = (\<lambda>T :: term_t. T\<lparr>term_curpos := u8 (term_curpos T + 1)\<rparr>)"
  have t: "t < length (terms s)" and ok: "line_ok (tm t s)" "cursor_ok (tm t s)"
    using r by (simp_all add: ready_def)
  have u: "u8 (term_curpos (tm t s) + 1) = Suc (term_curpos (tm t s))"
    using p ok(1) by (simp add: u8_def line_ok_def)
  let ?b = "term_buf (tm t s)" and ?n = "term_buf_count (tm t s)" and ?k = "term_curpos (tm t s)"
  have "?k < length ?b" using ok(1) p by (auto simp: line_ok_def)
  then have tk: "take (Suc ?k) ?b = take ?k ?b @ [?b ! ?k]"
    and dr: "drop ?k (take ?n ?b) = ?b ! ?k # drop (Suc ?k) (take ?n ?b)"
    using p by (simp_all add: take_Suc_conv_app_nth Cons_nth_drop_Suc [symmetric])
  have z: "abs_line (f (tm t s)) = line_right (abs_line (tm t s))"
    using u by (simp add: f_def abs_line_def tk dr)
  have "line_step t s (upd_term t f s) (line_right (abs_line (tm t s)))"
    using line_step_upd [OF r, of f] ok u p unfolding z
    by (simp add: f_def line_frame_def cursor_ok_def line_ok_def)
  moreover have "t < length (terms (upd_term t f s))" using t by simp
  ultimately show ?thesis
    unfolding curpos_forward_def f_def [symmetric]
    by (intro line_step_touches [OF _ forward.draw_touches forward.draw_cursor])
qed

text \<open>
  What a loop over the line relies on: one round takes the last character before the cursor
  away from that side (or the first after it), and does \<open>g\<close> to the abstract line. The loop then
  does \<open>g\<close> once for each character of the run it skips.
\<close>

locale walk_back =
  fixes f :: "nat \<Rightarrow> 'a term_sys_scheme \<Rightarrow> 'a term_sys_scheme" and g :: "zipper \<Rightarrow> zipper"
  assumes f_step: "ready t s \<Longrightarrow> 0 < term_curpos (tm t s) \<Longrightarrow> line_step t s (f t s) (g (abs_line (tm t s)))"
    and g_pre: "pre \<noteq> [] \<Longrightarrow> fst (g (pre, post)) = butlast pre"
begin

lemma while_back_line:
  assumes "ready t s" "term_curpos (tm t s) \<le> n"
  shows "line_step t s (while_back p f n t s)
    ((g ^^ length (takeWhile p (rev (fst (abs_line (tm t s)))))) (abs_line (tm t s)))"
  using assms
proof (induction n arbitrary: s)
  case 0
  then show ?case using line_step_refl [of t s] by (simp add: abs_line_def)
next
  case (Suc n)
  obtain pre post where z: "abs_line (tm t s) = (pre, post)" by fastforce
  have ok: "line_ok (tm t s)" using Suc.prems by (simp add: ready_def)
  have len: "length pre = term_curpos (tm t s)" using length_abs_line(1) [OF ok] z by simp
  show ?case
  proof (cases "pre = []")
    case True
    then show ?thesis using len line_step_refl [OF Suc.prems(1)] z by simp
  next
    case False
    then have pos: "0 < term_curpos (tm t s)" using len by (metis length_greater_0_conv)
    have "pre = take (length pre) (term_buf (tm t s))" using z len by (simp add: abs_line_def)
    then have "term_buf (tm t s) ! (term_curpos (tm t s) - 1) = pre ! (length pre - 1)"
      using False len by (metis diff_less length_greater_0_conv nth_take zero_less_one)
    then have last: "term_buf (tm t s) ! (term_curpos (tm t s) - 1) = last pre"
      using False by (simp add: last_conv_nth)
    have rev: "rev pre = last pre # rev (butlast pre)"
      using False by (metis append_butlast_last_id rev_eq_Cons_iff rev_rev_ident)
    show ?thesis
    proof (cases "p (last pre)")
      case True
      have step: "line_step t s (f t s) (g (pre, post))"
        using f_step [OF Suc.prems(1) pos] z by simp
      then have r: "ready t (f t s)" and z': "abs_line (tm t (f t s)) = g (pre, post)"
        by (simp_all add: line_step_def)
      have fz: "fst (abs_line (tm t (f t s))) = butlast pre"
        using g_pre [OF False, of post] z' by simp
      have "length (butlast pre) = term_curpos (tm t (f t s))"
        using length_abs_line(1) r fz by (metis ready_def)
      then have "term_curpos (tm t (f t s)) \<le> n" using len Suc.prems(2) by simp
      from line_step_trans [OF step Suc.IH [OF r this]] show ?thesis
        using True last pos len z g_pre [OF False, of post] by (simp add: rev z' funpow_swap1)
    next
      case False
      then show ?thesis using last line_step_refl [OF Suc.prems(1)] z by (simp add: rev)
    qed
  qed
qed

lemma word_back_line:
  assumes r: "ready t s"
  shows "line_step t s (word_back f t s) ((g ^^ run_before (abs_line (tm t s))) (abs_line (tm t s)))"
proof (cases "term_curpos (tm t s) = 0")
  case True
  then show ?thesis
    using line_step_refl [OF r] by (simp add: word_back_def run_before_def abs_line_def)
next
  case False
  obtain k where k: "term_curpos (tm t s) = Suc k" using False by (cases "term_curpos (tm t s)") auto
  have "k < length (term_buf (tm t s))" using r k by (auto simp: ready_def line_ok_def)
  then have "term_buf (tm t s) ! k = last (fst (abs_line (tm t s)))"
    by (simp add: abs_line_def k take_Suc_conv_app_nth)
  moreover have "same_kind c = (if isalnum c then isalnum else (\<lambda>c. \<not> isalnum c))" for c
    by (rule ext) (auto simp: same_kind_def)
  ultimately show ?thesis
    using while_back_line [OF r, of "Suc k"] k by (simp add: word_back_def run_before_def del: while_back.simps)
qed

end

locale walk_forward =
  fixes f :: "nat \<Rightarrow> 'a term_sys_scheme \<Rightarrow> 'a term_sys_scheme" and g :: "zipper \<Rightarrow> zipper"
  assumes f_step: "ready t s \<Longrightarrow> term_curpos (tm t s) < term_buf_count (tm t s) \<Longrightarrow>
      line_step t s (f t s) (g (abs_line (tm t s)))"
    and g_post: "snd (g (pre, c # post)) = post"
begin

lemma while_forward_line:
  assumes "ready t s" "term_buf_count (tm t s) - term_curpos (tm t s) \<le> n"
  shows "line_step t s (while_forward p f n t s)
    ((g ^^ length (takeWhile p (snd (abs_line (tm t s))))) (abs_line (tm t s)))"
  using assms
proof (induction n arbitrary: s)
  case 0
  then show ?case using line_step_refl [of t s] by (simp add: abs_line_def)
next
  case (Suc n)
  obtain pre post where z: "abs_line (tm t s) = (pre, post)" by fastforce
  have ok: "line_ok (tm t s)" using Suc.prems by (simp add: ready_def)
  have len: "length post = term_buf_count (tm t s) - term_curpos (tm t s)"
    using length_abs_line(2) [OF ok] z by simp
  show ?case
  proof (cases post)
    case Nil
    then show ?thesis using len line_step_refl [OF Suc.prems(1)] z by simp
  next
    case (Cons c cs)
    then have lt: "term_curpos (tm t s) < term_buf_count (tm t s)" using len by simp
    moreover have "post ! 0 = term_buf (tm t s) ! term_curpos (tm t s)"
      using z lt ok by (auto simp: abs_line_def line_ok_def)
    ultimately have hd: "term_buf (tm t s) ! term_curpos (tm t s) = c" using Cons by simp
    show ?thesis
    proof (cases "p c")
      case True
      have step: "line_step t s (f t s) (g (pre, post))"
        using f_step [OF Suc.prems(1) lt] z by simp
      then have r: "ready t (f t s)" and z': "abs_line (tm t (f t s)) = g (pre, post)"
        by (simp_all add: line_step_def)
      have fz: "snd (abs_line (tm t (f t s))) = cs"
        using g_post [of pre c cs] z' Cons by simp
      have "length cs = term_buf_count (tm t (f t s)) - term_curpos (tm t (f t s))"
        using length_abs_line(2) r fz by (metis ready_def)
      then have "term_buf_count (tm t (f t s)) - term_curpos (tm t (f t s)) \<le> n"
        using len Cons Suc.prems(2) by simp
      from line_step_trans [OF step Suc.IH [OF r this]] show ?thesis
        using True hd lt z Cons z' fz by (simp add: funpow_swap1)
    next
      case False
      then show ?thesis using hd line_step_refl [OF Suc.prems(1)] z Cons by simp
    qed
  qed
qed

lemma word_forward_line:
  assumes r: "ready t s"
  shows "line_step t s (word_forward f t s) ((g ^^ run_after (abs_line (tm t s))) (abs_line (tm t s)))"
proof (cases "term_buf_count (tm t s) \<le> term_curpos (tm t s)")
  case True
  then show ?thesis
    using line_step_refl [OF r] by (simp add: word_forward_def run_after_def abs_line_def)
next
  case False
  then have "hd (snd (abs_line (tm t s))) = term_buf (tm t s) ! term_curpos (tm t s)"
    using r by (simp add: abs_line_def ready_def line_ok_def hd_drop_conv_nth)
  moreover have "same_kind c = (if isalnum c then isalnum else (\<lambda>c. \<not> isalnum c))" for c
    by (rule ext) (auto simp: same_kind_def)
  ultimately show ?thesis
    using while_forward_line [OF r] False by (simp add: word_forward_def run_after_def)
qed

end

interpretation kill: walk_back delch line_delete
  by unfold_locales (auto intro: delch_line)

interpretation left: walk_back curpos_back line_left
  by unfold_locales (auto intro: curpos_back_line)

interpretation right: walk_forward curpos_forward line_right
  by unfold_locales (auto intro: curpos_forward_line)

lemma line_delete_all: "(line_delete ^^ length pre) (pre, post) = ([], post)"
proof (induction pre rule: rev_induct)
  case (snoc x xs)
  then show ?case by (simp add: funpow_Suc_right del: funpow.simps)
qed simp

lemma line_left_all: "(line_left ^^ length pre) (pre, post) = ([], pre @ post)"
proof (induction pre arbitrary: post rule: rev_induct)
  case (snoc x xs)
  then show ?case by (simp add: funpow_Suc_right del: funpow.simps)
qed simp

lemma line_right_all: "(line_right ^^ length post) (pre, post) = (pre @ post, [])"
proof (induction post arbitrary: pre)
  case (Cons x xs)
  then show ?case by (simp add: funpow_Suc_right del: funpow.simps)
qed simp

subsection \<open>The key handler\<close>

interpretation tscroll: drawing "\<lambda>_. scroll"
  by unfold_locales (erule touches_scroll, simp add: scroll_eq)

lemma line_step_fold:
  assumes "drawing d" "line_step t s s' z"
  shows "line_step t s (fold (\<lambda>x. d x t) xs s') z"
proof (rule line_step_touches [OF assms(2)])
  have "t < length (terms s')" "cursor_ok (tm t s')" using assms(2) by (auto simp: line_step_def ready_def)
  then show "touches t s' (fold (\<lambda>x. d x t) xs s')" "cursor_ok (tm t (fold (\<lambda>x. d x t) xs s'))"
    by (simp_all add: drawing.fold_touches [OF assms(1)] drawing.fold_cursor [OF assms(1)])
qed

lemma takeWhile_all: "takeWhile (\<lambda>_. True) xs = xs"
  by (induction xs) auto

lemma term_clear_lines_line:
  "ready t s \<Longrightarrow> line_step t s (term_clear_lines t s) (abs_line (tm t s))"
  unfolding term_clear_lines_def Let_def
  by (intro line_step_fold [OF forward.drawing_axioms] line_step_fold [OF tscroll.drawing_axioms]
      line_step_fold [OF tback.drawing_axioms] line_step_refl)

lemma puts_line: "ready t s \<Longrightarrow> line_step t s (snd (puts str t s)) (abs_line (tm t s))"
  by (simp add: puts_def Let_def line_step_fold [OF putc.drawing_axioms] line_step_refl)

lemma raise_signal_frame [simp]:
  "terms (raise_signal sg p s) = terms s" "mem (raise_signal sg p s) = mem s"
  "cur_term_ind (raise_signal sg p s) = cur_term_ind s" "cur_term (raise_signal sg p s) = cur_term s"
  by (simp_all add: raise_signal_def)

lemma term_ctrl_line:
  assumes r: "ready (cur_term s) s" and c: "c \<noteq> 99" "c \<noteq> 109"
  shows "line_step (cur_term s) s (term_ctrl c s) (edit_ctrl c (abs_line (tm (cur_term s) s)))"
proof -
  let ?t = "cur_term s" and ?T = "tm (cur_term s) s"
  obtain pre post where z: "abs_line ?T = (pre, post)" by fastforce
  have len: "length pre = term_curpos ?T" "length post = term_buf_count ?T - term_curpos ?T"
    using length_abs_line [of ?T] r z by (simp_all add: ready_def)
  have b: "line_step ?t s (if 0 < term_curpos ?T then curpos_back ?t s else s) (line_left (pre, post))"
    using curpos_back_line [OF r] line_step_refl [OF r] len z by (cases "pre = []") auto
  have f: "line_step ?t s (if term_curpos ?T < term_buf_count ?T then curpos_forward ?t s else s)
      (line_right (pre, post))"
    using curpos_forward_line [OF r] line_step_refl [OF r] len z by (cases post) auto
  have a: "line_step ?t s (while_back (\<lambda>_. True) curpos_back (term_curpos ?T) ?t s) ([], pre @ post)"
    using left.while_back_line [OF r order_refl, of "\<lambda>_. True"] z line_left_all [of pre post] by (simp add: takeWhile_all)
  have e: "line_step ?t s (while_forward (\<lambda>_. True) curpos_forward (term_buf_count ?T - term_curpos ?T) ?t s)
      (pre @ post, [])"
    using right.while_forward_line [OF r order_refl, of "\<lambda>_. True"] z line_right_all [of post pre] by (simp add: takeWhile_all)
  have u: "line_step ?t s (while_back (\<lambda>_. True) delch (term_curpos ?T) ?t s) ([], post)"
    using kill.while_back_line [OF r order_refl, of "\<lambda>_. True"] z line_delete_all [of pre post] by (simp add: takeWhile_all)
  show ?thesis
    using c line_step_refl [OF r] term_clear_lines_line [OF r] delch_line [OF r] a e u
      kill.word_back_line [OF r] b f
    unfolding term_ctrl_def edit_ctrl_def Let_def z by (simp del: line_left.simps line_delete.simps)
qed

lemma term_alt_line:
  assumes r: "ready (cur_term s) s" and c: "c \<noteq> KEY_F1" "c \<noteq> KEY_F2" "c \<noteq> KEY_F3"
  shows "line_step (cur_term s) s (term_alt c s) (edit_alt c (abs_line (tm (cur_term s) s)))"
  using c line_step_refl [OF r] left.word_back_line [OF r] right.word_forward_line [OF r]
  by (simp add: term_alt_def edit_alt_def Let_def)

lemma setpos_own:
  "t < length (terms s) \<Longrightarrow> cursor_ok (tm t s) \<Longrightarrow> terms (setpos (cur_x (tm t s)) (cur_y (tm t s)) t s) = terms s"
  by (simp add: cursor_ok_def)

lemma switch_term_eq:
  assumes "sys_ok s" "cur_term s = cur_term_ind s" "ind < 3" "ind \<noteq> cur_term_ind s"
  defines "c \<equiv> cur_term_ind s"
  shows "terms (switch_term ind s) = (terms s)[c := (tm c s)\<lparr>video_mem := 0xB9000 + 0x1000 * c\<rparr>,
           ind := (tm ind s)\<lparr>video_mem := VIDEO\<rparr>]"
    and "mem (switch_term ind s) = blit (blit (mem s) (0xB9000 + 0x1000 * c) VIDEO 4000) VIDEO (0xB9000 + 0x1000 * ind) 4000"
    and "cur_term_ind (switch_term ind s) = ind" "cur_term (switch_term ind s) = ind"
    and "term_sys.more (switch_term ind s) = term_sys.more s"
proof -
  have ok: "length (terms s) = 3" "c < 3" "cursor_ok (tm ind s)"
    "video_buffer (tm c s) = 0xB9000 + 0x1000 * c" "video_buffer (tm ind s) = 0xB9000 + 0x1000 * ind"
    using assms by (auto simp: sys_ok_def)
  show "terms (switch_term ind s) = (terms s)[c := (tm c s)\<lparr>video_mem := 0xB9000 + 0x1000 * c\<rparr>,
           ind := (tm ind s)\<lparr>video_mem := VIDEO\<rparr>]"
    using assms(2-4) ok by (simp add: switch_term_def Let_def cursor_ok_def c_def)
  show "mem (switch_term ind s) = blit (blit (mem s) (0xB9000 + 0x1000 * c) VIDEO 4000) VIDEO (0xB9000 + 0x1000 * ind) 4000"
    using assms(2-4) ok by (simp add: switch_term_def Let_def c_def memcpy_blit)
qed (use assms(2-4) in \<open>simp_all add: switch_term_def Let_def\<close>)

lemma switch_term_ok:
  assumes "sys_ok s" "cur_term s = cur_term_ind s" "ind < 3"
  shows "sys_ok (switch_term ind s)"
proof (cases "ind = cur_term_ind s")
  case True
  then show ?thesis using assms by (simp add: switch_term_def)
next
  case False
  note e = switch_term_eq [OF assms False]
  show ?thesis
    using assms False unfolding sys_ok_def e
    by (auto simp: nth_list_update line_ok_def cursor_ok_def esc_ok_def)
qed

lemma switch_term_screens:
  assumes "sys_ok s" "cur_term s = cur_term_ind s" "ind < 3" "t < 3"
  shows "abs_screen t (switch_term ind s) = abs_screen t s"
proof (cases "ind = cur_term_ind s")
  case True
  then show ?thesis by (simp add: switch_term_def)
next
  case False
  note e = switch_term_eq [OF assms(1-3) False]
  let ?c = "cur_term_ind s"
  have ok: "length (terms s) = 3" "?c < 3"
    and vm: "video_mem (tm t s) = (if t = ?c then VIDEO else 0xB9000 + 0x1000 * t)"
    using assms by (auto simp: sys_ok_def)
  let ?v' = "if t = ind then VIDEO else 0xB9000 + 0x1000 * t"
  have vm': "video_mem (tm t (switch_term ind s)) = ?v'"
    unfolding e(1) using ok assms(3,4) False vm by (auto simp: nth_list_update)
  have byte: "mem (switch_term ind s) (?v' + i) = mem s (video_mem (tm t s) + i)" if "i < 4000" for i
    unfolding e(2) vm using that ok assms(3,4) False by (auto simp: blit_def add.assoc)
  have "cells_of (mem (switch_term ind s)) ?v' = cells_of (mem s) (video_mem (tm t s))"
  proof (rule nth_equalityI)
    fix j assume "j < length (cells_of (mem (switch_term ind s)) ?v')"
    then show "cells_of (mem (switch_term ind s)) ?v' ! j = cells_of (mem s) (video_mem (tm t s)) ! j"
      using byte [of "2 * j"] byte [of "2 * j + 1"] by (simp add: nth_cells_of)
  qed simp
  moreover have "cur_x (tm t (switch_term ind s)) = cur_x (tm t s)"
    "cur_y (tm t (switch_term ind s)) = cur_y (tm t s)" "attr (tm t (switch_term ind s)) = attr (tm t s)"
    unfolding e(1) using ok assms(3,4) by (auto simp: nth_list_update)
  ultimately show ?thesis by (simp add: abs_screen_def vm')
qed

subsection \<open>The invariant\<close>

lemma sys_ok_ready: "sys_ok s \<Longrightarrow> t < 3 \<Longrightarrow> ready t s"
  by (simp add: sys_ok_def ready_def)

lemma sys_ok_edits:
  assumes "sys_ok s" "t < 3" "edits t s s'" "ready t s'"
  shows "sys_ok s'"
proof -
  have "esc_ok (tm t s') = esc_ok (tm t s)"
    using edits_fields [OF assms(3)] by (simp add: esc_ok_def)
  moreover have "tm u s' = tm u s" if "u < 3" "u \<noteq> t" for u
    using that assms(1,3) by (simp add: edits_def sys_ok_def)
  moreover have "length (terms s') = length (terms s)" "cur_term_ind s' = cur_term_ind s" "cur_term s' = cur_term s"
    using assms(3) by (simp_all add: edits_def)
  ultimately show ?thesis
    using assms(1,2,4) edits_fields(1,2) [OF assms(3)]
    unfolding sys_ok_def ready_def by metis
qed

lemma sys_ok_line_step:
  "sys_ok s \<Longrightarrow> t < 3 \<Longrightarrow> line_step t s s' z \<Longrightarrow> sys_ok s'"
  using sys_ok_edits [of s t s'] by (simp add: line_step_def)

lemma sys_ok_cong:
  "terms s' = terms s \<Longrightarrow> cur_term_ind s' = cur_term_ind s \<Longrightarrow> cur_term s' < 3 \<Longrightarrow> sys_ok s \<Longrightarrow> sys_ok s'"
  by (simp add: sys_ok_def)

lemma term_ctrl_ok:
  assumes s: "sys_ok s"
  shows "sys_ok (term_ctrl c s) \<and>
    abs_line (tm (cur_term s) (term_ctrl c s)) = edit_ctrl c (abs_line (tm (cur_term s) s))"
proof -
  let ?t = "cur_term s"
  have t: "?t < 3" and r: "ready ?t s" using s sys_ok_ready by (auto simp: sys_ok_def)
  consider "c = 99" | "c = 109" | "c \<noteq> 99" "c \<noteq> 109" by auto
  then show ?thesis
  proof cases
    case 1
    let ?s1 = "snd (puts (bytes_of ''^C'') ?t s)"
    have l: "line_step ?t s ?s1 (abs_line (tm ?t s))" by (rule puts_line [OF r])
    then have ok: "sys_ok ?s1" by (rule sys_ok_line_step [OF s t])
    have "sys_ok (raise_signal SIG_KB_INT p ?s1)" for p
      using ok by (intro sys_ok_cong [OF _ _ _ ok]) (auto simp: sys_ok_def)
    then show ?thesis using l unfolding 1 by (simp add: term_ctrl_def edit_ctrl_def Let_def line_step_def)
  next
    case 2
    have "sys_ok (upd_term ?t (\<lambda>T. T\<lparr>term_read_done := True\<rparr>) s)"
      using s by (auto simp: sys_ok_def nth_list_update line_ok_def cursor_ok_def esc_ok_def)
    then show ?thesis
      using r unfolding 2 by (simp add: term_ctrl_def edit_ctrl_def Let_def ready_def abs_line_def)
  next
    case 3
    then show ?thesis
      using term_ctrl_line [OF r 3] sys_ok_line_step [OF s t] by (auto simp: line_step_def)
  qed
qed

lemma term_alt_ok:
  assumes s: "sys_ok s" and c: "cur_term s = cur_term_ind s"
  shows "sys_ok (term_alt k s) \<and>
    abs_line (tm (cur_term s) (term_alt k s)) = edit_alt k (abs_line (tm (cur_term s) s))"
proof -
  let ?t = "cur_term s"
  have t: "?t < 3" "length (terms s) = 3" and r: "ready ?t s" using s sys_ok_ready by (auto simp: sys_ok_def)
  show ?thesis
  proof (cases "k = KEY_F1 \<or> k = KEY_F2 \<or> k = KEY_F3")
    case True
    then have ind: "unat (k - KEY_F1) < 3" by (auto simp: KEY_F1_def KEY_F2_def KEY_F3_def)
    have "abs_line (tm ?t (switch_term (unat (k - KEY_F1)) s)) = abs_line (tm ?t s)"
    proof (cases "unat (k - KEY_F1) = cur_term_ind s")
      case False
      show ?thesis
        unfolding switch_term_eq(1) [OF s c ind False] using t ind c
        by (simp add: nth_list_update abs_line_def)
    qed (simp add: switch_term_def)
    moreover have "edit_alt k z = z" for z
      using True by (auto simp: edit_alt_def KEY_F1_def KEY_F2_def KEY_F3_def)
    ultimately show ?thesis
      using True switch_term_ok [OF s c ind] by (simp add: term_alt_def Let_def)
  next
    case False
    then show ?thesis
      using term_alt_line [OF r] sys_ok_line_step [OF s t(1)] by (auto simp: line_step_def)
  qed
qed

lemma addch_ok:
  assumes "sys_ok s" "t < 3"
  shows "sys_ok (addch ch t s) \<and> abs_line (tm t (addch ch t s))
    = (if reading (tm t s) then line_insert ch (abs_line (tm t s)) else abs_line (tm t s))"
  using addch_line [OF sys_ok_ready [OF assms], of ch] sys_ok_line_step [OF assms]
  by (auto simp: line_step_def)

lemma key_handler_ok:
  assumes s: "sys_ok s"
  defines "t \<equiv> cur_term_ind s"
  shows "sys_ok (term_key_handler k s) \<and> abs_line (tm t (term_key_handler k s))
    = edit_key k (term_canon (tm t s)) (reading (tm t s)) (abs_line (tm t s))"
proof -
  let ?s = "s\<lparr>cur_term := cur_term_ind s\<rparr>"
  have t: "t < 3" "length (terms s) = 3" using s by (auto simp: sys_ok_def t_def)
  have ok: "sys_ok ?s" using s by (simp add: sys_ok_def)
  let ?e = "upd_term t (\<lambda>T. T\<lparr>term_curpos := term_buf_count T\<rparr>) ?s"
  have eok: "sys_ok ?e"
    using ok t by (auto simp: sys_ok_def nth_list_update line_ok_def cursor_ok_def esc_ok_def)
  have "abs_line (T\<lparr>term_curpos := term_buf_count T\<rparr>) = (fst (abs_line T) @ snd (abs_line T), [])"
    if "term_curpos T \<le> term_buf_count T" for T :: term_t
    using that append_take_drop_id [of "term_curpos T" "take (term_buf_count T) (term_buf T)"]
    by (simp add: abs_line_def min_absorb1)
  then have e: "abs_line (tm t ?e) = (fst (abs_line (tm t s)) @ snd (abs_line (tm t s)), [])"
    "reading (tm t ?e) = reading (tm t s)"
    using s t by (simp_all add: sys_ok_def line_ok_def)
  have ctrl: "sys_ok (term_ctrl x ?s) \<and> abs_line (tm t (term_ctrl x ?s)) = edit_ctrl x (abs_line (tm t s))" for x
    using term_ctrl_ok [OF ok, of x] by (simp add: t_def)
  have alt: "sys_ok (term_alt x ?s) \<and> abs_line (tm t (term_alt x ?s)) = edit_alt x (abs_line (tm t s))" for x
    using term_alt_ok [OF ok, of x] by (simp add: t_def)
  have ins: "sys_ok (addch x t ?s) \<and> abs_line (tm t (addch x t ?s))
      = (if reading (tm t s) then line_insert x (abs_line (tm t s)) else abs_line (tm t s))" for x
    using addch_ok [OF ok t(1), of x] by simp
  have canon: "sys_ok (addch x t ?e) \<and> abs_line (tm t (addch x t ?e)) = (if reading (tm t s)
      then line_insert x (fst (abs_line (tm t s)) @ snd (abs_line (tm t s)), [])
      else (fst (abs_line (tm t s)) @ snd (abs_line (tm t s)), []))" for x
    using addch_ok [OF eok t(1), of x] e by simp
  have special: "edit_ctrl 109 z = z" "edit_ctrl 104 z = line_delete z" "edit_ctrl 98 z = line_left z"
    "edit_ctrl 102 z = line_right z" for z
    by (simp_all add: edit_ctrl_def)
  have sel: "cur_term ?s = t" "terms ?s = terms s" by (simp_all add: t_def)
  show ?thesis
    unfolding term_key_handler_def edit_key_def Let_def sel
    by (simp only: ctrl alt ins canon special sel ok if_distrib [of sys_ok]
        if_distrib [of "\<lambda>s. abs_line (tm t s)"] if_cancel simp_thms cong: if_cong)
qed

subsection \<open>Initialisation\<close>

lemma clear_loop:
  "n \<le> 2000 \<Longrightarrow>
   fold (\<lambda>i s. poke (video_mem (tm t s) + 2 * i + 1) (attr (tm t s)) (poke (video_mem (tm t s) + 2 * i) 32 s))
     [0..<n] s = s\<lparr>mem := blank_cells (mem s) (video_mem (tm t s)) (attr (tm t s)) n\<rparr>"
proof (induction n)
  case 0
  have "blank_cells (mem s) d v 0 = mem s" for d v by (rule ext) (auto simp: blank_cells_def)
  then show ?case by simp
next
  case (Suc n)
  let ?B = "blank_cells (mem s) (video_mem (tm t s)) (attr (tm t s))"
  let ?a = "video_mem (tm t s) + 2 * n"
  let ?f = "\<lambda>i s. poke (video_mem (tm t s) + 2 * i + 1) (attr (tm t s)) (poke (video_mem (tm t s) + 2 * i) 32 s)"
  have B: "?B (Suc n) = (?B n)(?a := 32, Suc ?a := attr (tm t s))"
    by (rule ext) (auto simp: blank_cells_def less_Suc_eq)
  have "fold ?f [0..<Suc n] s = ?f n (s\<lparr>mem := ?B n\<rparr>)"
    using Suc by simp
  also have "\<dots> = s\<lparr>mem := (?B n)(?a := 32, Suc ?a := attr (tm t s))\<rparr>"
    by (simp add: poke_def)
  finally show ?case by (simp only: B)
qed

lemma clear_eq: "clear t s = s\<lparr>mem := blank_cells (mem s) (video_mem (tm t s)) (attr (tm t s)) 2000\<rparr>"
  unfolding clear_def using clear_loop [of 2000 t s] by simp

lemma cells_of_blank: "cells_of (blank_cells m v a 2000) v = replicate 2000 (32, a)"
  by (rule nth_equalityI) (simp_all add: nth_cells_of blank_cells_def)

lemma cells_of_blank_other:
  "v + 4000 \<le> d \<or> d + 4000 \<le> v \<Longrightarrow> cells_of (blank_cells m d a 2000) v = cells_of m v"
  by (rule nth_equalityI) (auto simp: nth_cells_of blank_cells_def)

lemma init_term_terms:
  assumes "terms s = replicate 3 term_zero"
  shows "terms (init_term s) =
     [term_zero\<lparr>video_buffer := 0xB9000, video_mem := VIDEO, attr := 15\<rparr>,
      term_zero\<lparr>video_buffer := 0xBA000, video_mem := 0xBA000, attr := 15\<rparr>,
      term_zero\<lparr>video_buffer := 0xBB000, video_mem := 0xBB000, attr := 15\<rparr>]"
proof -
  have "terms s = [term_zero, term_zero, term_zero]" using assms by (simp add: numeral_3_eq_3)
  then show ?thesis by (simp add: init_term_def Let_def clear_eq numeral_2_eq_2)
qed

lemma less_3_cases: "t < 3 \<Longrightarrow> t = 0 \<or> t = 1 \<or> t = (2::nat)"
  by auto

lemma init_term_ok:
  assumes "terms s = replicate 3 term_zero" "cur_term_ind s = 0" "cur_term s = 0"
  shows "sys_ok (init_term s)"
proof -
  have c: "cur_term_ind (init_term s) = 0" "cur_term (init_term s) = 0"
    using assms by (simp_all add: init_term_def Let_def clear_eq)
  show ?thesis
    unfolding sys_ok_def init_term_terms [OF assms(1)] c
    by (auto dest!: less_3_cases simp: line_ok_def cursor_ok_def esc_ok_def term_zero_def)
qed

lemma boot_sys_ok: "sys_ok (init_term (boot_sys m))"
  by (rule init_term_ok) (simp_all add: boot_sys_def)

text \<open>
  Every key event leaves the terminal subsystem in a consistent state, from start-up on: in
  each of the three terminals the line cursor stays within the line and the line within the
  127-byte buffer, the screen cursor stays on the screen, exactly the terminal with the focus draws
  on the frame buffer and the other two draw on their own backing pages.
\<close>

theorem key_handler_keeps_terminals:
  assumes "sys_ok s"
  shows "sys_ok (fold term_key_handler ks s)"
  using assms by (intro fold_preserves [of ks sys_ok]) (auto simp: key_handler_ok)

theorem key_handler_keeps_terminals_witness:
  "sys_ok (fold term_key_handler [key_P 108, key_P 115, key_A KEY_F2, key_C 99, key_R KEY_ENTER]
     (init_term (boot_sys (\<lambda>_. 0))))"
  by (rule key_handler_keeps_terminals [OF boot_sys_ok])

text \<open>
  C5: The key handler is a line editor: the two parts of the line around the cursor change as
  the key says (insert, delete, move by a character or a word, kill a word or the line), for every
  key, in both modes of the terminal, and the buffer with its index arithmetic represents exactly
  the edited line.
\<close>

theorem key_handler_refines_line:
  assumes "sys_ok s"
  shows "abs_line (tm (cur_term_ind s) (term_key_handler k s))
       = edit_key k (term_canon (tm (cur_term_ind s) s)) (reading (tm (cur_term_ind s) s))
           (abs_line (tm (cur_term_ind s) s))"
  using key_handler_ok [OF assms] by blast

theorem key_handler_refines_line_witness:
  "abs_line (tm (cur_term_ind (init_term (boot_sys (\<lambda>_. 0)))) (term_key_handler (key_P 97) (init_term (boot_sys (\<lambda>_. 0)))))
   = edit_key (key_P 97) (term_canon (tm (cur_term_ind (init_term (boot_sys (\<lambda>_. 0)))) (init_term (boot_sys (\<lambda>_. 0)))))
       (reading (tm (cur_term_ind (init_term (boot_sys (\<lambda>_. 0)))) (init_term (boot_sys (\<lambda>_. 0)))))
       (abs_line (tm (cur_term_ind (init_term (boot_sys (\<lambda>_. 0)))) (init_term (boot_sys (\<lambda>_. 0)))))"
  by (rule key_handler_refines_line [OF boot_sys_ok])

text \<open>
  C33: Switching terminals loses nothing: the contents, cursor and attribute of all three screens
  are the same before and after, although the frame buffer is saved to one backing page and
  overwritten from another, and the new terminal is the one on the frame buffer.
\<close>

theorem switch_term_keeps_screens:
  assumes "sys_ok s" "cur_term s = cur_term_ind s" "ind < TERM_NUM" "t < TERM_NUM"
  shows "abs_screen t (switch_term ind s) = abs_screen t s \<and> cur_term_ind (switch_term ind s) = ind
       \<and> video_mem (tm ind (switch_term ind s)) = VIDEO"
proof -
  have "cur_term_ind (switch_term ind s) = ind" by (simp add: switch_term_def Let_def)
  then show ?thesis
    using switch_term_screens [OF assms] switch_term_ok [OF assms(1-3)] assms(3) by (simp add: sys_ok_def)
qed

theorem switch_term_keeps_screens_witness:
  "abs_screen 0 (switch_term 2 (init_term (boot_sys (\<lambda>_. 7)))) = abs_screen 0 (init_term (boot_sys (\<lambda>_. 7)))"
proof -
  have "cur_term (init_term (boot_sys m)) = cur_term_ind (init_term (boot_sys m))" for m
    by (simp add: init_term_def Let_def clear_eq boot_sys_def)
  then show ?thesis
    using switch_term_keeps_screens [OF boot_sys_ok, of "\<lambda>_. 7" 2 0] by simp
qed

end
