(* ===== verification/Term.thy ===== *)
theory Term
  imports Line_Edit
begin

text \<open>
  The rest of \<^verbatim>\<open>student-distrib/term.c\<close>: the file operations of a terminal (\<open>term_read\<close>,
  \<open>term_write\<close>), the escape sequences understood by \<open>term_write\<close> and \<open>printf\<close>.

  \<open>term_read\<close> sleeps until the line is complete; the interrupts served meanwhile are an argument
  (see \<open>hlt_until\<close>), and a result \<open>None\<close> means that it is still asleep.
\<close>

definition term_read_invalid :: int where "term_read_invalid = -1"
definition term_write_invalid :: int where "term_write_invalid = -1"
definition term_open :: int where "term_open = 0"
definition term_close :: int where "term_close = -1"

subsection \<open>Reading\<close>

definition my_term :: "'a proc_sys_scheme \<Rightarrow> nat" where
  "my_term s = term_ind (pcbs s (cur s))"

text \<open>The second half of \<open>term_read\<close>, once the line is complete.\<close>

definition deliver :: "addr \<Rightarrow> nat \<Rightarrow> nat \<Rightarrow> 'a term_sys_scheme \<Rightarrow> int \<times> 'a term_sys_scheme" where
  "deliver buf nbytes t s1 =
     (let s2 = upd_term t (\<lambda>T. T\<lparr>reading := False\<rparr>) (cli s1);
          s3 = (if term_noecho (tm t s2) then s2 else putc 10 t s2);
          s4 = upd_term t (\<lambda>T. T\<lparr>term_buf := (term_buf T)[term_buf_count T := 10],
                               term_buf_count := u8 (term_buf_count T + 1)\<rparr>) s3;
          copy_count = (if nbytes < term_buf_count (tm t s4) then nbytes else term_buf_count (tm t s4));
          s5 = s4\<lparr>mem := store_list (mem s4) buf (take copy_count (term_buf (tm t s4)))\<rparr>;
          s6 = upd_term t (\<lambda>T. T\<lparr>term_buf_count := 0, term_read_done := False, term_curpos := 0\<rparr>) s5
      in (int copy_count, s6))"

definition term_read :: "addr \<Rightarrow> nat \<Rightarrow> ('a proc_sys_scheme \<Rightarrow> 'a proc_sys_scheme) list \<Rightarrow> 'a proc_sys_scheme
    \<Rightarrow> (int \<times> 'a proc_sys_scheme \<times> ('a proc_sys_scheme \<Rightarrow> 'a proc_sys_scheme) list) option" where
  "term_read buf nbytes irqs s =
     (if buf = 0 then Some (-1, s, irqs)
      else
        let t = my_term s in
        if term_canon (tm t s) then
          case hlt_until (\<lambda>s. term_buf_count (tm t s) \<noteq> 0) irqs
                 (sti (upd_term t (\<lambda>T. T\<lparr>reading := True\<rparr>) s)) of
            None \<Rightarrow> None
          | Some (s1, rest) \<Rightarrow>
              let s2 = upd_term t (\<lambda>T. T\<lparr>reading := False\<rparr>) (cli s1);
                  s3 = s2\<lparr>mem := store_list (mem s2) buf (take 1 (term_buf (tm t s2)))\<rparr>;
                  s4 = upd_term t (\<lambda>T. T\<lparr>term_curpos := 1\<rparr>) s3
              in Some (1, delch t s4, rest)
        else
          case hlt_until (\<lambda>s. term_read_done (tm t s)) irqs
                 (sti (upd_term t (\<lambda>T. T\<lparr>reading := True\<rparr>) s)) of
            None \<Rightarrow> None
          | Some (s1, rest) \<Rightarrow>
              (case deliver buf nbytes t s1 of (r, s2) \<Rightarrow> Some (r, s2, rest)))"

subsection \<open>Escape sequences\<close>

definition esc_set :: "bool \<Rightarrow> byte \<Rightarrow> nat \<Rightarrow> 'a term_sys_scheme \<Rightarrow> 'a term_sys_scheme" where
  "esc_set setting a t s =
     (if a = 1 then upd_term t (\<lambda>T. T\<lparr>term_noecho := setting\<rparr>) s
      else if a = 2 then upd_term t (\<lambda>T. T\<lparr>term_canon := setting\<rparr>) s
      else if a = 3 then
        (if setting then outb 0x00 0x3D5 (outb 0x0B 0x3D4 s) else outb 0x0F 0x3D5 (outb 0x0B 0x3D4 s))
      else s)"

definition esc_funcs :: "byte \<Rightarrow> byte list \<Rightarrow> nat \<Rightarrow> nat \<Rightarrow> 'a term_sys_scheme \<Rightarrow> 'a term_sys_scheme" where
  "esc_funcs f as al t s =
     (if f = 102 then
        (if al \<noteq> 0 then setattr ((getattr t s AND 0xF0) OR (as ! 0 AND 0x0F)) t s
         else setattr ((getattr t s AND 0xF0) OR (DEF_ATTR AND 0x0F)) t s)
      else if f = 98 then
        (if al \<noteq> 0 then setattr ((getattr t s AND 0x0F) OR push_bit 4 (as ! 0 AND 0x0F)) t s
         else setattr ((getattr t s AND 0x0F) OR (DEF_ATTR AND 0xF0)) t s)
      else if f = 112 then
        (if 1 < al then setpos (uint (as ! 1) - 1) (uint (as ! 0) - 1) t s else s)
      else if f = 101 then
        (if al = 0 then upd_term t (\<lambda>T. T\<lparr>cur_x_store := cur_x T, cur_y_store := cur_y T\<rparr>) s else s)
      else if f = 114 then
        (if al = 0 then setpos (cur_x_store (tm t s)) (cur_y_store (tm t s)) t s else s)
      else if f = 99 then
        (if al = 0 then clear t s else s)
      else if f = 115 \<or> f = 83 then
        (if al \<noteq> 0 then esc_set (f = 115) (as ! 0) t s else s)
      else s)"

definition esc_reset :: "nat \<Rightarrow> 'a term_sys_scheme \<Rightarrow> 'a term_sys_scheme" where
  "esc_reset t s = upd_term t (\<lambda>T. T\<lparr>esc_state := IDLE, arg_len := 0, buf_len := 0\<rparr>) s"

definition esc_store_arg :: "term_t \<Rightarrow> term_t" where
  "esc_store_arg T =
     (if arg_len T < 3 then
        let b = (esc_buf T)[buf_len T := 0]
        in T\<lparr>esc_buf := b, args := (args T)[arg_len T := word_of_int (the (atoi (list_mem b) 0 10))],
             arg_len := arg_len T + 1\<rparr>
      else T)"

definition esc_arg_char :: "byte \<Rightarrow> nat \<Rightarrow> 'a term_sys_scheme \<Rightarrow> 'a term_sys_scheme" where
  "esc_arg_char c t s =
     (if isnum c then
        (if buf_len (tm t s) < 3
         then upd_term t (\<lambda>T. T\<lparr>esc_buf := (esc_buf T)[buf_len T := c], buf_len := buf_len T + 1\<rparr>) s
         else s)
      else
        let s1 = upd_term t (\<lambda>T. T\<lparr>buf_len := 0\<rparr>) (upd_term t esc_store_arg s)
        in if c \<noteq> 59 then esc_reset t (esc_funcs c (args (tm t s1)) (arg_len (tm t s1)) t s1) else s1)"

text \<open>The first component is the result of \<^verbatim>\<open>esc_parse\<close>: whether the character is to be printed.\<close>

definition esc_parse :: "byte \<Rightarrow> nat \<Rightarrow> 'a term_sys_scheme \<Rightarrow> bool \<times> 'a term_sys_scheme" where
  "esc_parse c t s =
     (if c = 0x1B then (False, upd_term t (\<lambda>T. T\<lparr>esc_state := A_ESCAPE\<rparr>) s)
      else if esc_state (tm t s) = A_ESCAPE \<and> c = 91 then
        (False, upd_term t (\<lambda>T. T\<lparr>esc_state := A_BRACKET\<rparr>) s)
      else if esc_state (tm t s) = A_BRACKET then
        let s1 = upd_term t (\<lambda>T. T\<lparr>arg_len := 0, buf_len := 0, esc_state := ARG_PARSE\<rparr>) s
        in if \<not> isnum c then (False, esc_reset t (esc_funcs c [] 0 t s1))
           else (False, esc_arg_char c t s1)
      else if esc_state (tm t s) = ARG_PARSE then (False, esc_arg_char c t s)
      else (True, s))"

subsection \<open>Writing\<close>

definition term_write_char :: "byte \<Rightarrow> nat \<Rightarrow> 'a term_sys_scheme \<Rightarrow> 'a term_sys_scheme" where
  "term_write_char c t s = (case esc_parse c t s of (lit, s') \<Rightarrow> if lit then putc c t s' else s')"

definition term_write :: "addr \<Rightarrow> nat \<Rightarrow> 'a proc_sys_scheme \<Rightarrow> int \<times> 'a proc_sys_scheme" where
  "term_write buf nbytes s =
     (let s1 = s\<lparr>cur_term := my_term s\<rparr>; t = cur_term s1
      in (s32 (int nbytes), fold (\<lambda>i s. term_write_char (mem s (buf + i)) t s) [0..<nbytes] s1))"

subsection \<open>\<open>printf\<close>\<close>

text \<open>
  \<open>esp\<close> gives the 32-bit words on the stack after the format; a string argument is read from
  memory. \<open>None\<close>: the format ends inside a conversion, and the code goes on reading behind it.
\<close>

definition str_at :: "mem \<Rightarrow> addr \<Rightarrow> byte list" where
  "str_at m a = load_list m a (the (strlen m a))"

definition conv_num :: "nat \<Rightarrow> int \<Rightarrow> byte list" where
  "conv_num v radix = str_at (the (itoa (\<lambda>_. 0) v 0 radix)) 0"

definition conv_hex8 :: "nat \<Rightarrow> byte list" where
  "conv_hex8 v =
     (let m = the (itoa (\<lambda>_. 0) v 8 16);
          starting_index = the (strlen m 8);
          m' = fold (\<lambda>i m. m(i := 48)) [starting_index..<8] m
      in str_at m' starting_index)"

definition conv_signed :: "nat \<Rightarrow> byte list" where
  "conv_signed v =
     (let val = s32 (int v)
      in if val < 0 then str_at (the (itoa ((\<lambda>_. 0)(0 := 45)) (to_u32 (- val)) 1 10)) 0
         else conv_num (to_u32 val) 10)"

fun printf_loop :: "nat \<Rightarrow> (nat \<Rightarrow> nat) \<Rightarrow> byte list \<Rightarrow> nat \<Rightarrow> 'a term_sys_scheme \<Rightarrow> 'a term_sys_scheme option"
  and printf_conv :: "bool \<Rightarrow> nat \<Rightarrow> (nat \<Rightarrow> nat) \<Rightarrow> byte list \<Rightarrow> nat \<Rightarrow> 'a term_sys_scheme \<Rightarrow> 'a term_sys_scheme option" where
  "printf_loop t esp [] i s = Some s"
| "printf_loop t esp (c # cs) i s =
     (if c = 37 then printf_conv False t esp cs i s else printf_loop t esp cs i (putc c t s))"
| "printf_conv alternate t esp [] i s = None"
| "printf_conv alternate t esp (c # cs) i s =
     (if c = 37 then printf_loop t esp cs i (putc 37 t s)
      else if c = 35 then printf_conv True t esp cs i s
      else if c = 120 then
        printf_loop t esp cs (i + 1)
          (snd (puts (if alternate then conv_hex8 (u32 (esp i)) else conv_num (u32 (esp i)) 16) t s))
      else if c = 117 then printf_loop t esp cs (i + 1) (snd (puts (conv_num (u32 (esp i)) 10) t s))
      else if c = 100 then printf_loop t esp cs (i + 1) (snd (puts (conv_signed (esp i)) t s))
      else if c = 99 then printf_loop t esp cs (i + 1) (putc (word_of_nat (esp i)) t s)
      else if c = 115 then printf_loop t esp cs (i + 1) (snd (puts (str_at (mem s) (u32 (esp i))) t s))
      else printf_loop t esp cs i s)"

definition printf :: "nat \<Rightarrow> byte list \<Rightarrow> (nat \<Rightarrow> nat) \<Rightarrow> 'a term_sys_scheme \<Rightarrow> (int \<times> 'a term_sys_scheme) option" where
  "printf t format esp s =
     (case printf_loop t esp format 0 s of None \<Rightarrow> None | Some s' \<Rightarrow> Some (int (length format), s'))"

subsection \<open>Specifications\<close>

text \<open>\<open>local_to t s s'\<close>: only terminal \<open>t\<close>, its own cells, the ports and the interrupt flag differ.\<close>

definition local_to :: "nat \<Rightarrow> 'a term_sys_scheme \<Rightarrow> 'a term_sys_scheme \<Rightarrow> bool" where
  "local_to t s s' \<longleftrightarrow>
     length (terms s') = length (terms s)
     \<and> (\<forall>u < length (terms s). u \<noteq> t \<longrightarrow> tm u s' = tm u s)
     \<and> video_mem (tm t s') = video_mem (tm t s)
     \<and> (\<forall>a. a < video_mem (tm t s) \<or> video_mem (tm t s) + VID_MEM_SIZE \<le> a \<longrightarrow> mem s' a = mem s a)
     \<and> cur_term_ind s' = cur_term_ind s \<and> cur_term s' = cur_term s
     \<and> term_sys.more s' = term_sys.more s"

text \<open>A step local to \<open>t\<close> that keeps the invariant of the terminals.\<close>

definition keeps :: "nat \<Rightarrow> 'a term_sys_scheme \<Rightarrow> 'a term_sys_scheme \<Rightarrow> bool" where
  "keeps t s s' \<longleftrightarrow> sys_ok s' \<and> local_to t s s'"

text \<open>The number a string of decimal digits stands for.\<close>

definition dec_value :: "byte list \<Rightarrow> nat" where
  "dec_value ds = foldl (\<lambda>r c. 10 * r + (unat c - 48)) 0 ds"

text \<open>
  An escape sequence with arguments: the digit strings separated by semicolons. \<open>esc_fields\<close> is
  the state of the parser: its phase, digit buffer and argument list.
\<close>

fun esc_join :: "byte list list \<Rightarrow> byte list" where
  "esc_join [] = []"
| "esc_join [ds] = ds"
| "esc_join (ds # dss) = ds @ 59 # esc_join dss"

definition esc_fields :: "nat \<Rightarrow> esc_state_t \<Rightarrow> byte list \<Rightarrow> nat \<Rightarrow> byte list \<Rightarrow> nat
    \<Rightarrow> 'a term_sys_scheme \<Rightarrow> 'a term_sys_scheme" where
  "esc_fields t e b n as k s =
     upd_term t (\<lambda>T. T\<lparr>esc_state := e, esc_buf := b, buf_len := n, args := as, arg_len := k\<rparr>) s"

definition digit_string :: "byte list \<Rightarrow> bool" where
  "digit_string ds \<longleftrightarrow> ds \<noteq> [] \<and> length ds \<le> 3 \<and> (\<forall>c \<in> set ds. isnum c)"

text \<open>Keys that neither complete the line nor switch terminals.\<close>

definition typing_key :: "key_t \<Rightarrow> bool" where
  "typing_key k \<longleftrightarrow> (modifiers k = MOD_CTRL \<longrightarrow> key k \<noteq> 109)
     \<and> (modifiers k = MOD_ALT \<longrightarrow> key k \<noteq> KEY_F1 \<and> key k \<noteq> KEY_F2 \<and> key k \<noteq> KEY_F3)
     \<and> (modifiers k \<noteq> MOD_CTRL \<and> modifiers k \<noteq> MOD_ALT \<longrightarrow> key k \<noteq> KEY_ENTER)"

subsection \<open>Isolation\<close>

lemma local_to_refl [simp]: "local_to t s s"
  by (simp add: local_to_def)

lemma local_to_trans:
  assumes a: "local_to t s s'" and b: "local_to t s' s''"
  shows "local_to t s s''"
proof -
  have "video_mem (tm t s') = video_mem (tm t s)" using a by (simp add: local_to_def)
  then show ?thesis using a b unfolding local_to_def by (metis (no_types, lifting))
qed

lemma local_to_touches: "touches t s s' \<Longrightarrow> local_to t s s'"
  using touches_edits [of t s s'] edits_fields(1) [OF touches_edits [of t s s']]
  by (simp add: local_to_def edits_def)

lemma local_to_upd: "(\<And>T. video_mem (f T) = video_mem T) \<Longrightarrow> local_to t s (upd_term t f s)"
  by (cases "t < length (terms s)") (simp_all add: local_to_def upd_term_def list_update_beyond)

lemma local_to_outb: "local_to t s (outb d p s)"
  by (simp add: local_to_def)

lemma local_to_clear: "local_to t s (clear t s)"
  by (simp add: local_to_def clear_eq blank_cells_def)

lemma keeps_refl: "sys_ok s \<Longrightarrow> keeps t s s"
  by (simp add: keeps_def)

lemma keeps_trans: "keeps t s s' \<Longrightarrow> keeps t s' s'' \<Longrightarrow> keeps t s s''"
  using local_to_trans by (auto simp: keeps_def)

lemma keeps_touches:
  assumes "sys_ok s" "t < 3" "touches t s s'" "cursor_ok (tm t s')"
  shows "keeps t s s'"
  using sys_ok_edits [OF assms(1,2) touches_edits [OF assms(3)]] assms local_to_touches
    ready_touches [OF sys_ok_ready [OF assms(1,2)] assms(3,4)]
  by (simp add: keeps_def)

lemma keeps_upd:
  assumes "sys_ok s" "t < 3" "\<And>T. video_mem (f T) = video_mem T" "\<And>T. video_buffer (f T) = video_buffer T"
    "line_ok (f (tm t s))" "cursor_ok (f (tm t s))" "esc_ok (f (tm t s))"
  shows "keeps t s (upd_term t f s)"
proof -
  have "sys_ok (upd_term t f s)"
    using assms by (auto simp: sys_ok_def nth_list_update)
  then show ?thesis using local_to_upd [of f t s] assms(3) by (simp add: keeps_def)
qed

lemma keeps_setpos: "sys_ok s \<Longrightarrow> t < 3 \<Longrightarrow> keeps t s (setpos x y t s)"
  by (rule keeps_touches) (auto simp: sys_ok_def)

lemma keeps_putc: "sys_ok s \<Longrightarrow> t < 3 \<Longrightarrow> keeps t s (putc c t s)"
  by (rule keeps_touches) (auto simp: sys_ok_def intro: putc.draw_touches putc.draw_cursor)

lemma keeps_outb: "sys_ok s \<Longrightarrow> keeps t s (outb d p s)"
  by (simp add: keeps_def local_to_outb) (simp add: sys_ok_def)

lemma keeps_clear: "sys_ok s \<Longrightarrow> keeps t s (clear t s)"
  using local_to_clear [of t s] by (simp add: keeps_def clear_eq sys_ok_def)

lemmas ok_term = sys_ok_def line_ok_def cursor_ok_def esc_ok_def

lemma keeps_setattr: "sys_ok s \<Longrightarrow> t < 3 \<Longrightarrow> keeps t s (setattr a t s)"
  unfolding setattr_def by (rule keeps_upd) (auto simp: ok_term)

lemma keeps_modes:
  "sys_ok s \<Longrightarrow> t < 3 \<Longrightarrow> keeps t s (upd_term t (\<lambda>T. T\<lparr>term_noecho := b\<rparr>) s)"
  "sys_ok s \<Longrightarrow> t < 3 \<Longrightarrow> keeps t s (upd_term t (\<lambda>T. T\<lparr>term_canon := b\<rparr>) s)"
  "sys_ok s \<Longrightarrow> t < 3 \<Longrightarrow> keeps t s (upd_term t (\<lambda>T. T\<lparr>esc_state := e\<rparr>) s)"
  "sys_ok s \<Longrightarrow> t < 3 \<Longrightarrow> keeps t s (upd_term t (\<lambda>T. T\<lparr>buf_len := 0\<rparr>) s)"
  "sys_ok s \<Longrightarrow> t < 3 \<Longrightarrow> keeps t s (upd_term t (\<lambda>T. T\<lparr>cur_x_store := cur_x T, cur_y_store := cur_y T\<rparr>) s)"
  "sys_ok s \<Longrightarrow> t < 3 \<Longrightarrow> keeps t s (upd_term t (\<lambda>T. T\<lparr>arg_len := 0, buf_len := 0, esc_state := e\<rparr>) s)"
  by (rule keeps_upd; auto simp: ok_term)+

lemma keeps_outb2: "sys_ok s \<Longrightarrow> keeps t s (outb d p (outb e q s))"
  using keeps_outb [of s t e q] keeps_outb [of "outb e q s" t d p] keeps_trans by (auto simp: keeps_def)

lemma keeps_esc_set: "sys_ok s \<Longrightarrow> t < 3 \<Longrightarrow> keeps t s (esc_set b a t s)"
  by (simp add: esc_set_def keeps_modes keeps_outb2 keeps_refl)

lemma keeps_esc_funcs: "sys_ok s \<Longrightarrow> t < 3 \<Longrightarrow> keeps t s (esc_funcs f as al t s)"
  by (simp add: esc_funcs_def keeps_setattr keeps_setpos keeps_clear keeps_esc_set keeps_refl keeps_modes)

lemma keeps_esc_reset: "sys_ok s \<Longrightarrow> t < 3 \<Longrightarrow> keeps t s (esc_reset t s)"
  unfolding esc_reset_def by (rule keeps_upd) (auto simp: ok_term)

lemma keeps_esc_store_arg: "sys_ok s \<Longrightarrow> t < 3 \<Longrightarrow> keeps t s (upd_term t esc_store_arg s)"
  by (rule keeps_upd) (auto simp: ok_term esc_store_arg_def Let_def)

lemma keeps_then: "keeps t s s' \<Longrightarrow> (sys_ok s' \<Longrightarrow> keeps t s' s'') \<Longrightarrow> keeps t s s''"
  using keeps_trans by (auto simp: keeps_def)

lemma keeps_esc_arg_char:
  assumes s: "sys_ok s" and t: "t < 3"
  shows "keeps t s (esc_arg_char c t s)"
proof (cases "isnum c")
  case True
  have "keeps t s (upd_term t (\<lambda>T. T\<lparr>esc_buf := (esc_buf T)[buf_len T := c], buf_len := buf_len T + 1\<rparr>) s)"
    if "buf_len (tm t s) < 3"
    using that s t by (intro keeps_upd) (auto simp: ok_term)
  then show ?thesis using True s by (simp add: esc_arg_char_def keeps_refl)
next
  case False
  have 1: "keeps t s (upd_term t (\<lambda>T. T\<lparr>buf_len := 0\<rparr>) (upd_term t esc_store_arg s))"
    by (rule keeps_then [OF keeps_esc_store_arg [OF s t]]) (rule keeps_modes(4) [OF _ t])
  have "keeps t s (esc_reset t (esc_funcs f as al t (upd_term t (\<lambda>T. T\<lparr>buf_len := 0\<rparr>) (upd_term t esc_store_arg s))))"
    for f as al
    by (rule keeps_then [OF keeps_then [OF 1 keeps_esc_funcs [OF _ t]] keeps_esc_reset [OF _ t]])
  then show ?thesis using False 1 by (simp add: esc_arg_char_def Let_def)
qed

lemma keeps_esc_parse:
  assumes s: "sys_ok s" and t: "t < 3"
  shows "keeps t s (snd (esc_parse c t s))"
proof -
  let ?s1 = "upd_term t (\<lambda>T. T\<lparr>arg_len := 0, buf_len := 0, esc_state := ARG_PARSE\<rparr>) s"
  have "keeps t s (esc_reset t (esc_funcs c [] 0 t ?s1))"
    by (rule keeps_then [OF keeps_then [OF keeps_modes(6) [OF s t] keeps_esc_funcs [OF _ t]] keeps_esc_reset [OF _ t]])
  moreover have "keeps t s (esc_arg_char c t ?s1)"
    by (rule keeps_then [OF keeps_modes(6) [OF s t] keeps_esc_arg_char [OF _ t]])
  ultimately show ?thesis
    using s t by (simp add: esc_parse_def Let_def keeps_modes keeps_esc_arg_char keeps_refl)
qed

lemma keeps_term_write_char:
  assumes s: "sys_ok s" and t: "t < 3"
  shows "keeps t s (term_write_char c t s)"
proof (cases "esc_parse c t s")
  case (Pair lit s')
  then have "keeps t s s'" using keeps_esc_parse [OF s t, of c] by simp
  from this keeps_then [OF this keeps_putc [OF _ t]] show ?thesis
    by (simp add: term_write_char_def Pair)
qed

lemma keeps_fold:
  assumes "\<And>x s. sys_ok s \<Longrightarrow> keeps t s (f x s)" "sys_ok s"
  shows "keeps t s (fold f xs s)"
  using assms(2)
proof (induction xs arbitrary: s)
  case (Cons x xs)
  then show ?case using keeps_then [OF assms(1) [OF Cons.prems, of x]] by simp
qed (simp add: keeps_refl)

lemma local_to_screen:
  assumes "sys_ok s" "local_to t s s'" "t < 3" "u < 3" "u \<noteq> t"
  shows "abs_screen u s' = abs_screen u s"
proof -
  have v: "video_mem (tm u s) + 4000 \<le> video_mem (tm t s) \<or> video_mem (tm t s) + 4000 \<le> video_mem (tm u s)"
    using assms(1,3-5) by (auto simp: sys_ok_def)
  have u: "tm u s' = tm u s" using assms by (simp add: local_to_def sys_ok_def)
  have "mem s' (video_mem (tm u s) + i) = mem s (video_mem (tm u s) + i)" if "i < 4000" for i
    using that v assms(2) unfolding local_to_def by auto
  then have "cells_of (mem s') (video_mem (tm u s)) = cells_of (mem s) (video_mem (tm u s))"
    by (intro nth_equalityI) (simp_all add: nth_cells_of add.assoc flip: add_Suc_right)
  then show ?thesis by (simp add: abs_screen_def u)
qed

text \<open>
  C34: A process that writes to its terminal, whatever bytes it writes (text, complete, broken or
  overlong escape sequences), keeps the terminals consistent and changes neither the screen nor
  the state of any other terminal; in particular a process on a background terminal never draws
  on the frame buffer.
\<close>

theorem term_write_isolated:
  assumes "sys_ok s" "my_term s < TERM_NUM" "u < TERM_NUM" "u \<noteq> my_term s"
  shows "sys_ok (snd (term_write buf n s)) \<and> abs_screen u (snd (term_write buf n s)) = abs_screen u s
       \<and> tm u (snd (term_write buf n s)) = tm u s"
proof -
  let ?t = "my_term s" and ?s1 = "s\<lparr>cur_term := my_term s\<rparr>"
  have ok: "sys_ok ?s1" using assms(1,2) by (simp add: sys_ok_def)
  have k: "keeps ?t ?s1 (snd (term_write buf n s))"
    unfolding term_write_def Let_def
    by (simp, rule keeps_fold [OF keeps_term_write_char [OF _ assms(2)] ok])
  have "abs_screen u (snd (term_write buf n s)) = abs_screen u ?s1"
    using k by (intro local_to_screen [OF ok _ assms(2,3,4)]) (simp add: keeps_def)
  moreover have "tm u (snd (term_write buf n s)) = tm u s"
    using k ok assms(3,4) by (simp add: keeps_def local_to_def sys_ok_def)
  ultimately show ?thesis using k by (simp add: keeps_def abs_screen_def)
qed

theorem term_write_isolated_witness:
  "abs_screen 1 (snd (term_write 0x1000 5 (init_term (boot_sys (\<lambda>_. 27))))) = abs_screen 1 (init_term (boot_sys (\<lambda>_. 27)))"
proof -
  have "my_term (init_term (boot_sys m)) = 0" for m
    by (simp add: my_term_def init_term_def Let_def clear_eq boot_sys_def pcb_zero_def)
  then show ?thesis using term_write_isolated [OF boot_sys_ok, where u = 1] by simp
qed

subsection \<open>Reading a line\<close>

lemma term_ctrl_frame:
  assumes "sys_ok s" "c \<noteq> 109"
  shows "line_frame (tm (cur_term s) (term_ctrl c s)) = line_frame (tm (cur_term s) s)
    \<and> cur_term_ind (term_ctrl c s) = cur_term_ind s"
proof -
  have r: "ready (cur_term s) s" using assms by (simp add: sys_ok_def ready_def)
  show ?thesis
  proof (cases "c = 99")
    case True
    then show ?thesis
      using puts_line [OF r, of "bytes_of ''^C''"]
      by (simp add: term_ctrl_def Let_def line_step_def edits_def)
  next
    case False
    then show ?thesis using term_ctrl_line [OF r False assms(2)] by (simp add: line_step_def edits_def)
  qed
qed

lemma typing_step:
  assumes s: "sys_ok s" and t: "t = cur_term_ind s" and c: "\<not> term_canon (tm t s)" and k: "typing_key k"
  shows "line_frame (tm t (term_key_handler k s)) = line_frame (tm t s)"
    "cur_term_ind (term_key_handler k s) = cur_term_ind s"
proof -
  let ?s = "s\<lparr>cur_term := cur_term_ind s\<rparr>"
  have ok: "sys_ok ?s" "cur_term ?s = t" "ready t ?s" using s t by (simp_all add: sys_ok_def ready_def)
  note special = KEY_F1_def KEY_F2_def KEY_F3_def
  have ctrl: "line_frame (tm t (term_ctrl x ?s)) = line_frame (tm t s) \<and> cur_term_ind (term_ctrl x ?s) = cur_term_ind s"
    if "x \<noteq> 109" for x
    using term_ctrl_frame [OF ok(1) that] t by simp
  have ins: "line_frame (tm t (addch x t ?s)) = line_frame (tm t s) \<and> cur_term_ind (addch x t ?s) = cur_term_ind s" for x
    using addch_line [OF ok(3), of x] by (simp add: line_step_def edits_def)
  have alt: "line_frame (tm t (term_alt x ?s)) = line_frame (tm t s) \<and> cur_term_ind (term_alt x ?s) = cur_term_ind s"
    if "x \<noteq> KEY_F1" "x \<noteq> KEY_F2" "x \<noteq> KEY_F3" for x
    using term_alt_line [of ?s x] that ok by (simp add: line_step_def edits_def)
  have canon: "\<not> term_canon (tm (cur_term ?s) ?s)" using c t by simp
  have "line_frame (tm t (term_key_handler k s)) = line_frame (tm t s)
      \<and> cur_term_ind (term_key_handler k s) = cur_term_ind s"
    using k canon unfolding term_key_handler_def Let_def typing_key_def ok(2)
    by (simp add: ctrl alt ins)
  then show "line_frame (tm t (term_key_handler k s)) = line_frame (tm t s)"
    "cur_term_ind (term_key_handler k s) = cur_term_ind s" by simp_all
qed

lemma typing_line:
  assumes "sys_ok s" "t = cur_term_ind s" "\<not> term_canon (tm t s)" "reading (tm t s)" "\<not> term_read_done (tm t s)"
    "\<forall>k \<in> set ks. typing_key k"
  defines "s' \<equiv> fold term_key_handler ks s"
  shows "hlt_until (\<lambda>s. term_read_done (tm t s)) (map term_key_handler ks @ irqs) s
       = hlt_until (\<lambda>s. term_read_done (tm t s)) irqs s'
    \<and> sys_ok s' \<and> cur_term_ind s' = t \<and> line_frame (tm t s') = line_frame (tm t s)
    \<and> abs_line (tm t s') = fold (\<lambda>k. edit_key k False True) ks (abs_line (tm t s))"
  using assms(1-6) unfolding s'_def
proof (induction ks arbitrary: s)
  case (Cons k ks)
  let ?s1 = "term_key_handler k s"
  have f: "line_frame (tm t ?s1) = line_frame (tm t s)" "cur_term_ind ?s1 = cur_term_ind s"
    using typing_step [OF Cons.prems(1-3)] Cons.prems(6) by auto
  note h = key_handler_ok [OF Cons.prems(1), of k] line_frame_fields [OF f(1)]
  have a: "abs_line (tm t ?s1) = edit_key k False True (abs_line (tm t s))"
    using h(1) Cons.prems by simp
  have p: "sys_ok ?s1" "t = cur_term_ind ?s1" "\<not> term_canon (tm t ?s1)" "reading (tm t ?s1)"
      "\<not> term_read_done (tm t ?s1)" "\<forall>k \<in> set ks. typing_key k"
    using h Cons.prems f by simp_all
  from Cons.IH [OF p] show ?case using Cons.prems(5) f(1) a by (simp add: hlt_until_wait)
qed simp

lemma enter_step:
  assumes "sys_ok s" "t = cur_term_ind s" "\<not> term_canon (tm t s)"
  shows "term_key_handler (key_R KEY_ENTER) s
       = upd_term t (\<lambda>T. T\<lparr>term_read_done := True\<rparr>) (s\<lparr>cur_term := t\<rparr>)"
  using assms by (simp add: term_key_handler_def term_ctrl_def Let_def key_R_def MOD_CTRL_def MOD_ALT_def)

lemma abs_line_text:
  "line_ok T \<Longrightarrow> fst (abs_line T) @ snd (abs_line T) = take (term_buf_count T) (term_buf T)"
  using append_take_drop_id [of "term_curpos T" "take (term_buf_count T) (term_buf T)"]
  by (simp add: abs_line_def line_ok_def min_absorb1)

lemma deliver_line:
  assumes t: "t < length (terms s)" and ok: "line_ok (tm t s)" and z: "abs_line (tm t s) = (pre, post)"
  defines "n \<equiv> length pre + length post"
  shows "\<exists>s'. deliver buf nbytes t s = (int (min nbytes (n + 1)), s')
           \<and> load_list (mem s') buf (min nbytes (n + 1)) = take nbytes (pre @ post @ [10])
           \<and> abs_line (tm t s') = ([], []) \<and> \<not> term_read_done (tm t s')"
proof -
  define s2 where "s2 = upd_term t (\<lambda>T. T\<lparr>reading := False\<rparr>) (cli s)"
  define s3 where "s3 = (if term_noecho (tm t s2) then s2 else putc 10 t s2)"
  have t2: "t < length (terms s2)" using t by (simp add: s2_def)
  have tch: "touches t s2 s3" by (simp add: s3_def putc.draw_touches [OF t2])
  have b: "term_buf (tm t s3) = term_buf (tm t s)" "term_buf_count (tm t s3) = n" "t < length (terms s3)"
    using touches_fields [OF tch] touches_length [OF tch] t length_abs_line [OF ok] z ok
    by (auto simp: s2_def n_def line_ok_def)
  have n: "n \<le> 127" "n = term_buf_count (tm t s)" "length (term_buf (tm t s)) = 128"
    using ok length_abs_line [OF ok] z by (auto simp: n_def line_ok_def)
  have "take (Suc n) ((term_buf (tm t s))[n := 10]) = pre @ post @ [10]"
    using abs_line_text [OF ok] z n by (simp add: take_Suc_conv_app_nth)
  then have line: "take (min nbytes (Suc n)) ((term_buf (tm t s))[n := 10]) = take nbytes (pre @ post @ [10])"
    by (metis take_take)
  define X where "X = take nbytes (pre @ post @ [10 :: byte])"
  have "length X = min nbytes (Suc n)" by (simp add: n_def X_def)
  then have ld: "load_list (store_list m buf X) buf (min nbytes (Suc n)) = X" for m
    using load_store_list [of m buf X] by simp
  have s: "deliver buf nbytes t s = (int (min nbytes (Suc n)),
      upd_term t (\<lambda>T. T\<lparr>term_buf_count := 0, term_read_done := False, term_curpos := 0\<rparr>)
        ((upd_term t (\<lambda>T. T\<lparr>term_buf := (term_buf T)[term_buf_count T := 10],
            term_buf_count := u8 (term_buf_count T + 1)\<rparr>) s3)\<lparr>mem := store_list (mem s3) buf X\<rparr>))"
    using b(1-3) n(1) line [folded X_def] unfolding deliver_def Let_def s2_def [symmetric] s3_def [symmetric]
    by (cases "nbytes < Suc n") (auto simp: u8_id min_def)
  show ?thesis
    unfolding X_def [symmetric] s using ld b(3) by (simp add: abs_line_def)
qed

text \<open>
  C8: A read from a terminal in line mode sleeps until Enter and then delivers the line as edited:
  for any sequence of editing keys followed by Enter, arriving one interrupt at a time, \<open>term_read\<close>
  returns, the buffer of the caller holds the edited line with a newline (cut to the requested
  length), the result is the number of bytes delivered, and the line buffer is empty again.
\<close>

theorem term_read_delivers_line:
  assumes "sys_ok s" "my_term s = cur_term_ind s" "t = my_term s" "\<not> term_canon (tm t s)"
    "\<not> term_read_done (tm t s)" "buf \<noteq> 0" "\<forall>k \<in> set ks. typing_key k"
    and line: "(pre, post) = fold (\<lambda>k. edit_key k False True) ks (abs_line (tm t s))"
  shows "\<exists>s'. term_read buf nbytes (map term_key_handler ks @ [term_key_handler (key_R KEY_ENTER)]) s
             = Some (int (min nbytes (length pre + length post + 1)), s', [])
           \<and> load_list (mem s') buf (min nbytes (length pre + length post + 1)) = take nbytes (pre @ post @ [10])
           \<and> abs_line (tm t s') = ([], []) \<and> \<not> term_read_done (tm t s')"
proof -
  define s0 where "s0 = sti (upd_term t (\<lambda>T. T\<lparr>reading := True\<rparr>) s)"
  define s1 where "s1 = fold term_key_handler ks s0"
  define s2 where "s2 = upd_term t (\<lambda>T. T\<lparr>term_read_done := True\<rparr>) (s1\<lparr>cur_term := t\<rparr>)"
  have t: "t < 3" "length (terms s) = 3" "t = cur_term_ind s" using assms(1-3) by (auto simp: sys_ok_def)
  have s0: "sys_ok s0" "t = cur_term_ind s0" "\<not> term_canon (tm t s0)" "reading (tm t s0)"
    "\<not> term_read_done (tm t s0)" "abs_line (tm t s0) = abs_line (tm t s)"
    using assms(1-5) t by (auto simp: s0_def ok_term nth_list_update abs_line_def)
  note typed = typing_line [OF s0(1-5) assms(7), of "[term_key_handler (key_R KEY_ENTER)]", folded s1_def]
  have s1: "\<not> term_canon (tm t s1)" "\<not> term_read_done (tm t s1)"
    using typed s0 line_frame_fields [of "tm t s1" "tm t s0"] by auto
  then have wait: "hlt_until (\<lambda>s. term_read_done (tm t s))
      (map term_key_handler ks @ [term_key_handler (key_R KEY_ENTER)]) s0 = Some (s2, [])"
    using typed enter_step [of s1 t] t by (simp add: hlt_until_wait s2_def sys_ok_def)
  have s2: "t < length (terms s2)" "line_ok (tm t s2)" "abs_line (tm t s2) = (pre, post)"
    using typed line s0(6) t by (auto simp: s2_def sys_ok_def line_ok_def abs_line_def)
  have "term_read buf nbytes (map term_key_handler ks @ [term_key_handler (key_R KEY_ENTER)]) s
      = (case deliver buf nbytes t s2 of (r, s3) \<Rightarrow> Some (r, s3, []))"
    using wait assms(4,6) by (simp add: term_read_def Let_def s0_def assms(3) [symmetric])
  then show ?thesis using deliver_line [OF s2, of buf nbytes] by auto
qed

theorem term_read_delivers_line_witness:
  "\<exists>s'. term_read 0x1000 10 (map term_key_handler [key_P 97, key_R KEY_BACK, key_P 98, key_P 99]
          @ [term_key_handler (key_R KEY_ENTER)]) (init_term (boot_sys (\<lambda>_. 0))) = Some (3, s', [])
      \<and> load_list (mem s') 0x1000 3 = [98, 99, 10]"
proof -
  let ?s = "init_term (boot_sys (\<lambda>_. 0))"
  have t: "my_term ?s = 0" "cur_term_ind ?s = 0"
    by (simp_all add: my_term_def init_term_def Let_def clear_eq boot_sys_def pcb_zero_def)
  have T: "tm 0 ?s = term_zero\<lparr>video_buffer := 0xB9000, video_mem := VIDEO, attr := 15\<rparr>"
    by (subst init_term_terms) (simp_all add: boot_sys_def)
  have z: "abs_line (tm 0 ?s) = ([], [])" by (simp add: T term_zero_def abs_line_def)
  note keydefs = key_P_def key_R_def MOD_CTRL_def MOD_ALT_def KEY_BACK_def KEY_ENTER_def KEY_LEFT_def
    KEY_RIGHT_def KEY_F1_def KEY_F12_def KEY_F2_def KEY_F3_def
  have ed: "([98, 99], []) = fold (\<lambda>k. edit_key k False True) [key_P 97, key_R KEY_BACK, key_P 98, key_P 99] (abs_line (tm 0 ?s))"
    unfolding z by (simp add: edit_key_def Let_def keydefs)
  from term_read_delivers_line [OF boot_sys_ok, where t = 0 and buf = "0x1000" and nbytes = 10, OF _ _ _ _ _ _ ed]
  show ?thesis by (simp add: t T) (auto simp: term_zero_def typing_key_def keydefs numeral_3_eq_3)
qed

subsection \<open>Escape sequences\<close>

lemma isnum_facts:
  assumes "isnum c"
  shows "c \<noteq> 0x1B" "c \<noteq> 91" "c \<noteq> 59" "c \<noteq> 0" "atoi_digit c = int (unat c - 48)" "unat c - 48 \<le> 9"
proof -
  have "48 \<le> unat c" "unat c \<le> 57" using assms by (simp_all add: isnum_def word_le_nat_alt)
  then have "unat c \<in> {48, 49, 50, 51, 52, 53, 54, 55, 56, 57}" unfolding insert_iff empty_iff by presburger
  then have "c \<in> {48, 49, 50, 51, 52, 53, 54, 55, 56, 57}" by (auto simp: word_unat_eq_iff)
  then show "c \<noteq> 0x1B" "c \<noteq> 91" "c \<noteq> 59" "c \<noteq> 0" "atoi_digit c = int (unat c - 48)" "unat c - 48 \<le> 9"
    by (auto simp: atoi_digit_def)
qed

lemma dec_value_snoc: "dec_value (ds @ [c]) = 10 * dec_value ds + (unat c - 48)"
  by (simp add: dec_value_def)

lemma atoi_decimal:
  assumes "\<forall>c \<in> set ds. isnum c" "length ds \<le> 3" "cstr m b ds"
  shows "atoi m b 10 = Some (int (dec_value ds))"
proof -
  have fold: "foldl (\<lambda>res c. res * 10 + atoi_digit c) 0 ds = int (dec_value ds)"
    using assms(1)
  proof (induction ds rule: rev_induct)
    case (snoc c ds)
    then show ?case by (simp add: dec_value_snoc isnum_facts)
  qed (simp add: dec_value_def)
  have "dec_value ds < 10 ^ length ds"
    using assms(1)
  proof (induction ds rule: rev_induct)
    case (snoc c ds)
    then show ?case using isnum_facts(6) [of c] by (simp add: dec_value_snoc)
  qed (simp add: dec_value_def)
  also have "(10::nat) ^ length ds \<le> 10 ^ 3" using assms(2) by (intro power_increasing) auto
  finally have "dec_value ds < 1000" by simp
  then show ?thesis
    using atoi_loop_cstr [OF assms(3), of 10 0] foldl_s32 [of 10 atoi_digit 0 ds] fold
    by (simp add: atoi_def s32_id)
qed

lemma esc_order:
  "T\<lparr>args := as, arg_len := k, esc_buf := b, buf_len := n\<rparr> = T\<lparr>esc_buf := b, buf_len := n, args := as, arg_len := k\<rparr>"
  "T\<lparr>esc_buf := b, args := as, arg_len := k, buf_len := n\<rparr> = T\<lparr>esc_buf := b, buf_len := n, args := as, arg_len := k\<rparr>"
  "T\<lparr>arg_len := k, buf_len := n, esc_state := e\<rparr> = T\<lparr>esc_state := e, buf_len := n, arg_len := k\<rparr>"
  by simp_all

lemma write_digits:
  assumes "t < length (terms s)" "length b = 4" "\<forall>c \<in> set ds. isnum c" "length ds \<le> 3"
  shows "fold (\<lambda>c. term_write_char c t) ds (esc_fields t ARG_PARSE b 0 as k s)
       = esc_fields t ARG_PARSE (ds @ drop (length ds) b) (length ds) as k s"
  using assms(3,4)
proof (induction ds rule: rev_induct)
  case (snoc c ds)
  have "(ds @ drop (length ds) b)[length ds := c] = (ds @ [c]) @ drop (Suc (length ds)) b"
    using snoc.prems assms(2) by (simp add: list_update_append Cons_nth_drop_Suc [symmetric] del: Cons_nth_drop_Suc)
  then have "term_write_char c t (esc_fields t ARG_PARSE (ds @ drop (length ds) b) (length ds) as k s)
      = esc_fields t ARG_PARSE ((ds @ [c]) @ drop (length (ds @ [c])) b) (length (ds @ [c])) as k s"
    using assms(1) snoc.prems isnum_facts [of c]
    by (simp add: term_write_char_def esc_parse_def esc_arg_char_def upd_term_def esc_fields_def esc_order)
  then show ?case using snoc by simp
qed simp

text \<open>Storing an argument: the digits collected so far become a byte.\<close>

lemma store_arg:
  assumes "\<forall>c \<in> set ds. isnum c" "length ds \<le> 3" "arg_len T < 3" "esc_buf T = ds @ rest" "rest \<noteq> []"
    "buf_len T = length ds"
  shows "esc_store_arg T = T\<lparr>esc_buf := ds @ 0 # tl rest,
           args := (args T)[arg_len T := word_of_nat (dec_value ds)], arg_len := arg_len T + 1\<rparr>"
proof -
  have b: "(esc_buf T)[buf_len T := 0] = ds @ 0 # tl rest"
    using assms(4-6) by (cases rest) simp_all
  have "load_list (list_mem (ds @ 0 # tl rest)) 0 (length ds) = ds"
    by (rule nth_equalityI) (simp_all add: nth_append)
  then have "cstr (list_mem (ds @ 0 # tl rest)) 0 ds"
    using assms(1) isnum_facts(4) by (fastforce simp: cstr_def nth_append)
  then show ?thesis
    using atoi_decimal [OF assms(1,2)] assms(3) by (simp add: esc_store_arg_def Let_def b)
qed

lemma write_arg_end:
  fixes as :: "byte list"
  assumes "t < length (terms s)" "length b = 4" "length ds \<le> 3 \<and> (\<forall>c \<in> set ds. isnum c)" "k < 3" "\<not> isnum c" "c \<noteq> 27"
  defines "b' \<equiv> ds @ 0 # tl (drop (length ds) b)" and "as' \<equiv> as[k := word_of_nat (dec_value ds)]"
  shows "term_write_char c t (esc_fields t ARG_PARSE (ds @ drop (length ds) b) (length ds) as k s)
       = (let s' = esc_fields t ARG_PARSE b' 0 as' (Suc k) s
          in if c = 59 then s' else esc_reset t (esc_funcs c as' (Suc k) t s'))"
proof -
  let ?s = "esc_fields t ARG_PARSE (ds @ drop (length ds) b) (length ds) as k s"
  have tm: "tm t ?s = (tm t s)\<lparr>esc_state := ARG_PARSE, esc_buf := ds @ drop (length ds) b,
      buf_len := length ds, args := as, arg_len := k\<rparr>" using assms(1) by (simp add: esc_fields_def)
  have "drop (length ds) b \<noteq> []" using assms(2,3) by auto
  then have "esc_store_arg (tm t ?s) = (tm t ?s)\<lparr>esc_buf := b', args := as', arg_len := Suc k\<rparr>"
    using store_arg [of ds "tm t ?s" "drop (length ds) b"] assms(3,4)
    by (simp add: tm b'_def as'_def)
  then have e: "upd_term t (\<lambda>T. T\<lparr>buf_len := 0\<rparr>) (upd_term t esc_store_arg ?s) = esc_fields t ARG_PARSE b' 0 as' (Suc k) s"
    using assms(1) unfolding upd_term_def [of t esc_store_arg] by (simp add: tm) (simp add: esc_fields_def upd_term_def esc_order)
  have st: "esc_state (tm t ?s) = ARG_PARSE" by (simp add: tm)
  have "args (tm t (esc_fields t ARG_PARSE b' 0 as' (Suc k) s)) = as'"
    "arg_len (tm t (esc_fields t ARG_PARSE b' 0 as' (Suc k) s)) = Suc k"
    using assms(1) by (simp_all add: esc_fields_def)
  then show ?thesis
    using assms(5,6) by (simp add: term_write_char_def esc_parse_def st esc_arg_char_def e Let_def)
qed

lemma write_args:
  assumes "t < length (terms s)" "length b = 4" "length as = 4" "dss \<noteq> []" "\<forall>ds \<in> set dss. digit_string ds"
    "k + length dss \<le> 3" "\<not> isnum f" "f \<noteq> 27" "f \<noteq> 59"
  shows "\<exists>b' as'. fold (\<lambda>c. term_write_char c t) (esc_join dss @ [f]) (esc_fields t ARG_PARSE b 0 as k s)
      = esc_reset t (esc_funcs f as' (k + length dss) t (esc_fields t ARG_PARSE b' 0 as' (k + length dss) s))
      \<and> length b' = 4 \<and> length as' = 4
      \<and> take (k + length dss) as' = take k as @ map (\<lambda>ds. word_of_nat (dec_value ds)) dss"
  using assms(2-6)
proof (induction dss arbitrary: b as k rule: esc_join.induct)
  case (2 ds)
  let ?as = "as[k := word_of_nat (dec_value ds)]" and ?b = "ds @ 0 # tl (drop (length ds) b)"
  have d: "digit_string ds" "\<forall>c \<in> set ds. isnum c" "length ds \<le> 3" using "2.prems" by (auto simp: digit_string_def)
  have "fold (\<lambda>c. term_write_char c t) (ds @ [f]) (esc_fields t ARG_PARSE b 0 as k s)
      = esc_reset t (esc_funcs f ?as (Suc k) t (esc_fields t ARG_PARSE ?b 0 ?as (Suc k) s))"
    using write_digits [OF assms(1) "2.prems"(1) d(2,3)] write_arg_end [OF assms(1) "2.prems"(1) conjI [OF d(3,2)] _ assms(7,8)]
      "2.prems" assms(9) by (simp add: Let_def)
  moreover have "length ?b = 4" using "2.prems"(1) d by (simp add: digit_string_def)
  moreover have "take (Suc k) ?as = take k as @ [word_of_nat (dec_value ds)]"
    using "2.prems" by (simp add: take_Suc_conv_app_nth)
  ultimately show ?case using "2.prems" by (intro exI [of _ ?b] exI [of _ ?as]) simp
next
  case (3 ds ds2 dss)
  let ?as = "as[k := word_of_nat (dec_value ds)]" and ?b = "ds @ 0 # tl (drop (length ds) b)"
  have d: "digit_string ds" "\<forall>c \<in> set ds. isnum c" "length ds \<le> 3" using "3.prems" by (auto simp: digit_string_def)
  have "\<not> isnum 59" by (simp add: isnum_def)
  then have step: "fold (\<lambda>c. term_write_char c t) (ds @ [59]) (esc_fields t ARG_PARSE b 0 as k s)
      = esc_fields t ARG_PARSE ?b 0 ?as (Suc k) s"
    using write_digits [OF assms(1) "3.prems"(1) d(2,3)] write_arg_end [OF assms(1) "3.prems"(1) conjI [OF d(3,2)], of k 59]
      "3.prems" by (simp add: Let_def)
  have p: "length ?b = 4" "length ?as = 4" "ds2 # dss \<noteq> []" "\<forall>ds \<in> set (ds2 # dss). digit_string ds"
    "Suc k + length (ds2 # dss) \<le> 3"
    using "3.prems" d by (simp_all add: digit_string_def)
  have tk: "take (Suc k) ?as = take k as @ [word_of_nat (dec_value ds)]"
    using "3.prems" by (simp add: take_Suc_conv_app_nth)
  from "3.IH" [OF p] show ?case using step tk by simp
qed simp

lemma run_escape:
  assumes "t < length (terms s)" "esc_ok (tm t s)" "dss \<noteq> []" "length dss \<le> 3"
    "\<forall>ds \<in> set dss. digit_string ds" "\<not> isnum f" "f \<noteq> 27" "f \<noteq> 59"
  shows "\<exists>b as. fold (\<lambda>c. term_write_char c t) (27 # 91 # esc_join dss @ [f]) s
      = esc_reset t (esc_funcs f as (length dss) t (esc_fields t ARG_PARSE b 0 as (length dss) s))
      \<and> take (length dss) as = map (\<lambda>ds. word_of_nat (dec_value ds)) dss"
proof -
  let ?T = "tm t s"
  obtain d ds rest where dss: "esc_join dss @ [f] = d # rest" "isnum d"
    using assms(3,5) by (cases dss rule: esc_join.cases) (auto simp: digit_string_def neq_Nil_conv)
  let ?s2 = "term_write_char 91 t (term_write_char 27 t s)"
  have "?s2 = upd_term t (\<lambda>T. T\<lparr>esc_state := A_BRACKET\<rparr>) s"
    using assms(1) by (simp add: term_write_char_def esc_parse_def upd_term_def)
  then have "term_write_char d t ?s2 = term_write_char d t (esc_fields t ARG_PARSE (esc_buf ?T) 0 (args ?T) 0 s)"
    using assms(1) dss(2) isnum_facts [OF dss(2)]
    by (simp add: term_write_char_def esc_parse_def Let_def esc_fields_def upd_term_def esc_order)
  then have "fold (\<lambda>c. term_write_char c t) (27 # 91 # esc_join dss @ [f]) s
      = fold (\<lambda>c. term_write_char c t) (esc_join dss @ [f]) (esc_fields t ARG_PARSE (esc_buf ?T) 0 (args ?T) 0 s)"
    by (simp add: dss(1))
  then show ?thesis
    using write_args [OF assms(1), of "esc_buf ?T" "args ?T" dss 0 f] assms(2-) by (auto simp: esc_ok_def)
qed

text \<open>
  The escape-sequence parser understands every well-formed sequence: after ESC \<open>[\<close>, up to
  three decimal arguments of up to three digits separated by semicolons, and a command letter,
  written byte by byte, the command runs once with exactly the values of the arguments (modulo
  256), nothing is printed, and the parser is idle again, whatever state it was in before.
\<close>

theorem term_write_runs_escape:
  assumes "t < length (terms s)" "esc_ok (tm t s)" "dss \<noteq> []" "length dss \<le> 3"
    "\<forall>ds \<in> set dss. digit_string ds" "\<not> isnum f" "f \<noteq> 27" "f \<noteq> 59"
  shows "\<exists>b as. fold (\<lambda>c. term_write_char c t) (27 # 91 # esc_join dss @ [f]) s
      = esc_reset t (esc_funcs f as (length dss) t (esc_fields t ARG_PARSE b 0 as (length dss) s))
      \<and> take (length dss) as = map (\<lambda>ds. word_of_nat (dec_value ds)) dss"
  by (rule run_escape [OF assms])

theorem term_write_runs_escape_witness:
  "\<exists>b as. fold (\<lambda>c. term_write_char c 0) (27 # 91 # esc_join [[49, 50], [55]] @ [112]) (boot_terms (\<lambda>_. 0))
      = esc_reset 0 (esc_funcs 112 as 2 0 (esc_fields 0 ARG_PARSE b 0 as 2 (boot_terms (\<lambda>_. 0))))
      \<and> take 2 as = [12, 7]"
  using term_write_runs_escape [of 0 "boot_terms (\<lambda>_. 0)" "[[49, 50], [55]]" 112]
  by (simp add: boot_terms_def term_zero_def esc_ok_def digit_string_def isnum_def dec_value_def flip: numeral_2_eq_2)

subsection \<open>Formatted output\<close>

lemma str_at_cstr: "cstr m a xs \<Longrightarrow> str_at m a = xs"
  by (simp add: str_at_def strlen_cstr) (simp add: cstr_def)

lemma conv_num_digits:
  "2 \<le> r \<Longrightarrow> r \<le> 36 \<Longrightarrow> n < 4294967296 \<Longrightarrow> conv_num n (int r) = ascii_digits r n"
  using cstr_ascii_digits [of r n] by (simp add: conv_num_def itoa_spec str_at_cstr cstr_store)

lemma length_hex_digits: "n < 4294967296 \<Longrightarrow> length (ascii_digits 16 n) \<le> 8"
  using length_ldigits_le [of 16 n 8] by (simp add: ascii_digits_def)

lemma fold_fill: "fold (\<lambda>i m. m(i := c)) [a..<b] m = (\<lambda>x. if a \<le> x \<and> x < b then c else m x)"
  by (induction b) (auto simp: fun_eq_iff less_Suc_eq)

lemma conv_hex8_digits:
  assumes "n < 4294967296"
  shows "conv_hex8 n = replicate (8 - length (ascii_digits 16 n)) 48 @ ascii_digits 16 n"
proof -
  let ?D = "ascii_digits 16 n"
  let ?L = "length ?D" and ?m = "store_list (\<lambda>_. 0) 8 (?D @ [0])"
  let ?m' = "\<lambda>x. if ?L \<le> x \<and> x < 8 then 48 else ?m x"
  have L: "?L \<le> 8" using assms by (rule length_hex_digits)
  have nz: "0 \<notin> set ?D" using cstr_ascii_digits [of 16 n] by simp
  then have "strlen ?m 8 = Some ?L" by (intro strlen_cstr cstr_store)
  moreover have "itoa (\<lambda>_. 0) n 8 16 = Some ?m" using itoa_spec [of 16 n "\<lambda>_. 0" 8] assms by simp
  ultimately have "conv_hex8 n = str_at ?m' ?L" by (simp add: conv_hex8_def fold_fill Let_def)
  moreover have "cstr ?m' ?L (replicate (8 - ?L) 48 @ ?D)"
  proof -
    have "load_list ?m' ?L (length (replicate (8 - ?L) 48 @ ?D)) = replicate (8 - ?L) 48 @ ?D"
      by (rule nth_equalityI) (use L in \<open>auto simp: nth_append store_list_def add.commute\<close>)
    then show ?thesis using nz L by (auto simp: cstr_def store_list_def nth_append)
  qed
  ultimately show ?thesis by (simp add: str_at_cstr)
qed

lemma conv_signed_digits:
  "conv_signed v = (if s32 (int v) < 0 then 45 # ascii_digits 10 (nat (- s32 (int v)))
                    else ascii_digits 10 (nat (s32 (int v))))"
proof -
  let ?x = "s32 (int v)"
  have r: "- 2147483648 \<le> ?x" "?x < 2147483648" using s32_range [of "int v"] by auto
  show ?thesis
  proof (cases "?x < 0")
    case True
    let ?D = "ascii_digits 10 (nat (- ?x))"
    have u: "to_u32 (- ?x) = nat (- ?x)" using True r by (simp add: to_u32_id)
    have "itoa ((\<lambda>_. 0)(0 := 45)) (nat (- ?x)) 1 10 = Some (store_list ((\<lambda>_. 0)(0 := 45)) 1 (?D @ [0]))"
      using itoa_spec [of 10 "nat (- ?x)" "(\<lambda>_. 0)(0 := 45)" 1] r by simp
    moreover have "store_list ((\<lambda>_. 0)(0 := 45)) 1 (?D @ [0]) = store_list (\<lambda>_. 0) 0 ((45 # ?D) @ [0])"
      by (rule ext) (auto simp: store_list_def nth_Cons split: nat.split)
    moreover have "cstr (store_list (\<lambda>_. 0) 0 ((45 # ?D) @ [0])) 0 (45 # ?D)"
      using cstr_ascii_digits [of 10 "nat (- ?x)"] by (intro cstr_store) simp
    ultimately show ?thesis using True u str_at_cstr by (simp add: conv_signed_def Let_def)
  next
    case False
    then show ?thesis
      using conv_num_digits [of 10 "nat ?x"] r by (simp add: conv_signed_def Let_def to_u32_id)
  qed
qed

text \<open>
  The number formats of \<open>printf\<close>: \<open>%u\<close> and \<open>%x\<close> print the decimal and hexadecimal digits of
  the 32-bit argument, \<open>%d\<close> prints a minus sign and the digits of the absolute value for a
  negative one (the most negative included), and \<open>%#x\<close> prints exactly eight digits, padded with
  zeros on the left; each returns the length of the format.
\<close>

theorem printf_numbers:
  "printf t [37, 117] esp s = Some (2, snd (puts (ascii_digits 10 (u32 (esp 0))) t s))
   \<and> printf t [37, 120] esp s = Some (2, snd (puts (ascii_digits 16 (u32 (esp 0))) t s))
   \<and> printf t [37, 100] esp s = Some (2, snd (puts
     (if s32 (int (esp 0)) < 0 then 45 # ascii_digits 10 (nat (- s32 (int (esp 0))))
      else ascii_digits 10 (nat (s32 (int (esp 0))))) t s))
   \<and> printf t [37, 35, 120] esp s = Some (3, snd (puts (replicate (8 - length (ascii_digits 16 (u32 (esp 0)))) 48
     @ ascii_digits 16 (u32 (esp 0))) t s)) \<and> length (ascii_digits 16 (u32 (esp 0))) \<le> 8"
  using conv_num_digits [of 10 "u32 (esp 0)"] conv_num_digits [of 16 "u32 (esp 0)"]
    conv_hex8_digits [of "u32 (esp 0)"] length_hex_digits [of "u32 (esp 0)"] u32_less [of "esp 0"]
  by (simp add: printf_def conv_signed_digits)

end
