(* ===== verification/Pic.thy ===== *)
theory Pic
  imports Memory
begin

text \<open>
  The interrupt controllers (\<^verbatim>\<open>student-distrib/i8259.c\<close>): initialisation, masking and
  end-of-interrupt. The two masks are kept beside the machine state; what the bytes written to
  the ports mean is given by a model of the pair of 8259A chips (\<open>chip_write\<close>), after the data
  sheet: ICW1 on the command port starts the initialisation sequence, the next three bytes on the
  data port are ICW2 to ICW4, any other byte on the data port is the interrupt mask, and
  \<open>0x60 | n\<close> on the command port ends the interrupt in service at level \<open>n\<close>, while \<open>0x20\<close> there ends the
  one of highest priority (the lowest bit of the in-service register).
\<close>

record pic =
  master_mask :: byte
  slave_mask :: byte

definition MASTER_8259_PORT :: nat where "MASTER_8259_PORT = 0x20"
definition MASTER_8259_DATA :: nat where "MASTER_8259_DATA = 0x21"
definition SLAVE_8259_PORT :: nat where "SLAVE_8259_PORT = 0xA0"
definition SLAVE_8259_DATA :: nat where "SLAVE_8259_DATA = 0xA1"

abbreviation (input) ICW3_SLAVE :: byte where "ICW3_SLAVE \<equiv> 0x02"
abbreviation (input) EOI :: byte where "EOI \<equiv> 0x60"

type_synonym 'a pic_st = "pic \<times> 'a machine_scheme"

definition i8259_init :: "'a pic_st \<Rightarrow> 'a pic_st" where
  "i8259_init ps =
     (let (p, s) = ps in
      (p\<lparr>master_mask := 0xFF, slave_mask := 0xFF\<rparr>,
       outb 0xFF SLAVE_8259_DATA (outb 0xFF MASTER_8259_DATA
         (outb 0x01 SLAVE_8259_DATA (outb 0x01 MASTER_8259_DATA
           (outb 0x02 SLAVE_8259_DATA (outb 0x04 MASTER_8259_DATA
             (outb 0x28 SLAVE_8259_DATA (outb 0x20 MASTER_8259_DATA
               (outb 0x11 SLAVE_8259_PORT (outb 0x11 MASTER_8259_PORT
                 (outb 0xFF SLAVE_8259_DATA (outb 0xFF MASTER_8259_DATA s)))))))))))))"

definition enable_bits :: "nat \<Rightarrow> byte" where
  "enable_bits n = ((\<lambda>e. push_bit 1 e + 1) ^^ n) 0xFE"

definition enable_irq :: "nat \<Rightarrow> 'a pic_st \<Rightarrow> 'a pic_st" where
  "enable_irq irq_num ps =
     (let (p, s) = ps in
      if 15 < irq_num then ps
      else if irq_num < 8 then
        let p' = p\<lparr>master_mask := master_mask p AND enable_bits irq_num\<rparr>
        in (p', outb (master_mask p') MASTER_8259_DATA s)
      else
        let p' = p\<lparr>slave_mask := slave_mask p AND enable_bits (irq_num - 8),
                   master_mask := master_mask p AND NOT ICW3_SLAVE\<rparr>
        in (p', outb (master_mask p') MASTER_8259_DATA (outb (slave_mask p') SLAVE_8259_DATA s)))"

definition disable_bits :: "nat \<Rightarrow> byte" where
  "disable_bits n = (push_bit 1 ^^ n) 0x01"

definition disable_irq :: "nat \<Rightarrow> 'a pic_st \<Rightarrow> 'a pic_st" where
  "disable_irq irq_num ps =
     (let (p, s) = ps in
      if 15 < irq_num then ps
      else if irq_num < 8 then
        let p' = p\<lparr>master_mask := master_mask p OR disable_bits irq_num\<rparr>
        in (p', outb (master_mask p') MASTER_8259_DATA s)
      else
        let p1 = p\<lparr>slave_mask := slave_mask p OR disable_bits (irq_num - 8)\<rparr>;
            p' = (if slave_mask p1 = 0 then p1\<lparr>master_mask := master_mask p1 OR ICW3_SLAVE\<rparr> else p1)
        in (p', outb (master_mask p') MASTER_8259_DATA (outb (slave_mask p') SLAVE_8259_DATA s)))"

definition send_eoi :: "nat \<Rightarrow> 'a machine_scheme \<Rightarrow> 'a machine_scheme" where
  "send_eoi irq_num s =
     (if 15 < irq_num then s
      else if irq_num < 8 then outb (word_of_nat irq_num OR EOI) MASTER_8259_PORT s
      else outb (ICW3_SLAVE OR EOI) MASTER_8259_PORT (outb (word_of_nat (irq_num - 8) OR EOI) SLAVE_8259_PORT s))"

subsection \<open>The chips\<close>

text \<open>\<open>next_icw\<close> is the initialisation word expected next (2, 3 or 4), or 0 in operation.\<close>

record chip =
  next_icw :: nat
  vector_base :: byte
  cascade :: byte
  mode :: byte
  imr :: byte
  isr :: byte

definition cmd_write :: "byte \<Rightarrow> chip \<Rightarrow> chip" where
  "cmd_write d c =
     (if bit d 4 then c\<lparr>next_icw := 2, imr := 0, isr := 0\<rparr>
      else if d AND 0xE0 = 0x60 then c\<lparr>isr := isr c AND NOT (push_bit (unat (d AND 7)) 1)\<rparr>
      else if d AND 0xE0 = 0x20 then c\<lparr>isr := isr c AND (isr c - 1)\<rparr>
      else c)"

definition data_write :: "byte \<Rightarrow> chip \<Rightarrow> chip" where
  "data_write d c =
     (if next_icw c = 2 then c\<lparr>next_icw := 3, vector_base := d AND 0xF8\<rparr>
      else if next_icw c = 3 then c\<lparr>next_icw := 4, cascade := d\<rparr>
      else if next_icw c = 4 then c\<lparr>next_icw := 0, mode := d\<rparr>
      else c\<lparr>imr := d\<rparr>)"

definition chip_write :: "nat \<times> byte \<Rightarrow> chip \<times> chip \<Rightarrow> chip \<times> chip" where
  "chip_write w ms =
     (let (port, d) = w; (m, sl) = ms in
      if port = MASTER_8259_PORT then (cmd_write d m, sl)
      else if port = MASTER_8259_DATA then (data_write d m, sl)
      else if port = SLAVE_8259_PORT then (m, cmd_write d sl)
      else if port = SLAVE_8259_DATA then (m, data_write d sl)
      else (m, sl))"

text \<open>The chips after all bytes the kernel has written, from the power-on state \<open>ms\<close>.\<close>

definition chips :: "chip \<times> chip \<Rightarrow> 'a machine_scheme \<Rightarrow> chip \<times> chip" where
  "chips ms s = fold chip_write (ports s) ms"

text \<open>The software masks agree with the chips, which are in operation.\<close>

definition pic_ok :: "chip \<times> chip \<Rightarrow> 'a pic_st \<Rightarrow> bool" where
  "pic_ok ms ps \<longleftrightarrow> next_icw (fst (chips ms (snd ps))) = 0 \<and> next_icw (snd (chips ms (snd ps))) = 0
     \<and> imr (fst (chips ms (snd ps))) = master_mask (fst ps) \<and> imr (snd (chips ms (snd ps))) = slave_mask (fst ps)"

text \<open>Whether an interrupt request line reaches the processor.\<close>

definition irq_open :: "nat \<Rightarrow> 'a pic_st \<Rightarrow> bool" where
  "irq_open irq ps = (if irq < 8 then \<not> bit (master_mask (fst ps)) irq
                      else \<not> bit (slave_mask (fst ps)) (irq - 8) \<and> \<not> bit (master_mask (fst ps)) 2)"

subsection \<open>Lemmas\<close>

lemmas pic_ports = MASTER_8259_PORT_def MASTER_8259_DATA_def SLAVE_8259_PORT_def SLAVE_8259_DATA_def

lemma chips_outb: "chips ms (outb d p s) = chip_write (p, d) (chips ms s)"
  by (simp add: chips_def)

lemma enable_bits_eq: "enable_bits n = NOT (push_bit n 1)"
proof -
  have "enable_bits n = - (2 ^ n) - 1"
  proof (induction n)
    case 0
    have "(0xFE :: byte) = - 1 - 1" by code_simp
    then show ?case by (simp add: enable_bits_def)
  next
    case (Suc n)
    have "enable_bits (Suc n) = 2 * enable_bits n + 1"
      by (simp add: enable_bits_def push_bit_eq_mult)
    then show ?case by (simp add: Suc)
  qed
  then show ?thesis by (simp add: not_eq_complement push_bit_eq_mult)
qed

lemma disable_bits_eq: "disable_bits n = push_bit n 1"
  by (induction n) (simp_all add: disable_bits_def)

lemma bit_clear: "n < 8 \<Longrightarrow> bit (w AND NOT (push_bit n 1) :: byte) m \<longleftrightarrow> bit w m \<and> m \<noteq> n"
  by (auto simp: bit_simps dest: bit_imp_le_length)

lemma bit_set: "n < 8 \<Longrightarrow> bit (w OR push_bit n 1 :: byte) m \<longleftrightarrow> bit w m \<or> m = n"
  by (auto simp: bit_simps dest: bit_imp_le_length)

text \<open>
  Initialisation leaves both controllers in operation, whatever state they were in: the master
  raises vectors from 0x20 on and has its slave on line 2, the slave raises vectors from 0x28 on,
  both are in 8086 mode, every interrupt is masked, and the software masks agree.
\<close>

theorem i8259_init_programs:
  "let ps' = i8259_init (p, s); (m, sl) = chips ms (snd ps') in
   next_icw m = 0 \<and> vector_base m = 0x20 \<and> cascade m = 0x04 \<and> mode m = 1 \<and> imr m = 0xFF
   \<and> next_icw sl = 0 \<and> vector_base sl = 0x28 \<and> cascade sl = 0x02 \<and> mode sl = 1 \<and> imr sl = 0xFF
   \<and> pic_ok ms ps'"
proof -
  have "bit (0x11 :: byte) 4" by simp
  then show ?thesis
    by (cases "chips ms s")
      (simp add: i8259_init_def chips_outb chip_write_def pic_ports cmd_write_def data_write_def pic_ok_def)
qed

lemma enable_irq_masks:
  assumes "irq < 16"
  shows "fst (enable_irq irq ps) = (if irq < 8 then (fst ps)\<lparr>master_mask := master_mask (fst ps) AND NOT (push_bit irq 1)\<rparr>
     else (fst ps)\<lparr>slave_mask := slave_mask (fst ps) AND NOT (push_bit (irq - 8) 1),
                   master_mask := master_mask (fst ps) AND NOT (push_bit 1 1)\<rparr>)"
  using assms by (cases ps) (simp add: enable_irq_def enable_bits_eq Let_def)

text \<open>
  Unmasking a line of the master opens exactly that line and leaves the rest, and the chips
  follow the software masks. Unmasking a line of the slave opens it at the slave, but on the master
  it clears bit 1 (the keyboard line) instead of bit 2 (the cascade line), so the request reaches
  the processor only if line 2 was opened separately.
\<close>

theorem enable_irq_effect:
  assumes "irq < 16" "pic_ok ms ps"
  shows "pic_ok ms (enable_irq irq ps)
    \<and> (\<forall>n < 8. bit (master_mask (fst (enable_irq irq ps))) n \<longleftrightarrow>
          bit (master_mask (fst ps)) n \<and> n \<noteq> (if irq < 8 then irq else 1))
    \<and> (\<forall>n < 8. bit (slave_mask (fst (enable_irq irq ps))) n \<longleftrightarrow> bit (slave_mask (fst ps)) n \<and> n + 8 \<noteq> irq)"
proof -
  have "pic_ok ms (enable_irq irq ps)"
    using assms by (cases ps; cases "chips ms (snd ps)")
      (simp add: pic_ok_def enable_irq_def Let_def chips_outb chip_write_def pic_ports data_write_def)
  moreover have "n = irq - 8 \<longleftrightarrow> n + 8 = irq" if "\<not> irq < 8" for n using that by auto
  ultimately show ?thesis
    using assms(1) bit_clear [of irq] bit_clear [of 1] bit_clear [of "irq - 8"]
    by (auto simp: enable_irq_masks)
qed

theorem enable_irq_effect_witness:
  "let ps = i8259_init (\<lparr>master_mask = 0, slave_mask = 0\<rparr>, \<lparr>mem = (\<lambda>_. 0), ports = [], IF = False\<rparr>);
       c = \<lparr>next_icw = 0, vector_base = 0, cascade = 0, mode = 0, imr = 0, isr = 0\<rparr>
   in pic_ok (c, c) (enable_irq 8 ps) \<and> \<not> bit (master_mask (fst (enable_irq 8 ps))) 1
      \<and> bit (master_mask (fst ps)) 2 = bit (master_mask (fst (enable_irq 8 ps))) 2"
proof -
  let ?s = "\<lparr>mem = (\<lambda>_. 0), ports = [], IF = False\<rparr> :: machine"
  let ?c = "\<lparr>next_icw = 0, vector_base = 0, cascade = 0, mode = 0, imr = 0, isr = 0\<rparr> :: chip"
  have "pic_ok (?c, ?c) (i8259_init (\<lparr>master_mask = 0, slave_mask = 0\<rparr>, ?s))"
    using i8259_init_programs [of "\<lparr>master_mask = 0, slave_mask = 0\<rparr>" ?s "(?c, ?c)"]
    by (simp add: Let_def split: prod.splits)
  from enable_irq_effect [OF _ this, of 8] show ?thesis by (auto simp: Let_def)
qed

text \<open>An interrupt line of the slave that was masked at the cascade line stays closed.\<close>

lemma enable_slave_irq_blocked:
  "8 \<le> irq \<Longrightarrow> irq < 16 \<Longrightarrow> bit (master_mask (fst ps)) 2 \<Longrightarrow> \<not> irq_open irq (enable_irq irq ps)"
  using bit_clear [of 1 "master_mask (fst ps)" 2] by (simp add: irq_open_def enable_irq_masks)

text \<open>The test for an empty slave mask in \<open>disable_irq\<close> never succeeds: a bit has just been set.\<close>

lemma disable_irq_masks:
  assumes "irq < 16"
  shows "fst (disable_irq irq ps) = (if irq < 8 then (fst ps)\<lparr>master_mask := master_mask (fst ps) OR push_bit irq 1\<rparr>
     else (fst ps)\<lparr>slave_mask := slave_mask (fst ps) OR push_bit (irq - 8) 1\<rparr>)"
proof -
  have "slave_mask (fst ps) OR push_bit (irq - 8) 1 \<noteq> 0" if "\<not> irq < 8"
  proof -
    have "irq - 8 < 8" using that assms by linarith
    from bit_set [OF this, of "slave_mask (fst ps)" "irq - 8"] show ?thesis by (metis bit_0_eq bot_apply bot_bool_def)
  qed
  then show ?thesis using assms by (cases ps) (simp add: disable_irq_def disable_bits_eq Let_def)
qed

text \<open>
  Masking a line closes exactly that line, at the chip it belongs to, and the chips follow the
  software masks; an IRQ number above 15 is ignored.
\<close>

theorem disable_irq_effect:
  assumes "pic_ok ms ps"
  shows "pic_ok ms (disable_irq irq ps) \<and> (15 < irq \<longrightarrow> disable_irq irq ps = ps)
    \<and> (\<forall>n < 8. bit (master_mask (fst (disable_irq irq ps))) n \<longleftrightarrow> bit (master_mask (fst ps)) n \<or> n = irq)
    \<and> (\<forall>n < 8. bit (slave_mask (fst (disable_irq irq ps))) n \<longleftrightarrow> bit (slave_mask (fst ps)) n \<or> n + 8 = irq)"
proof (cases "irq < 16")
  case True
  have "pic_ok ms (disable_irq irq ps)"
    using assms by (cases ps; cases "chips ms (snd ps)")
      (simp add: pic_ok_def disable_irq_def Let_def chips_outb chip_write_def pic_ports data_write_def)
  moreover have "n = irq - 8 \<longleftrightarrow> n + 8 = irq" if "\<not> irq < 8" for n using that by auto
  ultimately show ?thesis
    using True bit_set [of irq] bit_set [of "irq - 8"] by (auto simp: disable_irq_masks)
next
  case False
  then have "disable_irq irq ps = ps" by (cases ps) (simp add: disable_irq_def)
  then show ?thesis using assms False by auto
qed

theorem disable_irq_effect_witness:
  "let ps = i8259_init (\<lparr>master_mask = 0, slave_mask = 0\<rparr>, \<lparr>mem = (\<lambda>_. 0), ports = [], IF = False\<rparr>);
       c = \<lparr>next_icw = 0, vector_base = 0, cascade = 0, mode = 0, imr = 0, isr = 0\<rparr>
   in pic_ok (c, c) (disable_irq 12 ps) \<and> bit (slave_mask (fst (disable_irq 12 ps))) 4"
proof -
  let ?s = "\<lparr>mem = (\<lambda>_. 0), ports = [], IF = False\<rparr> :: machine"
  let ?c = "\<lparr>next_icw = 0, vector_base = 0, cascade = 0, mode = 0, imr = 0, isr = 0\<rparr> :: chip"
  have "pic_ok (?c, ?c) (i8259_init (\<lparr>master_mask = 0, slave_mask = 0\<rparr>, ?s))"
    using i8259_init_programs [of "\<lparr>master_mask = 0, slave_mask = 0\<rparr>" ?s "(?c, ?c)"]
    by (simp add: Let_def split: prod.splits)
  from disable_irq_effect [OF this, of 12] show ?thesis by (auto simp: Let_def)
qed

lemma eoi_word:
  assumes "n < 8"
  shows "\<not> bit (word_of_nat n OR EOI) 4" "(word_of_nat n OR EOI) AND 0xE0 = 0x60"
    "unat ((word_of_nat n OR EOI) AND 7) = n"
proof -
  have "n \<in> {0, 1, 2, 3, 4, 5, 6, 7}" using assms by auto
  then show "\<not> bit (word_of_nat n OR EOI) 4" "(word_of_nat n OR EOI) AND 0xE0 = 0x60"
    "unat ((word_of_nat n OR EOI) AND 7) = n" by auto
qed

text \<open>
  The end-of-interrupt handshake retires exactly the interrupt: for a line of the master its
  in-service bit, for a line of the slave its bit at the slave and the cascade bit 2 at the master.
\<close>

theorem send_eoi_retires:
  assumes "irq < 16" "chips ms s = (m, sl)"
  shows "chips ms (send_eoi irq s) =
    (if irq < 8 then (m\<lparr>isr := isr m AND NOT (push_bit irq 1)\<rparr>, sl)
     else (m\<lparr>isr := isr m AND NOT (push_bit 2 1)\<rparr>, sl\<lparr>isr := isr sl AND NOT (push_bit (irq - 8) 1)\<rparr>))"
proof (cases "irq < 8")
  case True
  then show ?thesis
    using assms eoi_word [OF True] by (simp add: send_eoi_def chips_outb chip_write_def pic_ports cmd_write_def)
next
  case False
  define k where "k = irq - 8"
  have k: "k < 8" using assms(1) False by (simp add: k_def)
  have "\<not> bit (ICW3_SLAVE OR EOI) 4" "(ICW3_SLAVE OR EOI) AND 0xE0 = 0x60" "unat ((ICW3_SLAVE OR EOI) AND 7) = 2"
    using eoi_word [of 2] by simp_all
  then show ?thesis
    using False assms eoi_word [OF k] unfolding send_eoi_def k_def [symmetric]
    by (simp add: chips_outb chip_write_def pic_ports cmd_write_def)
qed

theorem send_eoi_retires_witness:
  "let c = \<lparr>next_icw = 0, vector_base = 0, cascade = 0, mode = 0, imr = 0, isr = 5\<rparr>
   in chips (c, c) (send_eoi 8 \<lparr>mem = (\<lambda>_. 0), ports = [], IF = False\<rparr>) = (c\<lparr>isr := 1\<rparr>, c\<lparr>isr := 4\<rparr>)"
  using send_eoi_retires [of 8 "(\<lparr>next_icw = 0, vector_base = 0, cascade = 0, mode = 0, imr = 0, isr = 5\<rparr>,
      \<lparr>next_icw = 0, vector_base = 0, cascade = 0, mode = 0, imr = 0, isr = 5\<rparr>)"
      "\<lparr>mem = (\<lambda>_. 0), ports = [], IF = False\<rparr> :: machine"]
  by (simp add: chips_def Let_def)

end
