(* ===== verification/Rtc.thy ===== *)
theory Rtc
  imports Line_Edit Pic
begin

text \<open>
  The real-time clock driver (\<^verbatim>\<open>student-distrib/rtc.c\<close>): one hardware clock shared by up to ten
  open files, each with a frequency of its own. The driver keeps the frequency, the ratio to the
  hardware frequency and the number of pending ticks of a file in bit fields of its \<open>inode\<close> and a
  countdown in its \<open>pos\<close>.

  A pointer to an open file is the process number and the descriptor. Values read from the data
  port are arguments. The loops that look for the exponent of a frequency only see frequencies of
  at most 1024, so the shift in them does not overflow.
\<close>

type_synonym fref = "nat \<times> nat"

record rtc_sys = proc_sys +
  rtc_files :: "fref option list"
  time_elasped :: "int list"
  sys_counter_step :: int
  sys_freq :: int
  sys_freq_pow :: nat

definition get_file :: "fref \<Rightarrow> 'a proc_sys_scheme \<Rightarrow> FILE" where
  "get_file r s = open_files (pcbs s (fst r)) ! snd r"

definition upd_file :: "fref \<Rightarrow> (FILE \<Rightarrow> FILE) \<Rightarrow> 'a proc_sys_scheme \<Rightarrow> 'a proc_sys_scheme" where
  "upd_file r f s =
     s\<lparr>pcbs := (pcbs s)(fst r := (pcbs s (fst r))\<lparr>open_files :=
        (open_files (pcbs s (fst r)))[snd r := f (get_file r s)]\<rparr>)\<rparr>"

subsection \<open>Bit fields of an RTC file\<close>

definition set_by_msk :: "u32w \<Rightarrow> u32w \<Rightarrow> u32w \<Rightarrow> u32w" where
  "set_by_msk dst msk src = (dst AND NOT msk) OR (msk AND src)"

definition set_rtc_freq_field :: "u32w \<Rightarrow> u32w \<Rightarrow> u32w" where
  "set_rtc_freq_field ino freq = set_by_msk ino 0x1F freq"

definition set_rtc_ratio_field :: "u32w \<Rightarrow> u32w \<Rightarrow> u32w" where
  "set_rtc_ratio_field ino ratio = set_by_msk ino (push_bit 5 0x1F) (push_bit 5 ratio)"

definition set_rtc_count_field :: "u32w \<Rightarrow> u32w \<Rightarrow> u32w" where
  "set_rtc_count_field ino count = set_by_msk ino (push_bit 10 0x3FF) (push_bit 10 count)"

definition get_rtc_freq :: "u32w \<Rightarrow> u32w" where
  "get_rtc_freq ino = ino AND 0x1F"

definition get_rtc_ratio :: "u32w \<Rightarrow> u32w" where
  "get_rtc_ratio ino = drop_bit 5 (ino AND push_bit 5 0x1F)"

definition get_rtc_count :: "u32w \<Rightarrow> u32w" where
  "get_rtc_count ino = drop_bit 10 (ino AND push_bit 10 0x3FF)"

subsection \<open>Operations\<close>

function freq_pow_loop :: "nat \<Rightarrow> nat \<Rightarrow> nat" where
  "freq_pow_loop freq p = (if 2 ^ p < freq then freq_pow_loop freq (p + 1) else p)"
  by pat_completeness auto
termination
  by (relation "measure (\<lambda>(freq, p). freq - 2 ^ p)") (auto intro!: diff_less_mono2)

declare freq_pow_loop.simps [simp del]

definition init_rtc :: "byte \<Rightarrow> byte \<Rightarrow> pic \<times> 'a rtc_sys_scheme \<Rightarrow> pic \<times> 'a rtc_sys_scheme" where
  "init_rtc prev_b prev_a ps =
     (let (p1, s1) = enable_irq 2 (enable_irq 8 (fst ps, cli (snd ps)));
          s2 = outb (prev_b OR 0x40) 0x71 (outb 0x8B 0x70 (outb 0x8B 0x70 s1));
          s3 = outb ((prev_a AND 0xF0) OR 3) 0x71 (outb 0x8A 0x70 (outb 0x8A 0x70 s2));
          s4 = s3\<lparr>sys_freq_pow := 1, sys_freq := 2 ^ 1, sys_counter_step := 8192 div 2\<rparr>
      in (p1, sti s4))"

definition rtc_info :: "nat \<Rightarrow> u32w \<Rightarrow> FILE \<Rightarrow> FILE" where
  "rtc_info sys_pow freq_pow f =
     (let i1 = set_rtc_freq_field 0 freq_pow;
          i2 = set_rtc_ratio_field i1 (word_of_nat sys_pow - freq_pow);
          i3 = set_rtc_count_field i2 0
      in f\<lparr>inode := i3, pos := s32 (2 ^ unat (get_rtc_ratio i3))\<rparr>)"

definition reset_rtc_info :: "fref \<Rightarrow> u32w \<Rightarrow> 'a rtc_sys_scheme \<Rightarrow> 'a rtc_sys_scheme" where
  "reset_rtc_info r freq_pow s = upd_file r (rtc_info (sys_freq_pow s) freq_pow) s"

definition reset_all :: "'a rtc_sys_scheme \<Rightarrow> 'a rtc_sys_scheme" where
  "reset_all s =
     fold (\<lambda>i s. case rtc_files s ! i of
             None \<Rightarrow> s
           | Some r \<Rightarrow> reset_rtc_info r (get_rtc_freq (inode (get_file r s))) s) [0..<MAX_PROC_NUM] s"

definition rtc_set_pi_freq :: "byte \<Rightarrow> nat \<Rightarrow> 'a rtc_sys_scheme \<Rightarrow> int \<times> 'a rtc_sys_scheme" where
  "rtc_set_pi_freq prev freq s =
     (if int freq = sys_freq s then (0, s)
      else
        let freq_pow = freq_pow_loop freq 1 in
        if freq \<noteq> 2 ^ freq_pow then (-1, s)
        else
          let rtc_rate_val = 16 - freq_pow;
              s1 = (cli s)\<lparr>sys_freq_pow := freq_pow, sys_freq := 2 ^ freq_pow,
                           sys_counter_step := 8192 div 2 ^ freq_pow\<rparr>;
              s2 = outb ((prev AND 0xF0) OR (word_of_nat rtc_rate_val AND 0xF)) 0x71
                     (outb 0x8A 0x70 (outb 0x8A 0x70 s1))
          in (0, reset_all (sti s2)))"

definition rtc_write :: "byte \<Rightarrow> addr \<Rightarrow> nat \<Rightarrow> fref \<Rightarrow> 'a rtc_sys_scheme \<Rightarrow> int \<times> 'a rtc_sys_scheme" where
  "rtc_write prev buf len r s =
     (if len < 4 \<or> buf = 0 then (-1, s)
      else
        let freq = load32 (mem s) buf in
        if 1024 < freq then (-1, s)
        else
          let freq_pow = freq_pow_loop freq 1 in
          if freq \<noteq> 2 ^ freq_pow then (-1, s)
          else if sys_freq s < int freq then
            let s1 = upd_file r (\<lambda>f. f\<lparr>inode := set_rtc_freq_field (inode f) (word_of_nat freq_pow)\<rparr>) s
            in (0, snd (rtc_set_pi_freq prev freq s1))
          else (0, reset_rtc_info r (word_of_nat freq_pow) s))"

definition rtc_tick :: "FILE \<Rightarrow> FILE" where
  "rtc_tick f =
     (let f1 = f\<lparr>pos := s32 (pos f - 1)\<rparr> in
      if pos f1 \<le> 0 then
        let count = uint (get_rtc_count (inode f1)) + 1;
            count' = (if 32 < count then 32 else count)
        in f1\<lparr>pos := s32 (2 ^ unat (get_rtc_ratio (inode f1))),
              inode := set_rtc_count_field (inode f1) (word_of_int count')\<rparr>
      else f1)"

definition rtc_isr_slot :: "nat \<Rightarrow> 'a rtc_sys_scheme \<Rightarrow> 'a rtc_sys_scheme" where
  "rtc_isr_slot i s =
     (let t = s32 (time_elasped s ! i + sys_counter_step s);
          s1 = (if 81920 \<le> t
                then raise_signal SIG_ALARM (cur s) (s\<lparr>time_elasped := (time_elasped s)[i := 0]\<rparr>)
                else s\<lparr>time_elasped := (time_elasped s)[i := t]\<rparr>)
      in case rtc_files s1 ! i of None \<Rightarrow> s1 | Some r \<Rightarrow> upd_file r rtc_tick s1)"

definition rtc_isr :: "'a rtc_sys_scheme \<Rightarrow> 'a rtc_sys_scheme" where
  "rtc_isr s = fold rtc_isr_slot [0..<MAX_PROC_NUM] (outb 0x0C 0x70 s)"

definition rtc_read :: "fref \<Rightarrow> ('a rtc_sys_scheme \<Rightarrow> 'a rtc_sys_scheme) list \<Rightarrow> 'a rtc_sys_scheme
    \<Rightarrow> (int \<times> 'a rtc_sys_scheme \<times> ('a rtc_sys_scheme \<Rightarrow> 'a rtc_sys_scheme) list) option" where
  "rtc_read r irqs s =
     (case hlt_until (\<lambda>s. get_rtc_count (inode (get_file r s)) \<noteq> 0) irqs (sti s) of
        None \<Rightarrow> None
      | Some (s1, rest) \<Rightarrow>
          let count = get_rtc_count (inode (get_file r s1));
              s2 = cli s1
          in Some (0, if 1 \<le> count
                      then upd_file r (\<lambda>f. f\<lparr>inode := set_rtc_count_field (inode f) (count - 1)\<rparr>) s2
                      else s2, rest))"

text \<open>\<open>None\<close>: the processor is halted for good, because ten files are open already.\<close>

definition rtc_open :: "fref \<Rightarrow> 'a rtc_sys_scheme \<Rightarrow> (int \<times> 'a rtc_sys_scheme) option" where
  "rtc_open r s =
     (let usr_freq = 2; freq_pow = freq_pow_loop usr_freq 1 in
      if usr_freq \<noteq> 2 ^ freq_pow then Some (-1, s)
      else
        let s1 = reset_rtc_info r (word_of_nat freq_pow) s;
            s2 = upd_file r (\<lambda>f. f\<lparr>file_ops := rtc_file_ops_table, ftype := TASK_FILE_RTC\<rparr>) s1
        in case List.find (\<lambda>i. rtc_files s2 ! i = None) [0..<MAX_PROC_NUM] of
             None \<Rightarrow> None
           | Some i \<Rightarrow> Some (0, s2\<lparr>rtc_files := (rtc_files s2)[i := Some r],
                                   time_elasped := (time_elasped s2)[i := 0]\<rparr>))"

definition rtc_fastest :: "(fref \<Rightarrow> nat) \<Rightarrow> fref option list \<Rightarrow> nat \<times> nat" where
  "rtc_fastest freq fs =
     fold (\<lambda>i m. case fs ! i of
             None \<Rightarrow> m
           | Some q \<Rightarrow> if snd m < freq q then (i, freq q) else m)
       [0..<MAX_PROC_NUM] (to_u32 (-1), to_u32 (-1))"

definition rtc_close :: "byte \<Rightarrow> fref \<Rightarrow> 'a rtc_sys_scheme \<Rightarrow> int \<times> 'a rtc_sys_scheme" where
  "rtc_close prev r s =
     (let s1 = s\<lparr>rtc_files := fold (\<lambda>i fs. if fs ! i = Some r then fs[i := None] else fs) [0..<MAX_PROC_NUM] (rtc_files s)\<rparr>;
          (max_i, max_freq) = rtc_fastest (\<lambda>q. unat (get_rtc_freq (inode (get_file q s1)))) (rtc_files s1)
      in if max_i \<noteq> to_u32 (-1) then rtc_set_pi_freq prev max_freq s1 else (0, s1))"

subsection \<open>Specifications\<close>

text \<open>The frequency the hardware runs at for a value of rate register A.\<close>

definition hw_freq :: "byte \<Rightarrow> nat" where
  "hw_freq a = (let rate = unat (a AND 0xF) in if rate = 0 then 0 else 32768 div 2 ^ (rate - 1))"

text \<open>
  A file the driver serves: a user frequency of at most the hardware frequency, the ratio between
  them and a running countdown.
\<close>

definition rtc_file_ok :: "nat \<Rightarrow> FILE \<Rightarrow> bool" where
  "rtc_file_ok sys_pow f \<longleftrightarrow>
     (let fp = unat (get_rtc_freq (inode f)); ra = unat (get_rtc_ratio (inode f)) in
      1 \<le> fp \<and> fp \<le> sys_pow \<and> ra = sys_pow - fp \<and> 1 \<le> pos f \<and> pos f \<le> 2 ^ ra
      \<and> unat (get_rtc_count (inode f)) \<le> 32)"

definition fref_ok :: "fref \<Rightarrow> 'a proc_sys_scheme \<Rightarrow> bool" where
  "fref_ok r s \<longleftrightarrow> snd r < length (open_files (pcbs s (fst r)))"

definition once :: "'b option list \<Rightarrow> bool" where
  "once fs \<longleftrightarrow> (\<forall>i < length fs. \<forall>j < length fs. fs ! i = fs ! j \<longrightarrow> fs ! i \<noteq> None \<longrightarrow> i = j)"

definition rtc_ok :: "'a rtc_sys_scheme \<Rightarrow> bool" where
  "rtc_ok s \<longleftrightarrow> length (rtc_files s) = MAX_PROC_NUM \<and> length (time_elasped s) = MAX_PROC_NUM
     \<and> 1 \<le> sys_freq_pow s \<and> sys_freq_pow s \<le> 10 \<and> sys_freq s = 2 ^ sys_freq_pow s
     \<and> sys_counter_step s = 8192 div 2 ^ sys_freq_pow s \<and> once (rtc_files s)
     \<and> (\<forall>r. Some r \<in> set (rtc_files s) \<longrightarrow> fref_ok r s \<and> rtc_file_ok (sys_freq_pow s) (get_file r s))"

text \<open>A machine with one process whose first file is registered at 2 Hz, for examples.\<close>

definition demo_rtc :: rtc_sys where
  "demo_rtc = \<lparr>mem = (\<lambda>a. if a = 0x1000 then 64 else 0), ports = [], IF = False,
     terms = replicate TERM_NUM term_zero, cur_term_ind = 0, cur_term = 0,
     pcbs = (\<lambda>_. pcb_zero\<lparr>open_files := replicate 8 (rtc_info 1 1
       \<lparr>file_ops = rtc_file_ops_table, inode = 0, pos = 0, ftype = TASK_FILE_RTC, used = True\<rparr>)\<rparr>), cur = 0,
     rtc_files = Some (0, 2) # replicate 9 None, time_elasped = replicate 10 0,
     sys_counter_step = 4096, sys_freq = 2, sys_freq_pow = 1\<rparr>"

subsection \<open>Bit fields\<close>

lemma masks: "(0x1F :: u32w) = mask 5" "(0x3FF :: u32w) = mask 10"
  by (simp_all add: mask_eq_exp_minus_1)

lemmas rtc_fields = set_rtc_freq_field_def set_rtc_ratio_field_def set_rtc_count_field_def
  get_rtc_freq_def get_rtc_ratio_def get_rtc_count_def set_by_msk_def masks

lemma rtc_field_get_set [simp]:
  "get_rtc_freq (set_rtc_freq_field i v) = take_bit 5 v"
  "get_rtc_ratio (set_rtc_freq_field i v) = get_rtc_ratio i"
  "get_rtc_count (set_rtc_freq_field i v) = get_rtc_count i"
  "get_rtc_ratio (set_rtc_ratio_field i v) = take_bit 5 v"
  "get_rtc_freq (set_rtc_ratio_field i v) = get_rtc_freq i"
  "get_rtc_count (set_rtc_ratio_field i v) = get_rtc_count i"
  "get_rtc_count (set_rtc_count_field i v) = take_bit 10 v"
  "get_rtc_freq (set_rtc_count_field i v) = get_rtc_freq i"
  "get_rtc_ratio (set_rtc_count_field i v) = get_rtc_ratio i"
  unfolding rtc_fields by (rule bit_word_eqI; auto simp: bit_simps)+

lemma unat_u32: "unat (w :: u32w) < 4294967296"
  using unsigned_less [of w] by simp

lemma unat_pow [simp]: "p < 32 \<Longrightarrow> unat (take_bit 5 (word_of_nat p :: u32w)) = p"
  by (simp add: unsigned_take_bit_eq unsigned_of_nat take_bit_nat_eq_self)

lemma unat_count [simp]: "c < 1024 \<Longrightarrow> unat (take_bit 10 (word_of_nat c :: u32w)) = c"
  by (simp add: unsigned_take_bit_eq unsigned_of_nat take_bit_nat_eq_self)

lemma s32_pow: "k \<le> 10 \<Longrightarrow> s32 (2 ^ k) = 2 ^ k"
proof -
  assume "k \<le> 10"
  then have "(2::int) ^ k \<le> 2 ^ 10" by (intro power_increasing) auto
  then show ?thesis by (intro s32_id) (auto intro: order_trans [of _ 0])
qed

lemma rtc_info_fields:
  assumes "1 \<le> p" "p \<le> S" "S \<le> 10"
  shows "unat (get_rtc_freq (inode (rtc_info S (word_of_nat p) f))) = p"
    "unat (get_rtc_ratio (inode (rtc_info S (word_of_nat p) f))) = S - p"
    "get_rtc_count (inode (rtc_info S (word_of_nat p) f)) = 0"
    "pos (rtc_info S (word_of_nat p) f) = 2 ^ (S - p)"
proof -
  have "(word_of_nat S :: u32w) - word_of_nat p = word_of_nat (S - p)"
    using assms by simp
  then show "unat (get_rtc_freq (inode (rtc_info S (word_of_nat p) f))) = p"
    "unat (get_rtc_ratio (inode (rtc_info S (word_of_nat p) f))) = S - p"
    "get_rtc_count (inode (rtc_info S (word_of_nat p) f)) = 0"
    "pos (rtc_info S (word_of_nat p) f) = 2 ^ (S - p)"
    using assms by (simp_all add: rtc_info_def Let_def s32_pow del: of_nat_diff)
qed

lemma rtc_info_ok:
  "1 \<le> p \<Longrightarrow> p \<le> S \<Longrightarrow> S \<le> 10 \<Longrightarrow> rtc_file_ok S (rtc_info S (word_of_nat p) f)"
  by (simp add: rtc_file_ok_def Let_def rtc_info_fields)

lemma rtc_tick_fields:
  assumes "rtc_file_ok S f" "S \<le> 10"
  shows "get_rtc_freq (inode (rtc_tick f)) = get_rtc_freq (inode f)"
    "get_rtc_ratio (inode (rtc_tick f)) = get_rtc_ratio (inode f)"
    "unat (get_rtc_count (inode (rtc_tick f))) =
       (if pos f = 1 then min 32 (Suc (unat (get_rtc_count (inode f)))) else unat (get_rtc_count (inode f)))"
    "pos (rtc_tick f) = (if pos f = 1 then 2 ^ unat (get_rtc_ratio (inode f)) else pos f - 1)"
proof -
  let ?c = "unat (get_rtc_count (inode f))" and ?ra = "unat (get_rtc_ratio (inode f))"
  have p: "1 \<le> pos f" "pos f \<le> 2 ^ ?ra" "?ra \<le> 10" "?c \<le> 32"
    using assms by (auto simp: rtc_file_ok_def Let_def)
  have "(2::int) ^ ?ra \<le> 2 ^ 10" using p(3) by (intro power_increasing) auto
  then have q: "s32 (pos f - 1) = pos f - 1" using p by (intro s32_id) auto
  have c: "(word_of_int (if 32 < uint (get_rtc_count (inode f)) + 1 then 32 else uint (get_rtc_count (inode f)) + 1) :: u32w)
      = word_of_nat (min 32 (Suc ?c))"
  proof -
    have "(if 32 < int n + 1 then 32 else int n + 1) = int (min 32 (Suc n))" for n by auto
    note this [of ?c]
    moreover have u: "uint (get_rtc_count (inode f)) = int ?c" by simp
    ultimately show ?thesis unfolding u by (simp only: of_int_of_nat_eq)
  qed
  have "min 32 (Suc ?c) < 1024" by simp
  then have m: "unat (take_bit 10 (word_of_nat (min 32 (Suc ?c)) :: u32w)) = min 32 (Suc ?c)" by (rule unat_count)
  have e: "rtc_tick f = (if pos f = 1 then f\<lparr>pos := 2 ^ ?ra, inode := set_rtc_count_field (inode f) (word_of_nat (min 32 (Suc ?c)))\<rparr>
      else f\<lparr>pos := pos f - 1\<rparr>)"
  proof -
    have d: "pos f - 1 \<le> 0 \<longleftrightarrow> pos f = 1" using p(1) by auto
    have fp: "f\<lparr>pos := x, pos := y, inode := i\<rparr> = f\<lparr>pos := y, inode := i\<rparr>" for x y i by simp
    have sel: "pos (f\<lparr>pos := x\<rparr>) = x" "inode (f\<lparr>pos := x\<rparr>) = inode f" for x by simp_all
    show ?thesis by (simp only: rtc_tick_def Let_def sel q c d s32_pow [OF p(3)] fp)
  qed
  show "get_rtc_freq (inode (rtc_tick f)) = get_rtc_freq (inode f)" by (simp add: e)
  show "get_rtc_ratio (inode (rtc_tick f)) = get_rtc_ratio (inode f)" by (simp add: e)
  show "unat (get_rtc_count (inode (rtc_tick f))) =
       (if pos f = 1 then min 32 (Suc ?c) else ?c)" by (simp only: e) (simp add: m del: of_nat_Suc)
  show "pos (rtc_tick f) = (if pos f = 1 then 2 ^ ?ra else pos f - 1)" by (simp only: e) simp
qed

lemma rtc_tick_ok: "rtc_file_ok S f \<Longrightarrow> S \<le> 10 \<Longrightarrow> rtc_file_ok S (rtc_tick f)"
  using rtc_tick_fields [of S f] by (auto simp: rtc_file_ok_def Let_def)

lemma freq_pow_loop_pow: "p \<le> k \<Longrightarrow> freq_pow_loop (2 ^ k) p = k"
proof (induction "k - p" arbitrary: p)
  case 0
  then show ?case by (simp add: freq_pow_loop.simps)
next
  case (Suc n)
  then show ?case by (subst freq_pow_loop.simps) simp
qed

subsection \<open>Open files\<close>

lemma upd_file_frame [simp]:
  fixes s :: "'a rtc_sys_scheme"
  shows "rtc_files (upd_file r f s) = rtc_files s" "time_elasped (upd_file r f s) = time_elasped s"
    "sys_freq_pow (upd_file r f s) = sys_freq_pow s" "sys_freq (upd_file r f s) = sys_freq s"
    "sys_counter_step (upd_file r f s) = sys_counter_step s" "cur (upd_file r f s) = cur s"
    "mem (upd_file r f s) = mem s" "fref_ok q (upd_file r f s) = fref_ok q s"
  by (simp_all add: upd_file_def fref_ok_def)

lemma reset_rtc_info_frame [simp]:
  "rtc_files (reset_rtc_info r p s) = rtc_files s" "time_elasped (reset_rtc_info r p s) = time_elasped s"
  "sys_freq_pow (reset_rtc_info r p s) = sys_freq_pow s" "sys_freq (reset_rtc_info r p s) = sys_freq s"
  "sys_counter_step (reset_rtc_info r p s) = sys_counter_step s" "fref_ok q (reset_rtc_info r p s) = fref_ok q s"
  by (simp_all add: reset_rtc_info_def)

lemma get_file_upd:
  "fref_ok q s \<Longrightarrow> get_file q (upd_file r f s) = (if q = r then f (get_file q s) else get_file q s)"
  by (cases q; cases r) (auto simp: get_file_def upd_file_def fref_ok_def nth_list_update)

text \<open>
  One pass over the ten slots: each step does \<open>g\<close> to the file registered in its slot, if any, and
  leaves the registration and every other file alone. Since a file is registered at most once, a
  whole pass does \<open>g\<close> once to each registered file.
\<close>

locale slot_pass =
  fixes step :: "nat \<Rightarrow> 'a rtc_sys_scheme \<Rightarrow> 'a rtc_sys_scheme" and g :: "nat \<Rightarrow> FILE \<Rightarrow> FILE"
  assumes step_frame: "rtc_files (step i s) = rtc_files s" "sys_freq_pow (step i s) = sys_freq_pow s"
      "sys_freq (step i s) = sys_freq s" "sys_counter_step (step i s) = sys_counter_step s"
      "length (time_elasped (step i s)) = length (time_elasped s)" "fref_ok r (step i s) = fref_ok r s"
    and step_file: "fref_ok r s \<Longrightarrow> get_file r (step i s) =
      (if rtc_files s ! i = Some r then g (sys_freq_pow s) (get_file r s) else get_file r s)"
begin

lemma pass_frame:
  "rtc_files (fold step is s) = rtc_files s" "sys_freq_pow (fold step is s) = sys_freq_pow s"
  "sys_freq (fold step is s) = sys_freq s" "sys_counter_step (fold step is s) = sys_counter_step s"
  "length (time_elasped (fold step is s)) = length (time_elasped s)" "fref_ok r (fold step is s) = fref_ok r s"
  by (induction "is" arbitrary: s) (simp_all add: step_frame)

lemma pass_file:
  assumes "fref_ok r s" "once (rtc_files s)" "n \<le> length (rtc_files s)"
  shows "get_file r (fold step [0..<n] s) =
    (if \<exists>i < n. rtc_files s ! i = Some r then g (sys_freq_pow s) (get_file r s) else get_file r s)"
  using assms(3)
proof (induction n)
  case (Suc n)
  have n: "get_file r (step n (fold step [0..<n] s)) = (if rtc_files s ! n = Some r
      then g (sys_freq_pow s) (get_file r (fold step [0..<n] s)) else get_file r (fold step [0..<n] s))"
    using step_file [of r "fold step [0..<n] s" n] assms(1) by (simp add: pass_frame)
  have "\<not> (\<exists>i < n. rtc_files s ! i = Some r)" if "rtc_files s ! n = Some r"
  proof
    assume "\<exists>i < n. rtc_files s ! i = Some r"
    then obtain i where i: "i < n" "rtc_files s ! i = Some r" by blast
    have "i = n" using assms(2) i that Suc.prems by (simp add: once_def)
    then show False using i by simp
  qed
  moreover have "(\<exists>i < Suc n. rtc_files s ! i = Some r) = (rtc_files s ! n = Some r \<or> (\<exists>i < n. rtc_files s ! i = Some r))"
    by (auto simp: less_Suc_eq)
  ultimately show ?case using Suc n by (cases "rtc_files s ! n = Some r") auto
qed simp

end

lemma raise_signal_rtc [simp]:
  fixes s :: "'a rtc_sys_scheme"
  shows "rtc_files (raise_signal sg p s) = rtc_files s" "time_elasped (raise_signal sg p s) = time_elasped s"
    "sys_freq_pow (raise_signal sg p s) = sys_freq_pow s" "sys_freq (raise_signal sg p s) = sys_freq s"
    "sys_counter_step (raise_signal sg p s) = sys_counter_step s" "get_file r (raise_signal sg p s) = get_file r s"
    "fref_ok r (raise_signal sg p s) = fref_ok r s"
  by (simp_all add: raise_signal_def get_file_def fref_ok_def)

lemma get_file_frame [simp]:
  "get_file r (s\<lparr>time_elasped := x\<rparr>) = get_file r s" "fref_ok r (s\<lparr>time_elasped := x\<rparr>) = fref_ok r s"
  "get_file r (s\<lparr>rtc_files := y\<rparr>) = get_file r s" "fref_ok r (s\<lparr>rtc_files := y\<rparr>) = fref_ok r s"
  by (simp_all add: get_file_def fref_ok_def)

lemma get_file_machine [simp]:
  fixes s :: "'a rtc_sys_scheme"
  shows "get_file r (outb d p s) = get_file r s" "get_file r (cli s) = get_file r s" "get_file r (sti s) = get_file r s"
    "fref_ok r (outb d p s) = fref_ok r s" "fref_ok r (cli s) = fref_ok r s" "fref_ok r (sti s) = fref_ok r s"
    "rtc_files (outb d p s) = rtc_files s" "rtc_files (cli s) = rtc_files s" "rtc_files (sti s) = rtc_files s"
    "sys_freq_pow (outb d p s) = sys_freq_pow s" "sys_freq_pow (cli s) = sys_freq_pow s" "sys_freq_pow (sti s) = sys_freq_pow s"
    "sys_freq (outb d p s) = sys_freq s" "sys_freq (cli s) = sys_freq s" "sys_freq (sti s) = sys_freq s"
    "sys_counter_step (outb d p s) = sys_counter_step s" "sys_counter_step (cli s) = sys_counter_step s"
    "sys_counter_step (sti s) = sys_counter_step s" "time_elasped (outb d p s) = time_elasped s"
    "time_elasped (cli s) = time_elasped s" "time_elasped (sti s) = time_elasped s"
  by (simp_all add: get_file_def fref_ok_def outb_def cli_def sti_def)

interpretation isr: slot_pass rtc_isr_slot "\<lambda>_. rtc_tick"
  by unfold_locales (auto simp: rtc_isr_slot_def Let_def get_file_upd split: option.splits)

interpretation reset: slot_pass
  "\<lambda>i s. case rtc_files s ! i of None \<Rightarrow> s | Some r \<Rightarrow> reset_rtc_info r (get_rtc_freq (inode (get_file r s))) s"
  "\<lambda>S f. rtc_info S (get_rtc_freq (inode f)) f"
  by unfold_locales (auto simp: reset_rtc_info_def get_file_upd split: option.splits)

subsection \<open>The virtual clock\<close>

lemma in_slot: "length fs = n \<Longrightarrow> Some r \<in> set fs \<longleftrightarrow> (\<exists>i < n. fs ! i = Some r)"
  by (metis in_set_conv_nth)

lemma rtc_okD:
  assumes "rtc_ok s"
  shows "Some r \<in> set (rtc_files s) \<Longrightarrow> fref_ok r s"
    "Some r \<in> set (rtc_files s) \<Longrightarrow> rtc_file_ok (sys_freq_pow s) (get_file r s)"
    "length (rtc_files s) = 10" "once (rtc_files s)" "1 \<le> sys_freq_pow s" "sys_freq_pow s \<le> 10"
    "sys_freq s = 2 ^ sys_freq_pow s"
  using assms unfolding rtc_ok_def by blast+

lemma rtc_isr_frame [simp]:
  "rtc_files (rtc_isr s) = rtc_files s" "sys_freq_pow (rtc_isr s) = sys_freq_pow s"
  "sys_freq (rtc_isr s) = sys_freq s" "sys_counter_step (rtc_isr s) = sys_counter_step s"
  "length (time_elasped (rtc_isr s)) = length (time_elasped s)" "fref_ok r (rtc_isr s) = fref_ok r s"
  by (simp_all add: rtc_isr_def isr.pass_frame)

lemma rtc_isr_file:
  assumes "rtc_ok s" "fref_ok r s"
  shows "get_file r (rtc_isr s) = (if Some r \<in> set (rtc_files s) then rtc_tick (get_file r s) else get_file r s)"
  using isr.pass_file [of r "outb 0x0C 0x70 s" 10] assms(2) rtc_okD(3,4) [OF assms(1)] in_slot [of "rtc_files s" 10 r]
  by (auto simp: rtc_isr_def)

lemma rtc_isr_ok:
  assumes "rtc_ok s"
  shows "rtc_ok (rtc_isr s)"
proof -
  have "fref_ok r s \<and> rtc_file_ok (sys_freq_pow s) (get_file r (rtc_isr s))" if "Some r \<in> set (rtc_files s)" for r
    using rtc_isr_file [OF assms] rtc_okD [OF assms] rtc_tick_ok that by simp
  then show ?thesis using assms unfolding rtc_ok_def by simp
qed

lemma rtc_isr_iterate:
  assumes "rtc_ok s" "Some r \<in> set (rtc_files s)"
  shows "rtc_ok ((rtc_isr ^^ n) s) \<and> rtc_files ((rtc_isr ^^ n) s) = rtc_files s
     \<and> sys_freq_pow ((rtc_isr ^^ n) s) = sys_freq_pow s
     \<and> get_file r ((rtc_isr ^^ n) s) = (rtc_tick ^^ n) (get_file r s)"
proof (induction n)
  case (Suc n)
  let ?s = "(rtc_isr ^^ n) s"
  have "fref_ok r ?s" using Suc assms(2) rtc_okD(1) [of ?s r] by simp
  then show ?case using Suc rtc_isr_ok [of ?s] rtc_isr_file [of ?s r] assms(2) by simp
qed (simp add: assms)

lemma rtc_tick_iterate:
  assumes "rtc_file_ok S f" "S \<le> 10" "pos f = 2 ^ unat (get_rtc_ratio (inode f))" "get_rtc_count (inode f) = 0"
  defines "R \<equiv> 2 ^ unat (get_rtc_ratio (inode f))"
  shows "rtc_file_ok S ((rtc_tick ^^ n) f) \<and> get_rtc_ratio (inode ((rtc_tick ^^ n) f)) = get_rtc_ratio (inode f)
     \<and> unat (get_rtc_count (inode ((rtc_tick ^^ n) f))) = min 32 (n div R)
     \<and> pos ((rtc_tick ^^ n) f) = int (R - n mod R)"
proof (induction n)
  case 0
  show ?case using assms by simp
next
  case (Suc n)
  let ?f = "(rtc_tick ^^ n) f"
  have R: "0 < R" by (simp add: R_def)
  have m: "n mod R < R" using R by simp
  have wrap: "pos ?f = 1 \<longleftrightarrow> Suc (n mod R) = R" using Suc m by auto
  note t = rtc_tick_fields [of S ?f, OF _ assms(2)]
  show ?case
  proof (cases "Suc (n mod R) = R")
    case True
    then have "Suc n mod R = 0" "Suc n div R = Suc (n div R)" by (simp_all add: mod_Suc div_Suc)
    then show ?thesis using Suc t wrap True rtc_tick_ok [OF _ assms(2), of ?f] by (simp add: R_def)
  next
    case False
    then have d: "Suc n mod R = Suc (n mod R)" "Suc n div R = n div R" by (simp_all add: mod_Suc div_Suc)
    have "int (R - n mod R) - 1 = int (R - Suc (n mod R))" using m by simp
    then show ?thesis using Suc t wrap False d rtc_tick_ok [OF _ assms(2), of ?f] by simp
  qed
qed

text \<open>
  C35: Virtualisation is exact: a registered RTC file whose countdown has just been reset receives
  one pending tick per \<open>2\<^sup>r\<close> hardware interrupts, where \<open>r\<close> is its ratio field: after \<open>n\<close> interrupts
  \<open>min 32 (n div 2\<^sup>r)\<close> ticks are pending, however many other files are registered, and the driver's
  invariant holds throughout.
\<close>

theorem rtc_virtual_rate:
  assumes "rtc_ok s" "Some r \<in> set (rtc_files s)"
    "get_rtc_count (inode (get_file r s)) = 0"
    "pos (get_file r s) = 2 ^ unat (get_rtc_ratio (inode (get_file r s)))"
  shows "rtc_ok ((rtc_isr ^^ n) s)
    \<and> unat (get_rtc_count (inode (get_file r ((rtc_isr ^^ n) s))))
        = min 32 (n div 2 ^ unat (get_rtc_ratio (inode (get_file r s))))"
proof -
  have "rtc_file_ok (sys_freq_pow s) (get_file r s)" "sys_freq_pow s \<le> 10"
    using rtc_okD [OF assms(1)] assms(2) by auto
  from rtc_tick_iterate [OF this assms(4,3), of n] show ?thesis
    using rtc_isr_iterate [OF assms(1,2), of n] by simp
qed

subsection \<open>Setting a frequency\<close>

lemma freq_pow_loop_ge: "p \<le> freq_pow_loop f p"
  by (induction f p rule: freq_pow_loop.induct) (subst freq_pow_loop.simps, auto)

lemma freq_power_cases:
  assumes "f \<le> 1024"
  shows "f = 2 ^ freq_pow_loop f 1 \<longleftrightarrow> (\<exists>k. 1 \<le> k \<and> k \<le> 10 \<and> f = 2 ^ k)"
proof
  assume e: "f = 2 ^ freq_pow_loop f 1"
  then have "(2::nat) ^ freq_pow_loop f 1 \<le> 2 ^ 10" using assms by simp
  then have "freq_pow_loop f 1 \<le> 10" by (simp only: power_increasing_iff)
  then show "\<exists>k. 1 \<le> k \<and> k \<le> 10 \<and> f = 2 ^ k" using e freq_pow_loop_ge [of 1 f] by blast
qed (auto simp: freq_pow_loop_pow)

text \<open>After a pass that resets every registered file for the hardware frequency \<open>2\<^sup>k\<close>.\<close>

lemma reset_all_ok:
  assumes base: "length (rtc_files s) = 10" "length (time_elasped s) = 10" "once (rtc_files s)"
    "sys_freq s = 2 ^ sys_freq_pow s" "sys_counter_step s = 8192 div 2 ^ sys_freq_pow s"
    and k: "1 \<le> sys_freq_pow s" "sys_freq_pow s \<le> 10"
    and files: "\<And>r. Some r \<in> set (rtc_files s) \<Longrightarrow> fref_ok r s \<and> 1 \<le> unat (get_rtc_freq (inode (get_file r s)))
      \<and> unat (get_rtc_freq (inode (get_file r s))) \<le> sys_freq_pow s"
  shows "rtc_ok (reset_all s)" "rtc_files (reset_all s) = rtc_files s" "sys_freq_pow (reset_all s) = sys_freq_pow s"
    "Some r \<in> set (rtc_files s) \<Longrightarrow>
       get_file r (reset_all s) = rtc_info (sys_freq_pow s) (get_rtc_freq (inode (get_file r s))) (get_file r s)"
proof -
  have fl: "get_file r (reset_all s) = rtc_info (sys_freq_pow s) (get_rtc_freq (inode (get_file r s))) (get_file r s)"
    if "Some r \<in> set (rtc_files s)" for r
    using reset.pass_file [of r s 10] files [OF that] base(1,3) in_slot [OF base(1), of r] that
    unfolding reset_all_def by simp
  then have "fref_ok r s \<and> rtc_file_ok (sys_freq_pow s) (get_file r (reset_all s))" if "Some r \<in> set (rtc_files s)" for r
    using rtc_info_ok [of "unat (get_rtc_freq (inode (get_file r s)))" "sys_freq_pow s" "get_file r s"] files [OF that] k that
    by simp
  then show "rtc_ok (reset_all s)"
    using base k unfolding rtc_ok_def reset_all_def by (simp add: reset.pass_frame)
  show "rtc_files (reset_all s) = rtc_files s" "sys_freq_pow (reset_all s) = sys_freq_pow s"
    by (simp_all add: reset_all_def reset.pass_frame)
  show "Some r \<in> set (rtc_files s) \<Longrightarrow>
       get_file r (reset_all s) = rtc_info (sys_freq_pow s) (get_rtc_freq (inode (get_file r s))) (get_file r s)"
    by (rule fl)
qed

lemma get_file_freq [simp]:
  fixes s :: "'a rtc_sys_scheme"
  shows "get_file r (s\<lparr>sys_freq_pow := a, sys_freq := b, sys_counter_step := c\<rparr>) = get_file r s"
    "fref_ok r (s\<lparr>sys_freq_pow := a, sys_freq := b, sys_counter_step := c\<rparr>) = fref_ok r s"
  by (simp_all add: get_file_def fref_ok_def)

lemma rtc_raise_ok:
  assumes s: "rtc_ok s" and r: "Some r \<in> set (rtc_files s)" and k: "sys_freq_pow s < k" "k \<le> 10"
  defines "s1 \<equiv> upd_file r (\<lambda>f. f\<lparr>inode := set_rtc_freq_field (inode f) (word_of_nat k)\<rparr>) s"
  shows "rtc_ok (snd (rtc_set_pi_freq prev (2 ^ k) s1))"
    "sys_freq_pow (snd (rtc_set_pi_freq prev (2 ^ k) s1)) = k"
    "\<exists>f. get_file r (snd (rtc_set_pi_freq prev (2 ^ k) s1)) = rtc_info k (word_of_nat k) f"
    "rtc_files (snd (rtc_set_pi_freq prev (2 ^ k) s1)) = rtc_files s"
proof -
  define s2 where "s2 = sti (outb ((prev AND 0xF0) OR (word_of_nat (16 - k) AND 0xF)) 0x71
     (outb 0x8A 0x70 (outb 0x8A 0x70 ((cli s1)\<lparr>sys_freq_pow := k, sys_freq := 2 ^ k, sys_counter_step := 8192 div 2 ^ k\<rparr>))))"
  have ne: "(2::int) ^ k \<noteq> 2 ^ sys_freq_pow s" using k by (simp add: power_inject_exp)
  have res: "rtc_set_pi_freq prev (2 ^ k) s1 = (0, reset_all s2)"
    using ne rtc_okD(7) [OF s] k by (simp add: rtc_set_pi_freq_def Let_def s1_def s2_def freq_pow_loop_pow)
  have fl: "get_file q s2 = (if q = r then (get_file q s)\<lparr>inode := set_rtc_freq_field (inode (get_file q s)) (word_of_nat k)\<rparr>
      else get_file q s)" if "fref_ok q s" for q
    using that by (simp add: s2_def s1_def get_file_upd)
  have pre: "fref_ok q s2 \<and> 1 \<le> unat (get_rtc_freq (inode (get_file q s2))) \<and> unat (get_rtc_freq (inode (get_file q s2))) \<le> sys_freq_pow s2"
    if "Some q \<in> set (rtc_files s2)" for q
  proof -
    have q: "fref_ok q s" "rtc_file_ok (sys_freq_pow s) (get_file q s)"
      using that rtc_okD(1,2) [OF s, of q] by (simp_all add: s2_def s1_def)
    then show ?thesis
      using fl [OF q(1)] k by (auto simp: s2_def s1_def rtc_file_ok_def Let_def)
  qed
  have base: "length (rtc_files s2) = 10" "length (time_elasped s2) = 10" "once (rtc_files s2)" "sys_freq s2 = 2 ^ sys_freq_pow s2"
    "sys_counter_step s2 = 8192 div 2 ^ sys_freq_pow s2" "1 \<le> sys_freq_pow s2" "sys_freq_pow s2 \<le> 10"
    "rtc_files s2 = rtc_files s" "sys_freq_pow s2 = k"
    using s k by (simp_all add: s2_def s1_def rtc_ok_def)
  note R = reset_all_ok [OF base(1-7) pre]
  show "rtc_ok (snd (rtc_set_pi_freq prev (2 ^ k) s1))" "sys_freq_pow (snd (rtc_set_pi_freq prev (2 ^ k) s1)) = k"
    "rtc_files (snd (rtc_set_pi_freq prev (2 ^ k) s1)) = rtc_files s"
    using R(1-3) base by (simp_all add: res)
  have "get_rtc_freq (inode (get_file r s2)) = word_of_nat k"
    using fl [of r] rtc_okD(1) [OF s r] k by (simp add: word_unat_eq_iff unsigned_of_nat take_bit_nat_eq_self)
  then show "\<exists>f. get_file r (snd (rtc_set_pi_freq prev (2 ^ k) s1)) = rtc_info k (word_of_nat k) f"
    using R(4) [of r] base r by (auto simp: res)
qed

lemma reset_one_ok:
  assumes s: "rtc_ok s" and r: "fref_ok r s" and k: "1 \<le> k" "k \<le> sys_freq_pow s"
  shows "rtc_ok (reset_rtc_info r (word_of_nat k) s)"
    "get_file r (reset_rtc_info r (word_of_nat k) s) = rtc_info (sys_freq_pow s) (word_of_nat k) (get_file r s)"
proof -
  have f: "get_file q (reset_rtc_info r (word_of_nat k) s)
      = (if q = r then rtc_info (sys_freq_pow s) (word_of_nat k) (get_file q s) else get_file q s)" if "fref_ok q s" for q
    using that by (simp add: reset_rtc_info_def get_file_upd)
  then show "get_file r (reset_rtc_info r (word_of_nat k) s) = rtc_info (sys_freq_pow s) (word_of_nat k) (get_file r s)"
    using r by simp
  have "fref_ok q s \<and> rtc_file_ok (sys_freq_pow s) (get_file q (reset_rtc_info r (word_of_nat k) s))"
    if "Some q \<in> set (rtc_files s)" for q
    using f [of q] rtc_okD [OF s] that k rtc_info_ok by simp
  then show "rtc_ok (reset_rtc_info r (word_of_nat k) s)"
    using s unfolding rtc_ok_def by (simp add: reset_rtc_info_def)
qed

text \<open>
  Setting a frequency: \<open>rtc_write\<close> succeeds exactly when the buffer is given, the length covers
  a word and the word in it is a power of two from 2 to 1024. On success the file has that
  frequency, an empty tick count and a freshly started countdown with the ratio of the hardware
  frequency to its own, the hardware runs at least as fast as every registered file, and the driver's
  invariant holds for all files; on failure nothing changes.
\<close>

theorem rtc_write_correct:
  assumes s: "rtc_ok s" and r: "Some r \<in> set (rtc_files s)"
  shows "if 4 \<le> len \<and> buf \<noteq> 0 \<and> (\<exists>k. 1 \<le> k \<and> k \<le> 10 \<and> load32 (mem s) buf = 2 ^ k)
    then \<exists>s' p. rtc_write prev buf len r s = (0, s') \<and> rtc_ok s' \<and> rtc_files s' = rtc_files s
       \<and> load32 (mem s) buf = 2 ^ p \<and> p \<le> sys_freq_pow s'
       \<and> unat (get_rtc_freq (inode (get_file r s'))) = p
       \<and> unat (get_rtc_ratio (inode (get_file r s'))) = sys_freq_pow s' - p
       \<and> get_rtc_count (inode (get_file r s')) = 0 \<and> pos (get_file r s') = 2 ^ (sys_freq_pow s' - p)
    else rtc_write prev buf len r s = (-1, s)"
proof (cases "4 \<le> len \<and> buf \<noteq> 0 \<and> (\<exists>k. 1 \<le> k \<and> k \<le> 10 \<and> load32 (mem s) buf = 2 ^ k)")
  case True
  then obtain k where k: "1 \<le> k" "k \<le> 10" "load32 (mem s) buf = 2 ^ k" by blast
  have "(2::nat) ^ k \<le> 2 ^ 10" using k(2) by (intro power_increasing) auto
  then have le: "\<not> 1024 < load32 (mem s) buf" using k(3) by simp
  have loop: "freq_pow_loop (2 ^ k) 1 = k" using k(1) by (rule freq_pow_loop_pow)
  show ?thesis
  proof (cases "sys_freq_pow s < k")
    case lt: True
    then have "(2::int) ^ sys_freq_pow s < 2 ^ k" by simp
    then have w: "rtc_write prev buf len r s = (0, snd (rtc_set_pi_freq prev (2 ^ k)
        (upd_file r (\<lambda>f. f\<lparr>inode := set_rtc_freq_field (inode f) (word_of_nat k)\<rparr>) s)))"
      using True le loop k rtc_okD(7) [OF s] by (simp add: rtc_write_def Let_def)
    show ?thesis
      using True rtc_raise_ok [OF s r lt k(2), of prev] rtc_info_fields [OF k(1) order_refl k(2)] k(3)
      unfolding w by auto
  next
    case False
    then have "\<not> (2::int) ^ sys_freq_pow s < 2 ^ k" by simp
    then have w: "rtc_write prev buf len r s = (0, reset_rtc_info r (word_of_nat k) s)"
      using True le loop k rtc_okD(7) [OF s] by (simp add: rtc_write_def Let_def)
    have "k \<le> sys_freq_pow s" using False by simp
    note R = reset_one_ok [OF s rtc_okD(1) [OF s r] k(1) this] rtc_info_fields [OF k(1) this rtc_okD(6) [OF s]]
    have fr: "rtc_files (reset_rtc_info r (word_of_nat k) s) = rtc_files s"
      "sys_freq_pow (reset_rtc_info r (word_of_nat k) s) = sys_freq_pow s" by (simp_all add: reset_rtc_info_def)
    show ?thesis using True R fr False k(3) unfolding w by auto
  qed
next
  case False
  have "load32 (mem s) buf \<noteq> 2 ^ freq_pow_loop (load32 (mem s) buf) 1" if "4 \<le> len" "buf \<noteq> 0" "load32 (mem s) buf \<le> 1024"
    using False that freq_power_cases [OF that(3)] by blast
  then have "rtc_write prev buf len r s = (-1, s)" by (auto simp: rtc_write_def Let_def not_le)
  then show ?thesis using False by simp
qed

subsection \<open>Example\<close>

lemma demo_rtc_ok: "rtc_ok demo_rtc" "Some (0, 2) \<in> set (rtc_files demo_rtc)"
proof -
  have f: "get_file (0, 2) demo_rtc = rtc_info 1 (word_of_nat 1)
      \<lparr>file_ops = rtc_file_ops_table, inode = 0, pos = 0, ftype = TASK_FILE_RTC, used = True\<rparr>"
    by (simp add: get_file_def demo_rtc_def)
  have "once (rtc_files demo_rtc)"
    by (auto simp: once_def demo_rtc_def nth_Cons split: nat.splits)
  moreover have "fref_ok r demo_rtc \<and> rtc_file_ok 1 (get_file r demo_rtc)" if "Some r \<in> set (rtc_files demo_rtc)" for r
  proof -
    have r: "r = (0, 2)" using that by (auto simp: demo_rtc_def)
    have "rtc_file_ok 1 (get_file (0, 2) demo_rtc)" unfolding f by (rule rtc_info_ok) simp_all
    then show ?thesis unfolding r by (simp add: fref_ok_def demo_rtc_def)
  qed
  moreover have "length (rtc_files demo_rtc) = 10 \<and> length (time_elasped demo_rtc) = 10"
    "sys_freq_pow demo_rtc = 1" "sys_freq demo_rtc = 2 \<and> sys_counter_step demo_rtc = 4096" by (simp_all add: demo_rtc_def)
  ultimately show "rtc_ok demo_rtc" unfolding rtc_ok_def by simp
qed (simp add: demo_rtc_def)

theorem rtc_write_correct_witness:
  "\<exists>s'. rtc_write 0 0x1000 4 (0, 2) demo_rtc = (0, s') \<and> rtc_ok s'
      \<and> unat (get_rtc_freq (inode (get_file (0, 2) s'))) = 6"
proof -
  have l: "load32 (mem demo_rtc) 0x1000 = 2 ^ 6" by (simp add: load32_def demo_rtc_def)
  then have c: "(4::nat) \<le> 4 \<and> (0x1000 :: nat) \<noteq> 0 \<and> (\<exists>k. 1 \<le> k \<and> k \<le> 10 \<and> load32 (mem demo_rtc) 0x1000 = 2 ^ k)"
    by (intro conjI exI [of _ 6]) simp_all
  note w = rtc_write_correct [OF demo_rtc_ok, where len = 4 and buf = "0x1000" and prev = 0, unfolded if_P [OF c]]
  then obtain s' p where r: "rtc_write 0 0x1000 4 (0, 2) demo_rtc = (0, s')" "rtc_ok s'"
    "load32 (mem demo_rtc) 0x1000 = 2 ^ p" "unat (get_rtc_freq (inode (get_file (0, 2) s'))) = p" by blast
  have e: "(2::nat) ^ 6 = 2 ^ p" by (rule trans [OF l [symmetric] r(3)])
  have i: "(2::nat) ^ 6 = 2 ^ p \<longleftrightarrow> 6 = p" by (rule power_inject_exp) simp
  show ?thesis
    by (rule exI [of _ s'], intro conjI, rule r(1), rule r(2), rule trans [OF r(4) iffD1 [OF i e, symmetric]])
qed

theorem rtc_virtual_rate_witness:
  "unat (get_rtc_count (inode (get_file (0, 2) ((rtc_isr ^^ 5) demo_rtc)))) = 5"
proof -
  have f: "get_file (0, 2) demo_rtc = rtc_info 1 (word_of_nat 1)
      \<lparr>file_ops = rtc_file_ops_table, inode = 0, pos = 0, ftype = TASK_FILE_RTC, used = True\<rparr>"
    by (simp add: get_file_def demo_rtc_def)
  note i = rtc_info_fields [of 1 1 "\<lparr>file_ops = rtc_file_ops_table, inode = 0, pos = 0, ftype = TASK_FILE_RTC, used = True\<rparr>"]
  show ?thesis
    using rtc_virtual_rate [OF demo_rtc_ok, of 5] i unfolding f by simp
qed

subsection \<open>Reading, opening and closing\<close>

lemma rtc_wait:
  assumes "rtc_ok s" "Some r \<in> set (rtc_files s)" "get_rtc_count (inode (get_file r s)) = 0"
    "pos (get_file r s) = int p"
  shows "\<exists>s'. hlt_until (\<lambda>s. get_rtc_count (inode (get_file r s)) \<noteq> 0) (replicate (p + m) rtc_isr) s = Some (s', replicate m rtc_isr)
    \<and> rtc_ok s' \<and> rtc_files s' = rtc_files s \<and> unat (get_rtc_count (inode (get_file r s'))) = 1"
  using assms
proof (induction p arbitrary: s)
  case 0
  then have "1 \<le> pos (get_file r s)" using rtc_okD(2) [OF 0(1,2)] by (simp add: rtc_file_ok_def Let_def)
  then show ?case using 0 by simp
next
  case (Suc p)
  let ?s = "rtc_isr s"
  have ok: "rtc_ok ?s" "Some r \<in> set (rtc_files ?s)" using rtc_isr_ok Suc.prems by auto
  have f: "get_file r ?s = rtc_tick (get_file r s)"
    using rtc_isr_file [OF Suc.prems(1) rtc_okD(1) [OF Suc.prems(1,2)]] Suc.prems(2) by simp
  note t = rtc_tick_fields [OF rtc_okD(2,6) [OF Suc.prems(1)], OF Suc.prems(2)]
  have step: "hlt_until (\<lambda>s. get_rtc_count (inode (get_file r s)) \<noteq> 0) (replicate (Suc p + m) rtc_isr) s
      = hlt_until (\<lambda>s. get_rtc_count (inode (get_file r s)) \<noteq> 0) (replicate (p + m) rtc_isr) ?s"
    using Suc.prems(3) by (simp add: hlt_until_wait)
  show ?case
  proof (cases "p = 0")
    case True
    have c: "unat (get_rtc_count (inode (get_file r ?s))) = 1"
      using t(3) Suc.prems(3,4) True by (simp add: f)
    then have "get_rtc_count (inode (get_file r ?s)) \<noteq> 0" by auto
    then show ?thesis using step c ok True by simp
  next
    case False
    have "get_rtc_count (inode (get_file r ?s)) = 0"
      using t(3) Suc.prems(3,4) False by (simp add: f unsigned_eq_0_iff)
    moreover have "pos (get_file r ?s) = int p" using t(4) Suc.prems(4) False by (simp add: f)
    ultimately show ?thesis using Suc.IH [OF ok] step by simp
  qed
qed

text \<open>
  A read of an RTC file returns, and exactly at the file's next tick: with no tick pending and
  a countdown of \<open>p\<close>, it sleeps through exactly \<open>p\<close> clock interrupts, consumes the tick, and leaves
  the later interrupts unserved.
\<close>

theorem rtc_read_next_tick:
  assumes "rtc_ok s" "Some r \<in> set (rtc_files s)" "get_rtc_count (inode (get_file r s)) = 0"
    "pos (get_file r s) = int p"
  shows "\<exists>s'. rtc_read r (replicate (p + m) rtc_isr) s = Some (0, s', replicate m rtc_isr)
    \<and> get_rtc_count (inode (get_file r s')) = 0"
proof -
  have ok: "rtc_ok (sti s)" using assms(1) by (simp add: rtc_ok_def)
  obtain s1 where h: "hlt_until (\<lambda>s. get_rtc_count (inode (get_file r s)) \<noteq> 0) (replicate (p + m) rtc_isr) (sti s) = Some (s1, replicate m rtc_isr)"
    and s1: "rtc_ok s1" "rtc_files s1 = rtc_files s" "unat (get_rtc_count (inode (get_file r s1))) = 1"
    using rtc_wait [OF ok, of r p m] assms(2-4) by auto
  have c: "get_rtc_count (inode (get_file r s1)) = 1"
    using s1(3) by (metis unat_1 unsigned_word_eqI)
  have "fref_ok r s1" using rtc_okD(1) [OF s1(1)] s1(2) assms(2) by simp
  then show ?thesis using h c by (simp add: rtc_read_def Let_def get_file_upd)
qed

theorem rtc_read_next_tick_witness:
  "\<exists>s'. rtc_read (0, 2) (replicate (1 + 3) rtc_isr) demo_rtc = Some (0, s', replicate 3 rtc_isr)
    \<and> get_rtc_count (inode (get_file (0, 2) s')) = 0"
proof -
  have f: "get_file (0, 2) demo_rtc = rtc_info 1 (word_of_nat 1)
      \<lparr>file_ops = rtc_file_ops_table, inode = 0, pos = 0, ftype = TASK_FILE_RTC, used = True\<rparr>"
    by (simp add: get_file_def demo_rtc_def)
  note i = rtc_info_fields [of 1 1 "\<lparr>file_ops = rtc_file_ops_table, inode = 0, pos = 0, ftype = TASK_FILE_RTC, used = True\<rparr>"]
  show ?thesis
    by (rule rtc_read_next_tick [OF demo_rtc_ok]) (use i in \<open>simp_all add: f\<close>)
qed

lemma once_insert:
  assumes "once fs" "Some r \<notin> set fs"
  shows "once (fs[i := Some r])"
  unfolding once_def length_list_update
proof (intro allI impI)
  fix a b
  assume ab: "a < length fs" "b < length fs" "fs[i := Some r] ! a = fs[i := Some r] ! b" "fs[i := Some r] ! a \<noteq> None"
  have "fs ! a \<noteq> Some r" "fs ! b \<noteq> Some r" using assms(2) ab by (metis nth_mem)+
  then show "a = b"
    using assms(1) ab by (cases "a = i"; cases "b = i") (simp_all add: once_def)
qed

text \<open>
  Opening an RTC file: with a free slot the file is registered at 2 Hz, with an empty tick
  count, and the invariant is kept; with all ten slots taken the call never returns.
\<close>

theorem rtc_open_correct:
  assumes s: "rtc_ok s" and r: "fref_ok r s" "Some r \<notin> set (rtc_files s)"
  shows "if None \<in> set (rtc_files s)
    then \<exists>s'. rtc_open r s = Some (0, s') \<and> rtc_ok s' \<and> Some r \<in> set (rtc_files s')
       \<and> unat (get_rtc_freq (inode (get_file r s'))) = 1 \<and> get_rtc_count (inode (get_file r s')) = 0
    else rtc_open r s = None"
proof -
  let ?s1 = "reset_rtc_info r (word_of_nat 1) s"
  let ?s2 = "upd_file r (\<lambda>f. f\<lparr>file_ops := rtc_file_ops_table, ftype := TASK_FILE_RTC\<rparr>) ?s1"
  have one: "freq_pow_loop 2 1 = 1" using freq_pow_loop_pow [of 1 1] by simp
  have S: "1 \<le> sys_freq_pow s" "sys_freq_pow s \<le> 10" "length (rtc_files s) = 10" using rtc_okD [OF s] by auto
  note R = reset_one_ok [OF s r(1) order_refl S(1)]
  have fr: "rtc_files ?s2 = rtc_files s" "sys_freq_pow ?s2 = sys_freq_pow s" "fref_ok q ?s2 = fref_ok q s" for q
    by (simp_all add: reset_rtc_info_def)
  have fl: "get_file q ?s2 = (if q = r then (rtc_info (sys_freq_pow s) (word_of_nat 1) (get_file q s))
      \<lparr>file_ops := rtc_file_ops_table, ftype := TASK_FILE_RTC\<rparr> else get_file q s)" if "fref_ok q s" for q
    using that r(1) by (simp add: reset_rtc_info_def get_file_upd)
  have new: "rtc_file_ok (sys_freq_pow s) (get_file r ?s2)"
    using fl [OF r(1)] rtc_info_ok [OF order_refl S(1,2), of "get_file r s"] by (simp add: rtc_file_ok_def)
  show ?thesis
  proof (cases "List.find (\<lambda>i. rtc_files s ! i = None) [0..<10]")
    case None
    then have "None \<notin> set (rtc_files s)" using S(3) by (auto simp: find_None_iff in_set_conv_nth)
    then show ?thesis using None by (simp add: rtc_open_def Let_def one [simplified] fr [simplified])
  next
    case (Some i)
    then have i: "i < 10" "rtc_files s ! i = None" by (auto simp: find_Some_iff)
    let ?s3 = "?s2\<lparr>rtc_files := (rtc_files s)[i := Some r], time_elasped := (time_elasped ?s2)[i := 0]\<rparr>"
    have res: "rtc_open r s = Some (0, ?s3)" using Some by (simp add: rtc_open_def Let_def one [simplified] fr [simplified])
    have g: "get_file q ?s3 = get_file q ?s2" "fref_ok q ?s3 = fref_ok q s" for q
      using fr(3) [of q] by (simp_all add: get_file_def fref_ok_def)
    have "once ((rtc_files s)[i := Some r])"
      using rtc_okD(4) [OF s] r(2) by (rule once_insert)
    moreover have "fref_ok q ?s3 \<and> rtc_file_ok (sys_freq_pow s) (get_file q ?s3)"
      if "Some q \<in> set ((rtc_files s)[i := Some r])" for q
    proof (cases "q = r")
      case False
      then have "Some q \<in> set (rtc_files s)" using that set_update_subset_insert [of "rtc_files s" i "Some r"] by auto
      then show ?thesis using rtc_okD(1,2) [OF s, of q] fl [of q] False by (simp add: g)
    qed (use r(1) new in \<open>simp add: g\<close>)
    ultimately have "rtc_ok ?s3"
      using s unfolding rtc_ok_def by (simp add: reset_rtc_info_def)
    moreover have "Some r \<in> set ((rtc_files s)[i := Some r])" using i S(3) by (simp add: set_update_memI)
    moreover have "unat (get_rtc_freq (inode (get_file r ?s3))) = 1" "get_rtc_count (inode (get_file r ?s3)) = 0"
      using fl [OF r(1)] rtc_info_fields(1,3) [OF order_refl S(1,2), of "get_file r s"] by (simp_all add: g)
    moreover have "None \<in> set (rtc_files s)" using i S(3) by (metis nth_mem)
    ultimately show ?thesis unfolding res by auto
  qed
qed

theorem rtc_open_correct_witness:
  "\<exists>s'. rtc_open (0, 3) demo_rtc = Some (0, s') \<and> rtc_ok s' \<and> Some (0, 3) \<in> set (rtc_files s')"
proof -
  have "None \<in> set (rtc_files demo_rtc)" "fref_ok (0, 3) demo_rtc" "Some (0, 3) \<notin> set (rtc_files demo_rtc)"
    by (simp_all add: demo_rtc_def fref_ok_def)
  from rtc_open_correct [OF demo_rtc_ok(1) this(2,3)] this(1) show ?thesis by auto
qed

lemma fold_remove:
  assumes "n \<le> length fs"
  shows "fold (\<lambda>i fs. if fs ! i = Some r then fs[i := None] else fs) [0..<n] fs
       = map (\<lambda>x. if x = Some r then None else x) (take n fs) @ drop n fs"
  using assms
proof (induction n)
  case (Suc n)
  let ?f = "\<lambda>x. if x = Some r then None else x"
  have "n < length fs" using Suc.prems by simp
  then have "drop n fs = fs ! n # drop (Suc n) fs" "take (Suc n) fs = take n fs @ [fs ! n]"
    by (simp_all add: Cons_nth_drop_Suc take_Suc_conv_app_nth)
  then show ?case using Suc by (simp add: nth_append list_update_append)
qed simp

lemma rtc_fastest_none:
  assumes "\<And>q. freq q < 4294967296"
  shows "rtc_fastest freq fs = (to_u32 (-1), to_u32 (-1))"
proof -
  have "\<not> to_u32 (-1) < freq q" for q using assms [of q] by (simp add: to_u32_def)
  then have "fold (\<lambda>i m. case fs ! i of None \<Rightarrow> m | Some q \<Rightarrow> if snd m < freq q then (i, freq q) else m) xs
      (a, to_u32 (-1)) = (a, to_u32 (-1))" for xs a
    by (induction xs) (simp_all split: option.splits)
  then show ?thesis by (simp add: rtc_fastest_def)
qed

text \<open>
  Closing an RTC file unregisters it and nothing else, keeps the invariant and returns 0. The
  search for the fastest remaining file starts from the largest 32-bit number, so it never finds
  one, and the hardware keeps its frequency whichever files remain.
\<close>

theorem rtc_close_correct:
  assumes "rtc_ok s"
  shows "rtc_close prev r s = (0, s\<lparr>rtc_files := map (\<lambda>x. if x = Some r then None else x) (rtc_files s)\<rparr>)
    \<and> rtc_ok (snd (rtc_close prev r s))"
proof -
  let ?fs = "map (\<lambda>x. if x = Some r then None else x) (rtc_files s)"
  have eq: "rtc_close prev r s = (0, s\<lparr>rtc_files := ?fs\<rparr>)"
    using rtc_okD(3) [OF assms] fold_remove [of 10 "rtc_files s" r]
    by (simp add: rtc_close_def Let_def rtc_fastest_none [OF unat_u32])
  have o: "once ?fs" using rtc_okD(4) [OF assms] unfolding once_def by (auto split: if_splits)
  have "Some q \<in> set (rtc_files s)" if "Some q \<in> set ?fs" for q using that by (auto split: if_splits)
  then have "fref_ok q s \<and> rtc_file_ok (sys_freq_pow s) (get_file q s)" if "Some q \<in> set ?fs" for q
    using rtc_okD(1,2) [OF assms] that by blast
  then have "rtc_ok (s\<lparr>rtc_files := ?fs\<rparr>)" using assms o unfolding rtc_ok_def by simp
  then show ?thesis using eq by simp
qed

theorem rtc_close_correct_witness:
  "rtc_ok (snd (rtc_close 0 (0, 2) demo_rtc)) \<and> rtc_files (snd (rtc_close 0 (0, 2) demo_rtc)) = replicate 10 None
   \<and> sys_freq (snd (rtc_close 0 (0, 2) demo_rtc)) = 2"
proof -
  have "map (\<lambda>x. if x = Some (0, 2) then None else x) (rtc_files demo_rtc) = replicate 10 None"
    using replicate_Suc [of 9 "None :: fref option"] by (simp add: demo_rtc_def)
  moreover have "sys_freq demo_rtc = 2" by (simp add: demo_rtc_def)
  ultimately show ?thesis using rtc_close_correct [OF demo_rtc_ok(1), of 0 "(0, 2)"] by auto
qed

text \<open>
  Initialisation programs rate 3, an interrupt frequency of 8192 Hz, and records a system
  frequency of 2 Hz, from which all ratios are computed; a later request for 2 Hz is then taken for
  no change and leaves the hardware at 8192 Hz.
\<close>

theorem init_rtc_frequency_mismatch:
  "let (p', s') = init_rtc prev_b prev_a (p, s) in
     last (ports s') = (0x71, (prev_a AND 0xF0) OR 3) \<and> hw_freq ((prev_a AND 0xF0) OR 3) = 8192 \<and> sys_freq s' = 2
     \<and> rtc_set_pi_freq prev 2 s' = (0, s')"
proof -
  have "((prev_a AND 0xF0) OR 3) AND 0xF = (3 :: byte)"
    by (simp add: bit.conj_disj_distrib2 and.assoc)
  then have "hw_freq ((prev_a AND 0xF0) OR 3) = 8192" by (simp add: hw_freq_def)
  then show ?thesis by (simp add: init_rtc_def Let_def rtc_set_pi_freq_def split_def)
qed

end
