(* ===== verification/Syscall.thy ===== *)
theory Syscall
  imports Paging Heap File_Sys Term Rtc
begin

text \<open>
  The system calls (\<^verbatim>\<open>student-distrib/syscall.c\<close>) on the whole state of the kernel: memory, terminals,
  process table and clock of the theories below, plus the file system's globals, the page tables,
  the TSS and the table of process numbers in use.

  \<open>mem\<close> is memory as the kernel sees it through the page tables. The user page shows the 4 MB frame
  of one process; \<open>frames\<close> holds the contents of the frames that are not mapped, so that switching
  the page (\<open>map_user_page\<close>, with the TLB flush that follows it in the code) exchanges contents and
  never copies between processes.

  A system call that gives the processor to other code does not return to its caller at once:
  \<open>flow\<close> tells where control goes. The contents of kernel stacks are not state, except for the
  local arrays of \<^verbatim>\<open>_syscall_execute\<close>, whose addresses the compiler chooses (\<open>exec_locals\<close>).
\<close>

record kernel = rtc_sys +
  fsg :: fs_globals
  ptabs :: paging
  frames :: "nat \<Rightarrow> nat \<Rightarrow> byte"
  tss_esp0 :: nat
  tss_ss0 :: nat
  pid_used :: "bool list"

datatype flow =
  Returns int          \<comment> \<open>to the caller in the same process\<close>
| Enters nat           \<comment> \<open>user mode of a new process at this address\<close>
| Resumes nat          \<comment> \<open>the parent's call of \<^verbatim>\<open>_syscall_execute\<close> returns this status\<close>

record exec_locals =
  fname_at :: addr
  buf_at :: addr
  f_init :: FILE
  loc_esp :: nat
  loc_ebp :: nat

abbreviation (input) TASK_IMG_START_ADDR :: nat where "TASK_IMG_START_ADDR \<equiv> 0x08048000"
abbreviation (input) KERNEL_DS :: nat where "KERNEL_DS \<equiv> 0x18"
abbreviation (input) ELF_ENTRY_OFFSET :: nat where "ELF_ENTRY_OFFSET \<equiv> 24"
abbreviation (input) MALLOC_HEAP_MAP_START :: nat where "MALLOC_HEAP_MAP_START \<equiv> TASK_VIRT_PAGE_BEG + PCB_SIZE"

subsection \<open>The current process and its page\<close>

definition get_cur_pcb :: "nat \<Rightarrow> nat" where
  "get_cur_pcb esp = esp - esp mod 0x2000"

definition user_frame :: "'a kernel_scheme \<Rightarrow> nat" where
  "user_frame k = (case page_directory (ptabs k) ! USER_PAGE_INDEX of page_PDE e \<Rightarrow> pp_page_addr e | table_PDE e \<Rightarrow> 0)"

definition map_user_page :: "nat \<Rightarrow> 'a kernel_scheme \<Rightarrow> 'a kernel_scheme" where
  "map_user_page p k =
     (let frs = (frames k)(user_frame k := (\<lambda>off. mem k (TASK_VIRT_PAGE_BEG + off)));
          k1 = k\<lparr>ptabs := set_user_page (TASK_PAGE_INDEX p) (ptabs k), frames := frs\<rparr>
      in k1\<lparr>mem := (\<lambda>a. if TASK_VIRT_PAGE_BEG \<le> a \<and> a < TASK_VIRT_PAGE_END
                       then frs (user_frame k1) (a - TASK_VIRT_PAGE_BEG) else mem k a)\<rparr>)"

definition upd_pcb :: "nat \<Rightarrow> (PCB \<Rightarrow> PCB) \<Rightarrow> 'a proc_sys_scheme \<Rightarrow> 'a proc_sys_scheme" where
  "upd_pcb p f k = k\<lparr>pcbs := (pcbs k)(p := f (pcbs k p))\<rparr>"

subsection \<open>File operations through the tables\<close>

type_synonym 'a irqs = "('a kernel_scheme \<Rightarrow> 'a kernel_scheme) list"

fun ops_read :: "file_ops_table \<Rightarrow> addr \<Rightarrow> nat \<Rightarrow> fref \<Rightarrow> 'a irqs \<Rightarrow> 'a kernel_scheme
    \<Rightarrow> (int \<times> 'a kernel_scheme \<times> 'a irqs) option" where
  "ops_read fs_file_ops_table buf n r irqs k =
     (case fs_file_read (mem k) (fsg k) buf n (get_file r k) of
        (v, m, f) \<Rightarrow> Some (v, upd_file r (\<lambda>_. f) (k\<lparr>mem := m\<rparr>), irqs))"
| "ops_read fs_dir_ops_table buf n r irqs k =
     (case fs_dir_read (mem k) (fsg k) buf n (get_file r k) of
        (v, m, f) \<Rightarrow> Some (v, upd_file r (\<lambda>_. f) (k\<lparr>mem := m\<rparr>), irqs))"
| "ops_read rtc_file_ops_table buf n r irqs k = rtc_read r irqs k"
| "ops_read stdin_file_ops_table buf n r irqs k = term_read buf n irqs k"
| "ops_read stdout_file_ops_table buf n r irqs k = Some (term_read_invalid, k, irqs)"

fun ops_write :: "file_ops_table \<Rightarrow> byte \<Rightarrow> addr \<Rightarrow> nat \<Rightarrow> fref \<Rightarrow> 'a kernel_scheme \<Rightarrow> int \<times> 'a kernel_scheme" where
  "ops_write fs_file_ops_table prev buf n r k = (fs_file_write, k)"
| "ops_write fs_dir_ops_table prev buf n r k = (fs_dir_write, k)"
| "ops_write rtc_file_ops_table prev buf n r k = rtc_write prev buf n r k"
| "ops_write stdin_file_ops_table prev buf n r k = (term_write_invalid, k)"
| "ops_write stdout_file_ops_table prev buf n r k = term_write buf n k"

fun ops_close :: "file_ops_table \<Rightarrow> byte \<Rightarrow> fref \<Rightarrow> 'a kernel_scheme \<Rightarrow> int \<times> 'a kernel_scheme" where
  "ops_close fs_file_ops_table prev r k = (fs_file_close, k)"
| "ops_close fs_dir_ops_table prev r k = (fs_dir_close, k)"
| "ops_close rtc_file_ops_table prev r k = rtc_close prev r k"
| "ops_close stdin_file_ops_table prev r k = (term_close, k)"
| "ops_close stdout_file_ops_table prev r k = (term_close, k)"

definition fd_used :: "int \<Rightarrow> 'a proc_sys_scheme \<Rightarrow> bool" where
  "fd_used fd k \<longleftrightarrow> used (get_file (cur k, nat fd) k)"

definition syscall_read :: "int \<Rightarrow> addr \<Rightarrow> nat \<Rightarrow> 'a irqs \<Rightarrow> 'a kernel_scheme \<Rightarrow> (int \<times> 'a kernel_scheme \<times> 'a irqs) option" where
  "syscall_read fd buf nbytes irqs k =
     (if buf = 0 then Some (-1, k, irqs)
      else if fd < 0 \<or> fd \<ge> int TASK_MAX_FILES then Some (-1, k, irqs)
      else if \<not> fd_used fd k then Some (-1, k, irqs)
      else ops_read (file_ops (get_file (cur k, nat fd) k)) buf nbytes (cur k, nat fd) irqs k)"

definition syscall_write :: "byte \<Rightarrow> int \<Rightarrow> addr \<Rightarrow> nat \<Rightarrow> 'a kernel_scheme \<Rightarrow> int \<times> 'a kernel_scheme" where
  "syscall_write prev fd buf nbytes k =
     (if buf = 0 then (-1, k)
      else if fd < 0 \<or> fd \<ge> int TASK_MAX_FILES then (-1, k)
      else if \<not> fd_used fd k then (-1, k)
      else ops_write (file_ops (get_file (cur k, nat fd) k)) prev buf nbytes (cur k, nat fd) k)"

text \<open>\<open>None\<close>: \<open>rtc_open\<close> halts the processor for good.\<close>

definition open_at :: "addr \<Rightarrow> dentry_t \<Rightarrow> nat \<Rightarrow> 'a kernel_scheme \<Rightarrow> (int \<times> 'a kernel_scheme) option" where
  "open_at fname dent i k =
     (let r = (cur k, i);
          res = (if filetype dent = FILE_TYPE_RTC then rtc_open r k
                 else case fs_open (mem k) (fsg k) fname (get_file r k) of (v, f) \<Rightarrow> Some (v, upd_file r (\<lambda>_. f) k))
      in case res of
           None \<Rightarrow> None
         | Some (v, k1) \<Rightarrow>
             if v \<noteq> 0 then Some (-1, k1) else Some (int i, upd_file r (\<lambda>f. f\<lparr>used := True\<rparr>) k1))"

definition syscall_open :: "addr \<Rightarrow> 'a kernel_scheme \<Rightarrow> (int \<times> 'a kernel_scheme) option" where
  "syscall_open fname k =
     (case read_dentry_by_name (mem k) (fsg k) fname of
        None \<Rightarrow> Some (-1, k)
      | Some dent \<Rightarrow>
          (case List.find (\<lambda>i. \<not> used (get_file (cur k, i) k)) [2..<TASK_MAX_FILES] of
             None \<Rightarrow> Some (-1, k)
           | Some i \<Rightarrow> open_at fname dent i k))"

definition syscall_close :: "byte \<Rightarrow> int \<Rightarrow> 'a kernel_scheme \<Rightarrow> int \<times> 'a kernel_scheme" where
  "syscall_close prev fd k =
     (if fd < 0 \<or> fd \<ge> int TASK_MAX_FILES then (-1, k)
      else if \<not> fd_used fd k then (-1, k)
      else case ops_close (file_ops (get_file (cur k, nat fd) k)) prev (cur k, nat fd) k of
             (v, k1) \<Rightarrow> if v \<noteq> 0 then (-1, k1) else (0, upd_file (cur k, nat fd) (\<lambda>f. f\<lparr>used := False\<rparr>) k1))"

subsection \<open>Starting and ending processes\<close>

definition find_pid :: "bool list \<Rightarrow> nat option" where
  "find_pid us = List.find (\<lambda>p. \<not> us ! p) [1..<MAX_PROC_NUM]"

text \<open>
  The command is split at the first byte that is not above the space as a signed character; the
  copied arguments are as long as an 8-bit counter says. Without a NUL the code scans forever
  (\<open>None\<close>).
\<close>

definition exec_parse :: "mem \<Rightarrow> addr \<Rightarrow> (byte list \<times> byte list option) option" where
  "exec_parse m command =
     (case strlen m command of
        None \<Rightarrow> None
      | Some n \<Rightarrow>
          let cs = load_list m command n;
              name = takeWhile (\<lambda>c. 32 < sint c) cs;
              rest = dropWhile (\<lambda>c. c = 32) (drop (length name) cs)
          in Some (name, if rest = [] then None else Some (take (u8 (length rest)) rest)))"

partial_function (option) load_loop :: "fs_globals \<Rightarrow> addr \<Rightarrow> mem \<Rightarrow> FILE \<Rightarrow> addr \<Rightarrow> mem option" where
  "load_loop g buf m f task_img_cur =
     (let (read_size, m', f') = fs_file_read m g buf BUF_SIZE f
      in if read_size > 0
         then load_loop g buf (memcpy m' task_img_cur buf (nat read_size)) f' (task_img_cur + nat read_size)
         else Some m')"

definition setup_files :: "FILE list \<Rightarrow> FILE list" where
  "setup_files fs =
     (let fs1 = fs[0 := (fs ! 0)\<lparr>used := True, ftype := TASK_FILE_TERM, file_ops := stdin_file_ops_table\<rparr>];
          fs2 = fs1[1 := (fs1 ! 1)\<lparr>used := True, ftype := TASK_FILE_TERM, file_ops := stdout_file_ops_table\<rparr>]
      in fold (\<lambda>i fs. fs[i := (fs ! i)\<lparr>used := False\<rparr>]) [2..<TASK_MAX_FILES] fs2)"

definition store_obj :: "mem \<Rightarrow> nat \<Rightarrow> malloc_obj_t \<Rightarrow> mem" where
  "store_obj m i b =
     (let v = of_bool (obj_used b) + 2 * obj_size b
      in m(MALLOC_HEAP_MAP_START + 2 * i := word_of_nat v, MALLOC_HEAP_MAP_START + 2 * i + 1 := word_of_nat (v div 256)))"

text \<open>Step 5 of \<^verbatim>\<open>_syscall_execute\<close>: the new PCB, the first heap object, terminal, TSS and tables.\<close>

definition setup_task :: "exec_locals \<Rightarrow> nat \<Rightarrow> byte list option \<Rightarrow> int \<Rightarrow> 'a kernel_scheme \<Rightarrow> 'a kernel_scheme" where
  "setup_task loc p ar ti k =
     (let c = cur k;
          k1 = upd_pcb p (\<lambda>P. P\<lparr>open_files := setup_files (open_files P), cmd_args := ar\<rparr>) k;
          k2 = upd_pcb c (\<lambda>P. P\<lparr>pcb_ebp := loc_ebp loc, pcb_esp := loc_esp loc\<rparr>) k1;
          t = (if ti \<noteq> -1 then nat ti else term_ind (pcbs k2 c));
          k3 = upd_pcb p (\<lambda>P. P\<lparr>parent := (if c \<noteq> 0 \<and> ti = -1 then Some c else None), pid := p, signals := 0,
                              malloc_obj_count := 1, term_ind := t\<rparr>) k2;
          k4 = k3\<lparr>mem := store_obj (mem k3) 0 \<lparr>obj_used = False, obj_size = MALLOC_HEAP_SIZE\<rparr>\<rparr>;
          k5 = upd_term t (\<lambda>T. T\<lparr>cur_pid := p\<rparr>) k4;
          k6 = k5\<lparr>tss_esp0 := TASK_KSTACK_BOT p, tss_ss0 := KERNEL_DS, pid_used := (pid_used k5)[p := True]\<rparr>
      in upd_pcb p (\<lambda>P. P\<lparr>signal_handlers := replicate SIG_SIZE 0\<rparr>) k6)"

text \<open>Steps 3 to 6, for a free process number and a parsed command.\<close>

definition exec_image :: "exec_locals \<Rightarrow> nat \<Rightarrow> byte list \<Rightarrow> byte list option \<Rightarrow> int \<Rightarrow> 'a kernel_scheme
    \<Rightarrow> (flow \<times> 'a kernel_scheme) option" where
  "exec_image loc p name ar ti k =
     (let m0 = store_list (mem k) (fname_at loc) (name @ [0]);
          buf = buf_at loc
      in case fs_open m0 (fsg k) (fname_at loc) (f_init loc) of (v, f) \<Rightarrow>
         if v = -1 then Some (Returns (-1), k\<lparr>mem := m0\<rparr>)
         else case fs_file_read m0 (fsg k) buf BUF_SIZE f of (read_size, m1, f1) \<Rightarrow>
           let k1 = k\<lparr>mem := m1\<rparr>; entry_addr = s32 (int (load32 m1 (buf + ELF_ENTRY_OFFSET)))
           in if m1 buf \<noteq> 0x7F \<or> m1 (buf + 1) \<noteq> 69 \<or> m1 (buf + 2) \<noteq> 76 \<or> m1 (buf + 3) \<noteq> 70 then Some (Returns (-1), k1)
              else if entry_addr < int TASK_IMG_START_ADDR then Some (Returns (-1), k1)
              else
                let k2 = map_user_page p k1;
                    m2 = memcpy (mem k2) TASK_IMG_START_ADDR buf (nat read_size)
                in case load_loop (fsg k) buf m2 f1 (TASK_IMG_START_ADDR + nat read_size) of
                     None \<Rightarrow> None
                   | Some m3 \<Rightarrow>
                       Some (Enters (nat entry_addr), (setup_task loc p ar ti (k2\<lparr>mem := m3\<rparr>))\<lparr>cur := p, IF := True\<rparr>))"

definition syscall_execute_at :: "exec_locals \<Rightarrow> addr \<Rightarrow> int \<Rightarrow> 'a kernel_scheme \<Rightarrow> (flow \<times> 'a kernel_scheme) option" where
  "syscall_execute_at loc command ti k =
     (case find_pid (pid_used k) of
        None \<Rightarrow> Some (Returns (-1), k)
      | Some p \<Rightarrow>
          (case exec_parse (mem k) command of
             None \<Rightarrow> None
           | Some (name, ar) \<Rightarrow> exec_image loc p name ar ti k))"

definition syscall_execute :: "exec_locals \<Rightarrow> addr \<Rightarrow> 'a kernel_scheme \<Rightarrow> (flow \<times> 'a kernel_scheme) option" where
  "syscall_execute loc command k = syscall_execute_at loc command (-1) k"

text \<open>The registers an interrupt saves, as \<^verbatim>\<open>signals.h\<close> lays them out on the stack.\<close>

record hw_context_t =
  regs :: "nat list"
  irq_num :: nat
  ctx_error :: nat
  ctx_addr :: nat
  ctx_cs :: nat
  eflags :: nat
  ctx_esp :: nat
  ctx_ds :: nat

definition close_all :: "byte \<Rightarrow> 'a kernel_scheme \<Rightarrow> 'a kernel_scheme" where
  "close_all prev k =
     fold (\<lambda>i k. if used (get_file (cur k, i) k)
                then snd (ops_close (file_ops (get_file (cur k, i) k)) prev (cur k, i) k) else k)
       [2..<TASK_MAX_FILES] k"

definition syscall_halt_with :: "byte \<Rightarrow> nat \<Rightarrow> hw_context_t \<Rightarrow> 'a kernel_scheme \<Rightarrow> flow \<times> hw_context_t \<times> 'a kernel_scheme" where
  "syscall_halt_with prev status context k =
     (let task = pcbs k (cur k) in
      case parent task of
        None \<Rightarrow> (Returns 0, context\<lparr>ctx_addr := load32 (mem k) (TASK_IMG_START_ADDR + ELF_ENTRY_OFFSET),
                                   ctx_esp := TASK_VIRT_PAGE_END\<rparr>, k)
      | Some q \<Rightarrow>
          let k1 = close_all prev k;
              ppid = pid (pcbs k1 q);
              k2 = (map_user_page ppid k1)\<lparr>tss_esp0 := TASK_KSTACK_BOT ppid\<rparr>;
              me = pcbs k2 (cur k);
              k3 = k2\<lparr>pid_used := (pid_used k2)[pid me := False]\<rparr>;
              k4 = upd_term (term_ind me) (\<lambda>T. T\<lparr>cur_pid := ppid\<rparr>) k3
          in (Resumes status, context, k4\<lparr>cur := q\<rparr>))"

definition syscall_halt :: "byte \<Rightarrow> byte \<Rightarrow> hw_context_t \<Rightarrow> 'a kernel_scheme \<Rightarrow> flow \<times> hw_context_t \<times> 'a kernel_scheme" where
  "syscall_halt prev status context k = syscall_halt_with prev (unat status) context k"

subsection \<open>The other calls\<close>

definition syscall_getargs :: "addr \<Rightarrow> nat \<Rightarrow> 'a kernel_scheme \<Rightarrow> int \<times> 'a kernel_scheme" where
  "syscall_getargs buf nbytes k =
     (if buf = 0 then (-1, k)
      else case cmd_args (pcbs k (cur k)) of
             None \<Rightarrow> (-1, k)
           | Some xs \<Rightarrow> if nbytes < length xs + 1 then (-1, k) else (0, k\<lparr>mem := store_list (mem k) buf (xs @ [0])\<rparr>))"

definition syscall_vidmap :: "addr \<Rightarrow> 'a kernel_scheme \<Rightarrow> int \<times> 'a kernel_scheme" where
  "syscall_vidmap screen_start k =
     (if screen_start < TASK_VIRT_PAGE_BEG \<or> screen_start \<ge> TASK_VIRT_PAGE_END then (-1, k)
      else let m = store32 (mem k) screen_start TASK_VIDMEM_START
           in (s32 (int (load32 m screen_start)), k\<lparr>mem := m\<rparr>))"

text \<open>The guard lets \<^verbatim>\<open>SIG_SIZE\<close> through; that write goes to the word after the PCB.\<close>

definition syscall_set_handler :: "int \<Rightarrow> nat \<Rightarrow> 'a kernel_scheme \<Rightarrow> int \<times> 'a kernel_scheme" where
  "syscall_set_handler signum handler k =
     (if signum < 0 \<or> signum > int SIG_SIZE then (-1, k)
      else if signum = int SIG_SIZE
           then (0, k\<lparr>mem := store32 (mem k) (TASK_KSTACK_TOP (cur k) + PCB_SIZE) handler\<rparr>)
      else (0, upd_pcb (cur k) (\<lambda>P. P\<lparr>signal_handlers := (signal_handlers P)[nat signum := handler]\<rparr>) k))"

definition load_obj :: "mem \<Rightarrow> nat \<Rightarrow> malloc_obj_t" where
  "load_obj m i =
     (let v = unat (m (MALLOC_HEAP_MAP_START + 2 * i)) + 256 * unat (m (MALLOC_HEAP_MAP_START + 2 * i + 1))
      in \<lparr>obj_used = odd v, obj_size = v div 2\<rparr>)"

definition proc_heap :: "'a kernel_scheme \<Rightarrow> malloc_heap" where
  "proc_heap k = \<lparr>malloc_objs = load_obj (mem k), obj_count = malloc_obj_count (pcbs k (cur k))\<rparr>"

definition put_heap :: "malloc_heap \<Rightarrow> 'a kernel_scheme \<Rightarrow> 'a kernel_scheme" where
  "put_heap h k =
     (upd_pcb (cur k) (\<lambda>P. P\<lparr>malloc_obj_count := obj_count h\<rparr>) k)\<lparr>mem :=
        (\<lambda>a. if MALLOC_HEAP_MAP_START \<le> a \<and> a < TASK_VIRT_PAGE_END
             then let i = (a - MALLOC_HEAP_MAP_START) div 2 in store_obj (mem k) i (malloc_objs h i) a else mem k a)\<rparr>"

definition sys_malloc :: "nat \<Rightarrow> 'a kernel_scheme \<Rightarrow> nat \<times> 'a kernel_scheme" where
  "sys_malloc sz k = (case syscall_malloc sz (proc_heap k) of (p, h) \<Rightarrow> (p, put_heap h k))"

definition sys_free :: "addr \<Rightarrow> 'a kernel_scheme \<Rightarrow> int \<times> 'a kernel_scheme" where
  "sys_free ptr k = (case syscall_free ptr (proc_heap k) of (v, h) \<Rightarrow> (v, put_heap h k))"

subsection \<open>Specifications\<close>

text \<open>Physical memory, frame by frame, whichever frame the user page shows.\<close>

definition phys :: "'a kernel_scheme \<Rightarrow> nat \<Rightarrow> nat \<Rightarrow> byte" where
  "phys k fr off = (if fr = user_frame k then mem k (TASK_VIRT_PAGE_BEG + off) else frames k fr off)"

definition tables_ok :: "paging \<Rightarrow> bool" where
  "tables_ok P \<longleftrightarrow> (\<exists>vt ut pa f. P = tables_for vt ut pa f)"

text \<open>
  \<open>executable m g fname bs\<close>: the name at \<open>fname\<close> is that of a regular, well-formed file with the
  contents \<open>bs\<close>, an ELF image with an entry point above the load address that fits the page.
\<close>

definition entry_of :: "byte list \<Rightarrow> nat" where
  "entry_of bs = load32 (list_mem bs) ELF_ENTRY_OFFSET"

definition executable :: "mem \<Rightarrow> fs_globals \<Rightarrow> addr \<Rightarrow> byte list \<Rightarrow> bool" where
  "executable m g fname bs \<longleftrightarrow>
     (\<exists>d ino. read_dentry_by_name m g fname = Some d \<and> filetype d = FILE_TYPE_REG \<and> inode_num d = int ino
        \<and> ino < 2 ^ 31 \<and> wf_file m g ino \<and> file_bytes m g ino = bs)
     \<and> 28 \<le> length bs \<and> length bs \<le> TASK_VIRT_PAGE_END - TASK_IMG_START_ADDR
     \<and> take 4 bs = [0x7F, 69, 76, 70] \<and> TASK_IMG_START_ADDR \<le> entry_of bs \<and> entry_of bs < 2 ^ 31"

text \<open>The local arrays of \<^verbatim>\<open>_syscall_execute\<close> are outside the user page and the file system image.\<close>

definition exec_room :: "exec_locals \<Rightarrow> nat \<Rightarrow> 'a kernel_scheme \<Rightarrow> bool" where
  "exec_room loc n k \<longleftrightarrow>
     fname_at loc + n \<le> buf_at loc \<and> buf_at loc + 256 \<le> TASK_VIRT_PAGE_BEG
     \<and> disjoint_ranges (fname_at loc) n (bblock_ptr (fsg k)) (image_size (mem k) (fsg k))
     \<and> disjoint_ranges (buf_at loc) 256 (bblock_ptr (fsg k)) (image_size (mem k) (fsg k))
     \<and> bblock_ptr (fsg k) + image_size (mem k) (fsg k) \<le> TASK_VIRT_PAGE_BEG"

text \<open>The terminal of the new process.\<close>

definition exec_term :: "int \<Rightarrow> 'a kernel_scheme \<Rightarrow> nat" where
  "exec_term ti k = (if ti \<noteq> -1 then nat ti else term_ind (pcbs k (cur k)))"

text \<open>
  A kernel with a file system that holds one program, \<^verbatim>\<open>s\<close>, of 28 bytes, and a command line for
  it at \<^verbatim>\<open>0x500\<close>, for examples.
\<close>

definition demo_prog :: "byte list" where
  "demo_prog = [0x7F, 69, 76, 70] @ replicate 20 0 @ [0x18, 0x80, 0x04, 0x08]"

definition demo_disk :: mem where
  "demo_disk = store_list ((\<lambda>_. 0)(0x1000 := 1, 0x1004 := 1, 0x1008 := 1, 0x1040 := 115, 0x1060 := 2,
     0x2000 := 28, 0x500 := 115)) 0x3000 demo_prog"

definition demo_like :: "mem \<Rightarrow> bool" where
  "demo_like m \<longleftrightarrow> (\<forall>a. 0x1000 \<le> a \<and> a < 0x4000 \<longrightarrow> m a = demo_disk a)"

definition demo_kernel :: kernel where
  "demo_kernel = rtc_sys.extend (demo_rtc\<lparr>mem := demo_disk,
       pcbs := (\<lambda>_. pcb_zero\<lparr>open_files := replicate 8 (demo_file\<lparr>used := False\<rparr>)\<rparr>), rtc_files := replicate 10 None\<rparr>)
     (kernel.fields demo_fs (init_page 0x410 0x411) (\<lambda>_ _. 0) 0x800000 0x18 (replicate 10 False))"

definition demo_locals :: exec_locals where
  "demo_locals = \<lparr>fname_at = 0x600, buf_at = 0x700, f_init = demo_file, loc_esp = 0x7FF000, loc_ebp = 0x7FF100\<rparr>"

subsection \<open>Loading an image\<close>

lemma fs_ok_same:
  assumes "fs_ok g buf cap (m, f)" "same_image g (image_size m g) m m'"
  shows "fs_ok g buf cap (m', f)" "fs_rest g (m', f) = fs_rest g (m, f)" "image_size m' g = image_size m g"
  using assms same_image_wf [of m g "file_ino f" m'] same_image_counts(3) [of m g "file_ino f" m']
  by (auto simp: fs_ok_def fs_rest_def)

lemma load_loop_spec:
  assumes "fs_ok g buf 256 (m, f)"
    "disjoint_ranges img (length (fs_rest g (m, f))) (bblock_ptr g) (image_size m g)"
    "disjoint_ranges img (length (fs_rest g (m, f))) buf 256"
  shows "\<exists>m'. load_loop g buf m f img = Some m'
    \<and> (\<forall>a. a < buf \<or> buf + 256 \<le> a \<longrightarrow> m' a = store_list m img (fs_rest g (m, f)) a)"
  using assms
proof (induction "length (fs_rest g (m, f))" arbitrary: m f img rule: less_induct)
  case less
  define rs where "rs = fs_rest g (m, f)"
  define bs where "bs = take 256 rs"
  define m1 where "m1 = store_list m buf bs"
  define f1 where "f1 = f\<lparr>pos := pos f + int (length bs)\<rparr>"
  have rd: "fs_file_read m g buf 256 f = (int (length bs), m1, f1)"
    using fs_file_read_spec [OF less(2), of 256] by (simp add: Let_def bs_def rs_def m1_def f1_def)
  have ok1: "fs_rest g (m1, f1) = drop 256 rs" "fs_ok g buf 256 (m1, f1)"
    using fs_ok_read [OF less(2), of 256] by (simp_all add: Let_def bs_def rs_def m1_def f1_def)
  show ?case
  proof (cases "bs = []")
    case True
    then have "rs = []" by (simp add: bs_def)
    then show ?thesis using rd True by (subst load_loop.simps) (simp add: m1_def flip: rs_def)
  next
    case False
    define m2 where "m2 = store_list m1 img bs"
    have n: "0 < length bs" "length bs \<le> 256" "length bs \<le> length rs" "length (drop 256 rs) < length rs"
      "length rs = length bs + length (drop 256 rs)"
      using False by (auto simp: bs_def)
    have img: "disjoint_ranges img (length rs) (bblock_ptr g) (image_size m g)" "disjoint_ranges img (length rs) buf 256"
      using less(3,4) by (simp_all add: rs_def)
    have "img \<le> buf \<or> buf + length bs \<le> img" using img(2) n(2) unfolding disjoint_ranges_def by linarith
    then have "memcpy m1 img buf (length bs) = m2"
      using load_store_list [of m buf bs] by (simp only: memcpy_blit blit_store_list m1_def m2_def)
    then have step: "load_loop g buf m f img = load_loop g buf m2 f1 (img + length bs)"
      using rd n(1) by (subst load_loop.simps) simp
    have "disjoint_ranges buf (length bs) (bblock_ptr g) (image_size m g)"
      using less(2) n(2) by (auto simp: fs_ok_def disjoint_ranges_def)
    then have im: "image_size m1 g = image_size m g"
      unfolding m1_def by (intro fs_ok_same(3) [OF less(2)] same_image_store)
    then have "same_image g (image_size m1 g) m1 m2"
      using img(1) n(3) by (auto simp: m2_def disjoint_ranges_def intro!: same_image_store)
    note ok2 = fs_ok_same [OF ok1(2) this]
    have "\<exists>m'. load_loop g buf m2 f1 (img + length bs) = Some m'
        \<and> (\<forall>a. a < buf \<or> buf + 256 \<le> a \<longrightarrow> m' a = store_list m2 (img + length bs) (fs_rest g (m2, f1)) a)"
    proof (rule less(1) [OF _ ok2(1)])
      have r: "fs_rest g (m2, f1) = drop 256 rs" using ok1(1) ok2(2) by simp
      show "length (fs_rest g (m2, f1)) < length (fs_rest g (m, f))" using n(4) by (simp only: r rs_def)
      show "disjoint_ranges (img + length bs) (length (fs_rest g (m2, f1))) (bblock_ptr g) (image_size m2 g)"
        using img(1) n(5) ok2(3) im unfolding r disjoint_ranges_def by linarith
      show "disjoint_ranges (img + length bs) (length (fs_rest g (m2, f1))) buf 256"
        using img(2) n(5) unfolding r disjoint_ranges_def by linarith
    qed
    moreover have "bs @ drop 256 rs = rs" by (simp add: bs_def)
    then have "store_list m2 (img + length bs) (fs_rest g (m2, f1)) = store_list m1 img rs"
      using ok1(1) ok2(2) store_list_append [of m1 img bs "drop 256 rs"] by (simp add: m2_def)
    moreover have "a < buf \<or> buf + 256 \<le> a \<Longrightarrow> store_list m1 img rs a = store_list m img rs a" for a
      using n(2) by (auto simp: store_list_def m1_def)
    ultimately show ?thesis unfolding step rs_def [symmetric] by auto
  qed
qed

subsection \<open>The user page\<close>

lemma map_user_page_simps [simp]:
  "cur (map_user_page p k) = cur k" "pcbs (map_user_page p k) = pcbs k" "terms (map_user_page p k) = terms k"
  "fsg (map_user_page p k) = fsg k" "pid_used (map_user_page p k) = pid_used k"
  "ptabs (map_user_page p k) = set_user_page (TASK_PAGE_INDEX p) (ptabs k)"
  "tss_esp0 (map_user_page p k) = tss_esp0 k" "cur_term_ind (map_user_page p k) = cur_term_ind k"
  "rtc_files (map_user_page p k) = rtc_files k"
  by (simp_all add: map_user_page_def Let_def)

lemma map_user_page_mem: "a < TASK_VIRT_PAGE_BEG \<or> TASK_VIRT_PAGE_END \<le> a \<Longrightarrow> mem (map_user_page p k) a = mem k a"
  by (auto simp: map_user_page_def Let_def)

text \<open>Switching the page moves no byte of physical memory.\<close>

lemma map_user_page_phys: "off < 0x400000 \<Longrightarrow> phys (map_user_page p k) fr off = phys k fr off"
  by (simp add: phys_def map_user_page_def Let_def user_frame_def)

lemma user_frame_tables: "ptabs k = tables_for vt ut pa f \<Longrightarrow> user_frame k = pa mod 1024"
  by (simp add: user_frame_def tables_for_def set_user_page_def set_user_vidmem_def init_page_directory page_entry_def)

lemma user_frame_map:
  assumes "tables_ok (ptabs k)" "p < MAX_PROC_NUM"
  shows "user_frame (map_user_page p k) = TASK_PAGE_INDEX p" "tables_ok (ptabs (map_user_page p k))"
proof -
  obtain vt ut pa f where P: "ptabs k = tables_for vt ut pa f" using assms(1) by (auto simp: tables_ok_def)
  then have Q: "ptabs (map_user_page p k) = tables_for vt ut (TASK_PAGE_INDEX p) f" by simp
  then show "tables_ok (ptabs (map_user_page p k))" unfolding tables_ok_def by blast
  show "user_frame (map_user_page p k) = TASK_PAGE_INDEX p"
    using user_frame_tables [OF Q] assms(2) by (simp add: TASK_PAGE_INDEX_def)
qed

subsection \<open>Starting a process\<close>

lemma upd_pcb_simps [simp]:
  "cur (upd_pcb p f k) = cur k" "pcbs (upd_pcb p f k) = (pcbs k)(p := f (pcbs k p))" "mem (upd_pcb p f k) = mem k"
  "terms (upd_pcb p f k) = terms k" "cur_term_ind (upd_pcb p f k) = cur_term_ind k"
  by (simp_all add: upd_pcb_def)

lemma upd_pcb_kernel [simp]:
  fixes k :: "'a kernel_scheme"
  shows "fsg (upd_pcb p f k) = fsg k" "ptabs (upd_pcb p f k) = ptabs k" "frames (upd_pcb p f k) = frames k"
    "pid_used (upd_pcb p f k) = pid_used k" "tss_esp0 (upd_pcb p f k) = tss_esp0 k"
    "rtc_files (upd_pcb p f k) = rtc_files k"
  by (simp_all add: upd_pcb_def)

lemma upd_term_kernel [simp]:
  fixes k :: "'a kernel_scheme"
  shows "fsg (upd_term t f k) = fsg k" "ptabs (upd_term t f k) = ptabs k" "frames (upd_term t f k) = frames k"
    "pid_used (upd_term t f k) = pid_used k" "tss_esp0 (upd_term t f k) = tss_esp0 k"
    "cur (upd_term t f k) = cur k" "pcbs (upd_term t f k) = pcbs k" "mem (upd_term t f k) = mem k"
    "rtc_files (upd_term t f k) = rtc_files k" "cur_term_ind (upd_term t f k) = cur_term_ind k"
  by (simp_all add: upd_term_def)

lemma setup_task_simps:
  assumes "p \<noteq> cur k"
  shows "cur (setup_task loc p ar ti k) = cur k" "frames (setup_task loc p ar ti k) = frames k"
    "ptabs (setup_task loc p ar ti k) = ptabs k" "fsg (setup_task loc p ar ti k) = fsg k"
    "mem (setup_task loc p ar ti k) = store_obj (mem k) 0 \<lparr>obj_used = False, obj_size = 8192\<rparr>"
    "tss_esp0 (setup_task loc p ar ti k) = TASK_KSTACK_BOT p"
    "pid_used (setup_task loc p ar ti k) = (pid_used k)[p := True]"
    "terms (setup_task loc p ar ti k) = (terms k)[exec_term ti k := (tm (exec_term ti k) k)\<lparr>cur_pid := p\<rparr>]"
    "pcbs (setup_task loc p ar ti k) = (pcbs k)
       (cur k := (pcbs k (cur k))\<lparr>pcb_ebp := loc_ebp loc, pcb_esp := loc_esp loc\<rparr>,
        p := (pcbs k p)\<lparr>open_files := setup_files (open_files (pcbs k p)), cmd_args := ar,
           parent := (if cur k \<noteq> 0 \<and> ti = -1 then Some (cur k) else None), pid := p, signals := 0,
           malloc_obj_count := 1, term_ind := exec_term ti k, signal_handlers := replicate SIG_SIZE 0\<rparr>)"
  using assms by (simp_all add: setup_task_def Let_def exec_term_def upd_term_def fun_eq_iff)

text \<open>The image part of \<^verbatim>\<open>_syscall_execute\<close> on an executable file.\<close>

lemma fs_open_executable:
  assumes "executable m g fname bs" "bblock_ptr g + image_size m g \<le> TASK_VIRT_PAGE_BEG" "disjoint_ranges buf 256 (bblock_ptr g) (image_size m g)"
  shows "\<exists>f. fs_open m g fname f0 = (0, f) \<and> fs_ok g buf 256 (m, f) \<and> fs_rest g (m, f) = bs"
proof -
  obtain d ino where d: "read_dentry_by_name m g fname = Some d" "filetype d = FILE_TYPE_REG" "inode_num d = int ino"
    "ino < 2 ^ 31" "wf_file m g ino" "file_bytes m g ino = bs" using assms(1) unfolding executable_def by blast
  let ?f = "f0\<lparr>pos := 0, inode := word_of_int (int ino), file_ops := fs_file_ops_table, ftype := TASK_FILE_REG\<rparr>"
  have "fs_open m g fname f0 = (0, ?f)" using d by (simp add: fs_open_def)
  moreover have "sint (word_of_int (int ino) :: u32w) = int ino"
    using d(4) by (simp add: signed_of_nat signed_take_bit_int_eq_self)
  then have "fs_ok g buf 256 (m, ?f)" "fs_rest g (m, ?f) = bs"
    using d(5,6) assms(3) by (simp_all add: fs_ok_def fs_rest_def file_ino_def)
  ultimately show ?thesis by blast
qed

lemma elf_header:
  assumes "executable m g fname bs" "load_list m' buf (length (take 256 bs)) = take 256 bs"
  shows "m' buf = 0x7F" "m' (buf + 1) = 69" "m' (buf + 2) = 76" "m' (buf + 3) = 70" "load32 m' (buf + 24) = entry_of bs"
proof -
  have l: "28 \<le> length bs" "take 4 bs = [0x7F, 69, 76, 70]" using assms(1) by (auto simp: executable_def)
  have at: "i < 28 \<Longrightarrow> m' (buf + i) = bs ! i" for i
    using arg_cong [OF assms(2), of "\<lambda>xs. xs ! i"] l(1) by (simp add: nth_append)
  have "bs ! i = take 4 bs ! i" if "i < 4" for i using that by simp
  from this [of 0] this [of 1] this [of 2] this [of 3] at [of 0] at [of 1] at [of 2] at [of 3]
  show "m' buf = 0x7F" "m' (buf + 1) = 69" "m' (buf + 2) = 76" "m' (buf + 3) = 70" using l(2) by simp_all
  show "load32 m' (buf + 24) = entry_of bs"
    using at [of 24] at [of 25] at [of 26] at [of 27] l(1) by (simp add: entry_of_def load32_def add.commute)
qed

lemma image_size_same: "same_image g (image_size m g) m m' \<Longrightarrow> image_size m' g = image_size m g"
  using same_image_load32 [of g "image_size m g" m m' 4] same_image_load32 [of g "image_size m g" m m' 8]
  by (simp add: image_size_def inode_count_of_def data_block_count_of_def)

lemma same_image_below:
  "bblock_ptr g + n \<le> b \<Longrightarrow> (\<And>a. a < b \<Longrightarrow> m' a = m a) \<Longrightarrow> same_image g n m m'"
  by (auto simp: same_image_def)

text \<open>Copying the first chunk and then the rest puts the whole file in place.\<close>

lemma load_image:
  assumes ok: "fs_ok g buf 256 (m, f)" "fs_rest g (m, f) = drop 256 bs" and head: "load_list m buf (length (take 256 bs)) = take 256 bs"
    and room: "buf + 256 \<le> img" "bblock_ptr g + image_size m g \<le> img"
  shows "\<exists>m'. load_loop g buf (memcpy m img buf (length (take 256 bs))) f (img + length (take 256 bs)) = Some m'
    \<and> load_list m' img (length bs) = bs \<and> (\<forall>a. (a < img \<or> img + length bs \<le> a) \<and> (a < buf \<or> buf + 256 \<le> a) \<longrightarrow> m' a = m a)"
proof -
  define b where "b = take 256 bs"
  define m2 where "m2 = store_list m img b"
  have bs: "b @ drop 256 bs = bs" and n: "length b \<le> 256" by (simp_all add: b_def)
  have cp: "memcpy m img buf (length b) = m2"
    using head room(1) n by (simp add: memcpy_blit blit_store_list m2_def b_def)
  have same: "same_image g (image_size m g) m m2"
    using room(2) by (intro same_image_below) (auto simp: m2_def store_list_other)
  note ok2 = fs_ok_same [OF ok(1) same]
  obtain m' where m': "load_loop g buf m2 f (img + length b) = Some m'"
    "\<And>a. a < buf \<or> buf + 256 \<le> a \<Longrightarrow> m' a = store_list m2 (img + length b) (fs_rest g (m2, f)) a"
    using load_loop_spec [OF ok2(1), of "img + length b"] ok2(3) room by (auto simp: disjoint_ranges_def)
  have "store_list m2 (img + length b) (fs_rest g (m2, f)) = store_list m img bs"
    using ok2(2) ok(2) bs store_list_append [of m img b "drop 256 bs"] by (simp add: m2_def)
  then have at: "a < buf \<or> buf + 256 \<le> a \<Longrightarrow> m' a = store_list m img bs a" for a using m'(2) [of a] by simp
  then have "load_list m' img (length bs) = load_list (store_list m img bs) img (length bs)" using room(1) by (intro load_list_cong) simp
  then show ?thesis using m'(1) cp at by (auto simp: b_def store_list_other)
qed

text \<open>What a successful \<^verbatim>\<open>_syscall_execute\<close> leaves behind, stated over the state \<open>k\<close> before the call.\<close>

lemma exec_image_loads:
  assumes ex: "executable (store_list (mem k) (fname_at loc) (name @ [0])) (fsg k) (fname_at loc) bs"
    and room: "exec_room loc (length name + 1) k"
  shows "\<exists>m1 m3. exec_image loc p name ar ti k
        = Some (Enters (entry_of bs), (setup_task loc p ar ti ((map_user_page p (k\<lparr>mem := m1\<rparr>))\<lparr>mem := m3\<rparr>))\<lparr>cur := p, IF := True\<rparr>)
    \<and> (\<forall>a \<ge> TASK_VIRT_PAGE_BEG. m1 a = mem k a)
    \<and> load_list m3 TASK_IMG_START_ADDR (length bs) = bs \<and> (\<forall>a \<ge> TASK_VIRT_PAGE_END. m3 a = mem k a)
    \<and> (\<forall>a < TASK_VIRT_PAGE_BEG. (a < fname_at loc \<or> fname_at loc + (length name + 1) \<le> a) \<and> (a < buf_at loc \<or> buf_at loc + 256 \<le> a) \<longrightarrow> m3 a = mem k a)"
proof -
  let ?g = "fsg k" and ?buf = "buf_at loc" and ?img = "0x08048000 :: nat" and ?b = "take 256 bs"
  define m0 where "m0 = store_list (mem k) (fname_at loc) (name @ [0])"
  have im0: "image_size m0 ?g = image_size (mem k) ?g"
    using room unfolding m0_def by (intro image_size_same same_image_store) (auto simp: exec_room_def)
  obtain f where f: "fs_open m0 ?g (fname_at loc) (f_init loc) = (0, f)" "fs_ok ?g ?buf 256 (m0, f)" "fs_rest ?g (m0, f) = bs"
    using fs_open_executable [OF ex [folded m0_def], of ?buf "f_init loc"] room by (auto simp: exec_room_def im0)
  define m1 where "m1 = store_list m0 ?buf ?b"
  define f1 where "f1 = f\<lparr>pos := pos f + int (length ?b)\<rparr>"
  have rd: "fs_file_read m0 ?g ?buf 256 f = (int (length ?b), m1, f1)"
    using fs_file_read_spec [OF f(2), of 256] f(3) by (simp add: Let_def m1_def f1_def)
  have ok1: "fs_rest ?g (m1, f1) = drop 256 bs" "fs_ok ?g ?buf 256 (m1, f1)"
    using fs_ok_read [OF f(2), of 256] f(3) by (simp_all add: Let_def m1_def f1_def)
  have im1: "image_size m1 ?g = image_size (mem k) ?g"
    using room unfolding im0 [symmetric] m1_def
    by (intro image_size_same same_image_store) (auto simp: exec_room_def im0 disjoint_ranges_def)
  have m1k: "\<forall>a \<ge> 0x8000000. m1 a = mem k a"
    using room by (auto simp: m1_def m0_def exec_room_def store_list_other)
  define k2 where "k2 = map_user_page p (k\<lparr>mem := m1\<rparr>)"
  have k2: "mem k2 a = m1 a" if "a < 0x8000000" for a
    using that map_user_page_mem [of a p "k\<lparr>mem := m1\<rparr>"] by (simp add: k2_def)
  have same: "same_image ?g (image_size m1 ?g) m1 (mem k2)"
    using room im1 k2 by (intro same_image_below [of _ _ "0x8000000"]) (auto simp: exec_room_def)
  note ok2 = fs_ok_same [OF ok1(2) same]
  have head: "load_list (mem k2) ?buf (length ?b) = ?b"
  proof -
    have "load_list (mem k2) ?buf (length ?b) = load_list m1 ?buf (length ?b)"
      using room by (intro load_list_cong k2) (auto simp: exec_room_def)
    then show ?thesis by (simp only: m1_def load_store_list)
  qed
  obtain m3 where m3: "load_loop ?g ?buf (memcpy (mem k2) ?img ?buf (length ?b)) f1 (?img + length ?b) = Some m3"
    "load_list m3 ?img (length bs) = bs"
    "\<forall>a. (a < ?img \<or> ?img + length bs \<le> a) \<and> (a < ?buf \<or> ?buf + 256 \<le> a) \<longrightarrow> m3 a = mem k2 a"
    using load_image [OF ok2(1) _ head, of ?img] ok2(2,3) ok1(1) im1 room by (auto simp: exec_room_def)
  have hd: "m1 ?buf = 0x7F" "m1 (?buf + 1) = 69" "m1 (?buf + 2) = 76" "m1 (?buf + 3) = 70" "load32 m1 (?buf + 24) = entry_of bs"
    by (rule elf_header [OF ex]; simp only: m1_def load_store_list)+
  have e: "int 0x08048000 \<le> s32 (int (entry_of bs))" "nat (s32 (int (entry_of bs))) = entry_of bs" "length bs \<le> 0x3B8000"
    using ex by (simp_all add: executable_def s32_id)
  have "exec_image loc p name ar ti k = Some (Enters (entry_of bs), (setup_task loc p ar ti (k2\<lparr>mem := m3\<rparr>))\<lparr>cur := p, IF := True\<rparr>)"
    using f(1) rd hd e m3(1) by (simp add: exec_image_def Let_def flip: m0_def k2_def)
  moreover have "\<forall>a \<ge> 0x8400000. m3 a = mem k a"
    using m3(3) e(3) m1k map_user_page_mem [of _ p "k\<lparr>mem := m1\<rparr>"] room by (auto simp: k2_def exec_room_def)
  moreover have "m3 a = mem k a"
    if "a < 0x8000000" "a < fname_at loc \<or> fname_at loc + (length name + 1) \<le> a" "a < ?buf \<or> ?buf + 256 \<le> a" for a
    using that m3(3) k2 [OF that(1)] by (auto simp: m1_def m0_def store_list_other)
  ultimately show ?thesis using m3(2) m1k k2_def by blast
qed

lemma find_pid_Some:
  assumes "find_pid us = Some p"
  shows "1 \<le> p" "p < MAX_PROC_NUM" "\<not> us ! p" "\<forall>q. 1 \<le> q \<and> q < p \<longrightarrow> us ! q"
proof -
  obtain i where i: "i < 9" "p = [1..<10] ! i" "\<not> us ! p" "\<forall>j < i. us ! ([1..<10] ! j)"
    using assms by (auto simp: find_pid_def find_Some_iff simp del: upt_rec_numeral)
  then have p: "p = 1 + i" by (simp del: upt_rec_numeral)
  then show "1 \<le> p" "p < MAX_PROC_NUM" "\<not> us ! p" using i by simp_all
  show "\<forall>q. 1 \<le> q \<and> q < p \<longrightarrow> us ! q"
  proof (intro allI impI)
    fix q assume q: "1 \<le> q \<and> q < p"
    then have "q - 1 < i" using p by auto
    with i(4) have "us ! ([1..<10] ! (q - 1))" by blast
    moreover have "[1..<10] ! (q - 1) = q" using q i(1) p by (simp del: upt_rec_numeral)
    ultimately show "us ! q" by simp
  qed
qed

lemma store_obj_other: "b < MALLOC_HEAP_MAP_START + 2 * i \<or> MALLOC_HEAP_MAP_START + 2 * i + 2 \<le> b \<Longrightarrow> store_obj m i ob b = m b"
  by (auto simp: store_obj_def Let_def)

text \<open>
  C1: Starting a program: with a free process number, the name of an executable file and room for
  the local arrays, \<^verbatim>\<open>_syscall_execute\<close> enters user mode at the entry point of the file, in a new
  process with the lowest free number. The whole file is in place at the load address of its page,
  the page tables, TSS and process table are set for it, its terminal, parent and arguments are the
  ones given, and no byte of the page of any other process has changed.
\<close>

theorem execute_loads_program:
  assumes "find_pid (pid_used k) = Some p" "exec_parse (mem k) command = Some (name, ar)"
    "executable (store_list (mem k) (fname_at loc) (name @ [0])) (fsg k) (fname_at loc) bs"
    "exec_room loc (length name + 1) k" "p \<noteq> cur k" "p < length (pid_used k)" "tables_ok (ptabs k)"
  shows "\<exists>k'. syscall_execute_at loc command ti k = Some (Enters (entry_of bs), k') \<and> cur k' = p
    \<and> load_list (mem k') TASK_IMG_START_ADDR (length bs) = bs
    \<and> user_frame k' = TASK_PAGE_INDEX p \<and> tss_esp0 k' = TASK_KSTACK_BOT p
    \<and> pid_used k' = (pid_used k)[p := True]
    \<and> pid (pcbs k' p) = p \<and> cmd_args (pcbs k' p) = ar \<and> term_ind (pcbs k' p) = exec_term ti k
    \<and> parent (pcbs k' p) = (if cur k \<noteq> 0 \<and> ti = -1 then Some (cur k) else None)
    \<and> (\<forall>fr off. fr \<noteq> TASK_PAGE_INDEX p \<and> off < 0x400000 \<longrightarrow> phys k' fr off = phys k fr off)"
proof -
  note p = find_pid_Some [OF assms(1)]
  obtain m1 m3 where ex: "exec_image loc p name ar ti k = Some (Enters (entry_of bs),
        (setup_task loc p ar ti ((map_user_page p (k\<lparr>mem := m1\<rparr>))\<lparr>mem := m3\<rparr>))\<lparr>cur := p, IF := True\<rparr>)"
    and m1: "\<forall>a \<ge> 0x8000000. m1 a = mem k a" and m3: "load_list m3 0x08048000 (length bs) = bs"
    using exec_image_loads [OF assms(3,4), of p ar ti] by blast
  define k2 where "k2 = map_user_page p (k\<lparr>mem := m1\<rparr>)"
  have same: "exec_term ti (k2\<lparr>mem := m3\<rparr>) = exec_term ti k" "p \<noteq> cur (k2\<lparr>mem := m3\<rparr>)" "cur k2 = cur k"
    "pid_used k2 = pid_used k"
    using assms(5) by (simp_all add: exec_term_def k2_def)
  note st = setup_task_simps [OF same(2), of loc ar ti]
  let ?k' = "(setup_task loc p ar ti (k2\<lparr>mem := m3\<rparr>))\<lparr>cur := p, IF := True\<rparr>"
  have fr: "user_frame ?k' = user_frame k2" by (simp add: user_frame_def st)
  have uf: "user_frame k2 = TASK_PAGE_INDEX p" using user_frame_map(1) [of "k\<lparr>mem := m1\<rparr>" p] assms(7) p(2) by (simp add: k2_def)
  have "phys ?k' q off = phys k q off" if "q \<noteq> TASK_PAGE_INDEX p" "off < 0x400000" for q off
  proof -
    have "phys ?k' q off = phys k2 q off" using that(1) uf by (simp add: phys_def fr st)
    also have "\<dots> = phys (k\<lparr>mem := m1\<rparr>) q off" unfolding k2_def using that(2) by (rule map_user_page_phys)
    also have "\<dots> = phys k q off" using m1 by (simp add: phys_def user_frame_def)
    finally show ?thesis .
  qed
  moreover have "load_list (mem ?k') 0x08048000 (length bs) = bs"
    using m3 load_list_cong [of "length bs" "mem ?k'" "0x08048000" m3] by (simp add: st store_obj_other)
  ultimately show ?thesis
    using ex assms(1,2) uf fr by (auto simp: syscall_execute_at_def st same k2_def [symmetric])
qed

subsubsection \<open>The example\<close>

lemma demo_kernel_simps [simp]:
  "mem demo_kernel = demo_disk" "fsg demo_kernel = demo_fs" "pid_used demo_kernel = replicate 10 False"
  "ptabs demo_kernel = init_page 0x410 0x411" "cur demo_kernel = 0"
  "pcbs demo_kernel = (\<lambda>_. pcb_zero\<lparr>open_files := replicate 8 (demo_file\<lparr>used := False\<rparr>)\<rparr>)"
  by (simp_all add: demo_kernel_def demo_rtc_def rtc_sys.defs kernel.defs)

lemma demo_disk_at:
  "demo_disk a = (if 0x3000 \<le> a \<and> a < 0x301C then demo_prog ! (a - 0x3000) else
     if a = 0x1000 \<or> a = 0x1004 \<or> a = 0x1008 then 1 else if a = 0x1040 \<or> a = 0x500 then 115
     else if a = 0x1060 then 2 else if a = 0x2000 then 28 else 0)"
  by (simp add: demo_disk_def store_list_def demo_prog_def)

lemma demo_disk_image:
  assumes "demo_like m"
  shows "load32 m 0x1000 = 1" "load32 m 0x1004 = 1" "load32 m 0x1008 = 1" "load32 m 0x2000 = 28" "load32 m 0x2004 = 0"
    "load32 m 0x1060 = 2" "load32 m 0x1064 = 0"
    "i < 28 \<Longrightarrow> m (0x3000 + i) = demo_prog ! i"
  using assms by (simp_all add: demo_like_def load32_def demo_disk_at)

lemma name_at_one:
  assumes "m a \<noteq> 0" "m (a + 1) = 0" "2 \<le> n"
  shows "name_at m a n = [m a]"
proof -
  obtain n' where "n = Suc (Suc n')" using assms(3) by (metis add_2_eq_Suc le_Suc_ex)
  then show ?thesis using assms by (simp add: name_at_Suc)
qed

lemma demo_disk_dentry:
  assumes "demo_like m" "m fname = 115" "m (fname + 1) = 0"
  shows "\<exists>d. read_dentry_by_name m demo_fs fname = Some d \<and> filetype d = 2 \<and> inode_num d = 0"
proof -
  have "name_at m fname 32 = [115]" using assms by (subst name_at_one) simp_all
  moreover have "name_at m 0x1040 32 = [115]"
    using assms(1) by (subst name_at_one) (simp_all add: demo_like_def demo_disk_at)
  ultimately show ?thesis
    by (simp add: read_dentry_by_name_def fn_length_name dentry_loop_spec demo_image demo_disk_image [OF assms(1)] s32_id
        read_dentry_by_index_def Let_def)
qed

lemma demo_wf_file:
  assumes "demo_like m"
  shows "wf_file m demo_fs 0" "file_bytes m demo_fs 0 = demo_prog" "image_size m demo_fs = 12288" "file_size m demo_fs 0 = 28"
proof -
  have c: "inode_count_of m demo_fs = 1" "data_block_count_of m demo_fs = 1" "file_size m demo_fs 0 = 28"
    "data_block m demo_fs 0 0 = 0" "image_size m demo_fs = 12288"
    by (simp_all add: inode_count_of_def data_block_count_of_def file_size_def data_block_def image_size_def demo_image
        demo_disk_image [OF assms])
  then show "image_size m demo_fs = 12288" "file_size m demo_fs 0 = 28" by simp_all
  have "data_block m demo_fs 0 j < 1" if "j * 4096 < 28" for j
    using that c(4) by (cases j) simp_all
  then show "wf_file m demo_fs 0" by (simp add: wf_file_def c demo_image)
  show "file_bytes m demo_fs 0 = demo_prog"
  proof (rule nth_equalityI)
    show "length (file_bytes m demo_fs 0) = length demo_prog" by (simp add: file_bytes_def c demo_prog_def)
    fix i assume "i < length (file_bytes m demo_fs 0)"
    then show "file_bytes m demo_fs 0 ! i = demo_prog ! i"
      by (simp add: file_bytes_def c byte_addr_def demo_image demo_disk_image(8) [OF assms])
  qed
qed

lemma demo_likes: "demo_like demo_disk" "demo_like (store_list demo_disk 0x600 xs)" if "length xs \<le> 16"
  using that by (auto simp: demo_like_def store_list_def)

lemma demo_executable: "executable (store_list demo_disk 0x600 [115, 0]) demo_fs 0x600 demo_prog"
proof -
  have l: "demo_like (store_list demo_disk 0x600 [115, 0])" by (rule demo_likes) simp
  have "entry_of demo_prog = 0x08048018"
    by (simp add: entry_of_def load32_def demo_prog_def list_mem_def nth_append)
  then show ?thesis using demo_disk_dentry [OF l, of "0x600"] demo_wf_file [OF l]
    by (auto simp: executable_def FILE_TYPE_REG_def demo_prog_def store_list_def)
qed

lemma demo_room: "exec_room demo_locals (Suc (Suc 0)) demo_kernel" "fname_at demo_locals = 0x600"
proof -
  have "image_size demo_disk demo_fs = 12288" by (rule demo_wf_file) (rule demo_likes(1) [of "[]"], simp)
  then show "exec_room demo_locals (Suc (Suc 0)) demo_kernel" "fname_at demo_locals = 0x600"
    by (simp_all add: exec_room_def demo_locals_def demo_image disjoint_ranges_def)
qed

lemma demo_parse: "exec_parse demo_disk 0x500 = Some ([115], None)"
proof -
  have "cstr demo_disk 0x500 [115]" by (simp add: cstr_def load_list_Suc demo_disk_at)
  then have "strlen demo_disk 0x500 = Some 1" by (simp add: strlen_cstr)
  then show ?thesis by (simp add: exec_parse_def load_list_Suc demo_disk_at)
qed

theorem execute_loads_program_witness:
  "\<exists>k'. syscall_execute_at demo_locals 0x500 1 demo_kernel = Some (Enters 0x08048018, k') \<and> cur k' = 1
    \<and> load_list (mem k') TASK_IMG_START_ADDR 28 = demo_prog"
proof -
  have e: "entry_of demo_prog = 0x08048018" "length demo_prog = 28"
    by (simp_all add: entry_of_def load32_def demo_prog_def list_mem_def nth_append)
  have "find_pid (pid_used demo_kernel) = Some 1" by (simp add: find_pid_def upt_rec [of _ 10])
  moreover have "tables_ok (ptabs demo_kernel)" using init_page_tables_for unfolding tables_ok_def by fastforce
  ultimately show ?thesis
    using execute_loads_program [of demo_kernel 1 "0x500" "[115]" None demo_locals demo_prog 1] demo_parse demo_executable demo_room e
    by auto
qed

text \<open>
  C29: The loop that copies the rest of a program to its page ends for every well-formed file, however
  long (its only exit is a read that returns 0), and the page then has the rest of the file; outside
  the page and the loop's buffer nothing has changed.
\<close>

theorem load_loop_terminates:
  assumes "fs_ok g buf 256 (m, f)"
    "disjoint_ranges img (length (fs_rest g (m, f))) (bblock_ptr g) (image_size m g)"
    "disjoint_ranges img (length (fs_rest g (m, f))) buf 256"
  shows "\<exists>m'. load_loop g buf m f img = Some m' \<and> load_list m' img (length (fs_rest g (m, f))) = fs_rest g (m, f)
    \<and> (\<forall>a. (a < buf \<or> buf + 256 \<le> a) \<and> (a < img \<or> img + length (fs_rest g (m, f)) \<le> a) \<longrightarrow> m' a = m a)"
proof -
  let ?bs = "fs_rest g (m, f)"
  obtain m' where m': "load_loop g buf m f img = Some m'" "\<And>a. a < buf \<or> buf + 256 \<le> a \<Longrightarrow> m' a = store_list m img ?bs a"
    using load_loop_spec [OF assms] by blast
  have "m' (img + i) = store_list m img ?bs (img + i)" if "i < length ?bs" for i
    using that assms(3) by (intro m'(2)) (auto simp: disjoint_ranges_def)
  then have "load_list m' img (length ?bs) = load_list (store_list m img ?bs) img (length ?bs)" by (simp add: load_list_cong)
  then have "load_list m' img (length ?bs) = ?bs" by (simp add: load_store_list)
  then show ?thesis using m' by (auto simp: store_list_def)
qed

theorem load_loop_terminates_witness:
  "\<exists>m'. load_loop demo_fs 0x700 demo_disk demo_file 0x8048000 = Some m' \<and> load_list m' 0x8048000 28 = demo_prog"
proof -
  have l: "demo_like demo_disk" by (rule demo_likes(1) [of "[]"]) simp
  have r: "fs_rest demo_fs (demo_disk, demo_file) = demo_prog" "length demo_prog = 28"
    using demo_wf_file [OF l] by (simp_all add: fs_rest_def demo_file_def demo_prog_def file_ino_def)
  have "fs_ok demo_fs 0x700 256 (demo_disk, demo_file)"
    using demo_wf_file [OF l] by (simp add: fs_ok_def demo_file_def file_ino_def disjoint_ranges_def demo_image)
  then show ?thesis
    using load_loop_terminates [of demo_fs "0x700" demo_disk demo_file "0x8048000"] r demo_wf_file [OF l]
    by (auto simp: disjoint_ranges_def demo_image)
qed

text \<open>Reading the head of a file, whatever the image looks like, writes at most the buffer.\<close>

lemma read_data_loop_frame:
  "a < buf \<or> buf + n \<le> a \<Longrightarrow> read_data_loop m g ino ic doff n i si cb buf a = m a"
  by (induction n arbitrary: m i si cb buf) (auto simp: Let_def)

lemma fs_head_frame:
  assumes "fs_open m g fname f0 = (v, f)" "v \<noteq> -1" "fs_file_read m g buf BUF_SIZE f = (n, m', f')" "a < buf \<or> buf + 256 \<le> a"
  shows "m' a = m a"
proof -
  have "pos f = 0" using assms(1,2) by (auto simp: fs_open_def Let_def split: option.splits if_splits)
  then obtain r where "read_data m g (sint (inode f)) 0 buf 256 = (r, m')"
    using assms(3) by (auto simp: fs_file_read_def to_u32_def split: prod.splits)
  moreover have "sz < u32 256 \<Longrightarrow> nat (s32 (int (u32 sz))) \<le> 256" for sz by (simp add: u32_def s32_id)
  moreover have "nat (s32 256) = 256" by (simp add: s32_id)
  moreover have "n \<le> 256 \<Longrightarrow> read_data_loop m g ino ic doff n i si cb buf a = m a" for n ino ic doff i si cb
    using assms(4) by (intro read_data_loop_frame) auto
  ultimately show ?thesis by (auto simp: read_data_def Let_def split: if_splits)
qed

text \<open>
  C28: A failing \<^verbatim>\<open>_syscall_execute\<close> returns -1 and leaves everything but the bytes of its own two local
  arrays as it was: no process number is taken, no page switched, no PCB or terminal changed. This
  holds for every state, also when the file system image is not well-formed.
\<close>

theorem execute_fails_cleanly:
  assumes "syscall_execute_at loc command ti k = Some (Returns v, k')"
  shows "v = -1 \<and> k' = k\<lparr>mem := mem k'\<rparr>
    \<and> (\<forall>a. mem k' a \<noteq> mem k a \<longrightarrow> (fname_at loc \<le> a \<and> a \<le> fname_at loc + the (strlen (mem k) command))
                                  \<or> (buf_at loc \<le> a \<and> a < buf_at loc + 256))"
proof (cases "find_pid (pid_used k)")
  case None
  then show ?thesis using assms by (simp add: syscall_execute_at_def)
next
  case (Some p)
  then obtain name ar where ps: "exec_parse (mem k) command = Some (name, ar)" "exec_image loc p name ar ti k = Some (Returns v, k')"
    using assms by (auto simp: syscall_execute_at_def split: option.splits)
  then obtain n where n: "strlen (mem k) command = Some n" "length name \<le> n"
    by (auto simp: exec_parse_def Let_def split: option.splits) (metis length_load_list length_takeWhile_le)
  define m0 where "m0 = store_list (mem k) (fname_at loc) (name @ [0])"
  have m0: "m0 a \<noteq> mem k a \<Longrightarrow> fname_at loc \<le> a \<and> a \<le> fname_at loc + n" for a
    using n(2) by (auto simp: m0_def store_list_def split: if_splits)
  obtain w f where o: "fs_open m0 (fsg k) (fname_at loc) (f_init loc) = (w, f)" by fastforce
  obtain r m1 f1 where rd: "fs_file_read m0 (fsg k) (buf_at loc) BUF_SIZE f = (r, m1, f1)" by (metis prod_cases3)
  obtain mm where mm: "v = -1" "k' = k\<lparr>mem := mm\<rparr>" "mm = m0 \<or> w \<noteq> -1 \<and> mm = m1"
    using ps(2) o rd by (auto simp: exec_image_def Let_def m0_def [symmetric] split: if_splits option.splits)
  have "m1 a \<noteq> m0 a \<Longrightarrow> w \<noteq> -1 \<Longrightarrow> buf_at loc \<le> a \<and> a < buf_at loc + 256" for a
    using fs_head_frame [OF o _ rd, of a] linorder_not_le by blast
  then have "\<forall>a. mm a \<noteq> mem k a \<longrightarrow> (fname_at loc \<le> a \<and> a \<le> fname_at loc + n) \<or> (buf_at loc \<le> a \<and> a < buf_at loc + 256)"
    using mm(3) m0 by metis
  then show ?thesis using n(1) mm by simp
qed

theorem execute_fails_cleanly_witness:
  "\<exists>k'. syscall_execute_at demo_locals 0x501 (-1) demo_kernel = Some (Returns (-1), k') \<and> k' = demo_kernel\<lparr>mem := mem k'\<rparr>"
proof -
  have "cstr demo_disk 0x501 []" by (simp add: cstr_def demo_disk_at)
  then have "strlen demo_disk 0x501 = Some 0" by (simp add: strlen_cstr)
  moreover have "find_pid (pid_used demo_kernel) = Some 1" by (simp add: find_pid_def upt_rec [of _ 10])
  moreover have "name_at (store_list demo_disk 0x600 [0]) 0x600 32 = []" by (subst name_at_Suc [of _ _ 31, simplified]) (simp add: store_list_def)
  ultimately have "syscall_execute_at demo_locals 0x501 (-1) demo_kernel = Some (Returns (-1), demo_kernel\<lparr>mem := store_list demo_disk 0x600 [0]\<rparr>)"
    by (simp add: syscall_execute_at_def exec_parse_def exec_image_def Let_def demo_room fs_open_def read_dentry_by_name_def fn_length_name)
  from execute_fails_cleanly [OF this] this show ?thesis by blast
qed

subsection \<open>Open files\<close>

lemma find_slot:
  assumes "List.find P [2..<8] = Some i"
  shows "2 \<le> i" "i < 8" "P i"
  using assms by (auto simp: find_Some_iff simp del: upt_rec_numeral)

lemma get_file_mem [simp]: "get_file r (k\<lparr>mem := m\<rparr>) = get_file r k" "fref_ok r (k\<lparr>mem := m\<rparr>) = fref_ok r k"
  by (simp_all add: get_file_def fref_ok_def)

lemma upd_file_kernel [simp]:
  fixes k :: "'a kernel_scheme"
  shows "fsg (upd_file r f k) = fsg k" "ptabs (upd_file r f k) = ptabs k" "frames (upd_file r f k) = frames k"
    "pid_used (upd_file r f k) = pid_used k" "tss_esp0 (upd_file r f k) = tss_esp0 k" "terms (upd_file r f k) = terms k"
  by (simp_all add: upd_file_def)

text \<open>
  C6: The life of a descriptor: opening an existing regular file gives the lowest free descriptor
  from 2 on; reading it delivers the first bytes of the file into the buffer and changes nothing
  else in memory; closing it succeeds, after which reads fail again. Every other descriptor of
  every process is as before.
\<close>

theorem open_read_close:
  assumes dir: "read_dentry_by_name (mem k) (fsg k) fname = Some d" "filetype d = FILE_TYPE_REG" "inode_num d = int ino"
    and wf: "ino < 2 ^ 31" "wf_file (mem k) (fsg k) ino"
    and slot: "List.find (\<lambda>i. \<not> used (get_file (cur k, i) k)) [2..<TASK_MAX_FILES] = Some i"
      "length (open_files (pcbs k (cur k))) = TASK_MAX_FILES"
    and buf: "buf \<noteq> 0" "n < 2 ^ 31" "disjoint_ranges buf n (bblock_ptr (fsg k)) (image_size (mem k) (fsg k))"
  shows "\<exists>k1 k2 k3. syscall_open fname k = Some (int i, k1)
    \<and> syscall_read (int i) buf n irqs k1 = Some (int (min n (file_size (mem k) (fsg k) ino)), k2, irqs)
    \<and> mem k2 = store_list (mem k) buf (take n (file_bytes (mem k) (fsg k) ino))
    \<and> syscall_close prev (int i) k2 = (0, k3) \<and> mem k3 = mem k2
    \<and> syscall_read (int i) buf n irqs k3 = Some (-1, k3, irqs)
    \<and> (\<forall>r. fref_ok r k \<and> r \<noteq> (cur k, i) \<longrightarrow> get_file r k3 = get_file r k)"
proof -
  note i = find_slot [OF slot(1)]
  let ?r = "(cur k, i)" and ?g = "fsg k" and ?m = "mem k"
  define f where "f = (get_file ?r k)\<lparr>pos := 0, inode := word_of_int (int ino), file_ops := fs_file_ops_table,
      ftype := TASK_FILE_REG, used := True\<rparr>"
  have r: "fref_ok ?r k" using i slot(2) by (simp add: fref_ok_def)
  define k1 where "k1 = upd_file ?r (\<lambda>f. f\<lparr>used := True\<rparr>) (upd_file ?r (\<lambda>_. (get_file ?r k)\<lparr>pos := 0, inode := word_of_int (int ino),
      file_ops := fs_file_ops_table, ftype := TASK_FILE_REG\<rparr>) k)"
  have o: "syscall_open fname k = Some (int i, k1)"
    using dir slot(1) by (simp add: syscall_open_def open_at_def Let_def fs_open_def FILE_TYPE_REG_def FILE_TYPE_RTC_def k1_def)
  have f1: "get_file ?r k1 = f" "cur k1 = cur k" "mem k1 = ?m" "fsg k1 = ?g" "fref_ok ?r k1"
    using r by (simp_all add: k1_def get_file_upd f_def)
  have "sint (word_of_int (int ino) :: u32w) = int ino"
    using wf(1) by (simp add: signed_of_nat signed_take_bit_int_eq_self)
  then have ok: "fs_ok ?g buf n (?m, f)" "fs_rest ?g (?m, f) = file_bytes ?m ?g ino"
    using wf buf by (simp_all add: fs_ok_def fs_rest_def file_ino_def f_def)
  let ?bs = "take n (file_bytes ?m ?g ino)"
  define k2 where "k2 = upd_file ?r (\<lambda>_. f\<lparr>pos := int (length ?bs)\<rparr>) (k1\<lparr>mem := store_list ?m buf ?bs\<rparr>)"
  have "fs_file_read ?m ?g buf n f = (int (length ?bs), store_list ?m buf ?bs, f\<lparr>pos := int (length ?bs)\<rparr>)"
    using fs_file_read_spec [OF ok(1)] ok(2) by (simp add: Let_def f_def)
  then have rd: "syscall_read (int i) buf n irqs k1 = Some (int (length ?bs), k2, irqs)"
    using buf(1) i f1 by (simp add: syscall_read_def fd_used_def f_def k2_def)
  have f2: "get_file ?r k2 = f\<lparr>pos := int (length ?bs)\<rparr>" "cur k2 = cur k" "fref_ok ?r k2" "mem k2 = store_list ?m buf ?bs"
    using f1 by (simp_all add: k2_def get_file_upd)
  define k3 where "k3 = upd_file ?r (\<lambda>f. f\<lparr>used := False\<rparr>) k2"
  have c: "syscall_close prev (int i) k2 = (0, k3)"
    using i f2 by (simp add: syscall_close_def fd_used_def f_def k3_def fs_file_close_def)
  have "syscall_read (int i) buf n irqs k3 = Some (-1, k3, irqs)"
    using i f2 by (simp add: syscall_read_def fd_used_def k3_def get_file_upd)
  moreover have "get_file q k3 = get_file q k" if "fref_ok q k" "q \<noteq> ?r" for q
    using that by (simp add: k3_def k2_def k1_def get_file_upd)
  moreover have "length ?bs = min n (file_size ?m ?g ino)" by (simp add: file_bytes_def min.commute)
  ultimately show ?thesis using o rd c f2 k3_def by (intro exI [of _ k1] exI [of _ k2] exI [of _ k3]) auto
qed

theorem open_read_close_witness:
  "\<exists>k1 k2 k3. syscall_open 0x500 demo_kernel = Some (2, k1)
    \<and> syscall_read 2 0x9000 4 [] k1 = Some (4, k2, [])
    \<and> mem k2 = store_list demo_disk 0x9000 [0x7F, 69, 76, 70]
    \<and> syscall_close 0 2 k2 = (0, k3) \<and> syscall_read 2 0x9000 4 [] k3 = Some (-1, k3, [])"
proof -
  have l: "demo_like demo_disk" by (rule demo_likes(1) [of "[]"]) simp
  obtain d where d: "read_dentry_by_name demo_disk demo_fs 0x500 = Some d" "filetype d = FILE_TYPE_REG" "inode_num d = int 0"
    using demo_disk_dentry [OF l, of "0x500"] by (auto simp: demo_disk_at FILE_TYPE_REG_def)
  have "List.find (\<lambda>i. \<not> used (get_file (cur demo_kernel, i) demo_kernel)) [2..<TASK_MAX_FILES] = Some 2"
    by (simp add: get_file_def upt_rec [of _ 8])
  then show ?thesis
    using open_read_close [of demo_kernel "0x500" d 0 2 "0x9000" 4 "[]" 0] d demo_wf_file [OF l]
    by (simp add: demo_image disjoint_ranges_def) (auto simp: demo_prog_def)
qed

end
