(* ===== verification/Signals.thy ===== *)
theory Signals
  imports Syscall
begin

text \<open>
  Signal delivery (\<^verbatim>\<open>student-distrib/signals.c\<close>) and the return from a handler
  (\<^verbatim>\<open>syscall.c\<close>: \<^verbatim>\<open>_syscall_sigreturn\<close>). On the way back to user mode \<open>check_signals\<close> looks for the first
  pending signal; a process with a handler for it gets the interrupted registers on its stack and
  continues in the handler, which ends with the system call that puts the registers back.

  The address of the assembly routine \<^verbatim>\<open>sigreturn_linkage\<close> is the argument \<open>linkage\<close>. A result
  \<open>None\<close> of the first component means that the interrupted process goes on with the returned context;
  \<open>Some\<close> that control has left it (the process was ended and its parent runs).
\<close>

abbreviation (input) USER_CS :: nat where "USER_CS \<equiv> 0x23"

definition context_words :: "hw_context_t \<Rightarrow> nat list" where
  "context_words c = regs c @ [irq_num c, ctx_error c, ctx_addr c, ctx_cs c, eflags c, ctx_esp c, ctx_ds c]"

fun store_words :: "mem \<Rightarrow> addr \<Rightarrow> nat list \<Rightarrow> mem" where
  "store_words m a [] = m"
| "store_words m a (w # ws) = store_words (store32 m a w) (a + 4) ws"

text \<open>The frame for the handler of signal \<open>i\<close>: the saved context, its argument and its return address.\<close>

definition deliver_signal :: "nat \<Rightarrow> nat \<Rightarrow> nat \<Rightarrow> hw_context_t \<Rightarrow> mem \<Rightarrow> hw_context_t \<times> mem" where
  "deliver_signal linkage i handler context m =
     (let esp0 = ctx_esp context - 68;
          m1 = store_words m esp0 (context_words context);
          esp1 = esp0 - 4;
          m2 = store32 m1 esp1 i;
          esp2 = esp1 - 4;
          m3 = store32 m2 esp2 linkage
      in (context\<lparr>ctx_esp := esp2, ctx_addr := handler\<rparr>, m3))"

fun check_loop :: "nat \<Rightarrow> byte \<Rightarrow> nat list \<Rightarrow> hw_context_t \<Rightarrow> 'a kernel_scheme \<Rightarrow> flow option \<times> hw_context_t \<times> 'a kernel_scheme" where
  "check_loop linkage prev [] context k = (None, context, k)"
| "check_loop linkage prev (i # is) context k =
     (let task = pcbs k (cur k); mask = SIG_FLAG i in
      if signals task AND mask \<noteq> 0 then
        let k1 = upd_pcb (cur k) (\<lambda>P. P\<lparr>signals := signals P AND NOT mask\<rparr>) k;
            handler = signal_handlers task ! i
        in if handler \<noteq> 0 then
             case deliver_signal linkage i handler context (mem k1) of (c, m) \<Rightarrow> (None, c, k1\<lparr>mem := m\<rparr>)
           else if i < 3 then
             case syscall_halt_with prev 256 context k1 of
               (Returns v, c, k2) \<Rightarrow> check_loop linkage prev is c k2
             | (fl, c, k2) \<Rightarrow> (Some fl, c, k2)
           else check_loop linkage prev is context k1
      else check_loop linkage prev is context k)"

definition check_signals :: "nat \<Rightarrow> byte \<Rightarrow> hw_context_t \<Rightarrow> 'a kernel_scheme \<Rightarrow> flow option \<times> hw_context_t \<times> 'a kernel_scheme" where
  "check_signals linkage prev context k =
     (if signals (pcbs k (cur k)) = 0 then (None, context, k)
      else if ctx_cs context \<noteq> USER_CS then (None, context, k)
      else check_loop linkage prev [0..<SIG_SIZE] context k)"

definition syscall_sigreturn :: "hw_context_t \<Rightarrow> mem \<Rightarrow> int \<times> hw_context_t" where
  "syscall_sigreturn context m =
     (let saved = ctx_esp context;
          c1 = context\<lparr>ctx_esp := load32 m (saved + 4 * 15), ctx_addr := load32 m (saved + 4 * 12)\<rparr>
      in (0, c1\<lparr>regs := fold (\<lambda>i rs. rs[i := load32 m (saved + 4 * i)]) [0..<10] (regs c1)\<rparr>))"

text \<open>A context as the processor and the entry code leave it: ten registers, 32-bit values.\<close>

definition context_ok :: "hw_context_t \<Rightarrow> bool" where
  "context_ok c \<longleftrightarrow> length (regs c) = 10 \<and> (\<forall>w \<in> set (context_words c). w < 2 ^ 32)"

definition demo_context :: hw_context_t where
  "demo_context = \<lparr>regs = replicate 10 7, irq_num = 0, ctx_error = 0, ctx_addr = 0x8048100, ctx_cs = 0x23,
     eflags = 0x202, ctx_esp = 0x83FF000, ctx_ds = 0x2B\<rparr>"

subsection \<open>Saving and restoring\<close>

lemma store_words_other: "b < a \<or> a + 4 * length ws \<le> b \<Longrightarrow> store_words m a ws b = m b"
  by (induction ws arbitrary: m a) auto

lemma load_store_words:
  "i < length ws \<Longrightarrow> load32 (store_words m a ws) (a + 4 * i) = ws ! i mod 2 ^ 32"
proof (induction ws arbitrary: m a i)
  case (Cons w ws)
  show ?case
  proof (cases i)
    case 0
    have "load32 (store_words (store32 m a w) (a + 4) ws) a = load32 (store32 m a w) a"
      by (rule load32_cong) (simp add: store_words_other)
    then show ?thesis using 0 by simp
  next
    case (Suc j)
    then show ?thesis using Cons.IH [of j "store32 m a w" "a + 4"] Cons.prems by (simp add: add.assoc)
  qed
qed simp

lemma fold_nth_update:
  "n \<le> length xs \<Longrightarrow> fold (\<lambda>i rs. rs[i := f i]) [0..<n] xs = map f [0..<n] @ drop n xs"
proof (induction n)
  case (Suc n)
  then show ?case by (simp add: list_update_append Cons_nth_drop_Suc [symmetric])
qed simp

lemma deliver_signal_frame:
  assumes "context_ok c" "76 \<le> ctx_esp c"
  shows "load32 (snd (deliver_signal l i h c m)) (ctx_esp c - 76) = l mod 2 ^ 32"
    "load32 (snd (deliver_signal l i h c m)) (ctx_esp c - 72) = i mod 2 ^ 32"
    "j < 17 \<Longrightarrow> load32 (snd (deliver_signal l i h c m)) (ctx_esp c - 68 + 4 * j) = context_words c ! j"
    "a < ctx_esp c - 76 \<or> ctx_esp c \<le> a \<Longrightarrow> snd (deliver_signal l i h c m) a = m a"
proof -
  have len: "length (context_words c) = 17" using assms(1) by (simp add: context_ok_def context_words_def)
  have e: "ctx_esp c - 68 - 4 = ctx_esp c - 72" "ctx_esp c - 68 - 4 - 4 = ctx_esp c - 76" by simp_all
  show "load32 (snd (deliver_signal l i h c m)) (ctx_esp c - 76) = l mod 2 ^ 32"
    by (simp add: deliver_signal_def Let_def)
  show "load32 (snd (deliver_signal l i h c m)) (ctx_esp c - 72) = i mod 2 ^ 32"
    using assms(2) by (simp add: deliver_signal_def Let_def)
  show "load32 (snd (deliver_signal l i h c m)) (ctx_esp c - 68 + 4 * j) = context_words c ! j" if "j < 17"
  proof -
    have "context_words c ! j < 2 ^ 32" using assms(1) len that by (simp add: context_ok_def)
    moreover obtain e where "ctx_esp c = e + 76" using assms(2) by (metis add.commute le_Suc_ex)
    ultimately show ?thesis using load_store_words [of j "context_words c" m "ctx_esp c - 68"] len that
      by (simp add: deliver_signal_def Let_def)
  qed
  show "snd (deliver_signal l i h c m) a = m a" if "a < ctx_esp c - 76 \<or> ctx_esp c \<le> a"
  proof -
    obtain e where "ctx_esp c = e + 76" using assms(2) by (metis add.commute le_Suc_ex)
    then show ?thesis using that len by (auto simp: deliver_signal_def Let_def store_words_other)
  qed
qed

lemma sigreturn_restores:
  assumes "context_ok c" "length (regs c') = 10"
    "\<And>j. j < 17 \<Longrightarrow> load32 m (ctx_esp c' + 4 * j) = context_words c ! j"
  shows "syscall_sigreturn c' m = (0, c'\<lparr>regs := regs c, ctx_addr := ctx_addr c, ctx_esp := ctx_esp c\<rparr>)"
proof -
  have l: "length (regs c) = 10" using assms(1) by (simp add: context_ok_def)
  have "map (\<lambda>i. load32 m (ctx_esp c' + 4 * i)) [0..<10] = regs c"
    by (rule nth_equalityI) (use l assms(3) in \<open>simp_all add: context_words_def nth_append del: upt_rec_numeral\<close>)
  then have "fold (\<lambda>i rs. rs[i := load32 m (ctx_esp c' + 4 * i)]) [0..<10] (regs c') = regs c"
    using fold_nth_update [of 10 "regs c'" "\<lambda>i. load32 m (ctx_esp c' + 4 * i)"] assms(2) by (simp del: upt_rec_numeral)
  moreover have "load32 m (ctx_esp c' + 4 * 15) = ctx_esp c" "load32 m (ctx_esp c' + 4 * 12) = ctx_addr c"
    using assms(3) [of 15] assms(3) [of 12] l by (simp_all add: context_words_def nth_append)
  ultimately show ?thesis by (simp add: syscall_sigreturn_def Let_def del: upt_rec_numeral)
qed

subsection \<open>Which signal is delivered\<close>

lemma SIG_FLAG_bit: "i < 8 \<Longrightarrow> (w AND SIG_FLAG i \<noteq> 0) = bit w i"
proof -
  assume i: "i < 8"
  have "w AND SIG_FLAG i = (if bit w i then SIG_FLAG i else 0)"
    by (rule bit_word_eqI) (auto simp: SIG_FLAG_def bit_simps)
  moreover have "bit (SIG_FLAG i) i" using i by (simp add: SIG_FLAG_def bit_simps)
  then have "SIG_FLAG i \<noteq> 0" by auto
  ultimately show ?thesis by simp
qed

lemma check_loop_skip:
  assumes "\<forall>j \<in> set is. j < 8 \<and> \<not> bit (signals (pcbs k (cur k))) j"
  shows "check_loop l prev (is @ js) c k = check_loop l prev js c k"
  using assms by (induction "is") (simp_all add: Let_def SIG_FLAG_bit)

lemma check_signals_first:
  assumes "i < SIG_SIZE" "bit (signals (pcbs k (cur k))) i" "\<forall>j < i. \<not> bit (signals (pcbs k (cur k))) j"
    "ctx_cs c = USER_CS" "signal_handlers (pcbs k (cur k)) ! i \<noteq> 0"
  shows "check_signals l prev c k =
    (case deliver_signal l i (signal_handlers (pcbs k (cur k)) ! i) c (mem k) of
       (c', m) \<Rightarrow> (None, c', (upd_pcb (cur k) (\<lambda>P. P\<lparr>signals := signals P AND NOT (SIG_FLAG i)\<rparr>) k)\<lparr>mem := m\<rparr>))"
proof -
  have "[0..<5] = [0..<i] @ i # [Suc i..<5]" using assms(1) by (metis add_0 le_add_diff_inverse less_imp_le_nat upt_add_eq_append upt_conv_Cons zero_le)
  moreover have "signals (pcbs k (cur k)) \<noteq> 0" using assms(2) by auto
  moreover have "\<forall>j \<in> set [0..<i]. j < 8 \<and> \<not> bit (signals (pcbs k (cur k))) j" using assms(1,3) by auto
  ultimately show ?thesis
    using assms check_loop_skip [of "[0..<i]" k l prev "i # [Suc i..<5]" c]
    by (simp add: check_signals_def Let_def SIG_FLAG_bit del: upt_rec_numeral)
qed

text \<open>
  C11: Delivering a signal and returning from its handler is transparent. The first pending signal
  with a handler is taken and only it is cleared; the process continues in the handler, with the
  signal number and the return stub on its stack and nothing else overwritten. Once the handler has
  returned through the stub, with the stack pointer at the saved registers and those bytes intact,
  \<open>sigreturn\<close> gives back all ten registers, the interrupted address and the stack pointer. (The flags
  are not given back: they stay those of the handler.)
\<close>

theorem signal_transparent:
  assumes "i < SIG_SIZE" "bit (signals (pcbs k (cur k))) i" "\<forall>j < i. \<not> bit (signals (pcbs k (cur k))) j"
    "ctx_cs c = USER_CS" "signal_handlers (pcbs k (cur k)) ! i \<noteq> 0" "context_ok c" "76 \<le> ctx_esp c"
  shows "\<exists>c1 k1. check_signals l prev c k = (None, c1, k1)
    \<and> ctx_addr c1 = signal_handlers (pcbs k (cur k)) ! i \<and> ctx_esp c1 = ctx_esp c - 76
    \<and> load32 (mem k1) (ctx_esp c1) = l mod 2 ^ 32 \<and> load32 (mem k1) (ctx_esp c1 + 4) = i
    \<and> (\<forall>a. a < ctx_esp c1 \<or> ctx_esp c \<le> a \<longrightarrow> mem k1 a = mem k a)
    \<and> (\<forall>j < 8. bit (signals (pcbs k1 (cur k1))) j \<longleftrightarrow> bit (signals (pcbs k (cur k))) j \<and> j \<noteq> i)
    \<and> (\<forall>c2 m. length (regs c2) = 10 \<and> ctx_esp c2 = ctx_esp c1 + 8 \<and> (\<forall>a. ctx_esp c2 \<le> a \<and> a < ctx_esp c \<longrightarrow> m a = mem k1 a)
         \<longrightarrow> syscall_sigreturn c2 m = (0, c2\<lparr>regs := regs c, ctx_addr := ctx_addr c, ctx_esp := ctx_esp c\<rparr>))"
proof -
  let ?h = "signal_handlers (pcbs k (cur k)) ! i"
  define d where "d = deliver_signal l i ?h c (mem k)"
  note fr = deliver_signal_frame [OF assms(6,7), where l = l and i = i and h = ?h and m = "mem k", folded d_def]
  have d1: "ctx_addr (fst d) = ?h" "ctx_esp (fst d) = ctx_esp c - 76" by (simp_all add: d_def deliver_signal_def Let_def)
  define k1 where "k1 = (upd_pcb (cur k) (\<lambda>P. P\<lparr>signals := signals P AND NOT (SIG_FLAG i)\<rparr>) k)\<lparr>mem := snd d\<rparr>"
  have run: "check_signals l prev c k = (None, fst d, k1)"
    using check_signals_first [OF assms(1-5), of l prev] by (simp add: d_def [symmetric] k1_def split_beta)
  have e: "ctx_esp c - 76 + 4 = ctx_esp c - 72" "ctx_esp c - 76 + 8 = ctx_esp c - 68" using assms(7) by simp_all
  have ret: "syscall_sigreturn c2 m = (0, c2\<lparr>regs := regs c, ctx_addr := ctx_addr c, ctx_esp := ctx_esp c\<rparr>)"
    if h: "length (regs c2) = 10" "ctx_esp c2 = ctx_esp c - 68" "\<forall>a. ctx_esp c2 \<le> a \<and> a < ctx_esp c \<longrightarrow> m a = snd d a" for c2 m
  proof (rule sigreturn_restores [OF assms(6) h(1)])
    fix j :: nat assume j: "j < 17"
    have "load32 m (ctx_esp c2 + 4 * j) = load32 (snd d) (ctx_esp c2 + 4 * j)"
    proof (rule load32_cong)
      fix b :: nat assume "b < 4"
      then have "ctx_esp c2 + 4 * j + b < ctx_esp c" using h(2) j assms(7) by linarith
      then show "m (ctx_esp c2 + 4 * j + b) = snd d (ctx_esp c2 + 4 * j + b)" using h(3) by simp
    qed
    then show "load32 m (ctx_esp c2 + 4 * j) = context_words c ! j" using fr(3) [OF j] h(2) by simp
  qed
  have "bit (signals (pcbs k1 (cur k1))) j \<longleftrightarrow> bit (signals (pcbs k (cur k))) j \<and> j \<noteq> i" if "j < 8" for j
    using that by (auto simp: k1_def SIG_FLAG_def bit_simps)
  then show ?thesis
    using run d1 fr(1,2,4) ret e assms(1) by (intro exI [of _ "fst d"] exI [of _ k1]) (auto simp: k1_def)
qed

theorem signal_transparent_witness:
  "\<exists>c1 k1. check_signals 0x400100 0 demo_context (raise_signal SIG_ALARM 0 (upd_pcb 0 (\<lambda>P. P\<lparr>signals := 0,
       signal_handlers := replicate 5 0x8048200\<rparr>) demo_kernel)) = (None, c1, k1)
    \<and> ctx_addr c1 = 0x8048200 \<and> load32 (mem k1) (ctx_esp c1 + 4) = 3
    \<and> fst (syscall_sigreturn (c1\<lparr>ctx_esp := ctx_esp c1 + 8, regs := replicate 10 0\<rparr>) (mem k1)) = 0"
proof -
  let ?k = "raise_signal SIG_ALARM 0 (upd_pcb 0 (\<lambda>P. P\<lparr>signals := 0, signal_handlers := replicate 5 0x8048200\<rparr>) demo_kernel)"
  have k: "signals (pcbs ?k (cur ?k)) = SIG_FLAG 3" "signal_handlers (pcbs ?k (cur ?k)) = replicate 5 0x8048200"
    by (simp_all add: raise_signal_def)
  have b: "bit (SIG_FLAG 3) 3" "\<forall>j < 3. \<not> bit (SIG_FLAG 3) j"
    unfolding SIG_FLAG_def bit_push_bit_iff by simp_all
  have c: "context_ok demo_context" "ctx_cs demo_context = 0x23" "76 \<le> ctx_esp demo_context"
    by (simp_all add: context_ok_def demo_context_def context_words_def)
  obtain c1 k1 where r: "check_signals 0x400100 0 demo_context ?k = (None, c1, k1)" "ctx_addr c1 = 0x8048200"
    "load32 (mem k1) (ctx_esp c1 + 4) = 3"
    "\<forall>c2 m. length (regs c2) = 10 \<and> ctx_esp c2 = ctx_esp c1 + 8 \<and> (\<forall>a. ctx_esp c2 \<le> a \<and> a < ctx_esp demo_context \<longrightarrow> m a = mem k1 a)
       \<longrightarrow> syscall_sigreturn c2 m = (0, c2\<lparr>regs := regs demo_context, ctx_addr := ctx_addr demo_context, ctx_esp := ctx_esp demo_context\<rparr>)"
    using signal_transparent [of 3 ?k demo_context "0x400100" 0] b c unfolding k by auto
  then show ?thesis using r(4) [rule_format, of "c1\<lparr>ctx_esp := ctx_esp c1 + 8, regs := replicate 10 0\<rparr>" "mem k1"] by simp
qed

end
