(* ===== verification/Idt.thy ===== *)
theory Idt
  imports Signals
begin

text \<open>
  The interrupt descriptor table (\<^verbatim>\<open>student-distrib/idt.c\<close>, \<^verbatim>\<open>x86_desc.h\<close>) and the handler of processor
  exceptions. The addresses of the assembly entry points are given by the argument \<open>symb\<close>, from the
  name of the symbol.
\<close>

record idt_desc_t =
  offset_15_00 :: nat
  seg_selector :: nat
  reserved4 :: nat
  reserved3 :: bool
  reserved2 :: bool
  reserved1 :: bool
  gate_size :: bool
  reserved0 :: bool
  dpl :: nat
  present :: bool
  offset_31_16 :: nat

abbreviation (input) NUM_VEC :: nat where "NUM_VEC \<equiv> 256"
abbreviation (input) SYSCALL_IDX :: nat where "SYSCALL_IDX \<equiv> 0x80"
abbreviation (input) KERNEL_CS :: nat where "KERNEL_CS \<equiv> 0x10"

definition SET_IDT_ENTRY :: "nat \<Rightarrow> idt_desc_t \<Rightarrow> idt_desc_t" where
  "SET_IDT_ENTRY handler e = e\<lparr>offset_31_16 := handler div 65536 mod 65536, offset_15_00 := handler mod 65536\<rparr>"

definition idt_default :: "(string \<Rightarrow> nat) \<Rightarrow> nat \<Rightarrow> idt_desc_t \<Rightarrow> idt_desc_t" where
  "idt_default symb i e =
     (let e1 = e\<lparr>seg_selector := KERNEL_CS, reserved3 := False, reserved2 := True, reserved1 := True, gate_size := True,
                 reserved0 := False, present := (i < 20)\<rparr>;
          e2 = (if i = SYSCALL_IDX then e1\<lparr>dpl := 3, present := True\<rparr> else e1\<lparr>dpl := 0\<rparr>)
      in if i > 19 \<and> i < 32 then SET_IDT_ENTRY (symb ''_db_isr'') e2 else e2)"

definition exception_isrs :: "string list" where
  "exception_isrs = [''_de_isr'', ''_db_isr'', ''_nmi_isr'', ''_bp_isr'', ''_of_isr'', ''_br_isr'', ''_ud_isr'', ''_nm_isr'',
     ''_df_isr'', ''_cso_isr'', ''_ts_isr'', ''_np_isr'', ''_ss_isr'', ''_gp_isr'', ''_pf_isr'', ''_db_isr'', ''_mf_isr'',
     ''_ac_isr'', ''_mc_isr'', ''_xf_isr'']"

definition idt_init :: "(string \<Rightarrow> nat) \<Rightarrow> idt_desc_t list \<Rightarrow> idt_desc_t list" where
  "idt_init symb idt =
     (let t1 = fold (\<lambda>i t. t[i := idt_default symb i (t ! i)]) [0..<NUM_VEC] idt;
          t2 = fold (\<lambda>i t. t[i := SET_IDT_ENTRY (symb (exception_isrs ! i)) (t ! i)]) [0..<20] t1
      in t2[SYSCALL_IDX := SET_IDT_ENTRY (symb ''_syscall_isr'') (t2 ! SYSCALL_IDX)])"

text \<open>The drivers add their vectors (\<^verbatim>\<open>init_pit\<close>, \<^verbatim>\<open>init_kb\<close>, \<^verbatim>\<open>init_rtc\<close>).\<close>

definition set_vector :: "nat \<Rightarrow> nat \<Rightarrow> idt_desc_t list \<Rightarrow> idt_desc_t list" where
  "set_vector i handler idt = idt[i := (SET_IDT_ENTRY handler (idt ! i))\<lparr>present := True\<rparr>]"

subsection \<open>Exceptions\<close>

definition ascii :: "string \<Rightarrow> byte list" where
  "ascii s = map of_char s"

definition exception_handler :: "nat \<Rightarrow> nat \<Rightarrow> nat \<Rightarrow> 'a proc_sys_scheme \<Rightarrow> 'a proc_sys_scheme option" where
  "exception_handler irq errorcode cr2 s =
     (case (if irq = 14
            then printf 0 (ascii ''exception: irq: %u, error: %u, addr: 0x%#x'' @ [10]) (\<lambda>i. [irq, errorcode, cr2] ! i) s
            else printf 0 (ascii ''exception: irq: %u, error: %u'' @ [10]) (\<lambda>i. [irq, errorcode] ! i) s) of
        None \<Rightarrow> None
      | Some (n, s1) \<Rightarrow> Some (raise_signal (if irq = 0 then SIG_DIV_ZERO else SIG_SEGFAULT) (cur s1) s1))"

subsection \<open>Specifications\<close>

text \<open>A format in which every conversion is complete.\<close>

fun fmt_ok :: "byte list \<Rightarrow> bool" and conv_ok :: "byte list \<Rightarrow> bool" where
  "fmt_ok [] = True"
| "fmt_ok (c # cs) = (if c = 37 then conv_ok cs else fmt_ok cs)"
| "conv_ok [] = False"
| "conv_ok (c # cs) = (if c = 35 then conv_ok cs else fmt_ok cs)"

definition gate_target :: "idt_desc_t \<Rightarrow> nat" where
  "gate_target e = offset_31_16 e * 65536 + offset_15_00 e"

definition keeps_more :: "'a term_sys_scheme \<Rightarrow> 'a term_sys_scheme option \<Rightarrow> bool" where
  "keeps_more s r \<longleftrightarrow> (case r of None \<Rightarrow> True | Some s' \<Rightarrow> term_sys.more s' = term_sys.more s)"

text \<open>The entry the processor may go through on \<^verbatim>\<open>int i\<close> at privilege level \<open>cpl\<close>.\<close>

definition callable :: "idt_desc_t list \<Rightarrow> nat \<Rightarrow> nat \<Rightarrow> bool" where
  "callable idt cpl i \<longleftrightarrow> present (idt ! i) \<and> cpl \<le> dpl (idt ! i)"

lemma fold_update_length: "length (fold (\<lambda>i t. t[i := f i (t ! i)]) is xs) = length xs"
  by (induction "is" arbitrary: xs) simp_all

lemma fold_update_nth:
  assumes "j < length xs" "n \<le> length xs"
  shows "fold (\<lambda>i t. t[i := f i (t ! i)]) [0..<n] xs ! j = (if j < n then f j (xs ! j) else xs ! j)"
  using assms(2) by (induction n) (use assms(1) in \<open>auto simp: nth_list_update fold_update_length\<close>)

lemma idt_init_nth:
  assumes "length idt = NUM_VEC" "i < NUM_VEC"
  shows "idt_init symb idt ! i =
    (if i = SYSCALL_IDX then SET_IDT_ENTRY (symb ''_syscall_isr'') (idt_default symb i (idt ! i))
     else if i < 20 then SET_IDT_ENTRY (symb (exception_isrs ! i)) (idt_default symb i (idt ! i))
     else idt_default symb i (idt ! i))"
proof -
  define t1 where "t1 = fold (\<lambda>i t. t[i := idt_default symb i (t ! i)]) [0..<256] idt"
  have t1: "j < 256 \<Longrightarrow> t1 ! j = idt_default symb j (idt ! j)" "length t1 = 256" for j
    using fold_update_nth [of j idt 256 "idt_default symb"] assms(1)
    by (simp_all add: t1_def fold_update_length del: upt_rec_numeral)
  define t2 where "t2 = fold (\<lambda>i t. t[i := SET_IDT_ENTRY (symb (exception_isrs ! i)) (t ! i)]) [0..<20] t1"
  have t2: "j < 256 \<Longrightarrow> t2 ! j = (if j < 20 then SET_IDT_ENTRY (symb (exception_isrs ! j)) (t1 ! j) else t1 ! j)" "length t2 = 256" for j
    using fold_update_nth [of j t1 20 "\<lambda>i. SET_IDT_ENTRY (symb (exception_isrs ! i))"] t1(2)
      fold_update_length [of "\<lambda>i. SET_IDT_ENTRY (symb (exception_isrs ! i))"]
    by (simp_all add: t2_def del: upt_rec_numeral)
  have "idt_init symb idt = t2[128 := SET_IDT_ENTRY (symb ''_syscall_isr'') (t2 ! 128)]"
    by (simp only: idt_init_def Let_def t1_def t2_def)
  then show ?thesis using t1 t2 assms(2) by (simp add: nth_list_update)
qed

text \<open>
  C38: After \<open>idt_init\<close> and the three drivers, exactly the exceptions 0 to 19, the timer, keyboard and
  clock interrupts and the system call are present; each entry is a 32-bit interrupt gate into the
  kernel's code segment at the address of its own routine; and a program in user mode can call
  only the system call with \<^verbatim>\<open>int\<close>, not fake an exception or a device.
\<close>

theorem idt_gates:
  assumes "length idt = NUM_VEC" "i < NUM_VEC" "\<forall>s. symb s < 2 ^ 32"
  shows "let t = set_vector 0x20 (symb ''_pit_isr'') (set_vector 0x21 (symb ''_kb_isr'') (set_vector 0x28 (symb ''_rtc_isr'') (idt_init symb idt)))
    in (present (t ! i) \<longleftrightarrow> i < 20 \<or> i = 0x20 \<or> i = 0x21 \<or> i = 0x28 \<or> i = SYSCALL_IDX)
     \<and> (callable t 3 i \<longleftrightarrow> i = SYSCALL_IDX)
     \<and> (seg_selector (t ! i) = KERNEL_CS \<and> gate_size (t ! i) \<and> reserved1 (t ! i) \<and> reserved2 (t ! i) \<and> \<not> reserved0 (t ! i))
     \<and> (present (t ! i) \<longrightarrow> gate_target (t ! i) = symb (if i < 20 then exception_isrs ! i else if i = 0x20 then ''_pit_isr''
           else if i = 0x21 then ''_kb_isr'' else if i = 0x28 then ''_rtc_isr'' else ''_syscall_isr''))"
proof -
  have tgt: "gate_target (SET_IDT_ENTRY (symb s) e) = symb s" for s e
  proof -
    have "symb s div 65536 < 65536" using assms(3) by (simp add: less_mult_imp_div_less)
    then show ?thesis by (simp add: gate_target_def SET_IDT_ENTRY_def)
  qed
  have tgt': "gate_target ((SET_IDT_ENTRY (symb s) e)\<lparr>present := x\<rparr>) = symb s" for s e x
    using tgt [of s e] by (simp add: gate_target_def)
  have len: "length (idt_init symb idt) = 256"
    using assms(1) fold_update_length [of "\<lambda>i. SET_IDT_ENTRY (symb (exception_isrs ! i))"] fold_update_length [of "idt_default symb"]
    by (simp add: idt_init_def Let_def del: upt_rec_numeral)
  consider "i = 0x20" | "i = 0x21" | "i = 0x28" | "i = 0x80" | "i < 20" | "i \<noteq> 0x20" "i \<noteq> 0x21" "i \<noteq> 0x28" "i \<noteq> 0x80" "\<not> i < 20" by metis
  then show ?thesis
    by cases (simp_all add: Let_def set_vector_def len idt_init_nth [OF assms(1)] assms(2) tgt tgt' callable_def
        nth_list_update, simp_all add: idt_default_def SET_IDT_ENTRY_def Let_def)
qed

text \<open>The vectors 20 to 31 get a routine but stay absent.\<close>

lemma idt_reserved_absent:
  assumes "length idt = NUM_VEC" "20 \<le> i" "i < 32"
  shows "\<not> present (idt_init symb idt ! i) \<and> gate_target (idt_init symb idt ! i) = symb ''_db_isr'' mod 2 ^ 32"
proof -
  have "symb ''_db_isr'' div 65536 mod 65536 * 65536 + symb ''_db_isr'' mod 65536 = symb ''_db_isr'' mod 2 ^ 32"
    using mod_mult2_eq [of "symb ''_db_isr''" 65536 65536] by simp
  then show ?thesis
    using assms by (simp add: idt_init_nth idt_default_def Let_def SET_IDT_ENTRY_def gate_target_def)
qed

theorem idt_gates_witness:
  "let t = set_vector 0x20 0x400000 (set_vector 0x21 0x400000 (set_vector 0x28 0x400000 (idt_init (\<lambda>s. 0x400000)
      (replicate 256 \<lparr>offset_15_00 = 0, seg_selector = 0, reserved4 = 0, reserved3 = False, reserved2 = False, reserved1 = False,
         gate_size = False, reserved0 = False, dpl = 0, present = False, offset_31_16 = 0\<rparr>))))
   in present (t ! 14) \<and> \<not> callable t 3 14"
  using idt_gates [of "replicate 256 \<lparr>offset_15_00 = 0, seg_selector = 0, reserved4 = 0, reserved3 = False, reserved2 = False,
      reserved1 = False, gate_size = False, reserved0 = False, dpl = 0, present = False, offset_31_16 = 0\<rparr>" 14 "\<lambda>s. 0x400000"]
  by (simp add: Let_def)

subsection \<open>Exceptions raise signals\<close>

lemma fold_more: "(\<And>x s. term_sys.more (f x s) = term_sys.more s) \<Longrightarrow> term_sys.more (fold f xs s) = term_sys.more s"
  by (induction xs arbitrary: s) simp_all

lemma set_vid_char_more: "term_sys.more (set_vid_char x y c t s) = term_sys.more s"
  by (simp add: set_vid_char_def Let_def)

lemma scroll_more: "term_sys.more (scroll t s) = term_sys.more s"
  by (simp add: scroll_def scroll_cell_def Let_def fold_more set_vid_char_more)

lemma putc_more: "term_sys.more (putc c t s) = term_sys.more s"
  by (simp add: putc_def putc_body_def putc_scroll_def term_back_def Let_def set_vid_char_more scroll_more)

lemma puts_more: "term_sys.more (snd (puts cs t s)) = term_sys.more s"
  by (simp add: puts_def Let_def fold_more putc_more)

lemma keeps_more_print [simp]:
  "keeps_more (putc c t s) r = keeps_more s r" "keeps_more (snd (puts cs t s)) r = keeps_more s r"
  by (simp_all add: keeps_more_def putc_more puts_more split: option.split)

lemma printf_more:
  "keeps_more s (printf_loop t esp cs i s)" "keeps_more s (printf_conv alt t esp cs i s)"
proof (induction t esp cs i s and alt t esp cs i s rule: printf_loop_printf_conv.induct)
  case (1 t esp i s)
  then show ?case by (simp add: keeps_more_def)
next
  case (2 t esp c cs i s)
  then show ?case by simp
next
  case (3 alt t esp i s)
  then show ?case by (simp add: keeps_more_def)
next
  case (4 alt t esp c cs i s)
  then show ?case by simp
qed

lemma printf_total:
  "fmt_ok cs \<Longrightarrow> printf_loop t esp cs i s \<noteq> None"
  "conv_ok cs \<Longrightarrow> printf_conv alt t esp cs i s \<noteq> None"
  by (induction t esp cs i s and alt t esp cs i s rule: printf_loop_printf_conv.induct) auto

lemma exception_formats:
  "fmt_ok (ascii ''exception: irq: %u, error: %u, addr: 0x%#x'' @ [10])"
  "fmt_ok (ascii ''exception: irq: %u, error: %u'' @ [10])"
  by code_simp+

text \<open>
  An exception always ends with a signal for the process that caused it: the message is printed
  (no conversion of the two formats is incomplete), then exactly the divide-by-zero signal, for
  exception 0, or the segmentation-fault signal, for every other one, is added to the pending
  signals of the running process; no other process is touched.
\<close>

lemma exception_raises_signal:
  "\<exists>s'. exception_handler irq errorcode cr2 s = Some s' \<and> cur s' = cur s
     \<and> pcbs s' = (pcbs s)(cur s := (pcbs s (cur s))\<lparr>signals := signals (pcbs s (cur s)) OR
          SIG_FLAG (signum_of (if irq = 0 then SIG_DIV_ZERO else SIG_SEGFAULT))\<rparr>)"
proof -
  define fmt where "fmt = (if irq = 14 then ascii ''exception: irq: %u, error: %u, addr: 0x%#x'' @ [10]
      else ascii ''exception: irq: %u, error: %u'' @ [10])"
  define as where "as = (if irq = 14 then [irq, errorcode, cr2] else [irq, errorcode])"
  have "fmt_ok fmt" using exception_formats by (simp add: fmt_def)
  then obtain s1 where s1: "printf_loop 0 (\<lambda>i. as ! i) fmt 0 s = Some s1" using printf_total(1) by blast
  have "term_sys.more s1 = term_sys.more s" using printf_more(1) [of s 0 "\<lambda>i. as ! i" fmt 0] s1 by (simp add: keeps_more_def)
  then have m: "pcbs s1 = pcbs s" "cur s1 = cur s" by (rule more_pcbs)+
  have "exception_handler irq errorcode cr2 s = Some (raise_signal (if irq = 0 then SIG_DIV_ZERO else SIG_SEGFAULT) (cur s1) s1)"
  proof (cases "irq = 14")
    case True
    then show ?thesis using s1 unfolding fmt_def as_def by (simp only: exception_handler_def printf_def simp_thms if_True option.case prod.case)
  next
    case False
    then show ?thesis using s1 unfolding fmt_def as_def by (simp only: exception_handler_def printf_def simp_thms if_False option.case prod.case)
  qed
  then show ?thesis using m by (simp add: raise_signal_def)
qed

end
