(* ===== verification/Ulib.thy ===== *)
theory Ulib
  imports Lib
begin

text \<open>
  The support library of the user programs (\<^verbatim>\<open>src/syscalls/ece391support.c\<close>) on the memory of a
  process. The loops of \<^verbatim>\<open>ece391_itoa\<close> and \<^verbatim>\<open>ece391_strrev\<close> are the ones of the kernel's library and
  share its definitions. A scan that does not end is \<open>None\<close>.
\<close>

partial_function (option) ece391_strlen_loop :: "mem \<Rightarrow> addr \<Rightarrow> nat \<Rightarrow> nat option" where
  "ece391_strlen_loop m s len = (if m s \<noteq> 0 then ece391_strlen_loop m (s + 1) (u32 (len + 1)) else Some len)"

definition ece391_strlen :: "mem \<Rightarrow> addr \<Rightarrow> nat option" where
  "ece391_strlen m s = ece391_strlen_loop m s 0"

partial_function (option) ece391_strcpy :: "mem \<Rightarrow> addr \<Rightarrow> addr \<Rightarrow> mem option" where
  "ece391_strcpy m dst src =
     (let m' = m(dst := m src) in if m' dst \<noteq> 0 then ece391_strcpy m' (dst + 1) (src + 1) else Some m')"

partial_function (option) ece391_strcmp :: "mem \<Rightarrow> addr \<Rightarrow> addr \<Rightarrow> int option" where
  "ece391_strcmp m s1 s2 =
     (if m s1 = m s2 then (if m s1 = 0 then Some 0 else ece391_strcmp m (s1 + 1) (s2 + 1))
      else Some (uint (m s1) - uint (m s2)))"

fun ece391_strncmp :: "mem \<Rightarrow> addr \<Rightarrow> addr \<Rightarrow> nat \<Rightarrow> int" where
  "ece391_strncmp m s1 s2 0 = 0"
| "ece391_strncmp m s1 s2 (Suc n) =
     (if m s1 = m s2 then (if m s1 = 0 \<or> n = 0 then 0 else ece391_strncmp m (s1 + 1) (s2 + 1) n)
      else uint (m s1) - uint (m s2))"

definition ece391_strrev :: "mem \<Rightarrow> addr \<Rightarrow> mem option" where
  "ece391_strrev m s =
     (case ece391_strlen m s of
        None \<Rightarrow> None
      | Some n \<Rightarrow> let e = s32 (int n - 1) in if e \<le> 0 then Some m else Some (strrev_loop m s 0 e))"

definition ece391_itoa :: "mem \<Rightarrow> nat \<Rightarrow> addr \<Rightarrow> int \<Rightarrow> mem option" where
  "ece391_itoa m val buf radix =
     (if val = 0 then Some (m(buf := 48, buf + 1 := 0))
      else case itoa_loop m buf val (to_u32 radix) of
             None \<Rightarrow> None
           | Some (m', newbuf) \<Rightarrow> ece391_strrev (m'(newbuf := 0)) buf)"

subsection \<open>Specifications are met\<close>

lemma store_list_Cons: "store_list m a (x # xs) = store_list (m(a := x)) (a + 1) xs"
  by (auto simp: store_list_def fun_eq_iff nth_Cons' diff_diff_eq)

lemma uint_byte_0: "uint (x :: byte) = 0 \<longleftrightarrow> x = 0"
  by (simp add: uint_0_iff)

lemma uint_byte_eq: "uint (x :: byte) = uint y \<longleftrightarrow> x = y"
  by (simp add: word_uint_eq_iff)

lemma ece391_strlen_loop_cstr:
  "cstr m s xs \<Longrightarrow> n + length xs < 2 ^ 32 \<Longrightarrow> ece391_strlen_loop m s n = Some (n + length xs)"
proof (induction xs arbitrary: s n)
  case Nil
  then show ?case by (subst ece391_strlen_loop.simps) (simp add: cstr_def)
next
  case (Cons x xs)
  then have "cstr m (s + 1) xs" "m s \<noteq> 0" by (auto simp: cstr_def load_list_Suc)
  then show ?case using Cons.IH [of "s + 1" "n + 1"] Cons.prems(2) by (subst ece391_strlen_loop.simps) (simp add: u32_def)
qed

lemma ece391_strlen_cstr: "cstr m s xs \<Longrightarrow> length xs < 2 ^ 32 \<Longrightarrow> ece391_strlen m s = Some (length xs)"
  using ece391_strlen_loop_cstr [of m s xs 0] by (simp add: ece391_strlen_def)

text \<open>The copy may overlap when it goes down, as in the line buffer of \<^verbatim>\<open>grep\<close>.\<close>

lemma ece391_strcpy_cstr:
  assumes "cstr m src xs" "dst < src \<or> src + length xs < dst"
  shows "ece391_strcpy m dst src = Some (store_list m dst (xs @ [0]))"
  using assms
proof (induction xs arbitrary: m dst src)
  case Nil
  then show ?case by (subst ece391_strcpy.simps) (simp add: cstr_def store_list_Cons)
next
  case (Cons x xs)
  let ?m = "m(dst := x)"
  have x: "m src = x" "x \<noteq> 0" and c: "cstr m (src + 1) xs" using Cons.prems(1) by (auto simp: cstr_def load_list_Suc)
  have "cstr ?m (src + 1) xs" using c Cons.prems(2) by (intro cstr_cong [OF c]) auto
  moreover have "dst + 1 < src + 1 \<or> src + 1 + length xs < dst + 1" using Cons.prems(2) by auto
  ultimately have "ece391_strcpy ?m (dst + 1) (src + 1) = Some (store_list ?m (dst + 1) (xs @ [0]))" by (rule Cons.IH)
  then show ?case using x by (subst ece391_strcpy.simps) (simp add: store_list_Cons)
qed

lemma ece391_strncmp_prefix:
  assumes "cstr m s1 xs" "cstr m s2 ys"
  shows "ece391_strncmp m s1 s2 (length ys) = 0 \<longleftrightarrow> take (length ys) xs = ys"
  using assms
proof (induction ys arbitrary: s1 s2 xs)
  case Nil
  then show ?case by simp
next
  case (Cons y ys)
  then have y: "m s2 = y" "y \<noteq> 0" "cstr m (s2 + 1) ys" by (auto simp: cstr_def load_list_Suc)
  show ?case
  proof (cases xs)
    case Nil
    then show ?thesis using Cons.prems y by (simp add: cstr_def uint_byte_0)
  next
    case [simp]: (Cons x xs')
    then have x: "m s1 = x" "x \<noteq> 0" "cstr m (s1 + 1) xs'" using Cons.prems by (auto simp: cstr_def load_list_Suc)
    show ?thesis using Cons.IH [OF x(3) y(3)] x y by (auto simp: uint_byte_eq)
  qed
qed

lemma ece391_strcmp_cstr:
  assumes "cstr m s1 xs" "cstr m s2 ys"
  shows "\<exists>v. ece391_strcmp m s1 s2 = Some v \<and> (v = 0 \<longleftrightarrow> xs = ys)"
  using assms
proof (induction ys arbitrary: s1 s2 xs)
  case Nil
  then show ?case by (subst ece391_strcmp.simps) (cases xs, auto simp: cstr_def load_list_Suc uint_byte_0)
next
  case (Cons y ys)
  then have y: "m s2 = y" "y \<noteq> 0" "cstr m (s2 + 1) ys" by (auto simp: cstr_def load_list_Suc)
  show ?case
  proof (cases xs)
    case Nil
    then show ?thesis using Cons.prems y by (subst ece391_strcmp.simps) (simp add: cstr_def uint_byte_0)
  next
    case [simp]: (Cons x xs')
    then have x: "m s1 = x" "x \<noteq> 0" "cstr m (s1 + 1) xs'" using Cons.prems by (auto simp: cstr_def load_list_Suc)
    show ?thesis using Cons.IH [OF x(3) y(3)] x y by (subst ece391_strcmp.simps) (auto simp: uint_byte_eq)
  qed
qed

lemma ece391_strrev_cstr:
  assumes "cstr m s xs" "length xs < 2 ^ 31"
  shows "ece391_strrev m s = strrev m s"
proof -
  have l: "ece391_strlen m s = Some (length xs)" "strlen m s = Some (length xs)"
    using ece391_strlen_cstr [OF assms(1)] strlen_cstr [OF assms(1)] assms(2) by simp_all
  have e: "s32 (int (length xs) - 1) = int (length xs) - 1" "s32 (int (length xs)) = int (length xs)"
    using assms(2) by (auto intro!: s32_id)
  show ?thesis by (simp add: ece391_strrev_def strrev_def l e Let_def strrev_loop.simps)
qed

end
