(* ===== verification/Programs.thy ===== *)
theory Programs
  imports Syscall Ulib "HOL-Library.Sublist" "HOL-Library.Monad_Syntax"
begin

text \<open>
  The user programs (\<^verbatim>\<open>src/syscalls/\<close>: \<^verbatim>\<open>ece391cat.c\<close>, \<^verbatim>\<open>ece391ls.c\<close>, \<^verbatim>\<open>ece391grep.c\<close>, \<^verbatim>\<open>ece391shell.c\<close>,
  \<^verbatim>\<open>ece391counter.c\<close>, \<^verbatim>\<open>ece391hello.c\<close>). A program is a function over an operating system \<open>S\<close>, the record
  of the system calls it makes and of its memory; \<open>kernel_sys\<close> is the kernel of the theories below.
  The addresses of a program's arrays are arguments, and \<open>lit\<close> gives the addresses of its string
  literals, which the compiler chooses.

  A result \<open>None\<close> means that the program has not ended: it sleeps in a system call or loops.
\<close>

abbreviation (input) nl :: "string \<Rightarrow> string" where "nl x \<equiv> x @ [CHR 0x0A]"

record 's sys =
  s_mem :: "'s \<Rightarrow> mem"
  s_store :: "mem \<Rightarrow> 's \<Rightarrow> 's"
  ece391_read :: "int \<Rightarrow> addr \<Rightarrow> nat \<Rightarrow> 's \<Rightarrow> (int \<times> 's) option"
  ece391_write :: "int \<Rightarrow> addr \<Rightarrow> nat \<Rightarrow> 's \<Rightarrow> int \<times> 's"
  ece391_open :: "addr \<Rightarrow> 's \<Rightarrow> (int \<times> 's) option"
  ece391_close :: "int \<Rightarrow> 's \<Rightarrow> int \<times> 's"
  ece391_getargs :: "addr \<Rightarrow> nat \<Rightarrow> 's \<Rightarrow> int \<times> 's"
  ece391_execute :: "addr \<Rightarrow> 's \<Rightarrow> (int \<times> 's) option"

text \<open>A store to one byte of the program's memory.\<close>

definition poke_user :: "'s sys \<Rightarrow> addr \<Rightarrow> byte \<Rightarrow> 's \<Rightarrow> 's" where
  "poke_user S a c s = s_store S ((s_mem S s)(a := c)) s"

definition ece391_fdputs :: "'s sys \<Rightarrow> int \<Rightarrow> addr \<Rightarrow> 's \<Rightarrow> 's option" where
  "ece391_fdputs S fd p s = do { n \<leftarrow> ece391_strlen (s_mem S s) p; Some (snd (ece391_write S fd p n s)) }"

text \<open>A message, then the end of the program with a status.\<close>

definition fail_with :: "'s sys \<Rightarrow> addr \<Rightarrow> int \<Rightarrow> 's \<Rightarrow> (int \<times> 's) option" where
  "fail_with S msg status s = do { s' \<leftarrow> ece391_fdputs S 1 msg s; Some (status, s') }"

subsection \<open>\<^verbatim>\<open>cat\<close> and \<^verbatim>\<open>ls\<close>\<close>

partial_function (option) cat_loop :: "'s sys \<Rightarrow> (string \<Rightarrow> addr) \<Rightarrow> addr \<Rightarrow> int \<Rightarrow> 's \<Rightarrow> (int \<times> 's) option" where
  "cat_loop S lit buf fd s =
     do { (cnt, s1) \<leftarrow> ece391_read S fd buf 1024 s;
          if cnt = 0 then Some (0, s1)
          else if cnt = -1 then fail_with S (lit (nl ''file read failed'')) 3 s1
          else case ece391_write S 1 buf (nat cnt) s1 of
                 (v, s2) \<Rightarrow> if v = -1 then Some (3, s2) else cat_loop S lit buf fd s2 }"

definition cat_main :: "'s sys \<Rightarrow> (string \<Rightarrow> addr) \<Rightarrow> addr \<Rightarrow> 's \<Rightarrow> (int \<times> 's) option" where
  "cat_main S lit buf s =
     (case ece391_getargs S buf 1024 s of
        (v, s1) \<Rightarrow>
          if v \<noteq> 0 then fail_with S (lit (nl ''could not read arguments'')) 3 s1
          else do { (fd, s2) \<leftarrow> ece391_open S buf s1;
                    if fd = -1 then fail_with S (lit (nl ''file not found'')) 2 s2 else cat_loop S lit buf fd s2 })"

partial_function (option) ls_loop :: "'s sys \<Rightarrow> (string \<Rightarrow> addr) \<Rightarrow> addr \<Rightarrow> int \<Rightarrow> 's \<Rightarrow> (int \<times> 's) option" where
  "ls_loop S lit buf fd s =
     do { (cnt, s1) \<leftarrow> ece391_read S fd buf 32 s;
          if cnt = 0 then Some (0, s1)
          else if cnt = -1 then fail_with S (lit (nl ''directory entry read failed'')) 3 s1
          else case ece391_write S 1 buf (nat (cnt + 1)) (poke_user S (buf + nat cnt) 10 s1) of
                 (v, s2) \<Rightarrow> if v = -1 then Some (3, s2) else ls_loop S lit buf fd s2 }"

definition ls_main :: "'s sys \<Rightarrow> (string \<Rightarrow> addr) \<Rightarrow> addr \<Rightarrow> 's \<Rightarrow> (int \<times> 's) option" where
  "ls_main S lit buf s =
     do { (fd, s1) \<leftarrow> ece391_open S (lit ''.'') s;
          if fd = -1 then fail_with S (lit (nl ''directory open failed'')) 2 s1 else ls_loop S lit buf fd s1 }"

subsection \<open>\<^verbatim>\<open>grep\<close>\<close>

abbreviation (input) BUFSIZE :: nat where "BUFSIZE \<equiv> 1024"

function line_scan :: "mem \<Rightarrow> addr \<Rightarrow> nat \<Rightarrow> nat \<Rightarrow> nat" where
  "line_scan m data lst line_end =
     (if line_end < lst \<and> m (data + line_end) \<noteq> 10 then line_scan m data lst (line_end + 1) else line_end)"
  by pat_completeness auto

termination line_scan
  by (relation "measure (\<lambda>(m, d, l, e). l - e)") auto

declare line_scan.simps [simp del]

text \<open>
  The loop over \<^verbatim>\<open>check\<close> ends at the first place where the text is found. The first test compares the
  signed \<^verbatim>\<open>char\<close> \<^verbatim>\<open>s[0]\<close> with the unsigned \<^verbatim>\<open>data[check]\<close>.
\<close>

definition line_matches :: "mem \<Rightarrow> addr \<Rightarrow> addr \<Rightarrow> nat \<Rightarrow> nat \<Rightarrow> nat \<Rightarrow> bool" where
  "line_matches m data srch s_len line_start line_end \<longleftrightarrow>
     (\<exists>check \<in> set [line_start..<line_end].
        sint (m srch) = uint (m (data + check)) \<and> ece391_strncmp m (data + check) srch s_len = 0)"

definition print_match :: "'s sys \<Rightarrow> (string \<Rightarrow> addr) \<Rightarrow> addr \<Rightarrow> addr \<Rightarrow> 's \<Rightarrow> 's option" where
  "print_match S lit fname line s =
     do { s1 \<leftarrow> ece391_fdputs S 1 fname s;
          s2 \<leftarrow> ece391_fdputs S 1 (lit '':'') s1;
          s3 \<leftarrow> ece391_fdputs S 1 line s2;
          ece391_fdputs S 1 (lit (nl [])) s3 }"

text \<open>The lines in the buffer; the result is the new \<^verbatim>\<open>last\<close>.\<close>

partial_function (option) grep_lines ::
  "'s sys \<Rightarrow> (string \<Rightarrow> addr) \<Rightarrow> addr \<Rightarrow> addr \<Rightarrow> nat \<Rightarrow> addr \<Rightarrow> int \<Rightarrow> nat \<Rightarrow> nat \<Rightarrow> 's \<Rightarrow> (nat \<times> 's) option" where
  "grep_lines S lit data srch s_len fname cnt lst line_start s =
     (let line_end = line_scan (s_mem S s) data lst line_start in
      if s_mem S s (data + line_end) \<noteq> 10 \<and> cnt \<noteq> 0 \<and> line_start \<noteq> 0 then
        do { m \<leftarrow> ece391_strcpy ((s_mem S s)(data + line_end := 0)) data (data + line_start);
             Some (lst - line_start, s_store S m s) }
      else
        let s1 = poke_user S (data + line_end) 0 s in
        do { s2 \<leftarrow> (if line_matches (s_mem S s1) data srch s_len line_start line_end
                     then print_match S lit fname (data + line_start) s1 else Some s1);
             (if lst \<le> line_end + 1 then Some (0, s2)
              else grep_lines S lit data srch s_len fname cnt lst (line_end + 1) s2) })"

partial_function (option) grep_reads ::
  "'s sys \<Rightarrow> (string \<Rightarrow> addr) \<Rightarrow> addr \<Rightarrow> addr \<Rightarrow> nat \<Rightarrow> addr \<Rightarrow> int \<Rightarrow> nat \<Rightarrow> 's \<Rightarrow> (int \<times> 's) option" where
  "grep_reads S lit data srch s_len fname fd lst s =
     do { (cnt, s1) \<leftarrow> ece391_read S fd (data + lst) (BUFSIZE - lst) s;
          if cnt = -1 then fail_with S (lit (nl ''file read failed'')) (-1) s1
          else do { (lst', s2) \<leftarrow> grep_lines S lit data srch s_len fname cnt (lst + nat cnt) 0 s1;
                    if cnt = 0 then Some (0, s2)
                    else grep_reads S lit data srch s_len fname fd lst' s2 } }"

definition do_one_file :: "'s sys \<Rightarrow> (string \<Rightarrow> addr) \<Rightarrow> addr \<Rightarrow> addr \<Rightarrow> addr \<Rightarrow> 's \<Rightarrow> (int \<times> 's) option" where
  "do_one_file S lit data srch fname s =
     do { s_len \<leftarrow> ece391_strlen (s_mem S s) srch;
          (fd, s1) \<leftarrow> ece391_open S fname s;
          if fd = -1 then fail_with S (lit (nl ''file open failed'')) (-1) s1
          else do { (r, s2) \<leftarrow> grep_reads S lit data srch s_len fname fd 0 s1;
                    if r = -1 then Some (-1, s2)
                    else case ece391_close S fd s2 of
                           (v, s3) \<Rightarrow> if v = -1 then fail_with S (lit (nl ''file close failed'')) (-1) s3 else Some (0, s3) } }"

partial_function (option) grep_files ::
  "'s sys \<Rightarrow> (string \<Rightarrow> addr) \<Rightarrow> addr \<Rightarrow> addr \<Rightarrow> addr \<Rightarrow> int \<Rightarrow> 's \<Rightarrow> (int \<times> 's) option" where
  "grep_files S lit data srch buf fd s =
     do { (cnt, s1) \<leftarrow> ece391_read S fd buf 32 s;
          if cnt = 0 then Some (0, s1)
          else if cnt = -1 then fail_with S (lit (nl ''directory entry read failed'')) 3 s1
          else if s_mem S s1 buf = 46 then grep_files S lit data srch buf fd s1
          else do { (r, s2) \<leftarrow> do_one_file S lit data srch buf (poke_user S (buf + nat cnt) 0 s1);
                    if r \<noteq> 0 then Some (3, s2) else grep_files S lit data srch buf fd s2 } }"

definition grep_main :: "'s sys \<Rightarrow> (string \<Rightarrow> addr) \<Rightarrow> addr \<Rightarrow> addr \<Rightarrow> addr \<Rightarrow> 's \<Rightarrow> (int \<times> 's) option" where
  "grep_main S lit data search buf s =
     (case ece391_getargs S search BUFSIZE s of
        (v, s1) \<Rightarrow>
          if v \<noteq> 0 then fail_with S (lit (nl ''could not read argument'')) 3 s1
          else do { (fd, s2) \<leftarrow> ece391_open S (lit ''.'') s1;
                    if fd = -1 then fail_with S (lit (nl ''directory open failed'')) 2 s2
                    else grep_files S lit data search buf fd s2 })"

subsection \<open>\<^verbatim>\<open>shell\<close>, \<^verbatim>\<open>counter\<close> and \<^verbatim>\<open>hello\<close>\<close>

definition shell_report :: "'s sys \<Rightarrow> (string \<Rightarrow> addr) \<Rightarrow> int \<Rightarrow> 's \<Rightarrow> 's option" where
  "shell_report S lit rval s =
     (if rval = -1 then ece391_fdputs S 1 (lit (nl ''no such command'')) s
      else if rval = 256 then ece391_fdputs S 1 (lit (nl ''program terminated by exception'')) s
      else if rval \<noteq> 0 then ece391_fdputs S 1 (lit (nl ''program terminated abnormally'')) s
      else Some s)"

partial_function (option) shell_loop :: "'s sys \<Rightarrow> (string \<Rightarrow> addr) \<Rightarrow> addr \<Rightarrow> 's \<Rightarrow> (int \<times> 's) option" where
  "shell_loop S lit buf s =
     do { s1 \<leftarrow> ece391_fdputs S 1 (lit ''391OS> '') s;
          (cnt, s2) \<leftarrow> ece391_read S 0 buf (BUFSIZE - 1) s1;
          if cnt = -1 then fail_with S (lit (nl ''read from keyboard failed'')) 3 s2
          else
            let n = (if cnt > 0 \<and> s_mem S s2 (buf + nat (cnt - 1)) = 10 then cnt - 1 else cnt);
                s3 = poke_user S (buf + nat n) 0 s2
            in do { v \<leftarrow> ece391_strcmp (s_mem S s3) buf (lit ''exit'');
                    if v = 0 then Some (0, s3)
                    else if s_mem S s3 buf = 0 then shell_loop S lit buf s3
                    else do { (rval, s4) \<leftarrow> ece391_execute S buf s3;
                              s5 \<leftarrow> shell_report S lit rval s4;
                              shell_loop S lit buf s5 } } }"

definition shell_main :: "'s sys \<Rightarrow> (string \<Rightarrow> addr) \<Rightarrow> addr \<Rightarrow> 's \<Rightarrow> (int \<times> 's) option" where
  "shell_main S lit buf s = do { s1 \<leftarrow> ece391_fdputs S 1 (lit (nl ''Starting 391 Shell'')) s; shell_loop S lit buf s1 }"

text \<open>The numbers from \<open>i + 1\<close> on, \<open>n\<close> of them.\<close>

fun count_loop :: "'s sys \<Rightarrow> (string \<Rightarrow> addr) \<Rightarrow> addr \<Rightarrow> nat \<Rightarrow> nat \<Rightarrow> 's \<Rightarrow> 's option" where
  "count_loop S lit buf i 0 s = Some s"
| "count_loop S lit buf i (Suc n) s =
     do { m \<leftarrow> ece391_itoa (s_mem S s) (i + 1) buf 10;
          s1 \<leftarrow> ece391_fdputs S 1 buf (s_store S m s);
          s2 \<leftarrow> ece391_fdputs S 1 (lit (nl [])) s1;
          count_loop S lit buf (i + 1) n s2 }"

definition counter_max :: "byte \<Rightarrow> nat" where
  "counter_max c = (if c = 48 then 100 else if c = 49 then 10000 else if c = 50 then 100000 else 0)"

text \<open>\<^verbatim>\<open>cnt\<close> is unsigned here, and the test for -1 compares it with the converted constant.\<close>

definition counter_main :: "'s sys \<Rightarrow> (string \<Rightarrow> addr) \<Rightarrow> addr \<Rightarrow> 's \<Rightarrow> (int \<times> 's) option" where
  "counter_main S lit buf s =
     do { s1 \<leftarrow> ece391_fdputs S 1 (lit (nl ''Enter the Test Number: (0): 100, (1): 10000, (2): 100000'')) s;
          (cnt, s2) \<leftarrow> ece391_read S 0 buf (BUFSIZE - 1) s1;
          if cnt = -1 then fail_with S (lit (nl ''Can't read the number from keyboard.'')) 3 s2
          else
            let s3 = poke_user S (buf + to_u32 cnt) 0 s2; m = s_mem S s3
            in do { n \<leftarrow> ece391_strlen m buf;
                    if n > 2 \<or> (n = 2 \<and> (m buf < 48 \<or> m buf > 50)) then fail_with S (lit (nl ''Wrong Choice!'')) 0 s3
                    else do { s4 \<leftarrow> count_loop S lit buf 0 (counter_max (m buf)) s3; Some (0, s4) } } }"

definition hello_main :: "'s sys \<Rightarrow> (string \<Rightarrow> addr) \<Rightarrow> addr \<Rightarrow> 's \<Rightarrow> (int \<times> 's) option" where
  "hello_main S lit buf s =
     do { s1 \<leftarrow> ece391_fdputs S 1 (lit ''Hi, what's your name? '') s;
          (cnt, s2) \<leftarrow> ece391_read S 0 buf (BUFSIZE - 1) s1;
          if cnt = -1 then fail_with S (lit (nl ''Can't read name from keyboard.'')) 3 s2
          else do { s3 \<leftarrow> ece391_fdputs S 1 (lit ''Hello, '') (poke_user S (buf + nat cnt) 0 s2);
                    s4 \<leftarrow> ece391_fdputs S 1 buf s3;
                    Some (0, s4) } }"

subsection \<open>The kernel as the operating system\<close>

text \<open>
  What a running program is: the kernel state, the interrupts that will be served while it sleeps,
  the value the clock's port returns, and all bytes written to descriptor 1 so far.
\<close>

record 'a user =
  uk :: "'a kernel_scheme"
  u_irqs :: "'a irqs"
  u_port :: byte
  uout :: "byte list"

definition user_read :: "int \<Rightarrow> addr \<Rightarrow> nat \<Rightarrow> 'a user \<Rightarrow> (int \<times> 'a user) option" where
  "user_read fd buf n u =
     (case syscall_read fd buf n (u_irqs u) (uk u) of
        None \<Rightarrow> None
      | Some (v, k, is) \<Rightarrow> Some (v, u\<lparr>uk := k, u_irqs := is\<rparr>))"

definition user_write :: "int \<Rightarrow> addr \<Rightarrow> nat \<Rightarrow> 'a user \<Rightarrow> int \<times> 'a user" where
  "user_write fd buf n u =
     (case syscall_write (u_port u) fd buf n (uk u) of
        (v, k) \<Rightarrow> (v, u\<lparr>uk := k, uout := uout u @ (if fd = 1 then load_list (mem (uk u)) buf n else [])\<rparr>))"

text \<open>
  What \<^verbatim>\<open>execute\<close> needs beside the state: the local arrays of \<^verbatim>\<open>_syscall_execute\<close>, and what the machine code
  of an entered program does, from its first instruction to its call of \<^verbatim>\<open>halt\<close> (or to the exception that
  ends it, with status 256): the status, the registers then, and the state. \<open>None\<close>: the program does not end.
\<close>

record 'a children =
  c_locals :: exec_locals
  c_run :: "'a user \<Rightarrow> (nat \<times> hw_context_t \<times> 'a user) option"

definition user_execute :: "'a children \<Rightarrow> addr \<Rightarrow> 'a user \<Rightarrow> (int \<times> 'a user) option" where
  "user_execute run command u =
     (case syscall_execute (c_locals run) command (uk u) of
        Some (Returns v, k) \<Rightarrow> Some (v, u\<lparr>uk := k\<rparr>)
      | Some (Enters entry, k) \<Rightarrow>
          do { (status, c, u1) \<leftarrow> c_run run (u\<lparr>uk := k\<rparr>);
               case syscall_halt_with (u_port u1) status c (uk u1) of
                 (Resumes v, c', k') \<Rightarrow> Some (int v, u1\<lparr>uk := k'\<rparr>)
               | _ \<Rightarrow> None }
      | _ \<Rightarrow> None)"

definition kernel_sys :: "'a children \<Rightarrow> 'a user sys" where
  "kernel_sys run =
     \<lparr>s_mem = (\<lambda>u. mem (uk u)),
      s_store = (\<lambda>m u. u\<lparr>uk := (uk u)\<lparr>mem := m\<rparr>\<rparr>),
      ece391_read = user_read,
      ece391_write = user_write,
      ece391_open = (\<lambda>fname u. map_option (\<lambda>(v, k). (v, u\<lparr>uk := k\<rparr>)) (syscall_open fname (uk u))),
      ece391_close = (\<lambda>fd u. case syscall_close (u_port u) fd (uk u) of (v, k) \<Rightarrow> (v, u\<lparr>uk := k\<rparr>)),
      ece391_getargs = (\<lambda>buf n u. case syscall_getargs buf n (uk u) of (v, k) \<Rightarrow> (v, u\<lparr>uk := k\<rparr>)),
      ece391_execute = user_execute run\<rparr>"

text \<open>For programs that start no others.\<close>

definition no_children :: "unit children" where
  "no_children = \<lparr>c_locals = demo_locals, c_run = (\<lambda>_. None)\<rparr>"

subsection \<open>Specifications\<close>

text \<open>The lines of a text, without their newlines; a last line need not end in one.\<close>

function text_lines :: "byte list \<Rightarrow> byte list list" where
  "text_lines xs =
     (if xs = [] then [] else takeWhile (\<lambda>c. c \<noteq> 10) xs # text_lines (drop 1 (dropWhile (\<lambda>c. c \<noteq> 10) xs)))"
  by pat_completeness auto

termination text_lines
proof (relation "measure length")
  fix xs :: "byte list" assume "xs \<noteq> []"
  then show "(drop 1 (dropWhile (\<lambda>c. c \<noteq> 10) xs), xs) \<in> measure length"
    using length_dropWhile_le [of "\<lambda>c. c \<noteq> 10" xs] by (cases xs) (auto intro: le_less_trans [OF diff_le_self] less_le_trans)
qed simp

declare text_lines.simps [simp del]

text \<open>A text that begins with a byte of 128 or more is never found.\<close>

definition match_out :: "byte list \<Rightarrow> byte list \<Rightarrow> byte list \<Rightarrow> byte list" where
  "match_out fname pat l = (if sublist pat l \<and> hd pat < 128 then fname @ [58] @ l @ [10] else [])"

definition grep_out :: "byte list \<Rightarrow> byte list \<Rightarrow> byte list \<Rightarrow> byte list" where
  "grep_out fname pat xs = concat (map (match_out fname pat) (text_lines xs))"

text \<open>A string at \<open>p\<close> between \<open>lo\<close> and \<open>hi\<close>, away from the array \<open>data\<close> of \<^verbatim>\<open>grep\<close>.\<close>

definition str_in :: "nat \<Rightarrow> nat \<Rightarrow> addr \<Rightarrow> mem \<Rightarrow> addr \<Rightarrow> byte list \<Rightarrow> bool" where
  "str_in lo hi data m p xs \<longleftrightarrow>
     cstr m p xs \<and> lo \<le> p \<and> p + length xs < hi \<and> disjoint_ranges data (BUFSIZE + 1) p (length xs + 1)"

definition grep_env :: "nat \<Rightarrow> nat \<Rightarrow> (string \<Rightarrow> addr) \<Rightarrow> addr \<Rightarrow> addr \<Rightarrow> byte list \<Rightarrow> addr \<Rightarrow> byte list \<Rightarrow> mem \<Rightarrow> bool" where
  "grep_env lo hi lit data srch pat fname fn m \<longleftrightarrow>
     lo \<le> data \<and> data + (BUFSIZE + 1) \<le> hi \<and> m (data + BUFSIZE) \<noteq> 10
     \<and> str_in lo hi data m srch pat \<and> str_in lo hi data m fname fn
     \<and> str_in lo hi data m (lit '':'') [58] \<and> str_in lo hi data m (lit (nl [])) [10]"

subsection \<open>Lines and matches\<close>

lemma text_lines_Nil [simp]: "text_lines [] = []"
  by (simp add: text_lines.simps)

lemma text_lines_newline: "10 \<notin> set l \<Longrightarrow> text_lines (l @ 10 # xs) = l # text_lines xs"
proof -
  assume "10 \<notin> set l"
  then have "takeWhile (\<lambda>c. c \<noteq> 10) (l @ 10 # xs) = l" "dropWhile (\<lambda>c. c \<noteq> 10) (l @ 10 # xs) = 10 # xs"
    by (induction l) auto
  then show ?thesis by (subst text_lines.simps) simp
qed

lemma text_lines_last: "10 \<notin> set l \<Longrightarrow> l \<noteq> [] \<Longrightarrow> text_lines l = [l]"
proof -
  assume l: "10 \<notin> set l" "l \<noteq> []"
  then have "takeWhile (\<lambda>c. c \<noteq> 10) l = l" "dropWhile (\<lambda>c. c \<noteq> 10) l = []" by (auto simp: dropWhile_eq_Nil_conv)
  then show ?thesis using l(2) by (subst text_lines.simps) (simp only: drop_Nil text_lines_Nil if_False)
qed

lemma text_lines_append:
  "p = [] \<or> last p = 10 \<or> ys = [] \<Longrightarrow> text_lines (p @ ys) = text_lines p @ text_lines ys"
proof (induction "length p" arbitrary: p rule: less_induct)
  case less
  show ?case
  proof (cases "10 \<in> set p")
    case True
    then obtain l p' where p: "p = l @ 10 # p'" "10 \<notin> set l" by (metis split_list_first)
    have "p' = [] \<or> last p' = 10 \<or> ys = []" using less(2) p(1) by (auto split: if_splits)
    then have "text_lines (p' @ ys) = text_lines p' @ text_lines ys" by (intro less(1)) (simp_all add: p(1))
    then show ?thesis using text_lines_newline [OF p(2)] by (simp add: p(1))
  next
    case False
    then have "p = [] \<or> ys = []" using less(2) last_in_set [of p] by metis
    then show ?thesis by auto
  qed
qed

lemma grep_out_Nil [simp]: "grep_out f pat [] = []"
  by (simp add: grep_out_def)

lemma grep_out_append:
  "p = [] \<or> last p = 10 \<or> ys = [] \<Longrightarrow> grep_out f pat (p @ ys) = grep_out f pat p @ grep_out f pat ys"
  by (simp add: grep_out_def text_lines_append)

lemma grep_out_newline: "10 \<notin> set l \<Longrightarrow> grep_out f pat (l @ 10 # xs) = match_out f pat l @ grep_out f pat xs"
  by (simp add: grep_out_def text_lines_newline)

lemma grep_out_last: "10 \<notin> set l \<Longrightarrow> pat \<noteq> [] \<Longrightarrow> grep_out f pat l = match_out f pat l"
  by (cases "l = []") (simp_all add: grep_out_def text_lines_last match_out_def)

lemma line_scan_eq:
  "load_list m (data + e) (length w) = w \<Longrightarrow> line_scan m data (e + length w) e = e + length (takeWhile (\<lambda>c. c \<noteq> 10) w)"
proof (induction w arbitrary: e)
  case Nil
  then show ?case by (simp add: line_scan.simps)
next
  case (Cons x w)
  then have "m (data + e) = x" "load_list m (data + (e + 1)) (length w) = w" by (simp_all add: load_list_Suc)
  then show ?case using Cons.IH [of "e + 1"] by (subst line_scan.simps) simp
qed

lemma cstr_drop: "cstr m p xs \<Longrightarrow> i \<le> length xs \<Longrightarrow> cstr m (p + i) (drop i xs)"
proof (induction i arbitrary: p xs)
  case (Suc i)
  then obtain x ys where "xs = x # ys" by (cases xs) auto
  then have "cstr m (p + 1) ys" using Suc.prems(1) by (auto simp: cstr_def load_list_Suc)
  then show ?case using Suc.IH [of "p + 1" ys] Suc.prems(2) \<open>xs = x # ys\<close> by simp
qed simp

lemma sublist_nth: "sublist pat l \<longleftrightarrow> (\<exists>i \<le> length l. take (length pat) (drop i l) = pat)"
proof
  assume "sublist pat l"
  then obtain ys zs where "l = ys @ pat @ zs" by (auto simp: sublist_def)
  then show "\<exists>i \<le> length l. take (length pat) (drop i l) = pat" by (intro exI [of _ "length ys"]) simp
next
  assume "\<exists>i \<le> length l. take (length pat) (drop i l) = pat"
  then obtain i where "take (length pat) (drop i l) = pat" by blast
  then have "l = take i l @ pat @ drop (length pat) (drop i l)" by (metis append_take_drop_id)
  then show "sublist pat l" unfolding sublist_def by blast
qed

lemma sint_eq_uint: "sint x = uint y \<longleftrightarrow> x = y \<and> x < 128" for x y :: byte
proof -
  have "sint x = (uint x + 128) mod 256 - 128" by (simp add: sint_uint signed_take_bit_eq_take_bit_shift take_bit_eq_mod)
  moreover have "0 \<le> uint x" "uint x < 256" "0 \<le> uint y" using uint_lt2p [of x] by simp_all
  moreover have "(uint x + 128) mod 256 = (uint x + 128) - 256" if "\<not> uint x < 128"
    using that \<open>uint x < 256\<close> minus_mod_self2 [of "uint x + 128" 256] by simp
  ultimately have "sint x = (if uint x < 128 then uint x else uint x - 256)" by simp
  moreover have "uint x - 256 \<noteq> uint y" using \<open>uint x < 256\<close> \<open>0 \<le> uint y\<close> by linarith
  ultimately show ?thesis by (auto simp: word_uint_eq_iff word_less_def)
qed

lemma line_matches_eq:
  assumes "cstr m (data + e) l" "cstr m srch pat" "pat \<noteq> []"
  shows "line_matches m data srch (length pat) e (e + length l) \<longleftrightarrow> sublist pat l \<and> hd pat < 128"
proof -
  have hd: "m srch = hd pat" using cstr_nth [OF assms(2), of 0] assms(3) by (simp add: hd_conv_nth)
  have at: "m srch = m (data + (e + i)) \<and> ece391_strncmp m (data + (e + i)) srch (length pat) = 0
      \<longleftrightarrow> take (length pat) (drop i l) = pat" if "i < length l" for i
  proof -
    have c: "cstr m (data + e + i) (drop i l)" using cstr_drop [OF assms(1)] that by simp
    have "m srch = pat ! 0" using cstr_nth [OF assms(2), of 0] assms(3) by simp
    moreover have "m (data + e + i) = drop i l ! 0" using cstr_nth [OF c, of 0] that by simp
    moreover have "take (length pat) (drop i l) = pat \<Longrightarrow> drop i l ! 0 = pat ! 0"
      using assms(3) by (metis length_greater_0_conv nth_take)
    ultimately show ?thesis using ece391_strncmp_prefix [OF c assms(2)] by (auto simp: add.assoc)
  qed
  have "line_matches m data srch (length pat) e (e + length l) \<longleftrightarrow>
      (\<exists>i < length l. (m srch = m (data + (e + i)) \<and> m srch < 128) \<and> ece391_strncmp m (data + (e + i)) srch (length pat) = 0)"
    unfolding line_matches_def sint_eq_uint by (metis add_less_cancel_left atLeastLessThan_iff atLeastLessThan_upt le_add1 le_iff_add)
  also have "\<dots> \<longleftrightarrow> (\<exists>i < length l. take (length pat) (drop i l) = pat) \<and> hd pat < 128" using at hd by auto
  also have "\<dots> \<longleftrightarrow> sublist pat l \<and> hd pat < 128"
    unfolding sublist_nth using assms(3) by (metis drop_all le_neq_implies_less linorder_not_le order_less_imp_le take_Nil)
  finally show ?thesis .
qed

subsection \<open>The interface the programs rely on\<close>

text \<open>
  \<open>looks s r ot\<close>: in state \<open>s\<close> the program still has \<open>r\<close> to read from descriptor \<open>fd\<close>, and \<open>ot\<close> has been
  written to descriptor 1. A write appends, a store changes memory, and neither changes anything
  else the program can see; its memory lies from \<open>lo\<close> to \<open>hi\<close>.
\<close>

locale out_io =
  fixes S :: "'s sys" and lo hi :: nat and looks :: "'s \<Rightarrow> 'r \<Rightarrow> byte list \<Rightarrow> bool"
  assumes hi_bound: "hi < 2 ^ 31"
    and write_law: "looks s r ot \<Longrightarrow> lo \<le> a \<Longrightarrow> a + n \<le> hi \<Longrightarrow>
      \<exists>s'. ece391_write S 1 a n s = (int n, s') \<and> looks s' r (ot @ load_list (s_mem S s) a n)
        \<and> (\<forall>x. lo \<le> x \<and> x < hi \<longrightarrow> s_mem S s' x = s_mem S s x)"
    and store_law: "looks s r ot \<Longrightarrow> \<forall>x. x < lo \<or> hi \<le> x \<longrightarrow> m x = s_mem S s x \<Longrightarrow>
      looks (s_store S m s) r ot \<and> s_mem S (s_store S m s) = m"
begin

lemma puts_law:
  assumes "looks s r ot" "cstr (s_mem S s) p xs" "lo \<le> p" "p + length xs < hi"
  shows "\<exists>s'. ece391_fdputs S 1 p s = Some s' \<and> looks s' r (ot @ xs)
    \<and> (\<forall>x. lo \<le> x \<and> x < hi \<longrightarrow> s_mem S s' x = s_mem S s x)"
proof -
  have "ece391_strlen (s_mem S s) p = Some (length xs)" using ece391_strlen_cstr [OF assms(2)] assms(4) hi_bound by simp
  moreover have "load_list (s_mem S s) p (length xs) = xs" using assms(2) by (simp add: cstr_def)
  ultimately show ?thesis using write_law [OF assms(1,3), of "length xs"] assms(4) by (auto simp: ece391_fdputs_def)
qed

lemma str_in_cong:
  "str_in lo hi data m p xs \<Longrightarrow> (\<And>x. lo \<le> x \<Longrightarrow> x < hi \<Longrightarrow> x < data \<or> data + 1025 \<le> x \<Longrightarrow> m' x = m x) \<Longrightarrow> str_in lo hi data m' p xs"
  unfolding str_in_def by (auto intro!: cstr_cong [of m p xs m'] simp: disjoint_ranges_def)

lemma grep_env_cong:
  assumes "grep_env lo hi lit data srch pat fname fn m" "m' (data + BUFSIZE) \<noteq> 10"
    "\<And>x. lo \<le> x \<Longrightarrow> x < hi \<Longrightarrow> x < data \<or> data + 1025 \<le> x \<Longrightarrow> m' x = m x"
  shows "grep_env lo hi lit data srch pat fname fn m'"
proof -
  have "str_in lo hi data m p xs \<Longrightarrow> str_in lo hi data m' p xs" for p xs by (rule str_in_cong) (simp_all add: assms(3))
  then show ?thesis using assms(1,2) unfolding grep_env_def by simp
qed

lemma str_puts:
  assumes "looks s r ot" "str_in lo hi data m p xs" "\<forall>x. lo \<le> x \<and> x < hi \<longrightarrow> s_mem S s x = m x"
  shows "\<exists>s'. ece391_fdputs S 1 p s = Some s' \<and> looks s' r (ot @ xs) \<and> (\<forall>x. lo \<le> x \<and> x < hi \<longrightarrow> s_mem S s' x = m x)"
proof -
  have p: "cstr m p xs" "lo \<le> p" "p + length xs < hi" using assms(2) by (auto simp: str_in_def)
  have "cstr (s_mem S s) p xs" using assms(3) p(2,3) by (intro cstr_cong [OF p(1)]) simp
  then show ?thesis using puts_law [OF assms(1) _ p(2,3)] assms(3) by fastforce
qed

lemma print_match_law:
  assumes "looks s r ot" "grep_env lo hi lit data srch pat fname fn (s_mem S s)"
    "cstr (s_mem S s) p l" "data \<le> p" "p + length l \<le> data + 1024"
  shows "\<exists>s'. print_match S lit fname p s = Some s' \<and> looks s' r (ot @ fn @ [58] @ l @ [10])
    \<and> (\<forall>x. lo \<le> x \<and> x < hi \<longrightarrow> s_mem S s' x = s_mem S s x)"
proof -
  let ?m = "s_mem S s"
  have env: "str_in lo hi data ?m fname fn" "str_in lo hi data ?m (lit '':'') [58]" "str_in lo hi data ?m (lit (nl [])) [10]"
    and p: "lo \<le> p" "p + length l < hi"
    using assms(2,4,5) by (auto simp: grep_env_def)
  obtain s1 where 1: "ece391_fdputs S 1 fname s = Some s1" "looks s1 r (ot @ fn)" "\<forall>x. lo \<le> x \<and> x < hi \<longrightarrow> s_mem S s1 x = ?m x"
    using str_puts [OF assms(1) env(1)] by auto
  obtain s2 where 2: "ece391_fdputs S 1 (lit '':'') s1 = Some s2" "looks s2 r ((ot @ fn) @ [58])"
    "\<forall>x. lo \<le> x \<and> x < hi \<longrightarrow> s_mem S s2 x = ?m x"
    using str_puts [OF 1(2) env(2) 1(3)] by auto
  have "cstr (s_mem S s2) p l" using p 2(3) by (intro cstr_cong [OF assms(3)]) simp
  then obtain s3 where 3: "ece391_fdputs S 1 p s2 = Some s3" "looks s3 r (((ot @ fn) @ [58]) @ l)"
    "\<forall>x. lo \<le> x \<and> x < hi \<longrightarrow> s_mem S s3 x = s_mem S s2 x"
    using puts_law [OF 2(2) _ p] by auto
  then have "\<forall>x. lo \<le> x \<and> x < hi \<longrightarrow> s_mem S s3 x = ?m x" using 2(3) by simp
  then obtain s4 where 4: "ece391_fdputs S 1 (lit (nl [])) s3 = Some s4" "looks s4 r ((((ot @ fn) @ [58]) @ l) @ [10])"
    "\<forall>x. lo \<le> x \<and> x < hi \<longrightarrow> s_mem S s4 x = ?m x"
    using str_puts [OF 3(2) env(3)] by auto
  show ?thesis using 1(1) 2(1) 3(1) 4 by (intro exI [of _ s4]) (simp add: print_match_def)
qed

end

text \<open>A regular file: a read delivers the next bytes.\<close>

locale text_io = out_io S lo hi looks
  for S :: "'s sys" and lo hi :: nat and looks :: "'s \<Rightarrow> byte list \<Rightarrow> byte list \<Rightarrow> bool" +
  fixes fd :: int
  assumes read_law: "looks s r ot \<Longrightarrow> lo \<le> a \<Longrightarrow> a + n \<le> hi \<Longrightarrow>
      \<exists>s'. ece391_read S fd a n s = Some (int (length (take n r)), s') \<and> looks s' (drop n r) ot
        \<and> (\<forall>x. lo \<le> x \<and> x < hi \<longrightarrow> s_mem S s' x = store_list (s_mem S s) a (take n r) x)"
begin

lemma cat_loop_copies:
  assumes "looks s r ot" "lo \<le> buf" "buf + 1024 \<le> hi"
  shows "\<exists>s'. cat_loop S lit buf fd s = Some (0, s') \<and> looks s' [] (ot @ r)"
  using assms(1)
proof (induction "length r" arbitrary: s r ot rule: less_induct)
  case less
  let ?bs = "take 1024 r"
  obtain s1 where rd: "ece391_read S fd buf 1024 s = Some (int (length ?bs), s1)" and s1: "looks s1 (drop 1024 r) ot"
    and m1: "\<forall>x. lo \<le> x \<and> x < hi \<longrightarrow> s_mem S s1 x = store_list (s_mem S s) buf ?bs x"
    using read_law [OF less(2) assms(2,3)] by blast
  show ?case
  proof (cases "r = []")
    case True
    then show ?thesis using rd s1 by (subst cat_loop.simps) simp
  next
    case False
    define n where "n = length ?bs"
    have n: "n \<noteq> 0" using False by (simp add: n_def)
    have "buf + length ?bs \<le> hi" using assms(3) by simp
    then obtain s2 where wr: "ece391_write S 1 buf (length ?bs) s1 = (int (length ?bs), s2)"
      and s2: "looks s2 (drop 1024 r) (ot @ load_list (s_mem S s1) buf (length ?bs))"
      using write_law [OF s1 assms(2)] by blast
    have "load_list (s_mem S s1) buf (length ?bs) = load_list (store_list (s_mem S s) buf ?bs) buf (length ?bs)"
      using m1 assms(2,3) by (intro load_list_cong) simp
    then have "load_list (s_mem S s1) buf (length ?bs) = ?bs" by (simp only: load_store_list)
    then have "looks s2 (drop 1024 r) (ot @ ?bs)" using s2 by (simp only:)
    moreover have "length (drop 1024 r) < length r" using False by (cases r) simp_all
    ultimately obtain s' where "cat_loop S lit buf fd s2 = Some (0, s')" "looks s' [] ((ot @ ?bs) @ drop 1024 r)"
      using less(1) by blast
    moreover have "cat_loop S lit buf fd s = cat_loop S lit buf fd s2"
      using rd [folded n_def] wr [folded n_def] n by (subst cat_loop.simps) simp
    ultimately show ?thesis by simp
  qed
qed

end

text \<open>A directory: a read delivers the next name, in a field of 32 bytes whatever the length asked for.\<close>

locale name_io = out_io S lo hi looks
  for S :: "'s sys" and lo hi :: nat and looks :: "'s \<Rightarrow> byte list list \<Rightarrow> byte list \<Rightarrow> bool" +
  fixes fd :: int
  assumes read_end: "looks s [] ot \<Longrightarrow> lo \<le> a \<Longrightarrow> \<exists>s'. ece391_read S fd a n s = Some (0, s') \<and> looks s' [] ot"
    and read_name: "looks s (nm # ns) ot \<Longrightarrow> lo \<le> a \<Longrightarrow> a + 32 \<le> hi \<Longrightarrow>
      \<exists>s'. ece391_read S fd a n s = Some (int (length nm), s') \<and> looks s' ns ot
        \<and> (\<forall>x. lo \<le> x \<and> x < hi \<longrightarrow> s_mem S s' x = store_list (s_mem S s) a (name_field nm 32) x)"
begin

lemma ls_loop_lists:
  assumes "looks s ns ot" "lo \<le> buf" "buf + 33 \<le> hi" "\<forall>nm \<in> set ns. nm \<noteq> [] \<and> length nm \<le> 32"
  shows "\<exists>s'. ls_loop S lit buf fd s = Some (0, s') \<and> looks s' [] (ot @ concat (map (\<lambda>nm. nm @ [10]) ns))"
  using assms(1,4)
proof (induction ns arbitrary: s ot)
  case Nil
  then show ?case using read_end [OF Nil(1) assms(2), of 32] by (subst ls_loop.simps) auto
next
  case (Cons nm ns)
  let ?n = "length nm"
  have n: "?n \<noteq> 0" "?n \<le> 32" using Cons.prems(2) by auto
  obtain s1 where rd: "ece391_read S fd buf 32 s = Some (int ?n, s1)" and s1: "looks s1 ns ot"
    and m1: "\<forall>x. lo \<le> x \<and> x < hi \<longrightarrow> s_mem S s1 x = store_list (s_mem S s) buf (name_field nm 32) x"
    using read_name [OF Cons.prems(1) assms(2)] assms(3) by auto
  define s2 where "s2 = poke_user S (buf + ?n) 10 s1"
  have s2: "looks s2 ns ot" "s_mem S s2 = (s_mem S s1)(buf + ?n := 10)"
    using store_law [OF s1, of "(s_mem S s1)(buf + ?n := 10)"] assms(2,3) n(2) by (auto simp: s2_def poke_user_def)
  have "load_list (s_mem S s2) buf (?n + 1) = nm @ [10]"
  proof (rule nth_equalityI)
    fix i assume "i < length (load_list (s_mem S s2) buf (?n + 1))"
    then have "i < ?n + 1" by simp
    then show "load_list (s_mem S s2) buf (?n + 1) ! i = (nm @ [10]) ! i"
      using m1 s2(2) assms(2,3) n(2) by (cases "i = ?n") (auto simp: store_list_def name_field_def nth_append)
  qed simp
  then obtain s3 where wr: "ece391_write S 1 buf (?n + 1) s2 = (int (?n + 1), s3)" "looks s3 ns (ot @ nm @ [10])"
    using write_law [OF s2(1) assms(2), of "?n + 1"] assms(3) n(2) by auto
  obtain s' where "ls_loop S lit buf fd s3 = Some (0, s')" "looks s' [] ((ot @ nm @ [10]) @ concat (map (\<lambda>nm. nm @ [10]) ns))"
    using Cons.IH [OF wr(2)] Cons.prems(2) by auto
  moreover have "nat (int ?n + 1) = ?n + 1" by simp
  ultimately show ?case using rd wr(1) n(1) by (subst ls_loop.simps) (simp add: s2_def)
qed

end

end
