(* ===== verification/Grep.thy ===== *)
theory Grep
  imports Programs
begin

text \<open>
  The search of \<^verbatim>\<open>ece391grep.c\<close>: whatever the way the lines of a file lie across the blocks read into the
  buffer, \<^verbatim>\<open>do_one_file\<close> prints exactly the lines that contain the text, in order. The lemmas rest on the
  laws of the locale \<open>text_io\<close> only.
\<close>

context text_io
begin

lemma load_list_take: "load_list m a n = w \<Longrightarrow> k \<le> n \<Longrightarrow> load_list m a k = take k w"
  by (auto simp: load_list_def take_map)

lemma search_line:
  assumes "looks s r ot" "grep_env lo hi lit data srch pat fname fn (s_mem S s)" "pat \<noteq> []"
    "load_list (s_mem S s) (data + ls) (length l) = l" "0 \<notin> set l" "ls + length l \<le> 1024"
  defines "s1 \<equiv> poke_user S (data + (ls + length l)) 0 s"
  shows "\<exists>s2. (if line_matches (s_mem S s1) data srch (length pat) ls (ls + length l)
               then print_match S lit fname (data + ls) s1 else Some s1) = Some s2
    \<and> looks s2 r (ot @ match_out fn pat l) \<and> grep_env lo hi lit data srch pat fname fn (s_mem S s2)
    \<and> (\<forall>x. lo \<le> x \<and> x < hi \<and> x \<noteq> data + (ls + length l) \<longrightarrow> s_mem S s2 x = s_mem S s x)"
proof -
  let ?a = "data + (ls + length l)"
  let ?m = "(s_mem S s)(?a := 0)"
  have d: "lo \<le> data" "data + 1025 \<le> hi" "s_mem S s (data + 1024) \<noteq> 10" using assms(2) by (auto simp: grep_env_def)
  have "\<forall>x. x < lo \<or> hi \<le> x \<longrightarrow> ?m x = s_mem S s x" using d assms(6) by auto
  then have s1: "looks s1 r ot" "s_mem S s1 = ?m" using store_law [OF assms(1)] by (simp_all add: s1_def poke_user_def)
  have env: "grep_env lo hi lit data srch pat fname fn ?m"
    using assms(6) d(3) by (intro grep_env_cong [OF assms(2)]) auto
  have "load_list ?m (data + ls) (length l) = load_list (s_mem S s) (data + ls) (length l)" by (rule load_list_cong) simp
  then have c: "cstr ?m (data + ls) l" using assms(4,5) by (simp add: cstr_def add.assoc)
  have "cstr ?m srch pat" using env by (simp add: grep_env_def str_in_def)
  then have mt: "line_matches ?m data srch (length pat) ls (ls + length l) \<longleftrightarrow> sublist pat l \<and> hd pat < 128"
    by (intro line_matches_eq [OF c _ assms(3)])
  show ?thesis
  proof (cases "sublist pat l \<and> hd pat < 128")
    case True
    obtain s2 where s2: "print_match S lit fname (data + ls) s1 = Some s2" "looks s2 r (ot @ fn @ [58] @ l @ [10])"
      "\<forall>x. lo \<le> x \<and> x < hi \<longrightarrow> s_mem S s2 x = s_mem S s1 x"
      using print_match_law [of s1 r ot lit data srch pat fname fn "data + ls" l] s1 env c assms(6) by auto
    have "grep_env lo hi lit data srch pat fname fn (s_mem S s2)"
      using s2(3) s1(2) env d by (intro grep_env_cong [OF env]) (auto simp: grep_env_def)
    then show ?thesis using s2 s1(2) mt True by (auto simp: match_out_def)
  next
    case False
    then show ?thesis using s1 env mt by (auto simp: match_out_def)
  qed
qed

text \<open>
  What the inner loop does with the bytes \<open>w\<close> from \<^verbatim>\<open>line_start\<close> on: it searches the lines \<open>p\<close> and
  keeps \<open>c\<close>, the beginning of the next line, at the start of the buffer.
\<close>

lemma grep_lines_spec:
  assumes "looks s r ot" "grep_env lo hi lit data srch pat fname fn (s_mem S s)" "pat \<noteq> []"
    "load_list (s_mem S s) (data + ls) (length w) = w" "0 \<notin> set w" "ls + length w \<le> 1024"
    "cnt = 0 \<or> ls + length w < 1024 \<Longrightarrow> r = []" "ls = 0 \<Longrightarrow> length w = 1024 \<Longrightarrow> 10 \<in> set w"
  shows "\<exists>p c s'. grep_lines S lit data srch (length pat) fname cnt (ls + length w) ls s = Some (length c, s')
    \<and> w = p @ c \<and> 10 \<notin> set c \<and> length c < 1024 \<and> (cnt = 0 \<longrightarrow> c = []) \<and> (p = [] \<or> last p = 10 \<or> c @ r = [])
    \<and> load_list (s_mem S s') data (length c) = c \<and> looks s' r (ot @ grep_out fn pat p)
    \<and> grep_env lo hi lit data srch pat fname fn (s_mem S s')"
  using assms(1,2,4-8)
proof (induction "length w" arbitrary: s ot w ls rule: less_induct)
  case less
  define l where "l = takeWhile (\<lambda>c. c \<noteq> 10) w"
  define m where "m = s_mem S s"
  have d: "lo \<le> data" "data + 1025 \<le> hi" "m (data + 1024) \<noteq> 10" using less(3) by (auto simp: grep_env_def m_def)
  have sc: "line_scan m data (ls + length w) ls = ls + length l" using line_scan_eq [OF less(4)] by (simp add: l_def m_def)
  have len: "length l \<le> length w" by (simp add: l_def length_takeWhile_le)
  have ll: "load_list (s_mem S s) (data + ls) (length l) = l"
    using load_list_take [OF less(4) len] by (simp add: l_def takeWhile_eq_take [symmetric])
  have l: "10 \<notin> set l" "0 \<notin> set l" using less(5) by (auto simp: l_def dest: set_takeWhileD)
  obtain s2 where s2: "(if line_matches (s_mem S (poke_user S (data + (ls + length l)) 0 s)) data srch (length pat) ls (ls + length l)
        then print_match S lit fname (data + ls) (poke_user S (data + (ls + length l)) 0 s)
        else Some (poke_user S (data + (ls + length l)) 0 s)) = Some s2"
      "looks s2 r (ot @ match_out fn pat l)" "grep_env lo hi lit data srch pat fname fn (s_mem S s2)"
      "\<And>x. lo \<le> x \<Longrightarrow> x < hi \<Longrightarrow> x \<noteq> data + (ls + length l) \<Longrightarrow> s_mem S s2 x = m x"
    using search_line [OF less(2,3) assms(3) ll l(2)] less(6) len unfolding m_def by fastforce
  have step: "grep_lines S lit data srch (length pat) fname cnt (ls + length w) ls s =
      (if ls + length w \<le> ls + length l + 1 then Some (0, s2)
       else grep_lines S lit data srch (length pat) fname cnt (ls + length w) (ls + length l + 1) s2)"
    if "m (data + (ls + length l)) = 10 \<or> cnt = 0 \<or> ls = 0"
    using that s2(1) sc by (subst grep_lines.simps) (auto simp: Let_def m_def)
  have at: "m (data + (ls + i)) = w ! i" if "i < length w" for i
    using that less(4) by (metis add.assoc m_def nth_load_list)
  show ?case
  proof (cases "10 \<in> set w")
    case True
    then obtain a w' where a: "w = a @ 10 # w'" "10 \<notin> set a" by (metis split_list_first)
    then have "l = a @ takeWhile (\<lambda>c. c \<noteq> 10) (10 # w')" unfolding l_def a(1) by (intro takeWhile_append2) auto
    then have w: "w = l @ 10 # w'" using a(1) by simp
    have 10: "m (data + (ls + length l)) = 10" using at [of "length l"] by (simp add: w)
    show ?thesis
    proof (cases "w' = []")
      case True
      then have "grep_lines S lit data srch (length pat) fname cnt (ls + length w) ls s = Some (length [], s2)"
        using step 10 by (simp add: w)
      then show ?thesis using s2(2,3) True l(1)
        by (intro exI [of _ w] exI [of _ "[]"] exI [of _ s2]) (simp add: w grep_out_newline)
    next
      case False
      let ?ls = "ls + length l + 1"
      have ls: "?ls + length w' = ls + length w" by (simp add: w)
      have ld: "load_list (s_mem S s2) (data + ?ls) (length w') = w'"
      proof (rule nth_equalityI)
        fix i assume "i < length (load_list (s_mem S s2) (data + ?ls) (length w'))"
        then have i: "i < length w'" by simp
        have "s_mem S s2 (data + ?ls + i) = m (data + ?ls + i)" using i d less(6) ls by (intro s2(4)) auto
        also have "\<dots> = w' ! i" using at [of "length l + 1 + i"] i by (simp add: w add.assoc nth_append)
        finally show "load_list (s_mem S s2) (data + ?ls) (length w') ! i = w' ! i" using i by simp
      qed simp
      have q: "length w' < length w" "0 \<notin> set w'" "?ls + length w' \<le> 1024" using less(5,6) by (auto simp: w)
      have q4: "r = []" if "cnt = 0 \<or> ?ls + length w' < 1024" using that less(7) by (simp add: w add.assoc)
      have q5: "10 \<in> set w'" if "?ls = 0" "length w' = 1024" using that by simp
      obtain p c s' where ih: "grep_lines S lit data srch (length pat) fname cnt (?ls + length w') ?ls s2 = Some (length c, s')"
        "w' = p @ c" "10 \<notin> set c" "length c < 1024" "cnt = 0 \<longrightarrow> c = []" "p = [] \<or> last p = 10 \<or> c @ r = []"
        "load_list (s_mem S s') data (length c) = c" "looks s' r ((ot @ match_out fn pat l) @ grep_out fn pat p)"
        "grep_env lo hi lit data srch pat fname fn (s_mem S s')"
        using less(1) [OF q(1) s2(2,3) ld q(2,3) q4 q5] by blast
      have "grep_lines S lit data srch (length pat) fname cnt (ls + length w) ls s = Some (length c, s')"
        using step 10 ih(1) False by (simp add: w add.assoc)
      then show ?thesis using ih l(1)
        by (intro exI [of _ "l @ 10 # p"] exI [of _ c] exI [of _ s']) (auto simp: w grep_out_newline)
    qed
  next
    case False
    then have lw: "l = w" by (auto simp: l_def takeWhile_eq_all_conv)
    show ?thesis
    proof (cases "m (data + (ls + length w)) = 10 \<or> cnt = 0 \<or> ls = 0")
      case True
      then have "grep_lines S lit data srch (length pat) fname cnt (ls + length w) ls s = Some (length [], s2)"
        using step by (simp add: lw)
      moreover have "r = []"
        using True less(6,7,8) d(3) False by (cases "ls + length w = 1024") auto
      ultimately show ?thesis using s2(2,3) l(1) assms(3)
        by (intro exI [of _ w] exI [of _ "[]"] exI [of _ s2]) (simp add: lw grep_out_last)
    next
      case False
      let ?m1 = "m(data + (ls + length w) := 0)"
      let ?m2 = "store_list ?m1 data (w @ [0])"
      have "load_list ?m1 (data + ls) (length w) = load_list m (data + ls) (length w)" by (rule load_list_cong) simp
      then have c: "cstr ?m1 (data + ls) w" using less(4,5) by (simp add: cstr_def m_def add.assoc)
      have wl: "ls \<noteq> 0" "length w < 1024" using False less(6) by auto
      have "ece391_strcpy ?m1 data (data + ls) = Some ?m2" using wl(1) by (intro ece391_strcpy_cstr [OF c]) simp
      then have g: "grep_lines S lit data srch (length pat) fname cnt (ls + length w) ls s = Some (length w, s_store S ?m2 s)"
        using False sc by (subst grep_lines.simps) (simp add: Let_def m_def lw)
      have "?m2 x = m x" if "x < data \<or> data + 1025 \<le> x" for x using that less(6) wl(2) by (auto simp: store_list_def)
      note out = this
      have st: "looks (s_store S ?m2 s) r ot" "s_mem S (s_store S ?m2 s) = ?m2"
        using store_law [OF less(2), of ?m2] out d(1,2) by (auto simp: m_def)
      have "grep_env lo hi lit data srch pat fname fn ?m2"
        using out wl(2) d(3) by (intro grep_env_cong [OF less(3) [folded m_def]]) (simp_all add: store_list_other)
      moreover have "load_list ?m2 data (length w) = w"
        using load_list_take [OF load_store_list, of "length w" "w @ [0]" ?m1 data] by simp
      ultimately show ?thesis using g st wl(2) \<open>10 \<notin> set w\<close> False
        by (intro exI [of _ "[]"] exI [of _ w] exI [of _ "s_store S ?m2 s"]) simp
    qed
  qed
qed

text \<open>
  The outer loop: \<open>c\<close> is the beginning of a line kept in the buffer, \<open>r\<close> what is still to be read.
\<close>

lemma grep_reads_spec:
  assumes "looks s r ot" "grep_env lo hi lit data srch pat fname fn (s_mem S s)" "pat \<noteq> []"
    "load_list (s_mem S s) data (length c) = c" "10 \<notin> set c" "length c < 1024" "0 \<notin> set (c @ r)"
    "\<forall>l \<in> set (text_lines (c @ r)). length l < 1024"
  shows "\<exists>s'. grep_reads S lit data srch (length pat) fname fd (length c) s = Some (0, s')
    \<and> looks s' [] (ot @ grep_out fn pat (c @ r))"
  using assms(1,2,4-8)
proof (induction "length r" arbitrary: s r ot c rule: less_induct)
  case less
  define n where "n = 1024 - length c"
  define w where "w = c @ take n r"
  have d: "lo \<le> data" "data + 1025 \<le> hi" "s_mem S s (data + 1024) \<noteq> 10" using less(3) by (auto simp: grep_env_def)
  have n: "0 < n" "length c + n = 1024" using less(6) by (auto simp: n_def)
  obtain s1 where rd: "ece391_read S fd (data + length c) n s = Some (int (length (take n r)), s1)"
    and s1: "looks s1 (drop n r) ot"
    and m1: "\<forall>x. lo \<le> x \<and> x < hi \<longrightarrow> s_mem S s1 x = store_list (s_mem S s) (data + length c) (take n r) x"
    using read_law [OF less(2), of "data + length c" n] d n(2) by auto
  have env: "grep_env lo hi lit data srch pat fname fn (s_mem S s1)"
    using m1 d n(2) by (intro grep_env_cong [OF less(3)]) (auto simp: store_list_def)
  have ld: "load_list (s_mem S s1) (data + 0) (length w) = w"
  proof (rule nth_equalityI)
    fix i assume "i < length (load_list (s_mem S s1) (data + 0) (length w))"
    then have i: "i < length w" "i < 1024" using n(2) by (auto simp: w_def)
    then have "s_mem S s1 (data + i) = store_list (s_mem S s) (data + length c) (take n r) (data + i)" using m1 d by auto
    also have "\<dots> = w ! i"
      using i(1) less(4) by (auto simp: store_list_def w_def nth_append) (metis nth_load_list)
    finally show "load_list (s_mem S s1) (data + 0) (length w) ! i = w ! i" using i(1) by simp
  qed simp
  have wl: "0 \<notin> set w" "0 + length w \<le> 1024" using less(7) n(2) by (auto simp: w_def dest: in_set_takeD)
  have r: "drop n r = []" if "int (length (take n r)) = 0 \<or> 0 + length w < 1024"
    using that n by (auto simp: w_def)
  have nlw: "10 \<in> set w" if "0 = (0 :: nat)" "length w = 1024"
  proof (rule ccontr)
    assume a: "10 \<notin> set w"
    have cr: "c @ r = w @ drop n r" by (simp add: w_def)
    have "takeWhile (\<lambda>c. c \<noteq> 10) (w @ drop n r) = w @ takeWhile (\<lambda>c. c \<noteq> 10) (drop n r)"
      using a by (intro takeWhile_append2) auto
    moreover have "takeWhile (\<lambda>c. c \<noteq> 10) (c @ r) \<in> set (text_lines (c @ r))"
      using that(2) by (subst text_lines.simps) (auto simp: cr)
    ultimately show False using less(8) that(2) unfolding cr by fastforce
  qed
  obtain p c' s2 where gl: "grep_lines S lit data srch (length pat) fname (int (length (take n r))) (0 + length w) 0 s1 = Some (length c', s2)"
    "w = p @ c'" "10 \<notin> set c'" "length c' < 1024" "int (length (take n r)) = 0 \<longrightarrow> c' = []" "p = [] \<or> last p = 10 \<or> c' @ drop n r = []"
    "load_list (s_mem S s2) data (length c') = c'" "looks s2 (drop n r) (ot @ grep_out fn pat p)"
    "grep_env lo hi lit data srch pat fname fn (s_mem S s2)"
    using grep_lines_spec [OF s1 env assms(3) ld wl r nlw] by blast
  have cr: "c @ r = p @ c' @ drop n r" using gl(2) by (metis append.assoc append_take_drop_id w_def)
  have go: "grep_out fn pat (c @ r) = grep_out fn pat p @ grep_out fn pat (c' @ drop n r)"
    unfolding cr by (rule grep_out_append [OF gl(6)])
  show ?case
  proof (cases "r = []")
    case True
    then have "grep_reads S lit data srch (length pat) fname fd (length c) s = Some (0, s2)"
      using rd gl(1) by (subst grep_reads.simps) (simp add: n_def w_def)
    then show ?thesis using gl(5,8) go True by simp
  next
    case False
    define k where "k = length (take n r)"
    have k: "k \<noteq> 0" "length (drop n r) < length r" using False n(1) by (auto simp: k_def)
    have "\<forall>l \<in> set (text_lines (c' @ drop n r)). length l < 1024"
      using less(8) text_lines_append [OF gl(6)] unfolding cr by simp
    moreover have "0 \<notin> set (c' @ drop n r)" using less(7) unfolding cr by simp
    ultimately obtain s' where s': "grep_reads S lit data srch (length pat) fname fd (length c') s2 = Some (0, s')"
      "looks s' [] ((ot @ grep_out fn pat p) @ grep_out fn pat (c' @ drop n r))"
      using less(1) [OF k(2) gl(8,9,7,3,4)] by blast
    have "length w = length c + k" by (simp add: w_def k_def)
    then have "grep_reads S lit data srch (length pat) fname fd (length c) s = Some (0, s')"
      using rd [folded k_def] gl(1) [folded k_def] s'(1) k(1)
      by (subst grep_reads.simps) (simp add: n_def [symmetric])
    then show ?thesis using s'(2) go by simp
  qed
qed

end

end
