(* ===== verification/User_Io.thy ===== *)
theory User_Io
  imports Grep
begin

text \<open>
  The kernel provides the interface \<open>text_io\<close> to a program that reads a regular file and writes to its
  terminal: the laws hold for the kernel's own system calls, file system and terminal, on the page of
  the process. With that, the properties of the programs hold on the whole system.
\<close>

text \<open>
  A program runs: the terminals are consistent, descriptor 1 is the terminal, and the file system's
  image lies below the user page and apart from video memory.
\<close>

definition user_ok :: "'a user \<Rightarrow> bool" where
  "user_ok u \<longleftrightarrow> sys_ok (uk u) \<and> my_term (uk u) < TERM_NUM
     \<and> length (open_files (pcbs (uk u) (cur (uk u)))) = TASK_MAX_FILES
     \<and> used (get_file (cur (uk u), 1) (uk u)) \<and> file_ops (get_file (cur (uk u), 1) (uk u)) = stdout_file_ops_table
     \<and> disjoint_ranges 0xB8000 0x4000 (bblock_ptr (fsg (uk u))) (image_size (mem (uk u)) (fsg (uk u)))
     \<and> bblock_ptr (fsg (uk u)) + image_size (mem (uk u)) (fsg (uk u)) \<le> TASK_VIRT_PAGE_BEG"

definition file_looks :: "int \<Rightarrow> 'a user \<Rightarrow> byte list \<Rightarrow> byte list \<Rightarrow> bool" where
  "file_looks fd u r ot \<longleftrightarrow> user_ok u \<and> 1 < fd \<and> fd < int TASK_MAX_FILES
     \<and> (let f = get_file (cur (uk u), nat fd) (uk u) in
          used f \<and> file_ops f = fs_file_ops_table
          \<and> fs_ok (fsg (uk u)) TASK_VIRT_PAGE_BEG 0x400000 (mem (uk u), f)
          \<and> r = fs_rest (fsg (uk u)) (mem (uk u), f))
     \<and> ot = uout u"

text \<open>The names a directory file still has to deliver.\<close>

definition dir_names :: "mem \<Rightarrow> fs_globals \<Rightarrow> nat \<Rightarrow> byte list list" where
  "dir_names m g p = map (\<lambda>i. name_at m (dentries g + 64 * i) MAX_NAME_LENGTH) [p..<load32 m (bblock_ptr g)]"

definition dir_looks :: "int \<Rightarrow> 'a user \<Rightarrow> byte list list \<Rightarrow> byte list \<Rightarrow> bool" where
  "dir_looks fd u ns ot \<longleftrightarrow> user_ok u \<and> 1 < fd \<and> fd < int TASK_MAX_FILES
     \<and> (let f = get_file (cur (uk u), nat fd) (uk u); m = mem (uk u); g = fsg (uk u) in
          used f \<and> file_ops f = fs_dir_ops_table \<and> 0 \<le> pos f \<and> pos f \<le> 63
          \<and> load32 m (bblock_ptr g) \<le> 63 \<and> dentries g = bblock_ptr g + 64 \<and> ns = dir_names m g (nat (pos f)))
     \<and> ot = uout u"

text \<open>
  A small system for concrete instances: a directory with the entries \<^verbatim>\<open>.\<close> and \<^verbatim>\<open>s\<close>, a text file of 28
  bytes, and a process on terminal 0 with the argument \<^verbatim>\<open>s\<close> and its strings in its page.
\<close>

definition demo_text :: "byte list" where
  "demo_text = map of_char (''hello world'' @ [CHR 0x0A] @ ''foo bars'' @ [CHR 0x0A] @ ''hello!'' @ [CHR 0x0A])"

definition demo_dir :: mem where
  "demo_dir = store_list ((\<lambda>_. 0)(0x1000 := 2, 0x1004 := 1, 0x1008 := 1, 0x1040 := 46, 0x1060 := 1, 0x1080 := 115, 0x10A0 := 2,
     0x2000 := 28, 0x8000100 := 102, 0x8000101 := 111, 0x8000102 := 111, 0x8000200 := 115, 0x8000300 := 58, 0x8000400 := 10,
     0x8000500 := 46)) 0x3000 demo_text"

definition dir_like :: "mem \<Rightarrow> bool" where
  "dir_like m \<longleftrightarrow> (\<forall>a. 0x1000 \<le> a \<and> a < 0x4000 \<longrightarrow> m a = demo_dir a)"

definition demo_lit :: "string \<Rightarrow> addr" where
  "demo_lit x = (if x = '':'' then 0x8000300 else if x = nl [] then 0x8000400 else 0x8000500)"

definition demo_user :: "unit user" where
  "demo_user = \<lparr>uk = demo_kernel\<lparr>mem := demo_dir, terms := terms (init_term (boot_sys (\<lambda>_. 0))), cur_term_ind := 0, cur_term := 0,
       pcbs := (\<lambda>_. pcb_zero\<lparr>cmd_args := Some [115], open_files := (replicate 8 (demo_file\<lparr>used := False\<rparr>))
         [1 := demo_file\<lparr>used := True, file_ops := stdout_file_ops_table\<rparr>]\<rparr>)\<rparr>,
     u_irqs = [], u_port = 0, uout = []\<rparr>"

subsection \<open>The laws hold for the kernel\<close>

lemma more_kernel:
  fixes k k' :: "'a kernel_scheme"
  assumes "term_sys.more k' = term_sys.more k"
  shows "pcbs k' = pcbs k" "cur k' = cur k" "fsg k' = fsg k"
  using assms by (cases k, cases k', simp)+

lemma term_write_frame:
  fixes k :: "'a kernel_scheme"
  assumes "sys_ok k" "my_term k < 3" "term_write buf n k = (v, k')"
  shows "v = s32 (int n)" "sys_ok k'" "pcbs k' = pcbs k" "cur k' = cur k" "fsg k' = fsg k"
    "\<forall>a. a < 0xB8000 \<or> 0xBC000 \<le> a \<longrightarrow> mem k' a = mem k a"
proof -
  let ?t = "my_term k" and ?s1 = "k\<lparr>cur_term := my_term k\<rparr>"
  have ok: "sys_ok ?s1" using assms(1,2) by (simp add: sys_ok_def)
  have k': "v = s32 (int n)" "k' = snd (term_write buf n k)" using assms(3) by (auto simp: term_write_def Let_def)
  have kp: "keeps ?t ?s1 k'"
    unfolding k' term_write_def Let_def
    by (simp, rule keeps_fold [OF keeps_term_write_char [OF _ assms(2)] ok])
  then have m: "term_sys.more k' = term_sys.more k" by (simp add: keeps_def local_to_def)
  show "v = s32 (int n)" "sys_ok k'" using k' kp by (simp_all add: keeps_def)
  show "pcbs k' = pcbs k" "cur k' = cur k" "fsg k' = fsg k" using more_kernel [OF m] by simp_all
  have "0xB8000 \<le> video_mem (tm ?t ?s1)" "video_mem (tm ?t ?s1) + 4000 \<le> 0xBC000"
    using ok assms(2) by (auto simp: sys_ok_def)
  then show "\<forall>a. a < 0xB8000 \<or> 0xBC000 \<le> a \<longrightarrow> mem k' a = mem k a" using kp by (auto simp: keeps_def local_to_def)
qed

lemma user_write_law:
  fixes u :: "'a user"
  assumes "user_ok u" "0x8000000 \<le> a" "a + n \<le> 0x8400000"
  shows "\<exists>u'. user_write 1 a n u = (int n, u') \<and> pcbs (uk u') = pcbs (uk u) \<and> cur (uk u') = cur (uk u) \<and> fsg (uk u') = fsg (uk u)
    \<and> sys_ok (uk u') \<and> uout u' = uout u @ load_list (mem (uk u)) a n
    \<and> (\<forall>x. x < 0xB8000 \<or> 0xBC000 \<le> x \<longrightarrow> mem (uk u') x = mem (uk u) x)"
proof -
  obtain v k' where w: "term_write a n (uk u) = (v, k')" by fastforce
  note f = term_write_frame [OF _ _ w] and ok = assms(1) [unfolded user_ok_def]
  have "s32 (int n) = int n" using assms(2,3) by (intro s32_id) auto
  moreover have "syscall_write (u_port u) 1 a n (uk u) = (v, k')"
    using ok assms(2) w by (simp add: syscall_write_def fd_used_def)
  ultimately show ?thesis using f ok by (simp add: user_write_def)
qed

lemma file_looks_same:
  assumes "file_looks fd u r ot" "pcbs (uk u') = pcbs (uk u)" "cur (uk u') = cur (uk u)" "fsg (uk u') = fsg (uk u)" "sys_ok (uk u')"
    "\<And>x. x < 0xB8000 \<or> 0xBC000 \<le> x \<Longrightarrow> x < 0x8000000 \<Longrightarrow> mem (uk u') x = mem (uk u) x"
  shows "file_looks fd u' r (uout u')"
proof -
  let ?g = "fsg (uk u)" and ?f = "get_file (cur (uk u), nat fd) (uk u)"
  have ok: "user_ok u" "fs_ok ?g 0x8000000 0x400000 (mem (uk u), ?f)" using assms(1) by (simp_all add: file_looks_def Let_def)
  have "same_image ?g (image_size (mem (uk u)) ?g) (mem (uk u)) (mem (uk u'))"
    using ok(1) assms(6) by (auto simp: same_image_def user_ok_def disjoint_ranges_def)
  note s = fs_ok_same [OF ok(2) this]
  have g: "get_file r (uk u') = get_file r (uk u)" for r using assms(2) by (simp add: get_file_def)
  have "user_ok u'" using ok(1) assms(2-5) s(3) by (simp add: user_ok_def g my_term_def)
  then show ?thesis using assms(1,3,4) s by (simp add: file_looks_def Let_def g)
qed

lemma user_read_law:
  fixes u :: "'a user"
  assumes "file_looks fd u r ot" "0x8000000 \<le> a" "a + n \<le> 0x8400000"
  shows "\<exists>u'. user_read fd a n u = Some (int (length (take n r)), u') \<and> file_looks fd u' (drop n r) ot
    \<and> mem (uk u') = store_list (mem (uk u)) a (take n r)"
proof -
  let ?k = "uk u" and ?g = "fsg (uk u)" and ?ref = "(cur (uk u), nat fd)"
  define f where "f = get_file ?ref ?k"
  have ok: "user_ok u" "1 < fd" "fd < 8" "used f" "file_ops f = fs_file_ops_table" "fs_ok ?g 0x8000000 0x400000 (mem ?k, f)"
    "r = fs_rest ?g (mem ?k, f)" "ot = uout u"
    using assms(1) by (simp_all add: file_looks_def Let_def f_def)
  let ?bs = "take n r"
  let ?m = "store_list (mem ?k) a ?bs" and ?f = "f\<lparr>pos := pos f + int (length ?bs)\<rparr>"
  have an: "fs_ok ?g a n (mem ?k, f)" using ok(6) assms(2,3) by (auto simp: fs_ok_def disjoint_ranges_def)
  have rd: "fs_file_read (mem ?k) ?g a n f = (int (length ?bs), ?m, ?f)" using fs_file_read_spec [OF an, of n] ok(7) by (simp add: Let_def)
  have fr: "fs_rest ?g (?m, ?f) = drop n r" "fs_ok ?g a n (?m, ?f)" using fs_ok_read [OF an, of n] ok(7) by (simp_all add: Let_def)
  have "same_image ?g (image_size (mem ?k) ?g) (mem ?k) ?m"
    using an by (intro same_image_store) (auto simp: fs_ok_def disjoint_ranges_def)
  then have im: "image_size ?m ?g = image_size (mem ?k) ?g" using fs_ok_same [OF an] by blast
  define k' where "k' = upd_file ?ref (\<lambda>_. ?f) (?k\<lparr>mem := ?m\<rparr>)"
  have "fref_ok ?ref ?k" using ok(1,3) by (simp add: user_ok_def fref_ok_def)
  then have g: "get_file ?ref k' = ?f" "\<And>q. q \<noteq> ?ref \<Longrightarrow> fref_ok q ?k \<Longrightarrow> get_file q k' = get_file q ?k"
    by (simp_all add: k'_def get_file_upd)
  have fld: "cur k' = cur ?k" "fsg k' = ?g" "mem k' = ?m" "sys_ok k' = sys_ok ?k" "my_term k' = my_term ?k"
    "length (open_files (pcbs k' (cur ?k))) = length (open_files (pcbs ?k (cur ?k)))"
    by (simp_all add: k'_def upd_file_def my_term_def sys_ok_def)
  have "syscall_read fd a n (u_irqs u) ?k = Some (int (length ?bs), k', u_irqs u)"
    using ok rd assms(2) by (simp add: syscall_read_def fd_used_def f_def [symmetric] k'_def)
  then have "user_read fd a n u = Some (int (length ?bs), u\<lparr>uk := k', u_irqs := u_irqs u\<rparr>)" by (simp add: user_read_def)
  moreover have "get_file (cur ?k, 1) k' = get_file (cur ?k, 1) ?k" using ok(1,2) by (intro g(2)) (auto simp: user_ok_def fref_ok_def)
  then have "user_ok (u\<lparr>uk := k', u_irqs := u_irqs u\<rparr>)" using ok(1) im by (simp add: user_ok_def fld)
  then have "file_looks fd (u\<lparr>uk := k', u_irqs := u_irqs u\<rparr>) (drop n r) ot"
    using ok fr im g(1) by (simp add: file_looks_def Let_def fld fs_ok_def)
  ultimately show ?thesis using fld(3) by auto
qed

lemma kernel_sys_simps [simp]:
  "s_mem (kernel_sys run) u = mem (uk u)" "s_store (kernel_sys run) m u = u\<lparr>uk := (uk u)\<lparr>mem := m\<rparr>\<rparr>"
  "ece391_read (kernel_sys run) = user_read" "ece391_write (kernel_sys run) = user_write"
  by (simp_all add: kernel_sys_def)

interpretation kfile: text_io "kernel_sys run" "0x8000000" "0x8400000" "file_looks fd" fd
  for run :: "'a children" and fd
proof
  show "(0x8400000 :: nat) < 2 ^ 31" by simp
next
  fix u :: "'a user" and r ot and a n :: nat
  assume l: "file_looks fd u r ot" and a: "0x8000000 \<le> a" "a + n \<le> 0x8400000"
  have ok: "user_ok u" "ot = uout u" using l by (simp_all add: file_looks_def)
  obtain u' where w: "user_write 1 a n u = (int n, u')" "pcbs (uk u') = pcbs (uk u)" "cur (uk u') = cur (uk u)" "fsg (uk u') = fsg (uk u)"
    "sys_ok (uk u')" "uout u' = uout u @ load_list (mem (uk u)) a n" "\<forall>x. x < 0xB8000 \<or> 0xBC000 \<le> x \<longrightarrow> mem (uk u') x = mem (uk u) x"
    using user_write_law [OF ok(1) a] by blast
  have "file_looks fd u' r (uout u')" using w by (intro file_looks_same [OF l]) auto
  then show "\<exists>u'. ece391_write (kernel_sys run) 1 a n u = (int n, u') \<and> file_looks fd u' r (ot @ load_list (s_mem (kernel_sys run) u) a n)
      \<and> (\<forall>x. 0x8000000 \<le> x \<and> x < 0x8400000 \<longrightarrow> s_mem (kernel_sys run) u' x = s_mem (kernel_sys run) u x)"
    using w ok(2) by auto
  show "\<exists>u'. ece391_read (kernel_sys run) fd a n u = Some (int (length (take n r)), u') \<and> file_looks fd u' (drop n r) ot
      \<and> (\<forall>x. 0x8000000 \<le> x \<and> x < 0x8400000 \<longrightarrow> s_mem (kernel_sys run) u' x = store_list (s_mem (kernel_sys run) u) a (take n r) x)"
    using user_read_law [OF l a] by auto
next
  fix u :: "'a user" and r ot and m :: mem
  assume l: "file_looks fd u r ot" and m: "\<forall>x. x < 0x8000000 \<or> 0x8400000 \<le> x \<longrightarrow> m x = s_mem (kernel_sys run) u x"
  let ?u = "u\<lparr>uk := (uk u)\<lparr>mem := m\<rparr>\<rparr>"
  have "sys_ok (uk ?u)" using l by (simp add: file_looks_def user_ok_def sys_ok_def)
  then have "file_looks fd ?u r (uout ?u)" using m by (intro file_looks_same [OF l]) auto
  then show "file_looks fd (s_store (kernel_sys run) m u) r ot \<and> s_mem (kernel_sys run) (s_store (kernel_sys run) m u) = m"
    using l by (simp add: file_looks_def)
qed

subsection \<open>Opening and closing\<close>

lemma user_open_state:
  assumes "user_ok u" "read_dentry_by_name (mem (uk u)) (fsg (uk u)) fname = Some d" "filetype d \<noteq> FILE_TYPE_RTC"
    "List.find (\<lambda>i. \<not> used (get_file (cur (uk u), i) (uk u))) [2..<TASK_MAX_FILES] = Some i"
  shows "\<exists>u'. ece391_open (kernel_sys run) fname u = Some (int i, u') \<and> user_ok u' \<and> mem (uk u') = mem (uk u) \<and> fsg (uk u') = fsg (uk u)
    \<and> uout u' = uout u \<and> 2 \<le> i \<and> i < 8
    \<and> (let f = get_file (cur (uk u'), i) (uk u') in
         used f \<and> pos f = 0 \<and> inode f = word_of_int (inode_num d)
         \<and> file_ops f = (if filetype d = FILE_TYPE_REG then fs_file_ops_table else fs_dir_ops_table))"
proof -
  let ?k = "uk u" and ?ref = "(cur (uk u), i)"
  note i = find_slot [OF assms(4)] and ok = assms(1) [unfolded user_ok_def]
  define f where "f = snd (fs_open (mem ?k) (fsg ?k) fname (get_file ?ref ?k))"
  define k' where "k' = upd_file ?ref (\<lambda>f. f\<lparr>used := True\<rparr>) (upd_file ?ref (\<lambda>_. f) ?k)"
  have fo: "fs_open (mem ?k) (fsg ?k) fname (get_file ?ref ?k) = (0, f)" "pos f = 0" "inode f = word_of_int (inode_num d)"
    "file_ops f = (if filetype d = FILE_TYPE_REG then fs_file_ops_table else fs_dir_ops_table)"
    using assms(2) by (simp_all add: f_def fs_open_def Let_def)
  have r: "fref_ok ?ref ?k" and o1: "fref_ok (cur ?k, Suc 0) ?k" "Suc 0 \<noteq> i" using i ok by (auto simp: fref_ok_def)
  have "syscall_open fname ?k = Some (int i, k')"
    using assms(2-4) fo(1) by (simp add: syscall_open_def open_at_def Let_def k'_def)
  then have op: "ece391_open (kernel_sys run) fname u = Some (int i, u\<lparr>uk := k'\<rparr>)" by (simp add: kernel_sys_def)
  have g: "get_file ?ref k' = f\<lparr>used := True\<rparr>" "get_file (cur ?k, Suc 0) k' = get_file (cur ?k, Suc 0) ?k"
    using r o1 by (simp_all add: k'_def get_file_upd)
  have fld: "cur k' = cur ?k" "fsg k' = fsg ?k" "mem k' = mem ?k" "sys_ok k' = sys_ok ?k" "my_term k' = my_term ?k"
    "length (open_files (pcbs k' (cur ?k))) = length (open_files (pcbs ?k (cur ?k)))"
    by (simp_all add: k'_def upd_file_def my_term_def sys_ok_def)
  then have "user_ok (u\<lparr>uk := k'\<rparr>)" using ok by (simp add: user_ok_def fld g)
  then show ?thesis using op fld g(1) fo i by (simp add: Let_def)
qed

lemma user_open_law:
  assumes "user_ok u" "read_dentry_by_name (mem (uk u)) (fsg (uk u)) fname = Some d" "filetype d = FILE_TYPE_REG" "inode_num d = int ino"
    "ino < 2 ^ 31" "wf_file (mem (uk u)) (fsg (uk u)) ino"
    "List.find (\<lambda>i. \<not> used (get_file (cur (uk u), i) (uk u))) [2..<TASK_MAX_FILES] = Some i"
  shows "\<exists>u'. ece391_open (kernel_sys run) fname u = Some (int i, u') \<and> mem (uk u') = mem (uk u)
    \<and> file_looks (int i) u' (file_bytes (mem (uk u)) (fsg (uk u)) ino) (uout u)"
proof -
  have rtc: "filetype d \<noteq> FILE_TYPE_RTC" using assms(3) by (simp add: FILE_TYPE_REG_def FILE_TYPE_RTC_def)
  obtain u' where u': "ece391_open (kernel_sys run) fname u = Some (int i, u')" "user_ok u'" "mem (uk u') = mem (uk u)"
      "fsg (uk u') = fsg (uk u)" "uout u' = uout u" "2 \<le> i" "i < 8"
    and f: "let f = get_file (cur (uk u'), i) (uk u') in
         used f \<and> pos f = 0 \<and> inode f = word_of_int (int ino) \<and> file_ops f = fs_file_ops_table"
    using user_open_state [OF assms(1,2) rtc assms(7), of run] assms(3,4) by auto
  have "sint (word_of_int (int ino) :: u32w) = int ino"
    using assms(5) by (simp add: signed_of_nat signed_take_bit_int_eq_self)
  then have "file_looks (int i) u' (file_bytes (mem (uk u)) (fsg (uk u)) ino) (uout u)"
    using u' f assms(6) by (simp add: file_looks_def Let_def fs_ok_def fs_rest_def file_ino_def) (simp add: user_ok_def disjoint_ranges_def)
  then show ?thesis using u'(1,3) by blast
qed

lemma user_close_law:
  assumes "file_looks fd u r ot"
  shows "\<exists>u'. ece391_close (kernel_sys run) fd u = (0, u') \<and> uout u' = uout u"
proof -
  let ?f = "get_file (cur (uk u), nat fd) (uk u)"
  have "1 < fd" "fd < 8" "used ?f" "file_ops ?f = fs_file_ops_table" using assms by (simp_all add: file_looks_def Let_def)
  then have "syscall_close (u_port u) fd (uk u) = (0, upd_file (cur (uk u), nat fd) (\<lambda>f. f\<lparr>used := False\<rparr>) (uk u))"
    by (simp add: syscall_close_def fd_used_def fs_file_close_def)
  then show ?thesis by (simp add: kernel_sys_def)
qed

subsection \<open>The programs on the kernel\<close>

text \<open>
  C18: \<^verbatim>\<open>cat\<close> prints the file: for a process whose arguments name a regular file, of whatever length, the
  program ends with status 0 and has written exactly the bytes of the file to its terminal, through
  the kernel's own \<^verbatim>\<open>getargs\<close>, \<^verbatim>\<open>open\<close>, \<^verbatim>\<open>read\<close> and \<^verbatim>\<open>write\<close>.
\<close>

theorem cat_prints_file:
  assumes "user_ok u" "cmd_args (pcbs (uk u) (cur (uk u))) = Some name" "length name < 1024"
    "0x8000000 \<le> buf" "buf + 1024 \<le> 0x8400000"
    "read_dentry_by_name (store_list (mem (uk u)) buf (name @ [0])) (fsg (uk u)) buf = Some d"
    "filetype d = FILE_TYPE_REG" "inode_num d = int ino" "ino < 2 ^ 31" "wf_file (mem (uk u)) (fsg (uk u)) ino"
    "List.find (\<lambda>i. \<not> used (get_file (cur (uk u), i) (uk u))) [2..<TASK_MAX_FILES] = Some i"
  shows "\<exists>u'. cat_main (kernel_sys run) lit buf u = Some (0, u') \<and> uout u' = uout u @ file_bytes (mem (uk u)) (fsg (uk u)) ino"
proof -
  let ?m = "store_list (mem (uk u)) buf (name @ [0])" and ?g = "fsg (uk u)"
  define u1 where "u1 = u\<lparr>uk := (uk u)\<lparr>mem := ?m\<rparr>\<rparr>"
  have "same_image ?g (image_size (mem (uk u)) ?g) (mem (uk u)) ?m"
    using assms(1,3-5) by (intro same_image_store) (auto simp: user_ok_def disjoint_ranges_def)
  note s = same_image_wf [OF assms(10) this]
  have ok: "user_ok u1" using assms(1) s(2) by (simp add: user_ok_def u1_def sys_ok_def my_term_def)
  have ga: "ece391_getargs (kernel_sys run) buf 1024 u = (0, u1)"
    using assms(2-4) by (simp add: kernel_sys_def syscall_getargs_def u1_def)
  obtain u2 where u2: "ece391_open (kernel_sys run) buf u1 = Some (int i, u2)" "file_looks (int i) u2 (file_bytes (mem (uk u)) ?g ino) (uout u)"
    using user_open_law [OF ok, of buf d ino i run] assms(6-9,11) s by (auto simp: u1_def)
  obtain u3 where u3: "cat_loop (kernel_sys run) lit buf (int i) u2 = Some (0, u3)" "file_looks (int i) u3 [] (uout u @ file_bytes (mem (uk u)) ?g ino)"
    using kfile.cat_loop_copies [OF u2(2) assms(4,5)] by blast
  have "cat_main (kernel_sys run) lit buf u = Some (0, u3)" using ga u2(1) u3(1) by (simp add: cat_main_def)
  then show ?thesis using u3(2) by (auto simp: file_looks_def)
qed

text \<open>
  C17: \<^verbatim>\<open>grep\<close> finds: for a text file (no NUL bytes, lines of fewer than 1024 bytes) the function
  \<^verbatim>\<open>do_one_file\<close> ends with 0 and has printed exactly the lines of the file that contain the text, in
  their order, each with the file's name and a colon in front; however the lines lie across the 1024
  byte blocks the file is read in, and whether or not the last line ends with a newline. A text whose
  first byte is 128 or more is never found: the code compares it as a signed character. (The byte
  behind the buffer, which the code reads before it writes it, must not happen to be a newline.)
\<close>

theorem grep_prints_matches:
  assumes "user_ok u" "grep_env 0x8000000 0x8400000 lit data srch pat fname fn (mem (uk u))" "pat \<noteq> []"
    "read_dentry_by_name (mem (uk u)) (fsg (uk u)) fname = Some d" "filetype d = FILE_TYPE_REG" "inode_num d = int ino"
    "ino < 2 ^ 31" "wf_file (mem (uk u)) (fsg (uk u)) ino" "0 \<notin> set (file_bytes (mem (uk u)) (fsg (uk u)) ino)"
    "\<forall>l \<in> set (text_lines (file_bytes (mem (uk u)) (fsg (uk u)) ino)). length l < 1024"
    "List.find (\<lambda>i. \<not> used (get_file (cur (uk u), i) (uk u))) [2..<TASK_MAX_FILES] = Some i"
  shows "\<exists>u'. do_one_file (kernel_sys run) lit data srch fname u = Some (0, u')
    \<and> uout u' = uout u @ concat (map (\<lambda>l. if sublist pat l \<and> hd pat < 128 then fn @ [58] @ l @ [10] else [])
        (text_lines (file_bytes (mem (uk u)) (fsg (uk u)) ino)))"
proof -
  let ?bs = "file_bytes (mem (uk u)) (fsg (uk u)) ino"
  have "cstr (mem (uk u)) srch pat" "srch + length pat < 0x8400000" using assms(2) by (simp_all add: grep_env_def str_in_def)
  then have sl: "ece391_strlen (mem (uk u)) srch = Some (length pat)" by (intro ece391_strlen_cstr) simp_all
  obtain u1 where u1: "ece391_open (kernel_sys run) fname u = Some (int i, u1)" "mem (uk u1) = mem (uk u)" "file_looks (int i) u1 ?bs (uout u)"
    using user_open_law [OF assms(1,4-8,11)] by blast
  obtain u2 where u2: "grep_reads (kernel_sys run) lit data srch (length pat) fname (int i) 0 u1 = Some (0, u2)"
    "file_looks (int i) u2 [] (uout u @ grep_out fn pat ?bs)"
    using kfile.grep_reads_spec [OF u1(3), where c = "[]" and run = run and lit = lit and fn = fn and pat = pat] assms(2,3,9,10) u1(2)
    by fastforce
  obtain u3 where u3: "ece391_close (kernel_sys run) (int i) u2 = (0, u3)" "uout u3 = uout u2" using user_close_law [OF u2(2)] by blast
  have "do_one_file (kernel_sys run) lit data srch fname u = Some (0, u3)" using sl u1(1) u2(1) u3(1) by (simp add: do_one_file_def)
  then show ?thesis using u2(2) u3(2) by (auto simp: file_looks_def grep_out_def match_out_def [abs_def])
qed

subsection \<open>Directories\<close>

lemma dir_same:
  assumes "same_image g (image_size m g) m m'" "load32 m (bblock_ptr g) \<le> 63" "dentries g = bblock_ptr g + 64"
  shows "load32 m' (bblock_ptr g) = load32 m (bblock_ptr g)" "dir_names m' g p = dir_names m g p"
proof -
  have i: "4096 \<le> image_size m g" by (simp add: image_size_def)
  then show c: "load32 m' (bblock_ptr g) = load32 m (bblock_ptr g)" using same_image_load32 [OF assms(1), of 0] by simp
  have "name_at m' (dentries g + 64 * j) 32 = name_at m (dentries g + 64 * j) 32" if "j < 63" for j
  proof -
    have "load_list m' (dentries g + 64 * j) 32 = load_list m (dentries g + 64 * j) 32"
    proof (rule load_list_cong)
      fix x :: nat assume "x < 32"
      then show "m' (dentries g + 64 * j + x) = m (dentries g + 64 * j + x)"
        using same_imageD [OF assms(1), of "64 + 64 * j + x"] that i assms(3) by (simp add: add.assoc)
    qed
    then show ?thesis by (simp add: name_at_def)
  qed
  then show "dir_names m' g p = dir_names m g p" using assms(2) by (simp add: dir_names_def c)
qed

text \<open>What a directory has under a name; a lookup depends on the directory's entries and the name only.\<close>

definition lookup_name :: "mem \<Rightarrow> fs_globals \<Rightarrow> byte list \<Rightarrow> dentry_t option" where
  "lookup_name m g nm =
     (if nm = [] then None
      else case find (\<lambda>j. name_at m (dentries g + 64 * j) MAX_NAME_LENGTH = take MAX_NAME_LENGTH nm) [0..<load32 m (bblock_ptr g)] of
             None \<Rightarrow> None | Some j \<Rightarrow> read_dentry_by_index m g j)"

lemma dentry_lookup:
  assumes "load32 m (bblock_ptr g) \<le> 63" "name_at m fname 32 = take 32 nm"
  shows "read_dentry_by_name m g fname = lookup_name m g nm"
proof -
  have "nat (s32 (int (load32 m (bblock_ptr g)))) = load32 m (bblock_ptr g)" using assms(1) by (simp add: s32_id)
  moreover have "min (length nm) 32 = 0 \<longleftrightarrow> nm = []" by (cases nm) simp_all
  ultimately show ?thesis using assms(2) by (simp add: read_dentry_by_name_def lookup_name_def fn_length_name dentry_loop_spec)
qed

lemma lookup_name_image:
  assumes "same_image g 4096 m m'" "load32 m (bblock_ptr g) \<le> 63" "dentries g = bblock_ptr g + 64"
  shows "lookup_name m' g nm = lookup_name m g nm"
proof -
  have nm: "name_at m' (dentries g + 64 * j) 32 = name_at m (dentries g + 64 * j) 32" if "j < 63" for j
    unfolding name_at_def using that assms(1,3) by (intro arg_cong [where f = "takeWhile _"] load_list_cong) (auto simp: same_image_def)
  have n: "load32 m' (bblock_ptr g) = load32 m (bblock_ptr g)"
    using same_image_load32 [OF assms(1), of 0] by simp
  have ix: "read_dentry_by_index m' g j = read_dentry_by_index m g j" if "j < 63" for j
    using nm [OF that] n that assms(3) same_image_load32 [OF assms(1), of "64 + 64 * j + 32"] same_image_load32 [OF assms(1), of "64 + 64 * j + 36"]
    by (simp add: read_dentry_by_index_def Let_def add.assoc)
  define c where "c = load32 m (bblock_ptr g)"
  have c: "c \<le> 63" using assms(2) by (simp add: c_def)
  have "find (\<lambda>j. name_at m' (dentries g + 64 * j) 32 = take 32 nm) [0..<c] = find (\<lambda>j. name_at m (dentries g + 64 * j) 32 = take 32 nm) [0..<c]"
    using c by (intro find_cong) (auto simp: nm)
  moreover have "j < 63" if "find P [0..<c] = Some j" for P j
    using that c by (auto simp: find_Some_iff)
  ultimately show ?thesis by (simp add: lookup_name_def n c_def [symmetric] ix split: option.split)
qed

lemma dir_looks_same:
  assumes "dir_looks fd u ns ot" "pcbs (uk u') = pcbs (uk u)" "cur (uk u') = cur (uk u)" "fsg (uk u') = fsg (uk u)" "sys_ok (uk u')"
    "\<And>x. x < 0xB8000 \<or> 0xBC000 \<le> x \<Longrightarrow> x < 0x8000000 \<Longrightarrow> mem (uk u') x = mem (uk u) x"
  shows "dir_looks fd u' ns (uout u')"
proof -
  let ?g = "fsg (uk u)"
  have ok: "user_ok u" "load32 (mem (uk u)) (bblock_ptr ?g) \<le> 63" "dentries ?g = bblock_ptr ?g + 64"
    using assms(1) by (simp_all add: dir_looks_def Let_def)
  have im: "same_image ?g (image_size (mem (uk u)) ?g) (mem (uk u)) (mem (uk u'))"
    using ok(1) assms(6) by (auto simp: same_image_def user_ok_def disjoint_ranges_def)
  note s = dir_same [OF im ok(2,3)]
  have g: "get_file r (uk u') = get_file r (uk u)" for r using assms(2) by (simp add: get_file_def)
  have "user_ok u'" using ok(1) assms(2-5) image_size_same [OF im] by (simp add: user_ok_def g my_term_def)
  then show ?thesis using assms(1,3,4) s by (simp add: dir_looks_def Let_def g)
qed

lemma dir_read_law:
  fixes u :: "'a user"
  assumes "dir_looks fd u ns ot" "0x8000000 \<le> a" "ns \<noteq> [] \<Longrightarrow> a + 32 \<le> 0x8400000"
  shows "case ns of [] \<Rightarrow> \<exists>u'. user_read fd a n u = Some (0, u') \<and> dir_looks fd u' [] ot
    | nm # rs \<Rightarrow> \<exists>u'. user_read fd a n u = Some (int (length nm), u') \<and> dir_looks fd u' rs ot
        \<and> mem (uk u') = store_list (mem (uk u)) a (name_field nm 32)"
proof -
  let ?k = "uk u" and ?g = "fsg (uk u)" and ?ref = "(cur (uk u), nat fd)"
  define f where "f = get_file ?ref ?k"
  have ok: "user_ok u" "1 < fd" "fd < 8" "used f" "file_ops f = fs_dir_ops_table" "0 \<le> pos f" "pos f \<le> 63"
    "load32 (mem ?k) (bblock_ptr ?g) \<le> 63" "dentries ?g = bblock_ptr ?g + 64" "ns = dir_names (mem ?k) ?g (nat (pos f))" "ot = uout u"
    using assms(1) by (simp_all add: dir_looks_def Let_def f_def)
  have p: "to_u32 (pos f) = nat (pos f)" using ok(6,7) by (simp add: to_u32_id)
  have rd: "user_read fd a n u = (case fs_dir_read (mem ?k) ?g a n f of (v, m, f') \<Rightarrow> Some (v, u\<lparr>uk := upd_file ?ref (\<lambda>_. f') (?k\<lparr>mem := m\<rparr>), u_irqs := u_irqs u\<rparr>))"
    using ok assms(2) by (simp add: user_read_def syscall_read_def fd_used_def f_def [symmetric] split: prod.split)
  show ?thesis
  proof (cases ns)
    case Nil
    then have "\<not> nat (pos f) < load32 (mem ?k) (bblock_ptr ?g)" using ok(10) by (auto simp: dir_names_def)
    then have "fs_dir_read (mem ?k) ?g a n f = (0, mem ?k, f)" by (simp add: fs_dir_read_correct Let_def p)
    moreover have "upd_file ?ref (\<lambda>_. f) (?k\<lparr>mem := mem ?k\<rparr>) = ?k" by (simp add: upd_file_def f_def get_file_def)
    ultimately have "user_read fd a n u = Some (0, u)" using rd by simp
    then show ?thesis using assms(1) Nil by simp
  next
    case (Cons nm rs)
    then have lt: "nat (pos f) < load32 (mem ?k) (bblock_ptr ?g)" using ok(10) by (auto simp: dir_names_def intro: ccontr)
    have "dir_names (mem ?k) ?g (nat (pos f)) = name_at (mem ?k) (dentries ?g + 64 * nat (pos f)) 32 # dir_names (mem ?k) ?g (nat (pos f) + 1)"
      using lt by (simp add: dir_names_def upt_conv_Cons)
    then have nm: "nm = name_at (mem ?k) (dentries ?g + 64 * nat (pos f)) 32" "rs = dir_names (mem ?k) ?g (nat (pos f) + 1)"
      using ok(10) Cons by simp_all
    let ?m = "store_list (mem ?k) a (name_field nm 32)" and ?f = "f\<lparr>pos := pos f + 1\<rparr>"
    define k' where "k' = upd_file ?ref (\<lambda>_. ?f) (?k\<lparr>mem := ?m\<rparr>)"
    have "s32 (pos f + 1) = pos f + 1" using ok(6,7) by (intro s32_id) auto
    then have "fs_dir_read (mem ?k) ?g a n f = (int (length nm), ?m, ?f)"
      using lt by (simp add: fs_dir_read_correct Let_def p nm(1))
    then have r: "user_read fd a n u = Some (int (length nm), u\<lparr>uk := k', u_irqs := u_irqs u\<rparr>)" using rd by (simp add: k'_def)
    have len: "length (name_field nm 32) = 32" using length_name_at [of "mem ?k" _ 32] by (simp add: name_field_def nm(1) le_add_diff_inverse)
    have im: "same_image ?g (image_size (mem ?k) ?g) (mem ?k) ?m"
      using ok(1) assms(2) by (intro same_image_store) (auto simp: user_ok_def disjoint_ranges_def)
    note s = dir_same [OF im ok(8,9)] image_size_same [OF im]
    have q: "fref_ok ?ref ?k" "fref_ok (cur ?k, Suc 0) ?k" "Suc 0 \<noteq> nat fd" using ok(1,2,3) by (auto simp: user_ok_def fref_ok_def)
    have g: "get_file ?ref k' = ?f" "get_file (cur ?k, Suc 0) k' = get_file (cur ?k, Suc 0) ?k"
      using q by (simp_all add: k'_def get_file_upd)
    have fld: "cur k' = cur ?k" "fsg k' = ?g" "mem k' = ?m" "sys_ok k' = sys_ok ?k" "my_term k' = my_term ?k"
      "length (open_files (pcbs k' (cur ?k))) = length (open_files (pcbs ?k (cur ?k)))"
      by (simp_all add: k'_def upd_file_def my_term_def sys_ok_def)
    have "pos f < 63" using lt ok(6,8) by linarith
    moreover have "user_ok (u\<lparr>uk := k', u_irqs := u_irqs u\<rparr>)" using ok(1) s(3) by (simp add: user_ok_def fld g)
    ultimately have "dir_looks fd (u\<lparr>uk := k', u_irqs := u_irqs u\<rparr>) rs ot"
      using ok s g(1) nm(2) by (simp add: dir_looks_def Let_def fld nat_add_distrib)
    then show ?thesis using r fld(3) Cons by auto
  qed
qed

interpretation kdir: name_io "kernel_sys run" "0x8000000" "0x8400000" "dir_looks fd" fd
  for run :: "'a children" and fd
proof
  show "(0x8400000 :: nat) < 2 ^ 31" by simp
next
  fix u :: "'a user" and r ot and a n :: nat
  assume l: "dir_looks fd u r ot" and a: "0x8000000 \<le> a" "a + n \<le> 0x8400000"
  have ok: "user_ok u" "ot = uout u" using l by (simp_all add: dir_looks_def)
  obtain u' where w: "user_write 1 a n u = (int n, u')" "pcbs (uk u') = pcbs (uk u)" "cur (uk u') = cur (uk u)" "fsg (uk u') = fsg (uk u)"
    "sys_ok (uk u')" "uout u' = uout u @ load_list (mem (uk u)) a n" "\<forall>x. x < 0xB8000 \<or> 0xBC000 \<le> x \<longrightarrow> mem (uk u') x = mem (uk u) x"
    using user_write_law [OF ok(1) a] by blast
  have "dir_looks fd u' r (uout u')" using w by (intro dir_looks_same [OF l]) auto
  then show "\<exists>u'. ece391_write (kernel_sys run) 1 a n u = (int n, u') \<and> dir_looks fd u' r (ot @ load_list (s_mem (kernel_sys run) u) a n)
      \<and> (\<forall>x. 0x8000000 \<le> x \<and> x < 0x8400000 \<longrightarrow> s_mem (kernel_sys run) u' x = s_mem (kernel_sys run) u x)"
    using w ok(2) by auto
next
  fix u :: "'a user" and r ot and m :: mem
  assume l: "dir_looks fd u r ot" and m: "\<forall>x. x < 0x8000000 \<or> 0x8400000 \<le> x \<longrightarrow> m x = s_mem (kernel_sys run) u x"
  let ?u = "u\<lparr>uk := (uk u)\<lparr>mem := m\<rparr>\<rparr>"
  have "sys_ok (uk ?u)" using l by (simp add: dir_looks_def user_ok_def sys_ok_def)
  then have "dir_looks fd ?u r (uout ?u)" using m by (intro dir_looks_same [OF l]) auto
  then show "dir_looks fd (s_store (kernel_sys run) m u) r ot \<and> s_mem (kernel_sys run) (s_store (kernel_sys run) m u) = m"
    using l by (simp add: dir_looks_def)
next
  fix u :: "'a user" and ot and a n :: nat
  assume "dir_looks fd u [] ot" "0x8000000 \<le> a"
  then show "\<exists>u'. ece391_read (kernel_sys run) fd a n u = Some (0, u') \<and> dir_looks fd u' [] ot"
    using dir_read_law [of fd u "[]" ot a n] by simp
next
  fix u :: "'a user" and nm ns ot and a n :: nat
  assume "dir_looks fd u (nm # ns) ot" "0x8000000 \<le> a" "a + 32 \<le> 0x8400000"
  then show "\<exists>u'. ece391_read (kernel_sys run) fd a n u = Some (int (length nm), u') \<and> dir_looks fd u' ns ot
      \<and> (\<forall>x. 0x8000000 \<le> x \<and> x < 0x8400000 \<longrightarrow> s_mem (kernel_sys run) u' x = store_list (s_mem (kernel_sys run) u) a (name_field nm 32) x)"
    using dir_read_law [of fd u "nm # ns" ot a n] by auto
qed

text \<open>
  C19: \<^verbatim>\<open>ls\<close> lists the directory: when all names are non-empty, the program ends with status 0 and has
  written every name of the directory, in order and each on a line of its own, and nothing else.
\<close>

theorem ls_lists_names:
  assumes "user_ok u" "read_dentry_by_name (mem (uk u)) (fsg (uk u)) (lit ''.'') = Some d" "filetype d = FILE_TYPE_DIR"
    "List.find (\<lambda>i. \<not> used (get_file (cur (uk u), i) (uk u))) [2..<TASK_MAX_FILES] = Some i"
    "0x8000000 \<le> buf" "buf + 33 \<le> 0x8400000" "fsg (uk u) = fs_init b" "load32 (mem (uk u)) b \<le> 63"
    "[] \<notin> set (dir_names (mem (uk u)) (fsg (uk u)) 0)"
  shows "\<exists>u'. ls_main (kernel_sys run) lit buf u = Some (0, u')
    \<and> uout u' = uout u @ concat (map (\<lambda>nm. nm @ [10]) (dir_names (mem (uk u)) (fsg (uk u)) 0))"
proof -
  let ?ns = "dir_names (mem (uk u)) (fsg (uk u)) 0"
  have rtc: "filetype d \<noteq> FILE_TYPE_RTC" "filetype d \<noteq> FILE_TYPE_REG"
    using assms(3) by (simp_all add: FILE_TYPE_REG_def FILE_TYPE_RTC_def FILE_TYPE_DIR_def)
  obtain u' where u': "ece391_open (kernel_sys run) (lit ''.'') u = Some (int i, u')" "user_ok u'" "mem (uk u') = mem (uk u)"
      "fsg (uk u') = fsg (uk u)" "uout u' = uout u" "2 \<le> i" "i < 8"
    and f: "let f = get_file (cur (uk u'), i) (uk u') in used f \<and> pos f = 0 \<and> file_ops f = fs_dir_ops_table"
    using user_open_state [OF assms(1,2) rtc(1) assms(4), of run] rtc(2) by (auto simp: Let_def)
  have dl: "dir_looks (int i) u' ?ns (uout u)"
    using u' f assms(7,8) by (simp add: dir_looks_def Let_def fs_init_def)
  have "\<forall>nm \<in> set ?ns. length nm \<le> 32" by (auto simp: dir_names_def length_name_at)
  then have "\<forall>nm \<in> set ?ns. nm \<noteq> [] \<and> length nm \<le> 32" using assms(9) by metis
  then obtain u2 where u2: "ls_loop (kernel_sys run) lit buf (int i) u' = Some (0, u2)"
    "dir_looks (int i) u2 [] (uout u @ concat (map (\<lambda>nm. nm @ [10]) ?ns))"
    using kdir.ls_loop_lists [OF dl assms(5,6), of run lit] by auto
  have "ls_main (kernel_sys run) lit buf u = Some (0, u2)" using u'(1) u2(1) by (simp add: ls_main_def)
  then show ?thesis using u2(2) by (auto simp: dir_looks_def)
qed

subsection \<open>The example\<close>

lemma demo_text_list:
  "demo_text = [104, 101, 108, 108, 111, 32, 119, 111, 114, 108, 100, 10, 102, 111, 111, 32, 98, 97, 114, 115, 10, 104, 101, 108, 108, 111, 33, 10]"
  by (simp add: demo_text_def of_char_of)

lemma demo_dir_at:
  "demo_dir a = (if 0x3000 \<le> a \<and> a < 0x301C then demo_text ! (a - 0x3000)
     else ((\<lambda>_. 0)(0x1000 := 2, 0x1004 := 1, 0x1008 := 1, 0x1040 := 46, 0x1060 := 1, 0x1080 := 115, 0x10A0 := 2,
     0x2000 := 28, 0x8000100 := 102, 0x8000101 := 111, 0x8000102 := 111, 0x8000200 := 115, 0x8000300 := 58, 0x8000400 := 10,
     0x8000500 := 46)) a)"
  by (simp add: demo_dir_def store_list_def demo_text_list)

lemma dir_image:
  assumes "dir_like m"
  shows "load32 m 0x1000 = 2" "load32 m 0x1004 = 1" "load32 m 0x1008 = 1" "load32 m 0x2000 = 28" "load32 m 0x2004 = 0"
    "load32 m 0x1060 = 1" "load32 m 0x10A0 = 2" "load32 m 0x10A4 = 0" "name_at m 0x1040 32 = [46]" "name_at m 0x1080 32 = [115]"
    "i < 28 \<Longrightarrow> m (0x3000 + i) = demo_text ! i"
  using assms by (simp_all add: dir_like_def load32_def demo_dir_at name_at_one)

lemma dir_wf:
  assumes "dir_like m"
  shows "wf_file m demo_fs 0" "file_bytes m demo_fs 0 = demo_text" "image_size m demo_fs = 12288"
proof -
  note im = dir_image [OF assms]
  have c: "inode_count_of m demo_fs = 1" "data_block_count_of m demo_fs = 1" "file_size m demo_fs 0 = 28"
    "data_block m demo_fs 0 0 = 0" "image_size m demo_fs = 12288"
    by (simp_all add: inode_count_of_def data_block_count_of_def file_size_def data_block_def image_size_def demo_image im)
  then show "image_size m demo_fs = 12288" by simp
  have "data_block m demo_fs 0 j < 1" if "j * 4096 < 28" for j using that c(4) by (cases j) simp_all
  then show "wf_file m demo_fs 0" by (simp add: wf_file_def c demo_image)
  show "file_bytes m demo_fs 0 = demo_text"
  proof (rule nth_equalityI)
    show "length (file_bytes m demo_fs 0) = length demo_text" by (simp add: file_bytes_def c demo_text_list)
    fix i assume "i < length (file_bytes m demo_fs 0)"
    then show "file_bytes m demo_fs 0 ! i = demo_text ! i"
      by (simp add: file_bytes_def c byte_addr_def demo_image im(11))
  qed
qed

lemma dir_dentry:
  assumes "dir_like m" "m (fname + 1) = 0"
  shows "m fname = 115 \<Longrightarrow> \<exists>d. read_dentry_by_name m demo_fs fname = Some d \<and> filetype d = FILE_TYPE_REG \<and> inode_num d = int 0"
    "m fname = 46 \<Longrightarrow> \<exists>d. read_dentry_by_name m demo_fs fname = Some d \<and> filetype d = FILE_TYPE_DIR"
proof -
  note im = dir_image [OF assms(1)]
  have u: "[0..<nat (s32 (int 2))] = [0, 1]" by (simp add: s32_id upt_rec)
  have "name_at m fname 32 = [m fname]" if "m fname \<noteq> 0" using that assms(2) by (rule name_at_one) simp
  note n = this
  show "\<exists>d. read_dentry_by_name m demo_fs fname = Some d \<and> filetype d = FILE_TYPE_REG \<and> inode_num d = int 0" if "m fname = 115"
    using that n im u by (simp add: read_dentry_by_name_def fn_length_name dentry_loop_spec demo_image read_dentry_by_index_def Let_def FILE_TYPE_REG_def s32_id)
  show "\<exists>d. read_dentry_by_name m demo_fs fname = Some d \<and> filetype d = FILE_TYPE_DIR" if "m fname = 46"
    using that n im u by (simp add: read_dentry_by_name_def fn_length_name dentry_loop_spec demo_image read_dentry_by_index_def Let_def FILE_TYPE_DIR_def s32_id)
qed

lemma demo_user_simps [simp]:
  "mem (uk demo_user) = demo_dir" "fsg (uk demo_user) = demo_fs" "cur (uk demo_user) = 0" "uout demo_user = []"
  "cmd_args (pcbs (uk demo_user) p) = Some [115]"
  by (simp_all add: demo_user_def)

lemma dir_likes: "dir_like demo_dir" "0x8000000 \<le> a \<Longrightarrow> dir_like (store_list demo_dir a xs)"
  by (simp_all add: dir_like_def store_list_def)

lemma demo_user_ok: "user_ok demo_user"
proof -
  have "sys_ok (init_term (boot_sys (\<lambda>_. 0)))" by (rule boot_sys_ok)
  moreover have "cur_term_ind (init_term (boot_sys m)) = 0" for m by (simp add: init_term_def Let_def clear_eq boot_sys_def)
  ultimately have "sys_ok (uk demo_user)" by (simp add: demo_user_def sys_ok_def)
  then show ?thesis using dir_wf(3) [OF dir_likes(1)]
    by (simp add: user_ok_def) (simp add: demo_user_def my_term_def pcb_zero_def get_file_def disjoint_ranges_def demo_image)
qed

text \<open>A process with given strings in its page, at distances of 64 bytes, and with both of its terminal descriptors open.\<close>

definition text_at :: "string list \<Rightarrow> string \<Rightarrow> addr" where
  "text_at texts x = 0x8002000 + 64 * length (takeWhile (\<lambda>t. t \<noteq> x) texts)"

definition text_mem :: "string list \<Rightarrow> mem" where
  "text_mem texts a =
     (if 0x8002000 \<le> a \<and> a < 0x8002000 + 64 * length texts
      then let t = texts ! ((a - 0x8002000) div 64); j = (a - 0x8002000) mod 64 in if j < length t then of_char (t ! j) else 0
      else demo_dir a)"

definition demo_texts :: "string list \<Rightarrow> unit user" where
  "demo_texts texts = demo_user\<lparr>uk := (uk demo_user)\<lparr>mem := text_mem texts,
     pcbs := (\<lambda>_. pcb_zero\<lparr>open_files := (replicate 8 (demo_file\<lparr>used := False\<rparr>))
       [0 := demo_file\<lparr>used := True, file_ops := stdin_file_ops_table\<rparr>, 1 := demo_file\<lparr>used := True, file_ops := stdout_file_ops_table\<rparr>]\<rparr>)\<rparr>\<rparr>"

lemma position_less: "x \<in> set xs \<Longrightarrow> length (takeWhile (\<lambda>t. t \<noteq> x) xs) < length xs"
  by (induction xs) auto

lemma text_cstr:
  assumes "x \<in> set texts" "\<forall>t \<in> set texts. length t < 64 \<and> 0 \<notin> set (bytes_of t)"
  shows "cstr (text_mem texts) (text_at texts x) (bytes_of x)" "0x8002000 \<le> text_at texts x"
    "text_at texts x + 64 \<le> 0x8002000 + 64 * length texts"
proof -
  define i where "i = length (takeWhile (\<lambda>t. t \<noteq> x) texts)"
  have i: "i < length texts" using position_less [OF assms(1)] by (simp add: i_def)
  have ti: "texts ! i = x" using nth_length_takeWhile [of "\<lambda>t. t \<noteq> x" texts] i by (simp add: i_def)
  have x: "length x < 64" "0 \<notin> set (bytes_of x)" using assms by simp_all
  have lit: "text_at texts x = 0x8002000 + 64 * i" by (simp add: text_at_def i_def)
  have at: "text_mem texts (text_at texts x + j) = (if j < length x then of_char (x ! j) else 0)" if "j < 64" for j
    using that i ti by (simp add: text_mem_def lit Let_def)
  have "load_list (text_mem texts) (text_at texts x) (length (bytes_of x)) = bytes_of x"
    using x(1) by (intro nth_equalityI) (simp_all add: load_list_def bytes_of_def at)
  then show "cstr (text_mem texts) (text_at texts x) (bytes_of x)" using x at [of "length x"] by (simp add: cstr_def bytes_of_def)
  show "0x8002000 \<le> text_at texts x" "text_at texts x + 64 \<le> 0x8002000 + 64 * length texts" using i by (simp_all add: lit)
qed

lemma text_mem_dir: "dir_like (text_mem texts)"
  by (simp add: dir_like_def text_mem_def)

lemma demo_texts_simps [simp]:
  "mem (uk (demo_texts texts)) = text_mem texts" "fsg (uk (demo_texts texts)) = demo_fs" "cur (uk (demo_texts texts)) = 0"
  "uout (demo_texts texts) = []"
  by (simp_all add: demo_texts_def)

lemma demo_texts_files:
  "get_file (0, i) (uk (demo_texts texts)) = (replicate 8 (demo_file\<lparr>used := False\<rparr>))
       [0 := demo_file\<lparr>used := True, file_ops := stdin_file_ops_table\<rparr>, 1 := demo_file\<lparr>used := True, file_ops := stdout_file_ops_table\<rparr>] ! i"
  by (simp add: demo_texts_def get_file_def)

lemma demo_texts_ok: "user_ok (demo_texts texts)" "my_term (uk (demo_texts texts)) = 0"
proof -
  have "sys_ok (uk demo_user)" using demo_user_ok by (simp add: user_ok_def)
  then have "sys_ok (uk (demo_texts texts))" by (simp add: demo_texts_def sys_ok_def)
  moreover show t: "my_term (uk (demo_texts texts)) = 0" by (simp add: my_term_def demo_texts_def pcb_zero_def)
  moreover have "length (open_files (pcbs (uk (demo_texts texts)) 0)) = 8" by (simp add: demo_texts_def)
  ultimately show "user_ok (demo_texts texts)"
    using dir_wf(3) [OF text_mem_dir] by (simp add: user_ok_def demo_texts_files disjoint_ranges_def demo_image)
qed

lemma demo_slot: "List.find (\<lambda>i. \<not> used (get_file (cur (uk demo_user), i) (uk demo_user))) [2..<TASK_MAX_FILES] = Some 2"
  by (simp add: demo_user_def get_file_def upt_rec [of _ 8])

theorem cat_prints_file_witness:
  "\<exists>u'. cat_main (kernel_sys no_children) demo_lit 0x8001000 demo_user = Some (0, u') \<and> uout u' = demo_text"
proof -
  let ?m = "store_list demo_dir 0x8001000 [115, 0]"
  have "?m 0x8001000 = 115" "?m (0x8001000 + 1) = 0" by (simp_all add: store_list_def)
  then obtain d where "read_dentry_by_name ?m demo_fs 0x8001000 = Some d" "filetype d = FILE_TYPE_REG" "inode_num d = int 0"
    using dir_dentry(1) [OF dir_likes(2), of "0x8001000" "[115, 0]" "0x8001000"] by auto
  then show ?thesis
    using cat_prints_file [OF demo_user_ok, of "[115]" "0x8001000" d 0 2] demo_slot dir_wf [OF dir_likes(1)] by simp
qed

theorem ls_lists_names_witness:
  "\<exists>u'. ls_main (kernel_sys no_children) demo_lit 0x8001000 demo_user = Some (0, u') \<and> uout u' = [46, 10, 115, 10]"
proof -
  have l: "demo_lit ''.'' = 0x8000500" "demo_dir 0x8000500 = 46" "demo_dir (0x8000500 + 1) = 0" by (simp_all add: demo_lit_def demo_dir_at)
  then obtain d where "read_dentry_by_name demo_dir demo_fs (demo_lit ''.'') = Some d" "filetype d = FILE_TYPE_DIR"
    using dir_dentry(2) [OF dir_likes(1), of "0x8000500"] by auto
  moreover have "dir_names demo_dir demo_fs 0 = [[46], [115]]"
    using dir_image [OF dir_likes(1)] by (simp add: dir_names_def demo_image upt_rec numeral_2_eq_2)
  ultimately show ?thesis
    using ls_lists_names [OF demo_user_ok, of demo_lit d 2 "0x8001000" "0x1000"] demo_slot dir_image(1) [OF dir_likes(1)]
    by (simp add: demo_fs_def)
qed

theorem grep_prints_matches_witness:
  "\<exists>u'. do_one_file (kernel_sys no_children) demo_lit 0x8001000 0x8000100 0x8000200 demo_user = Some (0, u')
    \<and> uout u' = [115, 58, 102, 111, 111, 32, 98, 97, 114, 115, 10]"
proof -
  have "demo_dir 0x8000200 = 115" "demo_dir (0x8000200 + 1) = 0" by (simp_all add: demo_dir_at)
  then obtain d where d: "read_dentry_by_name demo_dir demo_fs 0x8000200 = Some d" "filetype d = FILE_TYPE_REG" "inode_num d = int 0"
    using dir_dentry(1) [OF dir_likes(1), of "0x8000200"] by auto
  have e: "grep_env 0x8000000 0x8400000 demo_lit 0x8001000 0x8000100 [102, 111, 111] 0x8000200 [115] demo_dir"
    by (simp add: grep_env_def str_in_def cstr_def load_list_Suc demo_lit_def demo_dir_at disjoint_ranges_def)
  have ln: "text_lines demo_text = [[104, 101, 108, 108, 111, 32, 119, 111, 114, 108, 100], [102, 111, 111, 32, 98, 97, 114, 115],
      [104, 101, 108, 108, 111, 33]]"
    by (simp add: demo_text_list text_lines.simps [of "_ # _"])
  show ?thesis
    using grep_prints_matches [OF demo_user_ok, of demo_lit "0x8001000" "0x8000100" "[102, 111, 111]" "0x8000200" "[115]" d 0 2]
      e d demo_slot dir_wf [OF dir_likes(1)] ln
    by (simp add: demo_text_list sublist_Cons_right)
qed

end
