(* ===== verification/Keyboard.thy ===== *)
theory Keyboard
  imports Line_Edit Pic
begin

text \<open>
  The keyboard driver (\<^verbatim>\<open>student-distrib/kb.c\<close>): the scan code tables and the interrupt
  handler. The state of the driver (modifier keys held, Caps Lock, the two-byte sequence detector)
  stands beside the kernel state; the bytes read from the status and data ports are arguments.

  On F11 and F12 the code also passes a variable it never initialised to the terminal; its contents
  are the argument \<open>junk\<close>.
\<close>

record kb =
  kb_shift :: bool
  kb_ctrl :: bool
  kb_alt :: bool
  kb_caps :: bool
  scan_state :: nat

abbreviation (input) PRINT_KEY_NUM :: nat where "PRINT_KEY_NUM \<equiv> 0x3A"

definition keyboard_map :: "key_t list" where
  "keyboard_map = [
     key_R 0, key_R KEY_ESC, key_P 49, key_P 50, key_P 51, key_P 52, key_P 53, key_P 54,
     key_P 55, key_P 56, key_P 57, key_P 48, key_P 45, key_P 61, key_R KEY_BACK, key_R KEY_TAB,
     key_P 113, key_P 119, key_P 101, key_P 114, key_P 116, key_P 121, key_P 117, key_P 105,
     key_P 111, key_P 112, key_P 91, key_P 93, key_R KEY_ENTER, key_R 0, key_P 97, key_P 115,
     key_P 100, key_P 102, key_P 103, key_P 104, key_P 106, key_P 107, key_P 108, key_P 59,
     key_P 39, key_P 96, key_R 0, key_P 92, key_P 122, key_P 120, key_P 99, key_P 118,
     key_P 98, key_P 110, key_P 109, key_P 44, key_P 46, key_P 47, key_R 0, key_P 42,
     key_R 0, key_P 32]"

definition shift_map :: "key_t list" where
  "shift_map = [
     key_R 0, key_R KEY_ESC, key_P 33, key_P 64, key_P 35, key_P 36, key_P 37, key_P 94,
     key_P 38, key_P 42, key_P 40, key_P 41, key_P 95, key_P 43, key_R KEY_BACK, key_R KEY_TAB,
     key_P 81, key_P 87, key_P 69, key_P 82, key_P 84, key_P 89, key_P 85, key_P 73,
     key_P 79, key_P 80, key_P 123, key_P 125, key_R KEY_ENTER, key_R 0, key_P 65, key_P 83,
     key_P 68, key_P 70, key_P 71, key_P 72, key_P 74, key_P 75, key_P 76, key_P 58,
     key_P 34, key_P 126, key_R 0, key_P 124, key_P 90, key_P 88, key_P 67, key_P 86,
     key_P 66, key_P 78, key_P 77, key_P 60, key_P 62, key_P 63, key_R 0, key_P 42,
     key_R 0, key_P 32]"

definition ctrl_map :: "key_t list" where
  "ctrl_map = [
     key_R 0, key_C KEY_ESC, key_C 49, key_C 50, key_C 51, key_C 52, key_C 53, key_C 54,
     key_C 55, key_C 56, key_C 57, key_C 48, key_C 45, key_C 61, key_C KEY_BACK, key_C KEY_TAB,
     key_C 113, key_C 119, key_C 101, key_C 114, key_C 116, key_C 121, key_C 117, key_C 105,
     key_C 111, key_C 112, key_C 91, key_C 93, key_C KEY_ENTER, key_R 0, key_C 97, key_C 115,
     key_C 100, key_C 102, key_C 103, key_C 104, key_C 106, key_C 107, key_C 108, key_C 59,
     key_C 39, key_C 96, key_R 0, key_C 92, key_C 122, key_C 120, key_C 99, key_C 118,
     key_C 98, key_C 110, key_C 109, key_C 44, key_C 46, key_C 47, key_R 0, key_C 42,
     key_R 0, key_C 32]"

definition alt_map :: "key_t list" where
  "alt_map = [
     key_R 0, key_A KEY_ESC, key_A 49, key_A 50, key_A 51, key_A 52, key_A 53, key_A 54,
     key_A 55, key_A 56, key_A 57, key_A 48, key_A 45, key_A 61, key_A KEY_BACK, key_A KEY_TAB,
     key_A 113, key_A 119, key_A 101, key_A 114, key_A 116, key_A 121, key_A 117, key_A 105,
     key_A 111, key_A 112, key_A 91, key_A 93, key_A KEY_ENTER, key_R 0, key_A 97, key_A 115,
     key_A 100, key_A 102, key_A 103, key_A 104, key_A 106, key_A 107, key_A 108, key_A 59,
     key_A 39, key_A 96, key_R 0, key_A 92, key_A 122, key_A 120, key_A 99, key_A 118,
     key_A 98, key_A 110, key_A 109, key_A 44, key_A 46, key_A 47, key_R 0, key_A 42,
     key_R 0, key_A 32]"

definition init_kb :: "pic \<times> 'a machine_scheme \<Rightarrow> pic \<times> 'a machine_scheme" where
  "init_kb ps = (let (p, s) = enable_irq 1 (fst ps, cli (snd ps)) in (p, sti s))"

text \<open>The modifier bits of the keys held, added to a key.\<close>

definition add_modifiers :: "kb \<Rightarrow> key_t \<Rightarrow> key_t" where
  "add_modifiers k ky =
     (let k1 = (if kb_ctrl k then ky\<lparr>modifiers := modifiers ky OR MOD_CTRL\<rparr> else ky);
          k2 = (if kb_shift k then k1\<lparr>modifiers := modifiers k1 OR MOD_SHIFT\<rparr> else k1)
      in if kb_alt k then k2\<lparr>modifiers := modifiers k2 OR MOD_ALT\<rparr> else k2)"

definition kb_key :: "nat \<Rightarrow> kb \<Rightarrow> key_t" where
  "kb_key code k =
     (if kb_caps k then
        (if \<not> kb_shift k \<and> 97 \<le> key (keyboard_map ! code) \<and> key (keyboard_map ! code) \<le> 122
         then shift_map ! code else keyboard_map ! code)
      else if kb_shift k then shift_map ! code
      else if kb_ctrl k then ctrl_map ! code
      else if kb_alt k then alt_map ! code
      else keyboard_map ! code)"

definition kb_plain :: "key_t \<Rightarrow> bool \<Rightarrow> nat \<Rightarrow> kb \<times> 'a proc_sys_scheme \<Rightarrow> kb \<times> 'a proc_sys_scheme" where
  "kb_plain junk pressed keycode ks =
     (let (k, s) = ks in
      if keycode = 0x2A \<or> keycode = 0x36 then (k\<lparr>kb_shift := pressed\<rparr>, s)
      else if keycode = 0x1D then (k\<lparr>kb_ctrl := pressed\<rparr>, s)
      else if keycode = 0x38 then (k\<lparr>kb_alt := pressed\<rparr>, s)
      else if keycode = 0x3A then (if pressed then k\<lparr>kb_caps := \<not> kb_caps k\<rparr> else k, s)
      else if keycode = 0x57 then
        (k, if pressed then term_key_handler (add_modifiers k junk) (term_key_handler (key_R KEY_F11) s) else s)
      else if keycode = 0x58 then
        (k, if pressed then term_key_handler (add_modifiers k junk) (term_key_handler (key_R KEY_F12) s) else s)
      else if 0x3B \<le> keycode \<and> keycode \<le> 0x44 \<and> pressed then
        (k, term_key_handler (add_modifiers k (key_R (KEY_F1 + word_of_nat keycode - 0x3B))) s)
      else if PRINT_KEY_NUM \<le> keycode \<or> \<not> pressed then (k, s)
      else (k, term_key_handler (kb_key keycode k) s))"

definition kb_extended :: "bool \<Rightarrow> nat \<Rightarrow> kb \<times> 'a proc_sys_scheme \<Rightarrow> kb \<times> 'a proc_sys_scheme" where
  "kb_extended pressed keycode ks =
     (let (k, s) = ks;
          (k', s') =
            (if keycode = 0x1D then (k\<lparr>kb_ctrl := pressed\<rparr>, s)
             else if keycode = 0x38 then (k\<lparr>kb_alt := pressed\<rparr>, s)
             else if keycode = 0x4B then (k, if pressed then term_key_handler (key_R KEY_LEFT) s else s)
             else if keycode = 0x4D then (k, if pressed then term_key_handler (key_R KEY_RIGHT) s else s)
             else (k, s))
      in (k'\<lparr>scan_state := 0\<rparr>, s'))"

definition kb_isr :: "byte \<Rightarrow> byte \<Rightarrow> key_t \<Rightarrow> kb \<times> 'a proc_sys_scheme \<Rightarrow> kb \<times> 'a proc_sys_scheme" where
  "kb_isr status code junk ks =
     (let (k, s) = ks in
      if status AND 0x01 = 0 then ks
      else if code = 0xE0 then (k\<lparr>scan_state := 1\<rparr>, s)
      else
        let pressed = (code AND 0x80 = 0); keycode = unat (code AND 0x7F)
        in if scan_state k = 0 then kb_plain junk pressed keycode ks
           else if scan_state k = 1 then kb_extended pressed keycode ks
           else ks)"

subsection \<open>Lemmas\<close>

definition kb_ok :: "kb \<times> 'a proc_sys_scheme \<Rightarrow> bool" where
  "kb_ok ks \<longleftrightarrow> scan_state (fst ks) \<le> 1 \<and> sys_ok (snd ks)"

definition letter_code :: "nat \<Rightarrow> bool" where
  "letter_code c \<longleftrightarrow> c < PRINT_KEY_NUM \<and> 97 \<le> key (keyboard_map ! c) \<and> key (keyboard_map ! c) \<le> 122"

lemma handler_ok [simp]: "sys_ok s \<Longrightarrow> sys_ok (term_key_handler k s)"
  using key_handler_ok by blast

lemma kb_isr_ok: "kb_ok ks \<Longrightarrow> kb_ok (kb_isr status code junk ks)"
  by (cases ks) (simp add: kb_isr_def kb_plain_def kb_extended_def kb_ok_def Let_def)

text \<open>
  Whatever bytes the keyboard controller delivers, in whatever order, the driver's sequence
  detector stays in one of its two states and the terminals stay consistent.
\<close>

theorem kb_isr_keeps_terminals:
  assumes "kb_ok ks"
  shows "kb_ok (fold (\<lambda>(status, code, junk). kb_isr status code junk) events ks)"
  using assms by (intro fold_preserves [of events kb_ok]) (auto simp: kb_isr_ok)

theorem kb_isr_keeps_terminals_witness:
  "kb_ok (fold (\<lambda>(status, code, junk). kb_isr status code junk) [(1, 0x1E, key_R 0), (1, 0xE0, key_R 0), (1, 0x4B, key_R 0), (1, 0x57, key_R 0xFF)]
     (\<lparr>kb_shift = False, kb_ctrl = False, kb_alt = False, kb_caps = False, scan_state = 0\<rparr>, init_term (boot_sys (\<lambda>_. 0))))"
  by (rule kb_isr_keeps_terminals) (simp add: kb_ok_def boot_sys_ok)

lemma tables_agree:
  "list_all (\<lambda>c. 97 \<le> key (keyboard_map ! c) \<and> key (keyboard_map ! c) \<le> 122 \<longrightarrow>
       keyboard_map ! c = key_P (key (keyboard_map ! c)) \<and> shift_map ! c = key_P (key (keyboard_map ! c) - 32)
     \<and> ctrl_map ! c = key_C (key (keyboard_map ! c)) \<and> alt_map ! c = key_A (key (keyboard_map ! c))) [0..<PRINT_KEY_NUM]"
  by code_simp

lemma letter_tables:
  assumes "letter_code c"
  shows "keyboard_map ! c = key_P (key (keyboard_map ! c))" "shift_map ! c = key_P (key (keyboard_map ! c) - 32)"
    "ctrl_map ! c = key_C (key (keyboard_map ! c))" "alt_map ! c = key_A (key (keyboard_map ! c))"
  using tables_agree assms unfolding list_all_iff letter_code_def by (metis atLeastLessThan_iff le0 set_upt)+

text \<open>
  The four scan code tables agree on the letters: a letter is upper case exactly when one of
  Shift and Caps Lock is on, with Ctrl or Alt held it is the same letter with that modifier, and
  with Caps Lock on the modifiers are lost (so Ctrl-C cannot be typed).
\<close>

theorem kb_letters:
  assumes "letter_code c"
  shows "(\<not> kb_ctrl k \<and> \<not> kb_alt k \<longrightarrow>
           kb_key c k = key_P (if kb_caps k \<noteq> kb_shift k then key (keyboard_map ! c) - 32 else key (keyboard_map ! c)))
       \<and> (\<not> kb_caps k \<and> \<not> kb_shift k \<and> kb_ctrl k \<longrightarrow> kb_key c k = key_C (key (keyboard_map ! c)))
       \<and> (\<not> kb_caps k \<and> \<not> kb_shift k \<and> \<not> kb_ctrl k \<and> kb_alt k \<longrightarrow> kb_key c k = key_A (key (keyboard_map ! c)))
       \<and> (kb_caps k \<longrightarrow> modifiers (kb_key c k) = 0)"
proof -
  have "97 \<le> key (keyboard_map ! c) \<and> key (keyboard_map ! c) \<le> 122" using assms by (simp add: letter_code_def)
  moreover have "modifiers (keyboard_map ! c) = 0" "modifiers (shift_map ! c) = 0"
    by (subst letter_tables [OF assms], simp add: key_P_def)+
  ultimately show ?thesis
    using letter_tables [OF assms] by (auto simp: kb_key_def)
qed

theorem kb_letters_witness:
  "kb_key 0x2E \<lparr>kb_shift = False, kb_ctrl = True, kb_alt = False, kb_caps = False, scan_state = 0\<rparr> = key_C 99
   \<and> modifiers (kb_key 0x2E \<lparr>kb_shift = False, kb_ctrl = True, kb_alt = False, kb_caps = True, scan_state = 0\<rparr>) = 0"
proof -
  have l: "letter_code 0x2E" "key (keyboard_map ! 0x2E) = 99" by code_simp+
  show ?thesis
    using kb_letters [OF l(1), of "\<lparr>kb_shift = False, kb_ctrl = True, kb_alt = False, kb_caps = False, scan_state = 0\<rparr>"]
      kb_letters [OF l(1), of "\<lparr>kb_shift = False, kb_ctrl = True, kb_alt = False, kb_caps = True, scan_state = 0\<rparr>"] l(2)
    by simp
qed

end
