(* ===== verification/Linkage.thy ===== *)
theory Linkage
  imports Idt User_Io Keyboard
begin

text \<open>
  The assembly that joins programs, devices and the kernel (\<^verbatim>\<open>student-distrib/idt_asm.S\<close>,
  \<^verbatim>\<open>syscalls/ece391syscall.S\<close>): the wrappers of the system calls, the common entry \<^verbatim>\<open>common_isr\<close> with its
  table of system calls, the exceptions and the device interrupts, and the way back through
  \<open>check_signals\<close>. A saved context has the registers
  in the order of \<^verbatim>\<open>hw_context_t\<close>: EBX, ECX, EDX, ESI, EDI, EBP, EAX and three segment registers.

  \<open>trap_env\<close> is what the calls need beside the state: the interrupts that arrive while a call sleeps,
  the byte read from the clock, the local arrays of \<^verbatim>\<open>_syscall_execute\<close> and the address of
  \<^verbatim>\<open>sigreturn_linkage\<close>.
\<close>

record 'a trap_env =
  t_irqs :: "'a irqs"
  t_port :: byte
  t_locals :: exec_locals
  t_linkage :: nat

definition reg32 :: "int \<Rightarrow> nat" where
  "reg32 v = nat (v mod 2 ^ 32)"

definition eax :: "hw_context_t \<Rightarrow> int" where
  "eax c = s32 (int (regs c ! 6))"

definition set_eax :: "int \<Rightarrow> hw_context_t \<Rightarrow> hw_context_t" where
  "set_eax v c = c\<lparr>regs := (regs c)[6 := reg32 v]\<rparr>"

text \<open>The entry \<open>n\<close> of \<^verbatim>\<open>SYSCALL_JMP_TAB\<close>, from 1; the arguments are the saved EBX, ECX and EDX on the stack.\<close>

definition syscall_jmp_tab :: "'a trap_env \<Rightarrow> int \<Rightarrow> hw_context_t \<Rightarrow> 'a kernel_scheme
    \<Rightarrow> (flow \<times> hw_context_t \<times> 'a kernel_scheme \<times> 'a irqs) option" where
  "syscall_jmp_tab env n c k =
     (let ebx = regs c ! 0; ecx = regs c ! 1; edx = regs c ! 2; fd = s32 (int ebx);
          ret = (\<lambda>(v, k'). Some (Returns v, c, k', t_irqs env))
      in if n = 1 then (case syscall_halt (t_port env) (word_of_nat ebx) c k of (fl, c', k') \<Rightarrow> Some (fl, c', k', t_irqs env))
         else if n = 2 then map_option (\<lambda>(fl, k'). (fl, c, k', t_irqs env)) (syscall_execute (t_locals env) ebx k)
         else if n = 3 then map_option (\<lambda>(v, k', is). (Returns v, c, k', is)) (syscall_read fd ecx edx (t_irqs env) k)
         else if n = 4 then ret (syscall_write (t_port env) fd ecx edx k)
         else if n = 5 then Option.bind (syscall_open ebx k) ret
         else if n = 6 then ret (syscall_close (t_port env) fd k)
         else if n = 7 then ret (syscall_getargs ebx ecx k)
         else if n = 8 then ret (syscall_vidmap ebx k)
         else if n = 9 then ret (syscall_set_handler fd ecx k)
         else if n = 10 then (case syscall_sigreturn c (mem k) of (v, c') \<Rightarrow> Some (Returns (int (regs c' ! 6)), c', k, t_irqs env))
         else if n = 11 then (case sys_malloc ebx k of (p, k') \<Rightarrow> Some (Returns (int p), c, k', t_irqs env))
         else ret (sys_free ebx k))"

text \<open>
  From \<^verbatim>\<open>common_isr__return\<close> on. A first component \<open>None\<close> means that the interrupted code goes on with the
  registers in the context.
\<close>

definition isr_return :: "'a trap_env \<Rightarrow> hw_context_t \<times> 'a kernel_scheme \<times> 'a irqs \<Rightarrow> flow option \<times> hw_context_t \<times> 'a kernel_scheme \<times> 'a irqs" where
  "isr_return env x =
     (case x of (c, k, is) \<Rightarrow> (case check_signals (t_linkage env) (t_port env) c k of (fl, c', k') \<Rightarrow> (fl, c', k', is)))"

text \<open>The system call interrupt; \<open>None\<close>: the call does not come back.\<close>

definition system_call :: "'a trap_env \<Rightarrow> hw_context_t \<Rightarrow> 'a kernel_scheme
    \<Rightarrow> (flow option \<times> hw_context_t \<times> 'a kernel_scheme \<times> 'a irqs) option" where
  "system_call env c k =
     (if eax c < 1 \<or> eax c > 12 then Some (isr_return env (set_eax (-1) c, k, t_irqs env))
      else case syscall_jmp_tab env (eax c) c k of
             None \<Rightarrow> None
           | Some (Returns v, c', k', is) \<Rightarrow> Some (isr_return env (set_eax v c', k', is))
           | Some (fl, c', k', is) \<Rightarrow> Some (Some fl, c', k', is))"

text \<open>An interrupt on line \<open>n\<close>, whose handler is \<open>h\<close>.\<close>

definition device_irq :: "'a trap_env \<Rightarrow> nat \<Rightarrow> ('a kernel_scheme \<Rightarrow> 'a kernel_scheme) \<Rightarrow> hw_context_t \<Rightarrow> 'a kernel_scheme
    \<Rightarrow> flow option \<times> hw_context_t \<times> 'a kernel_scheme \<times> 'a irqs" where
  "device_irq env n h c k =
     (let k1 = h k;
          k2 = (if 8 \<le> n then outb 0x20 0xA0 (outb 0x20 0x20 k1) else outb 0x20 0x20 k1)
      in isr_return env (c, k2, t_irqs env))"

text \<open>A processor exception with its vector and error code; \<open>cr2\<close> is the address of a page fault.\<close>

definition exception_irq :: "'a trap_env \<Rightarrow> nat \<Rightarrow> nat \<Rightarrow> nat \<Rightarrow> hw_context_t \<Rightarrow> 'a kernel_scheme
    \<Rightarrow> (flow option \<times> hw_context_t \<times> 'a kernel_scheme \<times> 'a irqs) option" where
  "exception_irq env vec errorcode cr2 c k =
     map_option (\<lambda>k1. isr_return env (c, k1, t_irqs env)) (exception_handler vec errorcode cr2 k)"

text \<open>
  The wrappers (\<^verbatim>\<open>DO_CALL\<close>): the number in EAX, the arguments in EBX, ECX and EDX, the result in EAX;
  EBX is saved on the stack and put back. \<open>c\<close> has the other registers of the program.
\<close>

definition call_context :: "hw_context_t \<Rightarrow> int \<Rightarrow> int \<Rightarrow> int \<Rightarrow> int \<Rightarrow> hw_context_t" where
  "call_context c num a b d = c\<lparr>regs := (regs c)[0 := reg32 a, 1 := reg32 b, 2 := reg32 d, 6 := reg32 num]\<rparr>"

definition user_env :: "exec_locals \<Rightarrow> nat \<Rightarrow> 'a user \<Rightarrow> 'a trap_env" where
  "user_env loc linkage u = \<lparr>t_irqs = u_irqs u, t_port = u_port u, t_locals = loc, t_linkage = linkage\<rparr>"

text \<open>
  A call by the program \<open>u\<close>: the result, the registers after it and the program's state. \<open>None\<close>: control
  does not come back to the caller at once.
\<close>

definition do_call :: "exec_locals \<Rightarrow> nat \<Rightarrow> hw_context_t \<Rightarrow> int \<Rightarrow> int \<Rightarrow> int \<Rightarrow> int \<Rightarrow> 'a user \<Rightarrow> (int \<times> hw_context_t \<times> 'a user) option" where
  "do_call loc linkage c num a b d u =
     (case system_call (user_env loc linkage u) (call_context c num a b d) (uk u) of
        Some (None, c', k, is) \<Rightarrow> Some (eax c', c'\<lparr>regs := (regs c')[0 := regs c ! 0]\<rparr>, u\<lparr>uk := k, u_irqs := is\<rparr>)
      | _ \<Rightarrow> None)"

subsection \<open>Specifications\<close>

text \<open>The registers after a call: the result in EAX, ECX and EDX lost, all others kept.\<close>

definition after_call :: "hw_context_t \<Rightarrow> int \<Rightarrow> int \<Rightarrow> int \<Rightarrow> hw_context_t" where
  "after_call c b d v = c\<lparr>regs := (regs c)[1 := reg32 b, 2 := reg32 d, 6 := reg32 v]\<rparr>"

definition quiet :: "'a user \<Rightarrow> bool" where
  "quiet u \<longleftrightarrow> signals (pcbs (uk u) (cur (uk u))) = 0"

definition int32 :: "int \<Rightarrow> bool" where
  "int32 v \<longleftrightarrow> - (2 ^ 31) \<le> v \<and> v < 2 ^ 31"

subsection \<open>System calls\<close>

lemma s32_reg32 [simp]: "s32 (int (reg32 v)) = s32 v"
  by (simp add: reg32_def s32_def mod_add_left_eq)

lemma eax_set [simp]: "length (regs c) = 10 \<Longrightarrow> eax (set_eax v c) = s32 v"
  by (simp add: eax_def set_eax_def)

lemma isr_return_quiet:
  "signals (pcbs k (cur k)) = 0 \<Longrightarrow> isr_return env (c, k, is) = (None, c, k, is)"
  by (simp add: isr_return_def check_signals_def)

lemma system_call_returns:
  assumes "syscall_jmp_tab env (eax c) c k = Some (Returns v, c', k', is)" "1 \<le> eax c" "eax c \<le> 12" "signals (pcbs k' (cur k')) = 0"
  shows "system_call env c k = Some (None, set_eax v c', k', is)"
  using assms by (simp add: system_call_def isr_return_quiet)

lemma eax_call_context:
  assumes "length (regs c) = 10" "1 \<le> num" "num \<le> 12"
  shows "eax (call_context c num a b d) = num"
proof -
  have "s32 num = num" using assms(2,3) by (intro s32_id) auto
  then show ?thesis using assms(1) by (simp add: eax_def call_context_def)
qed

lemma context_after:
  assumes "length (regs c) = 10"
  shows "(set_eax v (call_context c num a b d))\<lparr>regs := (regs (set_eax v (call_context c num a b d)))[0 := regs c ! 0]\<rparr> = after_call c b d v"
proof -
  have "rs[0 := x, 1 := y, 2 := z, 6 := w, 6 := q, 0 := rs ! 0] = rs[1 := y, 2 := z, 6 := q]" if "length rs = 10" for x y z w q and rs :: "nat list"
    using that by (intro nth_equalityI) (auto simp: nth_list_update)
  then show ?thesis using assms by (simp add: set_eax_def call_context_def after_call_def)
qed

lemma do_call_returns:
  fixes u :: "'a user"
  assumes "length (regs c) = 10" "1 \<le> num" "num \<le> 12" "signals (pcbs k (cur k)) = 0"
    and "syscall_jmp_tab (user_env loc l u) num (call_context c num a b d) (uk u)
      = Some (Returns v, call_context c num a b d, k, is)"
  shows "do_call loc l c num a b d u = Some (s32 v, after_call c b d v, u\<lparr>uk := k, u_irqs := is\<rparr>)"
proof -
  let ?cc = "call_context c num a b d"
  have e: "eax ?cc = num" by (rule eax_call_context [OF assms(1-3)])
  have "system_call (user_env loc l u) ?cc (uk u) = Some (None, set_eax v ?cc, k, is)"
    by (rule system_call_returns) (simp_all add: e assms)
  moreover have "length (regs ?cc) = 10" using assms(1) by (simp add: call_context_def)
  ultimately show ?thesis
    using context_after [OF assms(1), of v num a b d] by (simp add: do_call_def)
qed

lemma call_args:
  assumes "length (regs c) = 10"
  shows "regs (call_context c num a b d) ! 0 = reg32 a" "regs (call_context c num a b d) ! Suc 0 = reg32 b"
    "regs (call_context c num a b d) ! 2 = reg32 d"
  using assms by (simp_all add: call_context_def)

lemma reg32_nat [simp]: "n < 2 ^ 32 \<Longrightarrow> reg32 (int n) = n"
  by (simp add: reg32_def nat_mod_distrib)

lemma s32_int32: "int32 v \<Longrightarrow> s32 v = v"
  unfolding int32_def by (intro s32_id) simp_all

text \<open>A return from a signal handler leaves the registers that were saved, EAX included.\<close>

lemma sigreturn_eax:
  assumes "syscall_sigreturn c m = (v, c')" "length (regs c) = 10"
  shows "set_eax (int (regs c' ! 6)) c' = c'"
proof -
  have r: "regs c' = fold (\<lambda>i rs. rs[i := load32 m (ctx_esp c + 4 * i)]) [0..<10] (regs c)"
    using assms(1) by (auto simp: syscall_sigreturn_def Let_def)
  have "regs c' = map (\<lambda>i. load32 m (ctx_esp c + 4 * i)) [0..<10]" 
    using fold_nth_update [of 10 "regs c" "\<lambda>i. load32 m (ctx_esp c + 4 * i)"] assms(2) unfolding r by (simp del: upt_rec_numeral)
  then have "regs c' ! 6 = load32 m (ctx_esp c + 24)" by (simp del: upt_rec_numeral)
  then have "reg32 (int (regs c' ! 6)) = regs c' ! 6" using load32_less [of m "ctx_esp c + 24"] by (intro reg32_nat) simp
  then have "(regs c')[6 := reg32 (int (regs c' ! 6))] = regs c'" by simp
  then show ?thesis by (simp add: set_eax_def)
qed

text \<open>
  C4: The wrappers of the system calls, the interrupt and the kernel's dispatch table together make each of
  the twelve calls: the wrapper passes the arguments, the kernel runs the routine of that number, and
  the result comes back in EAX; ECX and EDX then hold the arguments, EBX and all other registers are
  kept. This is for the case that no signal is pending for the program when the call ends (a pending
  one is delivered first, see \<open>Signals\<close>). Three calls do not return like that: \<^verbatim>\<open>halt\<close> of a program that
  has a parent continues in the parent with the status, \<^verbatim>\<open>execute\<close>, when it does not fail, continues in
  the new program, and \<^verbatim>\<open>sigreturn\<close> continues with the registers it loads.
\<close>

theorem wrappers_make_calls:
  fixes u :: "'a user"
  assumes c: "length (regs c) = 10" and fd: "int32 fd" and buf: "buf < 2 ^ 32" and n: "n < 2 ^ 32"
  shows "(\<forall>status c' k. syscall_halt (u_port u) status (call_context c 1 (uint status) b d) (uk u) = (Resumes v1, c', k) \<longrightarrow>
        system_call (user_env loc l u) (call_context c 1 (uint status) b d) (uk u) = Some (Some (Resumes v1), c', k, u_irqs u))
    \<and> (syscall_execute loc buf (uk u) = Some (Returns v, uk u') \<and> u' = u\<lparr>uk := uk u'\<rparr> \<and> quiet u' \<longrightarrow>
        do_call loc l c 2 (int buf) b d u = Some (s32 v, after_call c b d v, u'))
    \<and> (\<forall>entry k. syscall_execute loc buf (uk u) = Some (Enters entry, k) \<longrightarrow>
        system_call (user_env loc l u) (call_context c 2 (int buf) b d) (uk u) = Some (Some (Enters entry), call_context c 2 (int buf) b d, k, u_irqs u))
    \<and> (user_read fd buf n u = Some (v, u') \<and> quiet u' \<longrightarrow>
        do_call loc l c 3 fd (int buf) (int n) u = Some (s32 v, after_call c (int buf) (int n) v, u'))
    \<and> (user_write fd buf n u = (v, u') \<and> quiet u' \<longrightarrow>
        do_call loc l c 4 fd (int buf) (int n) u = Some (s32 v, after_call c (int buf) (int n) v, u'\<lparr>uout := uout u\<rparr>))
    \<and> (ece391_open (kernel_sys run) buf u = Some (v, u') \<and> quiet u' \<longrightarrow>
        do_call loc l c 5 (int buf) b d u = Some (s32 v, after_call c b d v, u'))
    \<and> (ece391_close (kernel_sys run) fd u = (v, u') \<and> quiet u' \<longrightarrow>
        do_call loc l c 6 fd b d u = Some (s32 v, after_call c b d v, u'))
    \<and> (ece391_getargs (kernel_sys run) buf n u = (v, u') \<and> quiet u' \<longrightarrow>
        do_call loc l c 7 (int buf) (int n) d u = Some (s32 v, after_call c (int n) d v, u'))
    \<and> (syscall_vidmap buf (uk u) = (v, uk u') \<and> u' = u\<lparr>uk := uk u'\<rparr> \<and> quiet u' \<longrightarrow>
        do_call loc l c 8 (int buf) b d u = Some (s32 v, after_call c b d v, u'))
    \<and> (syscall_set_handler fd buf (uk u) = (v, uk u') \<and> u' = u\<lparr>uk := uk u'\<rparr> \<and> quiet u' \<longrightarrow>
        do_call loc l c 9 fd (int buf) d u = Some (s32 v, after_call c (int buf) d v, u'))
    \<and> (\<forall>c'. syscall_sigreturn (call_context c 10 a b d) (mem (uk u)) = (v, c') \<and> quiet u \<longrightarrow>
        system_call (user_env loc l u) (call_context c 10 a b d) (uk u) = Some (None, c', uk u, u_irqs u))
    \<and> (\<forall>p. sys_malloc n (uk u) = (p, uk u') \<and> u' = u\<lparr>uk := uk u'\<rparr> \<and> quiet u' \<longrightarrow>
        do_call loc l c 11 (int n) b d u = Some (s32 (int p), after_call c b d (int p), u'))
    \<and> (sys_free buf (uk u) = (v, uk u') \<and> u' = u\<lparr>uk := uk u'\<rparr> \<and> quiet u' \<longrightarrow>
        do_call loc l c 12 (int buf) b d u = Some (s32 v, after_call c b d v, u'))"
    (is "?halt \<and> ?exec \<and> ?enter \<and> ?read \<and> ?wr \<and> ?open \<and> ?close \<and> ?getargs \<and> ?vidmap \<and> ?handler \<and> ?sigret \<and> ?malloc \<and> ?free")
proof -
  note j = syscall_jmp_tab_def Let_def call_args [OF c] s32_int32 [OF fd] reg32_nat [OF buf] reg32_nat [OF n] s32_reg32
  have r: "do_call loc l c num x y z u = Some (s32 w, after_call c y z w, u\<lparr>uk := k, u_irqs := is\<rparr>)"
    if "syscall_jmp_tab (user_env loc l u) num (call_context c num x y z) (uk u) = Some (Returns w, call_context c num x y z, k, is)"
      "1 \<le> num" "num \<le> 12" "quiet (u\<lparr>uk := k\<rparr>)" for num x y z w k "is"
    using do_call_returns [OF c that(2,3) _ that(1)] that(4) by (simp add: quiet_def)
  have e: "eax (call_context c num x y z) = num" if "1 \<le> num" "num \<le> 12" for num x y z by (rule eax_call_context [OF c that])
  have same: "u\<lparr>uk := uk u', u_irqs := u_irqs u\<rparr> = u'" if "u' = u\<lparr>uk := uk u'\<rparr>" using that by (metis user.surjective user.update_convs(1,2))
  have env: "t_irqs (user_env loc l u) = u_irqs u" "t_port (user_env loc l u) = u_port u" "t_locals (user_env loc l u) = loc"
    by (simp_all add: user_env_def)
  have ?halt
  proof (intro allI impI)
    fix status c' k assume "syscall_halt (u_port u) status (call_context c 1 (uint status) b d) (uk u) = (Resumes v1, c', k)"
    moreover have "uint status mod 4294967296 = uint status" using uint_lt2p [of status] by (intro mod_pos_pos_trivial) simp_all
    then have "word_of_nat (reg32 (uint status)) = status" by (simp add: reg32_def)
    ultimately show "system_call (user_env loc l u) (call_context c 1 (uint status) b d) (uk u) = Some (Some (Resumes v1), c', k, u_irqs u)"
      using e [of 1 "uint status" b d] by (simp add: system_call_def j env)
  qed
  moreover have ?exec using r [of 2 "int buf" b d v "uk u'" "u_irqs u"] same by (auto simp: j env)
  moreover have ?enter using e [of 2 "int buf" b d] by (simp add: system_call_def j env)
  moreover have ?read
    using r [of 3 fd "int buf" "int n" v "uk u'" "u_irqs u'"] by (auto simp: user_read_def j env quiet_def split: option.splits)
  moreover have ?wr
    using r [of 4 fd "int buf" "int n" v "uk u'" "u_irqs u"] by (auto simp: user_write_def j env quiet_def split: prod.splits)
  moreover have ?open
    using r [of 5 "int buf" b d v "uk u'" "u_irqs u"] by (auto simp: kernel_sys_def j env quiet_def)
  moreover have ?close
    using r [of 6 fd b d v "uk u'" "u_irqs u"] by (auto simp: kernel_sys_def j env quiet_def split: prod.splits)
  moreover have ?getargs
    using r [of 7 "int buf" "int n" d v "uk u'" "u_irqs u"] by (auto simp: kernel_sys_def j env quiet_def split: prod.splits)
  moreover have ?vidmap using r [of 8 "int buf" b d v "uk u'" "u_irqs u"] same by (auto simp: j env)
  moreover have ?handler using r [of 9 fd "int buf" d v "uk u'" "u_irqs u"] same by (auto simp: j env)
  moreover have ?sigret
  proof (intro allI impI, elim conjE)
    fix c' assume g: "syscall_sigreturn (call_context c 10 a b d) (mem (uk u)) = (v, c')" "quiet u"
    have "length (regs (call_context c 10 a b d)) = 10" using c by (simp add: call_context_def)
    from sigreturn_eax [OF g(1) this] have "set_eax (int (regs c' ! 6)) c' = c'" .
    then show "system_call (user_env loc l u) (call_context c 10 a b d) (uk u) = Some (None, c', uk u, u_irqs u)"
      using e [of 10 a b d] g by (simp add: system_call_def j env isr_return_quiet quiet_def)
  qed
  moreover have ?malloc using r [of 11 "int n" b d _ "uk u'" "u_irqs u"] same by (auto simp: j env)
  moreover have ?free using r [of 12 "int buf" b d v "uk u'" "u_irqs u"] same by (auto simp: j env)
  ultimately show ?thesis by (intro conjI)
qed

lemma ten_regs: "(replicate 10 x)[1 := a, 2 := b, 6 := d] = [x, a, b, x, x, x, d, x, x, x]"
  by (simp add: numeral_eq_Suc)

theorem wrappers_make_calls_witness:
  "do_call demo_locals 0x400000 demo_context 3 9 0x8001000 31 demo_user =
     Some (-1, demo_context\<lparr>regs := [7, 0x8001000, 31, 7, 7, 7, 4294967295, 7, 7, 7]\<rparr>, demo_user)"
proof -
  have "length (regs demo_context) = 10" "int32 9" "quiet demo_user" "user_read 9 0x8001000 31 demo_user = Some (-1, demo_user)"
    by (simp_all add: demo_context_def int32_def quiet_def demo_user_def pcb_zero_def user_read_def syscall_read_def)
  moreover have "after_call demo_context 0x8001000 31 (-1) = demo_context\<lparr>regs := [7, 0x8001000, 31, 7, 7, 7, 4294967295, 7, 7, 7]\<rparr>" "s32 (-1) = -1"
    by (simp_all add: after_call_def demo_context_def reg32_def s32_def ten_regs [simplified])
  ultimately show ?thesis
    using wrappers_make_calls [where c = demo_context and fd = 9 and buf = "0x8001000" and n = 31 and u = demo_user and u' = demo_user
      and v = "-1" and loc = demo_locals and l = "0x400000"] by simp
qed

text \<open>A number that is not in the table gives \<open>-1\<close> and changes nothing.\<close>

lemma bad_call_number:
  assumes "length (regs c) = 10" "int32 num" "num < 1 \<or> 12 < num" "quiet u"
  shows "do_call loc l c num a b d u = Some (-1, after_call c b d (-1), u)"
proof -
  let ?cc = "call_context c num a b d"
  have e: "eax ?cc = num" using assms(1) s32_int32 [OF assms(2)] by (simp add: eax_def call_context_def)
  have "system_call env ?cc (uk u) = Some (None, set_eax (-1) ?cc, uk u, t_irqs env)" for env
    using assms(3,4) unfolding system_call_def e by (auto simp: isr_return_quiet quiet_def)
  moreover have "length (regs ?cc) = 10" "s32 (-1) = -1" using assms(1) by (simp_all add: call_context_def s32_def)
  ultimately show ?thesis
    using context_after [OF assms(1), of "-1" num a b d] by (simp add: do_call_def user_env_def)
qed

subsection \<open>Interrupts of devices\<close>

lemma lowest_bit:
  assumes "n < 8"
  shows "(push_bit n 1 :: byte) AND (push_bit n 1 - 1) = 0"
proof -
  have "n \<in> {0, 1, 2, 3, 4, 5, 6, 7}" using assms by auto
  then show ?thesis by auto
qed

lemma eoi_chips:
  assumes "chips ms k = (m, sl)"
  shows "chips ms (outb 0x20 0x20 k) = (m\<lparr>isr := isr m AND (isr m - 1)\<rparr>, sl)"
    and "chips ms (outb 0x20 0xA0 (outb 0x20 0x20 k)) = (m\<lparr>isr := isr m AND (isr m - 1)\<rparr>, sl\<lparr>isr := isr sl AND (isr sl - 1)\<rparr>)"
proof -
  have "\<not> bit (0x20 :: byte) 4" "(0x20 :: byte) AND 0xE0 = 0x20" by simp_all
  then show "chips ms (outb 0x20 0x20 k) = (m\<lparr>isr := isr m AND (isr m - 1)\<rparr>, sl)"
      "chips ms (outb 0x20 0xA0 (outb 0x20 0x20 k)) = (m\<lparr>isr := isr m AND (isr m - 1)\<rparr>, sl\<lparr>isr := isr sl AND (isr sl - 1)\<rparr>)"
    using assms by (simp_all add: chips_outb chip_write_def pic_ports cmd_write_def)
qed

text \<open>
  The common end of every device interrupt retires it: when the interrupt on line \<open>n\<close> is the only one in
  service (for a line of the slave, together with the line that cascades it), none is in service on
  either controller afterwards, so the next interrupt can come.
\<close>

theorem device_irq_retires:
  assumes "n < 16" "chips ms (h k) = (m, sl)" "signals (pcbs (h k) (cur (h k))) = 0"
    and "isr m = push_bit (if n < 8 then n else 2) 1" "isr sl = (if n < 8 then 0 else push_bit (n - 8) 1)"
  shows "\<exists>k'. device_irq env n h c k = (None, c, k', t_irqs env) \<and> isr (fst (chips ms k')) = 0 \<and> isr (snd (chips ms k')) = 0"
proof (cases "n < 8")
  case True
  then show ?thesis
    using eoi_chips(1) [OF assms(2)] assms(3-5) lowest_bit [of n] by (simp add: device_irq_def Let_def isr_return_quiet)
next
  case False
  then show ?thesis
    using eoi_chips(2) [OF assms(2)] assms(1,3-5) lowest_bit [of 2] lowest_bit [of "n - 8"]
    by (simp add: device_irq_def Let_def isr_return_quiet)
qed

theorem device_irq_retires_witness:
  "let ch = \<lparr>next_icw = 0, vector_base = 0x20, cascade = 4, mode = 1, imr = 0xF8, isr = 2\<rparr>;
       ms = (ch, ch\<lparr>vector_base := 0x28, isr := 0\<rparr>);
       env = \<lparr>t_irqs = [], t_port = 0, t_locals = demo_locals, t_linkage = 0x400000\<rparr>;
       kb0 = \<lparr>kb_shift = False, kb_ctrl = False, kb_alt = False, kb_caps = False, scan_state = 0\<rparr>
   in \<exists>k'. device_irq env 1 (\<lambda>k. snd (kb_isr 0 0x1E (key_R 0) (kb0, k))) demo_context (demo_kernel\<lparr>ports := []\<rparr>) = (None, demo_context, k', [])
        \<and> isr (fst (chips ms k')) = 0 \<and> isr (snd (chips ms k')) = 0"
proof -
  define ch where "ch = \<lparr>next_icw = 0, vector_base = 0x20, cascade = 4, mode = 1, imr = 0xF8, isr = 2\<rparr>"
  define h where "h = (\<lambda>k :: kernel. snd (kb_isr 0 0x1E (key_R 0) (\<lparr>kb_shift = False, kb_ctrl = False, kb_alt = False, kb_caps = False, scan_state = 0\<rparr>, k)))"
  define env where "env = (\<lparr>t_irqs = [], t_port = 0, t_locals = demo_locals, t_linkage = 0x400000\<rparr> :: unit trap_env)"
  have h: "h k = k" for k by (simp add: h_def kb_isr_def)
  have s: "signals (pcbs demo_kernel p) = 0" for p by (simp add: demo_kernel_def rtc_sys.defs pcb_zero_def)
  have i: "isr ch = push_bit (if (1 :: nat) < 8 then 1 else 2) 1" by (simp add: ch_def)
  have "\<exists>k'. device_irq env 1 h demo_context (demo_kernel\<lparr>ports := []\<rparr>) = (None, demo_context, k', t_irqs env)
      \<and> isr (fst (chips (ch, ch\<lparr>vector_base := 0x28, isr := 0\<rparr>) k')) = 0 \<and> isr (snd (chips (ch, ch\<lparr>vector_base := 0x28, isr := 0\<rparr>) k')) = 0"
    by (rule device_irq_retires [of 1 "(ch, ch\<lparr>vector_base := 0x28, isr := 0\<rparr>)" h "demo_kernel\<lparr>ports := []\<rparr>" ch "ch\<lparr>vector_base := 0x28, isr := 0\<rparr>"])
      (simp_all add: h chips_def s i pcb_zero_def)
  then show ?thesis by (simp add: ch_def h_def env_def)
qed

subsection \<open>Exceptions\<close>

definition fault_signal :: "nat \<Rightarrow> nat" where
  "fault_signal vec = (if vec = 0 then 0 else 1)"

lemma fault_flag:
  "bit (SIG_FLAG (fault_signal vec)) j \<longleftrightarrow> j = fault_signal vec"
  "SIG_FLAG (fault_signal vec) AND NOT (SIG_FLAG (fault_signal vec)) = 0"
  "SIG_FLAG (fault_signal vec) \<noteq> 0"
proof -
  show "bit (SIG_FLAG (fault_signal vec)) j \<longleftrightarrow> j = fault_signal vec"
    unfolding SIG_FLAG_def bit_push_bit_iff bit_1_iff by (auto simp: fault_signal_def)
  show "SIG_FLAG (fault_signal vec) AND NOT (SIG_FLAG (fault_signal vec)) = 0" by (simp add: SIG_FLAG_def fault_signal_def)
  show "SIG_FLAG (fault_signal vec) \<noteq> 0" by (simp add: SIG_FLAG_def fault_signal_def)
qed

text \<open>What the loop over the signals does when none is pending, and when the only pending one has no handler.\<close>

lemma check_loop_none: "signals (pcbs k (cur k)) = 0 \<Longrightarrow> check_loop l prev is c k = (None, c, k)"
  by (induction "is") simp_all

lemma check_loop_only:
  assumes "signals (pcbs k (cur k)) = SIG_FLAG (fault_signal vec)" "signal_handlers (pcbs k (cur k)) ! fault_signal vec = 0"
  defines "k1 \<equiv> upd_pcb (cur k) (\<lambda>P. P\<lparr>signals := 0\<rparr>) k"
  shows "check_loop l prev (fault_signal vec # is) c k =
    (case syscall_halt_with prev 256 c k1 of (Returns v, c', k2) \<Rightarrow> (None, c', k2) | (fl, c', k2) \<Rightarrow> (Some fl, c', k2))"
proof -
  have k1: "upd_pcb (cur k) (\<lambda>P. P\<lparr>signals := signals P AND NOT (SIG_FLAG (fault_signal vec))\<rparr>) k = k1"
    using assms(1) by (simp add: k1_def upd_pcb_def fault_flag)
  obtain fl c' k2 where h: "syscall_halt_with prev 256 c k1 = (fl, c', k2)" by (metis prod_cases3)
  have "signals (pcbs k2 (cur k2)) = 0" if "fl = Returns v" for v
    using h that by (auto simp: syscall_halt_with_def Let_def k1_def upd_pcb_def split: option.splits)
  moreover have "fault_signal vec < 3" by (simp add: fault_signal_def)
  ultimately show ?thesis
    using assms(1,2) h by (auto simp: Let_def k1 fault_flag check_loop_none split: flow.split)
qed

lemma check_signals_only:
  assumes "signals (pcbs k (cur k)) = SIG_FLAG (fault_signal vec)" "ctx_cs c = USER_CS" "signal_handlers (pcbs k (cur k)) ! fault_signal vec = 0"
  shows "check_signals l prev c k =
    (case syscall_halt_with prev 256 c (upd_pcb (cur k) (\<lambda>P. P\<lparr>signals := 0\<rparr>) k) of
       (Returns v, c', k2) \<Rightarrow> (None, c', k2) | (fl, c', k2) \<Rightarrow> (Some fl, c', k2))"
proof -
  have "[0..<5] = [0..<fault_signal vec] @ fault_signal vec # [fault_signal vec + 1..<5]" by (simp add: fault_signal_def upt_rec)
  moreover have "check_loop l prev ([0..<fault_signal vec] @ fault_signal vec # [fault_signal vec + 1..<5]) c k
      = check_loop l prev (fault_signal vec # [fault_signal vec + 1..<5]) c k"
    by (rule check_loop_skip) (use assms(1) fault_flag(1) [of vec] in \<open>auto simp: fault_signal_def\<close>)
  ultimately show ?thesis
    using assms check_loop_only [OF assms(1,3)] fault_flag(3) [of vec]
    by (simp only: check_signals_def if_False simp_thms)
qed

lemma halt_child:
  assumes "parent (pcbs k (cur k)) = Some q"
  shows "\<exists>k'. syscall_halt_with prev status c k = (Resumes status, c, k') \<and> cur k' = q"
  using assms by (simp add: syscall_halt_with_def Let_def)

text \<open>
  C12: What becomes of a program that causes an exception, from the entry routine to the code that runs next,
  when no other signal is pending. With a handler for the signal, the program goes on in its handler, on a
  stack that has the saved registers. Without one, a program that was started by another is
  ended, and its parent's call of \<^verbatim>\<open>execute\<close> returns 256; a terminal's first shell starts again from its
  entry point with an empty stack, and its process is as before.
\<close>

theorem fault_outcome:
  fixes k :: "'a kernel_scheme"
  assumes "ctx_cs c = USER_CS" "signals (pcbs k (cur k)) = 0" "signal_handlers (pcbs k (cur k)) ! (if vec = 0 then 0 else 1) = h"
  shows "\<exists>fl c' k'. exception_irq env vec errorcode cr2 c k = Some (fl, c', k', t_irqs env)
    \<and> (h \<noteq> 0 \<longrightarrow> fl = None \<and> ctx_addr c' = h \<and> ctx_esp c' = ctx_esp c - 76 \<and> cur k' = cur k)
    \<and> (\<forall>q. h = 0 \<and> parent (pcbs k (cur k)) = Some q \<longrightarrow> fl = Some (Resumes 256) \<and> cur k' = q)
    \<and> (h = 0 \<and> parent (pcbs k (cur k)) = None \<longrightarrow> fl = None \<and> ctx_addr c' = load32 (mem k') (TASK_IMG_START_ADDR + ELF_ENTRY_OFFSET)
         \<and> ctx_esp c' = TASK_VIRT_PAGE_END \<and> cur k' = cur k \<and> pcbs k' = pcbs k)"
proof -
  let ?i = "fault_signal vec"
  have sg: "signum_of (if vec = 0 then SIG_DIV_ZERO else SIG_SEGFAULT) = ?i" by (simp add: fault_signal_def)
  obtain k1 where k1: "exception_handler vec errorcode cr2 k = Some k1" "cur k1 = cur k"
      "pcbs k1 = (pcbs k)(cur k := (pcbs k (cur k))\<lparr>signals := SIG_FLAG ?i\<rparr>)"
    using exception_raises_signal [of vec errorcode cr2 k] assms(2) unfolding sg by auto
  obtain fl c' k' where r: "check_signals (t_linkage env) (t_port env) c k1 = (fl, c', k')" by (metis prod_cases3)
  have s1: "signals (pcbs k1 (cur k1)) = SIG_FLAG ?i" "signal_handlers (pcbs k1 (cur k1)) ! ?i = h"
    "parent (pcbs k1 (cur k1)) = parent (pcbs k (cur k))"
    using k1 assms(3) by (simp_all add: fault_signal_def)
  have f1: "fl = None \<and> ctx_addr c' = h \<and> ctx_esp c' = ctx_esp c - 76 \<and> cur k' = cur k" if "h \<noteq> 0"
    using check_signals_first [of ?i k1 c "t_linkage env" "t_port env"] s1 that r k1(2) assms(1) fault_flag(1) [of vec]
    by (auto simp: deliver_signal_def Let_def upd_pcb_def fault_signal_def split: if_splits)
  have f2: "fl = Some (Resumes 256) \<and> cur k' = q" if "h = 0" "parent (pcbs k (cur k)) = Some q" for q
  proof -
    let ?k = "upd_pcb (cur k1) (\<lambda>P. P\<lparr>signals := 0\<rparr>) k1"
    have "parent (pcbs ?k (cur ?k)) = Some q" using s1(3) that(2) by (simp add: upd_pcb_def)
    then obtain k2 where "syscall_halt_with (t_port env) 256 c ?k = (Resumes 256, c, k2)" "cur k2 = q"
      using halt_child by blast
    then show ?thesis using check_signals_only [OF s1(1) assms(1)] s1(2) that(1) r by simp
  qed
  have f3: "fl = None \<and> ctx_addr c' = load32 (mem k') (TASK_IMG_START_ADDR + ELF_ENTRY_OFFSET) \<and> ctx_esp c' = TASK_VIRT_PAGE_END
      \<and> cur k' = cur k \<and> pcbs k' = pcbs k" if "h = 0" "parent (pcbs k (cur k)) = None"
  proof -
    have "(pcbs k)(cur k := (pcbs k (cur k))\<lparr>signals := 0\<rparr>) = pcbs k" using assms(2) by (simp add: fun_upd_idem)
    then show ?thesis using check_signals_only [OF s1(1) assms(1)] s1(2,3) that r k1(2,3)
      by (auto simp: syscall_halt_with_def upd_pcb_def)
  qed
  have "exception_irq env vec errorcode cr2 c k = Some (fl, c', k', t_irqs env)"
    using k1(1) r by (simp add: exception_irq_def isr_return_def)
  then show ?thesis
    using f1 f2 f3 by (intro exI [of _ fl] exI [of _ c'] exI [of _ k'] conjI allI impI) auto
qed

theorem fault_outcome_witness:
  "let env = \<lparr>t_irqs = [], t_port = 0, t_locals = demo_locals, t_linkage = 0x400000\<rparr>;
       k = demo_kernel\<lparr>cur := 2, pcbs := (\<lambda>p. pcb_zero\<lparr>parent := (if p = 2 then Some 1 else None)\<rparr>)\<rparr>
   in \<exists>c' k'. exception_irq env 14 4 0 demo_context k = Some (Some (Resumes 256), c', k', []) \<and> cur k' = 1"
proof -
  define k where "k = demo_kernel\<lparr>cur := 2, pcbs := (\<lambda>p. pcb_zero\<lparr>parent := (if p = 2 then Some 1 else None)\<rparr>)\<rparr>"
  have "ctx_cs demo_context = 0x23" "signals (pcbs k (cur k)) = 0" "signal_handlers (pcbs k (cur k)) ! (if (14 :: nat) = 0 then 0 else 1) = 0"
      "parent (pcbs k (cur k)) = Some 1"
    by (simp_all add: demo_context_def k_def pcb_zero_def)
  then show ?thesis
    using fault_outcome [of demo_context k 14 0 "\<lparr>t_irqs = [], t_port = 0, t_locals = demo_locals, t_linkage = 0x400000\<rparr>" 4 0]
    unfolding k_def [symmetric] by (simp add: Let_def)
qed

end
