(* ===== verification/Syserr.thy ===== *)
theory Syserr
  imports Linkage
begin

text \<open>
  The program that tests the error behaviour of the system calls (\<^verbatim>\<open>syscalls/ece391syserr.c\<close>). Its
  tests call the kernel with invalid descriptors, names, pointers and call numbers and report
  whether every call fails as it should. It needs two calls more than the other programs, so its
  operating system \<open>T\<close> has them beside the record \<open>calls\<close>. The tests are proved to pass for every
  system with the laws \<open>err_io\<close>, which the kernel fulfils.
\<close>

record 's tsys =
  calls :: "'s sys"
  ece391_vidmap :: "addr \<Rightarrow> 's \<Rightarrow> int \<times> 's"
  call_sys :: "int \<Rightarrow> 's \<Rightarrow> (int \<times> 's) option"

abbreviation (input) NEG_FD :: int where "NEG_FD \<equiv> -1073741823"
abbreviation (input) BIG_FD :: int where "BIG_FD \<equiv> 1073741823"
abbreviation (input) BIG_NUM :: int where "BIG_NUM \<equiv> 1073741823"
abbreviation (input) NEG_NUM :: int where "NEG_NUM \<equiv> -1073741823"

text \<open>\<^verbatim>\<open>if (-1 != call) { fail = 2; ece391_fdputs(1, msg); }\<close>, for the result of the call and the state after it.\<close>

definition expect_error :: "'s tsys \<Rightarrow> addr \<Rightarrow> int \<Rightarrow> int \<times> 's \<Rightarrow> (int \<times> 's) option" where
  "expect_error T msg fail r =
     (case r of (v, s) \<Rightarrow>
        if v \<noteq> -1 then do { s' \<leftarrow> ece391_fdputs (calls T) 1 msg s; Some (2, s') } else Some (fail, s))"

text \<open>The report at the end of a test.\<close>

definition verdict :: "'s tsys \<Rightarrow> (string \<Rightarrow> addr) \<Rightarrow> string \<Rightarrow> int \<Rightarrow> 's \<Rightarrow> (int \<times> 's) option" where
  "verdict T lit name fail s =
     do { s' \<leftarrow> ece391_fdputs (calls T) 1 (lit (nl (name @ (if fail \<noteq> 0 then '': FAIL'' else '': PASS'')))) s;
          Some (fail, s') }"

definition err_neg_fd :: "'s tsys \<Rightarrow> (string \<Rightarrow> addr) \<Rightarrow> addr \<Rightarrow> 's \<Rightarrow> (int \<times> 's) option" where
  "err_neg_fd T lit buf s =
     do { r \<leftarrow> ece391_read (calls T) NEG_FD buf 31 s;
          (f1, s1) \<leftarrow> expect_error T (lit (nl ''read fail'')) 0 r;
          (f2, s2) \<leftarrow> expect_error T (lit (nl ''write fail'')) f1 (ece391_write (calls T) NEG_FD buf 31 s1);
          (f3, s3) \<leftarrow> expect_error T (lit (nl ''close fail'')) f2 (ece391_close (calls T) NEG_FD s2);
          verdict T lit ''err_neg_fd'' f3 s3 }"

definition err_big_fd :: "'s tsys \<Rightarrow> (string \<Rightarrow> addr) \<Rightarrow> addr \<Rightarrow> 's \<Rightarrow> (int \<times> 's) option" where
  "err_big_fd T lit buf s =
     do { r \<leftarrow> ece391_read (calls T) BIG_FD buf 31 s;
          (f1, s1) \<leftarrow> expect_error T (lit (nl ''read fail'')) 0 r;
          (f2, s2) \<leftarrow> expect_error T (lit (nl ''write fail'')) f1 (ece391_write (calls T) BIG_FD buf 31 s1);
          (f3, s3) \<leftarrow> expect_error T (lit (nl ''close fail'')) f2 (ece391_close (calls T) BIG_FD s2);
          verdict T lit ''err_big_fd'' f3 s3 }"

text \<open>The first loop of \<^verbatim>\<open>err_open_lots\<close>, with \<open>n\<close> rounds left.\<close>

fun open_lots :: "'s tsys \<Rightarrow> addr \<Rightarrow> nat \<Rightarrow> nat \<Rightarrow> 's \<Rightarrow> (nat \<times> 's) option" where
  "open_lots T fname 0 cnt s = Some (cnt, s)"
| "open_lots T fname (Suc n) cnt s =
     do { (v, s1) \<leftarrow> ece391_open (calls T) fname s;
          open_lots T fname n (if v = -1 then cnt + 1 else cnt) s1 }"

definition err_open_lots :: "'s tsys \<Rightarrow> (string \<Rightarrow> addr) \<Rightarrow> 's \<Rightarrow> (int \<times> 's) option" where
  "err_open_lots T lit s =
     do { (cnt, s1) \<leftarrow> open_lots T (lit ''.'') 7 0 s;
          let s2 = fold (\<lambda>i s. snd (ece391_close (calls T) i s)) [2, 3, 4, 5, 6, 7] s1 in
          verdict T lit ''err_open_lots'' (if cnt = 1 then 0 else 2) s2 }"

definition err_open :: "'s tsys \<Rightarrow> (string \<Rightarrow> addr) \<Rightarrow> 's \<Rightarrow> (int \<times> 's) option" where
  "err_open T lit s =
     do { r1 \<leftarrow> ece391_open (calls T) (lit ''helloo'') s;
          (f1, s1) \<leftarrow> expect_error T (lit (nl ([CHR 0x27] @ ''helloo'' @ [CHR 0x27] @ '' fail''))) 0 r1;
          r2 \<leftarrow> ece391_open (calls T) (lit ''shel'') s1;
          (f2, s2) \<leftarrow> expect_error T (lit (nl ([CHR 0x27] @ ''shel'' @ [CHR 0x27] @ '' fail''))) f1 r2;
          r3 \<leftarrow> ece391_open (calls T) (lit []) s2;
          (f3, s3) \<leftarrow> expect_error T (lit (nl ''empty string fail'')) f2 r3;
          verdict T lit ''err_open'' f3 s3 }"

text \<open>A loop of calls that should all fail.\<close>

fun expect_each :: "'s tsys \<Rightarrow> addr \<Rightarrow> (int \<Rightarrow> 's \<Rightarrow> (int \<times> 's) option) \<Rightarrow> int list \<Rightarrow> int \<Rightarrow> 's \<Rightarrow> (int \<times> 's) option" where
  "expect_each T msg f [] fail s = Some (fail, s)"
| "expect_each T msg f (i # is) fail s =
     do { r \<leftarrow> f i s;
          (fail', s') \<leftarrow> expect_error T msg fail r;
          expect_each T msg f is fail' s' }"

definition err_unopened :: "'s tsys \<Rightarrow> (string \<Rightarrow> addr) \<Rightarrow> addr \<Rightarrow> 's \<Rightarrow> (int \<times> 's) option" where
  "err_unopened T lit buf s =
     do { (f1, s1) \<leftarrow> expect_each T (lit (nl ''close unopened or invalid fd fail'')) (\<lambda>i s. Some (ece391_close (calls T) i s)) [0, 1, 2, 3, 4, 5, 6, 7] 0 s;
          (f2, s2) \<leftarrow> expect_each T (lit (nl ''read from unopened fd fail'')) (\<lambda>i. ece391_read (calls T) i buf 31) [2, 3, 4, 5, 6, 7] f1 s1;
          (f3, s3) \<leftarrow> expect_each T (lit (nl ''write to unopened fd fail'')) (\<lambda>i s. Some (ece391_write (calls T) i buf 31 s)) [2, 3, 4, 5, 6, 7] f2 s2;
          verdict T lit ''err_unopened'' f3 s3 }"

definition err_vidmap :: "'s tsys \<Rightarrow> (string \<Rightarrow> addr) \<Rightarrow> 's \<Rightarrow> (int \<times> 's) option" where
  "err_vidmap T lit s =
     do { (f1, s1) \<leftarrow> expect_error T (lit (nl ''Null pointer fail'')) 0 (ece391_vidmap T 0 s);
          (f2, s2) \<leftarrow> expect_error T (lit (nl ''Kernel pointer fail fail'')) f1 (ece391_vidmap T 0x400000 s1);
          verdict T lit ''err_vidmap'' f2 s2 }"

definition err_stdin_out :: "'s tsys \<Rightarrow> (string \<Rightarrow> addr) \<Rightarrow> addr \<Rightarrow> 's \<Rightarrow> (int \<times> 's) option" where
  "err_stdin_out T lit buf s =
     do { (f1, s1) \<leftarrow> expect_error T (lit (nl ''write to stdin fail'')) 0 (ece391_write (calls T) 0 buf 31 s);
          r \<leftarrow> ece391_read (calls T) 1 buf 31 s1;
          (f2, s2) \<leftarrow> expect_error T (lit (nl ''read from stdout fail'')) f1 r;
          verdict T lit ''err_stdin_out'' f2 s2 }"

definition err_syscall_num :: "'s tsys \<Rightarrow> (string \<Rightarrow> addr) \<Rightarrow> 's \<Rightarrow> (int \<times> 's) option" where
  "err_syscall_num T lit s =
     do { r1 \<leftarrow> call_sys T BIG_NUM s;
          (f1, s1) \<leftarrow> expect_error T (lit (nl ''syscall 0 fail'')) 0 r1;
          r2 \<leftarrow> call_sys T NEG_NUM s1;
          (f2, s2) \<leftarrow> expect_error T (lit (nl ''big num syscall fail'')) f1 r2;
          r3 \<leftarrow> call_sys T 0 s2;
          (f3, s3) \<leftarrow> expect_error T (lit (nl ''neg num syscall fail'')) f2 r3;
          verdict T lit ''err_syscall_num'' f3 s3 }"

text \<open>\<open>buf\<close> has the address of the array \<^verbatim>\<open>buf\<close> of each test.\<close>

definition run_all :: "'s tsys \<Rightarrow> (string \<Rightarrow> addr) \<Rightarrow> (string \<Rightarrow> addr) \<Rightarrow> 's \<Rightarrow> (int \<times> 's) option" where
  "run_all T lit buf s =
     do { (f1, s1) \<leftarrow> err_neg_fd T lit (buf ''err_neg_fd'') s;
          (f2, s2) \<leftarrow> err_big_fd T lit (buf ''err_big_fd'') s1;
          (f3, s3) \<leftarrow> err_open_lots T lit s2;
          (f4, s4) \<leftarrow> err_open T lit s3;
          (f5, s5) \<leftarrow> err_unopened T lit (buf ''err_unopened'') s4;
          (f6, s6) \<leftarrow> err_vidmap T lit s5;
          (f7, s7) \<leftarrow> err_stdin_out T lit (buf ''err_stdin_out'') s6;
          (f8, s8) \<leftarrow> err_syscall_num T lit s7;
          let fail = f1 + f2 + f3 + f4 + f5 + f6 + f7 + f8;
          s9 \<leftarrow> ece391_fdputs (calls T) 1 (lit (nl ([CHR 0x0A] @ (if fail \<noteq> 0 then ''Overall Tests: FAIL'' else ''Overall Tests: PASS'')))) s8;
          Some (fail, s9) }"

definition syserr_main :: "'s tsys \<Rightarrow> (string \<Rightarrow> addr) \<Rightarrow> (string \<Rightarrow> addr) \<Rightarrow> 's \<Rightarrow> (int \<times> 's) option" where
  "syserr_main T lit buf s =
     do { s1 \<leftarrow> ece391_fdputs (calls T) 1 (lit ''Choose from tests 1-8. 0 to run all: '') s;
          (cnt, s2) \<leftarrow> ece391_read (calls T) 0 (buf ''main'') 127 s1;
          if cnt = -1 then fail_with (calls T) (lit (nl (''Can'' @ [CHR 0x27] @ ''t read test #''))) 2 s2
          else
            let select = int (unat (s_mem (calls T) s2 (buf ''main''))) - 48 in
            if select = 0 then run_all T lit buf s2
            else if select = 1 then err_neg_fd T lit (buf ''err_neg_fd'') s2
            else if select = 2 then err_big_fd T lit (buf ''err_big_fd'') s2
            else if select = 3 then err_open_lots T lit s2
            else if select = 4 then err_open T lit s2
            else if select = 5 then err_unopened T lit (buf ''err_unopened'') s2
            else if select = 6 then err_vidmap T lit s2
            else if select = 7 then err_stdin_out T lit (buf ''err_stdin_out'') s2
            else if select = 8 then err_syscall_num T lit s2
            else fail_with (calls T) (lit ''Invalid test number. Choose from tests 1-8 or 0'') 0 s2 }"

text \<open>
  The kernel as the program sees it; \<open>c\<close> has the registers at the \<^verbatim>\<open>int\<close> instruction of \<^verbatim>\<open>call_sys\<close>, which
  sets EAX only.
\<close>

definition kernel_call_sys :: "exec_locals \<Rightarrow> nat \<Rightarrow> hw_context_t \<Rightarrow> int \<Rightarrow> 'a user \<Rightarrow> (int \<times> 'a user) option" where
  "kernel_call_sys loc linkage c num u =
     (case system_call (user_env loc linkage u) (set_eax num c) (uk u) of
        Some (None, c', k, is) \<Rightarrow> Some (eax c', u\<lparr>uk := k, u_irqs := is\<rparr>)
      | _ \<Rightarrow> None)"

definition kernel_tsys :: "exec_locals \<Rightarrow> nat \<Rightarrow> hw_context_t \<Rightarrow> 'a children \<Rightarrow> 'a user tsys" where
  "kernel_tsys loc linkage c run =
     \<lparr>calls = kernel_sys run,
      ece391_vidmap = (\<lambda>a u. case syscall_vidmap a (uk u) of (v, k) \<Rightarrow> (v, u\<lparr>uk := k\<rparr>)),
      call_sys = kernel_call_sys loc linkage c\<rparr>"

subsection \<open>The tests pass\<close>

definition test_names :: "string list" where
  "test_names = [''err_neg_fd'', ''err_big_fd'', ''err_open_lots'', ''err_open'', ''err_unopened'', ''err_vidmap'', ''err_stdin_out'', ''err_syscall_num'']"

definition pass_text :: "string \<Rightarrow> string" where
  "pass_text name = nl (name @ '': PASS'')"

definition overall_text :: string where
  "overall_text = nl ([CHR 0x0A] @ ''Overall Tests: PASS'')"

text \<open>What the program prints when every test passes.\<close>

definition all_passed :: "byte list" where
  "all_passed = bytes_of (concat (map pass_text test_names) @ overall_text)"

text \<open>
  The laws: \<open>looks s F ot\<close> says that the program has the descriptors in \<open>F\<close> open, beside its terminal on 0
  and 1, and has printed \<open>ot\<close>.
\<close>

locale err_io =
  fixes T :: "'s tsys" and lit :: "string \<Rightarrow> addr" and looks :: "'s \<Rightarrow> int set \<Rightarrow> byte list \<Rightarrow> bool"
  assumes puts_law: "looks s F ot \<Longrightarrow> x \<in> set (overall_text # map pass_text test_names) \<Longrightarrow>
      \<exists>s'. ece391_fdputs (calls T) 1 (lit x) s = Some s' \<and> looks s' F (ot @ bytes_of x)"
    and bad_read: "looks s F ot \<Longrightarrow> fd \<notin> insert 0 F \<Longrightarrow> ece391_read (calls T) fd buf n s = Some (-1, s)"
    and bad_write: "looks s F ot \<Longrightarrow> fd \<notin> insert 1 F \<Longrightarrow> ece391_write (calls T) fd buf n s = (-1, s)"
    and bad_close: "looks s F ot \<Longrightarrow> fd \<notin> F \<Longrightarrow> ece391_close (calls T) fd s = (-1, s)"
    and open_law: "looks s F ot \<Longrightarrow> F \<subset> {2..7} \<Longrightarrow>
      \<exists>v s'. ece391_open (calls T) (lit ''.'') s = Some (v, s') \<and> v \<in> {2..7} - F \<and> looks s' (insert v F) ot"
    and open_full: "looks s {2..7} ot \<Longrightarrow> ece391_open (calls T) (lit ''.'') s = Some (-1, s)"
    and close_law: "looks s F ot \<Longrightarrow> fd \<in> F \<Longrightarrow> \<exists>s'. ece391_close (calls T) fd s = (0, s') \<and> looks s' (F - {fd}) ot"
    and no_file: "looks s F ot \<Longrightarrow> x \<in> {''helloo'', ''shel'', []} \<Longrightarrow> ece391_open (calls T) (lit x) s = Some (-1, s)"
    and bad_vidmap: "looks s F ot \<Longrightarrow> a < 0x8000000 \<Longrightarrow> ece391_vidmap T a s = (-1, s)"
    and bad_num: "looks s F ot \<Longrightarrow> int32 num \<Longrightarrow> num < 1 \<or> 12 < num \<Longrightarrow> call_sys T num s = Some (-1, s)"
begin

lemma expect_error_ok [simp]: "expect_error T msg fail (-1, s) = Some (fail, s)"
  by (simp add: expect_error_def)

lemma verdict_pass:
  assumes "looks s F ot" "name \<in> set test_names"
  shows "\<exists>s'. verdict T lit name 0 s = Some (0, s') \<and> looks s' F (ot @ bytes_of (pass_text name))"
proof -
  have "pass_text name \<in> set (overall_text # map pass_text test_names)" using assms(2) by simp
  then obtain s' where "ece391_fdputs (calls T) 1 (lit (pass_text name)) s = Some s'" "looks s' F (ot @ bytes_of (pass_text name))"
    using puts_law [OF assms(1)] by blast
  then show ?thesis by (simp add: verdict_def pass_text_def [symmetric] del: append_assoc)
qed

lemma neg_fd_passes: "looks s {} ot \<Longrightarrow> \<exists>s'. err_neg_fd T lit buf s = Some (0, s') \<and> looks s' {} (ot @ bytes_of (pass_text ''err_neg_fd''))"
  using verdict_pass [of s "{}" ot "''err_neg_fd''"] by (simp add: err_neg_fd_def bad_read bad_write bad_close test_names_def)

lemma big_fd_passes: "looks s {} ot \<Longrightarrow> \<exists>s'. err_big_fd T lit buf s = Some (0, s') \<and> looks s' {} (ot @ bytes_of (pass_text ''err_big_fd''))"
  using verdict_pass [of s "{}" ot "''err_big_fd''"] by (simp add: err_big_fd_def bad_read bad_write bad_close test_names_def)

lemma open_lots_counts:
  assumes "looks s F ot" "F \<subseteq> {2..7}"
  shows "\<exists>s' F'. open_lots T (lit ''.'') n cnt s = Some (cnt + (n - (6 - card F)), s') \<and> looks s' F' ot \<and> F' \<subseteq> {2..7} \<and> card F' = min 6 (card F + n)"
  using assms
proof (induction n arbitrary: s F cnt)
  case 0
  have "card F \<le> card {2..7 :: int}" using 0(2) by (intro card_mono) auto
  then show ?case using 0 by auto
next
  case (Suc n)
  have fin: "finite F" using Suc.prems(2) finite_subset by blast
  show ?case
  proof (cases "F = {2..7}")
    case True
    have c: "card F = 6" by (simp add: True)
    obtain s' F' where "open_lots T (lit ''.'') n (cnt + 1) s = Some (cnt + 1 + (n - (6 - card F)), s')" "looks s' F' ot" "F' \<subseteq> {2..7}"
        "card F' = min 6 (card F + n)"
      using Suc.IH [OF Suc.prems, of "cnt + 1"] by blast
    then show ?thesis using open_full [of s ot] Suc.prems True c by auto
  next
    case False
    then obtain v s1 where v: "ece391_open (calls T) (lit ''.'') s = Some (v, s1)" "v \<in> {2..7} - F" "looks s1 (insert v F) ot"
      using open_law [OF Suc.prems(1)] Suc.prems(2) by blast
    have c: "card (insert v F) = card F + 1" using v(2) fin by simp
    have le: "card F + 1 \<le> 6" using card_mono [of "{2..7 :: int}" "insert v F"] v(2) Suc.prems(2) c by auto
    obtain s' F' where "open_lots T (lit ''.'') n cnt s1 = Some (cnt + (n - (6 - card (insert v F))), s')" "looks s' F' ot" "F' \<subseteq> {2..7}"
        "card F' = min 6 (card (insert v F) + n)"
      using Suc.IH [OF v(3), of cnt] v(2) Suc.prems(2) by auto
    moreover have "n - (6 - (card F + 1)) = Suc n - (6 - card F)" using le by simp
    moreover have "v \<noteq> -1" using v(2) by auto
    ultimately show ?thesis using v(1) c by auto
  qed
qed

lemma closes:
  "looks s F ot \<Longrightarrow> looks (fold (\<lambda>i s. snd (ece391_close (calls T) i s)) is s) (F - set is) ot"
proof (induction "is" arbitrary: s F)
  case (Cons i "is")
  have "looks (snd (ece391_close (calls T) i s)) (F - {i}) ot"
    using close_law [OF Cons.prems, of i] bad_close [OF Cons.prems, of i] Cons.prems by (cases "i \<in> F") auto
  then have "looks (fold (\<lambda>i s. snd (ece391_close (calls T) i s)) is (snd (ece391_close (calls T) i s))) (F - {i} - set is) ot" by (rule Cons.IH)
  then show ?case by (simp add: Diff_insert2 [symmetric])
qed simp

lemma open_lots_passes:
  assumes "looks s {} ot"
  shows "\<exists>s'. err_open_lots T lit s = Some (0, s') \<and> looks s' {} (ot @ bytes_of (pass_text ''err_open_lots''))"
proof -
  obtain s1 F where 1: "open_lots T (lit ''.'') 7 0 s = Some (1, s1)" "looks s1 F ot" "F \<subseteq> {2..7}"
    using open_lots_counts [OF assms, of 7 0] by auto
  let ?s2 = "fold (\<lambda>i s. snd (ece391_close (calls T) i s)) [2, 3, 4, 5, 6, 7] s1"
  have "F - set [2, 3, 4, 5, 6, 7] = {}" using 1(3) by (auto simp: subset_iff)
  then have "looks ?s2 {} ot" using closes [OF 1(2), of "[2, 3, 4, 5, 6, 7]"] by (simp only:)
  then show ?thesis
    using verdict_pass [of ?s2 "{}" ot "''err_open_lots''"] 1(1) by (simp add: err_open_lots_def test_names_def)
qed

lemma open_passes: "looks s {} ot \<Longrightarrow> \<exists>s'. err_open T lit s = Some (0, s') \<and> looks s' {} (ot @ bytes_of (pass_text ''err_open''))"
  using verdict_pass [of s "{}" ot "''err_open''"] by (simp add: err_open_def no_file test_names_def)

lemma unopened_passes: "looks s {} ot \<Longrightarrow> \<exists>s'. err_unopened T lit buf s = Some (0, s') \<and> looks s' {} (ot @ bytes_of (pass_text ''err_unopened''))"
  using verdict_pass [of s "{}" ot "''err_unopened''"]
  by (simp add: err_unopened_def bad_read bad_write bad_close test_names_def)

lemma vidmap_passes: "looks s {} ot \<Longrightarrow> \<exists>s'. err_vidmap T lit s = Some (0, s') \<and> looks s' {} (ot @ bytes_of (pass_text ''err_vidmap''))"
  using verdict_pass [of s "{}" ot "''err_vidmap''"] by (simp add: err_vidmap_def bad_vidmap test_names_def)

lemma stdin_out_passes: "looks s {} ot \<Longrightarrow> \<exists>s'. err_stdin_out T lit buf s = Some (0, s') \<and> looks s' {} (ot @ bytes_of (pass_text ''err_stdin_out''))"
  using verdict_pass [of s "{}" ot "''err_stdin_out''"] by (simp add: err_stdin_out_def bad_write bad_read test_names_def)

lemma syscall_num_passes: "looks s {} ot \<Longrightarrow> \<exists>s'. err_syscall_num T lit s = Some (0, s') \<and> looks s' {} (ot @ bytes_of (pass_text ''err_syscall_num''))"
  using verdict_pass [of s "{}" ot "''err_syscall_num''"] by (simp add: err_syscall_num_def bad_num int32_def test_names_def)

lemma run_all_passes:
  assumes "looks s {} ot"
  shows "\<exists>s'. run_all T lit buf s = Some (0, s') \<and> looks s' {} (ot @ all_passed)"
proof -
  obtain s1 where 1: "err_neg_fd T lit (buf ''err_neg_fd'') s = Some (0, s1)" "looks s1 {} (ot @ bytes_of (pass_text ''err_neg_fd''))"
    using neg_fd_passes [OF assms] by blast
  obtain s2 where 2: "err_big_fd T lit (buf ''err_big_fd'') s1 = Some (0, s2)"
      "looks s2 {} ((ot @ bytes_of (pass_text ''err_neg_fd'')) @ bytes_of (pass_text ''err_big_fd''))"
    using big_fd_passes [OF 1(2)] by blast
  obtain s3 where 3: "err_open_lots T lit s2 = Some (0, s3)"
      "looks s3 {} (((ot @ bytes_of (pass_text ''err_neg_fd'')) @ bytes_of (pass_text ''err_big_fd'')) @ bytes_of (pass_text ''err_open_lots''))"
    using open_lots_passes [OF 2(2)] by blast
  obtain s4 where 4: "err_open T lit s3 = Some (0, s4)" "looks s4 {} (ot @ bytes_of (concat (map pass_text (take 4 test_names))))"
    using open_passes [OF 3(2)] by (auto simp: test_names_def bytes_of_def)
  obtain s5 where 5: "err_unopened T lit (buf ''err_unopened'') s4 = Some (0, s5)" "looks s5 {} (ot @ bytes_of (concat (map pass_text (take 5 test_names))))"
    using unopened_passes [OF 4(2)] by (auto simp: test_names_def bytes_of_def)
  obtain s6 where 6: "err_vidmap T lit s5 = Some (0, s6)" "looks s6 {} (ot @ bytes_of (concat (map pass_text (take 6 test_names))))"
    using vidmap_passes [OF 5(2)] by (auto simp: test_names_def bytes_of_def)
  obtain s7 where 7: "err_stdin_out T lit (buf ''err_stdin_out'') s6 = Some (0, s7)" "looks s7 {} (ot @ bytes_of (concat (map pass_text (take 7 test_names))))"
    using stdin_out_passes [OF 6(2)] by (auto simp: test_names_def bytes_of_def)
  obtain s8 where 8: "err_syscall_num T lit s7 = Some (0, s8)" "looks s8 {} (ot @ bytes_of (concat (map pass_text test_names)))"
    using syscall_num_passes [OF 7(2)] by (auto simp: test_names_def bytes_of_def)
  obtain s9 where 9: "ece391_fdputs (calls T) 1 (lit overall_text) s8 = Some s9" "looks s9 {} (ot @ all_passed)"
    using puts_law [OF 8(2), of overall_text] by (auto simp: all_passed_def bytes_of_def)
  show ?thesis using 1(1) 2(1) 3(1) 4(1) 5(1) 6(1) 7(1) 8(1) 9 by (simp add: run_all_def overall_text_def)
qed

end

subsection \<open>The laws hold for the kernel\<close>

text \<open>
  The program is ready: its terminal is on descriptors 0 and 1, the descriptors in \<open>F\<close> are open
  directories and the others free, no signal is pending, its strings are in its page, and the
  directory has the entry \<^verbatim>\<open>.\<close> but no files of the other names.
\<close>

definition err_ready :: "(string \<Rightarrow> addr) \<Rightarrow> 'a user \<Rightarrow> int set \<Rightarrow> bool" where
  "err_ready lit u F \<longleftrightarrow> user_ok u \<and> quiet u \<and> F \<subseteq> {2..7}
     \<and> used (get_file (cur (uk u), 0) (uk u)) \<and> file_ops (get_file (cur (uk u), 0) (uk u)) = stdin_file_ops_table
     \<and> (\<forall>i. 2 \<le> i \<and> i < 8 \<longrightarrow> (used (get_file (cur (uk u), i) (uk u)) \<longleftrightarrow> int i \<in> F)
            \<and> (int i \<in> F \<longrightarrow> file_ops (get_file (cur (uk u), i) (uk u)) = fs_dir_ops_table))
     \<and> dentries (fsg (uk u)) = bblock_ptr (fsg (uk u)) + 64 \<and> load32 (mem (uk u)) (bblock_ptr (fsg (uk u))) \<le> 63
     \<and> (\<forall>x \<in> set (overall_text # map pass_text test_names). cstr (mem (uk u)) (lit x) (bytes_of x) \<and> 0x8000000 \<le> lit x \<and> lit x + length x < 0x8400000)
     \<and> 0x8000000 \<le> lit ''.''
     \<and> (\<exists>d. read_dentry_by_name (mem (uk u)) (fsg (uk u)) (lit ''.'') = Some d \<and> filetype d = FILE_TYPE_DIR)
     \<and> (\<forall>x \<in> {''helloo'', ''shel'', []}. 0x8000000 \<le> lit x \<and> read_dentry_by_name (mem (uk u)) (fsg (uk u)) (lit x) = None)"

definition err_looks :: "(string \<Rightarrow> addr) \<Rightarrow> 'a user \<Rightarrow> int set \<Rightarrow> byte list \<Rightarrow> bool" where
  "err_looks lit u F ot \<longleftrightarrow> err_ready lit u F \<and> ot = uout u"

lemma lookup_same:
  assumes "same_image g 4096 m m'" "load32 m (bblock_ptr g) \<le> 63" "dentries g = bblock_ptr g + 64" "\<And>i. i < 32 \<Longrightarrow> m' (fname + i) = m (fname + i)"
  shows "read_dentry_by_name m' g fname = read_dentry_by_name m g fname"
proof -
  have nm: "name_at m' fname 32 = name_at m fname 32"
    unfolding name_at_def using assms(4) by (intro arg_cong [where f = "takeWhile _"] load_list_cong) auto
  have l: "take 32 (name_at m fname 32) = name_at m fname 32" using length_name_at [of m fname 32] by simp
  have "load32 m' (bblock_ptr g) = load32 m (bblock_ptr g)" using same_image_load32 [OF assms(1), of 0] by simp
  then have "read_dentry_by_name m' g fname = lookup_name m' g (name_at m fname 32)" using assms(2) nm l by (intro dentry_lookup) simp_all
  also have "\<dots> = lookup_name m g (name_at m fname 32)" by (rule lookup_name_image [OF assms(1-3)])
  also have "\<dots> = read_dentry_by_name m g fname" using assms(2) l by (intro dentry_lookup [symmetric]) simp_all
  finally show ?thesis .
qed

lemma err_ready_same:
  fixes u u' :: "'a user"
  assumes "err_ready lit u F" "pcbs (uk u') = pcbs (uk u)" "cur (uk u') = cur (uk u)" "fsg (uk u') = fsg (uk u)" "sys_ok (uk u')"
    and m: "\<forall>a. a < 0xB8000 \<or> 0xBC000 \<le> a \<longrightarrow> mem (uk u') a = mem (uk u) a"
  shows "err_ready lit u' F"
proof -
  let ?g = "fsg (uk u)"
  note r = assms(1) [unfolded err_ready_def]
  have ok: "user_ok u" using r by simp
  have im: "same_image ?g (image_size (mem (uk u)) ?g) (mem (uk u)) (mem (uk u'))"
    using ok m by (auto simp: same_image_def user_ok_def disjoint_ranges_def)
  then have im1: "same_image ?g 4096 (mem (uk u)) (mem (uk u'))"
    by (auto simp: same_image_def image_size_def)
  have g: "get_file q (uk u') = get_file q (uk u)" for q using assms(2) by (simp add: get_file_def)
  have ok': "user_ok u'" using ok assms(2-5) image_size_same [OF im] by (simp add: user_ok_def g my_term_def)
  have lk: "read_dentry_by_name (mem (uk u')) ?g (lit x) = read_dentry_by_name (mem (uk u)) ?g (lit x)" if "0x8000000 \<le> lit x" for x
    using lookup_same [OF im1, of "lit x"] r that m by simp
  have st: "cstr (mem (uk u')) (lit x) (bytes_of x)" if "cstr (mem (uk u)) (lit x) (bytes_of x)" "0x8000000 \<le> lit x" for x
    using that(1) by (rule cstr_cong) (use that(2) m in simp)
  have n: "load32 (mem (uk u')) (bblock_ptr ?g) = load32 (mem (uk u)) (bblock_ptr ?g)"
    using same_image_load32 [OF im1, of 0] by simp
  have q: "quiet u'" using r assms(2,3) by (simp add: quiet_def)
  show ?thesis unfolding err_ready_def using r ok' q by (simp add: assms(3,4) g n lk st)
qed

lemma upd_file_twice:
  "fref_ok r s \<Longrightarrow> upd_file r g (upd_file r h s) = upd_file r (\<lambda>f. g (h f)) s"
  by (cases r) (simp add: upd_file_def get_file_def fref_ok_def)

lemma err_ready_upd:
  fixes u :: "'a user"
  assumes "err_ready lit u F" "2 \<le> i" "i < 8" "used (g (get_file (cur (uk u), i) (uk u))) \<longleftrightarrow> b"
    and "b \<Longrightarrow> file_ops (g (get_file (cur (uk u), i) (uk u))) = fs_dir_ops_table"
  shows "err_ready lit (u\<lparr>uk := upd_file (cur (uk u), i) g (uk u)\<rparr>) (if b then insert (int i) F else F - {int i})"
proof -
  let ?k = "upd_file (cur (uk u), i) g (uk u)"
  note r = assms(1) [unfolded err_ready_def]
  have ok: "user_ok u" using r by simp
  then have f: "fref_ok (cur (uk u), j) (uk u)" if "j < 8" for j using that by (simp add: user_ok_def fref_ok_def)
  have gf: "get_file (cur (uk u), j) ?k = (if j = i then g (get_file (cur (uk u), i) (uk u)) else get_file (cur (uk u), j) (uk u))" if "j < 8" for j
    using get_file_upd [OF f [OF that]] by simp
  have fld: "cur ?k = cur (uk u)" "fsg ?k = fsg (uk u)" "mem ?k = mem (uk u)" "sys_ok ?k = sys_ok (uk u)" "my_term ?k = my_term (uk u)"
    "length (open_files (pcbs ?k (cur (uk u)))) = length (open_files (pcbs (uk u) (cur (uk u))))"
    "signals (pcbs ?k (cur (uk u))) = signals (pcbs (uk u) (cur (uk u)))"
    by (simp_all add: upd_file_def my_term_def sys_ok_def)
  have "user_ok (u\<lparr>uk := ?k\<rparr>)" using ok assms(2) gf [of 1] by (simp add: user_ok_def fld)
  moreover have "(if b then insert (int i) F else F - {int i}) \<subseteq> {2..7}" using r assms(2,3) by auto
  moreover have "quiet (u\<lparr>uk := ?k\<rparr>)" using r by (simp add: quiet_def fld)
  moreover have "\<forall>j. 2 \<le> j \<and> j < 8 \<longrightarrow> (used (get_file (cur (uk u), j) ?k) \<longleftrightarrow> int j \<in> (if b then insert (int i) F else F - {int i}))
      \<and> (int j \<in> (if b then insert (int i) F else F - {int i}) \<longrightarrow> file_ops (get_file (cur (uk u), j) ?k) = fs_dir_ops_table)"
    using r assms(4,5) by (auto simp: gf)
  ultimately show ?thesis
    using r assms(2) gf [of 0] unfolding err_ready_def by (simp add: fld)
qed

lemma free_fd:
  assumes "err_ready lit u F" "fd \<notin> F" "2 \<le> fd" "fd < 8"
  shows "\<not> fd_used fd (uk u)"
proof -
  have "2 \<le> nat fd" "nat fd < 8" "int (nat fd) \<notin> F" using assms(2-4) by auto
  then show ?thesis using assms(1) by (simp add: err_ready_def fd_used_def)
qed

lemma fd_cases: "fd < 0 \<or> 8 \<le> fd \<or> fd = 0 \<or> fd = 1 \<or> 2 \<le> fd \<and> fd < (8 :: int)"
  by auto

lemma err_read:
  assumes "err_ready lit u F" "fd \<notin> insert 0 F"
  shows "user_read fd buf n u = Some (-1, u)"
  using fd_cases [of fd] assms free_fd [OF assms(1), of fd]
  by (auto simp: user_read_def syscall_read_def err_ready_def user_ok_def term_read_invalid_def)

lemma err_write:
  assumes "err_ready lit u F" "fd \<notin> insert 1 F"
  shows "user_write fd buf n u = (-1, u)"
  using fd_cases [of fd] assms free_fd [OF assms(1), of fd]
  by (auto simp: user_write_def syscall_write_def err_ready_def term_write_invalid_def)

lemma err_close:
  assumes "err_ready lit u F" "fd \<notin> F"
  shows "syscall_close (u_port u) fd (uk u) = (-1, uk u)"
  using fd_cases [of fd] assms free_fd [OF assms(1), of fd]
  by (auto simp: syscall_close_def err_ready_def user_ok_def term_close_def)

lemma err_puts:
  fixes u :: "'a user"
  assumes "err_ready lit u F" "x \<in> set (overall_text # map pass_text test_names)"
  shows "\<exists>u'. ece391_fdputs (kernel_sys run) 1 (lit x) u = Some u' \<and> err_ready lit u' F \<and> uout u' = uout u @ bytes_of x"
proof -
  have x: "cstr (mem (uk u)) (lit x) (bytes_of x)" "0x8000000 \<le> lit x" "lit x + length x < 0x8400000"
    using assms unfolding err_ready_def by blast+
  have len: "length (bytes_of x) = length x" by (simp add: bytes_of_def)
  have "ece391_strlen (mem (uk u)) (lit x) = Some (length x)"
    using ece391_strlen_cstr [OF x(1)] x(3) len by simp
  moreover have "load_list (mem (uk u)) (lit x) (length x) = bytes_of x" using x(1) len by (simp add: cstr_def)
  moreover have "user_ok u" using assms(1) by (simp add: err_ready_def)
  moreover obtain u' where u': "user_write 1 (lit x) (length x) u = (int (length x), u')" "pcbs (uk u') = pcbs (uk u)" "cur (uk u') = cur (uk u)"
      "fsg (uk u') = fsg (uk u)" "sys_ok (uk u')" "uout u' = uout u @ load_list (mem (uk u)) (lit x) (length x)"
      "\<forall>a. a < 0xB8000 \<or> 0xBC000 \<le> a \<longrightarrow> mem (uk u') a = mem (uk u) a"
    using user_write_law [OF \<open>user_ok u\<close> x(2), of "length x"] x(3) by auto
  ultimately show ?thesis
    using err_ready_same [OF assms(1) u'(2-5,7)] by (simp add: ece391_fdputs_def kernel_sys_def)
qed

lemma err_open_dot:
  fixes u :: "'a user"
  assumes "err_ready lit u F" "F \<subset> {2..7}"
  shows "\<exists>v u'. ece391_open (kernel_sys run) (lit ''.'') u = Some (v, u') \<and> v \<in> {2..7} - F \<and> err_ready lit u' (insert v F) \<and> uout u' = uout u"
proof -
  let ?k = "uk u"
  note r = assms(1) [unfolded err_ready_def]
  obtain d where d: "read_dentry_by_name (mem ?k) (fsg ?k) (lit ''.'') = Some d" "filetype d = FILE_TYPE_DIR" using r by blast
  obtain v where v: "v \<in> {2..7}" "v \<notin> F" using assms(2) by blast
  then have "2 \<le> nat v" "nat v < 8" "int (nat v) \<notin> F" by auto
  then have "\<not> used (get_file (cur ?k, nat v) ?k)" "nat v \<in> set [2..<8]" using r by auto
  then obtain i where i: "List.find (\<lambda>i. \<not> used (get_file (cur ?k, i) ?k)) [2..<8] = Some i"
    by (metis (mono_tags, lifting) find_None_iff not_Some_eq)
  note i2 = find_slot [OF i]
  have fr: "fref_ok (cur ?k, i) ?k" using r i2 by (simp add: user_ok_def fref_ok_def)
  define f where "f = snd (fs_open (mem ?k) (fsg ?k) (lit ''.'') (get_file (cur ?k, i) ?k))"
  have fo: "fs_open (mem ?k) (fsg ?k) (lit ''.'') (get_file (cur ?k, i) ?k) = (0, f)" "file_ops f = fs_dir_ops_table"
    using d by (simp_all add: f_def fs_open_def Let_def FILE_TYPE_REG_def FILE_TYPE_DIR_def)
  have "syscall_open (lit ''.'') ?k = Some (int i, upd_file (cur ?k, i) (\<lambda>_. f\<lparr>used := True\<rparr>) ?k)"
    using d fo(1) i upd_file_twice [OF fr, of "\<lambda>f. f\<lparr>used := True\<rparr>" "\<lambda>_. f"]
    by (simp add: syscall_open_def open_at_def Let_def FILE_TYPE_DIR_def FILE_TYPE_RTC_def)
  then have "ece391_open (kernel_sys run) (lit ''.'') u = Some (int i, u\<lparr>uk := upd_file (cur ?k, i) (\<lambda>_. f\<lparr>used := True\<rparr>) ?k\<rparr>)"
    by (simp add: kernel_sys_def)
  moreover have "int i \<in> {2..7} - F" using i2 r by auto
  moreover have "err_ready lit (u\<lparr>uk := upd_file (cur ?k, i) (\<lambda>_. f\<lparr>used := True\<rparr>) ?k\<rparr>) (insert (int i) F)"
    using err_ready_upd [OF assms(1) i2(1,2), of "\<lambda>_. f\<lparr>used := True\<rparr>" True] fo(2) by simp
  ultimately show ?thesis by auto
qed

lemma err_open_full:
  assumes "err_ready lit u {2..7}"
  shows "ece391_open (kernel_sys run) (lit ''.'') u = Some (-1, u)"
proof -
  have "List.find (\<lambda>i. \<not> used (get_file (cur (uk u), i) (uk u))) [2..<8] = None"
    using assms by (auto simp: find_None_iff err_ready_def)
  then show ?thesis by (simp add: kernel_sys_def syscall_open_def split: option.split)
qed

lemma err_close_dir:
  fixes u :: "'a user"
  assumes "err_ready lit u F" "fd \<in> F"
  shows "\<exists>u'. ece391_close (kernel_sys run) fd u = (0, u') \<and> err_ready lit u' (F - {fd}) \<and> uout u' = uout u"
proof -
  have "F \<subseteq> {2..7}" using assms(1) by (simp add: err_ready_def)
  then have "2 \<le> fd" "fd \<le> 7" using assms(2) by auto
  then have i: "2 \<le> nat fd" "nat fd < 8" "int (nat fd) = fd" "0 \<le> fd" "fd < 8" by auto
  then have f: "used (get_file (cur (uk u), nat fd) (uk u))" "file_ops (get_file (cur (uk u), nat fd) (uk u)) = fs_dir_ops_table"
    using assms by (simp_all add: err_ready_def)
  have "syscall_close (u_port u) fd (uk u) = (0, upd_file (cur (uk u), nat fd) (\<lambda>f. f\<lparr>used := False\<rparr>) (uk u))"
    using i(4,5) f by (simp add: syscall_close_def fd_used_def fs_dir_close_def)
  moreover have "err_ready lit (u\<lparr>uk := upd_file (cur (uk u), nat fd) (\<lambda>f. f\<lparr>used := False\<rparr>) (uk u)\<rparr>) (F - {fd})"
    using err_ready_upd [OF assms(1) i(1,2), of "\<lambda>f. f\<lparr>used := False\<rparr>" False] i(3) by simp
  ultimately show ?thesis by (simp add: kernel_sys_def)
qed

lemma err_num:
  assumes "err_ready lit u F" "int32 num" "num < 1 \<or> 12 < num" "length (regs c) = 10"
  shows "kernel_call_sys loc l c num u = Some (-1, u)"
proof -
  have e: "eax (set_eax num c) = num" using assms(2,4) by (simp add: s32_int32)
  have "signals (pcbs (uk u) (cur (uk u))) = 0" using assms(1) by (simp add: err_ready_def quiet_def)
  then have "system_call env (set_eax num c) (uk u) = Some (None, set_eax (-1) (set_eax num c), uk u, t_irqs env)" for env
    using assms(3) unfolding system_call_def e by (auto simp: isr_return_quiet)
  moreover have "eax (set_eax (-1) (set_eax num c)) = -1"
    using eax_set [of "set_eax num c" "-1"] assms(4) by (simp add: set_eax_def s32_def)
  ultimately show ?thesis by (simp add: kernel_call_sys_def user_env_def)
qed

lemma kernel_err_io:
  assumes "length (regs c) = 10"
  shows "err_io (kernel_tsys loc l c run :: 'a user tsys) lit (err_looks lit)"
proof
  fix s :: "'a user" and F ot
  assume l: "err_looks lit s F ot"
  then have r: "err_ready lit s F" and ot: "ot = uout s" by (simp_all add: err_looks_def)
  show "\<exists>s'. ece391_fdputs (calls (kernel_tsys loc l c run)) 1 (lit x) s = Some s' \<and> err_looks lit s' F (ot @ bytes_of x)"
    if "x \<in> set (overall_text # map pass_text test_names)" for x
    using err_puts [OF r that, of run] ot by (auto simp: kernel_tsys_def err_looks_def)
  show "ece391_read (calls (kernel_tsys loc l c run)) fd buf n s = Some (-1, s)" if "fd \<notin> insert 0 F" for fd buf n
    using err_read [OF r that] by (simp add: kernel_tsys_def kernel_sys_def)
  show "ece391_write (calls (kernel_tsys loc l c run)) fd buf n s = (-1, s)" if "fd \<notin> insert 1 F" for fd buf n
    using err_write [OF r that] by (simp add: kernel_tsys_def kernel_sys_def)
  show "ece391_close (calls (kernel_tsys loc l c run)) fd s = (-1, s)" if "fd \<notin> F" for fd
    using err_close [OF r that] by (simp add: kernel_tsys_def kernel_sys_def)
  show "\<exists>v s'. ece391_open (calls (kernel_tsys loc l c run)) (lit ''.'') s = Some (v, s') \<and> v \<in> {2..7} - F \<and> err_looks lit s' (insert v F) ot"
    if "F \<subset> {2..7}"
    using err_open_dot [OF r that, of run] ot by (auto simp: kernel_tsys_def err_looks_def)
  show "\<exists>s'. ece391_close (calls (kernel_tsys loc l c run)) fd s = (0, s') \<and> err_looks lit s' (F - {fd}) ot" if "fd \<in> F" for fd
    using err_close_dir [OF r that, of run] ot by (auto simp: kernel_tsys_def err_looks_def)
  show "ece391_open (calls (kernel_tsys loc l c run)) (lit x) s = Some (-1, s)" if "x \<in> {''helloo'', ''shel'', []}" for x
  proof -
    have nf: "\<forall>x \<in> {''helloo'', ''shel'', []}. 0x8000000 \<le> lit x \<and> read_dentry_by_name (mem (uk s)) (fsg (uk s)) (lit x) = None"
      using r unfolding err_ready_def by (elim conjE)
    have "read_dentry_by_name (mem (uk s)) (fsg (uk s)) (lit x) = None" using bspec [OF nf that] by simp
    then show ?thesis by (simp add: kernel_tsys_def kernel_sys_def syscall_open_def)
  qed
  show "ece391_vidmap (kernel_tsys loc l c run) a s = (-1, s)" if "a < 0x8000000" for a
    using that by (simp add: kernel_tsys_def syscall_vidmap_def)
  show "call_sys (kernel_tsys loc l c run) num s = Some (-1, s)" if "int32 num" "num < 1 \<or> 12 < num" for num
    using err_num [OF r that assms] by (simp add: kernel_tsys_def)
next
  fix s :: "'a user" and ot
  assume "err_looks lit s {2..7} ot"
  then show "ece391_open (calls (kernel_tsys loc l c run)) (lit ''.'') s = Some (-1, s)"
    using err_open_full [of lit s run] by (simp add: err_looks_def kernel_tsys_def)
qed

interpretation ktest: err_io "kernel_tsys loc l (c\<lparr>regs := map f [0..<10]\<rparr>) run" lit "err_looks lit" for loc l c f run lit
  by (rule kernel_err_io) simp

text \<open>
  C24: The kernel passes its error tests: run by a process with a terminal and free descriptors, the program
  ends with status 0 and has printed that every test passed. So reads, writes and closes of negative,
  large and unopened descriptors fail, the descriptors run out after six files and can be used again,
  names that are not in the directory are not found, the wrong ends of the terminal are
  rejected, and so are pointers outside the user page and numbers outside the dispatch table.
\<close>

theorem error_tests_pass:
  assumes "err_ready lit u {}" "length (regs c) = 10"
  shows "\<exists>u'. run_all (kernel_tsys loc l c run) lit buf u = Some (0, u') \<and> uout u' = uout u @ all_passed \<and> err_ready lit u' {}"
proof -
  have "map ((!) (regs c)) [0..<10] = regs c" using map_nth [of "regs c"] assms(2) by simp
  then have c: "c\<lparr>regs := map ((!) (regs c)) [0..<10]\<rparr> = c" by simp
  have "err_looks lit u {} (uout u)" using assms(1) by (simp add: err_looks_def)
  then show ?thesis
    using ktest.run_all_passes [where lit = lit and s = u and ot = "uout u" and loc = loc and l = l and c = c and f = "(!) (regs c)" and run = run and buf = buf, unfolded c] by (auto simp: err_looks_def)
qed

subsection \<open>An example\<close>

text \<open>A process with all the strings in its page, over the small file system of \<open>demo_user\<close>.\<close>

definition err_texts :: "string list" where
  "err_texts = overall_text # map pass_text test_names @ [''.'', ''helloo'', ''shel'', []]"

abbreviation err_lit :: "string \<Rightarrow> addr" where "err_lit \<equiv> text_at err_texts"
abbreviation err_mem :: mem where "err_mem \<equiv> text_mem err_texts"
abbreviation demo_tester :: "unit user" where "demo_tester \<equiv> demo_texts err_texts"

lemma err_texts_ok: "\<forall>t \<in> set err_texts. length t < 64 \<and> 0 \<notin> set (bytes_of t)" "length err_texts = 13"
  by code_simp+

lemmas err_lit_cstr = text_cstr [OF _ err_texts_ok(1)]

lemma cstr_name_at:
  assumes "cstr m a xs" "length xs < n"
  shows "name_at m a n = xs"
proof -
  have "load_list m a n = xs @ load_list m (a + length xs) (n - length xs)"
    using assms load_list_append [of m a "length xs" "n - length xs"] by (simp add: cstr_def)
  moreover have "load_list m (a + length xs) (n - length xs) = 0 # load_list m (a + length xs + 1) (n - length xs - 1)"
    using assms load_list_Suc [of m "a + length xs" "n - length xs - 1"] by (simp add: cstr_def Suc_diff_Suc)
  moreover have "takeWhile (\<lambda>c. c \<noteq> 0) (xs @ 0 # ys) = xs" for ys
    using assms(1) by (subst takeWhile_append2) (auto simp: cstr_def)
  ultimately show ?thesis by (simp add: name_at_def)
qed

lemma demo_names:
  "x \<in> {''helloo'', ''shel'', []} \<Longrightarrow> read_dentry_by_name err_mem demo_fs (err_lit x) = None"
proof -
  assume x: "x \<in> {''helloo'', ''shel'', []}"
  then have "x \<in> set err_texts" "length (bytes_of x) < 32" by (auto simp: err_texts_def bytes_of_def)
  then have n: "name_at err_mem (err_lit x) 32 = bytes_of x" using cstr_name_at err_lit_cstr(1) by blast
  have u: "[0..<nat (s32 (int 2))] = [0, 1]" by (simp add: s32_id upt_rec)
  have "bytes_of x \<noteq> [46]" "bytes_of x \<noteq> [115]" using x by (auto simp: bytes_of_def)
  then show ?thesis
    using n u dir_image [OF text_mem_dir] by (auto simp: read_dentry_by_name_def fn_length_name dentry_loop_spec demo_image)
qed

lemma demo_tester_ready: "err_ready err_lit demo_tester {}"
proof -
  note ok = demo_texts_ok(1) [of err_texts]
  have q: "quiet demo_tester" by (simp add: quiet_def demo_texts_def pcb_zero_def)
  have free: "\<not> used (get_file (0, i) (uk demo_tester))" if "2 \<le> i" "i < 8" for i
    using that by (simp add: demo_texts_files)
  have dot: "\<exists>d. read_dentry_by_name err_mem demo_fs (err_lit ''.'') = Some d \<and> filetype d = FILE_TYPE_DIR"
  proof -
    have "cstr err_mem (err_lit ''.'') (bytes_of ''.'')" by (rule err_lit_cstr) (simp add: err_texts_def)
    then show ?thesis using dir_dentry(2) [OF text_mem_dir, where fname = "err_lit ''.''"] by (simp add: cstr_def bytes_of_def load_list_Suc)
  qed
  have tx: "cstr err_mem (err_lit x) (bytes_of x)" "0x8000000 \<le> err_lit x" "err_lit x + length x < 0x8400000" if "x \<in> set err_texts" for x
    using err_lit_cstr [OF that] bspec [OF err_texts_ok(1) that] err_texts_ok(2) by simp_all
  have "x \<in> set err_texts" if "x \<in> set (overall_text # map pass_text test_names)" for x using that by (auto simp: err_texts_def)
  note t1 = tx [OF this]
  have "''.'' \<in> set err_texts" "x \<in> {''helloo'', ''shel'', []} \<Longrightarrow> x \<in> set err_texts" for x by (auto simp: err_texts_def)
  note t2 = tx(2) [OF this(1)] tx(2) [OF this(2)]
  show ?thesis
    unfolding err_ready_def
    using ok q free dot t1 t2 demo_names dir_image(1) [OF text_mem_dir] by (auto simp: demo_texts_files demo_image)
qed

theorem error_tests_pass_witness:
  "\<exists>u'. run_all (kernel_tsys demo_locals 0x400000 demo_context no_children) err_lit (\<lambda>_. 0x8001000) demo_tester = Some (0, u')
     \<and> uout u' = all_passed"
  using error_tests_pass [OF demo_tester_ready, of demo_context demo_locals "0x400000" no_children "\<lambda>_. 0x8001000"]
  by (auto simp: demo_context_def)

end
