(* ===== verification/Scheduling.thy ===== *)
theory Scheduling
  imports Signals
begin

text \<open>
  The timer (\<^verbatim>\<open>student-distrib/scheduling.c\<close>) and the process table as a whole. Every terminal runs the
  last process of a chain of parents and children; the timer interrupt gives the processor to the
  three terminals in turn and starts a shell on a terminal that has none.

  The static variable \<^verbatim>\<open>cur_proc_ind\<close> extends the kernel state. \<open>sched_args\<close> are what the compiler and
  linker choose: the local arrays of the call of \<^verbatim>\<open>_syscall_execute\<close>, the address of the string
  \<^verbatim>\<open>"shell"\<close>, and the stack registers saved for the interrupted process.

  A result \<open>None\<close> of \<open>pit_isr\<close>: the shell could not be started, and the code goes on with the
  uninitialised variable \<^verbatim>\<open>next_pid\<close>.
\<close>

record sched = kernel +
  cur_proc_ind :: nat

record sched_args =
  sh_locals :: exec_locals
  shell_at :: addr
  save_esp :: nat
  save_ebp :: nat

definition init_pit :: "'a pic_st \<Rightarrow> 'a pic_st" where
  "init_pit ps =
     (let set_30MS = (1193182 div 36157 :: nat);
          (p, s) = ps;
          s1 = outb 0x36 0x43 s;
          s2 = outb (word_of_nat (set_30MS mod 256)) 0x40 s1;
          s3 = outb (word_of_nat (set_30MS div 256)) 0x40 s2
      in enable_irq 0 (p, s3))"

text \<open>The part of \<^verbatim>\<open>pit_isr\<close> that gives the processor to process \<open>q\<close>.\<close>

definition switch_to :: "sched_args \<Rightarrow> nat \<Rightarrow> 'a sched_scheme \<Rightarrow> 'a sched_scheme" where
  "switch_to ags q k =
     (let p = cur k;
          k1 = map_user_page q k;
          f = (if term_ind (pcbs k1 q) \<noteq> cur_term_ind k1 then BACKGROUND_1 + term_ind (pcbs k1 q) else VID_MEM_ADDR);
          k2 = k1\<lparr>ptabs := set_user_vidmem f (ptabs k1), tss_esp0 := TASK_KSTACK_BOT q, tss_ss0 := KERNEL_DS\<rparr>;
          k3 = upd_pcb p (\<lambda>P. P\<lparr>pcb_esp := save_esp ags, pcb_ebp := save_ebp ags\<rparr>) k2
      in k3\<lparr>cur := q\<rparr>)"

definition pit_isr :: "sched_args \<Rightarrow> 'a sched_scheme \<Rightarrow> (flow \<times> 'a sched_scheme) option" where
  "pit_isr ags k =
     (let k1 = send_eoi 0 k;
          ind = (cur_proc_ind k1 + 1) mod TERM_NUM;
          k2 = k1\<lparr>cur_proc_ind := ind\<rparr>;
          next_pid = cur_pid (terms k2 ! ind)
      in if next_pid = 0 then
           (case syscall_execute_at (sh_locals ags) (shell_at ags) (int ind) k2 of
              Some (Enters e, k3) \<Rightarrow> Some (Enters e, k3)
            | _ \<Rightarrow> None)
         else if pid (pcbs k2 (cur k2)) = next_pid then Some (Returns 0, k2)
         else Some (Returns 0, switch_to ags next_pid k2))"

subsection \<open>Specifications\<close>

text \<open>
  \<open>linked P t ps\<close>: the processes \<open>ps\<close> of terminal \<open>t\<close> are each the child of the next one, and the last
  has no parent.
\<close>

fun linked :: "(nat \<Rightarrow> PCB) \<Rightarrow> nat \<Rightarrow> nat list \<Rightarrow> bool" where
  "linked P t [] = True"
| "linked P t (p # ps) =
     (pid (P p) = p \<and> term_ind (P p) = t \<and> parent (P p) = (case ps of [] \<Rightarrow> None | q # _ \<Rightarrow> Some q) \<and> linked P t ps)"

text \<open>
  The invariant of the process table: the processes in use are exactly the members of three disjoint
  chains, one for each terminal, whose first member is the terminal's current process; the process
  that runs is the current one of some terminal (or there are none yet); and the page tables and
  the TSS are set for it.
\<close>

definition chain_of :: "(nat \<Rightarrow> nat list) \<Rightarrow> 'a sched_scheme \<Rightarrow> nat \<Rightarrow> bool" where
  "chain_of ch k t \<longleftrightarrow> cur_pid (terms k ! t) = (case ch t of [] \<Rightarrow> 0 | p # _ \<Rightarrow> p) \<and> linked (pcbs k) t (ch t)
     \<and> distinct (ch t) \<and> (\<forall>p \<in> set (ch t). 1 \<le> p \<and> p < MAX_PROC_NUM)"

definition chains_ok :: "(nat \<Rightarrow> nat list) \<Rightarrow> 'a sched_scheme \<Rightarrow> bool" where
  "chains_ok ch k \<longleftrightarrow> length (terms k) = TERM_NUM \<and> length (pid_used k) = MAX_PROC_NUM
     \<and> (\<forall>t < TERM_NUM. chain_of ch k t)
     \<and> (\<forall>t < TERM_NUM. \<forall>u < TERM_NUM. t \<noteq> u \<longrightarrow> set (ch t) \<inter> set (ch u) = {})
     \<and> (\<forall>p < MAX_PROC_NUM. pid_used k ! p \<longleftrightarrow> (\<exists>t < TERM_NUM. p \<in> set (ch t)))"

definition running_ok :: "(nat \<Rightarrow> nat list) \<Rightarrow> 'a sched_scheme \<Rightarrow> bool" where
  "running_ok ch k \<longleftrightarrow> tables_ok (ptabs k)
     \<and> (if cur k = 0 then (\<forall>t < TERM_NUM. ch t = [])
        else (\<exists>t < TERM_NUM. ch t \<noteq> [] \<and> hd (ch t) = cur k)
          \<and> user_frame k = TASK_PAGE_INDEX (cur k) \<and> tss_esp0 k = TASK_KSTACK_BOT (cur k))"

definition procs_ok :: "'a sched_scheme \<Rightarrow> bool" where
  "procs_ok k \<longleftrightarrow> (\<exists>ch. chains_ok ch k \<and> running_ok ch k)"

text \<open>What the calls that do not start, end or switch processes keep of the process table.\<close>

definition same_procs :: "'a sched_scheme \<Rightarrow> 'a sched_scheme \<Rightarrow> bool" where
  "same_procs k k' \<longleftrightarrow> cur k' = cur k \<and> length (terms k') = length (terms k)
     \<and> (\<forall>t < length (terms k). cur_pid (terms k' ! t) = cur_pid (terms k ! t))
     \<and> (\<forall>p. parent (pcbs k' p) = parent (pcbs k p) \<and> pid (pcbs k' p) = pid (pcbs k p) \<and> term_ind (pcbs k' p) = term_ind (pcbs k p))
     \<and> pid_used k' = pid_used k \<and> ptabs k' = ptabs k \<and> tss_esp0 k' = tss_esp0 k"

text \<open>One event of the kernel.\<close>

inductive kstep :: "'a sched_scheme \<Rightarrow> 'a sched_scheme \<Rightarrow> bool" where
  execute: "cur k \<noteq> 0 \<Longrightarrow> syscall_execute loc command k = Some (fl, k') \<Longrightarrow> kstep k k'"
| halt: "cur k \<noteq> 0 \<Longrightarrow> syscall_halt_with prev status c k = (fl, c', k') \<Longrightarrow> kstep k k'"
| tick: "pit_isr ags k = Some (fl, k') \<Longrightarrow> kstep k k'"
| close: "syscall_close prev fd k = (v, k') \<Longrightarrow> kstep k k'"
| set_handler: "syscall_set_handler signum handler k = (v, k') \<Longrightarrow> kstep k k'"
| getargs: "syscall_getargs buf nbytes k = (v, k') \<Longrightarrow> kstep k k'"
| vidmap: "syscall_vidmap buf k = (v, k') \<Longrightarrow> kstep k k'"
| malloc: "sys_malloc n k = (a, k') \<Longrightarrow> kstep k k'"
| free: "sys_free buf k = (v, k') \<Longrightarrow> kstep k k'"
| signal: "check_signals linkage prev c k = (fl, c', k') \<Longrightarrow> cur k \<noteq> 0 \<Longrightarrow> kstep k k'"
| quiet: "same_procs k k' \<Longrightarrow> kstep k k'"

inductive reachable :: "'a sched_scheme \<Rightarrow> 'a sched_scheme \<Rightarrow> bool" where
  start: "reachable k k"
| step: "reachable k k' \<Longrightarrow> kstep k' k'' \<Longrightarrow> reachable k k''"

text \<open>\<open>n\<close> timer interrupts.\<close>

primrec ticks :: "sched_args \<Rightarrow> nat \<Rightarrow> 'a sched_scheme \<Rightarrow> 'a sched_scheme option" where
  "ticks ags 0 k = Some k"
| "ticks ags (Suc n) k = (case ticks ags n k of None \<Rightarrow> None | Some k1 \<Rightarrow> map_option snd (pit_isr ags k1))"

text \<open>The kernel at the end of \<^verbatim>\<open>entry\<close>: no processes, three terminals, the tables of \<open>init_page\<close>.\<close>

definition booted :: "'a sched_scheme \<Rightarrow> bool" where
  "booted k \<longleftrightarrow> cur k = 0 \<and> pid_used k = replicate MAX_PROC_NUM False \<and> length (terms k) = TERM_NUM
     \<and> (\<forall>t < TERM_NUM. cur_pid (terms k ! t) = 0) \<and> (\<exists>vt ut. ptabs k = init_page vt ut)"

definition demo_sched :: sched where
  "demo_sched = kernel.extend demo_kernel (sched.fields 0)"

text \<open>Three shells, the first one running.\<close>

definition demo_three :: sched where
  "demo_three = demo_sched\<lparr>cur := 1, pid_used := map (\<lambda>p. 1 \<le> p \<and> p \<le> 3) [0..<10],
     terms := map (\<lambda>t. term_zero\<lparr>cur_pid := t + 1\<rparr>) [0..<3],
     pcbs := (\<lambda>p. pcb_zero\<lparr>pid := p, term_ind := p - 1, parent := None\<rparr>),
     ptabs := tables_for 0x410 0x411 3 0xB8, tss_esp0 := TASK_KSTACK_BOT 1\<rparr>"

definition demo_args :: sched_args where
  "demo_args = \<lparr>sh_locals = demo_locals, shell_at = 0x500, save_esp = 0x7FF000, save_ebp = 0x7FF100\<rparr>"

subsection \<open>Steps that leave the process table alone\<close>

lemma same_procs_refl [simp]: "same_procs k k"
  by (simp add: same_procs_def)

lemma same_procs_trans: "same_procs k k' \<Longrightarrow> same_procs k' k'' \<Longrightarrow> same_procs k k''"
  by (auto simp: same_procs_def)

lemma same_procs_fold: "(\<And>i k. same_procs k (f i k)) \<Longrightarrow> same_procs k (fold f xs k)"
  by (induction xs arbitrary: k) (auto intro: same_procs_trans)

lemma same_procs_machine [simp]:
  "same_procs k (k\<lparr>mem := m\<rparr>)" "same_procs k (outb d p k)" "same_procs k (cli k)" "same_procs k (sti k)"
  "same_procs k (k\<lparr>rtc_files := r\<rparr>)" "same_procs k (upd_file q g k)" "same_procs k (send_eoi n k)"
  by (simp_all add: same_procs_def outb_def cli_def sti_def upd_file_def send_eoi_def)

lemma same_procs_after:
  "same_procs k s \<Longrightarrow> same_procs k (outb d p s)" "same_procs k s \<Longrightarrow> same_procs k (cli s)"
  "same_procs k s \<Longrightarrow> same_procs k (sti s)" "same_procs k s \<Longrightarrow> same_procs k (upd_file r g s)"
  by (blast intro: same_procs_trans same_procs_machine)+

lemma same_procs_upd_pcb:
  assumes "\<And>P. parent (f P) = parent P \<and> pid (f P) = pid P \<and> term_ind (f P) = term_ind P"
  shows "same_procs k (upd_pcb p f k)"
  using assms by (simp add: same_procs_def)

lemma same_procs_reset_all: "same_procs k (reset_all k)"
  unfolding reset_all_def by (rule same_procs_fold) (simp add: reset_rtc_info_def split: option.splits)

lemma same_procs_set_freq: "same_procs k (snd (rtc_set_pi_freq prev freq k))"
proof -
  have "same_procs k ((cli k)\<lparr>sys_freq_pow := a, sys_freq := b, sys_counter_step := c\<rparr>)" for a b c
    by (simp add: same_procs_def cli_def)
  then show ?thesis
    by (auto simp: rtc_set_pi_freq_def Let_def intro!: same_procs_trans [OF _ same_procs_reset_all] same_procs_after)
qed

lemma same_procs_rtc_close: "same_procs k (snd (rtc_close prev r k))"
  by (auto simp: rtc_close_def Let_def split: prod.splits intro: same_procs_trans [OF same_procs_machine(5) same_procs_set_freq])

lemma same_procs_ops_close: "same_procs k (snd (ops_close ops prev r k))"
  by (cases ops) (simp_all add: same_procs_rtc_close)

lemma same_procs_close_all: "same_procs k (close_all prev k)"
  unfolding close_all_def by (rule same_procs_fold) (simp add: same_procs_ops_close)

lemma same_procs_close: "same_procs k (snd (syscall_close prev fd k))"
proof -
  obtain v k1 where r: "ops_close (file_ops (get_file (cur k, nat fd) k)) prev (cur k, nat fd) k = (v, k1)" by fastforce
  then have "same_procs k k1" using same_procs_ops_close by (metis snd_conv)
  then show ?thesis using r by (simp add: syscall_close_def same_procs_after)
qed

lemma same_procs_put_heap: "same_procs k (put_heap h k)"
  by (simp add: put_heap_def same_procs_def)

lemma same_procs_calls:
  "same_procs k (snd (syscall_set_handler signum handler k))" "same_procs k (snd (syscall_getargs buf nbytes k))"
  "same_procs k (snd (syscall_vidmap buf k))" "same_procs k (snd (sys_malloc n k))" "same_procs k (snd (sys_free buf k))"
  by (simp_all add: syscall_set_handler_def syscall_getargs_def syscall_vidmap_def sys_malloc_def sys_free_def Let_def
      same_procs_put_heap same_procs_upd_pcb split: option.splits prod.splits)

lemma linked_cong:
  "\<forall>p \<in> set ps. parent (Q p) = parent (P p) \<and> pid (Q p) = pid (P p) \<and> term_ind (Q p) = term_ind (P p) \<Longrightarrow> linked Q t ps = linked P t ps"
  by (induction ps) simp_all

lemma same_procs_ok:
  assumes "procs_ok k" "same_procs k k'"
  shows "procs_ok k'"
proof -
  obtain ch where ch: "chains_ok ch k" "running_ok ch k" using assms(1) by (auto simp: procs_ok_def)
  have "linked (pcbs k') t (ch t) = linked (pcbs k) t (ch t)" for t
    using assms(2) by (intro linked_cong) (simp add: same_procs_def)
  then have "chains_ok ch k'" using ch(1) assms(2) by (simp add: chains_ok_def chain_of_def same_procs_def)
  moreover have "user_frame k' = user_frame k" using assms(2) by (simp add: same_procs_def user_frame_def)
  then have "running_ok ch k'" using ch(2) assms(2) by (simp add: running_ok_def same_procs_def)
  ultimately show ?thesis by (auto simp: procs_ok_def)
qed

subsection \<open>Starting, ending and switching processes\<close>

lemma member_upd: "t < n \<Longrightarrow> (\<exists>u < n. r \<in> set ((ch(t := xs)) u)) \<longleftrightarrow> r \<in> set xs \<or> (\<exists>u < n. u \<noteq> t \<and> r \<in> set (ch u))"
  for ch :: "nat \<Rightarrow> 'b list"
  by (metis fun_upd_apply)

lemma member_split: "t < n \<Longrightarrow> (\<exists>u < n. r \<in> set (ch u)) \<longleftrightarrow> r \<in> set (ch t) \<or> (\<exists>u < n. u \<noteq> t \<and> r \<in> set (ch u))"
  for ch :: "nat \<Rightarrow> 'b list"
  by metis

text \<open>A new first member of a chain.\<close>

lemma chains_push:
  assumes "chains_ok ch k" "1 \<le> p" "p < MAX_PROC_NUM" "\<not> pid_used k ! p" "t < TERM_NUM"
    and k': "length (terms k') = TERM_NUM" "\<forall>u < TERM_NUM. cur_pid (terms k' ! u) = (if u = t then p else cur_pid (terms k ! u))"
      "pid_used k' = (pid_used k)[p := True]"
      "\<forall>q. q \<noteq> p \<longrightarrow> parent (pcbs k' q) = parent (pcbs k q) \<and> pid (pcbs k' q) = pid (pcbs k q) \<and> term_ind (pcbs k' q) = term_ind (pcbs k q)"
      "pid (pcbs k' p) = p" "term_ind (pcbs k' p) = t" "parent (pcbs k' p) = (case ch t of [] \<Rightarrow> None | q # _ \<Rightarrow> Some q)"
  shows "chains_ok (ch(t := p # ch t)) k'"
proof -
  have new: "p \<notin> set (ch u)" if "u < 3" for u using assms(1,3,4) that by (auto simp: chains_ok_def)
  have lk: "linked (pcbs k') u (ch u) = linked (pcbs k) u (ch u)" if "u < 3" for u
    using new [OF that] k'(4) by (intro linked_cong) metis
  have "chain_of (ch(t := p # ch t)) k' u" if u: "u < 3" for u
  proof -
    have "chain_of ch k u" using assms(1) u by (simp add: chains_ok_def)
    then show ?thesis using lk [OF u] new [OF u] k' u assms(2,3) by (auto simp: chain_of_def)
  qed
  moreover have "pid_used k' ! q \<longleftrightarrow> (\<exists>u < 3. q \<in> set ((ch(t := p # ch t)) u))" if "q < 10" for q
  proof -
    have "pid_used k ! q \<longleftrightarrow> (\<exists>u < 3. q \<in> set (ch u))" "length (pid_used k) = 10" using assms(1) that by (auto simp: chains_ok_def)
    then show ?thesis using k'(3) that assms(3)
      unfolding member_upd [OF assms(5)] member_split [OF assms(5), of q ch] by (auto simp: nth_list_update)
  qed
  moreover have "set ((ch(t := p # ch t)) u) \<inter> set ((ch(t := p # ch t)) v) = {}" if "u < 3" "v < 3" "u \<noteq> v" for u v
    using assms(1) that new by (auto simp: chains_ok_def)
  ultimately show ?thesis using assms(1) k'(1,3) by (simp add: chains_ok_def)
qed

text \<open>The first member of a chain leaves.\<close>

lemma chains_pop:
  assumes "chains_ok ch k" "t < TERM_NUM" "ch t = p # q # ps"
    and k': "length (terms k') = TERM_NUM" "\<forall>u < TERM_NUM. cur_pid (terms k' ! u) = (if u = t then q else cur_pid (terms k ! u))"
      "pid_used k' = (pid_used k)[p := False]"
      "\<forall>q. parent (pcbs k' q) = parent (pcbs k q) \<and> pid (pcbs k' q) = pid (pcbs k q) \<and> term_ind (pcbs k' q) = term_ind (pcbs k q)"
  shows "chains_ok (ch(t := q # ps)) k'"
proof -
  have lk: "linked (pcbs k') u xs = linked (pcbs k) u xs" for u xs
    using k'(4) by (intro linked_cong) metis
  have d: "p \<notin> set (q # ps)" "p < 10" using assms(1-3) by (auto simp: chains_ok_def chain_of_def)
  have o: "u < 3 \<Longrightarrow> u \<noteq> t \<Longrightarrow> p \<notin> set (ch u)" for u using assms(1-3) by (auto simp: chains_ok_def)
  have "chain_of (ch(t := q # ps)) k' u" if u: "u < 3" for u
  proof -
    have "chain_of ch k u" using assms(1) u by (simp add: chains_ok_def)
    then show ?thesis using lk k' u assms(3) by (auto simp: chain_of_def)
  qed
  moreover have "pid_used k' ! r \<longleftrightarrow> (\<exists>u < 3. r \<in> set ((ch(t := q # ps)) u))" if "r < 10" for r
  proof -
    have "pid_used k ! r \<longleftrightarrow> (\<exists>u < 3. r \<in> set (ch u))" "length (pid_used k) = 10" using assms(1) that by (auto simp: chains_ok_def)
    then show ?thesis using k'(3) that d o assms(3)
      unfolding member_upd [OF assms(2)] member_split [OF assms(2), of r ch] by (auto simp: nth_list_update)
  qed
  moreover have "set ((ch(t := q # ps)) u) \<inter> set ((ch(t := q # ps)) v) = {}" if "u < 3" "v < 3" "u \<noteq> v" for u v
  proof -
    have "set ((ch(t := q # ps)) w) \<subseteq> set (ch w)" for w using assms(3) by auto
    then show ?thesis using assms(1) that unfolding chains_ok_def by blast
  qed
  ultimately show ?thesis using assms(1) k'(1,3) by (simp add: chains_ok_def)
qed

lemma exec_enters:
  assumes "syscall_execute_at loc command ti k = Some (Enters e, k')"
  shows "\<exists>p ar m1 m3. find_pid (pid_used k) = Some p
    \<and> k' = (setup_task loc p ar ti ((map_user_page p (k\<lparr>mem := m1\<rparr>))\<lparr>mem := m3\<rparr>))\<lparr>cur := p, IF := True\<rparr>"
  using assms
  by (auto simp: syscall_execute_at_def exec_image_def Let_def split: option.splits prod.splits if_splits)

lemma chain_at:
  assumes "chains_ok ch k" "t < TERM_NUM" "ch t = p # ps"
  shows "term_ind (pcbs k p) = t" "pid (pcbs k p) = p" "pid_used k ! p" "1 \<le> p" "p < MAX_PROC_NUM"
    "parent (pcbs k p) = (case ps of [] \<Rightarrow> None | q # _ \<Rightarrow> Some q)" "cur_pid (terms k ! t) = p"
proof -
  have c: "chain_of ch k t" using assms(1,2) by (simp add: chains_ok_def)
  then show "term_ind (pcbs k p) = t" "pid (pcbs k p) = p" "1 \<le> p" "p < MAX_PROC_NUM"
    "parent (pcbs k p) = (case ps of [] \<Rightarrow> None | q # _ \<Rightarrow> Some q)" "cur_pid (terms k ! t) = p"
    using assms(3) by (auto simp: chain_of_def)
  then show "pid_used k ! p" using assms by (auto simp: chains_ok_def)
qed

lemma execute_procs:
  fixes k :: "'a sched_scheme"
  assumes ch: "chains_ok ch k" "running_ok ch k" and ex: "syscall_execute_at loc command ti k = Some (Enters e, k')"
    and t: "exec_term ti k < TERM_NUM" "ti = -1 \<and> (\<exists>ps. ch (exec_term ti k) = cur k # ps) \<or> ti \<noteq> -1 \<and> ch (exec_term ti k) = []"
  shows "\<exists>ch'. chains_ok ch' k' \<and> running_ok ch' k'"
proof -
  let ?t = "exec_term ti k"
  obtain p ar m1 m3 where p: "find_pid (pid_used k) = Some p"
    and k': "k' = (setup_task loc p ar ti ((map_user_page p (k\<lparr>mem := m1\<rparr>))\<lparr>mem := m3\<rparr>))\<lparr>cur := p, IF := True\<rparr>"
    using exec_enters [OF ex] by blast
  note p' = find_pid_Some [OF p]
  have ncur: "p \<noteq> cur k"
  proof (cases "cur k = 0")
    case False
    then obtain u where "u < 3" "ch u \<noteq> []" "hd (ch u) = cur k" using ch(2) by (auto simp: running_ok_def)
    then show ?thesis using chain_at(3) [OF ch(1), of u "cur k" "tl (ch u)"] p'(3) by (metis list.collapse)
  qed (use p'(1) in simp)
  define k2 where "k2 = (map_user_page p (k\<lparr>mem := m1\<rparr>))\<lparr>mem := m3\<rparr>"
  have s: "p \<noteq> cur k2" "exec_term ti k2 = ?t" "terms k2 = terms k" "pcbs k2 = pcbs k" "pid_used k2 = pid_used k" "cur k2 = cur k"
    using ncur by (simp_all add: k2_def exec_term_def)
  note st = setup_task_simps [OF s(1), of loc ar ti, unfolded s(2-6)]
  have f: "cur k' = p" "pid_used k' = (pid_used k)[p := True]" "tss_esp0 k' = TASK_KSTACK_BOT p"
    "terms k' = (terms k)[?t := (terms k ! ?t)\<lparr>cur_pid := p\<rparr>]" "ptabs k' = ptabs k2"
    by (simp_all add: k' k2_def [symmetric] st)
  have "chains_ok (ch(?t := p # ch ?t)) k'"
  proof (rule chains_push [OF ch(1) p'(1-3) t(1)])
    show "parent (pcbs k' p) = (case ch ?t of [] \<Rightarrow> None | q # _ \<Rightarrow> Some q)"
      using t(2) chain_at(4) [OF ch(1) t(1), of "cur k"] by (auto simp: k' k2_def [symmetric] st)
  qed (use ch(1) t(1) in \<open>auto simp: f chains_ok_def nth_list_update k' k2_def [symmetric] st\<close>)
  moreover have "user_frame k' = user_frame (map_user_page p (k\<lparr>mem := m1\<rparr>))"
    by (simp add: user_frame_def f k2_def)
  then have "running_ok (ch(?t := p # ch ?t)) k'"
    using user_frame_map [of "k\<lparr>mem := m1\<rparr>" p] p'(1,2) ch(2) t(1) f
    by (auto simp: running_ok_def k2_def)
  ultimately show ?thesis by blast
qed

lemma running_chain:
  assumes "running_ok ch k" "cur k \<noteq> 0"
  obtains t ps where "t < TERM_NUM" "ch t = cur k # ps"
  using assms by (auto simp: running_ok_def) (metis list.collapse)

lemma halt_procs:
  fixes k :: "'a sched_scheme"
  assumes ch: "chains_ok ch k" "running_ok ch k" and "cur k \<noteq> 0" and h: "syscall_halt_with prev status c k = (fl, c', k')"
  shows "\<exists>ch'. chains_ok ch' k' \<and> running_ok ch' k'"
proof -
  obtain t ps where t: "t < 3" "ch t = cur k # ps" using running_chain [OF ch(2) assms(3)] by blast
  note me = chain_at [OF ch(1) t]
  show ?thesis
  proof (cases ps)
    case Nil
    then have "k' = k" using h me(6) by (simp add: syscall_halt_with_def)
    then show ?thesis using ch by blast
  next
    case (Cons q qs)
    then have par: "parent (pcbs k (cur k)) = Some q" using me(6) by simp
    have q: "pid (pcbs k q) = q" "1 \<le> q" "q < 10" using ch(1) t Cons by (auto simp: chains_ok_def chain_of_def)
    define k1 where "k1 = close_all prev k"
    have s: "same_procs k k1" unfolding k1_def by (rule same_procs_close_all)
    then have k1: "cur k1 = cur k" "pid_used k1 = pid_used k" "ptabs k1 = ptabs k" "length (terms k1) = length (terms k)"
      "\<forall>u < length (terms k). cur_pid (terms k1 ! u) = cur_pid (terms k ! u)"
      "\<forall>p. parent (pcbs k1 p) = parent (pcbs k p) \<and> pid (pcbs k1 p) = pid (pcbs k p) \<and> term_ind (pcbs k1 p) = term_ind (pcbs k p)"
      by (simp_all add: same_procs_def)
    have k': "k' = (upd_term t (\<lambda>T. T\<lparr>cur_pid := q\<rparr>) ((map_user_page q k1)\<lparr>tss_esp0 := TASK_KSTACK_BOT q,
        pid_used := (pid_used k)[cur k := False]\<rparr>))\<lparr>cur := q\<rparr>"
      using h par me(1,2) q(1) k1(2,6) by (simp add: syscall_halt_with_def Let_def k1_def [symmetric])
    have "chains_ok (ch(t := q # qs)) k'"
    proof (rule chains_pop [OF ch(1) t(1)])
      show "ch t = cur k # q # qs" using t(2) Cons by simp
    qed (use ch(1) t(1) k1 in \<open>auto simp: k' chains_ok_def nth_list_update\<close>)
    moreover have "user_frame k' = user_frame (map_user_page q k1)" by (simp add: user_frame_def k')
    then have "running_ok (ch(t := q # qs)) k'"
      using user_frame_map [of k1 q] q ch(2) t(1) k1(3) by (auto simp: running_ok_def k')
    ultimately show ?thesis by blast
  qed
qed

lemma switch_procs:
  fixes k :: "'a sched_scheme"
  assumes ch: "chains_ok ch k" "running_ok ch k" and t: "t < TERM_NUM" "ch t = q # ps" and "cur k \<noteq> 0"
  shows "chains_ok ch (switch_to ags q k) \<and> running_ok ch (switch_to ags q k)"
proof -
  let ?k' = "switch_to ags q k"
  note me = chain_at [OF ch(1) t]
  have f: "terms ?k' = terms k" "pid_used ?k' = pid_used k" "cur ?k' = q" "tss_esp0 ?k' = TASK_KSTACK_BOT q"
    "\<forall>p. parent (pcbs ?k' p) = parent (pcbs k p) \<and> pid (pcbs ?k' p) = pid (pcbs k p) \<and> term_ind (pcbs ?k' p) = term_ind (pcbs k p)"
    by (simp_all add: switch_to_def Let_def)
  have lk: "linked (pcbs ?k') u xs = linked (pcbs k) u xs" for u xs
    using f(5) by (intro linked_cong) metis
  have "chains_ok ch ?k'" using ch(1) by (simp add: chains_ok_def chain_of_def f lk)
  moreover obtain vt ut pa g where "ptabs k = tables_for vt ut pa g" using ch(2) by (auto simp: running_ok_def tables_ok_def)
  then have "\<exists>g'. ptabs ?k' = tables_for vt ut (TASK_PAGE_INDEX q) g'" by (simp add: switch_to_def Let_def) blast
  then have "tables_ok (ptabs ?k')" "user_frame ?k' = TASK_PAGE_INDEX q"
    using me(5) user_frame_tables [of ?k'] by (auto simp: tables_ok_def TASK_PAGE_INDEX_def)
  then have "running_ok ch ?k'" using f me(4) t by (auto simp: running_ok_def)
  ultimately show ?thesis by blast
qed

text \<open>The state in which \<^verbatim>\<open>pit_isr\<close> chooses the next process.\<close>

lemma pit_isr_run:
  fixes k :: "'a sched_scheme"
  defines "ind \<equiv> (cur_proc_ind k + 1) mod 3"
  defines "k2 \<equiv> (send_eoi 0 k)\<lparr>cur_proc_ind := ind\<rparr>"
  shows "pit_isr ags k = (if cur_pid (terms k2 ! ind) = 0 then
      (case syscall_execute_at (sh_locals ags) (shell_at ags) (int ind) k2 of Some (Enters e, k3) \<Rightarrow> Some (Enters e, k3) | _ \<Rightarrow> None)
    else if pid (pcbs k2 (cur k2)) = cur_pid (terms k2 ! ind) then Some (Returns 0, k2)
    else Some (Returns 0, switch_to ags (cur_pid (terms k2 ! ind)) k2))"
    and "same_procs k k2" "terms k2 = terms k"
proof -
  have "cur_proc_ind (send_eoi 0 k) = cur_proc_ind k" by (simp add: send_eoi_def outb_def)
  then show "pit_isr ags k = (if cur_pid (terms k2 ! ind) = 0 then
      (case syscall_execute_at (sh_locals ags) (shell_at ags) (int ind) k2 of Some (Enters e, k3) \<Rightarrow> Some (Enters e, k3) | _ \<Rightarrow> None)
    else if pid (pcbs k2 (cur k2)) = cur_pid (terms k2 ! ind) then Some (Returns 0, k2)
    else Some (Returns 0, switch_to ags (cur_pid (terms k2 ! ind)) k2))"
    by (simp add: pit_isr_def Let_def ind_def k2_def)
  show "same_procs k k2" "terms k2 = terms k" by (simp_all add: same_procs_def k2_def send_eoi_def outb_def)
qed

lemma tick_procs:
  fixes k :: "'a sched_scheme"
  assumes ok: "procs_ok k" and h: "pit_isr ags k = Some (fl, k')"
  shows "procs_ok k'"
proof -
  define ind where "ind = (cur_proc_ind k + 1) mod 3"
  define k2 where "k2 = (send_eoi 0 k)\<lparr>cur_proc_ind := ind\<rparr>"
  note run = pit_isr_run(1) [of ags k, folded ind_def k2_def]
  have "same_procs k k2" unfolding k2_def ind_def by (rule pit_isr_run)
  then have "procs_ok k2" using ok by (rule same_procs_ok [rotated])
  then obtain ch where ch: "chains_ok ch k2" "running_ok ch k2" by (auto simp: procs_ok_def)
  have i: "ind < 3" by (simp add: ind_def)
  have c: "cur_pid (terms k2 ! ind) = (case ch ind of [] \<Rightarrow> 0 | p # _ \<Rightarrow> p)"
    using ch(1) i by (simp add: chains_ok_def chain_of_def)
  show ?thesis
  proof (cases "ch ind")
    case Nil
    then obtain e where "syscall_execute_at (sh_locals ags) (shell_at ags) (int ind) k2 = Some (Enters e, k')"
      using h run c by (auto split: option.splits flow.splits prod.splits)
    from execute_procs [OF ch this] show ?thesis using i Nil by (simp add: exec_term_def procs_ok_def)
  next
    case (Cons q ps)
    have q: "q \<noteq> 0" "cur_pid (terms k2 ! ind) = q" using chain_at(4) [OF ch(1) i Cons] c Cons by simp_all
    have "cur k2 \<noteq> 0" using ch(2) Cons i unfolding running_ok_def by (metis list.distinct(1))
    from switch_procs [OF ch i Cons this, of ags] show ?thesis using h run q ch by (auto simp: procs_ok_def split: if_splits)
  qed
qed

lemma halt_returns: "syscall_halt_with prev status c k = (Returns v, c', k') \<Longrightarrow> k' = k"
  by (auto simp: syscall_halt_with_def Let_def split: option.splits)

lemma signal_procs:
  fixes k :: "'a sched_scheme"
  assumes "procs_ok k" "cur k \<noteq> 0" "check_loop linkage prev js c k = (fl, c', k')"
  shows "procs_ok k'"
  using assms
proof (induction js arbitrary: c k)
  case (Cons i js)
  define k1 where "k1 = upd_pcb (cur k) (\<lambda>P. P\<lparr>signals := signals P AND NOT (SIG_FLAG i)\<rparr>) k"
  have "same_procs k k1" unfolding k1_def by (rule same_procs_upd_pcb) simp
  then have ok1: "procs_ok k1" and c1: "cur k1 \<noteq> 0"
    using Cons.prems same_procs_ok by (auto simp: k1_def)
  obtain fl2 c2 k2 where h: "syscall_halt_with prev 256 c k1 = (fl2, c2, k2)" by (metis prod_cases3)
  have ok2: "procs_ok k2" using halt_procs [OF _ _ c1 h] ok1 by (auto simp: procs_ok_def)
  have m: "procs_ok (k1\<lparr>mem := x\<rparr>)" for x using same_procs_ok [OF ok1 same_procs_machine(1)] .
  have r: "fl2 = Returns v \<Longrightarrow> k2 = k1" for v using halt_returns h by blast
  show ?case using Cons.prems Cons.IH [of k c] Cons.IH [of k1 c] Cons.IH [of k1 c2] ok1 ok2 c1 h m r
    by (auto simp: Let_def k1_def [symmetric] split: if_splits flow.splits prod.splits)
qed simp

lemma kstep_procs:
  assumes "kstep k k'" "procs_ok k"
  shows "procs_ok k'"
  using assms
proof cases
  case (execute loc command fl)
  obtain ch where ch: "chains_ok ch k" "running_ok ch k" using assms(2) by (auto simp: procs_ok_def)
  obtain t ps where t: "t < 3" "ch t = cur k # ps" using running_chain [OF ch(2) execute(1)] by blast
  have e: "exec_term (-1) k = t" using chain_at(1) [OF ch(1) t] by (simp add: exec_term_def)
  show ?thesis
  proof (cases fl)
    case (Returns v)
    then have "v = -1 \<and> k' = k\<lparr>mem := mem k'\<rparr>"
      using execute(2) by (auto simp: syscall_execute_def syscall_execute_at_def exec_image_def Let_def split: option.splits prod.splits if_splits)
    then show ?thesis using same_procs_ok [OF assms(2) same_procs_machine(1)] by metis
  next
    case (Enters a)
    then show ?thesis using execute_procs [OF ch, of loc command "-1" a k'] execute(2) t e
      by (simp add: syscall_execute_def procs_ok_def)
  next
    case (Resumes a)
    then show ?thesis using execute(2)
      by (auto simp: syscall_execute_def syscall_execute_at_def exec_image_def Let_def split: option.splits prod.splits if_splits)
  qed
next
  case (halt prev status c fl c')
  then show ?thesis using assms(2) halt_procs by (metis procs_ok_def)
next
  case (tick ags fl)
  then show ?thesis using assms(2) tick_procs by blast
next
  case (close prev fd v)
  then show ?thesis using same_procs_ok [OF assms(2) same_procs_close] by (metis snd_conv)
next
  case (set_handler signum handler v)
  then show ?thesis using same_procs_ok [OF assms(2) same_procs_calls(1)] by (metis snd_conv)
next
  case (getargs buf nbytes v)
  then show ?thesis using same_procs_ok [OF assms(2) same_procs_calls(2)] by (metis snd_conv)
next
  case (vidmap buf v)
  then show ?thesis using same_procs_ok [OF assms(2) same_procs_calls(3)] by (metis snd_conv)
next
  case (malloc n a)
  then show ?thesis using same_procs_ok [OF assms(2) same_procs_calls(4)] by (metis snd_conv)
next
  case (free buf v)
  then show ?thesis using same_procs_ok [OF assms(2) same_procs_calls(5)] by (metis snd_conv)
next
  case (signal linkage prev c fl c')
  then show ?thesis using assms(2) signal_procs [OF assms(2)] by (auto simp: check_signals_def split: if_splits)
next
  case quiet
  then show ?thesis using same_procs_ok [OF assms(2)] by blast
qed

lemma booted_procs: "booted k \<Longrightarrow> procs_ok k"
  unfolding procs_ok_def
proof (rule exI [of _ "\<lambda>_. []"], intro conjI)
  assume b: "booted k"
  show "chains_ok (\<lambda>_. []) k" using b by (auto simp: booted_def chains_ok_def chain_of_def)
  obtain vt ut where "ptabs k = init_page vt ut" using b by (auto simp: booted_def)
  then have "ptabs k = tables_for vt ut 32 0xB8" using init_page_tables_for by simp
  then show "running_ok (\<lambda>_. []) k" using b unfolding running_ok_def tables_ok_def booted_def by auto
qed

text \<open>
  C3: From the state after booting, whatever events follow (programs started, ended, signalled, timer
  ticks, other system calls and interrupts that keep the process table), the process table stays
  consistent: the processes in use are exactly three disjoint parent-child chains, one per terminal,
  headed by the terminal's current process; the process that runs heads one of them, and the page
  tables and the kernel stack of the TSS are its own.
\<close>

theorem kernel_procs_ok:
  assumes "booted k" "reachable k k'"
  shows "procs_ok k'"
  using assms(2) booted_procs [OF assms(1)] by (induction) (auto intro: kstep_procs)

lemma demo_sched_simps:
  "mem demo_sched = demo_disk" "fsg demo_sched = demo_fs" "pid_used demo_sched = replicate 10 False" "cur demo_sched = 0"
  "ptabs demo_sched = init_page 0x410 0x411" "terms demo_sched = replicate 3 term_zero" "cur_proc_ind demo_sched = 0"
  by (simp_all add: demo_sched_def kernel.defs sched.defs demo_kernel_def demo_rtc_def rtc_sys.defs)

lemma demo_booted: "booted demo_sched"
  unfolding booted_def demo_sched_simps by (auto simp: term_zero_def)

lemma demo_execute:
  assumes "mem k = demo_disk" "fsg k = demo_fs" "find_pid (pid_used k) = Some p"
  shows "\<exists>e k'. syscall_execute_at demo_locals 0x500 ti k = Some (Enters e, k')"
proof -
  have "exec_room demo_locals (length [115 :: byte] + 1) k" using demo_room(1) assms by (simp add: exec_room_def)
  then have "\<exists>k'. exec_image demo_locals p [115] None ti k = Some (Enters (entry_of demo_prog), k')"
    using exec_image_loads [of k demo_locals "[115]" demo_prog p None ti] demo_executable assms by (auto simp: demo_room(2))
  then show ?thesis using demo_parse assms by (auto simp: syscall_execute_at_def)
qed

lemma demo_tick: "\<exists>fl k'. pit_isr demo_args demo_sched = Some (fl, k')"
proof -
  define k2 where "k2 = (send_eoi 0 demo_sched)\<lparr>cur_proc_ind := Suc 0\<rparr>"
  have k2: "mem k2 = demo_disk" "fsg k2 = demo_fs" "pid_used k2 = replicate 10 False" "terms k2 = replicate 3 term_zero"
    by (simp_all add: k2_def send_eoi_def outb_def demo_sched_simps)
  have "find_pid (pid_used k2) = Some 1" by (simp add: k2 find_pid_def upt_rec [of _ 10])
  from demo_execute [OF k2(1,2) this, of "int 1"] obtain e k' where "syscall_execute_at demo_locals 0x500 (int 1) k2 = Some (Enters e, k')"
    by blast
  then show ?thesis
    using pit_isr_run(1) [of demo_args demo_sched] by (auto simp: demo_sched_simps k2_def [symmetric] k2 term_zero_def demo_args_def)
qed

theorem kernel_procs_ok_witness:
  "\<exists>fl k'. pit_isr demo_args demo_sched = Some (fl, k') \<and> procs_ok k'"
proof -
  obtain fl k' where r: "pit_isr demo_args demo_sched = Some (fl, k')" using demo_tick by blast
  have "reachable demo_sched k'" by (rule reachable.step [OF reachable.start kstep.tick [OF r]])
  then show ?thesis using r kernel_procs_ok [OF demo_booted] by blast
qed

subsection \<open>Round robin\<close>

lemma tick_next:
  fixes k :: "'a sched_scheme"
  assumes ok: "procs_ok k" and next_pid: "cur_pid (terms k ! ((cur_proc_ind k + 1) mod TERM_NUM)) \<noteq> 0"
  shows "\<exists>k'. pit_isr ags k = Some (Returns 0, k') \<and> terms k' = terms k \<and> cur_proc_ind k' = (cur_proc_ind k + 1) mod TERM_NUM
    \<and> cur k' = cur_pid (terms k ! ((cur_proc_ind k + 1) mod TERM_NUM))"
proof -
  define ind where "ind = (cur_proc_ind k + 1) mod 3"
  define k2 where "k2 = (send_eoi 0 k)\<lparr>cur_proc_ind := ind\<rparr>"
  note run = pit_isr_run(1) [of ags k, folded ind_def, folded k2_def] pit_isr_run(2,3) [of k, folded ind_def, folded k2_def]
  have "procs_ok k2" using ok run(2) by (rule same_procs_ok)
  then obtain ch where ch: "chains_ok ch k2" "running_ok ch k2" by (auto simp: procs_ok_def)
  have i: "ind < 3" by (simp add: ind_def)
  then have "ch ind \<noteq> []" using ch(1) next_pid run(3) by (auto simp: chains_ok_def chain_of_def ind_def)
  then have "cur k2 \<noteq> 0" using ch(2) i unfolding running_ok_def by metis
  then obtain t ps where "t < 3" "ch t = cur k2 # ps" using running_chain [OF ch(2)] by blast
  then have me: "pid (pcbs k2 (cur k2)) = cur k2" using chain_at(2) [OF ch(1)] by blast
  have sw: "terms (switch_to ags q k2) = terms k2" "cur (switch_to ags q k2) = q" "cur_proc_ind (switch_to ags q k2) = cur_proc_ind k2" for q
    by (simp_all add: switch_to_def Let_def upd_pcb_def map_user_page_def)
  have k2i: "cur_proc_ind k2 = ind" by (simp add: k2_def)
  have np: "cur_pid (terms k2 ! ind) \<noteq> 0" using next_pid run(3) by (simp add: ind_def)
  show ?thesis
  proof (cases "cur k2 = cur_pid (terms k2 ! ind)")
    case True
    then have "pit_isr ags k = Some (Returns 0, k2)" using run(1) np me by presburger
    then show ?thesis unfolding ind_def [symmetric] using run(3) k2i True by metis
  next
    case False
    then have "pit_isr ags k = Some (Returns 0, switch_to ags (cur_pid (terms k2 ! ind)) k2)"
      using run(1) np me by presburger
    then show ?thesis unfolding ind_def [symmetric] using run(3) k2i sw by metis
  qed
qed

text \<open>
  C13: The processor goes round: when every terminal has a process, the \<open>n\<close>-th timer interrupt from now
  gives the processor to the current process of the terminal \<open>n\<close> places further on, so that each of the
  three runs again after exactly three interrupts; it never fails and starts nothing new.
\<close>

theorem pit_round_robin:
  assumes "procs_ok k" "\<forall>t < TERM_NUM. cur_pid (terms k ! t) \<noteq> 0" "cur_proc_ind k < TERM_NUM" "0 < n"
  shows "\<exists>k'. ticks ags n k = Some k' \<and> cur k' = cur_pid (terms k ! ((cur_proc_ind k + n) mod TERM_NUM))
    \<and> user_frame k' = TASK_PAGE_INDEX (cur k') \<and> tss_esp0 k' = TASK_KSTACK_BOT (cur k')"
proof -
  have "\<exists>k'. ticks ags n k = Some k' \<and> terms k' = terms k \<and> cur_proc_ind k' = (cur_proc_ind k + n) mod 3 \<and> procs_ok k'
      \<and> (0 < n \<longrightarrow> cur k' = cur_pid (terms k ! ((cur_proc_ind k + n) mod 3)))" for n
  proof (induction n)
    case 0
    then show ?case using assms(1,3) by simp
  next
    case (Suc n)
    then obtain k1 where k1: "ticks ags n k = Some k1" "terms k1 = terms k" "cur_proc_ind k1 = (cur_proc_ind k + n) mod 3" "procs_ok k1"
      by blast
    have e: "(cur_proc_ind k1 + 1) mod 3 = (cur_proc_ind k + Suc n) mod 3" using k1(3) by (simp add: mod_Suc_eq)
    have "cur_pid (terms k1 ! ((cur_proc_ind k1 + 1) mod 3)) \<noteq> 0" using assms(2) k1(2) by simp
    from tick_next [OF k1(4) this, of ags] obtain k2 where k2: "pit_isr ags k1 = Some (Returns 0, k2)" "terms k2 = terms k1"
      "cur_proc_ind k2 = (cur_proc_ind k1 + 1) mod 3" "cur k2 = cur_pid (terms k1 ! ((cur_proc_ind k1 + 1) mod 3))" by blast
    have "procs_ok k2" using tick_procs [OF k1(4) k2(1)] .
    then show ?case using k1 k2 e by simp
  qed
  then obtain k' where k': "ticks ags n k = Some k'" "terms k' = terms k" "procs_ok k'" "cur k' = cur_pid (terms k ! ((cur_proc_ind k + n) mod 3))"
    using assms(4) by blast
  moreover have "cur k' \<noteq> 0" using k'(4) assms(2) by simp
  ultimately show ?thesis by (auto simp: procs_ok_def running_ok_def)
qed

lemma demo_three_procs: "procs_ok demo_three"
proof -
  have "chain_of (\<lambda>t. [t + 1]) demo_three t" if "t < 3" for t
    using that by (simp add: chain_of_def demo_three_def)
  moreover have "pid_used demo_three ! p \<longleftrightarrow> (\<exists>t < 3. p = t + 1)" if "p < 10" for p
  proof -
    have "(\<exists>t < 3. p = t + 1) \<longleftrightarrow> 1 \<le> p \<and> p \<le> 3" by presburger
    then show ?thesis using that by (simp add: demo_three_def del: upt_rec_numeral)
  qed
  ultimately have "chains_ok (\<lambda>t. [t + 1]) demo_three" by (auto simp: chains_ok_def demo_three_def)
  moreover have "user_frame demo_three = 3" using user_frame_tables [of demo_three "0x410" "0x411" 3 "0xB8"] by (simp add: demo_three_def)
  then have "running_ok (\<lambda>t. [t + 1]) demo_three"
    by (auto simp: running_ok_def demo_three_def tables_ok_def TASK_PAGE_INDEX_def)
  ultimately show ?thesis by (auto simp: procs_ok_def)
qed

theorem pit_round_robin_witness:
  "\<exists>k'. ticks demo_args 4 demo_three = Some k' \<and> cur k' = 2 \<and> user_frame k' = TASK_PAGE_INDEX 2"
proof -
  have t: "terms demo_three = map (\<lambda>t. term_zero\<lparr>cur_pid := t + 1\<rparr>) [0..<3]" "cur_proc_ind demo_three = 0"
    by (simp_all add: demo_three_def demo_sched_simps)
  then have "\<forall>t < 3. cur_pid (terms demo_three ! t) \<noteq> 0" by simp
  from pit_round_robin [OF demo_three_procs this, of 4 demo_args] obtain k' where
    "ticks demo_args 4 demo_three = Some k'" "cur k' = cur_pid (terms demo_three ! 1)" "user_frame k' = TASK_PAGE_INDEX (cur k')"
    using t(2) by auto
  then show ?thesis using t(1) by (simp add: numeral_2_eq_2)
qed

subsection \<open>A child and its parent\<close>

lemma execute_fields:
  fixes k :: "'a sched_scheme"
  assumes ch: "chains_ok ch k" "running_ok ch k" and t: "t < TERM_NUM" "ch t = cur k # ps" and "cur k \<noteq> 0"
    and ex: "syscall_execute loc command k = Some (Enters e, k1)"
  shows "find_pid (pid_used k) = Some (cur k1)" "cur k1 \<noteq> cur k" "pid_used k1 = (pid_used k)[cur k1 := True]"
    "terms k1 = (terms k)[t := (terms k ! t)\<lparr>cur_pid := cur k1\<rparr>]" "tables_ok (ptabs k1)"
    "parent (pcbs k1 (cur k1)) = Some (cur k)" "pid (pcbs k1 (cur k1)) = cur k1" "term_ind (pcbs k1 (cur k1)) = t"
    "pid (pcbs k1 (cur k)) = cur k"
proof -
  note me = chain_at [OF ch(1) t]
  obtain p ar m1 m3 where p: "find_pid (pid_used k) = Some p"
    and k': "k1 = (setup_task loc p ar (-1) ((map_user_page p (k\<lparr>mem := m1\<rparr>))\<lparr>mem := m3\<rparr>))\<lparr>cur := p, IF := True\<rparr>"
    using exec_enters [OF ex [unfolded syscall_execute_def]] by blast
  note p' = find_pid_Some [OF p]
  define k2 where "k2 = (map_user_page p (k\<lparr>mem := m1\<rparr>))\<lparr>mem := m3\<rparr>"
  have n: "p \<noteq> cur k" using p'(3) me(3) by auto
  then have s: "p \<noteq> cur k2" "exec_term (-1) k2 = t" "terms k2 = terms k" "pcbs k2 = pcbs k" "pid_used k2 = pid_used k" "cur k2 = cur k"
    using me(1) by (simp_all add: k2_def exec_term_def)
  note st = setup_task_simps [OF s(1), of loc ar "-1", unfolded s(2-6)]
  show "find_pid (pid_used k) = Some (cur k1)" "cur k1 \<noteq> cur k" "pid_used k1 = (pid_used k)[cur k1 := True]"
    "terms k1 = (terms k)[t := (terms k ! t)\<lparr>cur_pid := cur k1\<rparr>]"
    "parent (pcbs k1 (cur k1)) = Some (cur k)" "pid (pcbs k1 (cur k1)) = cur k1" "term_ind (pcbs k1 (cur k1)) = t"
    "pid (pcbs k1 (cur k)) = cur k"
    using p n me(2) assms(5) by (simp_all add: k' k2_def [symmetric] st)
  have "ptabs k1 = ptabs (map_user_page p (k\<lparr>mem := m1\<rparr>))" by (simp add: k' k2_def [symmetric] st) (simp add: k2_def)
  then show "tables_ok (ptabs k1)" using user_frame_map(2) [of "k\<lparr>mem := m1\<rparr>" p] p'(2) ch(2) by (simp add: running_ok_def)
qed

text \<open>
  C14: Ending a program undoes starting it: a process starts a child; the child runs, leaving the
  process table alone; when it ends with a status, the parent's call returns exactly that status,
  and the running process, the numbers in use, the current process of every terminal, the user page
  and the kernel stack are what they were before the child was started.
\<close>

theorem child_returns_to_parent:
  fixes k :: "'a sched_scheme"
  assumes "procs_ok k" "cur k \<noteq> 0" "syscall_execute loc command k = Some (Enters e, k1)" "same_procs k1 k2"
  shows "\<exists>c' k3. syscall_halt_with prev status c k2 = (Resumes status, c', k3) \<and> cur k3 = cur k
    \<and> pid_used k3 = pid_used k \<and> (\<forall>t < TERM_NUM. cur_pid (terms k3 ! t) = cur_pid (terms k ! t))
    \<and> user_frame k3 = user_frame k \<and> tss_esp0 k3 = tss_esp0 k"
proof -
  obtain ch where ch: "chains_ok ch k" "running_ok ch k" using assms(1) by (auto simp: procs_ok_def)
  obtain t ps where t: "t < 3" "ch t = cur k # ps" using running_chain [OF ch(2) assms(2)] by blast
  note me = chain_at [OF ch(1) t] and f = execute_fields [OF ch t assms(2,3)]
  note p' = find_pid_Some [OF f(1)]
  have len: "length (terms k) = 3" "length (pid_used k) = 10" using ch(1) by (simp_all add: chains_ok_def)
  define k2' where "k2' = close_all prev k2"
  have "same_procs k1 k2'" using assms(4) same_procs_close_all same_procs_trans unfolding k2'_def by blast
  then have s: "cur k2 = cur k1" "pid_used k2' = pid_used k1" "ptabs k2' = ptabs k1" "length (terms k2') = length (terms k1)"
    "\<forall>u < length (terms k1). cur_pid (terms k2' ! u) = cur_pid (terms k1 ! u)"
    "\<forall>p. pid (pcbs k2' p) = pid (pcbs k1 p) \<and> term_ind (pcbs k2' p) = term_ind (pcbs k1 p)"
    "parent (pcbs k2 (cur k1)) = parent (pcbs k1 (cur k1))"
    using assms(4) by (simp_all add: same_procs_def)
  define k3 where "k3 = (upd_term t (\<lambda>T. T\<lparr>cur_pid := cur k\<rparr>) ((map_user_page (cur k) k2')\<lparr>tss_esp0 := TASK_KSTACK_BOT (cur k),
        pid_used := (pid_used k1)[cur k1 := False]\<rparr>))\<lparr>cur := cur k\<rparr>"
  have h: "syscall_halt_with prev status c k2 = (Resumes status, c, k3)"
    using f(6-9) s by (simp add: syscall_halt_with_def Let_def k2'_def [symmetric] k3_def)
  have "pid_used k3 = pid_used k" using f(3) p' len(2) by (simp add: k3_def list_update_same_conv)
  moreover have "cur_pid (terms k3 ! u) = cur_pid (terms k ! u)" if "u < 3" for u
    using that s(4,5) f(4) len(1) me(7) t(1) by (auto simp: k3_def nth_list_update)
  moreover have "user_frame k3 = TASK_PAGE_INDEX (cur k)"
    using user_frame_map(1) [of k2' "cur k"] f(5) s(3) me(5) by (simp add: user_frame_def k3_def)
  then have "user_frame k3 = user_frame k" "tss_esp0 k3 = tss_esp0 k" using ch(2) assms(2) by (simp_all add: running_ok_def k3_def)
  ultimately show ?thesis using h by (auto simp: k3_def)
qed

theorem child_returns_to_parent_witness:
  "\<exists>e k1 c' k3. syscall_execute demo_locals 0x500 demo_three = Some (Enters e, k1)
    \<and> syscall_halt_with 0 7 demo_context k1 = (Resumes 7, c', k3) \<and> cur k3 = 1 \<and> pid_used k3 = pid_used demo_three"
proof -
  have m: "mem demo_three = demo_disk" "fsg demo_three = demo_fs" "cur demo_three = 1"
    by (simp_all add: demo_three_def demo_sched_simps)
  have "find_pid (pid_used demo_three) = Some 4" by (simp add: find_pid_def demo_three_def upt_rec [of _ 10])
  from demo_execute [OF m(1,2) this, of "-1"] obtain e k1 where ex: "syscall_execute demo_locals 0x500 demo_three = Some (Enters e, k1)"
    by (auto simp: syscall_execute_def)
  from child_returns_to_parent [OF demo_three_procs _ this same_procs_refl, of 0 7 demo_context] show ?thesis
    using ex m(3) by auto
qed

text \<open>
  The divisor that \<^verbatim>\<open>init_pit\<close> programs is 33, the number of hertz intended, instead of the 36157 clock
  ticks that 30 ms are: the timer runs at more than 36 kHz.
\<close>

lemma init_pit_divisor:
  "ports (snd (init_pit (p, s))) = ports s @ [(0x43, 0x36), (0x40, 33), (0x40, 0), (MASTER_8259_DATA, master_mask (fst (init_pit (p, s))))]
   \<and> 1193182 div (33 :: nat) = 36157"
  by (simp add: init_pit_def enable_irq_def Let_def)

end
