(* ===== verification/Serial.thy ===== *)
theory Serial
  imports Line_Edit
begin

text \<open>
  The serial port (\<^verbatim>\<open>student-distrib/serial.c\<close>) and the game controller on it (\<^verbatim>\<open>tuxctl.c\<close>). The header
  with the controller's command codes is not part of the repository, so the codes are an argument
  (\<open>mtcp\<close>). The two buffers are arrays of \<^verbatim>\<open>int\<close> that the code also uses as arrays of bytes; they are
  modelled as the bytes they consist of, an \<^verbatim>\<open>int\<close> with its low byte first.

  The loops that wait for \<^verbatim>\<open>busy\<close> are the argument \<open>wait\<close>: the state in which the wait ends, or \<open>None\<close>
  when it does not. Inside an interrupt handler nothing can end it (\<open>wait_isr\<close>). The number that the
  assembly instruction in \<^verbatim>\<open>show_score\<close> computes is the argument \<open>digits\<close>, and \<open>behind\<close> gives the bytes
  read behind the end of a table or an uninitialised buffer.
\<close>

record mtcp =
  MTCP_BIOC_EVENT :: byte
  MTCP_RESET :: byte
  MTCP_ACK :: byte
  MTCP_BIOC_ON :: byte
  MTCP_LED_SET :: byte

record tux =
  rx_ind :: nat
  rx_buf :: "byte list"
  tx_ind :: nat
  tx_dat_len :: nat
  tx_buf :: "byte list"
  busy :: bool
  button_state :: byte
  old_button_state :: byte

abbreviation (input) SERIAL_PORT :: nat where "SERIAL_PORT \<equiv> 0x3F8"
abbreviation (input) RX_PACKET_SIZE :: nat where "RX_PACKET_SIZE \<equiv> 3"
abbreviation (input) TX_BUFFER_SIZE :: nat where "TX_BUFFER_SIZE \<equiv> 16"

type_synonym 'a tux_st = "tux \<times> 'a proc_sys_scheme"

definition init_serial :: "'a machine_scheme \<Rightarrow> 'a machine_scheme" where
  "init_serial s =
     outb 0x03 (SERIAL_PORT + 4) (outb 0xC7 (SERIAL_PORT + 2) (outb 0x03 (SERIAL_PORT + 3)
       (outb 0x00 (SERIAL_PORT + 1) (outb 0x0C SERIAL_PORT (outb 0x80 (SERIAL_PORT + 3) (outb 0x00 (SERIAL_PORT + 1) s))))))"

definition data_ready :: "byte \<Rightarrow> bool" where
  "data_ready lsr \<longleftrightarrow> lsr AND 0x01 \<noteq> 0"

definition transmit_empty :: "byte \<Rightarrow> bool" where
  "transmit_empty lsr \<longleftrightarrow> lsr AND 0x20 \<noteq> 0"

definition serial_write :: "byte list \<Rightarrow> nat \<Rightarrow> 'a tux_st \<Rightarrow> 'a tux_st" where
  "serial_write buf sz xs =
     (let (x, s) = xs in
      if TX_BUFFER_SIZE \<le> sz then xs
      else let tb = take sz buf @ drop sz (tx_buf x)
           in (x\<lparr>tx_buf := tb, tx_dat_len := sz, tx_ind := 1\<rparr>, outb (tb ! 0) SERIAL_PORT s))"

subsection \<open>The controller\<close>

datatype tux_cmd_t = TUX_SET_LED | TUX_READ_LED | TUX_BUTTONS | TUX_INIT | TUX_LED_REQUEST | TUX_LED_ACK | TUX_SET_SCORE

definition HEX_DATA :: "byte list" where
  "HEX_DATA = [0xE7, 0x06, 0xCB, 0x8F, 0x2E, 0xAD, 0xED, 0x86, 0xEF, 0xAF, 0xE6, 0x6D, 0xE1, 0x4F, 0xE9, 0xE8]"

definition hex_data :: "(nat \<Rightarrow> byte) \<Rightarrow> nat \<Rightarrow> byte" where
  "hex_data behind i = (if i < 16 then HEX_DATA ! i else behind i)"

definition show_score :: "mtcp \<Rightarrow> ('a tux_st \<Rightarrow> 'a tux_st option) \<Rightarrow> (nat \<Rightarrow> u32w) \<Rightarrow> (nat \<Rightarrow> byte) \<Rightarrow> nat \<Rightarrow> 'a tux_st \<Rightarrow> 'a tux_st option" where
  "show_score mt wait da behind score xs =
     (let digits = da (if score > 9999 then 9999 else score);
          hx = (\<lambda>mask. hex_data behind (unat (digits AND mask)));
          buffer = [MTCP_LED_SET mt, 0x0F, hx 0x0F, hx 0x1E, hx 0x3C, hx 0x78, behind 0, behind 1]
      in case wait xs of
           None \<Rightarrow> None
         | Some (x, s) \<Rightarrow> Some (serial_write buffer 6 (x\<lparr>busy := True\<rparr>, s)))"

text \<open>The address \<^verbatim>\<open>arg\<close> of the answer to \<^verbatim>\<open>TUX_BUTTONS\<close> is in memory.\<close>

definition tuxctl_ioctl :: "mtcp \<Rightarrow> ('a tux_st \<Rightarrow> 'a tux_st option) \<Rightarrow> (nat \<Rightarrow> u32w) \<Rightarrow> (nat \<Rightarrow> byte) \<Rightarrow> tux_cmd_t \<Rightarrow> nat
    \<Rightarrow> 'a tux_st \<Rightarrow> (int \<times> 'a tux_st) option" where
  "tuxctl_ioctl mt wait da behind cmd ar xs =
     (case cmd of
        TUX_INIT \<Rightarrow>
          (case wait xs of
             None \<Rightarrow> None
           | Some (x, s) \<Rightarrow> Some (0, serial_write [MTCP_BIOC_ON mt] 1 (x\<lparr>busy := True\<rparr>, s)))
      | TUX_BUTTONS \<Rightarrow>
          (if ar = 0 then Some (-1, xs)
           else case xs of (x, s) \<Rightarrow> Some (0, x, s\<lparr>mem := (mem s)(ar := NOT (button_state x))\<rparr>))
      | TUX_SET_SCORE \<Rightarrow> map_option (\<lambda>xs. (0, xs)) (show_score mt wait da behind ar xs)
      | _ \<Rightarrow> Some (-1, xs))"

definition init_tuxctl :: "mtcp \<Rightarrow> ('a tux_st \<Rightarrow> 'a tux_st option) \<Rightarrow> (nat \<Rightarrow> u32w) \<Rightarrow> (nat \<Rightarrow> byte) \<Rightarrow> 'a tux_st \<Rightarrow> 'a tux_st option" where
  "init_tuxctl mt wait da behind xs =
     (case tuxctl_ioctl mt wait da behind TUX_INIT 0 (fst xs, init_serial (snd xs)) of
        None \<Rightarrow> None
      | Some (_, xs1) \<Rightarrow> map_option snd (tuxctl_ioctl mt wait da behind TUX_SET_SCORE 0 xs1))"

text \<open>Inside an interrupt handler.\<close>

definition wait_isr :: "'a tux_st \<Rightarrow> 'a tux_st option" where
  "wait_isr xs = (if busy (fst xs) then None else Some xs)"

definition direction_key :: "byte \<Rightarrow> 'a proc_sys_scheme \<Rightarrow> 'a proc_sys_scheme" where
  "direction_key bs s =
     (let d = drop_bit 4 bs AND 0x0F in
      if d = 0x01 then term_key_handler (key_P 119) s
      else if d = 0x02 then term_key_handler (key_P 115) s
      else if d = 0x08 then term_key_handler (key_P 100) s
      else if d = 0x04 then term_key_handler (key_P 97) s
      else s)"

definition buttons :: "byte \<Rightarrow> byte \<Rightarrow> byte" where
  "buttons b c =
     push_bit 4 ((c AND 0x09) OR drop_bit 1 (c AND 0x04) OR push_bit 1 (c AND 0x02)) OR (b AND 0x0F)"

definition tuxctl_handle_packet :: "mtcp \<Rightarrow> (nat \<Rightarrow> u32w) \<Rightarrow> (nat \<Rightarrow> byte) \<Rightarrow> byte list \<Rightarrow> 'a tux_st \<Rightarrow> 'a tux_st option" where
  "tuxctl_handle_packet mt da behind packet xs =
     (let a = packet ! 0; b = packet ! 1; c = packet ! 2; (x, s) = xs in
      if a = MTCP_BIOC_EVENT mt then
        let bs = buttons b c
        in Some (x\<lparr>old_button_state := button_state x, button_state := bs\<rparr>, direction_key bs s)
      else if a = MTCP_RESET mt then map_option snd (tuxctl_ioctl mt wait_isr da behind TUX_INIT 0 xs)
      else if a = MTCP_ACK mt then Some (x\<lparr>busy := False\<rparr>, s)
      else Some xs)"

text \<open>\<open>lsr\<close> and \<open>lsr'\<close> are the line status read for the two tests, \<open>dat\<close> the byte received.\<close>

definition serial_isr :: "mtcp \<Rightarrow> (nat \<Rightarrow> u32w) \<Rightarrow> (nat \<Rightarrow> byte) \<Rightarrow> byte \<Rightarrow> byte \<Rightarrow> byte \<Rightarrow> 'a tux_st \<Rightarrow> 'a tux_st option" where
  "serial_isr mt da behind lsr dat lsr' xs =
     (let r = (if data_ready lsr then
                 (case xs of (x, s) \<Rightarrow>
                    let i = 4 * rx_ind x;
                        x1 = x\<lparr>rx_buf := (rx_buf x)[i := dat, i + 1 := 0, i + 2 := 0, i + 3 := 0], rx_ind := rx_ind x + 1\<rparr>
                    in if rx_ind x1 = RX_PACKET_SIZE
                       then tuxctl_handle_packet mt da behind (rx_buf x1) (x1\<lparr>rx_ind := 0\<rparr>, s)
                       else Some (x1, s))
               else Some xs)
      in case r of
           None \<Rightarrow> None
         | Some (x, s) \<Rightarrow>
             if transmit_empty lsr' \<and> tx_ind x \<noteq> tx_dat_len x
             then Some (x\<lparr>tx_ind := tx_ind x + 1\<rparr>, outb (tx_buf x ! (4 * tx_ind x)) SERIAL_PORT s)
             else Some (x, s))"

text \<open>The state of the driver's variables at the start.\<close>

definition tux_start :: tux where
  "tux_start = \<lparr>rx_ind = 0, rx_buf = replicate 12 0, tx_ind = 0, tx_dat_len = 0, tx_buf = replicate 64 0,
     busy = False, button_state = 0xFF, old_button_state = 0xFF\<rparr>"

text \<open>Some codes, for examples.\<close>

definition demo_mtcp :: mtcp where
  "demo_mtcp = \<lparr>MTCP_BIOC_EVENT = 0x54, MTCP_RESET = 0x42, MTCP_ACK = 0x41, MTCP_BIOC_ON = 0x93, MTCP_LED_SET = 0x87\<rparr>"

subsection \<open>The invariant of the driver\<close>

text \<open>Both buffers have their size and the indices stay inside.\<close>

definition tux_ok :: "tux \<Rightarrow> bool" where
  "tux_ok x \<longleftrightarrow> length (rx_buf x) = 12 \<and> rx_ind x < 3 \<and> length (tx_buf x) = 64 \<and> tx_dat_len x < 16 \<and> tx_ind x \<le> tx_dat_len x"

text \<open>One received byte after another, with nothing to send.\<close>

fun receive :: "mtcp \<Rightarrow> (nat \<Rightarrow> u32w) \<Rightarrow> (nat \<Rightarrow> byte) \<Rightarrow> byte list \<Rightarrow> 'a tux_st \<Rightarrow> 'a tux_st option" where
  "receive mt da behind [] xs = Some xs"
| "receive mt da behind (b # bs) xs =
     (case serial_isr mt da behind 0x01 b 0 xs of None \<Rightarrow> None | Some xs' \<Rightarrow> receive mt da behind bs xs')"

text \<open>\<open>n\<close> interrupts that find the transmitter empty, with nothing received.\<close>

fun transmit :: "mtcp \<Rightarrow> (nat \<Rightarrow> u32w) \<Rightarrow> (nat \<Rightarrow> byte) \<Rightarrow> nat \<Rightarrow> 'a tux_st \<Rightarrow> 'a tux_st option" where
  "transmit mt da behind 0 xs = Some xs"
| "transmit mt da behind (Suc n) xs =
     (case serial_isr mt da behind 0 0 0x20 xs of None \<Rightarrow> None | Some xs' \<Rightarrow> transmit mt da behind n xs')"

lemma tux_start_ok: "tux_ok tux_start"
  by (simp add: tux_ok_def tux_start_def)

lemma serial_write_ok:
  assumes "tux_ok (fst xs)" "0 < sz" "sz \<le> length buf"
  shows "tux_ok (fst (serial_write buf sz xs))"
  using assms by (auto simp: serial_write_def tux_ok_def Let_def split: prod.split)

lemma handle_packet_ok:
  assumes "tuxctl_handle_packet mt da behind packet xs = Some xs'" "tux_ok (fst xs)"
  shows "tux_ok (fst xs')"
proof -
  obtain x s where xs: "xs = (x, s)" by force
  have w: "tux_ok (fst (serial_write [MTCP_BIOC_ON mt] 1 (x\<lparr>busy := True\<rparr>, s)))"
    using assms(2) xs by (intro serial_write_ok) (auto simp: tux_ok_def)
  show ?thesis
    using assms w xs
    by (auto simp: tuxctl_handle_packet_def Let_def tuxctl_ioctl_def wait_isr_def split: if_splits) (auto simp: tux_ok_def)
qed

lemma serial_isr_ok:
  assumes "serial_isr mt da behind l dat l' xs = Some xs'" "tux_ok (fst xs)"
  shows "tux_ok (fst xs')"
proof -
  obtain x s where xs: "xs = (x, s)" by force
  define i where "i = 4 * rx_ind x"
  define x1 where "x1 = x\<lparr>rx_buf := (rx_buf x)[i := dat, i + 1 := 0, i + 2 := 0, i + 3 := 0], rx_ind := rx_ind x + 1\<rparr>"
  define r where "r = (if data_ready l then if rx_ind x1 = 3 then tuxctl_handle_packet mt da behind (rx_buf x1) (x1\<lparr>rx_ind := 0\<rparr>, s)
                       else Some (x1, s) else Some xs)"
  obtain y t where y: "r = Some (y, t)"
    using assms(1) by (cases r) (auto simp: serial_isr_def xs r_def x1_def i_def Let_def split: if_splits)
  have "tux_ok (x1\<lparr>rx_ind := 0\<rparr>)" "rx_ind x1 \<noteq> 3 \<Longrightarrow> tux_ok x1"
    using assms(2) by (auto simp: x1_def tux_ok_def xs)
  then have "tux_ok y"
    using y assms(2) handle_packet_ok by (fastforce simp: r_def xs split: if_splits)
  moreover have "xs' = (if transmit_empty l' \<and> tx_ind y \<noteq> tx_dat_len y
        then (y\<lparr>tx_ind := tx_ind y + 1\<rparr>, outb (tx_buf y ! (4 * tx_ind y)) SERIAL_PORT t) else (y, t))"
    using assms(1) y by (auto simp: serial_isr_def xs r_def x1_def i_def Let_def split: if_splits)
  ultimately show ?thesis by (auto simp: tux_ok_def)
qed

subsection \<open>What reaches the controller's handler\<close>

text \<open>
  A packet of three bytes reaches the handler as its first byte and two zeros: the buffer has one
  \<^verbatim>\<open>int\<close> per byte received, and the handler reads the bytes of the first one. So no button of the
  controller is ever seen pressed.
\<close>

lemma packet_truncated:
  assumes "tux_ok x" "rx_ind x = 0"
  shows "receive mt da behind [a, b, c] (x, s) =
    tuxctl_handle_packet mt da behind [a, 0, 0, 0, b, 0, 0, 0, c, 0, 0, 0] (x\<lparr>rx_buf := [a, 0, 0, 0, b, 0, 0, 0, c, 0, 0, 0], rx_ind := 0\<rparr>, s)"
proof -
  obtain r0 r1 r2 r3 r4 r5 r6 r7 r8 r9 r10 r11 where "rx_buf x = [r0, r1, r2, r3, r4, r5, r6, r7, r8, r9, r10, r11]"
    using assms(1) by (auto simp: tux_ok_def length_Suc_conv numeral_eq_Suc)
  then show ?thesis using assms(2)
    by (simp add: serial_isr_def data_ready_def transmit_empty_def numeral_eq_Suc case_prod_beta split: option.split)
qed

lemma buttons_none: "buttons 0 0 = 0" "direction_key 0 s = s"
  by (simp_all add: buttons_def direction_key_def Let_def)

text \<open>
  Whatever buttons the controller reports, the driver sees none of them. The three bytes of a button
  event are stored one per \<^verbatim>\<open>int\<close>, and the handler reads the first three bytes of the buffer, of
  which the second and third are zero: the state of the buttons becomes 0 and no key is passed on.
\<close>

theorem controller_sees_no_buttons:
  assumes "tux_ok x" "rx_ind x = 0"
  shows "receive mt da behind [MTCP_BIOC_EVENT mt, b, c] (x, s) =
    Some (x\<lparr>rx_buf := [MTCP_BIOC_EVENT mt, 0, 0, 0, b, 0, 0, 0, c, 0, 0, 0], old_button_state := button_state x, button_state := 0\<rparr>, s)"
  unfolding packet_truncated [OF assms]
  using assms(2) by (simp add: tuxctl_handle_packet_def buttons_none)

theorem controller_sees_no_buttons_witness:
  "\<forall>s :: proc_sys. receive demo_mtcp (\<lambda>_. 0) (\<lambda>_. 0) [0x54, 0x0F, 0x0E] (tux_start, s) =
     Some (tux_start\<lparr>rx_buf := [0x54, 0, 0, 0, 0x0F, 0, 0, 0, 0x0E, 0, 0, 0], old_button_state := 0xFF, button_state := 0\<rparr>, s)"
proof
  fix s :: proc_sys
  show "receive demo_mtcp (\<lambda>_. 0) (\<lambda>_. 0) [0x54, 0x0F, 0x0E] (tux_start, s) =
     Some (tux_start\<lparr>rx_buf := [0x54, 0, 0, 0, 0x0F, 0, 0, 0, 0x0E, 0, 0, 0], old_button_state := 0xFF, button_state := 0\<rparr>, s)"
    using controller_sees_no_buttons [where x = tux_start and mt = demo_mtcp and da = "\<lambda>_. 0" and behind = "\<lambda>_. 0" and b = "0x0F" and c = "0x0E" and s = s] tux_start_ok
    by (simp add: demo_mtcp_def tux_start_def del: receive.simps)
qed

subsection \<open>What is sent\<close>

lemma transmit_bytes:
  assumes "tx_ind x + n \<le> tx_dat_len x"
  shows "transmit mt da behind n (x, s) =
    Some (x\<lparr>tx_ind := tx_ind x + n\<rparr>, s\<lparr>ports := ports s @ map (\<lambda>i. (SERIAL_PORT, tx_buf x ! (4 * i))) [tx_ind x..<tx_ind x + n]\<rparr>)"
  using assms
proof (induction n arbitrary: x s)
  case (Suc n)
  have "[tx_ind x..<tx_ind x + Suc n] = tx_ind x # [tx_ind x + 1..<tx_ind x + 1 + n]"
    by (simp add: upt_conv_Cons)
  then show ?case
    using Suc.prems Suc.IH [of "x\<lparr>tx_ind := tx_ind x + 1\<rparr>" "outb (tx_buf x ! (4 * tx_ind x)) SERIAL_PORT s"]
    by (simp add: serial_isr_def data_ready_def transmit_empty_def outb_def)
qed simp

text \<open>
  Of the bytes passed to \<^verbatim>\<open>serial_write\<close> only every fourth is sent, followed by old contents of the
  buffer: the bytes are copied into an array of \<^verbatim>\<open>int\<close> and sent one per \<^verbatim>\<open>int\<close>. As many bytes go out
  as were written, and then nothing more.
\<close>

theorem serial_write_sends:
  assumes "0 < sz" "sz < 16" "sz \<le> length buf"
  shows "transmit mt da behind (sz - 1) (serial_write buf sz (x, s)) =
    Some (x\<lparr>tx_buf := take sz buf @ drop sz (tx_buf x), tx_dat_len := sz, tx_ind := sz\<rparr>,
      s\<lparr>ports := ports s @ map (\<lambda>i. (SERIAL_PORT, (take sz buf @ drop sz (tx_buf x)) ! (4 * i))) [0..<sz]\<rparr>)"
proof -
  have "[0..<sz] = 0 # [1..<1 + (sz - 1)]" using assms(1) by (simp add: upt_conv_Cons)
  then show ?thesis
    using assms by (simp add: serial_write_def Let_def transmit_bytes outb_def)
qed

theorem serial_write_sends_witness:
  "\<forall>s :: proc_sys. transmit demo_mtcp (\<lambda>_. 0) (\<lambda>_. 0) 5 (serial_write [0x87, 0x0F, 0xE7, 0x06, 0xCB, 0x8F] 6 (tux_start, s)) =
     Some (tux_start\<lparr>tx_buf := [0x87, 0x0F, 0xE7, 0x06, 0xCB, 0x8F] @ replicate 58 0, tx_dat_len := 6, tx_ind := 6\<rparr>,
       s\<lparr>ports := ports s @ [(0x3F8, 0x87), (0x3F8, 0xCB), (0x3F8, 0), (0x3F8, 0), (0x3F8, 0), (0x3F8, 0)]\<rparr>)"
proof
  fix s :: proc_sys
  have *: "map (\<lambda>i. (1016::nat, (take 6 [0x87, 0x0F, 0xE7, 0x06, 0xCB, 0x8F] @ drop 6 (tx_buf tux_start)) ! (4 * i))) [0..<6] =
      [(0x3F8, 0x87), (0x3F8, 0xCB), (0x3F8, 0), (0x3F8, 0), (0x3F8, 0), (0x3F8, 0)]"
    by code_simp
  show "transmit demo_mtcp (\<lambda>_. 0) (\<lambda>_. 0) 5 (serial_write [0x87, 0x0F, 0xE7, 0x06, 0xCB, 0x8F] 6 (tux_start, s)) =
     Some (tux_start\<lparr>tx_buf := [0x87, 0x0F, 0xE7, 0x06, 0xCB, 0x8F] @ replicate 58 0, tx_dat_len := 6, tx_ind := 6\<rparr>,
       s\<lparr>ports := ports s @ [(0x3F8, 0x87), (0x3F8, 0xCB), (0x3F8, 0), (0x3F8, 0), (0x3F8, 0), (0x3F8, 0)]\<rparr>)"
    using serial_write_sends [where sz = 6 and buf = "[0x87, 0x0F, 0xE7, 0x06, 0xCB, 0x8F]" and mt = demo_mtcp and da = "\<lambda>_. 0" and behind = "\<lambda>_. 0" and x = tux_start and s = s, unfolded *]
    by (simp add: tux_start_def)
qed

end
