(* ===== verification/Boot.thy ===== *)
theory Boot
  imports Scheduling Idt Keyboard Serial
begin

text \<open>
  The start of the kernel: \<^verbatim>\<open>entry\<close> of \<^verbatim>\<open>student-distrib/kernel.c\<close> with the descriptors of
  \<^verbatim>\<open>x86_desc.h\<close>. The state of the whole kernel is the state of the scheduler with the tables that only
  the start-up writes, the interrupt controllers and the keyboard; the driver of the game controller
  stands beside it. What the linker and the devices contribute is the record \<open>link\<close>: the addresses of
  the assembly symbols, of the descriptor tables and of the page tables, and the bytes read from the
  clock's registers. Interrupts that arrive while \<^verbatim>\<open>entry\<close> runs are not part of the sequence, except
  where it waits for one.
\<close>

record seg_desc_t =
  seg_lim_15_00 :: nat
  base_15_00 :: nat
  base_23_16 :: nat
  seg_type :: nat
  seg_sys :: nat
  seg_dpl :: nat
  seg_present :: nat
  seg_lim_19_16 :: nat
  seg_avail :: nat
  seg_reserved :: nat
  seg_opsize :: nat
  seg_granularity :: nat
  base_31_24 :: nat

definition SET_LDT_PARAMS :: "nat \<Rightarrow> nat \<Rightarrow> seg_desc_t \<Rightarrow> seg_desc_t" where
  "SET_LDT_PARAMS ad lim d = d\<lparr>base_31_24 := ad div 0x1000000 mod 0x100, base_23_16 := ad div 0x10000 mod 0x100,
     base_15_00 := ad mod 0x10000, seg_lim_19_16 := lim div 0x10000 mod 0x10, seg_lim_15_00 := lim mod 0x10000\<rparr>"

definition SET_TSS_PARAMS :: "nat \<Rightarrow> nat \<Rightarrow> seg_desc_t \<Rightarrow> seg_desc_t" where
  "SET_TSS_PARAMS ad lim d = d\<lparr>base_31_24 := ad div 0x1000000 mod 0x100, base_23_16 := ad div 0x10000 mod 0x100,
     base_15_00 := ad mod 0x10000, seg_lim_19_16 := lim div 0x10000 mod 0x10, seg_lim_15_00 := lim mod 0x10000\<rparr>"

record boot = sched +
  ldt_desc_ptr :: seg_desc_t
  tss_desc_ptr :: seg_desc_t
  tss_ldt_selector :: nat
  ldtr :: nat
  task_register :: nat
  idtab :: "idt_desc_t list"
  pics :: pic
  keyb :: kb

record link =
  symb :: "string \<Rightarrow> nat"
  ldt_at :: nat
  tss_at :: nat
  vidmem_table_at :: nat
  user_vidmem_table_at :: nat
  rtc_reg_b :: byte
  rtc_reg_a :: byte

abbreviation (input) MULTIBOOT_BOOTLOADER_MAGIC :: nat where "MULTIBOOT_BOOTLOADER_MAGIC \<equiv> 0x2BADB002"
abbreviation (input) KERNEL_LDT :: nat where "KERNEL_LDT \<equiv> 0x38"
abbreviation (input) KERNEL_TSS :: nat where "KERNEL_TSS \<equiv> 0x30"
abbreviation (input) TSS_SIZE :: nat where "TSS_SIZE \<equiv> 104"

text \<open>The sizes of the LDT (4 entries) and of the TSS, less one, as \<^verbatim>\<open>x86_desc.S\<close> has them.\<close>

abbreviation (input) ldt_size :: nat where "ldt_size \<equiv> 31"
abbreviation (input) tss_size :: nat where "tss_size \<equiv> 103"

definition CHECK_FLAG :: "nat \<Rightarrow> nat \<Rightarrow> bool" where
  "CHECK_FLAG fl b \<longleftrightarrow> bit fl b"

definition ldt_setup :: "link \<Rightarrow> 'a boot_scheme \<Rightarrow> 'a boot_scheme" where
  "ldt_setup ln b =
     (let d = (ldt_desc_ptr b)\<lparr>seg_granularity := 0, seg_opsize := 1, seg_reserved := 0, seg_avail := 0, seg_present := 1,
                seg_dpl := 0, seg_sys := 0, seg_type := 2\<rparr>
      in b\<lparr>ldt_desc_ptr := SET_LDT_PARAMS (ldt_at ln) ldt_size d, ldtr := KERNEL_LDT\<rparr>)"

definition tss_setup :: "link \<Rightarrow> 'a boot_scheme \<Rightarrow> 'a boot_scheme" where
  "tss_setup ln b =
     (let d = (tss_desc_ptr b)\<lparr>seg_granularity := 0, seg_opsize := 0, seg_reserved := 0, seg_avail := 0,
                seg_lim_19_16 := 0, seg_present := 1, seg_dpl := 0, seg_sys := 0, seg_type := 9, seg_lim_15_00 := TSS_SIZE\<rparr>
      in b\<lparr>tss_desc_ptr := SET_TSS_PARAMS (tss_at ln) tss_size d, tss_ldt_selector := KERNEL_LDT,
           tss_ss0 := KERNEL_DS, tss_esp0 := 0x800000, task_register := KERNEL_TSS\<rparr>)"

text \<open>An initialisation that works on the interrupt controllers.\<close>

definition on_pic :: "(pic \<times> 'a boot_scheme \<Rightarrow> pic \<times> 'a boot_scheme) \<Rightarrow> 'a boot_scheme \<Rightarrow> 'a boot_scheme" where
  "on_pic f b = (case f (pics b, b) of (p, b') \<Rightarrow> b'\<lparr>pics := p\<rparr>)"

definition add_vector :: "link \<Rightarrow> nat \<Rightarrow> string \<Rightarrow> 'a boot_scheme \<Rightarrow> 'a boot_scheme" where
  "add_vector ln i name b = b\<lparr>idtab := set_vector i (symb ln name) (idtab b)\<rparr>"

text \<open>From the call of \<^verbatim>\<open>idt_init\<close> to the call of \<^verbatim>\<open>init_term\<close>.\<close>

definition init_devices :: "link \<Rightarrow> addr \<Rightarrow> 'a boot_scheme \<Rightarrow> 'a boot_scheme" where
  "init_devices ln bblock_addr b =
     (let b1 = b\<lparr>idtab := idt_init (symb ln) (idtab b)\<rparr>;
          b2 = b1\<lparr>ptabs := init_page (vidmem_table_at ln) (user_vidmem_table_at ln)\<rparr>;
          b3 = on_pic i8259_init b2;
          b4 = on_pic (init_rtc (rtc_reg_b ln) (rtc_reg_a ln)) (add_vector ln 0x28 ''_rtc_isr'' b3);
          b5 = add_vector ln 0x21 ''_kb_isr'' (on_pic init_kb b4);
          b6 = b5\<lparr>fsg := fs_init bblock_addr\<rparr>
      in init_term b6)"

text \<open>\<open>True\<close>: the final loop with \<^verbatim>\<open>hlt\<close> is reached. \<open>False\<close>: an early return. \<open>None\<close>: the wait does not end.\<close>

definition kernel_entry :: "link \<Rightarrow> mtcp \<Rightarrow> (tux \<times> 'a boot_scheme \<Rightarrow> (tux \<times> 'a boot_scheme) option) \<Rightarrow> (nat \<Rightarrow> u32w) \<Rightarrow> (nat \<Rightarrow> byte)
    \<Rightarrow> nat \<Rightarrow> addr \<Rightarrow> tux \<times> 'a boot_scheme \<Rightarrow> (bool \<times> tux \<times> 'a boot_scheme) option" where
  "kernel_entry ln mt wait da behind magic ad xb =
     (let (x, b) = xb; b0 = clear 0 b; flg = load32 (mem b0) ad in
      if magic \<noteq> MULTIBOOT_BOOTLOADER_MAGIC then Some (False, x, b0)
      else if CHECK_FLAG flg 4 \<and> CHECK_FLAG flg 5 then Some (False, x, b0)
      else
        let b1 = tss_setup ln (ldt_setup ln b0);
            m = load32 (mem b1) (ad + 24);
            bblock_addr = load32 (mem b1) m;
            b2 = init_devices ln bblock_addr b1
        in case init_tuxctl mt wait da behind (x, b2) of
             None \<Rightarrow> None
           | Some (x', b3) \<Rightarrow> Some (True, x', on_pic init_pit (add_vector ln 0x20 ''_pit_isr'' b3)))"

subsection \<open>Interrupts that arrive during a wait\<close>

text \<open>
  A device's request reaches its handler only on a line that the controllers let through. The serial
  port is on line 4. The values read from the devices are arbitrary.
\<close>

inductive irq_step :: "mtcp \<Rightarrow> (nat \<Rightarrow> u32w) \<Rightarrow> (nat \<Rightarrow> byte) \<Rightarrow> tux \<times> 'a boot_scheme \<Rightarrow> tux \<times> 'a boot_scheme \<Rightarrow> bool"
  for mt da behind where
  keyboard: "irq_open 1 (pics b, b) \<Longrightarrow> kb_isr status code junk (keyb b, b) = (kb', b') \<Longrightarrow>
    irq_step mt da behind (x, b) (x, b'\<lparr>keyb := kb'\<rparr>)"
| clock: "irq_open 8 (pics b, b) \<Longrightarrow> irq_step mt da behind (x, b) (x, rtc_isr b)"
| serial: "irq_open 4 (pics b, b) \<Longrightarrow> serial_isr mt da behind l dat l' (x, b) = Some (x', b') \<Longrightarrow>
    irq_step mt da behind (x, b) (x', b')"

inductive_cases irq_stepE: "irq_step mt da behind xb xb'"

subsection \<open>Specifications\<close>

text \<open>The base address and the limit the processor reads from a descriptor.\<close>

definition seg_base :: "seg_desc_t \<Rightarrow> nat" where
  "seg_base d = base_15_00 d + 0x10000 * base_23_16 d + 0x1000000 * base_31_24 d"

definition seg_limit :: "seg_desc_t \<Rightarrow> nat" where
  "seg_limit d = (seg_lim_15_00 d + 0x10000 * seg_lim_19_16 d) * (if seg_granularity d = 1 then 4096 else 1)"

text \<open>The kernel's variables as the boot loader leaves them: the initial values of the program.\<close>

definition loaded :: "'a boot_scheme \<Rightarrow> bool" where
  "loaded b \<longleftrightarrow> terms b = replicate TERM_NUM term_zero \<and> cur_term_ind b = 0 \<and> cur_term b = 0 \<and> cur b = 0
     \<and> pid_used b = replicate MAX_PROC_NUM False \<and> rtc_files b = replicate MAX_PROC_NUM None
     \<and> time_elasped b = replicate MAX_PROC_NUM 0 \<and> length (idtab b) = NUM_VEC \<and> scan_state (keyb b) = 0"

text \<open>
  The kernel when its devices are set up: no processes yet, the invariants of the terminals and of the
  clock, the file system at \<open>bb\<close>, blank screens, open lines 1, 2 and 8 only, interrupt vectors from 0x20
  and 0x28 on, and descriptors that give the processor the tables. \<open>b\<close> is the state before: apart from
  the first 4000 bytes and the screens, memory is as it was.
\<close>

definition boot_ready :: "link \<Rightarrow> addr \<Rightarrow> 'a boot_scheme \<Rightarrow> 'a boot_scheme \<Rightarrow> bool" where
  "boot_ready ln bb b b2 \<longleftrightarrow> booted b2 \<and> sys_ok b2 \<and> rtc_ok b2 \<and> kb_ok (keyb b2, b2) \<and> fsg b2 = fs_init bb \<and> IF b2
     \<and> (\<forall>t < TERM_NUM. cells_of (mem b2) (video_mem (tm t b2)) = replicate 2000 (32, 0x0F))
     \<and> (\<forall>irq < 16. irq_open irq (pics b2, b2) \<longleftrightarrow> irq \<in> {1, 2, 8})
     \<and> (\<forall>ms. pic_ok ms (pics b2, b2) \<and> vector_base (fst (chips ms b2)) = 0x20 \<and> vector_base (snd (chips ms b2)) = 0x28)
     \<and> seg_base (ldt_desc_ptr b2) = ldt_at ln \<and> seg_limit (ldt_desc_ptr b2) = ldt_size \<and> seg_type (ldt_desc_ptr b2) = 2
     \<and> seg_base (tss_desc_ptr b2) = tss_at ln \<and> seg_limit (tss_desc_ptr b2) = tss_size \<and> seg_type (tss_desc_ptr b2) = 9
     \<and> seg_present (ldt_desc_ptr b2) = 1 \<and> seg_present (tss_desc_ptr b2) = 1 \<and> tss_esp0 b2 = 0x800000 \<and> tss_ss0 b2 = KERNEL_DS
     \<and> idtab b2 = set_vector 0x21 (symb ln ''_kb_isr'') (set_vector 0x28 (symb ln ''_rtc_isr'') (idt_init (symb ln) (idtab b)))
     \<and> (\<forall>a. 4000 \<le> a \<and> (a < 0xB8000 \<or> 0xBC000 \<le> a) \<longrightarrow> mem b2 a = mem b a)"

text \<open>A loaded kernel with boot information at 0x10000 and a file system at 0x12000, for examples.\<close>

definition demo_boot :: "mem \<Rightarrow> boot" where
  "demo_boot m =
     (let d = \<lparr>seg_lim_15_00 = 0, base_15_00 = 0, base_23_16 = 0, seg_type = 0, seg_sys = 0, seg_dpl = 0, seg_present = 0,
               seg_lim_19_16 = 0, seg_avail = 0, seg_reserved = 0, seg_opsize = 0, seg_granularity = 0, base_31_24 = 0\<rparr>;
          e = \<lparr>offset_15_00 = 0, seg_selector = 0, reserved4 = 0, reserved3 = False, reserved2 = False,
               reserved1 = False, gate_size = False, reserved0 = False, dpl = 0, present = False, offset_31_16 = 0\<rparr>
      in \<lparr>mem = m, ports = [], IF = False, terms = replicate TERM_NUM term_zero, cur_term_ind = 0, cur_term = 0,
          pcbs = (\<lambda>_. pcb_zero), cur = 0, rtc_files = replicate MAX_PROC_NUM None, time_elasped = replicate MAX_PROC_NUM 0,
          sys_counter_step = 0, sys_freq = 0, sys_freq_pow = 0, fsg = fs_init 0, ptabs = init_page 0 0, frames = (\<lambda>_ _. 0),
          tss_esp0 = 0, tss_ss0 = 0, pid_used = replicate MAX_PROC_NUM False, cur_proc_ind = 0, ldt_desc_ptr = d, tss_desc_ptr = d,
          tss_ldt_selector = 0, ldtr = 0, task_register = 0, idtab = replicate NUM_VEC e,
          pics = \<lparr>master_mask = 0, slave_mask = 0\<rparr>,
          keyb = \<lparr>kb_shift = False, kb_ctrl = False, kb_alt = False, kb_caps = False, scan_state = 0\<rparr>\<rparr>)"

definition demo_info :: "nat \<Rightarrow> mem" where
  "demo_info fl = store32 (store32 (store32 (\<lambda>_. 0) 0x10000 fl) 0x10018 0x11000) 0x11000 0x12000"

definition demo_link :: link where
  "demo_link = \<lparr>symb = (\<lambda>_. 0x400000), ldt_at = 0x404000, tss_at = 0x403000, vidmem_table_at = 0x410000, user_vidmem_table_at = 0x411000,
     rtc_reg_b = 0, rtc_reg_a = 0x26\<rparr>"

subsection \<open>Descriptors\<close>

lemma set_params_base:
  assumes "ad < 2 ^ 32"
  shows "seg_base (SET_LDT_PARAMS ad lim d) = ad" "seg_base (SET_TSS_PARAMS ad lim d) = ad"
proof -
  have m: "ad div 0x1000000 mod 0x100 = ad div 0x1000000" using assms by simp
  moreover have "ad div 0x1000000 = ad div 0x10000 div 0x100" using div_mult2_eq [of ad "0x10000" "0x100"] by simp
  ultimately have "ad mod 0x10000 + 0x10000 * (ad div 0x10000 mod 0x100 + 0x100 * (ad div 0x1000000 mod 0x100)) = ad"
    using mult_div_mod_eq [of "0x100" "ad div 0x10000"] mult_div_mod_eq [of "0x10000" ad] by (simp only: add.commute)
  then show "seg_base (SET_LDT_PARAMS ad lim d) = ad" "seg_base (SET_TSS_PARAMS ad lim d) = ad"
    using m by (simp_all add: seg_base_def SET_LDT_PARAMS_def SET_TSS_PARAMS_def)
qed

lemma set_params_limit:
  assumes "lim < 2 ^ 20" "seg_granularity d \<noteq> 1"
  shows "seg_limit (SET_LDT_PARAMS ad lim d) = lim" "seg_limit (SET_TSS_PARAMS ad lim d) = lim"
proof -
  have "lim div 0x10000 mod 0x10 = lim div 0x10000" using assms(1) by simp
  then show "seg_limit (SET_LDT_PARAMS ad lim d) = lim" "seg_limit (SET_TSS_PARAMS ad lim d) = lim"
    using assms(2) by (simp_all add: seg_limit_def SET_LDT_PARAMS_def SET_TSS_PARAMS_def)
qed

subsection \<open>The devices\<close>

lemma init_term_eq:
  assumes "terms s = replicate 3 term_zero"
  shows "init_term s = s\<lparr>mem := mem (init_term s), ports := ports s @ [(0x3D4, 0x0A), (0x3D5, 0), (0x3D4, 0x0B), (0x3D5, 0x0F)],
    IF := True, terms := terms (init_term s)\<rparr>"
  by (simp add: init_term_def Let_def clear_eq outb_def cli_def sti_def)

lemma blank_cells_outside: "a < v \<or> v + 2 * n \<le> a \<Longrightarrow> blank_cells m v c n a = m a"
  by (auto simp: blank_cells_def)

lemma init_term_mem:
  assumes "terms s = replicate 3 term_zero"
    and "a < 0xB8000 \<or> 0xB8FA0 \<le> a" "a < 0xBA000 \<or> 0xBAFA0 \<le> a" "a < 0xBB000 \<or> 0xBBFA0 \<le> a"
  shows "mem (init_term s) a = mem s a"
proof -
  have "terms s = [term_zero, term_zero, term_zero]" using assms(1) by (simp add: numeral_3_eq_3)
  then show ?thesis
    using assms(2-) by (simp add: init_term_def Let_def clear_eq numeral_2_eq_2 blank_cells_outside)
qed

lemma rtc_ok_empty:
  assumes "rtc_files s = replicate MAX_PROC_NUM None" "length (time_elasped s) = MAX_PROC_NUM"
    and "sys_freq_pow s = 1" "sys_freq s = 2" "sys_counter_step s = 4096"
  shows "rtc_ok s"
  using assms by (simp add: rtc_ok_def once_def)

text \<open>What the initialisations write to the ports of the interrupt controllers and of the clock.\<close>

definition device_writes :: "link \<Rightarrow> (nat \<times> byte) list" where
  "device_writes ln =
     [(0x21, 0xFF), (0xA1, 0xFF), (0x20, 0x11), (0xA0, 0x11), (0x21, 0x20), (0xA1, 0x28), (0x21, 0x04), (0xA1, 0x02),
      (0x21, 0x01), (0xA1, 0x01), (0x21, 0xFF), (0xA1, 0xFF),
      (0xA1, 0xFE), (0x21, 0xFD), (0x21, 0xF9),
      (0x70, 0x8B), (0x70, 0x8B), (0x71, rtc_reg_b ln OR 0x40), (0x70, 0x8A), (0x70, 0x8A), (0x71, (rtc_reg_a ln AND 0xF0) OR 3),
      (0x21, 0xF9), (0x3D4, 0x0A), (0x3D5, 0), (0x3D4, 0x0B), (0x3D5, 0x0F)]"

lemma init_term_cong:
  assumes "mem s = mem s'" "terms s = terms s'"
  shows "mem (init_term s) = mem (init_term s')" "terms (init_term s) = terms (init_term s')"
  using assms by (simp_all add: init_term_def Let_def clear_eq upd_term_def)

lemma init_devices_eq:
  assumes "terms b = replicate 3 term_zero"
  shows "init_devices ln bb b = b\<lparr>mem := mem (init_term b), ports := ports b @ device_writes ln, IF := True, terms := terms (init_term b),
    sys_freq_pow := 1, sys_freq := 2, sys_counter_step := 4096, fsg := fs_init bb,
    ptabs := init_page (vidmem_table_at ln) (user_vidmem_table_at ln),
    idtab := set_vector 0x21 (symb ln ''_kb_isr'') (set_vector 0x28 (symb ln ''_rtc_isr'') (idt_init (symb ln) (idtab b))),
    pics := \<lparr>master_mask = 0xF9, slave_mask = 0xFE\<rparr>\<rparr>"
proof -
  define b6 where "b6 = b\<lparr>ports := ports b @ take 22 (device_writes ln), IF := True,
    sys_freq_pow := 1, sys_freq := 2, sys_counter_step := 4096, fsg := fs_init bb,
    ptabs := init_page (vidmem_table_at ln) (user_vidmem_table_at ln),
    idtab := set_vector 0x21 (symb ln ''_kb_isr'') (set_vector 0x28 (symb ln ''_rtc_isr'') (idt_init (symb ln) (idtab b))),
    pics := \<lparr>master_mask = 0xF9, slave_mask = 0xFE\<rparr>\<rparr>"
  have "init_devices ln bb b = init_term b6"
    unfolding b6_def init_devices_def Let_def
    by (rule arg_cong [where f = init_term], rule boot.equality)
      (simp_all add: on_pic_def add_vector_def i8259_init_def init_rtc_def init_kb_def case_prod_beta
        enable_irq_def enable_bits_eq pic_ports outb_def cli_def sti_def device_writes_def)
  also have "\<dots> = b6\<lparr>mem := mem (init_term b), ports := ports b6 @ [(0x3D4, 0x0A), (0x3D5, 0), (0x3D4, 0x0B), (0x3D5, 0x0F)],
    IF := True, terms := terms (init_term b)\<rparr>"
    using init_term_eq [of b6] init_term_cong [of b6 b] assms by (simp add: b6_def)
  finally show ?thesis by (simp add: b6_def device_writes_def)
qed

lemma device_chips:
  assumes "ports b' = ports b @ device_writes ln"
  shows "pic_ok ms (\<lparr>master_mask = 0xF9, slave_mask = 0xFE\<rparr>, b')"
    and "vector_base (fst (chips ms b')) = 0x20" "vector_base (snd (chips ms b')) = 0x28"
  using assms
  by (simp_all add: pic_ok_def chips_def device_writes_def chip_write_def pic_ports data_write_def cmd_write_def case_prod_beta)

lemma boot_lines: "irq < 16 \<Longrightarrow> irq_open irq (\<lparr>master_mask = 0xF9, slave_mask = 0xFE\<rparr>, b) \<longleftrightarrow> irq \<in> {1, 2, 8}"
proof -
  have "\<forall>n < 8. bit (0xF9 :: byte) n \<longleftrightarrow> n \<noteq> 1 \<and> n \<noteq> 2" by (simp add: numeral_eq_Suc less_Suc_eq all_conj_distrib)
  moreover have "\<forall>n < 8. bit (0xFE :: byte) n \<longleftrightarrow> n \<noteq> 0" by (simp add: numeral_eq_Suc less_Suc_eq all_conj_distrib)
  ultimately show "irq < 16 \<Longrightarrow> irq_open irq (\<lparr>master_mask = 0xF9, slave_mask = 0xFE\<rparr>, b) \<longleftrightarrow> irq \<in> {1, 2, 8}"
    by (auto simp: irq_open_def)
qed

lemma first_clear:
  assumes "loaded b"
  shows "clear 0 b = b\<lparr>mem := blank_cells (mem b) 0 0 2000\<rparr>"
  using assms by (simp add: clear_eq loaded_def term_zero_def numeral_3_eq_3)

lemma init_term_cells:
  assumes "terms s = replicate 3 term_zero" "t < 3"
  shows "cells_of (mem (init_term s)) (video_mem (terms (init_term s) ! t)) = replicate 2000 (32, 0x0F)"
proof -
  have "terms s = [term_zero, term_zero, term_zero]" using assms(1) by (simp add: numeral_3_eq_3)
  then have "mem (init_term s) = blank_cells (blank_cells (blank_cells (mem s) 0xB8000 15 2000) 0xBA000 15 2000) 0xBB000 15 2000"
    by (simp add: init_term_def Let_def clear_eq numeral_2_eq_2)
  moreover have "video_mem (terms (init_term s) ! t) = (if t = 0 then 0xB8000 else if t = 1 then 0xBA000 else 0xBB000)"
    using assms(2) less_3_cases [of t] by (auto simp: init_term_terms [OF assms(1)])
  ultimately show ?thesis by (simp add: cells_of_blank cells_of_blank_other)
qed

lemma init_devices_ready:
  fixes b :: "'a boot_scheme"
  assumes "loaded b" "ldt_at ln < 2 ^ 32" "tss_at ln < 2 ^ 32"
  defines "b1 \<equiv> tss_setup ln (ldt_setup ln (clear 0 b))"
  shows "boot_ready ln bb b (init_devices ln bb b1)"
proof -
  have b1: "b1 = tss_setup ln (ldt_setup ln (b\<lparr>mem := blank_cells (mem b) 0 0 2000\<rparr>))"
    by (simp add: b1_def first_clear [OF assms(1)])
  have t1: "terms b1 = replicate 3 term_zero" "cur_term_ind b1 = 0" "cur_term b1 = 0" "cur b1 = 0" "pid_used b1 = replicate 10 False"
      "rtc_files b1 = replicate 10 None" "time_elasped b1 = replicate 10 0" "scan_state (keyb b1) = 0" "idtab b1 = idtab b" "ports b1 = ports b"
      "mem b1 = blank_cells (mem b) 0 0 2000"
    using assms(1) by (simp_all add: b1 loaded_def tss_setup_def ldt_setup_def Let_def)
  define b2 where "b2 = init_devices ln bb b1"
  note e = init_devices_eq [OF t1(1), of ln bb, folded b2_def]
  have it: "terms b2 = terms (init_term b1)" "cur_term_ind b2 = 0" "cur_term b2 = 0" "mem b2 = mem (init_term b1)"
    by (simp_all add: e t1)
  have tb: "tm t b2 = terms (init_term b1) ! t" for t by (simp add: it)
  have sys: "sys_ok b2"
  proof -
    have "sys_ok (init_term b1)" by (rule init_term_ok) (simp_all add: t1)
    moreover have "cur_term_ind (init_term b1) = 0" "cur_term (init_term b1) = 0"
      using t1(2,3) by (subst init_term_eq [OF t1(1)], simp)+
    ultimately show ?thesis by (simp add: sys_ok_def it)
  qed
  have "cur_pid (terms b2 ! t) = 0" if "t < 3" for t
    using less_3_cases [OF that] by (auto simp: it init_term_terms [OF t1(1)] term_zero_def)
  moreover have "length (terms b2) = 3" "cur b2 = 0" "pid_used b2 = replicate 10 False"
      "ptabs b2 = init_page (vidmem_table_at ln) (user_vidmem_table_at ln)"
    by (simp_all add: e t1 init_term_terms [OF t1(1)])
  ultimately have boot: "booted b2" unfolding booted_def by blast
  have rtc: "rtc_ok b2" by (rule rtc_ok_empty) (simp_all add: e t1)
  have cells: "\<forall>t < 3. cells_of (mem b2) (video_mem (tm t b2)) = replicate 2000 (32, 0x0F)"
    using init_term_cells [OF t1(1)] by (simp add: it)
  have pic: "pics b2 = \<lparr>master_mask = 0xF9, slave_mask = 0xFE\<rparr>" "ports b2 = ports b @ device_writes ln" by (simp_all add: e t1)
  have desc: "ldt_desc_ptr b2 = ldt_desc_ptr b1" "tss_desc_ptr b2 = tss_desc_ptr b1" "tss_esp0 b2 = 0x800000" "tss_ss0 b2 = 0x18"
    by (simp_all add: e) (simp_all add: b1 tss_setup_def Let_def)
  have mem: "mem b2 a = mem b a" if "4000 \<le> a \<and> (a < 0xB8000 \<or> 0xBC000 \<le> a)" for a
  proof -
    have "mem b2 a = mem b1 a" unfolding it(4) by (rule init_term_mem [OF t1(1)]) (use that in auto)
    then show ?thesis using that by (simp add: t1 blank_cells_outside)
  qed
  have misc: "kb_ok (keyb b2, b2)" "fsg b2 = fs_init bb" "IF b2"
      "idtab b2 = set_vector 0x21 (symb ln ''_kb_isr'') (set_vector 0x28 (symb ln ''_rtc_isr'') (idt_init (symb ln) (idtab b)))"
    using sys by (simp_all add: kb_ok_def e t1)
  have seg: "seg_base (ldt_desc_ptr b1) = ldt_at ln" "seg_limit (ldt_desc_ptr b1) = 31" "seg_type (ldt_desc_ptr b1) = 2" "seg_present (ldt_desc_ptr b1) = 1"
      "seg_base (tss_desc_ptr b1) = tss_at ln" "seg_limit (tss_desc_ptr b1) = 103" "seg_type (tss_desc_ptr b1) = 9" "seg_present (tss_desc_ptr b1) = 1"
    using assms(2,3) by (simp_all add: b1 tss_setup_def ldt_setup_def Let_def set_params_base set_params_limit)
      (simp_all add: SET_LDT_PARAMS_def SET_TSS_PARAMS_def)
  show ?thesis
    unfolding boot_ready_def b2_def [symmetric] desc(1,2) pic(1)
    using boot sys rtc cells mem misc seg desc(3,4) device_chips [OF pic(2)] boot_lines by blast
qed

subsection \<open>The start of the kernel\<close>

text \<open>A boot loader's information block at \<open>ad\<close>, clear of the first 4000 bytes, whose first module is at \<open>m\<close>.\<close>

definition boot_info :: "mem \<Rightarrow> addr \<Rightarrow> addr \<Rightarrow> bool" where
  "boot_info mm ad m \<longleftrightarrow> 4000 \<le> ad \<and> load32 mm (ad + 24) = m \<and> 4000 \<le> m \<and> \<not> (bit (load32 mm ad) 4 \<and> bit (load32 mm ad) 5)"

lemma load32_blank: "4000 \<le> a \<Longrightarrow> load32 (blank_cells m 0 0 2000) a = load32 m a"
  by (rule load32_cong) (simp add: blank_cells_outside)

lemma kernel_entry_eq:
  assumes "loaded b" "boot_info (mem b) ad m" "magic = MULTIBOOT_BOOTLOADER_MAGIC"
  shows "kernel_entry ln mt wait da behind magic ad (x, b) =
    (case init_tuxctl mt wait da behind (x, init_devices ln (load32 (mem b) m) (tss_setup ln (ldt_setup ln (clear 0 b)))) of
       None \<Rightarrow> None
     | Some (x', b3) \<Rightarrow> Some (True, x', on_pic init_pit (add_vector ln 0x20 ''_pit_isr'' b3)))"
proof -
  have "mem (tss_setup ln (ldt_setup ln (clear 0 b))) = blank_cells (mem b) 0 0 2000" "mem (clear 0 b) = blank_cells (mem b) 0 0 2000"
    by (simp_all add: first_clear [OF assms(1)] tss_setup_def ldt_setup_def Let_def)
  then show ?thesis
    using assms(2,3) by (auto simp: kernel_entry_def Let_def boot_info_def CHECK_FLAG_def load32_blank)
qed

lemma demo_boot_loaded: "loaded (demo_boot m)" "mem (demo_boot m) = m"
  by (simp_all add: loaded_def demo_boot_def Let_def)

lemma demo_info_ok: "boot_info (demo_info 0x8) 0x10000 0x11000" "load32 (demo_info 0x8) 0x11000 = 0x12000" "load32 (demo_info 0x30) 0x10000 = 0x30"
  by (simp_all add: boot_info_def demo_info_def bit_iff_odd)

text \<open>
  C26: Started by a boot loader that passes a file system as its first module, \<^verbatim>\<open>entry\<close> sets up the whole
  kernel before it turns to the game controller: the state then is the one all other theorems start
  from (no processes, consistent terminals, clock, keyboard, page tables and interrupt controllers,
  the file system at the module's address), with blank screens and only the keyboard, the slave
  controller and the clock let through.
\<close>

theorem entry_boots:
  assumes "loaded b" "boot_info (mem b) ad m" "magic = MULTIBOOT_BOOTLOADER_MAGIC" "ldt_at ln < 2 ^ 32" "tss_at ln < 2 ^ 32"
  shows "\<exists>b2. boot_ready ln (load32 (mem b) m) b b2
     \<and> kernel_entry ln mt wait da behind magic ad (x, b) =
         (case init_tuxctl mt wait da behind (x, b2) of
            None \<Rightarrow> None
          | Some (x', b3) \<Rightarrow> Some (True, x', on_pic init_pit (add_vector ln 0x20 ''_pit_isr'' b3)))"
  using init_devices_ready [OF assms(1,4,5)] kernel_entry_eq [OF assms(1-3)] by blast

theorem entry_boots_witness:
  "\<exists>b2. boot_ready demo_link 0x12000 (demo_boot (demo_info 0x8)) b2
     \<and> kernel_entry demo_link demo_mtcp wait_isr (\<lambda>_. 0) (\<lambda>_. 0) 0x2BADB002 0x10000 (tux_start, demo_boot (demo_info 0x8)) =
         (case init_tuxctl demo_mtcp wait_isr (\<lambda>_. 0) (\<lambda>_. 0) (tux_start, b2) of
            None \<Rightarrow> None
          | Some (x', b3) \<Rightarrow> Some (True, x', on_pic init_pit (add_vector demo_link 0x20 ''_pit_isr'' b3)))"
  using entry_boots [OF demo_boot_loaded(1), of "demo_info 0x8" "0x10000" "0x11000" "0x2BADB002" demo_link demo_mtcp wait_isr "\<lambda>_. 0" "\<lambda>_. 0" tux_start]
  by (simp add: demo_boot_loaded demo_info_ok) (simp add: demo_link_def)

text \<open>
  An invalid magic number, or boot information with both of the exclusive flags 4 and 5, makes
  \<^verbatim>\<open>entry\<close> return with nothing done but the first \<^verbatim>\<open>clear\<close>. That call comes before the terminals know
  their video memory: it fills the first 4000 bytes of memory with spaces and zeros.
\<close>

theorem entry_rejects:
  assumes "loaded b" "4000 \<le> ad" "magic \<noteq> MULTIBOOT_BOOTLOADER_MAGIC \<or> bit (load32 (mem b) ad) 4 \<and> bit (load32 (mem b) ad) 5"
  shows "kernel_entry ln mt wait da behind magic ad (x, b) =
    Some (False, x, b\<lparr>mem := (\<lambda>a. if a < 4000 then if even a then 32 else 0 else mem b a)\<rparr>)"
proof -
  have "blank_cells (mem b) 0 0 2000 = (\<lambda>a. if a < 4000 then if even a then 32 else 0 else mem b a)"
    by (rule ext) (auto simp: blank_cells_def)
  then have "clear 0 b = b\<lparr>mem := (\<lambda>a. if a < 4000 then if even a then 32 else 0 else mem b a)\<rparr>"
    by (simp add: first_clear [OF assms(1)])
  moreover have "load32 (mem (clear 0 b)) ad = load32 (mem b) ad"
    using assms(2) by (simp add: first_clear [OF assms(1)] load32_blank)
  ultimately show ?thesis using assms(3) by (auto simp: kernel_entry_def Let_def CHECK_FLAG_def)
qed

theorem entry_rejects_witness:
  "kernel_entry demo_link demo_mtcp wait_isr (\<lambda>_. 0) (\<lambda>_. 0) 0x2BADB002 0x10000 (tux_start, demo_boot (demo_info 0x30)) =
     Some (False, tux_start, demo_boot (\<lambda>a. if a < 4000 then if even a then 32 else 0 else demo_info 0x30 a))"
proof -
  have "bit (load32 (mem (demo_boot (demo_info 0x30))) 0x10000) 4 \<and> bit (load32 (mem (demo_boot (demo_info 0x30))) 0x10000) 5"
    by (simp only: demo_boot_loaded demo_info_ok) (simp add: bit_iff_odd)
  moreover have "(demo_boot m)\<lparr>mem := m'\<rparr> = demo_boot m'" for m m' by (simp add: demo_boot_def Let_def)
  ultimately show ?thesis
    using entry_rejects [OF demo_boot_loaded(1), of "0x10000" "0x2BADB002" "demo_info 0x30" demo_link demo_mtcp wait_isr "\<lambda>_. 0" "\<lambda>_. 0" tux_start]
    by (simp only: demo_boot_loaded) simp
qed

subsection \<open>Handlers leave the interrupt controllers alone\<close>

lemma pics_more: "term_sys.more b = term_sys.more b' \<Longrightarrow> pics b = pics (b' :: 'a boot_scheme)"
  by (cases b, cases b') simp

lemma cursor_more: "term_sys.more (term_back t s) = term_sys.more s" "term_sys.more (forward t s) = term_sys.more s"
  by (simp_all add: term_back_def forward_def Let_def set_vid_char_more)

lemma addch_more: "term_sys.more (addch ch t s) = term_sys.more s"
  by (simp add: addch_def Let_def fold_more putc_more cursor_more)

lemma delch_more: "term_sys.more (delch t s) = term_sys.more s"
  by (simp add: delch_def Let_def fold_more putc_more cursor_more)

lemma curpos_more: "term_sys.more (curpos_back t s) = term_sys.more s" "term_sys.more (curpos_forward t s) = term_sys.more s"
  by (simp_all add: curpos_back_def curpos_forward_def cursor_more)

lemma while_more:
  assumes "\<And>s. term_sys.more (f t s) = term_sys.more s"
  shows "term_sys.more (while_back p f n t s) = term_sys.more s" "term_sys.more (while_forward p f n t s) = term_sys.more s"
  by (induction n arbitrary: s) (simp_all add: assms)

lemma word_more:
  assumes "\<And>s. term_sys.more (f t s) = term_sys.more s"
  shows "term_sys.more (word_back f t s) = term_sys.more s" "term_sys.more (word_forward f t s) = term_sys.more s"
  by (simp_all add: word_back_def word_forward_def Let_def while_more assms)

lemma clear_lines_more: "term_sys.more (term_clear_lines t s) = term_sys.more s"
  by (simp add: term_clear_lines_def Let_def fold_more cursor_more scroll_more)

lemma switch_term_more: "term_sys.more (switch_term ind s) = term_sys.more s"
  by (simp add: switch_term_def Let_def)

lemmas keeps_pics = pics_more [OF addch_more] pics_more [OF delch_more] pics_more [OF curpos_more(1)] pics_more [OF curpos_more(2)]
  pics_more [OF while_more(1) [of curpos_back, OF curpos_more(1)]] pics_more [OF while_more(1) [of delch, OF delch_more]]
  pics_more [OF while_more(2) [of curpos_forward, OF curpos_more(2)]]
  pics_more [OF word_more(1) [of curpos_back, OF curpos_more(1)]] pics_more [OF word_more(1) [of delch, OF delch_more]]
  pics_more [OF word_more(2) [of curpos_forward, OF curpos_more(2)]]
  pics_more [OF clear_lines_more] pics_more [OF switch_term_more] pics_more [OF puts_more]

lemma update_pics [simp]:
  "pics (raise_signal sg p b) = pics b" "pics (upd_term t f b) = pics b" "pics (b\<lparr>cur_term := c\<rparr>) = pics b"
  by (simp_all add: raise_signal_def upd_term_def)

lemma term_ctrl_pics: "pics (term_ctrl c b) = pics b"
  unfolding term_ctrl_def Let_def by (simp only: if_distrib [of pics] keeps_pics update_pics if_cancel cong: if_cong)

lemma term_alt_pics: "pics (term_alt c b) = pics b"
  unfolding term_alt_def Let_def by (simp only: if_distrib [of pics] keeps_pics if_cancel cong: if_cong)

lemma key_handler_pics: "pics (term_key_handler k b) = pics b"
  unfolding term_key_handler_def Let_def
  by (simp only: if_distrib [of pics] keeps_pics update_pics term_ctrl_pics term_alt_pics if_cancel cong: if_cong)

lemma kb_isr_pics: "pics (snd (kb_isr status code junk (k, b))) = pics b"
  by (simp add: kb_isr_def kb_plain_def kb_extended_def Let_def key_handler_pics case_prod_beta)

lemma rtc_isr_pics: "pics (rtc_isr b) = pics b"
proof -
  have "pics (rtc_isr_slot i b) = pics b" for i and b :: "'a boot_scheme"
    by (simp add: rtc_isr_slot_def Let_def raise_signal_def upd_file_def split: option.split)
  then have "pics (fold rtc_isr_slot is b) = pics b" for "is" and b :: "'a boot_scheme"
    by (induction "is" arbitrary: b) simp_all
  then show ?thesis by (simp add: rtc_isr_def outb_def)
qed

subsection \<open>The wait for the controller\<close>

lemma irq_open_cong: "irq_open irq (p, b) = irq_open irq (p, b')"
  by (simp add: irq_open_def)

lemma irq_step_stuck:
  assumes "irq_step mt da behind xb xb'" "pics (snd xb) = p" "\<not> irq_open 4 (p, snd xb)"
  shows "fst xb' = fst xb \<and> pics (snd xb') = p"
  using assms
proof (cases rule: irq_step.cases)
  case (keyboard b status code junk kb' b' x)
  then show ?thesis using assms(2) kb_isr_pics [of status code junk "keyb b" b] by simp
next
  case (clock b x)
  then show ?thesis using assms(2) rtc_isr_pics [of b] by simp
next
  case (serial b l dat l' x x' b')
  then show ?thesis using assms(2,3) by simp
qed

lemma irq_steps_stuck:
  assumes "(irq_step mt da behind)\<^sup>*\<^sup>* xb xb'" "pics (snd xb) = p" "bit (master_mask p) 4"
  shows "fst xb' = fst xb \<and> pics (snd xb') = p"
  using assms(1)
proof (induction rule: rtranclp_induct)
  case (step y z)
  then show ?case using irq_step_stuck [of mt da behind y z p] assms(3) by (auto simp: irq_open_def)
qed (simp add: assms)

text \<open>A wait for \<^verbatim>\<open>busy\<close> that ends, ends after some interrupts in a state where it is clear.\<close>

definition waits_for_irqs :: "mtcp \<Rightarrow> (nat \<Rightarrow> u32w) \<Rightarrow> (nat \<Rightarrow> byte) \<Rightarrow> (tux \<times> 'a boot_scheme \<Rightarrow> (tux \<times> 'a boot_scheme) option) \<Rightarrow> bool" where
  "waits_for_irqs mt da behind wait \<longleftrightarrow>
     (\<forall>xb xb'. wait xb = Some xb' \<longrightarrow> (irq_step mt da behind)\<^sup>*\<^sup>* xb xb' \<and> \<not> busy (fst xb'))"

lemma wait_busy:
  assumes "waits_for_irqs mt da behind wait" "bit (master_mask (pics (snd xb))) 4" "busy (fst xb)"
  shows "wait xb = None"
proof (rule ccontr)
  assume "wait xb \<noteq> None"
  then obtain xb' where "wait xb = Some xb'" by blast
  then have "(irq_step mt da behind)\<^sup>*\<^sup>* xb xb'" "\<not> busy (fst xb')"
    using assms(1) unfolding waits_for_irqs_def by blast+
  then show False using irq_steps_stuck [of mt da behind xb xb' "pics (snd xb)"] assms(2,3) by simp
qed

lemma init_tuxctl_stuck:
  assumes "waits_for_irqs mt da behind wait" "bit (master_mask (pics b)) 4"
  shows "init_tuxctl mt wait da behind (x, b) = None"
proof (cases "wait (x, init_serial b)")
  case (Some xb)
  obtain x1 b1 where xb: "xb = (x1, b1)" by force
  have "pics (init_serial b) = pics b" by (simp add: init_serial_def outb_def)
  moreover have "(irq_step mt da behind)\<^sup>*\<^sup>* (x, init_serial b) xb"
    using assms(1) Some unfolding waits_for_irqs_def by blast
  ultimately have p1: "pics b1 = pics b"
    using irq_steps_stuck [of mt da behind "(x, init_serial b)" xb "pics b"] assms(2) xb by simp
  define w where "w = serial_write [MTCP_BIOC_ON mt] 1 (x1\<lparr>busy := True\<rparr>, b1)"
  have "busy (fst w)" "pics (snd w) = pics b"
    using p1 by (simp_all add: w_def serial_write_def Let_def outb_def)
  then have "wait w = None" using wait_busy [OF assms(1)] assms(2) by simp
  then show ?thesis using Some
    by (simp add: init_tuxctl_def tuxctl_ioctl_def show_score_def Let_def xb w_def)
qed (simp add: init_tuxctl_def tuxctl_ioctl_def)

text \<open>
  C27: The kernel does not get past the initialisation of the game controller. The command that sets the
  display waits until the controller has acknowledged the command before; the acknowledgement could
  only come through line 4 of the interrupt controllers, which nothing has opened. So the timer is
  never started and no shell runs.
\<close>

theorem entry_waits_forever:
  assumes "loaded b" "boot_info (mem b) ad m" "magic = MULTIBOOT_BOOTLOADER_MAGIC" "waits_for_irqs mt da behind wait"
  shows "kernel_entry ln mt wait da behind magic ad (x, b) = None"
proof -
  define b1 where "b1 = tss_setup ln (ldt_setup ln (clear 0 b))"
  have "terms b1 = replicate 3 term_zero"
    using assms(1) by (simp add: b1_def first_clear [OF assms(1)] tss_setup_def ldt_setup_def Let_def loaded_def)
  then have "pics (init_devices ln bb b1) = \<lparr>master_mask = 0xF9, slave_mask = 0xFE\<rparr>" for bb
    by (simp add: init_devices_eq)
  then show ?thesis
    unfolding kernel_entry_eq [OF assms(1-3)] b1_def [symmetric] by (simp add: init_tuxctl_stuck [OF assms(4)])
qed

theorem entry_waits_forever_witness:
  "kernel_entry demo_link demo_mtcp wait_isr (\<lambda>_. 0) (\<lambda>_. 0) 0x2BADB002 0x10000 (tux_start, demo_boot (demo_info 0x8)) = None"
proof -
  have "waits_for_irqs demo_mtcp (\<lambda>_. 0) (\<lambda>_. 0) wait_isr" by (simp add: waits_for_irqs_def wait_isr_def)
  then show ?thesis
    using entry_waits_forever [OF demo_boot_loaded(1), of "demo_info 0x8" "0x10000" "0x11000" "0x2BADB002" demo_mtcp "\<lambda>_. 0" "\<lambda>_. 0" wait_isr demo_link tux_start]
    by (simp add: demo_boot_loaded demo_info_ok)
qed

end
