(* ===== verification/Game2048.thy ===== *)
theory Game2048
  imports Lib
begin

text \<open>
  The game of the user program \<^verbatim>\<open>src/syscalls/2048.c\<close>. The board is a list of 16 integers, row by row,
  0 for an empty field. The keys read from the terminal are arguments, the register of the random
  number generator is part of the state. Tiles stay far below the bounds of \<^verbatim>\<open>int\<close> (a move at most
  doubles a tile, and there are 16 of them), so their arithmetic is that of the integers.

  What the game prints, and what its player sees, is in \<open>Game_Draw\<close>.
\<close>

subsection \<open>Random numbers\<close>

definition random :: "u32w \<Rightarrow> u32w" where
  "random lfsr =
     (let b = lfsr XOR drop_bit 2 lfsr XOR drop_bit 3 lfsr XOR drop_bit 5 lfsr
      in drop_bit 1 lfsr OR push_bit 15 b)"

subsection \<open>Moving\<close>

definition shift_cell :: "nat \<times> nat \<Rightarrow> int list \<Rightarrow> int list" where
  "shift_cell p tile = (case p of (x, y) \<Rightarrow> if tile ! x = 0 then tile[x := tile ! y, y := 0] else tile)"

definition merge_cell :: "nat \<times> nat \<Rightarrow> int list \<times> int \<Rightarrow> int list \<times> int" where
  "merge_cell p s = (case p of (x, y) \<Rightarrow> case s of (tile, delta_score) \<Rightarrow>
     if tile ! x = tile ! y then (tile[x := 2 * tile ! x, y := 0], delta_score + 2 * tile ! x) else (tile, delta_score))"

datatype direction = U | D | R | L

text \<open>The pairs of fields a pass looks at, in its order: the first takes what the second has.\<close>

fun pass_pairs :: "direction \<Rightarrow> (nat \<times> nat) list" where
  "pass_pairs U = map (\<lambda>i. (i, i + 4)) [0..<12]"
| "pass_pairs D = map (\<lambda>i. (i + 4, i)) (rev [0..<12])"
| "pass_pairs R = map (\<lambda>i. (i + 1, i)) (filter (\<lambda>i. \<not> (i = 3 \<or> i = 7 \<or> i = 11)) (rev [0..<15]))"
| "pass_pairs L = map (\<lambda>i. (i, i + 1)) (filter (\<lambda>i. \<not> (i = 3 \<or> i = 7 \<or> i = 11)) [0..<15])"

definition shift_pass :: "direction \<Rightarrow> int list \<Rightarrow> int list" where
  "shift_pass dir tile = fold shift_cell (pass_pairs dir) tile"

definition move_tile :: "direction \<Rightarrow> int list \<Rightarrow> int list \<times> int" where
  "move_tile dir tile =
     fold (\<lambda>j s. if j \<noteq> 4 then (shift_pass dir (fst s), snd s) else fold merge_cell (pass_pairs dir) s) [0..<6 :: nat] (tile, 0)"

subsection \<open>New tiles and the end of the game\<close>

definition empty_tiles :: "int list \<Rightarrow> nat list" where
  "empty_tiles tile = filter (\<lambda>i. tile ! i = 0) [0..<16]"

definition place_tile :: "int list \<times> u32w \<Rightarrow> int list \<times> u32w" where
  "place_tile s =
     (case s of (tile, lfsr) \<Rightarrow>
        let empty_tile = empty_tiles tile; empty_num = length empty_tile in
        if empty_num > 0 then
          let r1 = random lfsr;
              tile_num = (if unat r1 mod 10 \<noteq> 0 then 2 else 4);
              r2 = random r1;
              tile_loc = empty_tile ! (unat r2 mod empty_num)
          in (tile[tile_loc := tile_num], r2)
        else (tile, lfsr))"

definition check_end :: "int list \<Rightarrow> bool \<times> int list" where
  "check_end tile =
     (if \<exists>i < 16. tile ! i = 0 then (False, tile)
      else
        let tile_bak = tile;
            moved = fst (move_tile L (fst (move_tile R (fst (move_tile D (fst (move_tile U tile)))))))
        in if \<exists>i < 16. tile_bak ! i \<noteq> moved ! i then (False, tile_bak) else (True, moved))"

subsection \<open>Playing\<close>

datatype key_2048 = Move direction | Key_retry | Key_quit | Key_help | Key_other

definition get_key :: "byte \<Rightarrow> key_2048" where
  "get_key c =
     (if c = 119 \<or> c = 87 then Move U
      else if c = 115 \<or> c = 83 then Move D
      else if c = 100 \<or> c = 68 then Move R
      else if c = 97 \<or> c = 65 then Move L
      else if c = 114 \<or> c = 82 then Key_retry
      else if c = 113 \<or> c = 81 then Key_quit
      else if c = 105 \<or> c = 73 \<or> c = 104 \<or> c = 72 then Key_help
      else Key_other)"

datatype game_phase = Playing | Lost | Ended

record game =
  tile :: "int list"
  score :: int
  reached :: bool
  lfsr :: u32w
  phase :: game_phase

text \<open>The loop condition.\<close>

definition loop_test :: "game \<Rightarrow> game" where
  "loop_test g = (case check_end (tile g) of (over, t) \<Rightarrow> g\<lparr>tile := t, phase := (if over then Lost else Playing)\<rparr>)"

text \<open>From the label \<^verbatim>\<open>start\<close> to the loop; \<^verbatim>\<open>reached\<close> keeps its value.\<close>

definition start_game :: "game \<Rightarrow> game" where
  "start_game g =
     (case place_tile (place_tile (replicate 16 0, lfsr g)) of (t, l) \<Rightarrow>
        loop_test (g\<lparr>tile := t, lfsr := l, score := 0\<rparr>))"

definition play_key :: "byte \<Rightarrow> game \<Rightarrow> game" where
  "play_key c g =
     (let g1 = (if \<not> reached g \<and> 2048 \<in> set (tile g) then g\<lparr>reached := True\<rparr> else g) in
      case get_key c of
        Key_quit \<Rightarrow> g1\<lparr>phase := Ended\<rparr>
      | Key_retry \<Rightarrow> start_game g1
      | k \<Rightarrow>
          let g2 = (case k of Move dir \<Rightarrow> (case move_tile dir (tile g1) of (t, d) \<Rightarrow> g1\<lparr>tile := t, score := score g1 + d\<rparr>) | _ \<Rightarrow> g1);
              g3 = (if tile g2 \<noteq> tile g1
                    then (case place_tile (tile g2, lfsr g2) of (t, l) \<Rightarrow> g2\<lparr>tile := t, lfsr := l\<rparr>) else g2)
          in loop_test g3)"

definition lost_key :: "byte \<Rightarrow> game \<Rightarrow> game" where
  "lost_key c g =
     (case get_key c of Key_quit \<Rightarrow> g\<lparr>phase := Ended\<rparr> | Key_retry \<Rightarrow> start_game g | _ \<Rightarrow> g)"

definition game_key :: "byte \<Rightarrow> game \<Rightarrow> game" where
  "game_key c g = (case phase g of Playing \<Rightarrow> play_key c g | Lost \<Rightarrow> lost_key c g | Ended \<Rightarrow> g)"

definition main_2048 :: "byte list \<Rightarrow> game" where
  "main_2048 keys =
     fold game_key keys (start_game \<lparr>tile = replicate 16 0, score = 0, reached = False, lfsr = 0xC0FFEE, phase = Playing\<rparr>)"

subsection \<open>Drawing\<close>

text \<open>
  Colour, leading and trailing blanks for a tile; \<open>None\<close>: the variables stay uninitialised (a tile
  above 4096).
\<close>

definition tile_format :: "int \<Rightarrow> (nat \<times> nat \<times> nat) option" where
  "tile_format num =
     (if num = 2 then Some (1, 4, 5) else if num = 4 then Some (2, 4, 5) else if num = 8 then Some (3, 4, 5)
      else if num = 16 then Some (4, 4, 4) else if num = 32 then Some (5, 4, 4) else if num = 64 then Some (6, 4, 4)
      else if num = 128 then Some (7, 3, 4) else if num = 256 then Some (8, 3, 4) else if num = 512 then Some (9, 3, 4)
      else if num = 1024 then Some (10, 3, 3) else if num = 2048 then Some (11, 3, 3) else if num = 4096 then Some (12, 3, 3)
      else None)"

text \<open>Numbers in decimal, and the sequence that moves the cursor.\<close>

definition dec :: "nat \<Rightarrow> byte list" where
  "dec n = ascii_digits 10 n"

definition goto_pos :: "nat \<Rightarrow> nat \<Rightarrow> byte list" where
  "goto_pos y x = [27, 91] @ dec y @ [59] @ dec x @ [112]"

subsection \<open>Specifications\<close>

text \<open>One line of the board, pushed towards its front: the tiles close up, and equal neighbours merge once.\<close>

fun merge_front :: "int list \<Rightarrow> int list" where
  "merge_front (x # y # xs) = (if x = y then 2 * x # merge_front xs else x # merge_front (y # xs))"
| "merge_front xs = xs"

fun gain :: "int list \<Rightarrow> int" where
  "gain (x # y # xs) = (if x = y then 2 * x + gain xs else gain (y # xs))"
| "gain xs = 0"

definition pushed :: "int list \<Rightarrow> int list" where
  "pushed xs = (let ys = merge_front (filter (\<lambda>x. x \<noteq> 0) xs) in ys @ replicate (length xs - length ys) 0)"

text \<open>The lines of the board in a direction, each from the edge the tiles move to.\<close>

fun board_lines :: "direction \<Rightarrow> nat list list" where
  "board_lines U = map (\<lambda>c. [c, c + 4, c + 8, c + 12]) [0..<4]"
| "board_lines D = map (\<lambda>c. [c + 12, c + 8, c + 4, c]) [0..<4]"
| "board_lines R = map (\<lambda>r. [4 * r + 3, 4 * r + 2, 4 * r + 1, 4 * r]) [0..<4]"
| "board_lines L = map (\<lambda>r. [4 * r, 4 * r + 1, 4 * r + 2, 4 * r + 3]) [0..<4]"

definition project :: "nat list \<Rightarrow> int list \<Rightarrow> int list" where
  "project ln t = map (\<lambda>i. t ! i) ln"

text \<open>The position of a field in a line, and the pairs of a pass that belong to the line.\<close>

fun index :: "nat list \<Rightarrow> nat \<Rightarrow> nat" where
  "index [] x = 0"
| "index (y # ys) x = (if x = y then 0 else Suc (index ys x))"

definition line_pairs :: "nat list \<Rightarrow> (nat \<times> nat) list \<Rightarrow> (nat \<times> nat) list" where
  "line_pairs ln ps = map (\<lambda>(x, y). (index ln x, index ln y)) (filter (\<lambda>(x, y). x \<in> set ln) ps)"

definition pairs_fit :: "nat list \<Rightarrow> (nat \<times> nat) list \<Rightarrow> bool" where
  "pairs_fit ln ps \<longleftrightarrow> distinct ln \<and> (\<forall>(x, y) \<in> set ps. x < 16 \<and> y < 16 \<and> (x \<in> set ln \<longleftrightarrow> y \<in> set ln))"

definition tile_ok :: "int \<Rightarrow> bool" where
  "tile_ok v \<longleftrightarrow> v = 0 \<or> (\<exists>n > 0. v = 2 ^ n)"

definition board_ok :: "int list \<Rightarrow> bool" where
  "board_ok t \<longleftrightarrow> length t = 16 \<and> (\<forall>v \<in> set t. tile_ok v)"

definition equal_neighbours :: "int list \<Rightarrow> bool" where
  "equal_neighbours t \<longleftrightarrow> (\<exists>dir. \<exists>(x, y) \<in> set (pass_pairs dir). t ! x = t ! y)"

text \<open>A state of the game between two keys.\<close>

definition game_ok :: "game \<Rightarrow> bool" where
  "game_ok g \<longleftrightarrow> board_ok (tile g) \<and> 0 \<le> score g
     \<and> (phase g = Lost \<longrightarrow> 0 \<notin> set (tile g) \<and> \<not> equal_neighbours (tile g))
     \<and> (phase g = Playing \<longrightarrow> 0 \<in> set (tile g) \<or> equal_neighbours (tile g))"

text \<open>The steps of a move on one line of four fields.\<close>

definition line_steps :: "(nat \<times> nat) list" where
  "line_steps = [(0, 1), (1, 2), (2, 3)]"

definition lines_fit :: "nat list list \<Rightarrow> (nat \<times> nat) list \<Rightarrow> bool" where
  "lines_fit lns ps \<longleftrightarrow> (\<forall>ln \<in> set lns. pairs_fit ln ps) \<and> (\<forall>(x, y) \<in> set ps. length (filter (\<lambda>ln. x \<in> set ln) lns) = 1)"

subsection \<open>Lines\<close>

lemma index_less: "x \<in> set ln \<Longrightarrow> index ln x < length ln \<and> ln ! index ln x = x"
  by (induction ln) auto

lemma project_update:
  assumes "distinct ln" "x < length t"
  shows "project ln (t[x := v]) = (if x \<in> set ln then (project ln t)[index ln x := v] else project ln t)"
  using assms(1)
proof (induction ln)
  case (Cons a ln)
  then show ?case using assms(2) by (auto simp: project_def nth_list_update)
qed (simp add: project_def)

lemma project_nth: "x \<in> set ln \<Longrightarrow> project ln t ! index ln x = t ! x"
  using index_less by (simp add: project_def)

lemma project_shift:
  assumes "distinct ln" "x < length t" "y < length t" "x \<in> set ln \<longleftrightarrow> y \<in> set ln"
  shows "project ln (shift_cell (x, y) t) =
    (if x \<in> set ln then shift_cell (index ln x, index ln y) (project ln t) else project ln t)"
  using assms by (simp add: shift_cell_def project_update project_nth)

lemma project_merge:
  assumes "distinct ln" "x < length t" "y < length t" "x \<in> set ln \<longleftrightarrow> y \<in> set ln"
  shows "project ln (fst (merge_cell (x, y) (t, d))) =
    (if x \<in> set ln then fst (merge_cell (index ln x, index ln y) (project ln t, e)) else project ln t)"
  using assms by (simp add: merge_cell_def project_update project_nth)

lemma cell_length [simp]: "length (shift_cell p t) = length t" "length (fst (merge_cell p (t, d))) = length t"
  by (simp_all add: shift_cell_def merge_cell_def split: prod.split)

lemma project_shifts:
  assumes "pairs_fit ln ps" "length t = 16"
  shows "project ln (fold shift_cell ps t) = fold shift_cell (line_pairs ln ps) (project ln t) \<and> length (fold shift_cell ps t) = 16"
  using assms
proof (induction ps arbitrary: t)
  case (Cons p ps)
  obtain x y where p: "p = (x, y)" by fastforce
  then show ?case using Cons.IH [of "shift_cell p t"] Cons.prems project_shift [of ln x t y]
    by (auto simp: pairs_fit_def line_pairs_def)
qed (simp add: line_pairs_def)

lemma merge_offset: "merge_cell p (t, d) = (fst (merge_cell p (t, 0)), d + snd (merge_cell p (t, 0)))"
  by (simp add: merge_cell_def split: prod.split)

lemma merges_offset: "fold merge_cell ps (t, d) = (fst (fold merge_cell ps (t, 0)), d + snd (fold merge_cell ps (t, 0)))"
proof (induction ps arbitrary: t d)
  case (Cons p ps)
  obtain t1 c where m: "merge_cell p (t, 0) = (t1, c)" by fastforce
  then have "merge_cell p (t, d) = (t1, d + c)" using merge_offset [of p t d] by simp
  then show ?case using m Cons.IH [of t1 "d + c"] Cons.IH [of t1 c] by simp
qed simp

lemma merge_step:
  "fold merge_cell (p # ps) (t, 0) = (fst (fold merge_cell ps (fst (merge_cell p (t, 0)), 0)),
     snd (merge_cell p (t, 0)) + snd (fold merge_cell ps (fst (merge_cell p (t, 0)), 0)))"
  using merges_offset [of ps "fst (merge_cell p (t, 0))" "snd (merge_cell p (t, 0))"] by simp

lemma project_merges:
  assumes "pairs_fit ln ps" "length t = 16"
  shows "project ln (fst (fold merge_cell ps (t, 0))) = fst (fold merge_cell (line_pairs ln ps) (project ln t, 0))
    \<and> length (fst (fold merge_cell ps (t, 0))) = 16"
  using assms
proof (induction ps arbitrary: t)
  case (Cons p ps)
  obtain x y where p: "p = (x, y)" by fastforce
  have pm: "project ln (fst (merge_cell p (t, 0))) =
      (if x \<in> set ln then fst (merge_cell (index ln x, index ln y) (project ln t, 0)) else project ln t)"
    unfolding p by (rule project_merge) (use Cons.prems p in \<open>auto simp: pairs_fit_def\<close>)
  have fit: "pairs_fit ln ps" using Cons.prems by (simp add: pairs_fit_def)
  note IH = Cons.IH [OF fit, of "fst (merge_cell p (t, 0))"]
  show ?case
  proof (cases "x \<in> set ln")
    case True
    then have "line_pairs ln (p # ps) = (index ln x, index ln y) # line_pairs ln ps" by (simp add: line_pairs_def p)
    then show ?thesis using IH Cons.prems(2) pm True by (simp only: merge_step fst_conv cell_length if_True)
  next
    case False
    then have "line_pairs ln (p # ps) = line_pairs ln ps" by (simp add: line_pairs_def p)
    then show ?thesis using IH Cons.prems(2) pm False by (simp only: merge_step fst_conv cell_length if_False)
  qed
qed (simp add: line_pairs_def)

lemma sum_list_if: "sum_list (map (\<lambda>x. if P x then c else 0) xs) = int (length (filter P xs)) * c"
  by (induction xs) (simp_all add: distrib_right)

lemma merges_score:
  assumes "lines_fit lns ps" "length t = 16"
  shows "snd (fold merge_cell ps (t, 0)) = (\<Sum>ln\<leftarrow>lns. snd (fold merge_cell (line_pairs ln ps) (project ln t, 0)))"
  using assms
proof (induction ps arbitrary: t)
  case Nil
  then show ?case by (simp add: line_pairs_def)
next
  case (Cons p ps)
  obtain x y where p: "p = (x, y)" by fastforce
  let ?t1 = "fst (merge_cell p (t, 0))" and ?c = "snd (merge_cell p (t, 0))"
  have one: "length (filter (\<lambda>ln. x \<in> set ln) lns) = 1" using Cons.prems p by (simp add: lines_fit_def)
  have ln: "snd (fold merge_cell (line_pairs ln (p # ps)) (project ln t, 0)) =
      (if x \<in> set ln then ?c else 0) + snd (fold merge_cell (line_pairs ln ps) (project ln ?t1, 0))" if "ln \<in> set lns" for ln
  proof -
    have fit: "pairs_fit ln (p # ps)" using Cons.prems that by (simp add: lines_fit_def)
    have pm: "project ln ?t1 = (if x \<in> set ln then fst (merge_cell (index ln x, index ln y) (project ln t, 0)) else project ln t)"
      unfolding p by (rule project_merge) (use fit Cons.prems p in \<open>auto simp: pairs_fit_def\<close>)
    have "x \<in> set ln \<Longrightarrow> snd (merge_cell (index ln x, index ln y) (project ln t, 0)) = ?c"
      using fit p by (simp add: merge_cell_def pairs_fit_def project_nth)
    then show ?thesis using pm by (simp add: line_pairs_def p merge_step del: fold.simps)
  qed
  have "snd (fold merge_cell (p # ps) (t, 0)) = ?c + (\<Sum>ln\<leftarrow>lns. snd (fold merge_cell (line_pairs ln ps) (project ln ?t1, 0)))"
    using Cons.IH [of ?t1] Cons.prems unfolding merge_step [of p] by (simp add: lines_fit_def pairs_fit_def)
  also have "\<dots> = (\<Sum>ln\<leftarrow>lns. (if x \<in> set ln then ?c else 0) + snd (fold merge_cell (line_pairs ln ps) (project ln ?t1, 0)))"
    using one by (simp add: sum_list_addf sum_list_if)
  also have "\<dots> = (\<Sum>ln\<leftarrow>lns. snd (fold merge_cell (line_pairs ln (p # ps)) (project ln t, 0)))"
    using ln by (intro arg_cong [of _ _ sum_list] map_cong) simp_all
  finally show ?case .
qed

lemma line_move:
  assumes "length xs = 4"
  defines "ys \<equiv> fold shift_cell line_steps (fold shift_cell line_steps (fold shift_cell line_steps (fold shift_cell line_steps xs)))"
  shows "fold shift_cell line_steps (fst (fold merge_cell line_steps (ys, 0))) = pushed xs"
    "snd (fold merge_cell line_steps (ys, 0)) = gain (filter (\<lambda>x. x \<noteq> 0) xs)"
proof -
  obtain a b c d where xs: "xs = [a, b, c, d]"
    using assms(1) by (auto simp: length_Suc_conv numeral_eq_Suc)
  have ys: "ys = filter (\<lambda>x. x \<noteq> 0) xs @ replicate (length (filter (\<lambda>x. x = 0) xs)) 0"
    unfolding ys_def xs
    by (cases "a = 0"; cases "b = 0"; cases "c = 0"; cases "d = 0"; simp add: line_steps_def shift_cell_def)
  show "fold shift_cell line_steps (fst (fold merge_cell line_steps (ys, 0))) = pushed xs"
    unfolding ys xs
    by (cases "a = 0"; cases "b = 0"; cases "c = 0"; cases "d = 0"; simp add: line_steps_def shift_cell_def merge_cell_def pushed_def)
  show "snd (fold merge_cell line_steps (ys, 0)) = gain (filter (\<lambda>x. x \<noteq> 0) xs)"
    unfolding ys xs
    by (cases "a = 0"; cases "b = 0"; cases "c = 0"; cases "d = 0"; simp add: line_steps_def merge_cell_def)
qed

lemma lines_geometry:
  "lines_fit (board_lines dir) (pass_pairs dir)" "\<forall>ln \<in> set (board_lines dir). line_pairs ln (pass_pairs dir) = line_steps \<and> length ln = 4"
  by (cases dir; simp add: lines_fit_def pairs_fit_def line_pairs_def line_steps_def upt_rec)+

lemma move_tile_unfold:
  "move_tile dir t = (let s = shift_pass dir; m = fold merge_cell (pass_pairs dir) (s (s (s (s t))), 0) in (s (fst m), snd m))"
  by (simp add: move_tile_def Let_def upt_rec eval_nat_numeral)

lemma project_shift_pass:
  assumes "ln \<in> set (board_lines dir)" "length t = 16"
  shows "project ln (shift_pass dir t) = fold shift_cell line_steps (project ln t)" "length (shift_pass dir t) = 16"
  using project_shifts [of ln "pass_pairs dir" t] lines_geometry [of dir] assms
  by (simp_all add: shift_pass_def lines_fit_def)

text \<open>
  C39: A move of the 2048 game is the reference move: on every board, in every direction, each line is
  pushed to its edge with every pair of equal neighbours merged once, and the score is the sum of
  the merged tiles of all lines.
\<close>

theorem move_tile_pushes:
  assumes "length t = 16"
  shows "(\<forall>ln \<in> set (board_lines dir). project ln (fst (move_tile dir t)) = pushed (project ln t))
    \<and> snd (move_tile dir t) = (\<Sum>ln\<leftarrow>board_lines dir. gain (filter (\<lambda>x. x \<noteq> 0) (project ln t)))"
proof -
  let ?s = "shift_pass dir" and ?ps = "pass_pairs dir"
  let ?t4 = "?s (?s (?s (?s t)))"
  obtain l0 where l0: "l0 \<in> set (board_lines dir)" by (cases dir) (auto simp: upt_rec)
  have len: "length ?t4 = 16" using project_shift_pass(2) [OF l0] assms by simp
  have p4: "project ln ?t4 = fold shift_cell line_steps (fold shift_cell line_steps (fold shift_cell line_steps (fold shift_cell line_steps (project ln t))))"
    if "ln \<in> set (board_lines dir)" for ln
    using project_shift_pass [OF that] assms by simp
  have g: "ln \<in> set (board_lines dir) \<Longrightarrow> line_pairs ln ?ps = line_steps \<and> pairs_fit ln ?ps \<and> length (project ln t) = 4" for ln
    using lines_geometry [of dir] by (auto simp: lines_fit_def project_def)
  have "project ln (fst (move_tile dir t)) = pushed (project ln t)" if ln: "ln \<in> set (board_lines dir)" for ln
  proof -
    have "project ln (fst (fold merge_cell ?ps (?t4, 0))) = fst (fold merge_cell line_steps (project ln ?t4, 0))"
      "length (fst (fold merge_cell ?ps (?t4, 0))) = 16"
      using project_merges [of ln ?ps ?t4] g [OF ln] len by simp_all
    then show ?thesis
      using project_shift_pass(1) [OF ln] line_move(1) [of "project ln t"] p4 [OF ln] g [OF ln]
      by (simp add: move_tile_unfold Let_def)
  qed
  moreover have "snd (move_tile dir t) = (\<Sum>ln\<leftarrow>board_lines dir. snd (fold merge_cell (line_pairs ln ?ps) (project ln ?t4, 0)))"
    using merges_score [OF lines_geometry(1) len, of dir] by (simp add: move_tile_unfold Let_def)
  moreover have "\<dots> = (\<Sum>ln\<leftarrow>board_lines dir. gain (filter (\<lambda>x. x \<noteq> 0) (project ln t)))"
    using g p4 line_move(2) by (intro arg_cong [of _ _ sum_list] map_cong) simp_all
  ultimately show ?thesis by simp
qed

theorem move_tile_pushes_witness:
  "project [0, 1, 2, 3] (fst (move_tile L [2, 2, 4, 4, 0, 0, 0, 2, 0, 0, 0, 0, 0, 0, 0, 0])) = [4, 8, 0, 0]"
proof -
  let ?t = "[2, 2, 4, 4, 0, 0, 0, 2, 0, 0, 0, 0, 0, 0, 0, 0] :: int list"
  have "[0, 1, 2, 3] \<in> set (board_lines L)" by (simp add: upt_rec)
  moreover have "pushed (project [0, 1, 2, 3] ?t) = [4, 8, 0, 0]" by (simp add: pushed_def project_def)
  moreover have "length ?t = 16" by simp
  ultimately show ?thesis using move_tile_pushes [of ?t L] by metis
qed

subsection \<open>The board\<close>

lemma tile_ok_intros: "tile_ok 0" "tile_ok 2" "tile_ok 4" "tile_ok v \<Longrightarrow> tile_ok (2 * v)"
proof -
  have "\<exists>n > 0. (2 :: int) = 2 ^ n" by (rule exI [of _ 1]) simp
  moreover have "\<exists>n > 0. (4 :: int) = 2 ^ n" by (rule exI [of _ 2]) simp
  ultimately show "tile_ok 0" "tile_ok 2" "tile_ok 4" by (simp_all add: tile_ok_def)
  show "tile_ok v \<Longrightarrow> tile_ok (2 * v)" unfolding tile_ok_def by (metis mult_zero_right power_Suc zero_less_Suc)
qed

lemma board_ok_update: "board_ok t \<Longrightarrow> tile_ok v \<Longrightarrow> board_ok (t[i := v])"
  by (auto simp: board_ok_def dest!: set_update_subset_insert [THEN subsetD])

lemma board_ok_nth: "board_ok t \<Longrightarrow> i < 16 \<Longrightarrow> tile_ok (t ! i)"
  by (simp add: board_ok_def)

lemma board_ok_shift: "board_ok t \<Longrightarrow> x < 16 \<Longrightarrow> y < 16 \<Longrightarrow> board_ok (shift_cell (x, y) t)"
  by (simp add: shift_cell_def board_ok_update board_ok_nth tile_ok_intros)

lemma board_ok_merge: "board_ok t \<Longrightarrow> x < 16 \<Longrightarrow> y < 16 \<Longrightarrow> board_ok (fst (merge_cell (x, y) (t, d)))"
  by (simp add: merge_cell_def board_ok_update board_ok_nth tile_ok_intros)

lemma pass_pairs_less: "(x, y) \<in> set (pass_pairs dir) \<Longrightarrow> x < 16 \<and> y < 16"
  by (cases dir) auto

lemma board_ok_folds:
  assumes "\<forall>(x, y) \<in> set ps. x < 16 \<and> y < 16" "board_ok t"
  shows "board_ok (fold shift_cell ps t)" "board_ok (fst (fold merge_cell ps (t, 0)))"
  using assms
proof (induction ps arbitrary: t)
  case (Cons p ps)
  obtain x y where p: "p = (x, y)" by fastforce
  {
    case 1
    then show ?case using Cons.IH(1) [of "shift_cell p t"] p board_ok_shift [of t x y] by auto
  next
    case 2
    then show ?case using Cons.IH(2) [of "fst (merge_cell p (t, 0))"] p board_ok_merge [of t x y 0] unfolding merge_step by auto
  }
qed simp_all

lemma board_ok_move: "board_ok t \<Longrightarrow> board_ok (fst (move_tile dir t))"
proof -
  assume a: "board_ok t"
  have ps: "\<forall>(x, y) \<in> set (pass_pairs dir). x < 16 \<and> y < 16" using pass_pairs_less by blast
  have s: "board_ok u \<Longrightarrow> board_ok (shift_pass dir u)" for u unfolding shift_pass_def by (rule board_ok_folds(1) [OF ps])
  have m: "board_ok u \<Longrightarrow> board_ok (fst (fold merge_cell (pass_pairs dir) (u, 0)))" for u by (rule board_ok_folds(2) [OF ps])
  show ?thesis unfolding move_tile_unfold Let_def fst_conv by (intro s m a)
qed

lemma place_tile_cases:
  assumes "length t = 16"
  shows "0 \<notin> set t \<and> place_tile (t, l) = (t, l)
    \<or> (\<exists>i v l'. i < 16 \<and> t ! i = 0 \<and> (v = 2 \<or> v = 4) \<and> place_tile (t, l) = (t[i := v], l'))"
proof (cases "empty_tiles t = []")
  case True
  then have "\<forall>i < 16. t ! i \<noteq> 0" by (auto simp: empty_tiles_def filter_empty_conv)
  then have "0 \<notin> set t" using assms by (auto simp: in_set_conv_nth)
  then show ?thesis using True by (simp add: place_tile_def Let_def)
next
  case False
  define i where "i = empty_tiles t ! (unat (random (random l)) mod length (empty_tiles t))"
  have "i \<in> set (empty_tiles t)" using False by (simp add: i_def)
  then have "i < 16" "t ! i = 0" by (auto simp: empty_tiles_def)
  then show ?thesis using False
    by (intro disjI2 exI [of _ i] exI [of _ "if unat (random l) mod 10 \<noteq> 0 then 2 else 4"] exI [of _ "random (random l)"])
      (simp add: place_tile_def Let_def i_def)
qed

lemma board_ok_place: "board_ok t \<Longrightarrow> board_ok (fst (place_tile (t, l)))"
proof -
  assume a: "board_ok t"
  then show ?thesis using place_tile_cases [of t l] by (metis board_ok_def board_ok_update fst_conv tile_ok_intros(2,3))
qed

subsection \<open>The end of the game\<close>

lemma zero_stays:
  assumes "0 \<in> set t" "\<forall>(x, y) \<in> set ps. x < 16 \<and> y < 16" "length t = 16"
  shows "0 \<in> set (fold shift_cell ps t)" "0 \<in> set (fst (fold merge_cell ps (t, 0)))"
  using assms
proof (induction ps arbitrary: t)
  case (Cons p ps)
  obtain x y where p: "p = (x, y)" by fastforce
  have s: "0 \<in> set u \<Longrightarrow> y < length u \<Longrightarrow> 0 \<in> set (shift_cell p u)" "0 \<in> set u \<Longrightarrow> y < length u \<Longrightarrow> 0 \<in> set (fst (merge_cell p (u, 0)))" for u
    using p by (auto simp: shift_cell_def merge_cell_def set_update_memI)
  {
    case 1
    then show ?case using Cons.IH(1) [of "shift_cell p t"] s(1) [of t] p by simp
  next
    case 2
    then show ?case using Cons.IH(2) [of "fst (merge_cell p (t, 0))"] s(2) [of t] p unfolding merge_step by simp
  }
qed simp_all

lemma full_shift: "0 \<notin> set t \<Longrightarrow> length t = 16 \<Longrightarrow> \<forall>(x, y) \<in> set ps. x < 16 \<and> y < 16 \<Longrightarrow> fold shift_cell ps t = t"
proof (induction ps)
  case (Cons p ps)
  obtain x y where p: "p = (x, y)" by fastforce
  then have "t ! x \<noteq> 0" using Cons.prems by (metis (mono_tags, lifting) case_prodD list.set_intros(1) nth_mem)
  then show ?case using Cons p by (simp add: shift_cell_def)
qed simp

lemma full_merge:
  assumes "0 \<notin> set t" "length t = 16" "\<forall>(x, y) \<in> set ps. x < 16 \<and> y < 16"
  shows "if \<exists>(x, y) \<in> set ps. t ! x = t ! y then 0 \<in> set (fst (fold merge_cell ps (t, 0))) else fold merge_cell ps (t, 0) = (t, 0)"
  using assms(3)
proof (induction ps)
  case (Cons p ps)
  obtain x y where p: "p = (x, y)" by fastforce
  have ps: "\<forall>(x, y) \<in> set ps. x < 16 \<and> y < 16" using Cons.prems by simp
  show ?case
  proof (cases "t ! x = t ! y")
    case True
    then have "0 \<in> set (fst (merge_cell p (t, 0)))" using p Cons.prems assms(2) by (simp add: merge_cell_def set_update_memI)
    then have "0 \<in> set (fst (fold merge_cell (p # ps) (t, 0)))"
      using zero_stays(2) [OF _ ps] assms(2) unfolding merge_step by simp
    then show ?thesis using True p by auto
  next
    case False
    then have "merge_cell p (t, 0) = (t, 0)" by (simp add: merge_cell_def p)
    then show ?thesis using Cons.IH [OF ps] False p by auto
  qed
qed simp

lemma folds_length: "length (fold shift_cell ps t) = length t" "length (fst (fold merge_cell ps (t, 0))) = length t"
proof (induction ps arbitrary: t)
  case (Cons p ps)
  {
    case 1
    then show ?case using Cons.IH(1) [of "shift_cell p t"] by simp
  next
    case 2
    then show ?case using Cons.IH(2) [of "fst (merge_cell p (t, 0))"] unfolding merge_step by simp
  }
qed simp_all

lemma move_length: "length (fst (move_tile dir t)) = length t"
  by (simp add: move_tile_unfold Let_def shift_pass_def folds_length)

lemma zero_move:
  assumes "0 \<in> set t" "length t = 16"
  shows "0 \<in> set (fst (move_tile dir t))"
proof -
  have ps: "\<forall>(x, y) \<in> set (pass_pairs dir). x < 16 \<and> y < 16" using pass_pairs_less by blast
  have s: "0 \<in> set u \<and> length u = 16 \<Longrightarrow> 0 \<in> set (shift_pass dir u) \<and> length (shift_pass dir u) = 16" for u
    using zero_stays(1) [OF _ ps] by (simp add: shift_pass_def folds_length)
  have m: "0 \<in> set u \<and> length u = 16 \<Longrightarrow> 0 \<in> set (fst (fold merge_cell (pass_pairs dir) (u, 0))) \<and> length (fst (fold merge_cell (pass_pairs dir) (u, 0))) = 16" for u
    using zero_stays(2) [OF _ ps] by (simp add: folds_length)
  show ?thesis unfolding move_tile_unfold Let_def fst_conv using s m assms by metis
qed

lemma full_move:
  assumes "0 \<notin> set t" "length t = 16"
  shows "if \<exists>(x, y) \<in> set (pass_pairs dir). t ! x = t ! y then 0 \<in> set (fst (move_tile dir t)) else fst (move_tile dir t) = t"
proof -
  have ps: "\<forall>(x, y) \<in> set (pass_pairs dir). x < 16 \<and> y < 16" using pass_pairs_less by blast
  have s: "shift_pass dir t = t" unfolding shift_pass_def by (rule full_shift [OF assms ps])
  show ?thesis
    using full_merge [OF assms ps] zero_stays(1) [OF _ ps] assms(2) s
    by (auto simp: move_tile_unfold Let_def shift_pass_def folds_length split: if_splits)
qed

text \<open>One more move of \<^verbatim>\<open>check_end\<close>: the board is still the full one, or a field has become empty.\<close>

lemma end_step:
  assumes "0 \<notin> set t" "length t = 16" "u = t \<or> 0 \<in> set u \<and> length u = 16"
  shows "fst (move_tile dir u) = t \<and> u = t \<and> \<not> (\<exists>(x, y) \<in> set (pass_pairs dir). t ! x = t ! y)
    \<or> 0 \<in> set (fst (move_tile dir u)) \<and> length (fst (move_tile dir u)) = 16 \<and> (u \<noteq> t \<or> (\<exists>(x, y) \<in> set (pass_pairs dir). t ! x = t ! y))"
proof (cases "u = t")
  case True
  then show ?thesis using full_move [OF assms(1,2), of dir] move_length [of dir t] assms(2)
    by (cases "\<exists>(x, y) \<in> set (pass_pairs dir). t ! x = t ! y") simp_all
next
  case False
  then show ?thesis using assms(3) zero_move [of u dir] move_length [of dir u] by simp
qed

lemma ex_direction: "(\<exists>dir. Q dir) \<longleftrightarrow> Q U \<or> Q D \<or> Q R \<or> Q L"
  by (metis direction.exhaust)

lemma check_end_eq:
  assumes "length t = 16"
  shows "check_end t = (0 \<notin> set t \<and> \<not> equal_neighbours t, t)"
proof (cases "0 \<in> set t")
  case True
  then show ?thesis using assms by (auto simp: check_end_def in_set_conv_nth)
next
  case False
  define E where "E dir \<longleftrightarrow> (\<exists>(x, y) \<in> set (pass_pairs dir). t ! x = t ! y)" for dir
  define a where "a = fst (move_tile U t)"
  define b where "b = fst (move_tile D a)"
  define c where "c = fst (move_tile R b)"
  define d where "d = fst (move_tile L c)"
  note st = end_step [OF False assms, folded E_def]
  have 1: "a = t \<and> \<not> E U \<or> 0 \<in> set a \<and> length a = 16 \<and> E U" using st [of t U] by (simp add: a_def)
  have 2: "b = t \<and> a = t \<and> \<not> E D \<or> 0 \<in> set b \<and> length b = 16 \<and> (a \<noteq> t \<or> E D)" using st [of a D] 1 unfolding b_def by blast
  have 3: "c = t \<and> b = t \<and> \<not> E R \<or> 0 \<in> set c \<and> length c = 16 \<and> (b \<noteq> t \<or> E R)" using st [of b R] 2 unfolding c_def by blast
  have 4: "d = t \<and> c = t \<and> \<not> E L \<or> 0 \<in> set d \<and> length d = 16 \<and> (c \<noteq> t \<or> E L)" using st [of c L] 3 unfolding d_def by blast
  have "equal_neighbours t \<longleftrightarrow> E U \<or> E D \<or> E R \<or> E L" unfolding equal_neighbours_def E_def by (rule ex_direction)
  then have dt: "d = t \<longleftrightarrow> \<not> equal_neighbours t" using 1 2 3 4 False by metis
  have "length d = 16" using 4 assms by auto
  then have "(\<exists>i < 16. t ! i \<noteq> d ! i) \<longleftrightarrow> d \<noteq> t" using assms by (auto simp: list_eq_iff_nth_eq)
  then show ?thesis using False assms dt
    by (auto simp: check_end_def Let_def a_def b_def c_def d_def in_set_conv_nth)
qed

text \<open>
  The test for the end of the game is right and has no effect: it says that the game is over
  exactly when no field is empty and no two neighbouring fields are equal, and the board is
  afterwards what it was, although the test tries the four moves on it.
\<close>

theorem check_end_correct:
  assumes "length t = 16"
  shows "check_end t = (0 \<notin> set t \<and> \<not> equal_neighbours t, t)"
  using assms by (rule check_end_eq)

theorem check_end_correct_witness:
  "check_end (replicate 16 2) = (False, replicate 16 2)"
proof -
  have "(0, 4) \<in> set (pass_pairs U)" by (simp add: upt_rec)
  moreover have "replicate 16 (2 :: int) ! 0 = replicate 16 2 ! 4" by simp
  ultimately have "equal_neighbours (replicate 16 2)" unfolding equal_neighbours_def by blast
  then show ?thesis using check_end_correct [of "replicate 16 2"] by simp
qed

subsection \<open>Playing\<close>

lemma merges_nonneg:
  assumes "\<forall>(x, y) \<in> set ps. x < 16 \<and> y < 16" "board_ok t"
  shows "0 \<le> snd (fold merge_cell ps (t, 0))"
  using assms
proof (induction ps arbitrary: t)
  case (Cons p ps)
  obtain x y where p: "p = (x, y)" by fastforce
  have "tile_ok (t ! x)" using Cons.prems p by (intro board_ok_nth) auto
  then have "0 \<le> t ! x" by (auto simp: tile_ok_def)
  then have "0 \<le> snd (merge_cell p (t, 0))" by (simp add: merge_cell_def p)
  moreover have "board_ok (fst (merge_cell p (t, 0)))" using Cons.prems p board_ok_merge by auto
  ultimately show ?case using Cons.IH [of "fst (merge_cell p (t, 0))"] Cons.prems(1) unfolding merge_step by simp
qed simp

lemma move_nonneg:
  assumes "board_ok t"
  shows "0 \<le> snd (move_tile dir t)"
proof -
  have ps: "\<forall>(x, y) \<in> set (pass_pairs dir). x < 16 \<and> y < 16" using pass_pairs_less by blast
  have s: "board_ok u \<Longrightarrow> board_ok (shift_pass dir u)" for u unfolding shift_pass_def by (rule board_ok_folds(1) [OF ps])
  show ?thesis unfolding move_tile_unfold Let_def snd_conv by (intro merges_nonneg [OF ps] s assms)
qed

lemma loop_test_ok:
  assumes "board_ok (tile g)" "0 \<le> score g"
  shows "game_ok (loop_test g)"
proof -
  have "length (tile g) = 16" using assms(1) by (simp add: board_ok_def)
  then show ?thesis using assms by (simp add: loop_test_def check_end_eq game_ok_def)
qed

lemma start_game_ok: "game_ok (start_game g)"
proof -
  obtain t1 l1 where p1: "place_tile (replicate 16 0, lfsr g) = (t1, l1)" by fastforce
  obtain t2 l2 where p2: "place_tile (t1, l1) = (t2, l2)" by fastforce
  have "board_ok (replicate 16 0)" by (simp add: board_ok_def tile_ok_intros)
  then have "board_ok t1" using board_ok_place p1 by (metis fst_conv)
  then have "board_ok t2" using board_ok_place p2 by (metis fst_conv)
  then show ?thesis using p1 p2 by (simp add: start_game_def loop_test_ok)
qed

lemma play_key_ok:
  assumes "game_ok g"
  shows "game_ok (play_key c g)"
proof -
  define g1 where "g1 = (if \<not> reached g \<and> 2048 \<in> set (tile g) then g\<lparr>reached := True\<rparr> else g)"
  have g1: "board_ok (tile g1)" "0 \<le> score g1" using assms by (auto simp: g1_def game_ok_def)
  have q: "game_ok (g1\<lparr>phase := Ended\<rparr>)" using g1 by (simp add: game_ok_def)
  show ?thesis
  proof (cases "get_key c")
    case (Move dir)
    obtain t d where m: "move_tile dir (tile g1) = (t, d)" by fastforce
    then have "board_ok t" "0 \<le> d" using board_ok_move [OF g1(1), of dir] move_nonneg [OF g1(1), of dir] by simp_all
    then have "game_ok (loop_test (case place_tile (t, lfsr g1) of (t', l) \<Rightarrow> g1\<lparr>score := score g1 + d, tile := t', lfsr := l\<rparr>))"
      using board_ok_place [of t "lfsr g1"] g1(2) by (cases "place_tile (t, lfsr g1)") (simp add: loop_test_ok)
    moreover have "game_ok (loop_test (g1\<lparr>score := score g1 + d\<rparr>))" using g1 \<open>0 \<le> d\<close> by (simp add: loop_test_ok)
    ultimately show ?thesis using Move m by (simp add: play_key_def Let_def g1_def [symmetric])
  qed (use loop_test_ok [of g1] g1 q start_game_ok in \<open>simp_all add: play_key_def Let_def g1_def [symmetric]\<close>)
qed

lemma game_key_ok: "game_ok g \<Longrightarrow> game_ok (game_key c g)"
  using play_key_ok start_game_ok
  by (auto simp: game_key_def lost_key_def game_ok_def split: game_phase.split key_2048.split)

text \<open>
  C40: Whatever keys are pressed, the game stays well-formed: the board has 16 fields that are empty or
  hold a power of two, the score is not negative, the game counts as lost only when no move is
  possible, and the player is asked for a move only when one is.
\<close>

theorem game_well_formed: "game_ok (main_2048 keys)"
proof -
  have "game_ok g \<Longrightarrow> game_ok (fold game_key keys g)" for g using game_key_ok by (induction keys arbitrary: g) simp_all
  then show ?thesis by (simp add: main_2048_def start_game_ok)
qed

text \<open>Every tile that has a format is drawn exactly ten characters wide.\<close>

lemma ldigits_numeral: "ldigits 10 (numeral k) = numeral k mod 10 # ldigits 10 (numeral k div 10)"
  by (subst ldigits.simps) simp

lemma tile_width:
  assumes "tile_format num = Some (color, before, after)"
  shows "before + length (dec (nat num)) + after = 10"
  using assms ldigits_numeral [of num.One]
  by (auto simp: tile_format_def dec_def ascii_digits_def ldigits_numeral ldigits.simps [of 10 "Suc 0"] split: if_splits)

end
