(* ===== verification/Printf.thy ===== *)
theory Printf
  imports Programs
begin

text \<open>
  The formatted output of the user programs (\<^verbatim>\<open>src/syscalls/printf.c\<close>), as it is compiled: the macros for
  floating point, \<^verbatim>\<open>long long\<close> and \<^verbatim>\<open>ptrdiff_t\<close> are not defined. The machine is a 386: \<^verbatim>\<open>int\<close>, \<^verbatim>\<open>long\<close>,
  \<^verbatim>\<open>size_t\<close> and pointers have four bytes, \<^verbatim>\<open>char\<close> is signed, and a \<^verbatim>\<open>va_list\<close> is the address of the next
  argument on the stack.

  The state is that of a program over an operating system \<open>S\<close> (theory \<open>Programs\<close>). Format, arguments
  and strings are read from the memory of the current state, so that output into a buffer that
  overlaps them is seen. A pair \<open>(idx, s)\<close> is the number of characters so far and the state.
\<close>

type_synonym 's out_fct_type = "byte \<Rightarrow> addr \<Rightarrow> nat \<Rightarrow> nat \<Rightarrow> 's \<Rightarrow> 's"

abbreviation (input) FLAGS_ZEROPAD :: u32w where "FLAGS_ZEROPAD \<equiv> 1"
abbreviation (input) FLAGS_LEFT :: u32w where "FLAGS_LEFT \<equiv> 2"
abbreviation (input) FLAGS_PLUS :: u32w where "FLAGS_PLUS \<equiv> 4"
abbreviation (input) FLAGS_SPACE :: u32w where "FLAGS_SPACE \<equiv> 8"
abbreviation (input) FLAGS_HASH :: u32w where "FLAGS_HASH \<equiv> 16"
abbreviation (input) FLAGS_UPPERCASE :: u32w where "FLAGS_UPPERCASE \<equiv> 32"
abbreviation (input) FLAGS_CHAR :: u32w where "FLAGS_CHAR \<equiv> 64"
abbreviation (input) FLAGS_SHORT :: u32w where "FLAGS_SHORT \<equiv> 128"
abbreviation (input) FLAGS_LONG :: u32w where "FLAGS_LONG \<equiv> 256"
abbreviation (input) FLAGS_LONG_LONG :: u32w where "FLAGS_LONG_LONG \<equiv> 512"
abbreviation (input) FLAGS_PRECISION :: u32w where "FLAGS_PRECISION \<equiv> 1024"
abbreviation (input) PRINTF_NTOA_BUFFER_SIZE :: nat where "PRINTF_NTOA_BUFFER_SIZE \<equiv> 32"

definition has :: "u32w \<Rightarrow> u32w \<Rightarrow> bool" where
  "has flags f \<longleftrightarrow> flags AND f \<noteq> 0"

subsection \<open>Output functions\<close>

text \<open>\<open>cell\<close>: where the compiler keeps the parameter whose address \<^verbatim>\<open>_putchar\<close> passes to the system call.\<close>

definition putchar :: "'s sys \<Rightarrow> addr \<Rightarrow> byte \<Rightarrow> 's \<Rightarrow> 's" where
  "putchar S cell c s = snd (ece391_write S 1 cell 1 (poke_user S cell c s))"

definition out_buffer :: "'s sys \<Rightarrow> 's out_fct_type" where
  "out_buffer S character buffer idx maxlen s = (if idx < maxlen then poke_user S (buffer + idx) character s else s)"

definition out_null :: "'s out_fct_type" where
  "out_null character buffer idx maxlen s = s"

definition out_char :: "'s sys \<Rightarrow> addr \<Rightarrow> 's out_fct_type" where
  "out_char S cell character buffer idx maxlen s = (if character \<noteq> 0 then putchar S cell character s else s)"

text \<open>The function and the argument that \<^verbatim>\<open>out_fct_wrap_type\<close> holds.\<close>

record 's out_fct_wrap =
  fct :: "byte \<Rightarrow> addr \<Rightarrow> 's \<Rightarrow> 's"
  fct_arg :: addr

definition out_fct :: "'s out_fct_wrap \<Rightarrow> 's out_fct_type" where
  "out_fct w character buffer idx maxlen s = (if character \<noteq> 0 then fct w character (fct_arg w) s else s)"

text \<open>\<open>put out buffer maxlen c\<close> is \<^verbatim>\<open>out(c, buffer, idx++, maxlen)\<close>; the routines below get it as \<open>e\<close>.\<close>

definition put :: "'s out_fct_type \<Rightarrow> addr \<Rightarrow> nat \<Rightarrow> byte \<Rightarrow> nat \<times> 's \<Rightarrow> nat \<times> 's" where
  "put out buffer maxlen c = (\<lambda>(idx, s). (u32 (idx + 1), out c buffer idx maxlen s))"

subsection \<open>Scanning\<close>

fun strnlen_s :: "mem \<Rightarrow> addr \<Rightarrow> nat \<Rightarrow> nat" where
  "strnlen_s m s maxsize = (if m s \<noteq> 0 \<and> maxsize \<noteq> 0 then Suc (strnlen_s m (s + 1) (maxsize - 1)) else 0)"

definition is_digit :: "byte \<Rightarrow> bool" where
  "is_digit ch \<longleftrightarrow> 48 \<le> sint ch \<and> sint ch \<le> 57"

partial_function (option) printf_atoi :: "mem \<Rightarrow> addr \<Rightarrow> nat \<Rightarrow> (nat \<times> addr) option" where
  "printf_atoi m str i =
     (if is_digit (m str) then printf_atoi m (str + 1) (u32 (i * 10 + to_u32 (sint (m str) - 48))) else Some (i, str))"

subsection \<open>Numbers\<close>

text \<open>\<open>for (i = l; i < width; i++) out(' ', ...)\<close>\<close>

function pad_spaces :: "(byte \<Rightarrow> nat \<times> 's \<Rightarrow> nat \<times> 's) \<Rightarrow> nat \<Rightarrow> nat \<Rightarrow> nat \<times> 's \<Rightarrow> nat \<times> 's" where
  "pad_spaces e i width p = (if i < width then pad_spaces e (i + 1) width (e 32 p) else p)"
  by pat_completeness auto
termination
  by (relation "measure (\<lambda>(e, i, width, p). width - i)") auto

text \<open>
  \<open>while (idx - start_idx < width) out(' ', ...)\<close>, where \<open>idx++\<close> is the work of \<open>e\<close>. As the counter
  may wrap around, an end is not evident.
\<close>

partial_function (option) pad_left :: "(byte \<Rightarrow> nat \<times> 's \<Rightarrow> nat \<times> 's) \<Rightarrow> nat \<Rightarrow> nat \<Rightarrow> nat \<times> 's \<Rightarrow> (nat \<times> 's) option" where
  "pad_left e start_idx width p =
     (if to_u32 (int (fst p) - int start_idx) < width then pad_left e start_idx width (e 32 p) else Some p)"

text \<open>The buffer is the list of its first \<^verbatim>\<open>len\<close> characters.\<close>

definition out_rev :: "(byte \<Rightarrow> nat \<times> 's \<Rightarrow> nat \<times> 's) \<Rightarrow> byte list \<Rightarrow> nat \<Rightarrow> u32w \<Rightarrow> nat \<times> 's \<Rightarrow> (nat \<times> 's) option" where
  "out_rev e buf width flags p =
     (let start_idx = fst p;
          p1 = (if \<not> has flags FLAGS_LEFT \<and> \<not> has flags FLAGS_ZEROPAD then pad_spaces e (length buf) width p else p);
          p2 = fold e (rev buf) p1
      in if has flags FLAGS_LEFT then pad_left e start_idx width p2 else Some p2)"

function pad_zeros :: "byte list \<Rightarrow> nat \<Rightarrow> byte list" where
  "pad_zeros buf n =
     (if length buf < n \<and> length buf < PRINTF_NTOA_BUFFER_SIZE then pad_zeros (buf @ [48]) n else buf)"
  by pat_completeness auto
termination
  by (relation "measure (\<lambda>(buf, n). n - length buf)") auto

definition put_prefix :: "byte list \<Rightarrow> nat \<Rightarrow> nat \<Rightarrow> nat \<Rightarrow> u32w \<Rightarrow> byte list" where
  "put_prefix buf base prec width flags =
     (let b = (if \<not> has flags FLAGS_PRECISION \<and> buf \<noteq> [] \<and> (length buf = prec \<or> length buf = width)
               then let b' = butlast buf in if b' \<noteq> [] \<and> base = 16 then butlast b' else b'
               else buf);
          room = length b < PRINTF_NTOA_BUFFER_SIZE;
          b2 = (if base = 16 \<and> \<not> has flags FLAGS_UPPERCASE \<and> room then b @ [120]
                else if base = 16 \<and> has flags FLAGS_UPPERCASE \<and> room then b @ [88]
                else if base = 2 \<and> room then b @ [98]
                else b)
      in if length b2 < PRINTF_NTOA_BUFFER_SIZE then b2 @ [48] else b2)"

definition put_sign :: "byte list \<Rightarrow> bool \<Rightarrow> u32w \<Rightarrow> byte list" where
  "put_sign buf negative flags =
     (if length buf < PRINTF_NTOA_BUFFER_SIZE
      then (if negative then buf @ [45]
            else if has flags FLAGS_PLUS then buf @ [43]
            else if has flags FLAGS_SPACE then buf @ [32]
            else buf)
      else buf)"

definition ntoa_format ::
    "(byte \<Rightarrow> nat \<times> 's \<Rightarrow> nat \<times> 's) \<Rightarrow> byte list \<Rightarrow> bool \<Rightarrow> nat \<Rightarrow> nat \<Rightarrow> nat \<Rightarrow> u32w \<Rightarrow> nat \<times> 's \<Rightarrow> (nat \<times> 's) option" where
  "ntoa_format e buf negative base prec width flags p =
     (let left = has flags FLAGS_LEFT;
          width1 = (if \<not> left \<and> width \<noteq> 0 \<and> has flags FLAGS_ZEROPAD
                       \<and> (negative \<or> has flags (FLAGS_PLUS OR FLAGS_SPACE))
                    then width - 1 else width);
          buf1 = (if left then buf else pad_zeros buf prec);
          buf2 = (if \<not> left \<and> has flags FLAGS_ZEROPAD then pad_zeros buf1 width1 else buf1);
          buf3 = (if has flags FLAGS_HASH then put_prefix buf2 base prec width1 flags else buf2)
      in out_rev e (put_sign buf3 negative flags) width1 flags p)"

definition digit_char :: "u32w \<Rightarrow> nat \<Rightarrow> byte" where
  "digit_char flags digit =
     word_of_nat (if digit < 10 then 48 + digit else (if has flags FLAGS_UPPERCASE then 65 else 97) + digit - 10)"

function ntoa_digits :: "u32w \<Rightarrow> nat \<Rightarrow> nat \<Rightarrow> byte list \<Rightarrow> byte list" where
  "ntoa_digits flags base value buf =
     (let buf' = buf @ [digit_char flags (value mod base)]; value' = value div base
      in if value' \<noteq> 0 \<and> length buf' < PRINTF_NTOA_BUFFER_SIZE then ntoa_digits flags base value' buf' else buf')"
  by pat_completeness auto
termination
  by (relation "measure (\<lambda>(flags, base, value, buf). 32 - length buf)") auto

definition ntoa_long ::
    "(byte \<Rightarrow> nat \<times> 's \<Rightarrow> nat \<times> 's) \<Rightarrow> nat \<Rightarrow> bool \<Rightarrow> nat \<Rightarrow> nat \<Rightarrow> nat \<Rightarrow> u32w \<Rightarrow> nat \<times> 's \<Rightarrow> (nat \<times> 's) option" where
  "ntoa_long e val negative base prec width flags p =
     (let flags1 = (if val = 0 then flags AND NOT FLAGS_HASH else flags);
          buf = (if \<not> has flags1 FLAGS_PRECISION \<or> val \<noteq> 0 then ntoa_digits flags1 base val [] else [])
      in ntoa_format e buf negative base prec width flags1 p)"

declare pad_spaces.simps [simp del] pad_zeros.simps [simp del] ntoa_digits.simps [simp del] strnlen_s.simps [simp del]

subsection \<open>The format\<close>

partial_function (option) parse_flags :: "mem \<Rightarrow> addr \<Rightarrow> u32w \<Rightarrow> (u32w \<times> addr) option" where
  "parse_flags m format flags =
     (let c = m format in
      if c = 48 then parse_flags m (format + 1) (flags OR FLAGS_ZEROPAD)
      else if c = 45 then parse_flags m (format + 1) (flags OR FLAGS_LEFT)
      else if c = 43 then parse_flags m (format + 1) (flags OR FLAGS_PLUS)
      else if c = 32 then parse_flags m (format + 1) (flags OR FLAGS_SPACE)
      else if c = 35 then parse_flags m (format + 1) (flags OR FLAGS_HASH)
      else Some (flags, format))"

text \<open>The results: the number, the flags, the rest of the format and the next argument.\<close>

definition parse_width :: "mem \<Rightarrow> addr \<Rightarrow> addr \<Rightarrow> u32w \<Rightarrow> (nat \<times> u32w \<times> addr \<times> addr) option" where
  "parse_width m format va flags =
     (if is_digit (m format) then do { (w, f) \<leftarrow> printf_atoi m format 0; Some (w, flags, f, va) }
      else if m format = 42
      then let w = s32 (int (load32 m va))
           in Some (if w < 0 then (to_u32 (- w), flags OR FLAGS_LEFT, format + 1, va + 4)
                    else (to_u32 w, flags, format + 1, va + 4))
      else Some (0, flags, format, va))"

definition parse_precision :: "mem \<Rightarrow> addr \<Rightarrow> addr \<Rightarrow> u32w \<Rightarrow> (nat \<times> u32w \<times> addr \<times> addr) option" where
  "parse_precision m format va flags =
     (if m format = 46
      then let flags' = flags OR FLAGS_PRECISION; f = format + 1 in
           if is_digit (m f) then do { (n, f') \<leftarrow> printf_atoi m f 0; Some (n, flags', f', va) }
           else if m f = 42
           then let prec = s32 (int (load32 m va)) in Some (if prec > 0 then to_u32 prec else 0, flags', f + 1, va + 4)
           else Some (0, flags', f, va)
      else Some (0, flags, format, va))"

definition parse_length :: "mem \<Rightarrow> addr \<Rightarrow> u32w \<Rightarrow> u32w \<times> addr" where
  "parse_length m format flags =
     (let c = m format; c' = m (format + 1) in
      if c = 108 then (if c' = 108 then (flags OR FLAGS_LONG OR FLAGS_LONG_LONG, format + 2) else (flags OR FLAGS_LONG, format + 1))
      else if c = 104 then (if c' = 104 then (flags OR FLAGS_SHORT OR FLAGS_CHAR, format + 2) else (flags OR FLAGS_SHORT, format + 1))
      else if c = 106 then (flags OR FLAGS_LONG_LONG, format + 1)
      else if c = 122 then (flags OR FLAGS_LONG, format + 1)
      else (flags, format))"

subsection \<open>The conversions\<close>

definition conv_base :: "byte \<Rightarrow> nat" where
  "conv_base c = (if c = 120 \<or> c = 88 then 16 else if c = 111 then 8 else if c = 98 then 2 else 10)"

definition conv_flags :: "byte \<Rightarrow> u32w \<Rightarrow> u32w" where
  "conv_flags c flags =
     (let f1 = (if conv_base c = 10 then flags AND NOT FLAGS_HASH else flags);
          f2 = (if c = 88 then f1 OR FLAGS_UPPERCASE else f1);
          f3 = (if c \<noteq> 105 \<and> c \<noteq> 100 then f2 AND NOT (FLAGS_PLUS OR FLAGS_SPACE) else f2)
      in if has f3 FLAGS_PRECISION then f3 AND NOT FLAGS_ZEROPAD else f3)"

text \<open>The cases for \<^verbatim>\<open>d\<close>, \<^verbatim>\<open>i\<close>, \<^verbatim>\<open>u\<close>, \<^verbatim>\<open>x\<close>, \<^verbatim>\<open>X\<close>, \<^verbatim>\<open>o\<close>, \<^verbatim>\<open>b\<close>; a \<^verbatim>\<open>long long\<close> is neither read nor printed.\<close>

definition print_int ::
    "'s sys \<Rightarrow> (byte \<Rightarrow> nat \<times> 's \<Rightarrow> nat \<times> 's) \<Rightarrow> byte \<Rightarrow> u32w \<Rightarrow> nat \<Rightarrow> nat \<Rightarrow> addr \<Rightarrow> nat \<times> 's \<Rightarrow> (addr \<times> nat \<times> 's) option" where
  "print_int S e c flags0 width prec va p =
     (let flags = conv_flags c flags0; base = conv_base c; w = load32 (s_mem S (snd p)) va in
      if has flags FLAGS_LONG_LONG then Some (va, p)
      else if c = 105 \<or> c = 100
      then let val = (if has flags FLAGS_LONG then s32 (int w)
                      else if has flags FLAGS_CHAR then s8 (int w)
                      else if has flags FLAGS_SHORT then s16 (int w)
                      else s32 (int w));
               mag = to_u32 (if val > 0 then val else 0 - val)
           in do { p' \<leftarrow> ntoa_long e mag (val < 0) base prec width flags p; Some (va + 4, p') }
      else let val = (if has flags FLAGS_LONG then w
                      else if has flags FLAGS_CHAR then u8 w
                      else if has flags FLAGS_SHORT then u16 w
                      else w)
           in do { p' \<leftarrow> ntoa_long e val False base prec width flags p; Some (va + 4, p') })"

definition print_chr ::
    "'s sys \<Rightarrow> (byte \<Rightarrow> nat \<times> 's \<Rightarrow> nat \<times> 's) \<Rightarrow> u32w \<Rightarrow> nat \<Rightarrow> addr \<Rightarrow> nat \<times> 's \<Rightarrow> addr \<times> nat \<times> 's" where
  "print_chr S e flags width va p =
     (let p1 = (if \<not> has flags FLAGS_LEFT then pad_spaces e 1 width p else p);
          p2 = e (word_of_nat (load32 (s_mem S (snd p1)) va)) p1
      in (va + 4, if has flags FLAGS_LEFT then pad_spaces e 1 width p2 else p2))"

partial_function (option) put_string ::
    "'s sys \<Rightarrow> (byte \<Rightarrow> nat \<times> 's \<Rightarrow> nat \<times> 's) \<Rightarrow> bool \<Rightarrow> addr \<Rightarrow> nat \<Rightarrow> nat \<times> 's \<Rightarrow> (nat \<times> 's) option" where
  "put_string S e limited a precision p =
     (let c = s_mem S (snd p) a in
      if c \<noteq> 0 \<and> (\<not> limited \<or> precision \<noteq> 0)
      then put_string S e limited (a + 1) (if limited then precision - 1 else precision) (e c p) else Some p)"

definition print_str ::
    "'s sys \<Rightarrow> (byte \<Rightarrow> nat \<times> 's \<Rightarrow> nat \<times> 's) \<Rightarrow> u32w \<Rightarrow> nat \<Rightarrow> nat \<Rightarrow> addr \<Rightarrow> nat \<times> 's \<Rightarrow> (addr \<times> nat \<times> 's) option" where
  "print_str S e flags width precision va p =
     (let m = s_mem S (snd p); a = load32 m va;
          l0 = strnlen_s m a (if precision \<noteq> 0 then precision else 4294967295);
          l = (if has flags FLAGS_PRECISION then (if l0 < precision then l0 else precision) else l0);
          p1 = (if \<not> has flags FLAGS_LEFT then pad_spaces e l width p else p)
      in do { p2 \<leftarrow> put_string S e (has flags FLAGS_PRECISION) a precision p1;
              Some (va + 4, if has flags FLAGS_LEFT then pad_spaces e l width p2 else p2) })"

definition print_ptr ::
    "'s sys \<Rightarrow> (byte \<Rightarrow> nat \<times> 's \<Rightarrow> nat \<times> 's) \<Rightarrow> u32w \<Rightarrow> nat \<Rightarrow> addr \<Rightarrow> nat \<times> 's \<Rightarrow> (addr \<times> nat \<times> 's) option" where
  "print_ptr S e flags precision va p =
     do { p' \<leftarrow> ntoa_long e (load32 (s_mem S (snd p)) va) False 16 precision 8
                    (flags OR FLAGS_ZEROPAD OR FLAGS_UPPERCASE) p;
          Some (va + 4, p') }"

definition conversion ::
    "'s sys \<Rightarrow> (byte \<Rightarrow> nat \<times> 's \<Rightarrow> nat \<times> 's) \<Rightarrow> byte \<Rightarrow> u32w \<Rightarrow> nat \<Rightarrow> nat \<Rightarrow> addr \<Rightarrow> nat \<times> 's \<Rightarrow> (addr \<times> nat \<times> 's) option" where
  "conversion S e c flags width precision va p =
     (if c = 100 \<or> c = 105 \<or> c = 117 \<or> c = 120 \<or> c = 88 \<or> c = 111 \<or> c = 98 then print_int S e c flags width precision va p
      else if c = 99 then Some (print_chr S e flags width va p)
      else if c = 115 then print_str S e flags width precision va p
      else if c = 112 then print_ptr S e flags precision va p
      else if c = 37 then Some (va, e 37 p)
      else Some (va, e c p))"

partial_function (option) format_loop ::
    "'s sys \<Rightarrow> (byte \<Rightarrow> nat \<times> 's \<Rightarrow> nat \<times> 's) \<Rightarrow> addr \<Rightarrow> addr \<Rightarrow> nat \<times> 's \<Rightarrow> (nat \<times> 's) option" where
  "format_loop S e format va p =
     (let m = s_mem S (snd p) in
      if m format = 0 then Some p
      else if m format \<noteq> 37 then format_loop S e (format + 1) va (e (m format) p)
      else do { (flags1, f1) \<leftarrow> parse_flags m (format + 1) 0;
                (width, flags2, f2, va2) \<leftarrow> parse_width m f1 va flags1;
                (precision, flags3, f3, va3) \<leftarrow> parse_precision m f2 va2 flags2;
                (case parse_length m f3 flags3 of
                   (flags4, f4) \<Rightarrow>
                     do { (va4, p') \<leftarrow> conversion S e (m f4) flags4 width precision va3 p;
                          format_loop S e (f4 + 1) va4 p' }) })"

definition vsnprintf :: "'s sys \<Rightarrow> 's out_fct_type \<Rightarrow> addr \<Rightarrow> nat \<Rightarrow> addr \<Rightarrow> addr \<Rightarrow> 's \<Rightarrow> (int \<times> 's) option" where
  "vsnprintf S out0 buffer maxlen format va s =
     (let out = (if buffer = 0 then out_null else out0) in
      do { (idx, s') \<leftarrow> format_loop S (put out buffer maxlen) format va (0, s);
           Some (s32 (int idx), out 0 buffer (if idx < maxlen then idx else to_u32 (int maxlen - 1)) maxlen s') })"

subsection \<open>The interface\<close>

text \<open>\<open>loc\<close>: the address of the local array or structure that is passed as the buffer.\<close>

definition vprintf_u :: "'s sys \<Rightarrow> addr \<Rightarrow> addr \<Rightarrow> addr \<Rightarrow> addr \<Rightarrow> 's \<Rightarrow> (int \<times> 's) option" where
  "vprintf_u S cell loc format va s = vsnprintf S (out_char S cell) loc 4294967295 format va s"

definition printf_u :: "'s sys \<Rightarrow> addr \<Rightarrow> addr \<Rightarrow> addr \<Rightarrow> addr \<Rightarrow> 's \<Rightarrow> (int \<times> 's) option" where
  "printf_u S cell loc format va s = vsnprintf S (out_char S cell) loc 4294967295 format va s"

definition sprintf_u :: "'s sys \<Rightarrow> addr \<Rightarrow> addr \<Rightarrow> addr \<Rightarrow> 's \<Rightarrow> (int \<times> 's) option" where
  "sprintf_u S buffer format va s = vsnprintf S (out_buffer S) buffer 4294967295 format va s"

definition snprintf_u :: "'s sys \<Rightarrow> addr \<Rightarrow> nat \<Rightarrow> addr \<Rightarrow> addr \<Rightarrow> 's \<Rightarrow> (int \<times> 's) option" where
  "snprintf_u S buffer cnt format va s = vsnprintf S (out_buffer S) buffer cnt format va s"

definition vsnprintf_u :: "'s sys \<Rightarrow> addr \<Rightarrow> nat \<Rightarrow> addr \<Rightarrow> addr \<Rightarrow> 's \<Rightarrow> (int \<times> 's) option" where
  "vsnprintf_u S buffer cnt format va s = vsnprintf S (out_buffer S) buffer cnt format va s"

definition fctprintf :: "'s sys \<Rightarrow> (byte \<Rightarrow> addr \<Rightarrow> 's \<Rightarrow> 's) \<Rightarrow> addr \<Rightarrow> addr \<Rightarrow> addr \<Rightarrow> addr \<Rightarrow> 's \<Rightarrow> (int \<times> 's) option" where
  "fctprintf S out arg loc format va s = vsnprintf S (out_fct \<lparr>fct = out, fct_arg = arg\<rparr>) loc 4294967295 format va s"

subsection \<open>What a format means\<close>

text \<open>
  A format is a list of pieces, ordinary characters and conversions; a conversion has flags, a width,
  a precision, a length and a letter. An argument is a number or the address of a string.
\<close>

datatype arg = Val nat | Str addr "byte list"

datatype field = Omitted | Number nat | Star

datatype piece = Lit byte | Conv "byte list" field "field option" "byte list" byte

fun arg_word :: "arg \<Rightarrow> nat" where
  "arg_word (Val w) = w"
| "arg_word (Str a xs) = a"

fun field_bytes :: "field \<Rightarrow> byte list" where
  "field_bytes Omitted = []"
| "field_bytes (Number n) = ascii_digits 10 n"
| "field_bytes Star = [42]"

fun piece_bytes :: "piece \<Rightarrow> byte list" where
  "piece_bytes (Lit c) = [c]"
| "piece_bytes (Conv fl w pr len c) =
     37 # fl @ field_bytes w @ (case pr of None \<Rightarrow> [] | Some q \<Rightarrow> 46 # field_bytes q) @ len @ [c]"

definition flag_chars :: "byte set" where
  "flag_chars = {48, 45, 43, 32, 35}"

definition lengths :: "byte list set" where
  "lengths = {[], [108], [108, 108], [104], [104, 104], [106], [122]}"

text \<open>Letters that cannot be taken for another part of a conversion.\<close>

definition letter :: "byte \<Rightarrow> bool" where
  "letter c \<longleftrightarrow> c \<notin> flag_chars \<and> \<not> is_digit c \<and> c \<notin> {0, 42, 46, 108, 104, 106, 122}"

fun field_ok :: "field \<Rightarrow> bool" where
  "field_ok (Number n) = (n < 4294967296)"
| "field_ok _ = True"

fun piece_ok :: "piece \<Rightarrow> bool" where
  "piece_ok (Lit c) = (c \<noteq> 0 \<and> c \<noteq> 37)"
| "piece_ok (Conv fl w pr len c) =
     (set fl \<subseteq> flag_chars \<and> field_ok w \<and> w \<noteq> Number 0 \<and> (case pr of None \<Rightarrow> True | Some q \<Rightarrow> field_ok q)
      \<and> len \<in> lengths \<and> letter c)"

text \<open>The value of a width or of a precision, and the arguments that remain.\<close>

fun take_field :: "field \<Rightarrow> arg list \<Rightarrow> (int \<times> arg list) option" where
  "take_field Omitted as = Some (0, as)"
| "take_field (Number n) as = Some (int n, as)"
| "take_field Star as = (case as of [] \<Rightarrow> None | a # as' \<Rightarrow> Some (s32 (int (arg_word a)), as'))"

text \<open>The digits of a number, most significant first.\<close>

definition radix_text :: "bool \<Rightarrow> nat \<Rightarrow> nat \<Rightarrow> byte list" where
  "radix_text upper r n =
     map (\<lambda>d. word_of_nat (if d < 10 then 48 + d else (if upper then 55 else 87) + d)) (if n = 0 then [0] else rev (ldigits r n))"

definition blanks :: "nat \<Rightarrow> nat \<Rightarrow> byte list" where
  "blanks width n = replicate (width - n) 32"

definition justify :: "bool \<Rightarrow> nat \<Rightarrow> byte list \<Rightarrow> byte list" where
  "justify left width xs = (if left then xs @ blanks width (length xs) else blanks width (length xs) @ xs)"

text \<open>
  A number with its sign: at least \<open>prec\<close> digits; a field of the given width, filled with blanks, or,
  on request and without a precision, with zeros after the sign.
\<close>

definition number_text :: "bool \<Rightarrow> bool \<Rightarrow> nat \<Rightarrow> nat \<Rightarrow> byte list \<Rightarrow> byte list \<Rightarrow> byte list" where
  "number_text left zero prec width sg digits =
     (let body = sg @ replicate (prec - length digits) 48 @ digits in
      if zero \<and> \<not> left then sg @ replicate (width - (length sg + length digits)) 48 @ digits
      else justify left width body)"

text \<open>What the buffer of 32 characters can hold; precision and left justification exclude each other.\<close>

definition number_fits :: "bool \<Rightarrow> bool \<Rightarrow> nat \<Rightarrow> nat \<Rightarrow> byte list \<Rightarrow> byte list \<Rightarrow> bool" where
  "number_fits left zero prec width sg digits \<longleftrightarrow>
     length sg + max prec (length digits) \<le> 32 \<and> (zero \<and> \<not> left \<longrightarrow> width \<le> 32) \<and> (left \<longrightarrow> prec \<le> length digits)"

definition sign_text :: "byte list \<Rightarrow> int \<Rightarrow> byte list" where
  "sign_text fl v = (if v < 0 then [45] else if 43 \<in> set fl then [43] else if 32 \<in> set fl then [32] else [])"

definition signed_value :: "byte list \<Rightarrow> nat \<Rightarrow> int" where
  "signed_value len w = (if len = [104, 104] then s8 (int w) else if len = [104] then s16 (int w) else s32 (int w))"

definition unsigned_value :: "byte list \<Rightarrow> nat \<Rightarrow> nat" where
  "unsigned_value len w = (if len = [104, 104] then u8 w else if len = [104] then u16 w else w)"

text \<open>
  The text of a conversion with width \<open>w\<close> and precision \<open>pr\<close>; \<open>None\<close>: an argument of the right kind is
  missing, the number does not fit, or the alternative form \<^verbatim>\<open>#\<close> is asked for.
\<close>

definition digits_text :: "int option \<Rightarrow> bool \<Rightarrow> nat \<Rightarrow> nat \<Rightarrow> byte list" where
  "digits_text pr upper r n = (if n = 0 \<and> pr \<noteq> None then [] else radix_text upper r n)"

definition int_text :: "byte list \<Rightarrow> int \<Rightarrow> int option \<Rightarrow> byte list \<Rightarrow> byte \<Rightarrow> nat \<Rightarrow> byte list option" where
  "int_text fl w pr len c a =
     (let left = (45 \<in> set fl \<or> w < 0); zero = (48 \<in> set fl \<and> pr = None);
          width = nat \<bar>w\<bar>; prec = (case pr of None \<Rightarrow> 0 | Some q \<Rightarrow> nat q); v = signed_value len a;
          sg = (if c = 100 \<or> c = 105 then sign_text fl v else []);
          digits = digits_text pr (c = 88) (conv_base c) (if c = 100 \<or> c = 105 then nat \<bar>v\<bar> else unsigned_value len a)
      in if number_fits left zero prec width sg digits \<and> (conv_base c \<noteq> 10 \<longrightarrow> 35 \<notin> set fl)
         then Some (number_text left zero prec width sg digits) else None)"

fun conv_text :: "byte list \<Rightarrow> int \<Rightarrow> int option \<Rightarrow> byte list \<Rightarrow> byte \<Rightarrow> arg list \<Rightarrow> (byte list \<times> arg list) option" where
  "conv_text fl w pr len c as =
     (let left = (45 \<in> set fl \<or> w < 0); width = nat \<bar>w\<bar> in
      if c \<in> {100, 105, 117, 120, 88, 111, 98}
      then if len = [108, 108] \<or> len = [106] then Some ([], as)
           else case as of [] \<Rightarrow> None | a # as' \<Rightarrow> map_option (\<lambda>t. (t, as')) (int_text fl w pr len c (arg_word a))
      else if c = 99 then (case as of [] \<Rightarrow> None | a # as' \<Rightarrow> Some (justify left width [word_of_nat (arg_word a)], as'))
      else if c = 115
      then case as of
             Str a xs # as' \<Rightarrow> Some (justify left width (case pr of None \<Rightarrow> xs | Some q \<Rightarrow> take (nat q) xs), as')
           | _ \<Rightarrow> None
      else if c = 112
      then if fl = [] \<and> w = 0 \<and> pr = None
           then case as of [] \<Rightarrow> None
                | a # as' \<Rightarrow> Some (replicate (8 - length (radix_text True 16 (arg_word a))) 48 @ radix_text True 16 (arg_word a), as')
           else None
      else Some ([c], as))"

fun piece_text :: "piece \<Rightarrow> arg list \<Rightarrow> (byte list \<times> arg list) option" where
  "piece_text (Lit c) as = Some ([c], as)"
| "piece_text (Conv fl w pr len c) as =
     do { (wv, as1) \<leftarrow> take_field w as;
          case pr of
            None \<Rightarrow> conv_text fl wv None len c as1
          | Some q \<Rightarrow> do { (qv, as2) \<leftarrow> take_field q as1; if qv < 0 then None else conv_text fl wv (Some qv) len c as2 } }"

fun render :: "piece list \<Rightarrow> arg list \<Rightarrow> byte list option" where
  "render [] as = Some []"
| "render (p # ps) as = do { (t, as') \<leftarrow> piece_text p as; ts \<leftarrow> render ps as'; Some (t @ ts) }"

text \<open>Where the arguments lie.\<close>

fun args_at :: "mem \<Rightarrow> addr \<Rightarrow> arg list \<Rightarrow> bool" where
  "args_at m va [] \<longleftrightarrow> True"
| "args_at m va (x # xs) \<longleftrightarrow> load32 m va = arg_word x \<and> args_at m (va + 4) xs
     \<and> (case x of Val w \<Rightarrow> True | Str a t \<Rightarrow> cstr m a t \<and> length t < 4294967295)"

definition args_area :: "addr \<Rightarrow> arg list \<Rightarrow> addr set" where
  "args_area va as = {va..<va + 4 * length as} \<union> \<Union> {{a..a + length t} | a t. Str a t \<in> set as}"

subsection \<open>Flags\<close>

lemma has_bit: "has f (2 ^ n) \<longleftrightarrow> bit f n"
  by (simp add: has_def bit_iff_and_push_bit_not_eq_0 push_bit_eq_mult)

lemma has_bits:
  "has f 1 \<longleftrightarrow> bit f 0" "has f 2 \<longleftrightarrow> bit f 1" "has f 4 \<longleftrightarrow> bit f 2" "has f 8 \<longleftrightarrow> bit f 3" "has f 16 \<longleftrightarrow> bit f 4"
  "has f 32 \<longleftrightarrow> bit f 5" "has f 64 \<longleftrightarrow> bit f 6" "has f 128 \<longleftrightarrow> bit f 7" "has f 256 \<longleftrightarrow> bit f 8" "has f 512 \<longleftrightarrow> bit f 9"
  "has f 1024 \<longleftrightarrow> bit f 10"
  using has_bit [of f 0] has_bit [of f 1] has_bit [of f 2] has_bit [of f 3] has_bit [of f 4] has_bit [of f 5] has_bit [of f 6]
    has_bit [of f 7] has_bit [of f 8] has_bit [of f 9] has_bit [of f 10] by simp_all

lemma has_sign: "has f 12 \<longleftrightarrow> bit f 2 \<or> bit f 3"
proof -
  have "has f (4 OR 8) \<longleftrightarrow> has f 4 \<or> has f 8"
    by (simp only: has_def bit.conj_disj_distrib or_eq_0_iff) blast
  then show ?thesis by (simp add: has_bits)
qed

subsection \<open>Scanning\<close>

text \<open>\<open>bytes_at m a xs\<close>: the bytes \<open>xs\<close> lie at \<open>a\<close>.\<close>

definition bytes_at :: "mem \<Rightarrow> addr \<Rightarrow> byte list \<Rightarrow> bool" where
  "bytes_at m a xs \<longleftrightarrow> load_list m a (length xs) = xs"

lemma bytes_at_simps [simp]:
  "bytes_at m a []" "bytes_at m a (x # xs) \<longleftrightarrow> m a = x \<and> bytes_at m (a + 1) xs"
  "bytes_at m a (xs @ ys) \<longleftrightarrow> bytes_at m a xs \<and> bytes_at m (a + length xs) ys"
  by (auto simp: bytes_at_def load_list_Suc load_list_append)

lemma cstr_bytes: "cstr m a xs \<longleftrightarrow> bytes_at m a xs \<and> 0 \<notin> set xs \<and> m (a + length xs) = 0"
  by (simp add: cstr_def bytes_at_def)

lemma bytes_at_cong: "(\<And>x. a \<le> x \<Longrightarrow> x < a + length xs \<Longrightarrow> m' x = m x) \<Longrightarrow> bytes_at m' a xs = bytes_at m a xs"
  unfolding bytes_at_def by (subst load_list_cong [of "length xs" m' a m]) auto

definition flag_bit :: "byte \<Rightarrow> u32w" where
  "flag_bit c = (if c = 48 then 1 else if c = 45 then 2 else if c = 43 then 4 else if c = 32 then 8 else 16)"

definition fmt_flag_bits :: "byte list \<Rightarrow> u32w" where
  "fmt_flag_bits fl = fold (\<lambda>c f. f OR flag_bit c) fl 0"

lemma parse_flags_ok:
  assumes "bytes_at m a fl" "set fl \<subseteq> flag_chars" "m (a + length fl) \<notin> flag_chars"
  shows "parse_flags m a f = Some (fold (\<lambda>c f. f OR flag_bit c) fl f, a + length fl)"
  using assms
proof (induction fl arbitrary: a f)
  case Nil
  then show ?case by (subst parse_flags.simps) (auto simp: flag_chars_def)
next
  case (Cons c fl)
  then have IH: "parse_flags m (a + 1) (f OR flag_bit c) = Some (fold (\<lambda>c f. f OR flag_bit c) (c # fl) f, a + length (c # fl))" by simp
  have "parse_flags m a f = parse_flags m (a + 1) (f OR flag_bit c)"
    using Cons.prems(1,2) by (subst parse_flags.simps) (auto simp: flag_chars_def flag_bit_def)
  with IH show ?case by simp
qed

lemma fold_flag_bit: "bit (fold (\<lambda>c f. f OR flag_bit c) fl f) n \<longleftrightarrow> bit f n \<or> (\<exists>c \<in> set fl. bit (flag_bit c) n)"
  by (induction fl arbitrary: f) (auto simp: bit_or_iff)

lemma flag_bit_bit:
  assumes "c \<in> flag_chars"
  shows "bit (flag_bit c) 0 \<longleftrightarrow> c = 48" "bit (flag_bit c) 1 \<longleftrightarrow> c = 45" "bit (flag_bit c) 2 \<longleftrightarrow> c = 43"
    "bit (flag_bit c) 3 \<longleftrightarrow> c = 32" "bit (flag_bit c) 4 \<longleftrightarrow> c = 35" "4 < n \<Longrightarrow> \<not> bit (flag_bit c) n"
proof -
  have fb: "flag_bit c = 2 ^ (if c = 48 then 0 else if c = 45 then 1 else if c = 43 then 2 else if c = 32 then 3 else 4)"
    by (simp add: flag_bit_def)
  then have "4 < n \<Longrightarrow> \<not> bit (flag_bit c) n" by (simp only: bit_exp_iff possible_bit_word) auto
  then show "4 < n \<Longrightarrow> \<not> bit (flag_bit c) n" .
  have "c \<in> {48, 45, 43, 32, 35}" using assms by (simp add: flag_chars_def)
  then show "bit (flag_bit c) 0 \<longleftrightarrow> c = 48" "bit (flag_bit c) 1 \<longleftrightarrow> c = 45" "bit (flag_bit c) 2 \<longleftrightarrow> c = 43"
    "bit (flag_bit c) 3 \<longleftrightarrow> c = 32" "bit (flag_bit c) 4 \<longleftrightarrow> c = 35"
    by (auto simp: flag_bit_def)
qed

lemma fmt_flag_bits_bit:
  assumes "set fl \<subseteq> flag_chars"
  shows "bit (fmt_flag_bits fl) 0 \<longleftrightarrow> 48 \<in> set fl" "bit (fmt_flag_bits fl) 1 \<longleftrightarrow> 45 \<in> set fl" "bit (fmt_flag_bits fl) 2 \<longleftrightarrow> 43 \<in> set fl"
    "bit (fmt_flag_bits fl) 3 \<longleftrightarrow> 32 \<in> set fl" "bit (fmt_flag_bits fl) 4 \<longleftrightarrow> 35 \<in> set fl" "4 < n \<Longrightarrow> \<not> bit (fmt_flag_bits fl) n"
proof -
  have b: "bit (fmt_flag_bits fl) n \<longleftrightarrow> (\<exists>c \<in> set fl. P c)" if "\<And>c. c \<in> flag_chars \<Longrightarrow> bit (flag_bit c) n \<longleftrightarrow> P c" for n P
    using assms that by (auto simp: fmt_flag_bits_def fold_flag_bit)
  show "bit (fmt_flag_bits fl) 0 \<longleftrightarrow> 48 \<in> set fl" using b [of 0, OF flag_bit_bit(1)] by simp
  show "bit (fmt_flag_bits fl) 1 \<longleftrightarrow> 45 \<in> set fl" using b [of 1, OF flag_bit_bit(2)] by simp
  show "bit (fmt_flag_bits fl) 2 \<longleftrightarrow> 43 \<in> set fl" using b [of 2, OF flag_bit_bit(3)] by simp
  show "bit (fmt_flag_bits fl) 3 \<longleftrightarrow> 32 \<in> set fl" using b [of 3, OF flag_bit_bit(4)] by simp
  show "bit (fmt_flag_bits fl) 4 \<longleftrightarrow> 35 \<in> set fl" using b [of 4, OF flag_bit_bit(5)] by simp
  show "4 < n \<Longrightarrow> \<not> bit (fmt_flag_bits fl) n" using assms by (auto simp: fmt_flag_bits_def fold_flag_bit flag_bit_bit(6) subset_eq)
qed

lemma digit_facts:
  assumes "d < 10"
  shows "is_digit (lookup ! d)" "to_u32 (sint (lookup ! d) - 48) = d" "lookup ! d \<noteq> 0" "lookup ! d \<notin> {42, 46}"
    "lookup ! d \<in> flag_chars \<longleftrightarrow> d = 0" "word_of_nat (48 + d) = lookup ! d"
proof -
  have "d \<in> {0, 1, 2, 3, 4, 5, 6, 7, 8, 9}" using assms by auto
  then show "is_digit (lookup ! d)" "to_u32 (sint (lookup ! d) - 48) = d" "lookup ! d \<noteq> 0" "lookup ! d \<notin> {42, 46}"
    "lookup ! d \<in> flag_chars \<longleftrightarrow> d = 0" "word_of_nat (48 + d) = lookup ! d"
    by (auto simp: lookup_def bytes_of_def is_digit_def flag_chars_def to_u32_def)
qed

lemma atoi_scan:
  assumes "bytes_at m a xs" "\<forall>c \<in> set xs. is_digit c" "\<not> is_digit (m (a + length xs))"
  shows "printf_atoi m a i = Some (foldl (\<lambda>i c. u32 (i * 10 + to_u32 (sint c - 48))) i xs, a + length xs)"
  using assms
proof (induction xs arbitrary: a i)
  case Nil
  then show ?case by (subst printf_atoi.simps) simp
next
  case (Cons c xs)
  then show ?case by (subst printf_atoi.simps) simp
qed

lemma u32_mod: "u32 (u32 a * 10 + b) = u32 (a * 10 + b)"
  unfolding u32_def by (metis mod_add_left_eq mod_mult_left_eq)

lemma foldl_u32: "foldl (\<lambda>i c. u32 (i * 10 + f c)) (u32 i) xs = u32 (foldl (\<lambda>i c. i * 10 + f c) i xs)"
  by (induction xs arbitrary: i) (simp_all add: u32_mod)

lemma foldr_ldigits: "foldr (\<lambda>d r. r * 10 + d) (ldigits 10 n) 0 = n"
proof -
  have "int (foldr (\<lambda>d r. r * 10 + d) ds 0) = foldr (\<lambda>d r. r * int 10 + int d) ds 0" for ds by (induction ds) simp_all
  from this [of "ldigits 10 n"] have "int (foldr (\<lambda>d r. r * 10 + d) (ldigits 10 n) 0) = int n" by (simp only: horner_ldigits)
  then show ?thesis by (simp only: of_nat_eq_iff)
qed

lemma ascii_digits_facts:
  "\<forall>c \<in> set (ascii_digits 10 n). is_digit c" "ascii_digits 10 n \<noteq> []"
  "foldl (\<lambda>i c. i * 10 + to_u32 (sint c - 48)) 0 (ascii_digits 10 n) = n"
proof -
  have ld: "\<forall>d \<in> set (ldigits 10 n). d < 10" using ldigits_less by blast
  show "\<forall>c \<in> set (ascii_digits 10 n). is_digit c" using ld by (auto simp: ascii_digits_def digit_facts(1)) (simp add: is_digit_def)
  show "ascii_digits 10 n \<noteq> []" by (auto simp: ascii_digits_def ldigits.simps [of 10 n])
  show "foldl (\<lambda>i c. i * 10 + to_u32 (sint c - 48)) 0 (ascii_digits 10 n) = n"
  proof (cases "n = 0")
    case False
    have "foldl (\<lambda>i c. i * 10 + to_u32 (sint c - 48)) 0 (ascii_digits 10 n)
        = foldr (\<lambda>d r. r * 10 + to_u32 (sint (lookup ! d) - 48)) (ldigits 10 n) 0"
      using False by (simp add: ascii_digits_def foldl_conv_foldr rev_map foldr_map comp_def)
    also have "\<dots> = foldr (\<lambda>d r. r * 10 + d) (ldigits 10 n) 0" using ld by (intro foldr_cong) (auto simp: digit_facts)
    finally show ?thesis by (simp add: foldr_ldigits)
  qed (simp add: ascii_digits_def to_u32_def)
qed

lemma atoi_number:
  assumes "bytes_at m a (ascii_digits 10 n)" "n < 4294967296" "\<not> is_digit (m (a + length (ascii_digits 10 n)))"
  shows "printf_atoi m a 0 = Some (n, a + length (ascii_digits 10 n))"
proof -
  have "foldl (\<lambda>i c. u32 (i * 10 + to_u32 (sint c - 48))) (u32 0) (ascii_digits 10 n) = n"
    by (rule trans [OF foldl_u32]) (simp only: ascii_digits_facts u32_id [OF assms(2)])
  then show ?thesis using atoi_scan [OF assms(1) ascii_digits_facts(1) assms(3), of 0] by (simp add: u32_id)
qed

lemma first_digit:
  assumes "bytes_at m a (ascii_digits 10 n)" "0 < n"
  shows "is_digit (m a)" "m a \<notin> flag_chars"
proof -
  have ne: "ldigits 10 n \<noteq> []" using assms(2) by (simp add: ldigits.simps [of 10 n])
  have l: "last (ldigits 10 n) \<noteq> 0" using assms(2)
  proof (induction "10 :: nat" n rule: ldigits.induct)
    case (1 n)
    then show ?case by (cases "n div 10 = 0") (auto simp: ldigits.simps [of 10 n] ldigits.simps [of 10 "n div 10"])
  qed
  have lt: "last (ldigits 10 n) < 10" using ne ldigits_less last_in_set by blast
  have "ascii_digits 10 n = lookup ! last (ldigits 10 n) # tl (ascii_digits 10 n)"
    using assms(2) ne by (simp add: ascii_digits_def hd_map hd_rev flip: list.collapse) (metis hd_map hd_rev list.collapse map_is_Nil_conv rev_is_Nil_conv)
  then have "m a = lookup ! last (ldigits 10 n)" using assms(1) by (metis bytes_at_simps(2))
  then show "is_digit (m a)" "m a \<notin> flag_chars" using l lt by (simp_all add: digit_facts)
qed

text \<open>The width, the precision and the length of a conversion are read as they are written.\<close>

definition width_bits :: "int \<Rightarrow> u32w" where
  "width_bits w = (if w < 0 then 2 else 0)"

lemma field_next:
  assumes "args_at m va as" "take_field f as = Some (v, as')"
  shows "args_at m (va + 4 * (length as - length as')) as'"
  using assms by (cases f) (auto split: list.splits)

lemma parse_width_ok:
  assumes "bytes_at m a (field_bytes w)" "field_ok w" "w \<noteq> Number 0" "\<not> is_digit (m (a + length (field_bytes w)))"
    "w = Omitted \<longrightarrow> m a \<noteq> 42" "args_at m va as" "take_field w as = Some (v, as')"
  shows "parse_width m a va f = Some (nat \<bar>v\<bar>, f OR width_bits v, a + length (field_bytes w), va + 4 * (length as - length as'))"
proof (cases w)
  case Omitted
  then show ?thesis using assms by (simp add: parse_width_def width_bits_def)
next
  case (Number n)
  then have "is_digit (m a)" using assms first_digit(1) [of m a n] by simp
  then show ?thesis using Number assms atoi_number [of m a n] by (auto simp: parse_width_def width_bits_def)
next
  case Star
  then obtain x where x: "as = x # as'" "v = s32 (int (load32 m va))" using assms(6,7) by (auto split: list.splits)
  have "- 2147483648 \<le> v" "v < 2147483648" using s32_range x by blast+
  moreover have "m a = 42" "\<not> is_digit (m a)" using Star assms(1) by (simp_all add: is_digit_def)
  ultimately show ?thesis using Star x by (auto simp: parse_width_def Let_def width_bits_def to_u32_id)
qed

lemma parse_precision_ok:
  assumes "bytes_at m a (case pr of None \<Rightarrow> [] | Some q \<Rightarrow> 46 # field_bytes q)" "case pr of None \<Rightarrow> True | Some q \<Rightarrow> field_ok q"
    "\<not> is_digit (m (a + length (case pr of None \<Rightarrow> [] | Some q \<Rightarrow> 46 # field_bytes q)))"
    "m (a + length (case pr of None \<Rightarrow> [] | Some q \<Rightarrow> 46 # field_bytes q)) \<notin> {42, 46}" "args_at m va as"
    "(case pr of None \<Rightarrow> Some (None, as) | Some q \<Rightarrow> map_option (\<lambda>(v, as'). (Some v, as')) (take_field q as)) = Some (v, as')"
    "case v of None \<Rightarrow> True | Some x \<Rightarrow> 0 \<le> x"
  shows "parse_precision m a va f = Some (case v of None \<Rightarrow> 0 | Some x \<Rightarrow> nat x, f OR (if pr = None then 0 else 1024),
    a + length (case pr of None \<Rightarrow> [] | Some q \<Rightarrow> 46 # field_bytes q), va + 4 * (length as - length as'))"
proof (cases pr)
  case None
  then show ?thesis using assms by (simp add: parse_precision_def)
next
  case (Some q)
  show ?thesis
  proof (cases q)
    case Omitted
    then show ?thesis using Some assms by (auto simp: parse_precision_def)
  next
    case (Number n)
    then have b: "bytes_at m (a + 1) (ascii_digits 10 n)" "m a = 46" using Some assms(1) by simp_all
    obtain c cs where "ascii_digits 10 n = c # cs" using ascii_digits_facts(2) [of n] by (cases "ascii_digits 10 n") auto
    then have "is_digit (m (a + 1))" using b(1) ascii_digits_facts(1) [of n] by simp
    then show ?thesis using Number Some assms b atoi_number [OF b(1)] by (auto simp: parse_precision_def)
  next
    case Star
    then obtain x where x: "as = x # as'" "v = Some (s32 (int (load32 m va)))"
      using assms(5,6) Some by (auto split: list.splits)
    have "s32 (int (load32 m va)) < 2147483648" using s32_range by blast
    moreover have "m a = 46" "m (a + 1) = 42" "\<not> is_digit (m (a + 1))" using Some Star assms(1) by (simp_all add: is_digit_def)
    ultimately show ?thesis using Some Star x assms(7) by (auto simp: parse_precision_def Let_def to_u32_id)
  qed
qed

definition length_bits :: "byte list \<Rightarrow> u32w" where
  "length_bits len = (if len = [108] \<or> len = [122] then 256 else if len = [108, 108] then 768 else if len = [104] then 128
     else if len = [104, 104] then 192 else if len = [106] then 512 else 0)"

lemma parse_length_ok:
  assumes "bytes_at m a len" "len \<in> lengths" "letter (m (a + length len))"
  shows "parse_length m a f = (f OR length_bits len, a + length len)"
proof -
  have l: "m (a + length len) \<notin> {108, 104, 106, 122}" using assms(3) by (simp add: letter_def)
  consider "len = []" | "len = [108]" | "len = [108, 108]" | "len = [104]" | "len = [104, 104]" | "len = [106]" | "len = [122]"
    using assms(2) by (auto simp: lengths_def)
  then show ?thesis
  proof cases
    case 1 then show ?thesis using l by (simp add: parse_length_def length_bits_def Let_def)
  next
    case 2 then show ?thesis using l assms(1) by (simp add: parse_length_def length_bits_def Let_def)
  next
    case 3 then show ?thesis using l assms(1) by (simp add: parse_length_def length_bits_def Let_def or.assoc)
  next
    case 4 then show ?thesis using l assms(1) by (simp add: parse_length_def length_bits_def Let_def)
  next
    case 5 then show ?thesis using l assms(1) by (simp add: parse_length_def length_bits_def Let_def or.assoc)
  next
    case 6 then show ?thesis using l assms(1) by (simp add: parse_length_def length_bits_def Let_def)
  next
    case 7 then show ?thesis using l assms(1) by (simp add: parse_length_def length_bits_def Let_def)
  qed
qed

subsection \<open>Numbers\<close>

lemma pad_spaces_fold: "pad_spaces e i width p = fold e (blanks width i) p"
proof (induction e i width p rule: pad_spaces.induct)
  case (1 e i width p)
  show ?case
  proof (cases "i < width")
    case True
    then have "width - i = Suc (width - (i + 1))" by simp
    then show ?thesis using True 1 by (simp add: pad_spaces.simps [of e i] blanks_def)
  next
    case False
    then show ?thesis by (simp add: pad_spaces.simps [of e i] blanks_def)
  qed
qed

lemma pad_zeros_eq: "pad_zeros buf n = buf @ replicate (min n 32 - length buf) 48"
proof (induction buf n rule: pad_zeros.induct)
  case (1 buf n)
  show ?case
  proof (cases "length buf < n \<and> length buf < 32")
    case True
    then have "min n 32 - length buf = Suc (min n 32 - length (buf @ [48 :: byte]))" by (auto simp: min_def)
    then show ?thesis using True 1 by (simp add: pad_zeros.simps [of buf])
  next
    case False
    then show ?thesis by (auto simp: pad_zeros.simps [of buf])
  qed
qed

lemma ntoa_digits_eq:
  assumes "2 \<le> base" "length buf + length (ldigits base val) \<le> 32" "length buf < 32"
  shows "ntoa_digits f base val buf = buf @ map (digit_char f) (if val = 0 then [0] else ldigits base val)"
  using assms
proof (induction f base val buf rule: ntoa_digits.induct)
  case (1 f base val buf)
  let ?buf = "buf @ [digit_char f (val mod base)]"
  show ?case
  proof (cases "val = 0")
    case False
    then have l: "ldigits base val = val mod base # ldigits base (val div base)" using "1.prems" by (simp add: ldigits.simps [of base val])
    show ?thesis
    proof (cases "val div base = 0")
      case True
      then show ?thesis using l False by (simp add: ntoa_digits.simps [of f base val] Let_def)
    next
      case nz: False
      then have "ldigits base (val div base) \<noteq> []" using "1.prems"(1) by (simp add: ldigits.simps [of base "val div base"])
      then have lt: "length ?buf < 32" using "1.prems"(2) l by (cases "ldigits base (val div base)") auto
      have "ntoa_digits f base (val div base) ?buf = ?buf @ map (digit_char f) (if val div base = 0 then [0] else ldigits base (val div base))"
        using "1.prems" lt nz l by (intro "1.IH") (auto simp: Let_def)
      then show ?thesis using l False nz lt by (simp add: ntoa_digits.simps [of f base val] Let_def)
    qed
  qed (simp add: ntoa_digits.simps [of f base 0] Let_def)
qed

lemma radix_text_rev: "rev (map (digit_char f) (if n = 0 then [0] else ldigits r n)) = radix_text (has f 32) r n"
proof -
  have "digit_char f d = word_of_nat (if d < 10 then 48 + d else (if has f 32 then 55 else 87) + d)" for d
    by (auto simp: digit_char_def intro!: arg_cong [of _ _ word_of_nat])
  then show ?thesis by (simp add: radix_text_def rev_map)
qed

lemma no_hash: "\<not> has f 16 \<Longrightarrow> f AND NOT 16 = f"
  using bit.conj_disj_distrib [of f 16 "NOT 16"] by (simp only: has_def bit.disj_cancel_right bit.conj_one_right) simp

text \<open>
  An output function counts the characters and leaves the addresses in \<open>K\<close> alone as long as the
  system is \<open>fine\<close>, and it stays so.
\<close>

locale sink =
  fixes S :: "'s sys" and e :: "byte \<Rightarrow> nat \<times> 's \<Rightarrow> nat \<times> 's" and K :: "addr set" and fine :: "'s \<Rightarrow> bool"
  assumes counts: "fst (e c p) = u32 (fst p + 1)"
    and stays: "fine (snd p) \<Longrightarrow> fine (snd (e c p))"
    and keeps_K: "fine (snd p) \<Longrightarrow> a \<in> K \<Longrightarrow> s_mem S (snd (e c p)) a = s_mem S (snd p) a"
begin

lemma fold_fine: "fine (snd p) \<Longrightarrow> fine (snd (fold e xs p))"
  by (induction xs arbitrary: p) (simp_all add: stays)

lemma fold_keeps: "fine (snd p) \<Longrightarrow> a \<in> K \<Longrightarrow> s_mem S (snd (fold e xs p)) a = s_mem S (snd p) a"
  by (induction xs arbitrary: p) (simp_all add: stays keeps_K)

lemma fold_counts: "fst p + length xs < 4294967296 \<Longrightarrow> fst (fold e xs p) = fst p + length xs"
  by (induction xs arbitrary: p) (simp_all add: counts u32_id)

lemma pad_left_fold:
  assumes "fst p = st + k" "st + k < 4294967296" "st + width < 4294967296"
  shows "pad_left e st width p = Some (fold e (blanks width k) p)"
  using assms
proof (induction "width - k" arbitrary: p k)
  case 0
  then show ?case by (subst pad_left.simps) (simp add: to_u32_id blanks_def)
next
  case (Suc n)
  have "pad_left e st width (e 32 p) = Some (fold e (blanks width (k + 1)) (e 32 p))"
    using Suc(2-) by (intro Suc(1)) (auto simp: counts u32_id)
  moreover have "width - k = Suc (width - (k + 1))" "k < width" using Suc(2) by simp_all
  ultimately show ?case using Suc(3-) by (subst pad_left.simps) (simp add: to_u32_id blanks_def)
qed

lemma out_rev_ok:
  assumes "fst p + max width (length buf) < 4294967296"
  shows "out_rev e buf width f p
    = Some (fold e (if has f 1 \<and> \<not> has f 2 then rev buf else justify (has f 2) width (rev buf)) p)"
proof (cases "has f 2")
  case True
  have "pad_left e (fst p) width (fold e (rev buf) p) = Some (fold e (blanks width (length buf)) (fold e (rev buf) p))"
    using assms by (intro pad_left_fold) (simp_all add: fold_counts)
  then show ?thesis using True by (simp add: out_rev_def justify_def)
next
  case False
  then show ?thesis by (auto simp: out_rev_def justify_def pad_spaces_fold)
qed

lemma ntoa_long_ok:
  fixes negative :: bool and f :: u32w and val base :: nat
  defines "sg \<equiv> if negative then [45] else if has f 4 then [43] else if has f 8 then [32] else []"
    and "digits \<equiv> if val = 0 \<and> has f 1024 then [] else radix_text (has f 32) base val"
  assumes "\<not> has f 16" "2 \<le> base" "val < 4294967296" "number_fits (has f 2) (has f 1) prec width sg digits"
    "has f 1 \<longrightarrow> prec = 0" "fst p + length (number_text (has f 2) (has f 1) prec width sg digits) < 4294967296"
  shows "ntoa_long e val negative base prec width f p
    = Some (fold e (number_text (has f 2) (has f 1) prec width sg digits) p)"
proof -
  define buf where "buf = rev digits"
  have nh: "f AND NOT 16 = f" using assms(3) by (rule no_hash)
  have "ntoa_digits f base val [] = rev (radix_text (has f 32) base val)"
    using ntoa_digits_eq [of base "[]" val f] length_ldigits_u32 [of base val] assms(4,5) by (simp flip: radix_text_rev)
  then have b: "(if \<not> has f 1024 \<or> val \<noteq> 0 then ntoa_digits f base val [] else []) = buf" by (simp add: buf_def digits_def)
  define w1 where "w1 = (if \<not> has f 2 \<and> width \<noteq> 0 \<and> has f 1 \<and> (negative \<or> has f 12) then width - 1 else width)"
  define b2 where "b2 = (if has f 2 then buf else pad_zeros buf (if has f 1 then w1 else prec))"
  have fits: "length sg + max prec (length digits) \<le> 32" "has f 1 \<and> \<not> has f 2 \<longrightarrow> width \<le> 32" "has f 2 \<longrightarrow> prec \<le> length digits"
    using assms(6) by (simp_all add: number_fits_def)
  have sg1: "(negative \<or> has f 12) \<longleftrightarrow> sg \<noteq> []" "length sg = (if sg = [] then 0 else 1)" by (auto simp: sg_def has_sign has_bits)
  have rb: "length b2 + length sg \<le> 32 \<and> rev b2 = replicate (if has f 1 \<and> \<not> has f 2 then width - (length sg + length digits) else prec - length digits) 48 @ digits"
  proof (cases "has f 2")
    case True
    then show ?thesis using fits by (simp add: b2_def buf_def)
  next
    case False
    then have "b2 = pad_zeros buf (if has f 1 then w1 else prec)" by (simp add: b2_def)
    moreover have "w1 = width - length sg \<or> \<not> has f 1" using False sg1 by (auto simp: w1_def)
    ultimately show ?thesis using fits False assms(7) sg1(2) by (auto simp: pad_zeros_eq buf_def)
  qed
  have "ntoa_format e buf negative base prec width f p = out_rev e (put_sign b2 negative f) w1 f p"
    using assms(3,7) by (cases "has f 1"; cases "has f 2") (auto simp: ntoa_format_def Let_def w1_def b2_def pad_zeros_eq)
  moreover have "rev (put_sign b2 negative f) = sg @ rev b2"
    using conjunct1 [OF rb] by (auto simp: put_sign_def sg_def split: if_splits)
  moreover have "out_rev e (put_sign b2 negative f) w1 f p = Some (fold e (number_text (has f 2) (has f 1) prec width sg digits) p)"
    if r: "rev (put_sign b2 negative f) = sg @ rev b2"
  proof -
    let ?x = "put_sign b2 negative f"
    have w1: "w1 \<le> width" "\<not> (has f 1 \<and> \<not> has f 2) \<longrightarrow> w1 = width" by (auto simp: w1_def)
    have len: "length ?x = length sg + length b2" using arg_cong [OF r, of length] by simp
    have t: "(if has f 1 \<and> \<not> has f 2 then rev ?x else justify (has f 2) w1 (rev ?x)) = number_text (has f 2) (has f 1) prec width sg digits"
      using w1 rb by (auto simp: r number_text_def Let_def)
    have "length b2 = (if has f 1 \<and> \<not> has f 2 then width - (length sg + length digits) else prec - length digits) + length digits"
      using arg_cong [OF conjunct2 [OF rb], of length] by simp
    then have "max w1 (length ?x) \<le> length (number_text (has f 2) (has f 1) prec width sg digits)"
      unfolding t [symmetric] using w1(1) len by (cases "has f 1 \<and> \<not> has f 2") (auto simp: justify_def blanks_def)
    then have "fst p + max w1 (length ?x) < 4294967296" using assms(8) by linarith
    then show ?thesis using out_rev_ok [of p w1 ?x f] t by simp
  qed
  moreover have "ntoa_long e val negative base prec width f p = ntoa_format e buf negative base prec width f p"
    by (simp only: ntoa_long_def nh if_cancel Let_def b)
  ultimately show ?thesis by simp
qed

end

subsection \<open>Conversions\<close>

definition spec_flags :: "byte list \<Rightarrow> int \<Rightarrow> int option \<Rightarrow> byte list \<Rightarrow> u32w" where
  "spec_flags fl w pr len = ((fmt_flag_bits fl OR width_bits w) OR (if pr = None then 0 else 1024)) OR length_bits len"

lemma length_bits_bit:
  assumes "len \<in> lengths"
  shows "n < 6 \<or> n = 10 \<Longrightarrow> \<not> bit (length_bits len) n" "bit (length_bits len) 6 \<longleftrightarrow> len = [104, 104]"
    "bit (length_bits len) 7 \<longleftrightarrow> len = [104, 104] \<or> len = [104]"
    "bit (length_bits len) 8 \<longleftrightarrow> len = [108] \<or> len = [108, 108] \<or> len = [122]" "bit (length_bits len) 9 \<longleftrightarrow> len = [108, 108] \<or> len = [106]"
proof -
  have c: "len \<in> {[], [108], [108, 108], [104], [104, 104], [106], [122]}" using assms by (simp add: lengths_def)
  have n: "n \<in> {0, 1, 2, 3, 4, 5, 10}" if "n < 6 \<or> n = 10" using that by auto
  show "n < 6 \<or> n = 10 \<Longrightarrow> \<not> bit (length_bits len) n" using c n by (auto simp: length_bits_def)
  show "bit (length_bits len) 6 \<longleftrightarrow> len = [104, 104]"
    "bit (length_bits len) 7 \<longleftrightarrow> len = [104, 104] \<or> len = [104]"
    "bit (length_bits len) 8 \<longleftrightarrow> len = [108] \<or> len = [108, 108] \<or> len = [122]" "bit (length_bits len) 9 \<longleftrightarrow> len = [108, 108] \<or> len = [106]"
    using c by (auto simp: length_bits_def)
qed

lemma spec_flags_bit:
  assumes "set fl \<subseteq> flag_chars" "len \<in> lengths"
  shows "bit (spec_flags fl w pr len) 0 \<longleftrightarrow> 48 \<in> set fl" "bit (spec_flags fl w pr len) 1 \<longleftrightarrow> 45 \<in> set fl \<or> w < 0"
    "bit (spec_flags fl w pr len) 2 \<longleftrightarrow> 43 \<in> set fl" "bit (spec_flags fl w pr len) 3 \<longleftrightarrow> 32 \<in> set fl"
    "bit (spec_flags fl w pr len) 4 \<longleftrightarrow> 35 \<in> set fl" "\<not> bit (spec_flags fl w pr len) 5"
    "bit (spec_flags fl w pr len) 6 \<longleftrightarrow> len = [104, 104]" "bit (spec_flags fl w pr len) 7 \<longleftrightarrow> len = [104, 104] \<or> len = [104]"
    "bit (spec_flags fl w pr len) 8 \<longleftrightarrow> len = [108] \<or> len = [108, 108] \<or> len = [122]"
    "bit (spec_flags fl w pr len) 9 \<longleftrightarrow> len = [108, 108] \<or> len = [106]" "bit (spec_flags fl w pr len) 10 \<longleftrightarrow> pr \<noteq> None"
  using fmt_flag_bits_bit [OF assms(1)] length_bits_bit [OF assms(2)]
  by (simp_all add: spec_flags_def bit_or_iff width_bits_def)

lemma conv_flags_bit:
  "bit (conv_flags c f) 0 \<longleftrightarrow> bit f 0 \<and> \<not> bit f 10" "bit (conv_flags c f) 1 \<longleftrightarrow> bit f 1"
  "bit (conv_flags c f) 2 \<longleftrightarrow> bit f 2 \<and> (c = 100 \<or> c = 105)" "bit (conv_flags c f) 3 \<longleftrightarrow> bit f 3 \<and> (c = 100 \<or> c = 105)"
  "bit (conv_flags c f) 4 \<longleftrightarrow> bit f 4 \<and> conv_base c \<noteq> 10" "bit (conv_flags c f) 5 \<longleftrightarrow> bit f 5 \<or> c = 88"
  "bit (conv_flags c f) 6 \<longleftrightarrow> bit f 6" "bit (conv_flags c f) 7 \<longleftrightarrow> bit f 7" "bit (conv_flags c f) 8 \<longleftrightarrow> bit f 8"
  "bit (conv_flags c f) 9 \<longleftrightarrow> bit f 9" "bit (conv_flags c f) 10 \<longleftrightarrow> bit f 10"
  by (auto simp: conv_flags_def Let_def has_bits bit_and_iff bit_or_iff bit_not_iff)

lemma magnitude: "- 2147483648 \<le> v \<Longrightarrow> v < 2147483648 \<Longrightarrow> to_u32 (if v > 0 then v else 0 - v) = nat \<bar>v\<bar>"
  by (auto simp: to_u32_id)

lemma signed_value_range: "- 2147483648 \<le> signed_value len a \<and> signed_value len a < 2147483648"
  using s32_range [of "int a"] by (auto simp: signed_value_def s8_def s16_def) 

lemma unsigned_value_less: "a < 4294967296 \<Longrightarrow> unsigned_value len a < 4294967296"
  by (auto simp: unsigned_value_def u8_def u16_def intro: le_less_trans [OF mod_less_eq_dividend])

context sink
begin

lemma print_int_ok:
  assumes fl: "set fl \<subseteq> flag_chars" "len \<in> lengths" "len \<noteq> [108, 108]" "len \<noteq> [106]"
    and a: "load32 (s_mem S (snd p)) va = a" "int_text fl w pr len c a = Some t" "fst p + length t < 4294967296"
  shows "print_int S e c (spec_flags fl w pr len) (nat \<bar>w\<bar>) (case pr of None \<Rightarrow> 0 | Some q \<Rightarrow> nat q) va p = Some (va + 4, fold e t p)"
proof -
  define f where "f = conv_flags c (spec_flags fl w pr len)"
  let ?di = "c = 100 \<or> c = 105" and ?prec = "case pr of None \<Rightarrow> 0 | Some q \<Rightarrow> nat q"
  note b = conv_flags_bit [of c "spec_flags fl w pr len", folded f_def, unfolded One_nat_def]
    spec_flags_bit [OF fl(1,2), of w pr, unfolded One_nat_def]
  have h: "has f 1 \<longleftrightarrow> 48 \<in> set fl \<and> pr = None" "has f 2 \<longleftrightarrow> 45 \<in> set fl \<or> w < 0" "has f 4 \<longleftrightarrow> 43 \<in> set fl \<and> ?di"
    "has f 8 \<longleftrightarrow> 32 \<in> set fl \<and> ?di" "has f 16 \<longleftrightarrow> 35 \<in> set fl \<and> conv_base c \<noteq> 10" "has f 32 \<longleftrightarrow> c = 88"
    "has f 64 \<longleftrightarrow> len = [104, 104]" "has f 128 \<longleftrightarrow> len = [104, 104] \<or> len = [104]" "has f 256 \<longleftrightarrow> len = [108] \<or> len = [122]"
    "\<not> has f 512" "has f 1024 \<longleftrightarrow> pr \<noteq> None"
    using fl(3,4) by (auto simp: has_bits b)
  define v where "v = signed_value len a"
  define n where "n = (if ?di then nat \<bar>v\<bar> else unsigned_value len a)"
  define sg where "sg = (if ?di then sign_text fl v else [])"
  define neg where "neg \<longleftrightarrow> ?di \<and> v < 0"
  have vr: "- 2147483648 \<le> v" "v < 2147483648" using signed_value_range by (simp_all add: v_def)
  have "a < 4294967296" using load32_less a(1) by blast
  then have n: "n < 4294967296" using vr unsigned_value_less by (auto simp: n_def)
  have sg: "sg = (if neg then [45] else if has f 4 then [43] else if has f 8 then [32] else [])"
    by (auto simp: sg_def sign_text_def neg_def h)
  have dg: "digits_text pr (c = 88) (conv_base c) n = (if n = 0 \<and> has f 1024 then [] else radix_text (has f 32) (conv_base c) n)"
    by (auto simp: digits_text_def h)
  have zero: "48 \<in> set fl \<and> pr = None \<longleftrightarrow> has f 1" and left: "45 \<in> set fl \<or> w < 0 \<longleftrightarrow> has f 2" by (simp_all add: h)
  have t: "number_fits (has f 2) (has f 1) ?prec (nat \<bar>w\<bar>) sg (digits_text pr (c = 88) (conv_base c) n)"
    "t = number_text (has f 2) (has f 1) ?prec (nat \<bar>w\<bar>) sg (digits_text pr (c = 88) (conv_base c) n)" "\<not> has f 16"
    using a(2) unfolding int_text_def Let_def zero left v_def [symmetric] sg_def [symmetric] n_def [symmetric]
    by (auto split: if_splits simp: h)
  have "ntoa_long e n neg (conv_base c) ?prec (nat \<bar>w\<bar>) f p = Some (fold e t p)"
    using t a(3) n unfolding sg dg by (simp only:) (rule ntoa_long_ok, auto simp: h conv_base_def)
  moreover have "print_int S e c (spec_flags fl w pr len) (nat \<bar>w\<bar>) ?prec va p
      = do { p' \<leftarrow> ntoa_long e n neg (conv_base c) ?prec (nat \<bar>w\<bar>) f p; Some (va + 4, p') }"
  proof (cases ?di)
    case True
    have v': "(if has f 256 then s32 (int a) else if has f 64 then s8 (int a) else if has f 128 then s16 (int a) else s32 (int a)) = v"
      by (auto simp: v_def signed_value_def h)
    have "neg \<longleftrightarrow> v < 0" "n = to_u32 (if v > 0 then v else 0 - v)" using True magnitude [OF vr] by (simp_all add: neg_def n_def)
    then show ?thesis
      using True by (simp only: print_int_def Let_def f_def [symmetric] a(1) h(10) if_False v') auto
  next
    case False
    have "(if has f 256 then a else if has f 64 then u8 a else if has f 128 then u16 a else a) = n"
      using False by (auto simp: n_def unsigned_value_def h)
    then show ?thesis using False by (simp only: print_int_def Let_def f_def [symmetric] a(1) h(10) neg_def) auto
  qed
  ultimately show ?thesis by simp
qed

end

lemma strnlen_s_cstr: "cstr m a xs \<Longrightarrow> strnlen_s m a n = min n (length xs)"
proof (induction xs arbitrary: a n)
  case Nil
  then show ?case by (simp add: cstr_bytes strnlen_s.simps [of m a n])
next
  case (Cons x xs)
  then have "strnlen_s m (a + 1) (n - 1) = min (n - 1) (length xs)" by (intro Cons.IH) (simp add: cstr_bytes)
  then show ?case using Cons.prems by (cases n) (simp_all add: cstr_bytes strnlen_s.simps [of m a])
qed

lemma cstr_keep:
  assumes "cstr m a xs" "{a..a + length xs} \<subseteq> K" "\<And>x. x \<in> K \<Longrightarrow> m' x = m x"
  shows "cstr m' a xs"
  by (intro cstr_cong [OF assms(1)] assms(3) subsetD [OF assms(2)]) simp

lemma load32_keep:
  assumes "{a..<a + 4} \<subseteq> K" "\<And>x. x \<in> K \<Longrightarrow> m' x = m x"
  shows "load32 m' a = load32 m a"
  by (intro load32_cong assms(2) subsetD [OF assms(1)]) simp

context sink
begin

lemma put_string_ok:
  assumes "cstr (s_mem S (snd p)) a xs" "{a..a + length xs} \<subseteq> K" "fine (snd p)"
  shows "put_string S e limited a prec p = Some (fold e (if limited then take prec xs else xs) p)"
  using assms
proof (induction xs arbitrary: a prec p)
  case Nil
  then show ?case by (subst put_string.simps) (simp add: cstr_bytes)
next
  case (Cons x xs)
  let ?n = "if limited then prec - 1 else prec"
  have m: "s_mem S (snd p) a = x" "x \<noteq> 0" using Cons.prems(1) by (simp_all add: cstr_bytes)
  have tl: "cstr (s_mem S (snd p)) (a + 1) xs" "{a + 1..a + 1 + length xs} \<subseteq> K" using Cons.prems(1,2) by (auto simp: cstr_bytes)
  have "put_string S e limited (a + 1) ?n (e x p) = Some (fold e (if limited then take ?n xs else xs) (e x p))"
    by (rule Cons.IH [OF cstr_keep [OF tl] tl(2) stays]) (simp_all add: keeps_K Cons.prems(3))
  then show ?case using m by (subst put_string.simps) (cases prec; cases limited; simp)
qed

lemma print_str_ok:
  assumes "cstr (s_mem S (snd p)) a xs" "{a..a + length xs} \<subseteq> K" "length xs < 4294967295" "load32 (s_mem S (snd p)) va = a"
    "fine (snd p)" "has f 2 = left" "has f 1024 \<longleftrightarrow> pr \<noteq> None"
  shows "print_str S e f width (case pr of None \<Rightarrow> 0 | Some q \<Rightarrow> nat q) va p
    = Some (va + 4, fold e (justify left width (case pr of None \<Rightarrow> xs | Some q \<Rightarrow> take (nat q) xs)) p)"
proof -
  let ?t = "case pr of None \<Rightarrow> xs | Some q \<Rightarrow> take (nat q) xs" and ?prec = "case pr of None \<Rightarrow> 0 | Some q \<Rightarrow> nat q"
  have l: "(if has f 1024 then (if strnlen_s (s_mem S (snd p)) a (if ?prec \<noteq> 0 then ?prec else 4294967295) < ?prec
        then strnlen_s (s_mem S (snd p)) a (if ?prec \<noteq> 0 then ?prec else 4294967295) else ?prec)
      else strnlen_s (s_mem S (snd p)) a (if ?prec \<noteq> 0 then ?prec else 4294967295)) = length ?t"
    using assms(3,7) by (auto simp: strnlen_s_cstr [OF assms(1)] split: option.splits)
  have t: "(if has f 1024 then take ?prec xs else xs) = ?t" using assms(7) by (auto split: option.splits)
  have put: "put_string S e (has f 1024) a ?prec q = Some (fold e ?t q)" if "fine (snd q)" "\<And>x. x \<in> K \<Longrightarrow> s_mem S (snd q) x = s_mem S (snd p) x" for q
    using put_string_ok [OF cstr_keep [OF assms(1,2) that(2)] assms(2) that(1)] by (simp only: t)
  have "put_string S e (has f 1024) a ?prec (pad_spaces e (length ?t) width p) = Some (fold e ?t (pad_spaces e (length ?t) width p))"
    using assms(5) by (intro put) (simp_all add: pad_spaces_fold fold_fine fold_keeps)
  then show ?thesis
    using put [OF assms(5)] assms(6) by (simp only: print_str_def Let_def l assms(4)) (auto simp: justify_def pad_spaces_fold)
qed

lemma print_chr_ok:
  assumes "load32 (s_mem S (snd p)) va = a" "{va..<va + 4} \<subseteq> K" "fine (snd p)" "has f 2 = left"
  shows "print_chr S e f width va p = (va + 4, fold e (justify left width [word_of_nat a]) p)"
proof -
  have "load32 (s_mem S (snd (fold e (blanks width 1) p))) va = a"
    using load32_keep [OF assms(2) fold_keeps [OF assms(3)]] assms(1) by simp
  then show ?thesis using assms(1,4) by (auto simp: print_chr_def Let_def pad_spaces_fold justify_def simp del: load32_low_byte)
qed

lemma print_ptr_ok:
  assumes "load32 (s_mem S (snd p)) va = a" "len \<in> lengths" "fst p + 32 < 4294967296"
  shows "print_ptr S e (spec_flags [] 0 None len) 0 va p
    = Some (va + 4, fold e (replicate (8 - length (radix_text True 16 a)) 48 @ radix_text True 16 a) p)"
proof -
  define f where "f = spec_flags [] 0 None len OR 33"
  have f: "has f 1" "\<not> has f 2" "\<not> has f 4" "\<not> has f 8" "\<not> has f 16" "has f 32" "\<not> has f 1024"
    using spec_flags_bit [of "[]" len 0 None] assms(2) by (simp_all add: f_def has_bits bit_or_iff)
  have a: "a < 4294967296" using load32_less assms(1) by blast
  then have "length (ldigits 16 a) \<le> 8" by (intro length_ldigits_le) simp_all
  then have "length (radix_text True 16 a) \<le> 8" by (simp add: radix_text_def)
  then have "ntoa_long e a False 16 0 8 f p = Some (fold e (number_text (has f 2) (has f 1) 0 8 [] (radix_text True 16 a)) p)"
    using ntoa_long_ok [of f 16 a 0 8 False p] f a assms(3) by (simp add: number_fits_def number_text_def)
  then show ?thesis using f assms(1) by (simp add: print_ptr_def f_def [symmetric] number_text_def)
qed

end

lemma args_at_drop: "args_at m va as \<Longrightarrow> n \<le> length as \<Longrightarrow> args_at m (va + 4 * n) (drop n as)"
proof (induction n arbitrary: va as)
  case (Suc n)
  then obtain x xs where as: "as = x # xs" by (cases as) auto
  then have "args_at m (va + 4 + 4 * n) (drop n xs)" using Suc by (intro Suc.IH) simp_all
  then show ?case using as by (simp add: algebra_simps)
qed simp

lemma args_area_drop: "n \<le> length as \<Longrightarrow> args_area (va + 4 * n) (drop n as) \<subseteq> args_area va as"
  by (auto simp: args_area_def dest: in_set_dropD)

lemma args_area_Cons: "args_area va (x # as) = {va..<va + 4} \<union> args_area (va + 4) as \<union> (case x of Val w \<Rightarrow> {} | Str a t \<Rightarrow> {a..a + length t})"
  by (cases x) (auto simp: args_area_def)

lemma args_at_keep:
  assumes "args_at m va as" "args_area va as \<subseteq> K" "\<And>x. x \<in> K \<Longrightarrow> m' x = m x"
  shows "args_at m' va as"
  using assms(1,2)
proof (induction as arbitrary: va)
  case (Cons x as)
  then have "{va..<va + 4} \<subseteq> K" "args_area (va + 4) as \<subseteq> K" by (auto simp: args_area_Cons)
  with Cons show ?case
    using load32_keep [of va K m' m, OF _ assms(3)] cstr_keep [OF _ _ assms(3)] by (cases x) (simp_all add: args_area_Cons)
qed simp

lemma conv_text_rest: "conv_text fl w pr len c as = Some (t, as') \<Longrightarrow> \<exists>n \<le> 1. n \<le> length as \<and> as' = drop n as"
  by (auto simp: Let_def split: if_splits list.splits arg.splits intro: exI [of _ 0] exI [of _ 1])

lemma take_field_rest: "take_field f as = Some (v, as') \<Longrightarrow> \<exists>n \<le> 1. n \<le> length as \<and> as' = drop n as"
  by (cases f) (auto split: list.splits intro: exI [of _ 0] exI [of _ 1])

context sink
begin

lemma conversion_ok:
  assumes "set fl \<subseteq> flag_chars" "len \<in> lengths" "conv_text fl w pr len c as = Some (t, as')"
    "args_at (s_mem S (snd p)) va as" "args_area va as \<subseteq> K" "fine (snd p)" "fst p + length t + 32 < 4294967296"
  shows "conversion S e c (spec_flags fl w pr len) (nat \<bar>w\<bar>) (case pr of None \<Rightarrow> 0 | Some q \<Rightarrow> nat q) va p
    = Some (va + 4 * (length as - length as'), fold e t p)"
proof -
  let ?f = "spec_flags fl w pr len" and ?prec = "case pr of None \<Rightarrow> 0 | Some q \<Rightarrow> nat q"
  have f: "has ?f 2 = (45 \<in> set fl \<or> w < 0)" "has ?f 1024 \<longleftrightarrow> pr \<noteq> None"
    using spec_flags_bit [OF assms(1,2), of w pr] by (simp_all add: has_bits)
  have hd: "load32 (s_mem S (snd p)) va = arg_word x" "{va..<va + 4} \<subseteq> K" if "as = x # xs" for x xs
    using assms(4,5) that by (auto simp: args_area_Cons)
  consider (ll) "c \<in> {100, 105, 117, 120, 88, 111, 98}" "len = [108, 108] \<or> len = [106]" | (int) "c \<in> {100, 105, 117, 120, 88, 111, 98}" "len \<noteq> [108, 108]" "len \<noteq> [106]"
    | (chr) "c = 99" | (str) "c = 115" | (ptr) "c = 112" | (other) "c \<notin> {100, 105, 117, 120, 88, 111, 98, 99, 115, 112}" by blast
  then show ?thesis
  proof cases
    case ll
    then have "has (conv_flags c ?f) 512"
      using spec_flags_bit [OF assms(1,2), of w pr] by (simp add: has_bits conv_flags_bit)
    then show ?thesis using ll assms(3) by (auto simp: conversion_def print_int_def Let_def)
  next
    case int
    then obtain x where x: "as = x # as'" "int_text fl w pr len c (arg_word x) = Some t"
      using assms(3) by (auto simp: Let_def split: list.splits)
    have "conversion S e c ?f (nat \<bar>w\<bar>) ?prec va p = print_int S e c ?f (nat \<bar>w\<bar>) ?prec va p" using int(1) by (auto simp: conversion_def)
    also have "\<dots> = Some (va + 4, fold e t p)" using x int assms(1,2,7) hd by (intro print_int_ok) auto
    finally show ?thesis using x by simp
  next
    case chr
    then obtain x where x: "as = x # as'" "t = justify (45 \<in> set fl \<or> w < 0) (nat \<bar>w\<bar>) [word_of_nat (arg_word x)]"
      using assms(3) by (auto simp: Let_def split: list.splits)
    then show ?thesis using print_chr_ok [OF hd [OF x(1)] assms(6) f(1)] chr by (simp add: conversion_def)
  next
    case str
    then obtain a xs where x: "as = Str a xs # as'" "t = justify (45 \<in> set fl \<or> w < 0) (nat \<bar>w\<bar>) (case pr of None \<Rightarrow> xs | Some q \<Rightarrow> take (nat q) xs)"
      using assms(3) by (auto simp: Let_def split: list.splits arg.splits)
    then have a: "cstr (s_mem S (snd p)) a xs" "{a..a + length xs} \<subseteq> K" "length xs < 4294967295" "load32 (s_mem S (snd p)) va = a"
      using assms(4,5) by (simp_all add: args_area_Cons)
    show ?thesis using print_str_ok [OF a assms(6) f] str x by (simp add: conversion_def)
  next
    case ptr
    then obtain x where x: "as = x # as'" "fl = []" "w = 0" "pr = None"
        "t = replicate (8 - length (radix_text True 16 (arg_word x))) 48 @ radix_text True 16 (arg_word x)"
      using assms(3) by (auto simp: Let_def split: list.splits if_splits)
    then show ?thesis using print_ptr_ok [OF hd(1) [OF x(1)] assms(2)] assms(7) ptr by (simp add: conversion_def)
  next
    case other
    then show ?thesis using assms(3) by (auto simp: conversion_def Let_def)
  qed
qed

end

subsection \<open>The whole format\<close>

text \<open>What follows the flags, the width and the precision cannot be taken for a part of them.\<close>

lemma bytes_at_hd: "bytes_at m a xs \<Longrightarrow> xs \<noteq> [] \<Longrightarrow> m a = hd xs"
  by (cases xs) simp_all

lemma tail_heads:
  assumes "len \<in> lengths" "letter c" "case pr of None \<Rightarrow> True | Some q \<Rightarrow> field_ok q"
  shows "hd (len @ [c]) \<notin> flag_chars \<and> \<not> is_digit (hd (len @ [c])) \<and> hd (len @ [c]) \<notin> {42, 46}"
    "hd ((case pr of None \<Rightarrow> [] | Some q \<Rightarrow> 46 # field_bytes q) @ len @ [c]) \<notin> flag_chars
      \<and> \<not> is_digit (hd ((case pr of None \<Rightarrow> [] | Some q \<Rightarrow> 46 # field_bytes q) @ len @ [c]))
      \<and> hd ((case pr of None \<Rightarrow> [] | Some q \<Rightarrow> 46 # field_bytes q) @ len @ [c]) \<noteq> 42"
proof -
  have "len \<in> {[], [108], [108, 108], [104], [104, 104], [106], [122]}" using assms(1) by (simp add: lengths_def)
  then show l: "hd (len @ [c]) \<notin> flag_chars \<and> \<not> is_digit (hd (len @ [c])) \<and> hd (len @ [c]) \<notin> {42, 46}"
    using assms(2) by (auto simp: letter_def flag_chars_def is_digit_def)
  then show "hd ((case pr of None \<Rightarrow> [] | Some q \<Rightarrow> 46 # field_bytes q) @ len @ [c]) \<notin> flag_chars
      \<and> \<not> is_digit (hd ((case pr of None \<Rightarrow> [] | Some q \<Rightarrow> 46 # field_bytes q) @ len @ [c]))
      \<and> hd ((case pr of None \<Rightarrow> [] | Some q \<Rightarrow> 46 # field_bytes q) @ len @ [c]) \<noteq> 42"
    by (cases pr) (simp_all add: flag_chars_def is_digit_def)
qed

lemma take_prec:
  assumes "piece_text (Conv fl w pr len c) as = Some (t, as')"
  obtains wv as1 qv as2 where "take_field w as = Some (wv, as1)"
    "(case pr of None \<Rightarrow> Some (None, as1) | Some q \<Rightarrow> map_option (\<lambda>(v, as'). (Some v, as')) (take_field q as1)) = Some (qv, as2)"
    "case qv of None \<Rightarrow> True | Some x \<Rightarrow> 0 \<le> x" "conv_text fl wv qv len c as2 = Some (t, as')" "qv = None \<longleftrightarrow> pr = None"
proof -
  obtain wv as1 where w: "take_field w as = Some (wv, as1)" using assms by (auto simp del: conv_text.simps split: bind_splits)
  show ?thesis
  proof (cases pr)
    case None
    then show ?thesis using assms w by (intro that [of wv as1 None as1]) (simp_all del: conv_text.simps)
  next
    case (Some q)
    then obtain v as2 where "take_field q as1 = Some (v, as2)" "0 \<le> v" "conv_text fl wv (Some v) len c as2 = Some (t, as')"
      using assms w by (auto simp del: conv_text.simps split: bind_splits if_splits)
    then show ?thesis using Some w by (intro that [of wv as1 "Some v" as2]) (simp_all del: conv_text.simps)
  qed
qed

lemma parse_conv:
  assumes ok: "piece_ok (Conv fl w pr len c)" and b: "bytes_at m a (piece_bytes (Conv fl w pr len c))" and args: "args_at m va as"
    and w: "take_field w as = Some (wv, as1)"
    and q: "(case pr of None \<Rightarrow> Some (None, as1) | Some q \<Rightarrow> map_option (\<lambda>(v, as'). (Some v, as')) (take_field q as1)) = Some (qv, as2)"
      "case qv of None \<Rightarrow> True | Some x \<Rightarrow> 0 \<le> x" "qv = None \<longleftrightarrow> pr = None"
  obtains f1 a1 f2 a2 f3 a3 va1 where "parse_flags m (a + 1) 0 = Some (f1, a1)" "parse_width m a1 va f1 = Some (nat \<bar>wv\<bar>, f2, a2, va1)"
    "parse_precision m a2 va1 f2 = Some (case qv of None \<Rightarrow> 0 | Some x \<Rightarrow> nat x, f3, a3, va + 4 * (length as - length as2))"
    "parse_length m a3 f3 = (spec_flags fl wv qv len, a + length (piece_bytes (Conv fl w pr len c)) - 1)"
    "m (a + length (piece_bytes (Conv fl w pr len c)) - 1) = c" "args_at m (va + 4 * (length as - length as2)) as2"
    "\<exists>n. n \<le> length as \<and> as2 = drop n as"
proof -
  define wb pb where "wb = field_bytes w" and "pb = (case pr of None \<Rightarrow> [] | Some q \<Rightarrow> 46 # field_bytes q)"
  define a1 a2 a3 where "a1 = a + 1 + length fl" and "a2 = a1 + length wb" and "a3 = a2 + length pb"
  define va1 where "va1 = va + 4 * (length as - length as1)"
  have o: "set fl \<subseteq> flag_chars" "field_ok w" "w \<noteq> Number 0" "case pr of None \<Rightarrow> True | Some q \<Rightarrow> field_ok q" "len \<in> lengths" "letter c"
    using ok by simp_all
  have bs: "bytes_at m (a + 1) fl" "bytes_at m a1 (wb @ pb @ len @ [c])" "bytes_at m a2 (pb @ len @ [c])" "bytes_at m a3 (len @ [c])"
    using b by (simp_all add: wb_def pb_def a1_def a2_def a3_def add.assoc)
  note h3 = bytes_at_hd [OF bs(4)] and h2 = bytes_at_hd [OF bs(3)] and hd = tail_heads [OF o(5,6,4), folded pb_def]
  have m2: "m a2 \<notin> flag_chars" "\<not> is_digit (m a2)" "m a2 \<noteq> 42" using h2 hd(2) by simp_all
  have m3: "m a3 \<notin> flag_chars" "\<not> is_digit (m a3)" "m a3 \<notin> {42, 46}" using h3 hd(1) by simp_all
  have "m a1 \<notin> flag_chars"
  proof (cases w)
    case Omitted
    then show ?thesis using m2(1) by (simp add: a2_def wb_def)
  next
    case (Number n)
    then show ?thesis using first_digit(2) [of m a1 n] bs(2) o(3) by (simp add: wb_def)
  next
    case Star
    then show ?thesis using bs(2) by (simp add: wb_def flag_chars_def)
  qed
  then have p1: "parse_flags m (a + 1) 0 = Some (fmt_flag_bits fl, a1)"
    using parse_flags_ok [OF bs(1) o(1), of 0] by (simp add: a1_def fmt_flag_bits_def)
  have om: "w = Omitted \<longrightarrow> m a1 \<noteq> 42" using m2(3) by (auto simp: a2_def wb_def)
  have p2: "parse_width m a1 va (fmt_flag_bits fl) = Some (nat \<bar>wv\<bar>, fmt_flag_bits fl OR width_bits wv, a2, va1)"
    using parse_width_ok [OF _ o(2,3) _ om args w, of "fmt_flag_bits fl"] bs(2) m2 by (simp add: a2_def wb_def va1_def)
  have "\<exists>n2. n2 \<le> length as1 \<and> as2 = drop n2 as1"
  proof (cases pr)
    case None
    then show ?thesis using q(1) by (auto intro: exI [of _ 0])
  next
    case (Some x)
    then obtain v where "take_field x as1 = Some (v, as2)" using q(1) by auto
    then show ?thesis using take_field_rest by blast
  qed
  then obtain n1 n2 where n: "n1 \<le> length as" "as1 = drop n1 as" "n2 \<le> length as1" "as2 = drop n2 as1"
    using take_field_rest [OF w] by blast
  have args1: "args_at m va1 as1" using field_next [OF args w] by (simp add: va1_def)
  have "va1 + 4 * (length as1 - length as2) = va + 4 * (length as - length as2)" using n by (simp add: va1_def)
  then have p3: "parse_precision m a2 va1 (fmt_flag_bits fl OR width_bits wv) = Some (case qv of None \<Rightarrow> 0 | Some x \<Rightarrow> nat x,
      (fmt_flag_bits fl OR width_bits wv) OR (if pr = None then 0 else 1024), a3, va + 4 * (length as - length as2))"
    using parse_precision_ok [OF _ o(4) _ _ args1 q(1,2), of a2, folded pb_def] bs(3) m3 by (simp add: a3_def)
  have e: "a + length (piece_bytes (Conv fl w pr len c)) - 1 = a3 + length len"
    by (simp add: a1_def a2_def a3_def wb_def pb_def)
  have c: "m (a3 + length len) = c" using bs(4) by simp
  then have p4: "parse_length m a3 ((fmt_flag_bits fl OR width_bits wv) OR (if pr = None then 0 else 1024)) = (spec_flags fl wv qv len, a3 + length len)"
    using parse_length_ok [OF _ o(5), of m a3] bs(4) o(6) q(3) by (simp add: spec_flags_def)
  have d: "as2 = drop (n1 + n2) as" "n1 + n2 \<le> length as" "length as - length as2 = n1 + n2" using n by (auto simp: add.commute)
  then have "args_at m (va + 4 * (length as - length as2)) as2" using args_at_drop [OF args d(2)] by simp
  then show ?thesis using d by (intro that [OF p1 p2 p3 p4 [folded e] c [folded e]]) auto
qed

context sink
begin

lemma format_step:
  assumes "piece_ok P" "bytes_at (s_mem S (snd p)) a (piece_bytes P)" "piece_text P as = Some (t, as')"
    "args_at (s_mem S (snd p)) va as" "args_area va as \<subseteq> K" "fine (snd p)" "fst p + length t + 32 < 4294967296"
  shows "format_loop S e a va p = format_loop S e (a + length (piece_bytes P)) (va + 4 * (length as - length as')) (fold e t p)"
    "\<exists>n. n \<le> length as \<and> as' = drop n as"
proof -
  let ?m = "s_mem S (snd p)"
  have "format_loop S e a va p = format_loop S e (a + length (piece_bytes P)) (va + 4 * (length as - length as')) (fold e t p)
    \<and> (\<exists>n. n \<le> length as \<and> as' = drop n as)"
  proof (cases P)
    case (Lit c)
    then show ?thesis using assms(1-3) by (subst format_loop.simps) (auto intro: exI [of _ 0])
  next
    case (Conv fl w pr len c)
    obtain wv as1 qv as2 where q: "take_field w as = Some (wv, as1)"
      "(case pr of None \<Rightarrow> Some (None, as1) | Some q \<Rightarrow> map_option (\<lambda>(v, as'). (Some v, as')) (take_field q as1)) = Some (qv, as2)"
      "case qv of None \<Rightarrow> True | Some x \<Rightarrow> 0 \<le> x" "conv_text fl wv qv len c as2 = Some (t, as')" "qv = None \<longleftrightarrow> pr = None"
      by (rule take_prec [OF assms(3) [unfolded Conv]])
    let ?va = "va + 4 * (length as - length as2)" and ?fin = "a + length (piece_bytes P) - 1"
    obtain f1 a1 f2 a2 f3 a3 va1 where ps: "parse_flags ?m (a + 1) 0 = Some (f1, a1)" "parse_width ?m a1 va f1 = Some (nat \<bar>wv\<bar>, f2, a2, va1)"
      "parse_precision ?m a2 va1 f2 = Some (case qv of None \<Rightarrow> 0 | Some x \<Rightarrow> nat x, f3, a3, ?va)"
      "parse_length ?m a3 f3 = (spec_flags fl wv qv len, ?fin)" "?m ?fin = c" "args_at ?m ?va as2" "\<exists>n. n \<le> length as \<and> as2 = drop n as"
      by (rule parse_conv [OF assms(1,2) [unfolded Conv] assms(4) q(1-3,5), folded Conv])
    obtain n where n: "n \<le> length as" "as2 = drop n as" using ps(7) by blast
    then have area: "args_area ?va as2 \<subseteq> K" using args_area_drop [OF n(1), of va] assms(5) by simp
    obtain k where k: "k \<le> length as2" "as' = drop k as2" using conv_text_rest [OF q(4)] by blast
    have "set fl \<subseteq> flag_chars" "len \<in> lengths" using assms(1) Conv by simp_all
    note cv = conversion_ok [OF this q(4) ps(6) area assms(6,7)]
    have e: "Suc ?fin = a + length (piece_bytes P)" "?va + 4 * (length as2 - length as') = va + 4 * (length as - length as')"
      using n k Conv by simp_all
    have "?m a = 37" using assms(2) Conv by simp
    then have "format_loop S e a va p = format_loop S e (Suc ?fin) (?va + 4 * (length as2 - length as')) (fold e t p)"
      using ps cv by (subst format_loop.simps) (simp del: conv_text.simps)
    moreover have "as' = drop (k + n) as" "k + n \<le> length as" using n k by auto
    ultimately show ?thesis unfolding e by blast
  qed
  then show "format_loop S e a va p = format_loop S e (a + length (piece_bytes P)) (va + 4 * (length as - length as')) (fold e t p)"
    "\<exists>n. n \<le> length as \<and> as' = drop n as" by blast+
qed

lemma format_loop_ok:
  assumes "\<forall>P \<in> set ps. piece_ok P" "cstr (s_mem S (snd p)) a (concat (map piece_bytes ps))" "{a..a + length (concat (map piece_bytes ps))} \<subseteq> K"
    "render ps as = Some t" "args_at (s_mem S (snd p)) va as" "args_area va as \<subseteq> K" "fine (snd p)" "fst p + length t + 32 < 4294967296"
  shows "format_loop S e a va p = Some (fold e t p)"
  using assms
proof (induction ps arbitrary: a va as t p)
  case Nil
  then show ?case by (subst format_loop.simps) (simp add: cstr_bytes)
next
  case (Cons P ps)
  let ?m = "s_mem S (snd p)" and ?xs = "concat (map piece_bytes ps)"
  obtain t1 as1 t2 where r: "piece_text P as = Some (t1, as1)" "render ps as1 = Some t2" "t = t1 @ t2"
    using Cons.prems(4) by (auto split: bind_splits)
  have ok: "piece_ok P" "bytes_at ?m a (piece_bytes P)" "cstr ?m (a + length (piece_bytes P)) ?xs"
    "{a + length (piece_bytes P)..a + length (piece_bytes P) + length ?xs} \<subseteq> K"
    using Cons.prems(1-3) by (auto simp: cstr_bytes algebra_simps)
  have cnt: "fst p + length t1 + 32 < 4294967296" using Cons.prems(8) r(3) by simp
  note st = format_step [OF ok(1,2) r(1) Cons.prems(5-7) cnt]
  obtain n where n: "n \<le> length as" "as1 = drop n as" using st(2) by blast
  let ?va = "va + 4 * (length as - length as1)"
  have va: "args_at ?m ?va as1" "args_area ?va as1 \<subseteq> K"
    using n args_at_drop [OF Cons.prems(5) n(1)] args_area_drop [OF n(1), of va] Cons.prems(6) by simp_all
  have kp: "s_mem S (snd (fold e t1 p)) x = ?m x" if "x \<in> K" for x using fold_keeps [OF Cons.prems(7) that] .
  have "fst (fold e t1 p) + length t2 + 32 < 4294967296" using fold_counts [of p t1] Cons.prems(8) r(3) by simp
  then have "format_loop S e (a + length (piece_bytes P)) ?va (fold e t1 p) = Some (fold e t2 (fold e t1 p))"
    using Cons.prems(1,7) by (intro Cons.IH [OF _ cstr_keep [OF ok(3,4) kp] ok(4) r(2) args_at_keep [OF va kp] va(2)]) (simp_all add: fold_fine)
  then show ?case using st(1) r(3) by simp
qed

end

subsection \<open>Output to the system\<close>

text \<open>
  Over any system whose descriptor 1 takes what is written to it, the characters that \<^verbatim>\<open>_putchar\<close> gets
  arrive there, and of the program's memory only the byte that passes them changes.
\<close>

context out_io
begin

lemma putchar_law:
  assumes "looks s r ot" "lo \<le> cell" "cell < hi"
  shows "looks (putchar S cell c s) r (ot @ [c])" "x \<in> {lo..<hi} - {cell} \<Longrightarrow> s_mem S (putchar S cell c s) x = s_mem S s x"
proof -
  let ?s = "poke_user S cell c s"
  have s: "looks ?s r ot" "s_mem S ?s = (s_mem S s)(cell := c)"
    using store_law [OF assms(1), of "(s_mem S s)(cell := c)"] assms(2,3) by (auto simp: poke_user_def)
  obtain s' where w: "ece391_write S 1 cell 1 ?s = (1, s')" "looks s' r (ot @ load_list (s_mem S ?s) cell 1)"
      "\<forall>x. lo \<le> x \<and> x < hi \<longrightarrow> s_mem S s' x = s_mem S ?s x"
    using write_law [OF s(1) assms(2), of 1] assms(3) by auto
  have "load_list (s_mem S ?s) cell 1 = [c]" by (simp add: s(2) load_list_def)
  then show "looks (putchar S cell c s) r (ot @ [c])" "x \<in> {lo..<hi} - {cell} \<Longrightarrow> s_mem S (putchar S cell c s) x = s_mem S s x"
    using w s(2) by (simp_all add: putchar_def)
qed

lemma out_char_law:
  assumes "looks s r ot" "lo \<le> cell" "cell < hi"
  shows "looks (out_char S cell c b i n s) r (ot @ filter (\<lambda>x. x \<noteq> 0) [c])"
    "x \<in> {lo..<hi} - {cell} \<Longrightarrow> s_mem S (out_char S cell c b i n s) x = s_mem S s x"
  using putchar_law [OF assms] assms(1) by (simp_all add: out_char_def)

end

sublocale out_io \<subseteq> chars: sink S "put (out_char S cell) loc n" "{lo..<hi} - {cell}" "\<lambda>s. lo \<le> cell \<and> cell < hi \<and> (\<exists>r ot. looks s r ot)"
  for cell loc n
proof
  fix c and p :: "nat \<times> 's" and x
  show "fst (put (out_char S cell) loc n c p) = u32 (fst p + 1)" by (simp add: put_def split: prod.split)
  assume f: "lo \<le> cell \<and> cell < hi \<and> (\<exists>r ot. looks (snd p) r ot)"
  then obtain r ot where l: "looks (snd p) r ot" by blast
  show "lo \<le> cell \<and> cell < hi \<and> (\<exists>r ot. looks (snd (put (out_char S cell) loc n c p)) r ot)"
    using f out_char_law(1) [OF l, of cell c loc "fst p" n] unfolding put_def split_beta by (simp del: filter.simps) blast
  show "x \<in> {lo..<hi} - {cell} \<Longrightarrow> s_mem S (snd (put (out_char S cell) loc n c p)) x = s_mem S (snd p) x"
    using f out_char_law(2) [OF l] by (auto simp: put_def split: prod.split)
qed

context out_io
begin

lemma fold_chars:
  assumes "looks (snd p) r ot" "lo \<le> cell" "cell < hi"
  shows "looks (snd (fold (put (out_char S cell) loc n) xs p)) r (ot @ filter (\<lambda>x. x \<noteq> 0) xs)"
  using assms(1)
proof (induction xs arbitrary: p ot)
  case (Cons x xs)
  have "looks (snd (put (out_char S cell) loc n x p)) r (ot @ filter (\<lambda>x. x \<noteq> 0) [x])"
    using out_char_law(1) [OF Cons.prems assms(2,3)] by (auto simp: put_def split_beta)
  from Cons.IH [OF this] show ?case by (cases "x = 0") simp_all
qed simp

lemma printf_law:
  assumes "\<forall>P \<in> set ps. piece_ok P" "cstr (s_mem S s) format (concat (map piece_bytes ps))" "render ps as = Some t"
    "args_at (s_mem S s) va as" "{format..format + length (concat (map piece_bytes ps))} \<union> args_area va as \<subseteq> {lo..<hi} - {cell}"
    "lo \<le> cell" "cell < hi" "loc \<noteq> 0" "length t + 32 < 2147483648" "looks s r ot"
  shows "\<exists>s'. printf_u S cell loc format va s = Some (int (length t), s') \<and> looks s' r (ot @ filter (\<lambda>c. c \<noteq> 0) t)
    \<and> (\<forall>x \<in> {lo..<hi} - {cell}. s_mem S s' x = s_mem S s x)"
proof -
  let ?e = "put (out_char S cell) loc 4294967295"
  have fine: "lo \<le> cell \<and> cell < hi \<and> (\<exists>r ot. looks (snd (0 :: nat, s)) r ot)" using assms(6,7,10) by auto
  have "format_loop S ?e format va (0, s) = Some (fold ?e t (0, s))"
    using assms(1-5,9) fine by (intro chars.format_loop_ok [where ps = ps and as = as and cell = cell]) simp_all
  moreover have "fst (fold ?e t (0, s)) = length t" using chars.fold_counts [of "(0, s)" t] assms(9) by simp
  moreover have "looks (snd (fold ?e t (0, s))) r (ot @ filter (\<lambda>c. c \<noteq> 0) t)" using assms by (intro fold_chars) simp_all
  moreover have "\<forall>x \<in> {lo..<hi} - {cell}. s_mem S (snd (fold ?e t (0, s))) x = s_mem S s x"
    using chars.fold_keeps [of cell "(0, s)"] fine by simp
  ultimately show ?thesis
    using assms(8,9) by (auto simp: printf_u_def vsnprintf_def out_char_def s32_id split: prod.split bind_splits)
qed

end

subsection \<open>Output to a buffer\<close>

text \<open>The memory of a program can be read and replaced as a whole.\<close>

locale user_memory =
  fixes S :: "'s sys"
  assumes mem_store: "s_mem S (s_store S m s) = m"
    and store_store: "s_store S m (s_store S m' s) = s_store S m s"
    and store_mem: "s_store S (s_mem S s) s = s"
begin

lemma poke_mem [simp]: "s_mem S (poke_user S a c s) = (s_mem S s)(a := c)"
  by (simp add: poke_user_def mem_store)

lemma fold_buffer:
  assumes "length xs < 4294967296"
  shows "fold (put (out_buffer S) buffer n) xs (0, s) = (length xs, s_store S (store_list (s_mem S s) buffer (take n xs)) s)"
  using assms
proof (induction xs rule: rev_induct)
  case Nil
  then show ?case by (simp add: store_mem)
next
  case (snoc x xs)
  then have "fold (put (out_buffer S) buffer n) (xs @ [x]) (0, s)
      = put (out_buffer S) buffer n x (length xs, s_store S (store_list (s_mem S s) buffer (take n xs)) s)" by simp
  also have "\<dots> = (length (xs @ [x]), s_store S (store_list (s_mem S s) buffer (take n (xs @ [x]))) s)"
    using snoc.prems by (simp add: put_def out_buffer_def u32_id poke_user_def mem_store store_store store_list_snoc)
  finally show ?case .
qed

end

sublocale user_memory \<subseteq> buf: sink S "put (out_buffer S) buffer n" "- {buffer..<buffer + n}" "\<lambda>_. True"
  for buffer n
  by unfold_locales (auto simp: put_def out_buffer_def split: prod.split)

context user_memory
begin

lemma snprintf_law:
  assumes "\<forall>P \<in> set ps. piece_ok P" "cstr (s_mem S s) format (concat (map piece_bytes ps))" "render ps as = Some t"
    "args_at (s_mem S s) va as" "({format..format + length (concat (map piece_bytes ps))} \<union> args_area va as) \<inter> {buffer..<buffer + n} = {}"
    "buffer \<noteq> 0" "n < 4294967296" "length t + 32 < 2147483648"
  shows "snprintf_u S buffer n format va s
    = Some (int (length t), s_store S (store_list (s_mem S s) buffer (if n = 0 then [] else take (n - 1) t @ [0])) s)"
proof -
  let ?e = "put (out_buffer S) buffer n" and ?m = "s_mem S s"
  have "format_loop S ?e format va (0, s) = Some (fold ?e t (0, s))"
    using assms(1-5,8) by (intro buf.format_loop_ok [where ps = ps and as = as]) auto
  then have fl: "format_loop S ?e format va (0, s) = Some (length t, s_store S (store_list ?m buffer (take n t)) s)"
    using fold_buffer [of t buffer n s] assms(8) by simp
  show ?thesis
  proof (cases "length t < n")
    case True
    then show ?thesis using fl assms(6,8)
      by (auto simp: snprintf_u_def vsnprintf_def out_buffer_def poke_user_def mem_store store_store s32_id store_list_snoc)
  next
    case False
    show ?thesis
    proof (cases n)
      case 0
      then show ?thesis using fl assms(6,8) by (simp add: snprintf_u_def vsnprintf_def out_buffer_def s32_id)
    next
      case (Suc k)
      then have "take n t = take k t @ [t ! k]" "length (take k t) = k" using False by (simp_all add: take_Suc_conv_app_nth)
      then have "(store_list ?m buffer (take n t))(buffer + k := 0) = store_list ?m buffer (take k t @ [0])"
        by (simp only: store_list_snoc fun_upd_upd)
      moreover have "to_u32 (int n - 1) = k" using Suc assms(7) by (simp add: to_u32_id)
      ultimately show ?thesis using fl assms(6,8) False Suc
        by (simp add: snprintf_u_def vsnprintf_def out_buffer_def poke_user_def mem_store store_store s32_id)
    qed
  qed
qed

end

subsection \<open>Any format\<close>

text \<open>What every output keeps, the whole routine keeps, whatever the format and the arguments are.\<close>

lemma fold_closed: "(\<And>c p. I p \<Longrightarrow> I (e c p)) \<Longrightarrow> I p \<Longrightarrow> I (fold e xs p)"
  by (induction xs arbitrary: p) auto

lemma pad_left_closed:
  assumes "\<And>c p. I p \<Longrightarrow> I (e c p)" "pad_left e st width p = Some q" "I p"
  shows "I q"
proof -
  have "(\<forall>c p. I p \<longrightarrow> I (e c p)) \<longrightarrow> I p \<longrightarrow> I q"
    by (rule pad_left.raw_induct [where P = "\<lambda>e st width p q. (\<forall>c p. I p \<longrightarrow> I (e c p)) \<longrightarrow> I p \<longrightarrow> I q", OF _ assms(2)])
      (metis option.sel)
  then show ?thesis using assms(1,3) by blast
qed

lemma put_string_closed:
  assumes "\<And>c p. I p \<Longrightarrow> I (e c p)" "put_string S e l a prec p = Some q" "I p"
  shows "I q"
proof -
  have "(\<forall>c p. I p \<longrightarrow> I (e c p)) \<longrightarrow> I p \<longrightarrow> I q"
  proof (rule put_string.raw_induct [where P = "\<lambda>S e l a prec p q. (\<forall>c p. I p \<longrightarrow> I (e c p)) \<longrightarrow> I p \<longrightarrow> I q", OF _ assms(2)], intro impI, goal_cases)
    case (1 loop S e l a prec p q)
    then have "I (e (s_mem S (snd p) a) p)" by blast
    with 1 show ?case
      using 1(1) [of S e l "a + 1" "if l then prec - 1 else prec" "e (s_mem S (snd p) a) p" q] by (simp only: Let_def split: if_splits) auto
  qed
  then show ?thesis using assms(1,3) by blast
qed

lemma ntoa_long_closed:
  assumes "\<And>c p. I p \<Longrightarrow> I (e c p)" "ntoa_long e v neg base prec width f p = Some q" "I p"
  shows "I q"
proof -
  have f: "I p \<Longrightarrow> I (fold e xs p)" for xs p by (rule fold_closed) (rule assms(1))
  have "I q" if "out_rev e buf w g p = Some q" for buf w g
    using that assms(3) by (auto simp: out_rev_def Let_def pad_spaces_fold intro: f pad_left_closed [of I e, OF assms(1)] split: if_splits)
  then show ?thesis using assms(2) by (simp add: ntoa_long_def ntoa_format_def Let_def)
qed

lemma conversion_closed:
  assumes "\<And>c p. I p \<Longrightarrow> I (e c p)" "conversion S e c f width prec va p = Some (va', q)" "I p"
  shows "I q"
proof -
  note n = ntoa_long_closed [of I e, OF assms(1)] and f = fold_closed [of I e, OF assms(1)] and s = put_string_closed [of I e, OF assms(1)]
  show ?thesis using assms(2,3)
    by (auto simp: conversion_def print_int_def print_chr_def print_str_def print_ptr_def Let_def pad_spaces_fold
        split: if_splits bind_splits intro: n f s assms(1))
qed

lemma format_loop_closed:
  assumes "\<And>c p. I p \<Longrightarrow> I (e c p)" "format_loop S e format va p = Some q" "I p"
  shows "I q"
proof -
  have "(\<forall>c p. I p \<longrightarrow> I (e c p)) \<longrightarrow> I p \<longrightarrow> I q"
  proof (rule format_loop.raw_induct [where P = "\<lambda>S e format va p q. (\<forall>c p. I p \<longrightarrow> I (e c p)) \<longrightarrow> I p \<longrightarrow> I q", OF _ assms(2)], intro impI, goal_cases)
    case (1 loop S e format va p q)
    note IH = 1(1) and body = 1(2) and cl = 1(3) and I = 1(4)
    show ?case
    proof (cases "s_mem S (snd p) format = 0 \<or> s_mem S (snd p) format \<noteq> 37")
      case True
      then consider "q = p" | "loop S e (format + 1) va (e (s_mem S (snd p) format) p) = Some q"
        using body by (cases "s_mem S (snd p) format = 0") (simp_all add: Let_def)
      then show ?thesis using cl I IH by cases blast+
    next
      case False
      then obtain c f w pr va3 va4 p' format' where "conversion S e c f w pr va3 p = Some (va4, p')" "loop S e format' va4 p' = Some q"
        using body by (auto simp: Let_def split: bind_splits prod.splits)
      then show ?thesis using conversion_closed [of I e] cl I IH by blast
    qed
  qed
  then show ?thesis using assms(1,3) by blast
qed

context user_memory
begin

lemma snprintf_stays:
  assumes "snprintf_u S buffer n format va s = Some (v, s')" "x \<notin> {buffer..<buffer + n}"
  shows "s_mem S s' x = s_mem S s x"
proof -
  define out where "out = (if buffer = 0 then out_null else out_buffer S)"
  let ?I = "\<lambda>p :: nat \<times> 's. s_mem S (snd p) x = s_mem S s x"
  have o: "s_mem S (out c buffer i n t) x = s_mem S t x" for c i t
    using assms(2) by (auto simp: out_def out_null_def out_buffer_def)
  obtain idx t where t: "format_loop S (put out buffer n) format va (0, s) = Some (idx, t)"
      "s' = out 0 buffer (if idx < n then idx else to_u32 (int n - 1)) n t"
    using assms(1) by (auto simp: snprintf_u_def vsnprintf_def out_def Let_def split: bind_splits)
  have "?I (idx, t)"
    using t(1) by (rule format_loop_closed [of ?I, rotated]) (simp_all add: put_def o split_beta)
  then show ?thesis using t(2) o by simp
qed

end

subsection \<open>Where the routine does something else than the format asks for\<close>

text \<open>A \<^verbatim>\<open>%\<close> at the end of the format: its NUL is printed, and the scan goes on behind it.\<close>

lemma percent_at_end:
  assumes "s_mem S (snd p) a = 37" "s_mem S (snd p) (a + 1) = 0"
  shows "format_loop S e a va p = format_loop S e (a + 2) va (e 0 p)"
  using assms
  by (subst format_loop.simps)
    (simp add: parse_flags.simps [of _ "Suc a"] parse_width_def parse_precision_def parse_length_def is_digit_def conversion_def Let_def)

text \<open>In a left-justified field the precision adds no zeros.\<close>

lemma left_ignores_precision:
  assumes "has f 2" "\<not> has f 16"
  shows "ntoa_long e val neg base prec width f p = ntoa_long e val neg base 0 width f p"
  unfolding ntoa_long_def ntoa_format_def Let_def no_hash [OF assms(2)] if_cancel using assms by simp

text \<open>
  \<^verbatim>\<open>%#4x\<close> and a number of four digits: when the digits fill the width, two of them are taken away to
  make room for \<^verbatim>\<open>0x\<close>, although nothing was padded.
\<close>

context sink
begin

lemma hash_loses_digits:
  assumes "16 \<le> val" "val < 4294967296" "fst p + 8 < 4294967296"
  shows "ntoa_long e val False 16 0 (length (ldigits 16 val)) 16 p = Some (fold e ([48, 120] @ drop 2 (radix_text False 16 val)) p)"
proof -
  define d where "d = radix_text False 16 val"
  have f: "\<not> has 16 1" "\<not> has 16 2" "\<not> has 16 4" "\<not> has 16 8" "has 16 16" "\<not> has 16 32" "\<not> has 16 1024"
    by (simp_all add: has_def)
  have l: "ldigits 16 val = val mod 16 # val div 16 mod 16 # ldigits 16 (val div 16 div 16)"
    using assms(1) by (simp add: ldigits.simps [of 16 val] ldigits.simps [of 16 "val div 16"])
  have len: "length d = length (ldigits 16 val)" "2 \<le> length d" "length d \<le> 8"
    using assms(1,2) l length_ldigits_le [of 16 val 8] by (simp_all add: d_def radix_text_def)
  have "ntoa_digits 16 16 val [] = rev d"
    using ntoa_digits_eq [of 16 "[]" val 16] length_ldigits_u32 [of 16 val] assms(1,2) radix_text_rev [of 16 val 16] f(6) by (simp add: d_def rev_swap)
  then have "ntoa_long e val False 16 0 (length (ldigits 16 val)) 16 p = ntoa_format e (rev d) False 16 0 (length d) 16 p"
    using assms(1) f(7) len(1) by (simp add: ntoa_long_def)
  also have "\<dots> = out_rev e (rev ([48, 120] @ drop 2 d)) (length d) 16 p"
  proof -
    have "put_prefix (rev d) 16 0 (length d) 16 = rev ([48, 120] @ drop 2 d)"
      using len f by (cases d; cases "tl d") (auto simp: put_prefix_def Let_def butlast_append)
    moreover have "pad_zeros (rev d) 0 = rev d" by (simp add: pad_zeros_eq)
    ultimately show ?thesis using f by (simp add: ntoa_format_def Let_def put_sign_def)
  qed
  also have "\<dots> = Some (fold e ([48, 120] @ drop 2 d) p)"
    using out_rev_ok [of p "length d" "rev ([48, 120] @ drop 2 d)" 16] len assms(3) f by (simp add: justify_def blanks_def)
  finally show ?thesis by (simp add: d_def)
qed

end

end
