(* ===== verification/Printf_Io.thy ===== *)
theory Printf_Io
  imports Printf User_Io
begin

text \<open>
  The formatted output of a process over the kernel: its memory and its descriptor 1 provide the
  interfaces of theory \<open>Printf\<close>, so what \<^verbatim>\<open>printf\<close> and \<^verbatim>\<open>snprintf\<close> produce can be stated on the whole system.
\<close>

interpretation kmem: user_memory "kernel_sys run" for run :: "'a children"
  by unfold_locales simp_all

definition out_looks :: "'a user \<Rightarrow> unit \<Rightarrow> byte list \<Rightarrow> bool" where
  "out_looks u r ot \<longleftrightarrow> user_ok u \<and> ot = uout u"

lemma user_ok_same:
  assumes "user_ok u" "pcbs (uk u') = pcbs (uk u)" "cur (uk u') = cur (uk u)" "fsg (uk u') = fsg (uk u)" "sys_ok (uk u')"
    "\<And>x. x < 0xB8000 \<or> 0xBC000 \<le> x \<Longrightarrow> x < 0x8000000 \<Longrightarrow> mem (uk u') x = mem (uk u) x"
  shows "user_ok u'"
proof -
  let ?g = "fsg (uk u)"
  have im: "same_image ?g (image_size (mem (uk u)) ?g) (mem (uk u)) (mem (uk u'))"
    using assms(1,6) by (auto simp: same_image_def user_ok_def disjoint_ranges_def)
  have g: "get_file r (uk u') = get_file r (uk u)" for r using assms(2) by (simp add: get_file_def)
  show ?thesis using assms(1-5) image_size_same [OF im] by (simp add: user_ok_def g my_term_def)
qed

interpretation kout: out_io "kernel_sys run" "0x8000000" "0x8400000" out_looks
  for run :: "'a children"
proof
  show "(0x8400000 :: nat) < 2 ^ 31" by simp
next
  fix u :: "'a user" and r ot and a n :: nat
  assume l: "out_looks u r ot" and a: "0x8000000 \<le> a" "a + n \<le> 0x8400000"
  have ok: "user_ok u" "ot = uout u" using l by (simp_all add: out_looks_def)
  obtain u' where w: "user_write 1 a n u = (int n, u')" "pcbs (uk u') = pcbs (uk u)" "cur (uk u') = cur (uk u)" "fsg (uk u') = fsg (uk u)"
    "sys_ok (uk u')" "uout u' = uout u @ load_list (mem (uk u)) a n" "\<forall>x. x < 0xB8000 \<or> 0xBC000 \<le> x \<longrightarrow> mem (uk u') x = mem (uk u) x"
    using user_write_law [OF ok(1) a] by blast
  have "user_ok u'" by (rule user_ok_same [OF ok(1) w(2-5)]) (simp add: w(7))
  then have "out_looks u' r (ot @ load_list (mem (uk u)) a n)" using w(6) ok(2) by (simp add: out_looks_def)
  then show "\<exists>u'. ece391_write (kernel_sys run) 1 a n u = (int n, u') \<and> out_looks u' r (ot @ load_list (s_mem (kernel_sys run) u) a n)
      \<and> (\<forall>x. 0x8000000 \<le> x \<and> x < 0x8400000 \<longrightarrow> s_mem (kernel_sys run) u' x = s_mem (kernel_sys run) u x)"
    using w by (intro exI [of _ u']) simp
next
  fix u :: "'a user" and r ot and m :: mem
  assume l: "out_looks u r ot" and m: "\<forall>x. x < 0x8000000 \<or> 0x8400000 \<le> x \<longrightarrow> m x = s_mem (kernel_sys run) u x"
  let ?u = "u\<lparr>uk := (uk u)\<lparr>mem := m\<rparr>\<rparr>"
  have "user_ok ?u"
  proof (rule user_ok_same)
    show "user_ok u" using l by (simp add: out_looks_def)
    then have "sys_ok (uk u)" by (simp add: user_ok_def)
    then show "sys_ok (uk ?u)" by (simp add: sys_ok_def)
    show "x < 0x8000000 \<Longrightarrow> mem (uk ?u) x = mem (uk u) x" for x using m by simp
  qed simp_all
  then show "out_looks (s_store (kernel_sys run) m u) r ot \<and> s_mem (kernel_sys run) (s_store (kernel_sys run) m u) = m"
    using l by (simp add: out_looks_def)
qed

text \<open>
  C20: \<^verbatim>\<open>printf\<close> sends to the terminal of the process exactly the text the format means (flags, widths
  and precisions, strings, characters, numbers in four bases) and returns its length; \<open>render\<close> is
  that meaning, stated without the buffer and the loops of the code. The program's memory is as before,
  up to the cell from which single characters are written.
\<close>

theorem printf_prints:
  fixes u :: "'a user"
  assumes "user_ok u" "\<forall>P \<in> set ps. piece_ok P" "cstr (mem (uk u)) format (concat (map piece_bytes ps))"
    "render ps as = Some t" "args_at (mem (uk u)) va as"
    "{format..format + length (concat (map piece_bytes ps))} \<union> args_area va as \<subseteq> {0x8000000..<0x8400000} - {cell}"
    "0x8000000 \<le> cell" "cell < 0x8400000" "loc \<noteq> 0" "length t < 2000000000"
  shows "\<exists>u'. printf_u (kernel_sys run) cell loc format va u = Some (int (length t), u')
    \<and> uout u' = uout u @ filter (\<lambda>c. c \<noteq> 0) t \<and> user_ok u'
    \<and> (\<forall>x \<in> {0x8000000..<0x8400000} - {cell}. mem (uk u') x = mem (uk u) x)"
proof -
  have "out_looks u () (uout u)" using assms(1) by (simp add: out_looks_def)
  from kout.printf_law [OF assms(2) _ assms(4) _ assms(6-9) _ this, of run] show ?thesis
    using assms(3,5,10) by (auto simp: out_looks_def)
qed

text \<open>
  C21: \<^verbatim>\<open>snprintf\<close> stores that text into the buffer, cut to \<open>n - 1\<close> characters and terminated, changes
  nothing else, and returns the length of the whole text.
\<close>

theorem snprintf_stores:
  fixes u :: "'a user"
  assumes "\<forall>P \<in> set ps. piece_ok P" "cstr (mem (uk u)) format (concat (map piece_bytes ps))" "render ps as = Some t"
    "args_at (mem (uk u)) va as" "({format..format + length (concat (map piece_bytes ps))} \<union> args_area va as) \<inter> {buffer..<buffer + n} = {}"
    "buffer \<noteq> 0" "n < 4294967296" "length t < 2000000000"
  shows "snprintf_u (kernel_sys run) buffer n format va u = Some (int (length t),
    u\<lparr>uk := (uk u)\<lparr>mem := store_list (mem (uk u)) buffer (if n = 0 then [] else take (n - 1) t @ [0])\<rparr>\<rparr>)"
proof -
  have "length t + 32 < 2147483648" using assms(8) by simp
  from kmem.snprintf_law [OF assms(1) _ assms(3) _ assms(5-7) this, where s = u and run = run] show ?thesis using assms(2,4) by simp
qed

text \<open>
  C22: whatever the format and the arguments are, also where they are malformed, \<^verbatim>\<open>snprintf\<close> writes to no byte
  outside the \<open>n\<close> bytes of the buffer it was given.
\<close>

theorem snprintf_in_bounds:
  fixes u :: "'a user"
  assumes "snprintf_u (kernel_sys run) buffer n format va u = Some (v, u')" "x < buffer \<or> buffer + n \<le> x"
  shows "mem (uk u') x = mem (uk u) x"
  using kmem.snprintf_stays [OF assms(1), of x] assms(2) by auto

subsection \<open>Instances\<close>

text \<open>The format \<^verbatim>\<open>%05d!\<close> with the argument 42 in the page of the small system.\<close>

definition demo_fmt :: "piece list" where
  "demo_fmt = [Conv [48] (Number 5) None [] 100, Lit 33]"

definition demo_printf :: "unit user" where
  "demo_printf = demo_user\<lparr>uk := (uk demo_user)\<lparr>mem := store_list (store_list demo_dir 0x8001000 [37, 48, 53, 100, 33, 0]) 0x8002000 [42, 0, 0, 0]\<rparr>\<rparr>"

lemma demo_fmt_facts:
  "\<forall>P \<in> set demo_fmt. piece_ok P" "concat (map piece_bytes demo_fmt) = [37, 48, 53, 100, 33]"
  "render demo_fmt [Val 42] = Some [48, 48, 48, 52, 50, 33]"
proof -
  have d: "ldigits 10 42 = [2, 4]" "ldigits 10 5 = [5]" by (simp_all add: ldigits.simps)
  show "\<forall>P \<in> set demo_fmt. piece_ok P" by (simp add: demo_fmt_def flag_chars_def lengths_def letter_def is_digit_def)
  show "concat (map piece_bytes demo_fmt) = [37, 48, 53, 100, 33]" by (simp add: demo_fmt_def ascii_digits_def d lookup_def bytes_of_def)
  show "render demo_fmt [Val 42] = Some [48, 48, 48, 52, 50, 33]"
    by (simp add: demo_fmt_def int_text_def Let_def number_fits_def number_text_def digits_text_def radix_text_def d sign_text_def
        signed_value_def s32_id conv_base_def numeral_3_eq_3)
qed

lemma demo_printf_facts:
  "cstr (mem (uk demo_printf)) 0x8001000 [37, 48, 53, 100, 33]" "load32 (mem (uk demo_printf)) 0x8002000 = 42"
  "args_area 0x8002000 [Val 42] = {0x8002000..<0x8002004}" "user_ok demo_printf" "uout demo_printf = []"
proof -
  show "cstr (mem (uk demo_printf)) 0x8001000 [37, 48, 53, 100, 33]"
    by (simp add: demo_printf_def cstr_def load_list_Suc store_list_def)
  show "load32 (mem (uk demo_printf)) 0x8002000 = 42" by (simp add: demo_printf_def load32_def store_list_def)
  show "args_area 0x8002000 [Val 42] = {0x8002000..<0x8002004}" by (simp add: args_area_def)
  show "user_ok demo_printf"
    using demo_user_ok by (rule user_ok_same) (simp_all add: demo_printf_def store_list_def, insert demo_user_ok, simp add: user_ok_def sys_ok_def)
  show "uout demo_printf = []" by (simp add: demo_printf_def)
qed

lemma demo_areas:
  "{0x8001000..0x8001005} \<union> {0x8002000..<0x8002004} \<subseteq> {0x8000000..<0x8400000} - {0x8003000 :: nat}"
  "({0x8001000..0x8001005} \<union> {0x8002000..<0x8002004}) \<inter> {0x8003000..<0x8003004 :: nat} = {}"
  by auto

theorem printf_prints_witness:
  "\<exists>u'. printf_u (kernel_sys no_children) 0x8003000 0x8003004 0x8001000 0x8002000 demo_printf = Some (6, u')
    \<and> uout u' = [48, 48, 48, 52, 50, 33]"
proof -
  have "{0x8001000..0x8001000 + length (concat (map piece_bytes demo_fmt))} \<union> args_area 0x8002000 [Val 42] \<subseteq> {0x8000000..<0x8400000} - {0x8003000}"
    using demo_areas(1) by (simp add: demo_fmt_facts demo_printf_facts)
  from printf_prints [OF demo_printf_facts(4) demo_fmt_facts(1) _ demo_fmt_facts(3) _ this, of "0x8003004" no_children]
  show ?thesis by (auto simp: demo_fmt_facts(2) demo_printf_facts)
qed

lemma demo_separate:
  "({0x8001000..0x8001000 + length (concat (map piece_bytes demo_fmt))} \<union> args_area 0x8002000 [Val 42]) \<inter> {0x8003000..<0x8003000 + 4} = {}"
  using demo_areas(2) by (simp add: demo_fmt_facts demo_printf_facts)

theorem snprintf_stores_witness:
  "\<exists>u'. snprintf_u (kernel_sys no_children) 0x8003000 4 0x8001000 0x8002000 demo_printf = Some (6, u')
    \<and> load_list (mem (uk u')) 0x8003000 4 = [48, 48, 48, 0]"
  using snprintf_stores [OF demo_fmt_facts(1) _ demo_fmt_facts(3) _ demo_separate, of demo_printf no_children]
  by (simp add: demo_fmt_facts(2) demo_printf_facts store_list_def load_list_def upt_rec)

theorem snprintf_in_bounds_witness:
  "\<exists>u'. snprintf_u (kernel_sys no_children) 0x8003000 4 0x8001000 0x8002000 demo_printf = Some (6, u')
    \<and> mem (uk u') 0x8003004 = mem (uk demo_printf) 0x8003004"
proof -
  have "6 + 32 < (2147483648 :: nat)" by simp
  then obtain u' where "snprintf_u (kernel_sys no_children) 0x8003000 4 0x8001000 0x8002000 demo_printf = Some (6, u')"
    using kmem.snprintf_law [OF demo_fmt_facts(1) _ demo_fmt_facts(3) _ demo_separate, where s = demo_printf and run = no_children]
    by (simp add: demo_fmt_facts(2) demo_printf_facts)
  moreover from snprintf_in_bounds [OF this, of "0x8003004"] have "mem (uk u') 0x8003004 = mem (uk demo_printf) 0x8003004" by simp
  ultimately show ?thesis by blast
qed

end
