(* ===== verification/Draw.thy ===== *)
theory Draw
  imports Game2048 Printf_Io
begin

text \<open>
  Drawing on a terminal with the escape sequences of \<^verbatim>\<open>term.c\<close>. A drawing is a list of strokes: text,
  cursor positions, colours, clearing, modes. The bytes of a drawing, written to the terminal, change
  the abstract screen as the strokes say (\<open>strokes_draw\<close>), so what a program draws can be stated about
  the screen.
\<close>

datatype stroke =
  Text "byte list"
| Goto nat nat            \<comment> \<open>row and column, from 1\<close>
| Fore "nat option"       \<comment> \<open>foreground colour, or the default\<close>
| Fore_semi nat           \<comment> \<open>foreground colour, written with an empty second argument\<close>
| Backg "nat option"      \<comment> \<open>background colour, or the default\<close>
| Save | Wipe | Mode nat  \<comment> \<open>keep the cursor position, clear the screen, set a mode\<close>

fun stroke_bytes :: "stroke \<Rightarrow> byte list" where
  "stroke_bytes (Text xs) = xs"
| "stroke_bytes (Goto y x) = goto_pos y x"
| "stroke_bytes (Fore None) = [27, 91, 102]"
| "stroke_bytes (Fore (Some n)) = [27, 91] @ dec n @ [102]"
| "stroke_bytes (Fore_semi n) = [27, 91] @ dec n @ [59, 102]"
| "stroke_bytes (Backg None) = [27, 91, 98]"
| "stroke_bytes (Backg (Some n)) = [27, 91] @ dec n @ [98]"
| "stroke_bytes Save = [27, 91, 101]"
| "stroke_bytes Wipe = [27, 91, 99]"
| "stroke_bytes (Mode n) = [27, 91] @ dec n @ [115]"

fun stroke_draw :: "stroke \<Rightarrow> screen \<Rightarrow> screen" where
  "stroke_draw (Text xs) S = fold screen_putc xs S"
| "stroke_draw (Goto y x) S = S\<lparr>col := x - 1, row := y - 1\<rparr>"
| "stroke_draw (Fore None) S = S\<lparr>sattr := (sattr S AND 0xF0) OR 0x0F\<rparr>"
| "stroke_draw (Fore (Some n)) S = S\<lparr>sattr := (sattr S AND 0xF0) OR (word_of_nat n AND 0x0F)\<rparr>"
| "stroke_draw (Fore_semi n) S = S\<lparr>sattr := (sattr S AND 0xF0) OR (word_of_nat n AND 0x0F)\<rparr>"
| "stroke_draw (Backg None) S = S\<lparr>sattr := sattr S AND 0x0F\<rparr>"
| "stroke_draw (Backg (Some n)) S = S\<lparr>sattr := (sattr S AND 0x0F) OR push_bit 4 (word_of_nat n AND 0x0F)\<rparr>"
| "stroke_draw Wipe S = S\<lparr>cells := replicate 2000 (32, sattr S)\<rparr>"
| "stroke_draw _ S = S"

fun stroke_ok :: "stroke \<Rightarrow> bool" where
  "stroke_ok (Text xs) = (27 \<notin> set xs)"
| "stroke_ok (Goto y x) = (1 \<le> y \<and> y \<le> 25 \<and> 1 \<le> x \<and> x \<le> 80)"
| "stroke_ok (Fore c) = (case c of None \<Rightarrow> True | Some n \<Rightarrow> n < 16)"
| "stroke_ok (Fore_semi n) = (n < 16)"
| "stroke_ok (Backg c) = (case c of None \<Rightarrow> True | Some n \<Rightarrow> n < 16)"
| "stroke_ok (Mode n) = (n = 1 \<or> n = 2)"
| "stroke_ok _ = True"

definition bytes_drawn :: "stroke list \<Rightarrow> byte list" where
  "bytes_drawn ps = concat (map stroke_bytes ps)"

definition write_bytes :: "byte list \<Rightarrow> nat \<Rightarrow> 'a term_sys_scheme \<Rightarrow> 'a term_sys_scheme" where
  "write_bytes xs t s = fold (\<lambda>c. term_write_char c t) xs s"

text \<open>A terminal that is not inside an escape sequence.\<close>

definition idle :: "nat \<Rightarrow> 'a term_sys_scheme \<Rightarrow> bool" where
  "idle t s \<longleftrightarrow> sys_ok s \<and> t < 3 \<and> esc_state (tm t s) = IDLE"

subsection \<open>Numbers\<close>

lemma digit_isnum:
  assumes "is_digit c"
  shows "isnum c" "to_u32 (sint c - 48) = unat c - 48"
proof -
  have "sint c \<in> {48, 49, 50, 51, 52, 53, 54, 55, 56, 57}" using assms unfolding is_digit_def insert_iff empty_iff by presburger
  then have "word_of_int (sint c) \<in> (word_of_int :: int \<Rightarrow> byte) ` {48, 49, 50, 51, 52, 53, 54, 55, 56, 57}" by (rule imageI)
  then have "c \<in> {48, 49, 50, 51, 52, 53, 54, 55, 56, 57}" by simp
  then show "isnum c" "to_u32 (sint c - 48) = unat c - 48" by (auto simp: isnum_def to_u32_def)
qed

lemma dec_digits:
  assumes "n < 1000"
  shows "digit_string (dec n)" "dec_value (dec n) = n"
proof -
  have l: "length (ascii_digits 10 n) \<le> 3" using length_ldigits_le [of 10 n 3] assms by (simp add: ascii_digits_def)
  then show "digit_string (dec n)"
    using ascii_digits_facts(1,2) [of n] digit_isnum(1) by (simp add: dec_def digit_string_def)
  have "foldl (\<lambda>r c. 10 * r + (unat c - 48)) i xs = foldl (\<lambda>i c. i * 10 + to_u32 (sint c - 48)) i xs" if "\<forall>c \<in> set xs. is_digit c" for i xs
    using that by (induction xs arbitrary: i) (simp_all add: digit_isnum(2) mult.commute)
  then show "dec_value (dec n) = n" using ascii_digits_facts(1,3) [of n] by (simp add: dec_value_def dec_def)
qed

subsection \<open>One stroke\<close>

lemma idle_facts:
  assumes "idle t s"
  shows "sys_ok s" "t < 3" "t < length (terms s)" "cursor_ok (tm t s)" "esc_ok (tm t s)" "esc_state (tm t s) = IDLE"
  using assms by (auto simp: idle_def sys_ok_def)

lemma keeps_write_bytes: "sys_ok s \<Longrightarrow> t < 3 \<Longrightarrow> keeps t s (write_bytes xs t s)"
  unfolding write_bytes_def by (rule keeps_fold [OF keeps_term_write_char])

lemma write_text_char:
  assumes "idle t s" "c \<noteq> 27"
  shows "idle t (term_write_char c t s) \<and> abs_screen t (term_write_char c t s) = screen_putc c (abs_screen t s)"
proof -
  note i = idle_facts [OF assms(1)]
  have p: "term_write_char c t s = putc c t s" using i(3,6) assms(2) by (simp add: term_write_char_def esc_parse_def)
  have th: "touches t s (putc c t s)" using i(3,4) by (intro putc.draw_touches)
  have "esc_state (tm t (putc c t s)) = IDLE" by (subst touches_term [OF th]) (simp add: i(6))
  moreover have "sys_ok (putc c t s)" using keeps_term_write_char [OF i(1,2), of c] p by (simp add: keeps_def)
  moreover have "abs_screen t (putc c t s) = screen_putc c (abs_screen t s)"
    using putc_body_screen [OF i(3,4), of c] abs_screen_own [of t "putc_body c t s"] touches_length [OF touches_putc_body [of t s c]] i
    by (simp add: putc_def Let_def)
  ultimately show ?thesis using p i(2) by (simp add: idle_def)
qed

lemma write_text:
  "idle t s \<Longrightarrow> 27 \<notin> set xs \<Longrightarrow> idle t (write_bytes xs t s) \<and> abs_screen t (write_bytes xs t s) = fold screen_putc xs (abs_screen t s)"
proof (induction xs arbitrary: s)
  case (Cons x xs)
  then have "x \<noteq> 27" "27 \<notin> set xs" by auto
  with Cons.IH [of "term_write_char x t s"] write_text_char [OF Cons.prems(1), of x] show ?case by (simp add: write_bytes_def)
qed (simp add: write_bytes_def)

text \<open>A command without arguments, and one with.\<close>

lemma run_plain:
  assumes "t < length (terms s)" "\<not> isnum f" "f \<noteq> 27"
  shows "write_bytes [27, 91, f] t s
    = esc_reset t (esc_funcs f [] 0 t (upd_term t (\<lambda>T. T\<lparr>arg_len := 0, buf_len := 0, esc_state := ARG_PARSE\<rparr>) s))"
proof -
  have "term_write_char 91 t (term_write_char 27 t s) = upd_term t (\<lambda>T. T\<lparr>esc_state := A_BRACKET\<rparr>) s"
    using assms(1) by (simp add: term_write_char_def esc_parse_def upd_term_def)
  then have "write_bytes [27, 91, f] t s = term_write_char f t (upd_term t (\<lambda>T. T\<lparr>esc_state := A_BRACKET\<rparr>) s)" by (simp add: write_bytes_def)
  then show ?thesis using assms by (simp add: term_write_char_def esc_parse_def Let_def upd_term_def)
qed

lemma screen_frames:
  assumes "t < length (terms s)"
  shows "abs_screen t (esc_reset t s) = abs_screen t s" "abs_screen t (esc_fields t e b n as k s) = abs_screen t s"
    "esc_state (tm t (esc_reset t s)) = IDLE"
    "abs_screen t (setattr a t s) = (abs_screen t s)\<lparr>sattr := a\<rparr>" "getattr t s = sattr (abs_screen t s)"
  using assms by (simp_all add: abs_screen_def esc_reset_def esc_fields_def setattr_def getattr_def)

lemma run_one:
  assumes "idle t s" "n < 1000" "\<not> isnum f" "f \<noteq> 27" "f \<noteq> 59"
  shows "\<exists>b as. write_bytes ([27, 91] @ dec n @ [f]) t s = esc_reset t (esc_funcs f as 1 t (esc_fields t ARG_PARSE b 0 as 1 s))
    \<and> as ! 0 = word_of_nat n"
proof -
  obtain b as where w: "write_bytes (27 # 91 # esc_join [dec n] @ [f]) t s
      = esc_reset t (esc_funcs f as (length [dec n]) t (esc_fields t ARG_PARSE b 0 as (length [dec n]) s))"
    "take (length [dec n]) as = map (\<lambda>ds. word_of_nat (dec_value ds)) [dec n]"
    using run_escape [OF idle_facts(3,5) [OF assms(1)], of "[dec n]" f] assms(3-5) dec_digits [OF assms(2)] unfolding write_bytes_def by auto
  have "as ! 0 = word_of_nat n" using w(2) dec_digits [OF assms(2)] by (cases as) auto
  then show ?thesis using w(1) by (intro exI [of _ b] exI [of _ as]) simp
qed

lemma run_two:
  assumes "idle t s" "n < 1000" "k < 1000" "\<not> isnum f" "f \<noteq> 27" "f \<noteq> 59"
  shows "\<exists>b as. write_bytes ([27, 91] @ dec n @ [59] @ dec k @ [f]) t s
      = esc_reset t (esc_funcs f as 2 t (esc_fields t ARG_PARSE b 0 as 2 s)) \<and> as ! 0 = word_of_nat n \<and> as ! 1 = word_of_nat k"
proof -
  let ?d = "[dec n, dec k]"
  obtain b as where w: "write_bytes (27 # 91 # esc_join ?d @ [f]) t s
      = esc_reset t (esc_funcs f as (length ?d) t (esc_fields t ARG_PARSE b 0 as (length ?d) s))"
    "take (length ?d) as = map (\<lambda>ds. word_of_nat (dec_value ds)) ?d"
    using run_escape [OF idle_facts(3,5) [OF assms(1)], of ?d f] assms(4-6) dec_digits [OF assms(2)] dec_digits [OF assms(3)]
    unfolding write_bytes_def by auto
  have "as ! 0 = word_of_nat n \<and> as ! 1 = word_of_nat k"
    using w(2) dec_digits [OF assms(2)] dec_digits [OF assms(3)] by (cases as; cases "tl as") auto
  then show ?thesis using w(1) by (intro exI [of _ b] exI [of _ as]) (simp add: numeral_2_eq_2)
qed

lemma run_semi:
  assumes "idle t s" "n < 1000" "\<not> isnum f" "f \<noteq> 27" "f \<noteq> 59"
  shows "\<exists>b as. write_bytes ([27, 91] @ dec n @ [59, f]) t s = esc_reset t (esc_funcs f as 2 t (esc_fields t ARG_PARSE b 0 as 2 s))
    \<and> as ! 0 = word_of_nat n"
proof -
  note i = idle_facts [OF assms(1)] and d = dec_digits [OF assms(2)]
  let ?T = "tm t s" and ?ds = "dec n"
  have e: "length (esc_buf ?T) = 4" "length (args ?T) = 4" using i(5) by (simp_all add: esc_ok_def)
  have dn: "length ?ds \<le> 3 \<and> (\<forall>c \<in> set ?ds. isnum c)" using d(1) by (simp add: digit_string_def)
  obtain c cs where c: "?ds = c # cs" "isnum c" using d(1) by (cases ?ds) (auto simp: digit_string_def)
  let ?s2 = "term_write_char 91 t (term_write_char 27 t s)"
  have "?s2 = upd_term t (\<lambda>T. T\<lparr>esc_state := A_BRACKET\<rparr>) s"
    using i(3) by (simp add: term_write_char_def esc_parse_def upd_term_def)
  then have "term_write_char c t ?s2 = term_write_char c t (esc_fields t ARG_PARSE (esc_buf ?T) 0 (args ?T) 0 s)"
    using i(3) isnum_facts [OF c(2)]
    by (simp add: term_write_char_def esc_parse_def Let_def esc_fields_def upd_term_def esc_order c(2))
  then have w: "write_bytes ([27, 91] @ ?ds @ [59, f]) t s
      = term_write_char f t (term_write_char 59 t (fold (\<lambda>c. term_write_char c t) ?ds (esc_fields t ARG_PARSE (esc_buf ?T) 0 (args ?T) 0 s)))"
    by (simp add: write_bytes_def c(1))
  let ?b = "?ds @ 0 # tl (drop (length ?ds) (esc_buf ?T))" and ?as = "(args ?T)[0 := word_of_nat n]"
  have "\<not> isnum 59" by (simp add: isnum_def)
  then have s1: "term_write_char 59 t (fold (\<lambda>c. term_write_char c t) ?ds (esc_fields t ARG_PARSE (esc_buf ?T) 0 (args ?T) 0 s))
      = esc_fields t ARG_PARSE ?b 0 ?as (Suc 0) s"
    using write_digits [OF i(3) e(1)] write_arg_end [OF i(3) e(1) dn, of 0 59] dn d(2) by (simp add: Let_def)
  have "length ?b = 4" using dn e(1) by simp
  then have "term_write_char f t (esc_fields t ARG_PARSE ?b 0 ?as (Suc 0) s)
      = esc_reset t (esc_funcs f (?as[1 := word_of_nat (dec_value [])]) 2 t (esc_fields t ARG_PARSE (0 # tl ?b) 0 (?as[1 := word_of_nat (dec_value [])]) 2 s))"
    using write_arg_end [OF i(3), of ?b "[]" 1 f ?as] assms(3-5) by (simp add: Let_def numeral_2_eq_2)
  moreover have "?as[1 := word_of_nat (dec_value [])] ! 0 = word_of_nat n" using e(2) by simp
  ultimately show ?thesis unfolding w s1 by blast
qed

lemma idle_after:
  assumes "idle t s" "write_bytes xs t s = esc_reset t s'"
  shows "idle t (write_bytes xs t s)" "abs_screen t (write_bytes xs t s) = abs_screen t s'"
proof -
  have k: "keeps t s (write_bytes xs t s)" using idle_facts [OF assms(1)] by (intro keeps_write_bytes)
  then have "length (terms (write_bytes xs t s)) = length (terms s)" by (simp add: keeps_def local_to_def)
  then have l: "t < length (terms s')" using assms idle_facts(3) [OF assms(1)] by (simp add: esc_reset_def)
  show "idle t (write_bytes xs t s)" using k idle_facts(2) [OF assms(1)] screen_frames(3) [OF l] assms(2) by (simp add: idle_def keeps_def)
  show "abs_screen t (write_bytes xs t s) = abs_screen t s'" using screen_frames(1) [OF l] assms(2) by simp
qed

lemma funcs_screen:
  assumes "t < length (terms s)"
  shows "abs_screen t (esc_funcs 102 as n t s) = (abs_screen t s)\<lparr>sattr := (sattr (abs_screen t s) AND 0xF0) OR (if n = 0 then 0x0F else as ! 0 AND 0x0F)\<rparr>"
    "abs_screen t (esc_funcs 98 as n t s) = (abs_screen t s)\<lparr>sattr := (sattr (abs_screen t s) AND 0x0F) OR (if n = 0 then 0 else push_bit 4 (as ! 0 AND 0x0F))\<rparr>"
    "abs_screen t (esc_funcs 112 as 2 t s) = (abs_screen t s)\<lparr>col := nat (clamp_pos (uint (as ! 1) - 1) 80), row := nat (clamp_pos (uint (as ! 0) - 1) 25)\<rparr>"
    "abs_screen t (esc_funcs 101 as n t s) = abs_screen t s"
    "abs_screen t (esc_funcs 99 as 0 t s) = (abs_screen t s)\<lparr>cells := replicate 2000 (32, sattr (abs_screen t s))\<rparr>"
    "as ! 0 = 1 \<or> as ! 0 = 2 \<Longrightarrow> abs_screen t (esc_funcs 115 as (Suc 0) t s) = abs_screen t s"
  using assms by (auto simp: esc_funcs_def screen_frames abs_screen_setpos esc_set_def)
    (auto simp: abs_screen_def clear_eq cells_of_blank)

lemma stroke_draws:
  assumes "idle t s" "stroke_ok p"
  shows "idle t (write_bytes (stroke_bytes p) t s) \<and> abs_screen t (write_bytes (stroke_bytes p) t s) = stroke_draw p (abs_screen t s)"
proof -
  note i = idle_facts [OF assms(1)]
  have n: "\<not> isnum 102" "\<not> isnum 98" "\<not> isnum 112" "\<not> isnum 101" "\<not> isnum 99" "\<not> isnum 115" by (simp_all add: isnum_def)
  let ?u = "upd_term t (\<lambda>T. T\<lparr>arg_len := 0, buf_len := 0, esc_state := ARG_PARSE\<rparr>) s"
  have u: "abs_screen t ?u = abs_screen t s" "t < length (terms ?u)" using i(3) by (simp_all add: abs_screen_def)
  have f: "t < length (terms (esc_fields t e b k as l s))" for e b k as l using i(3) by (simp add: esc_fields_def)
  have plain: "idle t (write_bytes [27, 91, f] t s) \<and> abs_screen t (write_bytes [27, 91, f] t s) = abs_screen t (esc_funcs f [] 0 t ?u)"
    if "\<not> isnum f" "f \<noteq> 27" for f
    using idle_after [OF assms(1) run_plain [OF i(3) that]] by simp
  have one: "idle t (write_bytes ([27, 91] @ dec k @ [f]) t s) \<and> (\<exists>b as. as ! 0 = word_of_nat k
      \<and> abs_screen t (write_bytes ([27, 91] @ dec k @ [f]) t s) = abs_screen t (esc_funcs f as 1 t (esc_fields t ARG_PARSE b 0 as 1 s)))"
    if "k < 1000" "\<not> isnum f" "f \<noteq> 27" "f \<noteq> 59" for f k
    using run_one [OF assms(1) that] idle_after [OF assms(1)] by metis
  note fs = funcs_screen [OF u(2), unfolded u(1)] funcs_screen [OF f, unfolded screen_frames(2) [OF i(3)]]
  show ?thesis
  proof (cases p)
    case (Text xs)
    then show ?thesis using write_text [OF assms(1)] assms(2) by simp
  next
    case (Goto y x)
    then have yx: "1 \<le> y" "y \<le> 25" "1 \<le> x" "x \<le> 80" using assms(2) by simp_all
    obtain b as where "write_bytes (goto_pos y x) t s = esc_reset t (esc_funcs 112 as 2 t (esc_fields t ARG_PARSE b 0 as 2 s))"
      "as ! 0 = word_of_nat y" "as ! 1 = word_of_nat x"
      using run_two [OF assms(1), of y x 112] yx n by (auto simp: goto_pos_def)
    then show ?thesis
      using idle_after [OF assms(1), of "goto_pos y x"] yx Goto
      by (simp add: fs uint_nat unat_word_of_nat_byte clamp_pos_def)
  next
    case (Fore c)
    then show ?thesis using plain [of 102] one [of "the c" 102] n assms(2) by (cases c) (auto simp: fs)
  next
    case (Fore_semi k)
    obtain b as where "write_bytes ([27, 91] @ dec k @ [59, 102]) t s = esc_reset t (esc_funcs 102 as 2 t (esc_fields t ARG_PARSE b 0 as 2 s))"
      "as ! 0 = word_of_nat k"
      using run_semi [OF assms(1), of k 102] Fore_semi assms(2) n by auto
    then show ?thesis using idle_after [OF assms(1), of "[27, 91] @ dec k @ [59, 102]"] Fore_semi by (simp add: fs)
  next
    case (Backg c)
    then show ?thesis using plain [of 98] one [of "the c" 98] n assms(2) by (cases c) (auto simp: fs)
  next
    case (Mode k)
    then have "word_of_nat k = (1 :: byte) \<or> word_of_nat k = (2 :: byte)" "k < 1000" using assms(2) by auto
    then show ?thesis using Mode one [of k 115] n by (auto simp: fs)
  next
    case Save
    then show ?thesis using plain [of 101] n by (simp add: fs)
  next
    case Wipe
    then show ?thesis using plain [of 99] n by (simp add: fs)
  qed
qed

lemma write_bytes_append: "write_bytes (xs @ ys) t s = write_bytes ys t (write_bytes xs t s)"
  by (simp add: write_bytes_def)

lemma strokes_draw:
  "idle t s \<Longrightarrow> \<forall>p \<in> set ps. stroke_ok p \<Longrightarrow>
   idle t (write_bytes (bytes_drawn ps) t s) \<and> abs_screen t (write_bytes (bytes_drawn ps) t s) = fold stroke_draw ps (abs_screen t s)"
proof (induction ps arbitrary: s)
  case Nil
  then show ?case by (simp add: bytes_drawn_def write_bytes_def)
next
  case (Cons p ps)
  have p: "idle t (write_bytes (stroke_bytes p) t s) \<and> abs_screen t (write_bytes (stroke_bytes p) t s) = stroke_draw p (abs_screen t s)"
    using Cons.prems by (intro stroke_draws) simp_all
  have "write_bytes (bytes_drawn (p # ps)) t s = write_bytes (bytes_drawn ps) t (write_bytes (stroke_bytes p) t s)"
    by (simp add: bytes_drawn_def write_bytes_append)
  then show ?case using Cons.IH [of "write_bytes (stroke_bytes p) t s"] p Cons.prems(2) by simp
qed

end
