(* ===== verification/Game_Draw.thy ===== *)
theory Game_Draw
  imports Draw
begin

text \<open>
  What the game 2048 prints (\<^verbatim>\<open>syscalls/2048.c\<close>), as the calls of \<^verbatim>\<open>printf\<close> it makes: a call is a format,
  cut into its pieces, and its arguments. The text of the calls, written to a terminal, shows the
  board: \<open>screen_shows_board\<close>.

  \<open>lit\<close> gives the addresses of the string literals, \<open>hz\<close> the one of the array in \<open>print_border\<close>.
\<close>

type_synonym call = "piece list \<times> arg list"

abbreviation (input) pct_d :: piece where "pct_d \<equiv> Conv [] Omitted None [] 100"
abbreviation (input) pct_s :: piece where "pct_s \<equiv> Conv [] Omitted None [] 115"

definition lits :: "byte list \<Rightarrow> piece list" where
  "lits xs = map Lit xs"

text \<open>The format \<^verbatim>\<open>\e[%d;%dp\<close> and fixed escape sequences.\<close>

definition fmt_at :: "piece list" where
  "fmt_at = lits [27, 91] @ [pct_d, Lit 59, pct_d, Lit 112]"

definition esc :: "string \<Rightarrow> byte list" where
  "esc x = [27, 91] @ bytes_of x"

definition text_call :: "byte list \<Rightarrow> call" where
  "text_call xs = (lits xs, [])"

definition reset_call :: call where
  "reset_call = text_call (esc ''f'' @ esc ''b'')"

definition print_border :: "addr \<Rightarrow> call list" where
  "print_border hz =
     map (\<lambda>r. (fmt_at @ [pct_s], [Val (r * 6), Val 1, Str hz (replicate 43 45)])) [1..<4]
     @ concat (map (\<lambda>c. map (\<lambda>r. (fmt_at @ [Lit 124], [Val r, Val (11 * c)])) [1..<24]) [1..<5])
     @ concat (map (\<lambda>c. map (\<lambda>r. (fmt_at @ [Conv [] Omitted None [] 99], [Val (r * 6), Val (c * 11), Val 43])) [1..<4]) [1..<5])"

definition print_tile_calls :: "(byte list \<Rightarrow> addr) \<Rightarrow> int \<Rightarrow> nat \<Rightarrow> call list option" where
  "print_tile_calls lit num tile_num =
     (let row = tile_num div 4 + 1; col = tile_num mod 4 + 1;
          p_y = (row - 1) * 6 + 1; p_x = (col - 1) * 11 + 1;
          blank = (\<lambda>d. (fmt_at @ lits (replicate 10 32), [Val (p_y + d), Val p_x]));
          str = (\<lambda>xs. Str (lit xs) xs)
      in if num = 0 then Some [reset_call, blank 0, blank 1, blank 2, blank 3, blank 4, reset_call]
         else case tile_format num of
                None \<Rightarrow> None
              | Some (color, before, after) \<Rightarrow>
                  Some [([pct_s], [str ([27, 91] @ dec color @ [98])]), blank 0, blank 1,
                    (fmt_at @ [pct_s, pct_d, pct_s], [Val (p_y + 2), Val p_x, str (replicate before 32), Val (to_u32 num), str (replicate after 32)]),
                    blank 3, blank 4, reset_call])"

definition print_status :: "(byte list \<Rightarrow> addr) \<Rightarrow> int \<Rightarrow> call list" where
  "print_status lit sc =
     (let str = (\<lambda>xs. Str (lit xs) xs) in
      [text_call (esc ''24;1p''), text_call (esc ''0;f'' @ esc ''15b''),
       ([Conv [] (Number 79) None [] 115, Lit 13, Conv [] (Number 70) None [] 100, Lit 13, Conv [] (Number 60) None [] 115, Lit 13, pct_s],
        [str (replicate 10 32), Val (to_u32 sc), str (bytes_of ''YOUR SCORE: ''), str (bytes_of ''-- THE 2048 GAME --'')]),
       text_call (esc ''24;80p'' @ esc ''f'' @ esc ''b'')])"

definition info_line :: "(byte list \<Rightarrow> addr) \<Rightarrow> string \<Rightarrow> string \<Rightarrow> call" where
  "info_line lit at x = (lits (esc at) @ [pct_s], [Str (lit (bytes_of x)) (bytes_of x)])"

definition info_blank :: string where
  "info_blank = replicate 36 (CHR '' '')"

definition print_info :: "(byte list \<Rightarrow> addr) \<Rightarrow> nat \<Rightarrow> call list" where
  "print_info lit status =
     [reset_call]
     @ (if status = 0 then
          [info_line lit ''3;45p'' ''    Use your arrow key to play      '',
           info_line lit ''4;45p'' info_blank,
           info_line lit ''5;45p'' ''               _____                '',
           info_line lit ''6;45p'' ''              |     |               '',
           info_line lit ''7;45p'' ''              |  ^  |               '',
           info_line lit ''8;45p'' ''              |  |  |               '',
           info_line lit ''9;45p'' ''        -------------------         '',
           info_line lit ''10;45p'' ''        |     |     |     |         '',
           info_line lit ''11;45p'' ''        |  <- |  |  | ->  |         '',
           info_line lit ''12;45p'' ''        |     |  v  |     |         '',
           info_line lit ''13;45p'' ''        -------------------         '',
           info_line lit ''14;45p'' ''       Or W, S, A, D instead        '']
        else if status = 1 then
          map (\<lambda>at. info_line lit at info_blank) [''3;45p'', ''4;45p'', ''5;45p'', ''6;45p'', ''7;45p'', ''8;45p'', ''9;45p'', ''10;45p'', ''11;45p'']
          @ [text_call (esc ''4f''), info_line lit ''12;45p'' ''              HURRAY!!!             '',
             text_call (esc ''5f''), info_line lit ''13;45p'' ''         You reached 2048!!         '',
             reset_call, info_line lit ''14;45p'' ''          Move to continue          '']
        else if status = 2 then
          map (\<lambda>at. info_line lit at info_blank) [''3;45p'', ''4;45p'', ''5;45p'', ''6;45p'', ''7;45p'', ''8;45p'', ''9;45p'', ''10;45p'', ''11;45p'', ''12;45p'']
          @ [text_call (esc ''1f''), info_line lit ''13;45p'' ''               OH NO!!              '',
             reset_call, info_line lit ''14;45p'' ''             You lose!!!            '']
        else [])
     @ [info_line lit ''20;45p'' (''        Press '' @ [CHR 0x27, CHR ''r'', CHR 0x27] @ '' to retry''),
        info_line lit ''21;45p'' (''              '' @ [CHR 0x27, CHR ''q'', CHR 0x27] @ '' to quit'')]"

subsection \<open>The game\<close>

text \<open>All calls of a sequence of printing functions; \<open>None\<close> as soon as one of them has no defined output.\<close>

fun in_turn :: "'a list option list \<Rightarrow> 'a list option" where
  "in_turn [] = Some []"
| "in_turn (x # xs) = do { a \<leftarrow> x; b \<leftarrow> in_turn xs; Some (a @ b) }"

definition print_tiles :: "(byte list \<Rightarrow> addr) \<Rightarrow> int list \<Rightarrow> call list option" where
  "print_tiles lit tiles = in_turn (map (\<lambda>i. print_tile_calls lit (tiles ! i) i) [0..<16])"

text \<open>The screen of a new game, after the label \<^verbatim>\<open>start\<close>.\<close>

definition start_calls :: "(byte list \<Rightarrow> addr) \<Rightarrow> game \<Rightarrow> call list option" where
  "start_calls lit g = in_turn [print_tiles lit (tile g), Some (print_info lit 0), Some (print_status lit (score g))]"

text \<open>What is printed before the game waits for a key.\<close>

definition prompt_calls :: "(byte list \<Rightarrow> addr) \<Rightarrow> game \<Rightarrow> call list" where
  "prompt_calls lit g =
     (case phase g of
        Playing \<Rightarrow> if \<not> reached g then concat (map (\<lambda>i. if tile g ! i = 2048 then print_info lit 1 else []) [0..<16])
                   else print_info lit 0
      | Lost \<Rightarrow> print_info lit 2
      | Ended \<Rightarrow> [text_call (esc ''2S'' @ esc ''1S''), text_call (esc ''c'' @ esc ''r'' @ [10])])"

text \<open>What a key makes the game print, up to the next key.\<close>

definition key_calls :: "(byte list \<Rightarrow> addr) \<Rightarrow> byte \<Rightarrow> game \<Rightarrow> call list option" where
  "key_calls lit c g =
     (let g' = game_key c g;
          changed = (case get_key c of Move dir \<Rightarrow> fst (move_tile dir (tile g)) \<noteq> tile g | _ \<Rightarrow> False)
      in if phase g = Ended then Some []
         else if get_key c = Key_retry then in_turn [start_calls lit g', Some (prompt_calls lit g')]
         else if get_key c = Key_quit then Some (prompt_calls lit g')
         else if phase g = Lost then Some []
         else in_turn [if changed then in_turn [print_tiles lit (tile g'), Some (print_status lit (score g'))] else Some [],
                       Some (prompt_calls lit g')])"

fun play_calls :: "(byte list \<Rightarrow> addr) \<Rightarrow> byte list \<Rightarrow> game \<Rightarrow> call list option" where
  "play_calls lit [] g = Some []"
| "play_calls lit (c # keys) g = in_turn [key_calls lit c g, play_calls lit keys (game_key c g)]"

definition first_game :: game where
  "first_game = start_game \<lparr>tile = replicate 16 0, score = 0, reached = False, lfsr = 0xC0FFEE, phase = Playing\<rparr>"

definition game_calls :: "(byte list \<Rightarrow> addr) \<Rightarrow> addr \<Rightarrow> byte list \<Rightarrow> call list option" where
  "game_calls lit hz keys =
     in_turn [Some [text_call (esc ''e'' @ esc ''c'')], Some (print_border hz), Some [text_call (esc ''1s'' @ esc ''2s'')],
       start_calls lit first_game, Some (prompt_calls lit first_game), play_calls lit keys first_game]"

text \<open>The text that the calls of \<^verbatim>\<open>printf\<close> send to the terminal.\<close>

definition calls_text :: "call list \<Rightarrow> byte list option" where
  "calls_text xs = in_turn (map (\<lambda>(ps, as). render ps as) xs)"

subsection \<open>Specifications\<close>

text \<open>What a field of the board shows: five rows of ten characters in the colours of the tile.\<close>

definition tile_row :: "int \<Rightarrow> nat \<Rightarrow> byte list" where
  "tile_row num d =
     (case tile_format num of
        Some (color, before, after) \<Rightarrow> if d = 2 then replicate before 32 @ dec (nat num) @ replicate after 32 else replicate 10 32
      | None \<Rightarrow> replicate 10 32)"

definition tile_attr :: "int \<Rightarrow> byte" where
  "tile_attr num = (case tile_format num of Some (color, before, after) \<Rightarrow> 15 OR push_bit 4 (word_of_nat color AND 15) | None \<Rightarrow> 15)"

definition shows_tile :: "screen \<Rightarrow> nat \<Rightarrow> int \<Rightarrow> bool" where
  "shows_tile S i num \<longleftrightarrow>
     (\<forall>d < 5. \<forall>k < 10. cells S ! (80 * (6 * (i div 4) + d) + (11 * (i mod 4) + k)) = (tile_row num d ! k, tile_attr num))"

definition shows_board :: "screen \<Rightarrow> int list \<Rightarrow> bool" where
  "shows_board S tiles \<longleftrightarrow> (\<forall>i < 16. shows_tile S i (tiles ! i))"

text \<open>Tiles that have a colour.\<close>

definition printable_board :: "int list \<Rightarrow> bool" where
  "printable_board tiles \<longleftrightarrow> (\<forall>i < 16. tiles ! i = 0 \<or> tile_format (tiles ! i) \<noteq> None)"

subsection \<open>Lines of text on the screen\<close>

definition overlay :: "'b list \<Rightarrow> nat \<Rightarrow> 'b list \<Rightarrow> 'b list" where
  "overlay xs p ys = take p xs @ ys @ drop (p + length ys) xs"

lemma length_overlay [simp]: "p + length ys \<le> length xs \<Longrightarrow> length (overlay xs p ys) = length xs"
  by (simp add: overlay_def)

lemma nth_overlay:
  "p + length ys \<le> length xs \<Longrightarrow> q < length xs \<Longrightarrow>
   overlay xs p ys ! q = (if p \<le> q \<and> q < p + length ys then ys ! (q - p) else xs ! q)"
  by (auto simp: overlay_def nth_append)

lemma overlay_Cons: "p < length xs \<Longrightarrow> overlay (xs[p := y]) (Suc p) ys = overlay xs p (y # ys)"
  by (simp add: overlay_def upd_conv_take_nth_drop min_def add.commute)

text \<open>Text that neither scrolls nor leaves its row: cells, and then the cursor.\<close>

definition plain_text :: "byte list \<Rightarrow> bool" where
  "plain_text xs \<longleftrightarrow> set xs \<inter> {8, 10, 13, 27, 37, 0} = {}"

lemma putc_plain:
  assumes "c \<notin> {8, 10, 13}" "row S < 24"
  shows "screen_putc c S = S\<lparr>cells := (cells S)[80 * row S + col S := (c, sattr S)],
    col := (if col S < 79 then col S + 1 else 0), row := (if col S < 79 then row S else row S + 1)\<rparr>"
  using assms by (auto simp: screen_putc_def screen_put_def screen_newline_def Let_def)

lemma text_cells:
  assumes "set xs \<inter> {8, 10, 13} = {}" "row S < 24" "col S + length xs \<le> 80" "length (cells S) = 2000"
  shows "cells (fold screen_putc xs S) = overlay (cells S) (80 * row S + col S) (map (\<lambda>c. (c, sattr S)) xs)
    \<and> sattr (fold screen_putc xs S) = sattr S"
  using assms
proof (induction xs arbitrary: S)
  case Nil
  then show ?case by (simp add: overlay_def)
next
  case (Cons c xs)
  let ?S = "screen_putc c S" and ?p = "80 * row S + col S"
  have e: "?S = S\<lparr>cells := (cells S)[?p := (c, sattr S)],
    col := (if col S < 79 then col S + 1 else 0), row := (if col S < 79 then row S else row S + 1)\<rparr>"
    using Cons.prems by (intro putc_plain) auto
  have p: "?p < length (cells S)" using Cons.prems by simp
  show ?case
  proof (cases xs)
    case Nil
    then show ?thesis using p by (simp add: e overlay_def upd_conv_take_nth_drop)
  next
    case (Cons d ys)
    then have l: "col S < 79" using Cons.prems(3) by simp
    have "cells (fold screen_putc xs ?S) = overlay (cells ?S) (80 * row ?S + col ?S) (map (\<lambda>c. (c, sattr ?S)) xs)
        \<and> sattr (fold screen_putc xs ?S) = sattr ?S"
      using Cons.prems l by (intro Cons.IH) (auto simp: e)
    then show ?thesis using l overlay_Cons [OF p] by (simp add: e)
  qed
qed

text \<open>Lines: a position, from 1, and a text.\<close>

type_synonym line = "nat \<times> nat \<times> byte list"

definition line_strokes :: "line list \<Rightarrow> stroke list" where
  "line_strokes ls = concat (map (\<lambda>(y, x, xs). [Goto y x, Text xs]) ls)"

definition line_fits :: "line \<Rightarrow> bool" where
  "line_fits l = (case l of (y, x, xs) \<Rightarrow> 1 \<le> y \<and> y \<le> 24 \<and> 1 \<le> x \<and> x \<le> 80 \<and> x - 1 + length xs \<le> 80 \<and> plain_text xs)"

definition lay_line :: "byte \<Rightarrow> line \<Rightarrow> (byte \<times> byte) list \<Rightarrow> (byte \<times> byte) list" where
  "lay_line a l cs = (case l of (y, x, xs) \<Rightarrow> overlay cs (80 * (y - 1) + (x - 1)) (map (\<lambda>c. (c, a)) xs))"

lemma line_bound:
  assumes "line_fits (y, x, xs)"
  shows "80 * (y - 1) + (x - 1) + length xs \<le> 1920"
proof -
  have "y - 1 \<le> 23" "x - 1 + length xs \<le> 80" using assms by (auto simp: line_fits_def)
  then show ?thesis by linarith
qed

lemma length_lay_line [simp]: "line_fits l \<Longrightarrow> length cs = 2000 \<Longrightarrow> length (lay_line a l cs) = 2000"
  using line_bound by (cases l) (fastforce simp: lay_line_def)

lemma lines_cells:
  assumes "\<forall>l \<in> set ls. line_fits l" "length (cells S) = 2000"
  shows "cells (fold stroke_draw (line_strokes ls) S) = fold (lay_line (sattr S)) ls (cells S)
    \<and> sattr (fold stroke_draw (line_strokes ls) S) = sattr S \<and> length (fold (lay_line (sattr S)) ls (cells S)) = 2000"
  using assms
proof (induction ls arbitrary: S)
  case (Cons l ls)
  obtain y x xs where l: "l = (y, x, xs)" by (cases l)
  have ok: "1 \<le> y" "y - 1 < 24" "x - 1 + length xs \<le> 80" "plain_text xs" using Cons.prems(1) l by (auto simp: line_fits_def)
  let ?S = "fold screen_putc xs (S\<lparr>col := x - 1, row := y - 1\<rparr>)"
  have "cells ?S = lay_line (sattr S) l (cells S) \<and> sattr ?S = sattr S"
    using text_cells [of xs "S\<lparr>col := x - 1, row := y - 1\<rparr>"] ok Cons.prems(2) by (auto simp: l lay_line_def plain_text_def)
  moreover have "length (lay_line (sattr S) l (cells S)) = 2000" using Cons.prems by simp
  moreover have "fold stroke_draw (line_strokes (l # ls)) S = fold stroke_draw (line_strokes ls) ?S" by (simp add: line_strokes_def l)
  ultimately show ?case using Cons.IH [of ?S] Cons.prems(1) by simp
qed (simp add: line_strokes_def)

text \<open>A cell that no line covers stays.\<close>

definition covers :: "line \<Rightarrow> nat \<Rightarrow> bool" where
  "covers l q = (case l of (y, x, xs) \<Rightarrow> 80 * (y - 1) + (x - 1) \<le> q \<and> q < 80 * (y - 1) + (x - 1) + length xs)"

lemma lay_line_nth:
  assumes "line_fits l" "length cs = 2000" "q < 2000"
  shows "lay_line a l cs ! q = (if covers l q then (case l of (y, x, xs) \<Rightarrow> (xs ! (q - (80 * (y - 1) + (x - 1))), a)) else cs ! q)"
proof -
  obtain y x xs where l: "l = (y, x, xs)" by (cases l)
  then show ?thesis using line_bound [of y x xs] assms
    by (auto simp: lay_line_def covers_def nth_overlay)
qed

lemma lay_lines_other:
  "\<forall>l \<in> set ls. line_fits l \<and> \<not> covers l q \<Longrightarrow> length cs = 2000 \<Longrightarrow> q < 2000 \<Longrightarrow> fold (lay_line a) ls cs ! q = cs ! q"
  by (induction ls arbitrary: cs) (simp_all add: lay_line_nth)

text \<open>The cells of the board: those of the sixteen fields.\<close>

definition field_cell :: "nat \<Rightarrow> nat \<Rightarrow> nat \<Rightarrow> nat" where
  "field_cell i d k = 80 * (6 * (i div 4) + d) + (11 * (i mod 4) + k)"

definition clear_of_board :: "line \<Rightarrow> bool" where
  "clear_of_board l = (case l of (y, x, xs) \<Rightarrow> y = 24 \<or> y mod 6 = 0 \<or> 44 \<le> x \<or> length xs \<le> 1 \<and> x mod 11 = 0)"

lemma row_col_eq: "80 * a + b = 80 * c + d \<Longrightarrow> b < 80 \<Longrightarrow> d < 80 \<Longrightarrow> a = c \<and> b = (d :: nat)"
proof -
  assume e: "80 * a + b = 80 * c + d" and b: "b < 80" and d: "d < 80"
  have "(80 * a + b) div 80 = a" "(80 * c + d) div 80 = c" using b d by simp_all
  then have "a = c" using e by simp
  then show ?thesis using e by simp
qed

lemma field_bounds: "i < 16 \<Longrightarrow> i div 4 \<le> 3" "j mod 4 \<le> 3" for i j :: nat
  using less_mult_imp_div_less [of i 4 4] mod_less_divisor [of 4 j] by simp_all

lemma field_cell_less:
  assumes "i < 16" "d < 5" "k < 10"
  shows "field_cell i d k < 2000"
proof -
  have "80 * (6 * a + d) + (11 * b + k) < 2000" if "a \<le> 3" "b \<le> 3" for a b using that assms(2,3) by simp
  then show ?thesis using field_bounds(1) [OF assms(1)] field_bounds(2) [of i] by (simp add: field_cell_def)
qed

lemma near_eq: "11 * a \<le> 11 * b + k \<Longrightarrow> 11 * b + k < 11 * a + 10 \<Longrightarrow> k < 10 \<Longrightarrow> a = (b :: nat)"
  by presburger

lemma far_eq: "6 * a + d = 6 * b + e \<Longrightarrow> d < 5 \<Longrightarrow> e < 5 \<Longrightarrow> a = b \<and> d = (e :: nat)"
  by presburger

lemma covers_row:
  assumes "line_fits (y, x, xs)" "covers (y, x, xs) (80 * r + c)" "c < 80"
  shows "r = y - 1" "x - 1 \<le> c" "c < x - 1 + length xs"
proof -
  define j where "j = 80 * r + c - (80 * (y - 1) + (x - 1))"
  have j: "80 * r + c = 80 * (y - 1) + (x - 1 + j)" "j < length xs" using assms(2) by (auto simp: covers_def j_def)
  then have "x - 1 + j < 80" using assms(1) by (auto simp: line_fits_def)
  from row_col_eq [OF j(1) assms(3) this] show "r = y - 1" "x - 1 \<le> c" "c < x - 1 + length xs" using j(2) by auto
qed

lemma clear_not_covers:
  assumes "line_fits l" "clear_of_board l" "i < 16" "d < 5" "k < 10"
  shows "\<not> covers l (field_cell i d k)"
proof
  assume c: "covers l (field_cell i d k)"
  obtain y x xs where l: "l = (y, x, xs)" by (cases l)
  let ?c = "11 * (i mod 4) + k"
  have cc: "?c \<le> 42" using assms(5) field_bounds(2) [of i] by linarith
  then have "?c < 80" by simp
  note r = covers_row [OF assms(1) [unfolded l] c [unfolded l field_cell_def] this]
  have y: "y = 6 * (i div 4) + d + 1" "1 \<le> y" using r(1) assms(1) by (auto simp: l line_fits_def)
  have "y mod 6 = (d + 1) mod 6" by (simp add: y(1) flip: mod_add_left_eq [of "6 * (i div 4)"] add.assoc)
  then have "y \<noteq> 24" "y mod 6 \<noteq> 0" using y(1) assms(4) field_bounds(1) [OF assms(3)] by auto
  moreover have "\<not> 44 \<le> x" using r(2) cc by simp
  moreover have "\<not> (length xs \<le> 1 \<and> x mod 11 = 0)"
  proof
    assume a: "length xs \<le> 1 \<and> x mod 11 = 0"
    then have "?c = x - 1" using r(2,3) by linarith
    then have "x = ?c + 1" using assms(1) by (auto simp: l line_fits_def)
    then have "x mod 11 = (k + 1) mod 11" by (simp flip: mod_add_left_eq [of "11 * (i mod 4)"] add.assoc)
    then show False using a assms(5) by simp
  qed
  ultimately show False using assms(2) by (simp add: l clear_of_board_def)
qed

text \<open>\<open>off_board S S'\<close>: drawing that leaves the fields alone and ends in the standard colours.\<close>

definition off_board :: "screen \<Rightarrow> screen \<Rightarrow> bool" where
  "off_board S S' \<longleftrightarrow> length (cells S') = 2000 \<and> (\<forall>i < 16. \<forall>d < 5. \<forall>k < 10. cells S' ! field_cell i d k = cells S ! field_cell i d k)"

lemma off_board_trans: "off_board S S' \<Longrightarrow> off_board S' S'' \<Longrightarrow> off_board S S''"
  by (simp add: off_board_def)

lemma off_board_shows: "off_board S S' \<Longrightarrow> shows_board S tiles \<Longrightarrow> shows_board S' tiles"
  by (simp add: off_board_def shows_board_def shows_tile_def field_cell_def)

lemma lines_off_board:
  assumes "\<forall>l \<in> set ls. line_fits l \<and> clear_of_board l" "length (cells S) = 2000"
  shows "off_board S (fold stroke_draw (line_strokes ls) S) \<and> sattr (fold stroke_draw (line_strokes ls) S) = sattr S"
proof -
  have "fold (lay_line (sattr S)) ls (cells S) ! field_cell i d k = cells S ! field_cell i d k" if "i < 16" "d < 5" "k < 10" for i d k
    using assms clear_not_covers that by (intro lay_lines_other field_cell_less) auto
  then show ?thesis using lines_cells [of ls S] assms by (simp add: off_board_def)
qed

text \<open>The lines of a field put its picture there and nowhere else on the board.\<close>

definition tile_lines :: "int \<Rightarrow> nat \<Rightarrow> line list" where
  "tile_lines num i = map (\<lambda>d. (6 * (i div 4) + d + 1, 11 * (i mod 4) + 1, tile_row num d)) [0..<5]"

lemma length_tile_row [simp]: "length (tile_row num d) = 10"
proof (cases "tile_format num")
  case (Some f)
  then obtain color before after where f: "tile_format num = Some (color, before, after)" by (cases f) auto
  then show ?thesis using tile_width [OF f] by (simp add: tile_row_def)
qed (simp add: tile_row_def)

lemma dec_plain: "plain_text (dec n)"
proof -
  have "c \<notin> {8, 10, 13, 27, 37, 0}" if "is_digit c" for c using that by (auto simp: is_digit_def)
  then show ?thesis using ascii_digits_facts(1) [of n] by (auto simp: plain_text_def dec_def)
qed

lemma plain_text_append [simp]:
  "plain_text (xs @ ys) \<longleftrightarrow> plain_text xs \<and> plain_text ys" "plain_text (x # xs) \<longleftrightarrow> x \<notin> {8, 10, 13, 27, 37, 0} \<and> plain_text xs"
  "plain_text []" "plain_text (replicate n x) \<longleftrightarrow> n = 0 \<or> x \<notin> {8, 10, 13, 27, 37, 0}"
  by (auto simp: plain_text_def)

lemma tile_row_plain [simp]: "plain_text (tile_row num d)"
  by (simp add: tile_row_def dec_plain split: option.split)

lemma tile_lines_ok:
  assumes "i < 16"
  shows "\<forall>l \<in> set (tile_lines num i). line_fits l"
proof -
  have "i div 4 \<le> 3" "i mod 4 \<le> 3" using assms by (simp_all add: field_bounds)
  then show ?thesis by (auto simp: tile_lines_def line_fits_def)
qed

lemma tile_lines_cells:
  assumes "i < 16" "j < 16" "d < 5" "k < 10" "length cs = 2000"
  shows "fold (lay_line a) (tile_lines num i) cs ! field_cell j d k = (if i = j then (tile_row num d ! k, a) else cs ! field_cell j d k)"
proof -
  let ?l = "\<lambda>d. (6 * (i div 4) + d + 1, 11 * (i mod 4) + 1, tile_row num d) :: line" and ?q = "field_cell j d k"
  have ok: "line_fits (?l e)" if "e < 5" for e using tile_lines_ok [OF assms(1), of num] that by (simp add: tile_lines_def)
  have cov: "covers (?l e) ?q \<longleftrightarrow> i = j \<and> e = d" if e: "e < 5" for e
  proof
    assume c: "covers (?l e) ?q"
    have "11 * (j mod 4) + k < 80" using field_bounds(2) [of j] assms(4) by linarith
    note r = covers_row [OF ok [OF e] c [unfolded field_cell_def] this]
    have "6 * (j div 4) + d = 6 * (i div 4) + e" using r(1) by simp
    then have "j div 4 = i div 4 \<and> d = e" using assms(3) e by (rule far_eq)
    moreover have "j mod 4 = i mod 4" using r(2,3) by (intro near_eq [symmetric, of "i mod 4" _ k]) (simp_all add: assms(4))
    ultimately show "i = j \<and> e = d" by (metis div_mult_mod_eq)
  next
    assume "i = j \<and> e = d"
    then show "covers (?l e) ?q" using assms(4) by (simp add: covers_def field_cell_def)
  qed
  have q: "?q < 2000" using assms by (intro field_cell_less)
  show ?thesis
  proof (cases "i = j")
    case False
    then show ?thesis using cov ok assms(5) q unfolding tile_lines_def by (subst lay_lines_other) auto
  next
    case True
    have "[0..<5] = [0..<d] @ d # [d + 1..<5]" using upt_add_eq_append [of 0 d "5 - d"] upt_conv_Cons [OF assms(3)] assms(3) by (simp del: upt_rec_numeral)
    then have "tile_lines num i = map ?l [0..<d] @ ?l d # map ?l [d + 1..<5]" by (simp add: tile_lines_def)
    then have f: "fold (lay_line a) (tile_lines num i) cs = fold (lay_line a) (map ?l [d + 1..<5]) (lay_line a (?l d) (fold (lay_line a) (map ?l [0..<d]) cs))"
      by simp
    have len: "length (fold (lay_line a) ls cs) = 2000" if "\<forall>l \<in> set ls. line_fits l" for ls
      using that assms(5) by (induction ls arbitrary: cs) simp_all
    let ?cs = "fold (lay_line a) (map ?l [0..<d]) cs"
    have l: "length ?cs = 2000" using ok assms(3) by (intro len) auto
    have "fold (lay_line a) (tile_lines num i) cs ! ?q = lay_line a (?l d) ?cs ! ?q"
      unfolding f using ok cov l q assms(3) by (intro lay_lines_other) auto
    also have "\<dots> = (tile_row num d ! k, a)"
      using lay_line_nth [OF ok [OF assms(3)] l q, of a] cov [OF assms(3)] True by (simp add: field_cell_def)
    finally show ?thesis using True by simp
  qed
qed

subsection \<open>The text of the calls\<close>

lemma render_lits: "render (lits xs @ qs) as = map_option ((@) xs) (render qs as)"
proof (induction xs)
  case Nil
  then show ?case by (cases "render qs as") (simp_all add: lits_def)
next
  case (Cons x xs)
  then show ?case by (cases "render qs as") (simp_all add: lits_def)
qed

lemma render_nil [simp]: "render (lits xs) as = Some xs"
  using render_lits [of xs "[]" as] by simp

lemma dec_radix: "radix_text False 10 n = dec n"
proof -
  have "map (\<lambda>d. word_of_nat (48 + d)) (rev (ldigits 10 n)) = map (\<lambda>d. lookup ! d) (rev (ldigits 10 n))"
    using ldigits_less [of _ 10 n] by (auto simp: digit_facts(6) [simplified])
  moreover have "map (\<lambda>d. word_of_nat (if d < 10 then 48 + d else 87 + d)) (rev (ldigits 10 n)) = map (\<lambda>d. word_of_nat (48 + d) :: byte) (rev (ldigits 10 n))"
    using ldigits_less [of _ 10 n] by auto
  ultimately show ?thesis by (simp add: radix_text_def dec_def ascii_digits_def)
qed

lemma signed_text:
  assumes "w < 4294967296"
  shows "\<exists>v sg. int_text [] wd None [] 100 w = Some (justify (wd < 0) (nat \<bar>wd\<bar>) (sg @ dec v)) \<and> sg \<in> {[], [45]}
    \<and> (w < 2147483648 \<longrightarrow> v = w \<and> sg = []) \<and> length (sg @ dec v) \<le> 11"
proof -
  define v where "v = s32 (int w)"
  define sg where "sg = (if v < 0 then [45 :: byte] else [])"
  have r: "- 2147483648 \<le> v" "v < 2147483648" using s32_range by (auto simp: v_def)
  then have l: "length (dec (nat \<bar>v\<bar>)) \<le> 10"
    using length_ldigits_le [of 10 "nat \<bar>v\<bar>" 10] by (simp add: dec_def ascii_digits_def)
  have ls: "length sg \<le> 1" "sign_text [] v = sg" by (simp_all add: sg_def sign_text_def)
  have "number_fits (wd < 0) False 0 (nat \<bar>wd\<bar>) sg (dec (nat \<bar>v\<bar>))" using l ls by (simp add: number_fits_def)
  then have "int_text [] wd None [] 100 w = Some (justify (wd < 0) (nat \<bar>wd\<bar>) (sg @ dec (nat \<bar>v\<bar>)))"
    by (simp add: int_text_def Let_def signed_value_def v_def [symmetric] ls(2) digits_text_def conv_base_def dec_radix number_text_def)
  moreover have "w < 2147483648 \<longrightarrow> nat \<bar>v\<bar> = w \<and> sg = []" by (simp add: v_def sg_def s32_id)
  ultimately show ?thesis using l ls by (intro exI [of _ "nat \<bar>v\<bar>"] exI [of _ sg]) (auto simp: sg_def)
qed

lemma render_d: "v < 2147483648 \<Longrightarrow> render (pct_d # qs) (Val v # as) = map_option ((@) (dec v)) (render qs as)"
  using signed_text [of v 0] by (auto simp: justify_def blanks_def split: option.split bind_splits)

lemma render_s: "render (pct_s # qs) (Str a xs # as) = map_option ((@) xs) (render qs as)"
  by (auto simp: justify_def blanks_def split: option.split bind_splits)

lemma render_at:
  assumes "y < 2147483648" "x < 2147483648"
  shows "render (fmt_at @ qs) (Val y # Val x # as) = map_option ((@) (goto_pos y x)) (render qs as)"
proof -
  have f: "fmt_at @ qs = lits [27, 91] @ pct_d # lits [59] @ pct_d # lits [112] @ qs" by (simp add: fmt_at_def lits_def)
  have "render (fmt_at @ qs) (Val y # Val x # as)
      = map_option ((@) [27, 91]) (map_option ((@) (dec y)) (map_option ((@) [59]) (map_option ((@) (dec x)) (map_option ((@) [112]) (render qs as)))))"
    unfolding f by (simp only: render_lits render_d [OF assms(1)] render_d [OF assms(2)])
  then show ?thesis by (cases "render qs as") (simp_all add: goto_pos_def)
qed

text \<open>\<open>draws xs ps\<close>: the calls \<open>xs\<close> have formats that \<^verbatim>\<open>printf\<close> understands, and their text draws the strokes \<open>ps\<close>.\<close>

definition draws :: "call list \<Rightarrow> stroke list \<Rightarrow> bool" where
  "draws xs ps \<longleftrightarrow> calls_text xs = Some (bytes_drawn ps) \<and> (\<forall>p \<in> set ps. stroke_ok p) \<and> (\<forall>(fs, as) \<in> set xs. \<forall>P \<in> set fs. piece_ok P)"

lemma in_turn_append: "in_turn (xs @ ys) = do { a \<leftarrow> in_turn xs; b \<leftarrow> in_turn ys; Some (a @ b) }"
  by (induction xs) (auto split: bind_splits)

lemma draws_Nil [simp]: "draws [] []"
  by (simp add: draws_def calls_text_def bytes_drawn_def)

lemma draws_append: "draws xs ps \<Longrightarrow> draws ys qs \<Longrightarrow> draws (xs @ ys) (ps @ qs)"
  by (auto simp: draws_def calls_text_def in_turn_append bytes_drawn_def)

lemma draws_Cons: "draws [x] ps \<Longrightarrow> draws ys qs \<Longrightarrow> draws (x # ys) (ps @ qs)"
  using draws_append [of "[x]" ps ys qs] by simp

lemma draws_concat:
  "(\<And>x. x \<in> set xs \<Longrightarrow> draws (f x) (g x)) \<Longrightarrow> draws (concat (map f xs)) (concat (map g xs))"
  by (induction xs) (auto intro: draws_append)

lemma draws_one:
  assumes "render fs as = Some (concat (map stroke_bytes ps))" "\<forall>p \<in> set ps. stroke_ok p" "\<forall>P \<in> set fs. piece_ok P"
  shows "draws [(fs, as)] ps"
  using assms by (simp add: draws_def calls_text_def bytes_drawn_def)

lemma pieces_ok [simp]:
  "(\<forall>P \<in> set (lits xs). piece_ok P) \<longleftrightarrow> 0 \<notin> set xs \<and> 37 \<notin> set xs" "\<forall>P \<in> set fmt_at. piece_ok P" "piece_ok pct_d" "piece_ok pct_s"
  by (auto simp: lits_def fmt_at_def lengths_def letter_def flag_chars_def is_digit_def)

lemma draws_line:
  assumes "line_fits (y, x, xs)"
  shows "draws [(fmt_at @ lits xs, [Val y, Val x])] (line_strokes [(y, x, xs)])"
    "draws [(fmt_at @ [pct_s], [Val y, Val x, Str a xs])] (line_strokes [(y, x, xs)])"
proof -
  have "1 \<le> y" "y \<le> 24" "1 \<le> x" "x \<le> 80" "plain_text xs" using assms by (simp_all add: line_fits_def)
  note b = this
  have s: "render (fmt_at @ [pct_s]) [Val y, Val x, Str a xs] = Some (goto_pos y x @ xs)"
    "render (fmt_at @ lits xs) [Val y, Val x] = Some (goto_pos y x @ xs)"
    using b render_at [of y x] render_s [of "[]" a xs "[]"] by (simp_all del: piece_text.simps)
  have o: "\<forall>P \<in> set (fmt_at @ lits xs). piece_ok P" "\<forall>P \<in> set (fmt_at @ [pct_s]). piece_ok P"
    using b pieces_ok(1) [of xs] pieces_ok(2,4) unfolding set_append ball_Un plain_text_def by auto
  show "draws [(fmt_at @ lits xs, [Val y, Val x])] (line_strokes [(y, x, xs)])"
    "draws [(fmt_at @ [pct_s], [Val y, Val x, Str a xs])] (line_strokes [(y, x, xs)])"
    using b by (auto intro!: draws_one simp: line_strokes_def s plain_text_def bspec [OF o(1)] bspec [OF o(2)])
qed

subsection \<open>Triples\<close>

text \<open>
  \<open>scr a J T S\<close>: the screen \<open>S\<close> has the current colours \<open>a\<close>, and the fields in \<open>J\<close> show the tiles of \<open>T\<close>.
  \<open>triple P xs Q\<close>: the calls \<open>xs\<close> draw, and lead from a screen with \<open>P\<close> to one with \<open>Q\<close>.
\<close>

definition scr :: "byte \<Rightarrow> nat set \<Rightarrow> int list \<Rightarrow> screen \<Rightarrow> bool" where
  "scr a J T S \<longleftrightarrow> length (cells S) = 2000 \<and> sattr S = a \<and> (\<forall>i \<in> J. i < 16 \<and> shows_tile S i (T ! i))"

definition triple :: "(screen \<Rightarrow> bool) \<Rightarrow> call list \<Rightarrow> (screen \<Rightarrow> bool) \<Rightarrow> bool" where
  "triple P xs Q \<longleftrightarrow> (\<exists>ps. draws xs ps \<and> (\<forall>S. P S \<longrightarrow> Q (fold stroke_draw ps S)))"

lemma triple_seq: "triple P xs Q \<Longrightarrow> triple Q ys Q2 \<Longrightarrow> triple P (xs @ ys) Q2"
  unfolding triple_def by (metis comp_apply draws_append fold_append)

lemma triple_Nil: "triple P [] P"
  unfolding triple_def by (intro exI [of _ "[]"]) simp

lemma triple_Cons: "triple P [x] Q \<Longrightarrow> triple Q ys Q2 \<Longrightarrow> triple P (x # ys) Q2"
  using triple_seq [of P "[x]"] by simp

lemma triple_conseq: "triple P xs Q \<Longrightarrow> (\<And>S. P' S \<Longrightarrow> P S) \<Longrightarrow> (\<And>S. Q S \<Longrightarrow> Q' S) \<Longrightarrow> triple P' xs Q'"
  unfolding triple_def by blast

lemma triple_concat: "(\<And>x. x \<in> set xs \<Longrightarrow> triple P (f x) P) \<Longrightarrow> triple P (concat (map f xs)) P"
  by (induction xs) (auto intro: triple_Nil triple_seq)

lemma triple_map: "(\<And>x. x \<in> set xs \<Longrightarrow> triple P [f x] P) \<Longrightarrow> triple P (map f xs) P"
  by (induction xs) (auto intro: triple_Nil triple_Cons)

lemma scr_off_board: "scr a J T S \<Longrightarrow> off_board S S' \<Longrightarrow> scr (sattr S') J T S'"
  by (auto simp: scr_def off_board_def shows_tile_def field_cell_def)

text \<open>A line beside the fields, at a position that is given in the format or by arguments.\<close>

lemma triple_lines:
  assumes "draws xs (line_strokes [l])" "line_fits l" "clear_of_board l"
  shows "triple (scr a J T) xs (scr a J T)"
proof -
  have "scr a J T (fold stroke_draw (line_strokes [l]) S)" if "scr a J T S" for S
    using lines_off_board [of "[l]" S] assms(2,3) scr_off_board [OF that] that by (auto simp: scr_def)
  then show ?thesis using assms(1) unfolding triple_def by blast
qed

lemma dec_eval:
  "dec (numeral k) = map (\<lambda>d. lookup ! d) (rev (ldigits 10 (numeral k)))" "dec 0 = [48]" "dec 1 = [49]" "dec (Suc 0) = [49]"
  by (simp_all add: dec_def ascii_digits_def ldigits.simps lookup_def bytes_of_def)

lemmas dec_simps = dec_eval ldigits_numeral ldigits.simps [of 10 "Suc 0"] ldigits.simps [of 10 1] lookup_def bytes_of_def

lemma goto_plain: "0 \<notin> set (goto_pos y x)" "37 \<notin> set (goto_pos y x)"
  using dec_plain [of y] dec_plain [of x] by (auto simp: goto_pos_def plain_text_def)

lemma triple_info:
  assumes "esc at = goto_pos y 45" "line_fits (y, 45, bytes_of x)"
  shows "triple (scr a J T) [info_line lit at x] (scr a J T)"
proof (rule triple_lines [OF _ assms(2)])
  have "render (lits (goto_pos y 45) @ [pct_s]) [Str (lit (bytes_of x)) (bytes_of x)] = Some (goto_pos y 45 @ bytes_of x)"
    using render_s [of "[]" _ "bytes_of x" "[]"] by (simp add: render_lits del: piece_text.simps)
  moreover have "1 \<le> y" "y \<le> 24" "27 \<notin> set (bytes_of x)" using assms(2) by (auto simp: line_fits_def plain_text_def)
  moreover have "\<forall>P \<in> set (lits (goto_pos y 45) @ [pct_s]). piece_ok P"
    unfolding set_append ball_Un using pieces_ok(1,4) goto_plain by auto
  ultimately show "draws [info_line lit at x] (line_strokes [(y, 45, bytes_of x)])"
    unfolding info_line_def assms(1) by (intro draws_one) (auto simp: line_strokes_def)
  show "clear_of_board (y, 45, bytes_of x)" by (simp add: clear_of_board_def)
qed

lemma draws_text:
  assumes "xs = concat (map stroke_bytes ps)" "\<forall>p \<in> set ps. stroke_ok p" "0 \<notin> set xs" "37 \<notin> set xs"
  shows "draws [text_call xs] ps"
  unfolding text_call_def using assms pieces_ok(1) [of xs] by (intro draws_one) simp_all

text \<open>Colours.\<close>

lemma low_nibble: "((a AND 240) OR 15) AND 15 = (15 :: byte)"
  by (simp add: word_ao_absorbs)

lemma triple_reset: "triple (scr a J T) [reset_call] (scr 15 J T)"
proof -
  have "draws [reset_call] [Fore None, Backg None]"
    unfolding reset_call_def by (rule draws_text) (simp_all add: esc_def bytes_of_def)
  moreover have "scr 15 J T (fold stroke_draw [Fore None, Backg None] S)" if "scr a J T S" for S
    using that by (simp add: scr_def shows_tile_def low_nibble)
  ultimately show ?thesis unfolding triple_def by blast
qed

lemma triple_fore:
  assumes "esc x = stroke_bytes (Fore (Some n))" "n < 16"
  shows "triple (scr a J T) [text_call (esc x)] (scr ((a AND 240) OR (word_of_nat n AND 15)) J T)"
proof -
  have "draws [text_call (esc x)] [Fore (Some n)]"
    using assms dec_plain [of n] by (intro draws_text) (auto simp: plain_text_def)
  moreover have "scr ((a AND 240) OR (word_of_nat n AND 15)) J T (fold stroke_draw [Fore (Some n)] S)" if "scr a J T S" for S
    using that by (simp add: scr_def shows_tile_def)
  ultimately show ?thesis unfolding triple_def by blast
qed

subsection \<open>What the printing functions draw\<close>

lemma triple_border: "triple (scr a J T) (print_border hz) (scr a J T)"
proof -
  have 1: "triple (scr a J T) [(fmt_at @ [pct_s], [Val (r * 6), Val 1, Str hz (replicate 43 45)])] (scr a J T)" if "r \<in> set [1..<4]" for r
    using that by (intro triple_lines [OF draws_line(2)]) (auto simp: line_fits_def clear_of_board_def)
  have 2: "triple (scr a J T) [(fmt_at @ [Lit 124], [Val r, Val (11 * c)])] (scr a J T)" if "r \<in> set [1..<24]" "c \<in> set [1..<5]" for r c
  proof -
    have l: "lits [124] = [Lit 124]" by (simp add: lits_def)
    show ?thesis
      using that draws_line(1) [of r "11 * c" "[124]", unfolded l] by (intro triple_lines) (auto simp: line_fits_def clear_of_board_def)
  qed
  have 3: "triple (scr a J T) [(fmt_at @ [Conv [] Omitted None [] 99], [Val (r * 6), Val (c * 11), Val 43])] (scr a J T)"
    if "r \<in> set [1..<4]" "c \<in> set [1..<5]" for r c
  proof -
    have "render (fmt_at @ [Conv [] Omitted None [] 99]) [Val (r * 6), Val (c * 11), Val 43] = Some (goto_pos (r * 6) (c * 11) @ [43])"
      using that by (simp add: render_at justify_def blanks_def)
    then have "draws [(fmt_at @ [Conv [] Omitted None [] 99], [Val (r * 6), Val (c * 11), Val 43])] (line_strokes [(r * 6, c * 11, [43])])"
      using that pieces_ok(2)
      by (intro draws_one) (auto simp: line_strokes_def lengths_def letter_def flag_chars_def is_digit_def)
    then show ?thesis using that by (intro triple_lines) (auto simp: line_fits_def clear_of_board_def)
  qed
  show ?thesis unfolding print_border_def
    by (intro triple_seq [where Q = "scr a J T"] triple_map triple_concat 1 2 3)
qed

lemma esc_at:
  "esc ''3;45p'' = goto_pos 3 45" "esc ''4;45p'' = goto_pos 4 45" "esc ''5;45p'' = goto_pos 5 45" "esc ''6;45p'' = goto_pos 6 45"
  "esc ''7;45p'' = goto_pos 7 45" "esc ''8;45p'' = goto_pos 8 45" "esc ''9;45p'' = goto_pos 9 45" "esc ''10;45p'' = goto_pos 10 45"
  "esc ''11;45p'' = goto_pos 11 45" "esc ''12;45p'' = goto_pos 12 45" "esc ''13;45p'' = goto_pos 13 45" "esc ''14;45p'' = goto_pos 14 45"
  "esc ''20;45p'' = goto_pos 20 45" "esc ''21;45p'' = goto_pos 21 45"
  by (simp_all add: esc_def goto_pos_def dec_simps)

lemma info_blank_plain: "line_fits (y, 45, bytes_of info_blank) \<longleftrightarrow> 1 \<le> y \<and> y \<le> 24"
  by (auto simp: line_fits_def info_blank_def bytes_of_def)

lemma triple_print_info:
  assumes "status \<le> 2"
  shows "triple (scr a J T) (print_info lit status) (scr 15 J T)"
proof -
  note line = triple_info [OF esc_at(1)] triple_info [OF esc_at(2)] triple_info [OF esc_at(3)] triple_info [OF esc_at(4)]
    triple_info [OF esc_at(5)] triple_info [OF esc_at(6)] triple_info [OF esc_at(7)] triple_info [OF esc_at(8)] triple_info [OF esc_at(9)]
    triple_info [OF esc_at(10)] triple_info [OF esc_at(11)] triple_info [OF esc_at(12)] triple_info [OF esc_at(13)] triple_info [OF esc_at(14)]
  have fore: "esc ''4f'' = stroke_bytes (Fore (Some 4))" "esc ''5f'' = stroke_bytes (Fore (Some 5))" "esc ''1f'' = stroke_bytes (Fore (Some 1))"
    by (simp_all add: esc_def dec_simps)
  note steps = line [THEN triple_Cons] triple_reset [THEN triple_Cons] triple_fore [OF fore(1), THEN triple_Cons]
    triple_fore [OF fore(2), THEN triple_Cons] triple_fore [OF fore(3), THEN triple_Cons] triple_Nil
  consider "status = 0" | "status = 1" | "status = 2" using assms by linarith
  then show ?thesis
  proof cases
    case 1
    show ?thesis unfolding print_info_def 1
      by (simp only: append_Cons append_Nil simp_thms if_True) (intro steps; simp add: line_fits_def bytes_of_def info_blank_def)
  next
    case 2
    show ?thesis unfolding print_info_def 2
      by (simp only: append_Cons append_Nil list.map one_neq_zero simp_thms if_True if_False)
        (intro steps; simp add: line_fits_def bytes_of_def info_blank_def)
  next
    case 3
    have n: "(2 :: nat) \<noteq> 0" "(2 :: nat) \<noteq> 1" by simp_all
    show ?thesis unfolding print_info_def 3
      by (simp only: append_Cons append_Nil list.map n simp_thms if_True if_False)
        (intro steps; simp add: line_fits_def bytes_of_def info_blank_def)
  qed
qed

text \<open>The status line: text in the last row, with carriage returns.\<close>

fun fits :: "nat \<Rightarrow> byte list \<Rightarrow> bool" where
  "fits c [] = True"
| "fits c (x # xs) = (if x = 13 then fits 0 xs else x \<notin> {8, 10} \<and> c < 79 \<and> fits (c + 1) xs)"

lemma fits_run: "plain_text xs \<Longrightarrow> fits c (xs @ 13 # ys) \<longleftrightarrow> c + length xs \<le> 79 \<and> fits 0 ys \<or> xs = [] \<and> fits 0 ys"
  by (induction xs arbitrary: c) auto

lemma fits_last: "plain_text xs \<Longrightarrow> fits c xs \<longleftrightarrow> c + length xs \<le> 79 \<or> xs = []"
  by (induction xs arbitrary: c) auto

lemma field_cell_above:
  assumes "i < 16" "d < 5" "k < 10"
  shows "field_cell i d k < 1840"
proof -
  have "80 * (6 * a + d) + (11 * b + k) < 1840" if "a \<le> 3" "b \<le> 3" for a b using that assms(2,3) by simp
  then show ?thesis using field_bounds(1) [OF assms(1)] field_bounds(2) [of i] by (simp add: field_cell_def)
qed

lemma last_row_text:
  "fits (col S) xs \<Longrightarrow> row S = 23 \<Longrightarrow> length (cells S) = 2000 \<Longrightarrow>
   off_board S (fold screen_putc xs S) \<and> sattr (fold screen_putc xs S) = sattr S"
proof (induction xs arbitrary: S)
  case Nil
  then show ?case by (simp add: off_board_def)
next
  case (Cons x xs)
  let ?S = "screen_putc x S"
  have s: "off_board S ?S \<and> sattr ?S = sattr S \<and> row ?S = 23 \<and> length (cells ?S) = 2000 \<and> fits (col ?S) xs"
  proof (cases "x = 13")
    case True
    then show ?thesis using Cons.prems by (simp add: screen_putc_def off_board_def)
  next
    case False
    then have x: "x \<notin> {8, 10, 13}" "col S < 79" "fits (col S + 1) xs" using Cons.prems(1) by auto
    have e: "?S = S\<lparr>cells := (cells S)[1840 + col S := (x, sattr S)], col := col S + 1\<rparr>"
      using putc_plain [of x S] x(1,2) Cons.prems(2) by simp
    have "(cells S)[1840 + col S := (x, sattr S)] ! field_cell i d k = cells S ! field_cell i d k" if "i < 16" "d < 5" "k < 10" for i d k
      using field_cell_above [OF that] by (intro nth_list_update_neq) simp
    then show ?thesis using Cons.prems(2,3) x(3) by (simp add: e off_board_def)
  qed
  then show ?case using Cons.IH [of ?S] off_board_trans by auto
qed

lemma justify_plain: "plain_text xs \<Longrightarrow> plain_text (justify l n xs)" "length xs \<le> n \<Longrightarrow> length (justify l n xs) = n"
  by (auto simp: justify_def blanks_def)

lemma triple_status: "triple (scr 15 J T) (print_status lit sc) (scr 15 J T)"
proof -
  have w: "to_u32 sc < 4294967296" by (simp add: to_u32_def nat_less_iff)
  obtain v sg where v: "int_text [] 70 None [] 100 (to_u32 sc) = Some (justify False 70 (sg @ dec v))" "sg \<in> {[], [45]}" "length (sg @ dec v) \<le> 11"
    using signed_text [OF w, of 70] by auto
  define line where "line = justify False 79 (replicate 10 32) @ 13 # justify False 70 (sg @ dec v) @ 13
    # justify False 60 (bytes_of ''YOUR SCORE: '') @ 13 # bytes_of ''-- THE 2048 GAME --''"
  define fmt where "fmt = [Conv [] (Number 79) None [] 115, Lit 13, Conv [] (Number 70) None [] 100, Lit 13, Conv [] (Number 60) None [] 115, Lit 13, pct_s]"
  have p: "plain_text (sg @ dec v)" using v(2) dec_plain [of v] by auto
  have q: "plain_text (replicate 10 32)" "plain_text (bytes_of ''YOUR SCORE: '')" "plain_text (bytes_of ''-- THE 2048 GAME --'')"
    "length (bytes_of ''YOUR SCORE: '') \<le> 60" "length (bytes_of ''-- THE 2048 GAME --'') \<le> 79"
    by (simp_all add: bytes_of_def)
  have fit: "fits 0 line"
    unfolding line_def using p q v(3) by (simp add: fits_run fits_last justify_plain)
  have esc_free: "27 \<notin> set line"
    unfolding line_def using p q justify_plain(1) by (fastforce simp: plain_text_def)
  have "render (fmt @ []) [Str (lit (replicate 10 32)) (replicate 10 32), Val (to_u32 sc), Str (lit (bytes_of ''YOUR SCORE: '')) (bytes_of ''YOUR SCORE: ''),
      Str (lit (bytes_of ''-- THE 2048 GAME --'')) (bytes_of ''-- THE 2048 GAME --'')] = Some line"
    unfolding fmt_def line_def using v(1) by (simp add: justify_def blanks_def)
  then have "draws [(fmt, [Str (lit (replicate 10 32)) (replicate 10 32), Val (to_u32 sc), Str (lit (bytes_of ''YOUR SCORE: '')) (bytes_of ''YOUR SCORE: ''),
      Str (lit (bytes_of ''-- THE 2048 GAME --'')) (bytes_of ''-- THE 2048 GAME --'')])] [Text line]"
    using esc_free by (intro draws_one) (auto simp: fmt_def lengths_def letter_def flag_chars_def is_digit_def)
  moreover have "draws [text_call (esc ''24;1p'')] [Goto 24 1]" "draws [text_call (esc ''0;f'' @ esc ''15b'')] [Fore_semi 0, Backg (Some 15)]"
    "draws [text_call (esc ''24;80p'' @ esc ''f'' @ esc ''b'')] [Goto 24 80, Fore None, Backg None]"
    by (rule draws_text; simp add: esc_def goto_pos_def dec_simps)+
  ultimately have d: "draws (print_status lit sc) ([Goto 24 1] @ [Fore_semi 0, Backg (Some 15)] @ [Text line] @ [Goto 24 80, Fore None, Backg None])"
    unfolding print_status_def Let_def fmt_def by (intro draws_Cons)
  have "scr 15 J T (fold stroke_draw ([Goto 24 1] @ [Fore_semi 0, Backg (Some 15)] @ [Text line] @ [Goto 24 80, Fore None, Backg None]) S)"
    if s: "scr 15 J T S" for S
  proof -
    let ?S = "fold stroke_draw [Goto 24 1, Fore_semi 0, Backg (Some 15)] S"
    have S: "scr (sattr ?S) J T ?S" "col ?S = 0" "row ?S = 23" "length (cells ?S) = 2000" using s by (simp_all add: scr_def shows_tile_def)
    have "off_board ?S (fold screen_putc line ?S)" using last_row_text [of ?S line] fit S(2-4) by simp
    then have "scr (sattr (fold screen_putc line ?S)) J T (fold screen_putc line ?S)" using scr_off_board [OF S(1)] by simp
    then show ?thesis by (simp add: scr_def shows_tile_def low_nibble)
  qed
  then show ?thesis using d unfolding triple_def by blast
qed

text \<open>A field: in the colours of the tile.\<close>

lemma scr_tile:
  assumes "scr (tile_attr (T ! i)) J T S" "i < 16"
  shows "scr (tile_attr (T ! i)) (insert i J) T (fold stroke_draw (line_strokes (tile_lines (T ! i) i)) S)"
proof -
  let ?a = "tile_attr (T ! i)" and ?ls = "tile_lines (T ! i) i" and ?S = "fold stroke_draw (line_strokes (tile_lines (T ! i) i)) S"
  have s: "length (cells S) = 2000" "sattr S = ?a" "\<And>j. j \<in> J \<Longrightarrow> j < 16 \<and> shows_tile S j (T ! j)" using assms(1) by (simp_all add: scr_def)
  have c: "cells ?S = fold (lay_line ?a) ?ls (cells S)" "sattr ?S = ?a" "length (fold (lay_line ?a) ?ls (cells S)) = 2000"
    using lines_cells [of ?ls S] tile_lines_ok [OF assms(2)] s by auto
  have "shows_tile ?S j (T ! j)" if "j < 16" "j = i \<or> shows_tile S j (T ! j)" for j
    using tile_lines_cells [OF assms(2) that(1) _ _ s(1), of _ _ ?a "T ! i"] that(2)
    by (auto simp: shows_tile_def c(1) field_cell_def)
  then show ?thesis using s(3) c assms(2) by (auto simp: scr_def)
qed

lemma draws_lines:
  "list_all2 (\<lambda>x l. draws [x] (line_strokes [l])) xs ls \<Longrightarrow> draws xs (line_strokes ls)"
proof (induction rule: list_all2_induct)
  case (Cons x xs l ls)
  then show ?case using draws_Cons [of x "line_strokes [l]" xs "line_strokes ls"] by (simp add: line_strokes_def)
qed (simp add: line_strokes_def)

lemma tile_facts:
  assumes "tile_format num = Some (color, before, after)"
  shows "num \<noteq> 0" "color < 16" "to_u32 num = nat num" "nat num < 2147483648"
  using assms by (auto simp: tile_format_def to_u32_def split: if_splits)

lemma tile_colour:
  assumes "tile_format num = Some (color, before, after)"
  shows "(15 AND 15) OR push_bit 4 (word_of_nat color AND 15) = tile_attr num"
  using assms by (simp add: tile_attr_def)

lemma triple_tile:
  assumes "i < 16" "print_tile_calls lit (T ! i) i = Some xs"
  shows "triple (scr 15 J T) xs (scr 15 (insert i J) T)"
proof -
  let ?num = "T ! i" and ?y = "6 * (i div 4) + 1" and ?x = "11 * (i mod 4) + 1"
  have lines: "tile_lines ?num i = [(?y, ?x, tile_row ?num 0), (?y + 1, ?x, tile_row ?num 1), (?y + 2, ?x, tile_row ?num 2),
      (?y + 3, ?x, tile_row ?num 3), (?y + 4, ?x, tile_row ?num 4)]"
  proof -
    have "[0..<5] = [0, 1, 2, 3, 4 :: nat]" by code_simp
    then show ?thesis unfolding tile_lines_def by simp
  qed
  have ok: "line_fits (?y + d, ?x, ts)" if "d < 5" "length ts = 10" "plain_text ts" for d ts
    using that field_bounds(1) [OF assms(1)] field_bounds(2) [of i] by (auto simp: line_fits_def)
  define blank where "blank d = (fmt_at @ lits (replicate 10 32), [Val (?y + d), Val ?x])" for d
  have b: "draws [blank d] (line_strokes [(?y + d, ?x, replicate 10 32)])" if "d < 5" for d
    unfolding blank_def using ok [OF that] by (intro draws_line(1)) simp
  have fin: "triple (scr a (insert i J) T) [reset_call] (scr 15 (insert i J) T)" for a by (rule triple_reset)
  have field: "triple (scr (tile_attr ?num) J T) ys (scr (tile_attr ?num) (insert i J) T)" if "draws ys (line_strokes (tile_lines ?num i))" for ys
    using that scr_tile [OF _ assms(1)] unfolding triple_def by blast
  show ?thesis
  proof (cases "?num = 0")
    case True
    have xs: "xs = [reset_call] @ map blank [0, 1, 2, 3, 4] @ [reset_call]"
      using assms(2) True by (simp add: print_tile_calls_def Let_def blank_def mult.commute)
    have "tile_row ?num d = replicate 10 32" for d by (simp add: tile_row_def True tile_format_def)
    then have "draws (map blank [0, 1, 2, 3, 4]) (line_strokes (tile_lines ?num i))"
      unfolding lines using b [of 0] b [of 1] b [of 2] b [of 3] b [of 4] by (intro draws_lines) simp
    note drawn = field [OF this]
    have "tile_attr ?num = 15" by (simp add: tile_attr_def True tile_format_def)
    note rest = triple_seq [OF drawn fin, unfolded this]
    show ?thesis unfolding xs by (rule triple_seq [OF triple_reset rest])
  next
    case False
    then obtain color before after where f: "tile_format ?num = Some (color, before, after)"
      using assms(2) by (auto simp: print_tile_calls_def Let_def split: option.splits)
    note tf = tile_facts [OF f]
    let ?cs = "[27, 91] @ dec color @ [98]"
    let ?mid = "(fmt_at @ [pct_s, pct_d, pct_s], [Val (?y + 2), Val ?x, Str (lit (replicate before 32)) (replicate before 32), Val (to_u32 ?num),
      Str (lit (replicate after 32)) (replicate after 32)])"
    have xs: "xs = [([pct_s], [Str (lit ?cs) ?cs])] @ [blank 0, blank 1, ?mid, blank 3, blank 4] @ [reset_call]"
      using assms(2) False f by (simp add: print_tile_calls_def Let_def blank_def mult.commute)
    have rows: "tile_row ?num 0 = replicate 10 32" "tile_row ?num 1 = replicate 10 32" "tile_row ?num 3 = replicate 10 32"
      "tile_row ?num 4 = replicate 10 32" "tile_row ?num 2 = replicate before 32 @ dec (nat ?num) @ replicate after 32"
      by (simp_all add: tile_row_def f)
    have okm: "line_fits (?y + 2, ?x, tile_row ?num 2)" by (rule ok) simp_all
    have "render (fmt_at @ [pct_s, pct_d, pct_s]) (snd ?mid) = Some (goto_pos (?y + 2) ?x @ tile_row ?num 2)"
      unfolding rows tf(3) snd_conv using okm tf(4) by (subst render_at) (auto simp: line_fits_def render_s render_d simp del: render.simps(2))
    then have m: "draws [?mid] (line_strokes [(?y + 2, ?x, tile_row ?num 2)])"
      using okm pieces_ok(2-4) by (intro draws_one) (auto simp: line_strokes_def line_fits_def plain_text_def)
    have "draws [blank 0, blank 1, ?mid, blank 3, blank 4] (line_strokes (tile_lines ?num i))"
      unfolding lines rows(1-4) using b [of 0] b [of 1] b [of 3] b [of 4] m by (intro draws_lines) simp
    note drawn = field [OF this]
    have colour: "triple (scr 15 J T) [([pct_s], [Str (lit ?cs) ?cs])] (scr (tile_attr ?num) J T)"
    proof -
      have "draws [([pct_s], [Str (lit ?cs) ?cs])] [Backg (Some color)]"
        using tf(2) pieces_ok(4) render_s [of "[]" "lit ?cs" ?cs "[]"] by (intro draws_one) simp_all
      moreover have "scr (tile_attr ?num) J T (fold stroke_draw [Backg (Some color)] S)" if "scr 15 J T S" for S
        using that tile_colour [OF f] by (simp add: scr_def shows_tile_def)
      ultimately show ?thesis unfolding triple_def by blast
    qed
    show ?thesis unfolding xs by (rule triple_seq [OF colour triple_seq [OF drawn fin]])
  qed
qed

subsection \<open>The screen during the game\<close>

text \<open>The screen shows the board \<open>T\<close>, and the colours are the standard ones.\<close>

abbreviation (input) on_screen :: "int list \<Rightarrow> screen \<Rightarrow> bool" where
  "on_screen T \<equiv> scr 15 {..<16} T"

definition small_tiles :: "game \<Rightarrow> bool" where
  "small_tiles g \<longleftrightarrow> (\<forall>v \<in> set (tile g). v \<le> 4096)"

lemma tile_has_format:
  assumes "tile_ok v" "v \<le> 4096" "v \<noteq> 0"
  shows "tile_format v \<noteq> None"
proof -
  obtain n where n: "v = 2 ^ n" "0 < n" using assms(1,3) by (auto simp: tile_ok_def)
  have "(2 :: int) ^ n \<le> 2 ^ 12" using assms(2) n(1) by simp
  then have "n \<le> 12" by (simp only: power_increasing_iff)
  then have "n \<in> {1, 2, 3, 4, 5, 6, 7, 8, 9, 10, 11, 12}" using n(2) unfolding insert_iff empty_iff by presburger
  then show ?thesis by (auto simp: n(1) tile_format_def)
qed

lemma tile_printed:
  assumes "game_ok g" "small_tiles g" "i < 16"
  shows "print_tile_calls lit (tile g ! i) i \<noteq> None"
proof -
  have "tile g ! i \<in> set (tile g)" "board_ok (tile g)" using assms(1,3) by (auto simp: game_ok_def board_ok_def)
  then have "tile_ok (tile g ! i)" "tile g ! i \<le> 4096" using assms(2) by (auto simp: board_ok_def small_tiles_def)
  then show ?thesis using tile_has_format [of "tile g ! i"]
    by (cases "tile g ! i = 0") (auto simp: print_tile_calls_def Let_def split: option.split)
qed

lemma triple_tiles:
  assumes "game_ok g" "small_tiles g"
  shows "\<exists>xs. print_tiles lit (tile g) = Some xs \<and> triple (scr 15 J T) xs (on_screen (tile g))"
proof -
  have "\<exists>xs. in_turn (map (\<lambda>i. print_tile_calls lit (tile g ! i) i) [0..<n]) = Some xs \<and> triple (scr 15 {} (tile g)) xs (scr 15 {..<n} (tile g))"
    if "n \<le> 16" for n
    using that
  proof (induction n)
    case 0
    then show ?case by (simp add: triple_Nil)
  next
    case (Suc n)
    then obtain xs where xs: "in_turn (map (\<lambda>i. print_tile_calls lit (tile g ! i) i) [0..<n]) = Some xs"
      "triple (scr 15 {} (tile g)) xs (scr 15 {..<n} (tile g))" by auto
    obtain ys where ys: "print_tile_calls lit (tile g ! n) n = Some ys" using tile_printed [OF assms, of n lit] Suc.prems by auto
    have "triple (scr 15 {} (tile g)) (xs @ ys) (scr 15 {..<Suc n} (tile g))"
      using triple_seq [OF xs(2) triple_tile [OF _ ys]] Suc.prems by (simp add: lessThan_Suc)
    then show ?case using xs(1) ys by (simp add: in_turn_append)
  qed
  from this [of 16] obtain xs where "print_tiles lit (tile g) = Some xs" "triple (scr 15 {} (tile g)) xs (on_screen (tile g))"
    by (auto simp: print_tiles_def)
  moreover from this(2) have "triple (scr 15 J T) xs (on_screen (tile g))" by (rule triple_conseq) (auto simp: scr_def)
  ultimately show ?thesis by blast
qed

lemma triple_start:
  assumes "game_ok g" "small_tiles g"
  shows "\<exists>xs. start_calls lit g = Some xs \<and> triple (scr 15 J T) xs (on_screen (tile g))"
proof -
  obtain xs where xs: "print_tiles lit (tile g) = Some xs" "triple (scr 15 J T) xs (on_screen (tile g))"
    using triple_tiles [OF assms] by blast
  have "triple (scr 15 J T) (xs @ print_info lit 0 @ print_status lit (score g)) (on_screen (tile g))"
    by (intro triple_seq [OF xs(2)] triple_seq [OF triple_print_info] triple_status) simp
  then show ?thesis using xs(1) by (simp add: start_calls_def)
qed

lemma triple_prompt:
  assumes "phase g \<noteq> Ended"
  shows "triple (on_screen T) (prompt_calls lit g) (on_screen T)"
proof (cases "phase g")
  case Playing
  have "triple (on_screen T) (if tile g ! i = 2048 then print_info lit 1 else []) (on_screen T)" for i
    using triple_print_info [of 1] by (auto intro: triple_Nil)
  then have "triple (on_screen T) (concat (map (\<lambda>i. if tile g ! i = 2048 then print_info lit 1 else []) [0..<16])) (on_screen T)"
    by (intro triple_concat)
  then show ?thesis using Playing triple_print_info [of 0] by (simp add: prompt_calls_def del: upt_rec_numeral)
qed (use assms triple_print_info [of 2] in \<open>simp_all add: prompt_calls_def\<close>)

lemma key_keeps_tiles:
  assumes "game_ok g" "get_key c \<noteq> Key_retry" "\<forall>dir. get_key c = Move dir \<longrightarrow> fst (move_tile dir (tile g)) = tile g"
  shows "tile (game_key c g) = tile g"
proof -
  have "length (tile g) = 16" using assms(1) by (simp add: game_ok_def board_ok_def)
  then show ?thesis using assms(2,3)
    by (auto simp: game_key_def play_key_def lost_key_def loop_test_def Let_def check_end_eq split: game_phase.split key_2048.split prod.splits)
qed

lemma triple_key:
  assumes "game_ok g" "phase (game_key c g) \<noteq> Ended" "small_tiles (game_key c g)"
  shows "\<exists>xs. key_calls lit c g = Some xs \<and> triple (on_screen (tile g)) xs (on_screen (tile (game_key c g)))"
proof -
  let ?g = "game_key c g"
  have e: "phase g \<noteq> Ended" using assms(2) by (auto simp: game_key_def)
  have q: "get_key c \<noteq> Key_quit"
    using assms(2) e by (auto simp: game_key_def play_key_def lost_key_def Let_def split: game_phase.splits)
  note p = triple_prompt [OF assms(2), of "tile ?g" lit]
  show ?thesis
  proof (cases "get_key c = Key_retry")
    case True
    obtain xs where "start_calls lit ?g = Some xs" "triple (on_screen (tile g)) xs (on_screen (tile ?g))"
      using triple_start [OF game_key_ok [OF assms(1)] assms(3)] by blast
    then show ?thesis using e True triple_seq [OF _ p] by (auto simp: key_calls_def Let_def)
  next
    case r: False
    define changed where "changed = (case get_key c of Move dir \<Rightarrow> fst (move_tile dir (tile g)) \<noteq> tile g | _ \<Rightarrow> False)"
    show ?thesis
    proof (cases "phase g = Lost")
      case True
      then have "?g = g" using r q by (auto simp: game_key_def lost_key_def split: key_2048.split)
      then show ?thesis using True r q by (simp add: key_calls_def Let_def triple_Nil)
    next
      case False
      have k: "key_calls lit c g = in_turn [if changed then in_turn [print_tiles lit (tile ?g), Some (print_status lit (score ?g))] else Some [],
          Some (prompt_calls lit ?g)]"
        using e r q False by (simp add: key_calls_def Let_def changed_def)
      show ?thesis
      proof (cases changed)
        case True
        obtain xs where xs: "print_tiles lit (tile ?g) = Some xs" "triple (on_screen (tile g)) xs (on_screen (tile ?g))"
          using triple_tiles [OF game_key_ok [OF assms(1)] assms(3)] by blast
        then have "triple (on_screen (tile g)) (xs @ print_status lit (score ?g) @ prompt_calls lit ?g) (on_screen (tile ?g))"
          by (intro triple_seq [OF xs(2)] triple_seq [OF triple_status] p)
        then show ?thesis using True xs(1) by (simp add: k)
      next
        case False
        then have "tile ?g = tile g" using assms(1) r by (intro key_keeps_tiles) (auto simp: changed_def)
        then show ?thesis using False p by (simp add: k)
      qed
    qed
  qed
qed

lemma ended_stays: "phase g = Ended \<Longrightarrow> phase (fold game_key keys g) = Ended"
  by (induction keys) (simp_all add: game_key_def)

lemma triple_play:
  assumes "game_ok g" "phase (fold game_key keys g) \<noteq> Ended" "\<forall>n \<le> length keys. small_tiles (fold game_key (take n keys) g)"
  shows "\<exists>xs. play_calls lit keys g = Some xs \<and> triple (on_screen (tile g)) xs (on_screen (tile (fold game_key keys g)))"
  using assms
proof (induction keys arbitrary: g)
  case Nil
  then show ?case by (simp add: triple_Nil)
next
  case (Cons c keys)
  let ?g = "game_key c g"
  have "phase ?g \<noteq> Ended" using ended_stays [of ?g keys] Cons.prems(2) by auto
  moreover have "small_tiles ?g" using Cons.prems(3) [rule_format, of 1] by simp
  ultimately obtain xs where xs: "key_calls lit c g = Some xs" "triple (on_screen (tile g)) xs (on_screen (tile ?g))"
    using triple_key [OF Cons.prems(1)] by blast
  have "small_tiles (fold game_key (take n keys) ?g)" if "n \<le> length keys" for n
    using Cons.prems(3) [rule_format, of "Suc n"] that by simp
  then obtain ys where "play_calls lit keys ?g = Some ys" "triple (on_screen (tile ?g)) ys (on_screen (tile (fold game_key keys ?g)))"
    using Cons.IH [of ?g] game_key_ok [OF Cons.prems(1)] Cons.prems(2) by auto
  then show ?case using xs triple_seq [OF xs(2)] by simp
qed

lemma triple_game:
  assumes "phase (main_2048 keys) \<noteq> Ended" "\<forall>n \<le> length keys. small_tiles (main_2048 (take n keys))"
  shows "\<exists>xs. game_calls lit hz keys = Some xs \<and> triple (scr 15 {} []) xs (on_screen (tile (main_2048 keys)))"
proof -
  have m: "main_2048 ks = fold game_key ks first_game" for ks by (simp add: main_2048_def first_game_def)
  have g: "game_ok first_game" unfolding first_game_def by (rule start_game_ok)
  have small: "small_tiles (fold game_key (take n keys) first_game)" if "n \<le> length keys" for n using assms(2) that by (simp add: m)
  have ph: "phase first_game \<noteq> Ended" using ended_stays assms(1) by (auto simp: m)
  have s0: "small_tiles first_game" using small [of 0] by simp
  have e: "phase (fold game_key keys first_game) \<noteq> Ended" using assms(1) by (simp add: m)
  obtain ss where ss: "start_calls lit first_game = Some ss" "triple (scr 15 {} []) ss (on_screen (tile first_game))"
    using triple_start [OF g s0] by blast
  obtain ks where ks: "play_calls lit keys first_game = Some ks" "triple (on_screen (tile first_game)) ks (on_screen (tile (main_2048 keys)))"
    using triple_play [OF g e] small unfolding m by blast
  have "draws [text_call (esc ''e'' @ esc ''c'')] [Save, Wipe]" by (rule draws_text) (simp_all add: esc_def bytes_of_def)
  moreover have "scr 15 {} [] (fold stroke_draw [Save, Wipe] S)" if "scr 15 {} [] S" for S using that by (simp add: scr_def)
  ultimately have wipe: "triple (scr 15 {} []) [text_call (esc ''e'' @ esc ''c'')] (scr 15 {} [])" unfolding triple_def by blast
  have "draws [text_call (esc ''1s'' @ esc ''2s'')] [Mode 1, Mode 2]" by (rule draws_text) (simp_all add: esc_def dec_simps)
  moreover have "fold stroke_draw [Mode 1, Mode 2] S = S" for S by simp
  ultimately have modes: "triple (scr 15 {} []) [text_call (esc ''1s'' @ esc ''2s'')] (scr 15 {} [])" unfolding triple_def by metis
  have "game_calls lit hz keys = Some ([text_call (esc ''e'' @ esc ''c'')] @ print_border hz @ [text_call (esc ''1s'' @ esc ''2s'')]
      @ ss @ prompt_calls lit first_game @ ks)"
    using ss(1) ks(1) by (simp add: game_calls_def)
  moreover have "triple (scr 15 {} []) ([text_call (esc ''e'' @ esc ''c'')] @ print_border hz @ [text_call (esc ''1s'' @ esc ''2s'')]
      @ ss @ prompt_calls lit first_game @ ks) (on_screen (tile (main_2048 keys)))"
    by (intro triple_seq [OF wipe] triple_seq [OF triple_border] triple_seq [OF modes] triple_seq [OF ss(2)] triple_seq [OF triple_prompt] ph ks(2))
  ultimately show ?thesis by blast
qed

subsection \<open>A game of one key\<close>

lemma first_randoms: "random 0xC0FFEE = 1819017207" "random 1819017207 = 3056992251" "random 3056992251 = 3675979773" "random 3675979773 = 3985473534"
    "random 3985473534 = 4140220415" "random 4140220415 = 4217593855"
  by (simp_all add: random_def Let_def)

lemma field_indices: "[0..<16] = [0, 1, 2, 3, 4, 5, 6, 7, 8, 9, 10, 11, 12, 13, 14, 15 :: nat]" "[0..<6] = [0, 1, 2, 3, 4, 5 :: nat]" by code_simp+

lemma empty_board: "replicate 16 (0 :: int) = [0, 0, 0, 0, 0, 0, 0, 0, 0, 0, 0, 0, 0, 0, 0, 0]" by code_simp

lemma left_pairs: "pass_pairs L = [(0, 1), (1, 2), (2, 3), (4, 5), (5, 6), (6, 7), (8, 9), (9, 10), (10, 11), (12, 13), (13, 14), (14, 15)]" by code_simp

lemma first_tile: "place_tile (replicate 16 0, 0xC0FFEE) = ([0, 0, 0, 0, 0, 0, 0, 0, 0, 0, 0, 2, 0, 0, 0, 0], 3056992251)"
  by (simp add: place_tile_def Let_def first_randoms empty_tiles_def field_indices empty_board del: upt_rec_numeral)

lemma second_tile: "place_tile ([0, 0, 0, 0, 0, 0, 0, 0, 0, 0, 0, 2, 0, 0, 0, 0], 3056992251) = ([0, 0, 0, 0, 0, 0, 0, 0, 0, 2, 0, 2, 0, 0, 0, 0], 3985473534)"
  by (simp add: place_tile_def Let_def first_randoms empty_tiles_def field_indices)

lemma left_passes: "shift_pass L [0, 0, 0, 0, 0, 0, 0, 0, 0, 2, 0, 2, 0, 0, 0, 0] = [0, 0, 0, 0, 0, 0, 0, 0, 2, 0, 2, 0, 0, 0, 0, 0]"
    "shift_pass L [0, 0, 0, 0, 0, 0, 0, 0, 2, 0, 2, 0, 0, 0, 0, 0] = [0, 0, 0, 0, 0, 0, 0, 0, 2, 2, 0, 0, 0, 0, 0, 0]"
    "shift_pass L [0, 0, 0, 0, 0, 0, 0, 0, 2, 2, 0, 0, 0, 0, 0, 0] = [0, 0, 0, 0, 0, 0, 0, 0, 2, 2, 0, 0, 0, 0, 0, 0]"
    "shift_pass L [0, 0, 0, 0, 0, 0, 0, 0, 4, 0, 0, 0, 0, 0, 0, 0] = [0, 0, 0, 0, 0, 0, 0, 0, 4, 0, 0, 0, 0, 0, 0, 0]"
  unfolding shift_pass_def left_pairs by (simp_all add: shift_cell_def)

lemma left_merge: "fold merge_cell (pass_pairs L) ([0, 0, 0, 0, 0, 0, 0, 0, 2, 2, 0, 0, 0, 0, 0, 0], 0) = ([0, 0, 0, 0, 0, 0, 0, 0, 4, 0, 0, 0, 0, 0, 0, 0], 4)"
  unfolding left_pairs by (simp add: merge_cell_def)

lemma left_move: "move_tile L [0, 0, 0, 0, 0, 0, 0, 0, 0, 2, 0, 2, 0, 0, 0, 0] = ([0, 0, 0, 0, 0, 0, 0, 0, 4, 0, 0, 0, 0, 0, 0, 0], 4)"
  unfolding move_tile_def field_indices by (simp add: left_passes left_merge del: pass_pairs.simps)

lemma third_tile: "place_tile ([0, 0, 0, 0, 0, 0, 0, 0, 4, 0, 0, 0, 0, 0, 0, 0], 3985473534) = ([0, 0, 0, 0, 0, 0, 0, 0, 4, 0, 0, 2, 0, 0, 0, 0], 4217593855)"
  by (simp add: place_tile_def Let_def first_randoms empty_tiles_def field_indices)

lemma not_over: "0 \<in> set t \<Longrightarrow> length t = 16 \<Longrightarrow> check_end t = (False, t)" by (simp add: check_end_eq)

lemma game_before: "main_2048 [] = \<lparr>tile = [0, 0, 0, 0, 0, 0, 0, 0, 0, 2, 0, 2, 0, 0, 0, 0], score = 0, reached = False, lfsr = 3985473534, phase = Playing\<rparr>"
  by (simp add: main_2048_def start_game_def first_tile second_tile loop_test_def not_over)

lemma game_after: "main_2048 [97] = \<lparr>tile = [0, 0, 0, 0, 0, 0, 0, 0, 4, 0, 0, 2, 0, 0, 0, 0], score = 4, reached = False, lfsr = 4217593855, phase = Playing\<rparr>"
proof -
  have "main_2048 [97] = game_key 97 (main_2048 [])" by (simp add: main_2048_def)
  then show ?thesis by (simp add: game_before game_key_def play_key_def get_key_def left_move third_tile loop_test_def not_over)
qed

subsection \<open>What the player sees\<close>

text \<open>
  C23: What the player sees. Let the game print on a terminal that is not inside an escape sequence and
  has the standard colours, and let keys be pressed so that no tile above 4096 appears and the game is
  not left. Then every call of printf has a format that printf understands, and the text the calls
  send, run through the escape sequences and the cursor of the terminal driver, leaves a screen where
  every field of the board shows its tile: the number, centred, in the colours of the tile, in the
  third of five rows of ten characters, and blanks around it. Borders, instructions and the score never
  touch a field.
\<close>

theorem screen_shows_board:
  assumes "idle t s" "sattr (abs_screen t s) = 15" "phase (main_2048 keys) \<noteq> Ended"
    "\<forall>n \<le> length keys. small_tiles (main_2048 (take n keys))"
  shows "\<exists>xs bs. game_calls lit hz keys = Some xs \<and> (\<forall>(fs, as) \<in> set xs. \<forall>p \<in> set fs. piece_ok p) \<and> calls_text xs = Some bs
    \<and> shows_board (abs_screen t (write_bytes bs t s)) (tile (main_2048 keys))"
proof -
  obtain xs where xs: "game_calls lit hz keys = Some xs" "triple (scr 15 {} []) xs (on_screen (tile (main_2048 keys)))"
    using triple_game [of keys lit hz] assms(3,4) by blast
  then obtain ps where ps: "draws xs ps" "\<And>S. scr 15 {} [] S \<Longrightarrow> on_screen (tile (main_2048 keys)) (fold stroke_draw ps S)"
    unfolding triple_def by blast
  have "scr 15 {} [] (abs_screen t s)" using assms(2) by (simp add: scr_def abs_screen_def cells_of_def)
  note S = ps(2) [OF this]
  have "abs_screen t (write_bytes (bytes_drawn ps) t s) = fold stroke_draw ps (abs_screen t s)"
    using strokes_draw [OF assms(1)] ps(1) by (simp add: draws_def)
  then have "shows_board (abs_screen t (write_bytes (bytes_drawn ps) t s)) (tile (main_2048 keys))"
    using S by (simp add: scr_def shows_board_def)
  then show ?thesis using xs(1) ps(1) unfolding draws_def by blast
qed

theorem screen_shows_board_witness:
  "\<exists>xs bs. game_calls (\<lambda>_. 0) 0 [97] = Some xs \<and> (\<forall>(fs, as) \<in> set xs. \<forall>p \<in> set fs. piece_ok p) \<and> calls_text xs = Some bs
    \<and> shows_board (abs_screen 0 (write_bytes bs 0 (init_term (boot_sys (\<lambda>_. 0))))) [0, 0, 0, 0, 0, 0, 0, 0, 4, 0, 0, 2, 0, 0, 0, 0]"
proof -
  let ?s = "init_term (boot_sys (\<lambda>_. 0))"
  have T: "tm 0 ?s = term_zero\<lparr>video_buffer := 0xB9000, video_mem := VIDEO, attr := 15\<rparr>"
    by (subst init_term_terms) (simp_all add: boot_sys_def)
  have s: "idle 0 ?s" "sattr (abs_screen 0 ?s) = 15" using boot_sys_ok by (simp_all add: idle_def abs_screen_def T term_zero_def)
  have "small_tiles (main_2048 (take n [97]))" if "n \<le> length [97 :: byte]" for n
    using that by (cases n) (simp_all add: small_tiles_def game_before game_after)
  then show ?thesis using screen_shows_board [OF s, of "[97]"] by (simp add: game_after)
qed

end
