(* ===== verification/User_Heap.thy ===== *)
theory User_Heap
  imports User_Io Printf_Io
begin

text \<open>
  The parts of the user programs' library that allocate (\<^verbatim>\<open>ece391support.c\<close>: \<^verbatim>\<open>ece391_calloc\<close>,
  \<^verbatim>\<open>ece391_strdup\<close>), over an allocator: the locale \<open>allocator\<close> states what they rely on, and the kernel's
  \<^verbatim>\<open>malloc\<close> on the page of the process provides it.
\<close>

text \<open>
  Neither routine tests the result of \<^verbatim>\<open>malloc\<close>. The page of address 0 is not mapped, so the first store
  through a null pointer is a page fault, and the routine does not return: \<open>None\<close>.
\<close>

definition ece391_calloc :: "'s sys \<Rightarrow> (nat \<Rightarrow> 's \<Rightarrow> addr \<times> 's) \<Rightarrow> nat \<Rightarrow> 's \<Rightarrow> (addr \<times> 's) option" where
  "ece391_calloc S malloc bytes s =
     (case malloc bytes s of (ptr, s1) \<Rightarrow>
        if ptr = 0 \<and> 0 < bytes then None
        else Some (ptr, fold (\<lambda>i. poke_user S (ptr + i) 0) [0..<bytes] s1))"

definition ece391_strdup :: "'s sys \<Rightarrow> (nat \<Rightarrow> 's \<Rightarrow> addr \<times> 's) \<Rightarrow> addr \<Rightarrow> 's \<Rightarrow> (addr \<times> 's) option" where
  "ece391_strdup S malloc str s =
     do { len \<leftarrow> ece391_strlen (s_mem S s) str;
          case malloc (u32 (len + 1)) s of (new_str, s1) \<Rightarrow>
            if new_str = 0 then None
            else do { m \<leftarrow> ece391_strcpy (s_mem S s1) new_str str;
                      Some (new_str, poke_user S (new_str + len) 0 (s_store S m s1)) } }"

text \<open>The kernel's \<^verbatim>\<open>malloc\<close>.\<close>

definition user_malloc :: "nat \<Rightarrow> 'a user \<Rightarrow> addr \<times> 'a user" where
  "user_malloc sz u = (case sys_malloc sz (uk u) of (p, k) \<Rightarrow> (p, u\<lparr>uk := k\<rparr>))"

subsection \<open>Over any allocator\<close>

text \<open>
  \<open>meta\<close>: the bytes in which the allocator keeps its table, \<open>heap\<close>: those it gives out, \<open>held s\<close>: those
  of the objects that are in use.
\<close>

locale allocator = user_memory S for S :: "'s sys" +
  fixes malloc :: "nat \<Rightarrow> 's \<Rightarrow> addr \<times> 's" and ready :: "'s \<Rightarrow> bool" and meta heap :: "addr set" and held :: "'s \<Rightarrow> addr set"
  assumes malloc_law: "ready s \<Longrightarrow> malloc n s = (p, s') \<Longrightarrow>
      (\<forall>x. x \<notin> meta \<longrightarrow> s_mem S s' x = s_mem S s x) \<and> (p \<noteq> 0 \<longrightarrow> {p..<p + n} \<subseteq> heap - meta - held s)"
begin

lemma calloc_zeroes:
  assumes "ready s" "ece391_calloc S malloc n s = Some (p, s')" "0 < n"
  shows "p \<noteq> 0 \<and> (\<forall>x \<in> {p..<p + n}. s_mem S s' x = 0) \<and> {p..<p + n} \<inter> held s = {}
    \<and> (\<forall>x. x \<notin> meta \<and> x \<notin> {p..<p + n} \<longrightarrow> s_mem S s' x = s_mem S s x)"
proof -
  obtain q s1 where m: "malloc n s = (q, s1)" by fastforce
  have e: "q = p" "p \<noteq> 0" "s' = fold (\<lambda>i. poke_user S (p + i) 0) [0..<n] s1"
    using assms(2,3) m by (auto simp: ece391_calloc_def split: if_splits)
  note law = malloc_law [OF assms(1) m, unfolded e(1)]
  have "s_mem S (fold (\<lambda>i. poke_user S (p + i) 0) [0..<k] s1) x = (if p \<le> x \<and> x < p + k then 0 else s_mem S s1 x)" for k x
    by (induction k) auto
  then show ?thesis using law e(2) unfolding e(3) by auto
qed

lemma strdup_copies:
  assumes "ready s" "cstr (s_mem S s) str xs" "length xs < 4294967295" "{str..str + length xs} \<inter> (meta \<union> (heap - held s)) = {}"
    "malloc (length xs + 1) s = (p, s1)"
  shows "(p = 0 \<longrightarrow> ece391_strdup S malloc str s = None)
    \<and> (p \<noteq> 0 \<longrightarrow> (\<exists>s'. ece391_strdup S malloc str s = Some (p, s')
         \<and> cstr (s_mem S s') p xs \<and> cstr (s_mem S s') str xs \<and> {p..p + length xs} \<inter> held s = {}
         \<and> (\<forall>x. x \<notin> meta \<and> x \<notin> {p..p + length xs} \<longrightarrow> s_mem S s' x = s_mem S s x)))"
proof -
  let ?n = "length xs" and ?M = "s_mem S"
  note m = assms(5) and law = malloc_law [OF assms(1,5)]
  have len: "ece391_strlen (?M s) str = Some ?n" using assms(3) by (intro ece391_strlen_cstr [OF assms(2)]) simp
  have null: "ece391_strdup S malloc str s = None" if "p = 0"
    using that len m assms(3) by (simp add: ece391_strdup_def u32_id)
  have away: "str + i \<notin> meta" "str + i \<notin> heap - held s" if "i \<le> ?n" for i
  proof -
    have "str + i \<in> {str..str + ?n}" using that by simp
    then show "str + i \<notin> meta" "str + i \<notin> heap - held s" using assms(4) by blast+
  qed
  then have src: "cstr (?M s1) str xs" using law by (intro cstr_cong [OF assms(2)]) auto
  have copy: "\<exists>s'. ece391_strdup S malloc str s = Some (p, s')
         \<and> cstr (?M s') p xs \<and> cstr (?M s') str xs \<and> {p..p + ?n} \<inter> held s = {}
         \<and> (\<forall>x. x \<notin> meta \<and> x \<notin> {p..p + ?n} \<longrightarrow> ?M s' x = ?M s x)" if p: "p \<noteq> 0"
  proof -
    have "{p..p + ?n} = {p..<p + (?n + 1)}" by auto
    then have new: "{p..p + ?n} \<subseteq> heap - meta - held s" using law p by simp
    have off: "str + i < p \<or> p + ?n < str + i" if "i \<le> ?n" for i
    proof (rule ccontr)
      assume "\<not> (str + i < p \<or> p + ?n < str + i)"
      then have "str + i \<in> {p..p + ?n}" by simp
      then show False using new away [OF that] by blast
    qed
    have apart: "p < str \<or> str + ?n < p"
    proof (rule ccontr)
      assume n: "\<not> (p < str \<or> str + ?n < p)"
      then have "p - str \<le> ?n" "str + (p - str) = p" by linarith+
      then show False using off [of "p - str"] by simp
    qed
    let ?m = "store_list (?M s1) p (xs @ [0])" and ?s = "poke_user S (p + ?n) 0 (s_store S (store_list (?M s1) p (xs @ [0])) s1)"
    have cp: "ece391_strcpy (?M s1) p str = Some ?m" by (rule ece391_strcpy_cstr [OF src apart])
    have run: "ece391_strdup S malloc str s = Some (p, ?s)"
      using len m cp assms(3) p by (simp add: ece391_strdup_def u32_id)
    have mem: "?M ?s = ?m"
      using nth_append [of xs "[0]" ?n] by (auto simp: mem_store store_list_def fun_eq_iff)
    have "cstr (?M ?s) p xs" using src unfolding mem by (intro cstr_store) (simp add: cstr_def)
    moreover have "cstr (?M ?s) str xs" using off unfolding mem by (intro cstr_cong [OF src] store_list_other) force
    moreover have "\<forall>x. x \<notin> meta \<and> x \<notin> {p..p + ?n} \<longrightarrow> ?M ?s x = ?M s x" unfolding mem using law by (auto simp: store_list_def)
    ultimately show ?thesis using run new by blast
  qed
  show ?thesis using null copy by blast
qed

end


subsection \<open>The kernel's allocator\<close>

text \<open>What \<^verbatim>\<open>malloc\<close> changes in the table: entries up to one behind the last.\<close>

lemma malloc_objs_frame:
  assumes "syscall_malloc sz h = (p, h')" "obj_count h + 1 < j"
  shows "malloc_objs h' j = malloc_objs h j"
proof -
  have "obj_count h + 1 < j \<Longrightarrow> malloc_objs (snd (malloc_loop n h i q)) j = malloc_objs h j" for n i q and h :: malloc_heap
    by (induction n h i q rule: malloc_loop.induct, subst malloc_loop.simps)
      (auto simp: Let_def malloc_split_def malloc_shift_eq)
  from this [of h sz 0 HEAP_START] assms(2) show ?thesis using assms(1) by (simp add: syscall_malloc_def)
qed

lemma store_load_obj: "store_obj m i (load_obj m i) = m"
proof -
  let ?a = "unat (m (MALLOC_HEAP_MAP_START + 2 * i))" and ?b = "unat (m (MALLOC_HEAP_MAP_START + 2 * i + 1))"
  have ab: "?a < 256" "?b < 256" using unsigned_less [of "m (MALLOC_HEAP_MAP_START + 2 * i)"] unsigned_less [of "m (MALLOC_HEAP_MAP_START + 2 * i + 1)"] by simp_all
  have v: "of_bool (odd (?a + 256 * ?b)) + 2 * ((?a + 256 * ?b) div 2) = ?a + 256 * ?b" by (simp add: odd_two_times_div_two_nat)
  have "word_of_nat (?a + 256 * ?b) = m (MALLOC_HEAP_MAP_START + 2 * i)" by (simp add: word_of_nat_byte_add del: of_nat_add of_nat_mult)
  moreover have "(?a + 256 * ?b) div 256 = ?b" using ab(1) by simp
  ultimately show ?thesis
    unfolding store_obj_def load_obj_def Let_def malloc_obj_t.simps v by (simp del: of_nat_add of_nat_mult)
qed

lemma sys_malloc_frame:
  assumes "sys_malloc sz k = (p, k')" "malloc_obj_count (pcbs k (cur k)) < 2047" "a < MALLOC_HEAP_MAP_START \<or> HEAP_START \<le> a"
  shows "mem k' a = mem k a"
proof -
  obtain h' where h: "syscall_malloc sz (proc_heap k) = (p, h')" "k' = put_heap h' k"
    using assms(1) by (auto simp: sys_malloc_def split: prod.splits)
  show ?thesis
  proof (cases "MALLOC_HEAP_MAP_START \<le> a \<and> a < TASK_VIRT_PAGE_END")
    case False
    then show ?thesis by (auto simp: h(2) put_heap_def)
  next
    case True
    then have "2048 \<le> (a - MALLOC_HEAP_MAP_START) div 2" using assms(3) by (simp add: HEAP_START_def)
    then have "malloc_objs h' ((a - MALLOC_HEAP_MAP_START) div 2) = load_obj (mem k) ((a - MALLOC_HEAP_MAP_START) div 2)"
      using malloc_objs_frame [OF h(1)] assms(2) by (simp add: proc_heap_def)
    then show ?thesis using True by (simp add: h(2) put_heap_def Let_def store_load_obj)
  qed
qed


text \<open>A process whose heap is consistent and whose table has room.\<close>

definition heap_ready :: "'a user \<Rightarrow> bool" where
  "heap_ready u \<longleftrightarrow> heap_ok (proc_heap (uk u)) \<and> malloc_obj_count (pcbs (uk u) (cur (uk u))) < 2047"

definition held_bytes :: "'a user \<Rightarrow> addr set" where
  "held_bytes u = (\<Union>(q, m) \<in> set (live (proc_heap (uk u))). {q..<q + m})"

interpretation kheap: allocator "kernel_sys run" user_malloc heap_ready "{MALLOC_HEAP_MAP_START..<HEAP_START}"
    "{HEAP_START..<HEAP_START + 256 * 1024}" held_bytes
  for run :: "'a children"
proof
  fix u u' :: "'a user" and n p
  assume r: "heap_ready u" and m: "user_malloc n u = (p, u')"
  let ?h = "proc_heap (uk u)"
  obtain k' where k: "sys_malloc n (uk u) = (p, k')" "u' = u\<lparr>uk := k'\<rparr>" using m by (auto simp: user_malloc_def split: prod.splits)
  obtain h' where h: "syscall_malloc n ?h = (p, h')" using k(1) by (auto simp: sys_malloc_def split: prod.splits)
  have "\<forall>x. x \<notin> {MALLOC_HEAP_MAP_START..<HEAP_START} \<longrightarrow> mem k' x = mem (uk u) x"
    using sys_malloc_frame [OF k(1)] r by (auto simp: heap_ready_def)
  moreover have "{p..<p + n} \<subseteq> {HEAP_START..<HEAP_START + 256 * 1024} - {MALLOC_HEAP_MAP_START..<HEAP_START} - held_bytes u" if "p \<noteq> 0"
  proof -
    obtain l where l: "n \<le> l" "HEAP_START \<le> p" "p + l \<le> HEAP_START + 256 * 1024" "\<forall>r \<in> set (live ?h). apart (p, l) r"
      using malloc_result [OF _ h] r \<open>p \<noteq> 0\<close> by (auto simp: heap_ready_def)
    have "{p..<p + n} \<inter> held_bytes u = {}" using l(1,4) by (fastforce simp: held_bytes_def apart_def)
    then show ?thesis using l(1-3) by auto
  qed
  ultimately show "(\<forall>x. x \<notin> {MALLOC_HEAP_MAP_START..<HEAP_START} \<longrightarrow> s_mem (kernel_sys run) u' x = s_mem (kernel_sys run) u x)
      \<and> (p \<noteq> 0 \<longrightarrow> {p..<p + n} \<subseteq> {HEAP_START..<HEAP_START + 256 * 1024} - {MALLOC_HEAP_MAP_START..<HEAP_START} - held_bytes u)"
    by (simp add: k(2))
qed

subsection \<open>On the kernel\<close>

text \<open>\<^verbatim>\<open>ece391_calloc\<close>, when it returns, has cleared the new object and touched no other.\<close>

lemma user_calloc_zeroes:
  assumes "heap_ready u" "ece391_calloc (kernel_sys run) user_malloc n u = Some (p, u')" "0 < n"
  shows "p \<noteq> 0 \<and> (\<forall>x \<in> {p..<p + n}. mem (uk u') x = 0) \<and> {p..<p + n} \<inter> held_bytes u = {}"
  using kheap.calloc_zeroes [OF assms] by simp

text \<open>
  C36: \<^verbatim>\<open>ece391_strdup\<close> on the kernel's heap, for a string of the process that lies in an object it holds
  or outside the heap. When \<^verbatim>\<open>malloc\<close> gives an object, the function returns it with a copy of the
  string, in bytes that belong to no object in use; the string itself is unchanged, and so is every
  byte outside the new object and the table of the heap. When the heap is exhausted, the function
  does not return: it writes through the null pointer.
\<close>

theorem user_strdup_copies:
  assumes "heap_ready u" "cstr (mem (uk u)) str xs" "length xs < 4294967295"
    "{str..str + length xs} \<inter> ({MALLOC_HEAP_MAP_START..<HEAP_START} \<union> ({HEAP_START..<HEAP_START + 256 * 1024} - held_bytes u)) = {}"
    "user_malloc (length xs + 1) u = (p, u1)"
  shows "(p = 0 \<longrightarrow> ece391_strdup (kernel_sys run) user_malloc str u = None)
    \<and> (p \<noteq> 0 \<longrightarrow> (\<exists>u'. ece391_strdup (kernel_sys run) user_malloc str u = Some (p, u')
         \<and> cstr (mem (uk u')) p xs \<and> cstr (mem (uk u')) str xs \<and> {p..p + length xs} \<inter> held_bytes u = {}
         \<and> (\<forall>x. x \<notin> {MALLOC_HEAP_MAP_START..<HEAP_START} \<and> x \<notin> {p..p + length xs} \<longrightarrow> mem (uk u') x = mem (uk u) x)))"
  using kheap.strdup_copies [OF assms(1) _ assms(3,4,5), of run] assms(2) by simp

definition demo_dup :: "unit user" where
  "demo_dup = demo_user\<lparr>uk := (uk demo_user)\<lparr>mem := (\<lambda>_. 0)(0x80000CD := 64, 0x8100000 := 104, 0x8100001 := 105),
     pcbs := (\<lambda>_. pcb_zero\<lparr>malloc_obj_count := 1\<rparr>)\<rparr>\<rparr>"

theorem user_strdup_copies_witness:
  "\<exists>u'. ece391_strdup (kernel_sys no_children) user_malloc 0x8100000 demo_dup = Some (HEAP_START, u')
     \<and> cstr (mem (uk u')) HEAP_START [104, 105]"
proof -
  let ?k = "uk demo_dup"
  have c: "cstr (mem ?k) 0x8100000 [104, 105]" by (simp add: demo_dup_def demo_user_def cstr_def load_list_def)
  have o: "load_obj (mem ?k) 0 = \<lparr>obj_used = False, obj_size = 8192\<rparr>" by (simp add: load_obj_def demo_dup_def demo_user_def)
  have n: "malloc_obj_count (pcbs ?k (cur ?k)) = 1" by (simp add: demo_dup_def)
  have r: "heap_ready demo_dup" by (simp add: heap_ready_def n heap_ok_def proc_heap_def blocks_def o)
  have "fst (syscall_malloc 3 (proc_heap ?k)) = HEAP_START"
    by (simp add: syscall_malloc_def malloc_loop.simps proc_heap_def n o Let_def)
  then have "fst (user_malloc 3 demo_dup) = HEAP_START" by (simp add: user_malloc_def sys_malloc_def split_beta)
  moreover have "length [104, 105 :: byte] + 1 = 3" by simp
  ultimately obtain u1 where m: "user_malloc (length [104, 105 :: byte] + 1) demo_dup = (HEAP_START, u1)" by (metis prod.collapse)
  have away: "{0x8100000..0x8100000 + length [104, 105 :: byte]} \<inter> ({MALLOC_HEAP_MAP_START..<HEAP_START}
      \<union> ({HEAP_START..<HEAP_START + 256 * 1024} - held_bytes demo_dup)) = {}"
    by (auto simp: HEAP_START_def)
  have "HEAP_START \<noteq> 0" by (simp add: HEAP_START_def)
  then show ?thesis using user_strdup_copies [OF r c _ away m, of no_children] by auto
qed

end
