(* ===== verification/Console.thy ===== *)
theory Console
  imports User_Heap Draw
begin

text \<open>
  Programs that talk to their user: the kernel delivers a line typed with any editing keys to a program
  that reads descriptor 0, and prints what it writes. The locale \<open>line_io\<close> is the interface, with the
  lines still to be typed; the kernel provides it for keys that arrive while the program waits. On it
  rest \<^verbatim>\<open>hello\<close>, \<^verbatim>\<open>counter\<close> and the shell.
\<close>

text \<open>Keys that edit a line: not Enter, not a switch of the terminal, not the interrupt key.\<close>

definition editing_key :: "key_t \<Rightarrow> bool" where
  "editing_key k \<longleftrightarrow> typing_key k \<and> \<not> (modifiers k = MOD_CTRL \<and> key k = 99)"

text \<open>The line that keys leave behind, and the interrupts that typing it with Enter means.\<close>

definition typed :: "key_t list \<Rightarrow> byte list" where
  "typed ks = (case fold (\<lambda>k. edit_key k False True) ks ([], []) of (pre, post) \<Rightarrow> pre @ post)"

definition key_irqs :: "key_t list \<Rightarrow> ('a proc_sys_scheme \<Rightarrow> 'a proc_sys_scheme) list" where
  "key_irqs ks = map term_key_handler ks @ [term_key_handler (key_R KEY_ENTER)]"

text \<open>A terminal in line mode, on screen, with an empty line and outside an escape sequence.\<close>

definition console :: "nat \<Rightarrow> 'a term_sys_scheme \<Rightarrow> bool" where
  "console t s \<longleftrightarrow> idle t s \<and> t = cur_term_ind s \<and> \<not> term_canon (tm t s) \<and> \<not> term_read_done (tm t s) \<and> abs_line (tm t s) = ([], [])"

lemma console_idle: "console t s \<Longrightarrow> idle t s"
  unfolding console_def by blast

lemma console_cong:
  assumes "console t s" "terms s' = terms s" "cur_term_ind s' = cur_term_ind s" "cur_term s' < 3"
  shows "console t s'"
  using assms(1) sys_ok_cong [OF assms(2-4)] unfolding console_def idle_def assms(2,3) by blast

subsection \<open>Typing\<close>

lemma typing_keeps:
  assumes "sys_ok s" "t = cur_term_ind s" "\<not> term_canon (tm t s)" "editing_key k"
  shows "keeps t (s\<lparr>cur_term := t\<rparr>) (term_key_handler k s)"
proof -
  let ?s = "s\<lparr>cur_term := cur_term_ind s\<rparr>"
  have ok: "sys_ok ?s" "cur_term ?s = t" "ready t ?s" "t < 3" using assms(1,2) by (simp_all add: sys_ok_def ready_def)
  have step: "keeps t ?s s'" if "line_step t ?s s' z" for s' z
  proof -
    have e: "edits t ?s s'" "sys_ok s'" using that sys_ok_line_step [OF ok(1,4) that] by (simp_all add: line_step_def)
    then show ?thesis using edits_fields [OF e(1)] by (simp add: keeps_def local_to_def edits_def)
  qed
  have k: "typing_key k" "modifiers k = MOD_CTRL \<longrightarrow> key k \<noteq> 99" using assms(4) by (auto simp: editing_key_def)
  have ctrl: "keeps t ?s (term_ctrl x ?s)" if "x \<noteq> 109" "x \<noteq> 99" for x
    using step term_ctrl_line [of ?s x] ok(2,3) that by (metis (no_types))
  have alt: "keeps t ?s (term_alt x ?s)" if "x \<noteq> KEY_F1" "x \<noteq> KEY_F2" "x \<noteq> KEY_F3" for x
    using step term_alt_line [of ?s x] ok(2,3) that by (metis (no_types))
  have ins: "keeps t ?s (addch x t ?s)" for x using step addch_line [OF ok(3)] by blast
  have canon: "\<not> term_canon (tm (cur_term ?s) ?s)" using assms(2,3) by simp
  have "keeps t ?s (term_key_handler k s)"
    using k canon unfolding term_key_handler_def Let_def typing_key_def ok(2)
    by (simp add: ctrl alt ins keeps_refl [OF ok(1)])
  then show ?thesis using assms(2) by simp
qed

lemma typing_all_keeps:
  assumes "sys_ok s" "t = cur_term_ind s" "\<not> term_canon (tm t s)" "\<forall>k \<in> set ks. editing_key k"
  shows "keeps t (s\<lparr>cur_term := t\<rparr>) ((fold term_key_handler ks s)\<lparr>cur_term := t\<rparr>)"
  using assms
proof (induction ks arbitrary: s)
  case Nil
  then show ?case by (simp add: keeps_def sys_ok_def)
next
  case (Cons k ks)
  let ?s = "term_key_handler k s"
  have k: "keeps t (s\<lparr>cur_term := t\<rparr>) ?s" using Cons.prems by (intro typing_keeps) simp_all
  have f: "line_frame (tm t ?s) = line_frame (tm t s)" "cur_term_ind ?s = cur_term_ind s"
    using typing_step [OF Cons.prems(1-3), of k] Cons.prems(4) by (auto simp: editing_key_def)
  have "?s\<lparr>cur_term := t\<rparr> = ?s" using k by (simp add: keeps_def local_to_def)
  moreover have "keeps t (?s\<lparr>cur_term := t\<rparr>) ((fold term_key_handler ks ?s)\<lparr>cur_term := t\<rparr>)"
    using Cons.prems k f line_frame_fields(5) [OF f(1)] by (intro Cons.IH) (simp_all add: keeps_def)
  ultimately show ?case using k by (metis fold_simps(2) keeps_trans)
qed

subsection \<open>Reading the line\<close>

lemma deliver_keeps:
  fixes n :: nat
  assumes s: "sys_ok s" and t: "t < 3" and z: "abs_line (tm t s) = (pre, post)"
  defines "X \<equiv> take n (pre @ post @ [10])"
  shows "\<exists>s'. deliver buf n t s = (int (length X), s'\<lparr>mem := store_list (mem s') buf X\<rparr>) \<and> keeps t s s'
    \<and> abs_line (tm t s') = ([], []) \<and> \<not> term_read_done (tm t s') \<and> term_canon (tm t s') = term_canon (tm t s)
    \<and> esc_state (tm t s') = esc_state (tm t s)"
proof -
  let ?c = "term_buf_count (tm t s)"
  have lk: "t < length (terms s)" "line_ok (tm t s)" using s t by (auto simp: sys_ok_def)
  define s2 where "s2 = upd_term t (\<lambda>T. T\<lparr>reading := False\<rparr>) (cli s)"
  have "keeps t (cli s) s2" unfolding s2_def using s t by (intro keeps_upd) (auto simp: ok_term)
  then have k2: "keeps t s s2" by (simp add: keeps_def local_to_def)
  define s3 where "s3 = (if term_noecho (tm t s2) then s2 else putc 10 t s2)"
  have k3: "keeps t s2 s3" using k2 t keeps_putc keeps_refl by (auto simp: s3_def keeps_def)
  have t2: "t < length (terms s2)" using lk(1) by (simp add: s2_def)
  have tch: "touches t s2 s3" by (simp add: s3_def putc.draw_touches [OF t2])
  have same: "term_buf (tm t s3) = term_buf (tm t s)" "term_buf_count (tm t s3) = ?c" "term_canon (tm t s3) = term_canon (tm t s)"
    using touches_fields [OF tch] lk(1) by (simp_all add: s2_def)
  have "esc_state (tm t s3) = esc_state (tm t s2)" by (subst touches_term [OF tch]) simp
  then have esc: "esc_state (tm t s3) = esc_state (tm t s)" using lk(1) by (simp add: s2_def)
  have len: "?c = length pre + length post" "?c \<le> 127" "length (term_buf (tm t s)) = 128"
    using length_abs_line [OF lk(2)] z lk(2) by (auto simp: line_ok_def)
  define g :: "term_t \<Rightarrow> term_t" where "g T = T\<lparr>term_buf := (term_buf T)[term_buf_count T := 10], term_buf_count := 0, term_read_done := False, term_curpos := 0\<rparr>" for T
  have ok3: "sys_ok s3" "t < length (terms s3)" using k3 t by (auto simp: keeps_def sys_ok_def)
  have k4: "keeps t s3 (upd_term t g s3)"
    using ok3 t by (intro keeps_upd) (auto simp: g_def ok_term)
  have "take (Suc ?c) ((term_buf (tm t s))[?c := 10]) = pre @ post @ [10]"
    using abs_line_text [OF lk(2)] z len by (simp add: take_Suc_conv_app_nth)
  then have line: "take (min n (Suc ?c)) ((term_buf (tm t s))[?c := 10]) = X" unfolding X_def by (metis take_take)
  have X: "length X = min n (Suc ?c)" by (simp add: X_def len(1))
  have "deliver buf n t s = (int (length X), (upd_term t g s3)\<lparr>mem := store_list (mem s3) buf X\<rparr>)"
    using same(1,2) ok3(2) len(2) line unfolding deliver_def Let_def s2_def [symmetric] s3_def [symmetric] X
    by (cases "n < Suc ?c") (auto simp: u8_id min_def g_def upd_term_def)
  moreover have "keeps t s (upd_term t g s3)" using k2 k3 k4 keeps_trans by blast
  ultimately show ?thesis
    using same esc ok3(2) by (intro exI [of _ "upd_term t g s3"]) (simp add: g_def abs_line_def upd_term_def)
qed

lemma abs_line_fields: "abs_line (T\<lparr>term_read_done := b\<rparr>) = abs_line T"
  by (simp add: abs_line_def)

lemma console_reads:
  fixes n :: nat
  assumes c: "console t s" and my: "my_term s = t" and buf: "buf \<noteq> 0" and ks: "\<forall>k \<in> set ks. editing_key k"
  defines "X \<equiv> take n (typed ks @ [10])"
  shows "\<exists>s'. term_read buf n (key_irqs ks @ irqs) s = Some (int (length X), s'\<lparr>mem := store_list (mem s') buf X\<rparr>, irqs)
    \<and> keeps t (s\<lparr>cur_term := t\<rparr>) s' \<and> console t s'"
proof -
  have cs: "sys_ok s" "t < 3" "t = cur_term_ind s" "\<not> term_canon (tm t s)" "\<not> term_read_done (tm t s)" "abs_line (tm t s) = ([], [])"
    "esc_state (tm t s) = IDLE" "t < length (terms s)"
    using c by (auto simp: console_def idle_def sys_ok_def)
  define s0 where "s0 = sti (upd_term t (\<lambda>T. T\<lparr>reading := True\<rparr>) s)"
  have s0: "sys_ok s0" "t = cur_term_ind s0" "\<not> term_canon (tm t s0)" "reading (tm t s0)" "\<not> term_read_done (tm t s0)"
    "abs_line (tm t s0) = ([], [])" "esc_state (tm t s0) = IDLE"
    using cs by (auto simp: s0_def ok_term nth_list_update abs_line_def)
  define s1 where "s1 = fold term_key_handler ks s0"
  have ty: "\<forall>k \<in> set ks. typing_key k" using ks by (simp add: editing_key_def)
  note typed = typing_line [OF s0(1-5) ty, of "term_key_handler (key_R KEY_ENTER) # irqs", folded s1_def]
  have s1: "sys_ok s1" "t = cur_term_ind s1" "\<not> term_canon (tm t s1)" "\<not> term_read_done (tm t s1)" "esc_state (tm t s1) = IDLE"
    using typed s0 line_frame_fields [of "tm t s1" "tm t s0"] by auto
  define s2 where "s2 = upd_term t (\<lambda>T. T\<lparr>term_read_done := True\<rparr>) (s1\<lparr>cur_term := t\<rparr>)"
  have l1: "t < length (terms s1)" using s1(1) cs(2) by (simp add: sys_ok_def)
  have wait: "hlt_until (\<lambda>s. term_read_done (tm t s)) (key_irqs ks @ irqs) s0 = Some (s2, irqs)"
    using typed enter_step [OF s1(1-3)] s1(4) l1 by (simp add: key_irqs_def hlt_until_wait s2_def)
  have a: "keeps t (s0\<lparr>cur_term := t\<rparr>) (s1\<lparr>cur_term := t\<rparr>)" unfolding s1_def by (rule typing_all_keeps [OF s0(1-3) ks])
  then have "keeps t (s1\<lparr>cur_term := t\<rparr>) s2" unfolding s2_def using cs(2) by (intro keeps_upd) (auto simp: keeps_def ok_term)
  note k2 = keeps_trans [OF a this]
  obtain pre post where z: "fold (\<lambda>k. edit_key k False True) ks ([], []) = (pre, post)" by fastforce
  have ok2: "sys_ok s2" using k2 by (simp add: keeps_def)
  have s2: "abs_line (tm t s2) = (pre, post)" "term_canon (tm t s2) = term_canon (tm t s1)" "esc_state (tm t s2) = IDLE"
    using typed z s0(6) l1 s1(5) by (simp_all add: s2_def abs_line_fields)
  have X: "X = take n (pre @ post @ [10])" by (simp add: X_def typed_def z)
  obtain s' where d: "deliver buf n t s2 = (int (length X), s'\<lparr>mem := store_list (mem s') buf X\<rparr>)" "keeps t s2 s'"
    "abs_line (tm t s') = ([], [])" "\<not> term_read_done (tm t s')" "term_canon (tm t s') = term_canon (tm t s2)" "esc_state (tm t s') = IDLE"
    using deliver_keeps [OF ok2 cs(2) s2(1), of buf n] s2(3) unfolding X by auto
  have rd: "term_read buf n (key_irqs ks @ irqs) s = Some (int (length X), s'\<lparr>mem := store_list (mem s') buf X\<rparr>, irqs)"
    using wait cs(4) buf d(1) by (simp add: term_read_def Let_def s0_def my)
  have "keeps t (s\<lparr>cur_term := t\<rparr>) (s0\<lparr>cur_term := t\<rparr>)"
  proof -
    have "keeps t (s\<lparr>cur_term := t\<rparr>) (upd_term t (\<lambda>T. T\<lparr>reading := True\<rparr>) (s\<lparr>cur_term := t\<rparr>))"
      using cs(1,2,8) by (intro keeps_upd) (auto simp: ok_term)
    then show ?thesis by (simp add: s0_def keeps_def local_to_def sys_ok_def)
  qed
  then have k: "keeps t (s\<lparr>cur_term := t\<rparr>) s'" using k2 d(2) keeps_trans by blast
  have "console t s'" using k d(3-6) s2(2) s1(3) cs(2,3) by (simp add: console_def idle_def keeps_def local_to_def)
  then show ?thesis using rd k by blast
qed

subsection \<open>The interface\<close>

text \<open>
  \<open>looks s ls ot\<close>: the lines \<open>ls\<close> are still to be typed, and \<open>ot\<close> has been written so far. A read gives
  the next line, with its newline, cut to the length asked for, as long as the output so far is \<open>clean\<close>
  (has not changed the mode of the terminal).
\<close>

locale line_io = out_io S lo hi looks
  for S :: "'s sys" and lo hi :: nat and looks :: "'s \<Rightarrow> byte list list \<Rightarrow> byte list \<Rightarrow> bool" +
  fixes clean :: "byte list \<Rightarrow> bool"
  assumes clean_prefix: "clean (xs @ ys) \<Longrightarrow> clean xs"
    and line_law: "looks s (l # ls) ot \<Longrightarrow> clean ot \<Longrightarrow> 0 < a \<Longrightarrow> lo \<le> a \<Longrightarrow> a + n \<le> hi \<Longrightarrow>
      \<exists>s'. ece391_read S 0 a n s = Some (int (length (take n (l @ [10]))), s') \<and> looks s' ls ot
        \<and> (\<forall>x. lo \<le> x \<and> x < hi \<longrightarrow> s_mem S s' x = store_list (s_mem S s) a (take n (l @ [10])) x)"

text \<open>The programs' strings, away from their buffer at \<open>buf\<close>.\<close>

definition strings_ok :: "nat \<Rightarrow> nat \<Rightarrow> addr \<Rightarrow> (string \<Rightarrow> addr) \<Rightarrow> string list \<Rightarrow> mem \<Rightarrow> bool" where
  "strings_ok lo hi buf lit xs m \<longleftrightarrow> 0 < lo \<and> lo \<le> buf \<and> buf + 1025 \<le> hi \<and> (\<forall>x \<in> set xs. str_in lo hi buf m (lit x) (bytes_of x))"

definition shell_strings :: "string list" where
  "shell_strings = [nl ''Starting 391 Shell'', ''391OS> '', ''exit'', nl ''no such command'', nl ''program terminated by exception'',
     nl ''program terminated abnormally'']"

definition report_text :: "int \<Rightarrow> byte list" where
  "report_text v = (if v = -1 then bytes_of (nl ''no such command'') else if v = 256 then bytes_of (nl ''program terminated by exception'')
     else if v \<noteq> 0 then bytes_of (nl ''program terminated abnormally'') else [])"

text \<open>What the shell and its child print for one command.\<close>

definition session :: "(byte list \<Rightarrow> int \<times> byte list) \<Rightarrow> byte list \<Rightarrow> byte list" where
  "session child c = bytes_of ''391OS> '' @ (if c = [] then [] else snd (child c) @ report_text (fst (child c)))"

text \<open>
  What the shell needs of \<^verbatim>\<open>execute\<close>: for the commands \<open>cmds\<close> the child returns and prints as \<open>child\<close> says and
  leaves the page of the shell alone.
\<close>

definition runs_children :: "'s sys \<Rightarrow> nat \<Rightarrow> nat \<Rightarrow> ('s \<Rightarrow> 'r \<Rightarrow> byte list \<Rightarrow> bool) \<Rightarrow> byte list set \<Rightarrow> (byte list \<Rightarrow> int \<times> byte list) \<Rightarrow> bool" where
  "runs_children S lo hi looks cmds child \<longleftrightarrow>
     (\<forall>s r ot a. \<forall>c \<in> cmds. looks s r ot \<and> cstr (s_mem S s) a c \<and> lo \<le> a \<and> a + length c < hi \<longrightarrow>
        (\<exists>s'. ece391_execute S a s = Some (fst (child c), s') \<and> looks s' r (ot @ snd (child c))
           \<and> (\<forall>x. lo \<le> x \<and> x < hi \<longrightarrow> s_mem S s' x = s_mem S s x)))"

lemma ece391_itoa_digits:
  assumes "2 \<le> r" "r \<le> 36" "n < 4294967296"
  shows "ece391_itoa m n buf (int r) = Some (store_list m buf (ascii_digits r n @ [0]))"
proof -
  have "ece391_itoa m n buf (int r) = itoa m n buf (int r)"
  proof (cases "n = 0")
    case False
    let ?d = "map (\<lambda>d. lookup ! d) (ldigits r n)"
    have "to_u32 (int r) = r" using assms(1,2) by (simp add: to_u32_def)
    moreover have "0 \<notin> set ?d" using cstr_ascii_digits [OF assms(1,2), of n] False by (simp add: ascii_digits_def)
    then have "cstr ((store_list m buf ?d)(buf + length ?d := 0)) buf ?d" using cstr_store [of ?d] by (simp add: store_list_snoc)
    moreover have "length ?d < 2 ^ 31" using length_ldigits_u32 [OF assms(1,3)] by simp
    ultimately show ?thesis using itoa_loop_digits [OF assms(1,2), of m buf n] ece391_strrev_cstr
      by (simp add: ece391_itoa_def itoa_def)
  qed (simp add: ece391_itoa_def itoa_def)
  then show ?thesis using itoa_spec [OF assms] by simp
qed

context line_io
begin

lemma poke_law:
  assumes "looks s r ot" "lo \<le> a" "a < hi"
  shows "looks (poke_user S a c s) r ot" "s_mem S (poke_user S a c s) = (s_mem S s)(a := c)"
  using store_law [OF assms(1), of "(s_mem S s)(a := c)"] assms(2,3) by (simp_all add: poke_user_def)

text \<open>Reading a line into the buffer and ending it there.\<close>

lemma read_line:
  assumes "looks s (l # ls) ot" "clean ot" "strings_ok lo hi buf lit strs (s_mem S s)" "length l < 1023" "0 \<notin> set l"
  shows "\<exists>s1. ece391_read S 0 buf 1023 s = Some (int (length l) + 1, s1) \<and> looks s1 ls ot
    \<and> s_mem S s1 (buf + length l) = 10
    \<and> (\<forall>k \<in> {length l, length l + 1}. looks (poke_user S (buf + k) 0 s1) ls ot
         \<and> cstr (s_mem S (poke_user S (buf + k) 0 s1)) buf (take k (l @ [10]))
         \<and> strings_ok lo hi buf lit strs (s_mem S (poke_user S (buf + k) 0 s1)))"
proof -
  let ?n = "length l"
  have b: "0 < buf" "lo \<le> buf" "buf + 1025 \<le> hi" using assms(3) by (simp_all add: strings_ok_def)
  obtain s1 where s1: "ece391_read S 0 buf 1023 s = Some (int (?n + 1), s1)" "looks s1 ls ot"
    "\<forall>x. lo \<le> x \<and> x < hi \<longrightarrow> s_mem S s1 x = store_list (s_mem S s) buf (l @ [10]) x"
    using line_law [OF assms(1,2) b(1,2), of 1023] b(3) assms(4) by auto
  have m: "s_mem S s1 (buf + i) = (l @ [10]) ! i" if "i \<le> ?n" for i
    using s1(3) that b assms(4) by (simp add: store_list_def)
  have k: "looks (poke_user S (buf + k) 0 s1) ls ot" "cstr (s_mem S (poke_user S (buf + k) 0 s1)) buf (take k (l @ [10]))"
    "strings_ok lo hi buf lit strs (s_mem S (poke_user S (buf + k) 0 s1))" if k: "k \<le> ?n + 1" for k
  proof -
    have kb: "lo \<le> buf + k" "buf + k < hi" using b k assms(4) by simp_all
    note p = poke_law [OF s1(2) kb, of 0]
    show "looks (poke_user S (buf + k) 0 s1) ls ot" by (rule p(1))
    have "load_list ((s_mem S s1)(buf + k := 0)) buf k = take k (l @ [10])"
      by (rule nth_equalityI) (use k m in \<open>auto simp: min_def simp del: take_append\<close>)
    then show "cstr (s_mem S (poke_user S (buf + k) 0 s1)) buf (take k (l @ [10]))"
      using k assms(5) unfolding p(2) by (auto simp: cstr_def min_def dest: in_set_takeD)
    let ?m = "(s_mem S s1)(buf + k := 0)"
    have e: "?m y = s_mem S s y" if "lo \<le> y" "y < hi" "y < buf \<or> buf + 1025 \<le> y" for y
      using s1(3) that k assms(4) by (auto simp: store_list_def)
    have "str_in lo hi buf ?m (lit x) (bytes_of x)" if x: "x \<in> set strs" for x
    proof -
      have "str_in lo hi buf (s_mem S s) (lit x) (bytes_of x)" using assms(3) x by (simp add: strings_ok_def)
      then show ?thesis using e by (rule str_in_cong)
    qed
    then show "strings_ok lo hi buf lit strs (s_mem S (poke_user S (buf + k) 0 s1))" using assms(3) by (simp add: p(2) strings_ok_def)
  qed
  have "\<forall>k \<in> {?n, ?n + 1}. looks (poke_user S (buf + k) 0 s1) ls ot
      \<and> cstr (s_mem S (poke_user S (buf + k) 0 s1)) buf (take k (l @ [10]))
      \<and> strings_ok lo hi buf lit strs (s_mem S (poke_user S (buf + k) 0 s1))"
  proof
    fix j assume "j \<in> {?n, ?n + 1}"
    then have "j \<le> ?n + 1" by auto
    then show "looks (poke_user S (buf + j) 0 s1) ls ot \<and> cstr (s_mem S (poke_user S (buf + j) 0 s1)) buf (take j (l @ [10]))
        \<and> strings_ok lo hi buf lit strs (s_mem S (poke_user S (buf + j) 0 s1))" using k by blast
  qed
  moreover have "s_mem S s1 (buf + ?n) = 10" using m [of ?n] by simp
  moreover have "ece391_read S 0 buf 1023 s = Some (int ?n + 1, s1)" using s1(1) by (simp add: add.commute)
  ultimately show ?thesis using s1(2) by blast
qed

lemma strings_same:
  assumes "strings_ok lo hi buf lit strs m" "\<forall>x. lo \<le> x \<and> x < hi \<longrightarrow> m' x = m x"
  shows "strings_ok lo hi buf lit strs m'"
  using assms str_in_cong [of buf m _ _ m'] by (auto simp: strings_ok_def)

lemma put_string:
  assumes "looks s r ot" "strings_ok lo hi buf lit strs (s_mem S s)" "x \<in> set strs"
  shows "\<exists>s'. ece391_fdputs S 1 (lit x) s = Some s' \<and> looks s' r (ot @ bytes_of x) \<and> strings_ok lo hi buf lit strs (s_mem S s')
    \<and> (\<forall>x. lo \<le> x \<and> x < hi \<longrightarrow> s_mem S s' x = s_mem S s x)"
proof -
  have "str_in lo hi buf (s_mem S s) (lit x) (bytes_of x)" using assms(2,3) by (simp add: strings_ok_def)
  from str_puts [OF assms(1) this] show ?thesis using strings_same [OF assms(2)] by auto
qed

text \<open>\<^verbatim>\<open>hello\<close>.\<close>

lemma hello_law:
  assumes "looks s (l # ls) ot" "clean (ot @ bytes_of ''Hi, what's your name? '')" "length l < 1023" "0 \<notin> set l"
    "strings_ok lo hi buf lit [''Hi, what's your name? '', ''Hello, ''] (s_mem S s)"
  shows "\<exists>s'. hello_main S lit buf s = Some (0, s') \<and> looks s' ls (ot @ bytes_of ''Hi, what's your name? '' @ bytes_of ''Hello, '' @ l @ [10])"
proof -
  let ?n = "length l" and ?x = "''Hi, what's your name? ''"
  have b: "lo \<le> buf" "buf + 1025 \<le> hi" using assms(5) by (simp_all add: strings_ok_def)
  obtain s1 where s1: "ece391_fdputs S 1 (lit ?x) s = Some s1" "looks s1 (l # ls) (ot @ bytes_of ?x)"
    "strings_ok lo hi buf lit [?x, ''Hello, ''] (s_mem S s1)"
    using put_string [OF assms(1,5), of ?x] by auto
  obtain s2 where s2: "ece391_read S 0 buf 1023 s1 = Some (int ?n + 1, s2)"
    "\<forall>k \<in> {?n, ?n + 1}. looks (poke_user S (buf + k) 0 s2) ls (ot @ bytes_of ?x)
       \<and> cstr (s_mem S (poke_user S (buf + k) 0 s2)) buf (take k (l @ [10]))
       \<and> strings_ok lo hi buf lit [?x, ''Hello, ''] (s_mem S (poke_user S (buf + k) 0 s2))"
    using read_line [OF s1(2) assms(2) s1(3) assms(3,4)] by blast
  define s3 where "s3 = poke_user S (buf + (?n + 1)) 0 s2"
  have s3: "looks s3 ls (ot @ bytes_of ?x)" "cstr (s_mem S s3) buf (l @ [10])" "strings_ok lo hi buf lit [?x, ''Hello, ''] (s_mem S s3)"
    using s2(2) by (simp_all add: s3_def)
  obtain s4 where s4: "ece391_fdputs S 1 (lit ''Hello, '') s3 = Some s4" "looks s4 ls ((ot @ bytes_of ?x) @ bytes_of ''Hello, '')"
    "\<forall>x. lo \<le> x \<and> x < hi \<longrightarrow> s_mem S s4 x = s_mem S s3 x"
    using put_string [OF s3(1,3), of "''Hello, ''"] by auto
  have c4: "cstr (s_mem S s4) buf (l @ [10])" using s4(3) b assms(3) by (intro cstr_cong [OF s3(2)]) simp
  have "buf + length (l @ [10]) < hi" using b(2) assms(3) by simp
  then obtain s5 where s5: "ece391_fdputs S 1 buf s4 = Some s5" "looks s5 ls (((ot @ bytes_of ?x) @ bytes_of ''Hello, '') @ l @ [10])"
    using puts_law [OF s4(2) c4 b(1)] by blast
  have "nat (int ?n + 1) = ?n + 1" by simp
  then show ?thesis using s1(1) s2(1) s4(1) s5 by (intro exI [of _ s5]) (simp add: hello_main_def s3_def)
qed

end

subsection \<open>The shell and the counter\<close>

definition count_menu :: string where
  "count_menu = nl ''Enter the Test Number: (0): 100, (1): 10000, (2): 100000''"

context line_io
begin

lemma report_law:
  assumes "looks s r ot" "strings_ok lo hi buf lit shell_strings (s_mem S s)"
  shows "\<exists>s'. shell_report S lit v s = Some s' \<and> looks s' r (ot @ report_text v) \<and> strings_ok lo hi buf lit shell_strings (s_mem S s')"
proof -
  have "\<exists>s'. ece391_fdputs S 1 (lit x) s = Some s' \<and> looks s' r (ot @ bytes_of x) \<and> strings_ok lo hi buf lit shell_strings (s_mem S s')"
    if "x \<in> set shell_strings" for x
    using put_string [OF assms that] by blast
  then show ?thesis using assms unfolding shell_report_def report_text_def shell_strings_def by auto
qed

lemma command_read:
  assumes "looks s (c # ls) ot" "clean (ot @ bytes_of ''391OS> '')" "strings_ok lo hi buf lit shell_strings (s_mem S s)" "length c < 1023" "0 \<notin> set c"
  shows "\<exists>s3. looks s3 ls (ot @ bytes_of ''391OS> '') \<and> cstr (s_mem S s3) buf c \<and> strings_ok lo hi buf lit shell_strings (s_mem S s3)
    \<and> shell_loop S lit buf s =
        (if c = bytes_of ''exit'' then Some (0, s3)
         else if c = [] then shell_loop S lit buf s3
         else do { (rval, s4) \<leftarrow> ece391_execute S buf s3; s5 \<leftarrow> shell_report S lit rval s4; shell_loop S lit buf s5 })"
proof -
  let ?n = "length c" and ?p = "bytes_of ''391OS> ''"
  have sh: "''391OS> '' \<in> set shell_strings" "''exit'' \<in> set shell_strings" by (simp_all add: shell_strings_def)
  obtain s1 where s1: "ece391_fdputs S 1 (lit ''391OS> '') s = Some s1" "looks s1 (c # ls) (ot @ ?p)"
    "strings_ok lo hi buf lit shell_strings (s_mem S s1)"
    using put_string [OF assms(1,3) sh(1)] by blast
  obtain s2 where s2: "ece391_read S 0 buf 1023 s1 = Some (int ?n + 1, s2)" "s_mem S s2 (buf + ?n) = 10"
    "\<forall>k \<in> {?n, ?n + 1}. looks (poke_user S (buf + k) 0 s2) ls (ot @ ?p)
       \<and> cstr (s_mem S (poke_user S (buf + k) 0 s2)) buf (take k (c @ [10]))
       \<and> strings_ok lo hi buf lit shell_strings (s_mem S (poke_user S (buf + k) 0 s2))"
    using read_line [OF s1(2) assms(2) s1(3) assms(4,5)] by blast
  define s3 where "s3 = poke_user S (buf + ?n) 0 s2"
  have s3: "looks s3 ls (ot @ ?p)" "cstr (s_mem S s3) buf c" "strings_ok lo hi buf lit shell_strings (s_mem S s3)"
    using s2(3) by (simp_all add: s3_def)
  have "cstr (s_mem S s3) (lit ''exit'') (bytes_of ''exit'')" using s3(3) sh(2) by (simp add: strings_ok_def str_in_def)
  from ece391_strcmp_cstr [OF s3(2) this] obtain v where v: "ece391_strcmp (s_mem S s3) buf (lit ''exit'') = Some v" "v = 0 \<longleftrightarrow> c = bytes_of ''exit''"
    by blast
  have e: "s_mem S s3 buf = 0 \<longleftrightarrow> c = []"
    using s3(2) by (cases c) (auto simp: cstr_def load_list_Suc)
  have i: "nat (int ?n + 1 - 1) = ?n" by simp
  have "shell_loop S lit buf s =
        (if v = 0 then Some (0, s3)
         else if s_mem S s3 buf = 0 then shell_loop S lit buf s3
         else do { (rval, s4) \<leftarrow> ece391_execute S buf s3; s5 \<leftarrow> shell_report S lit rval s4; shell_loop S lit buf s5 })"
    by (subst shell_loop.simps) (simp add: s1(1) s2(1,2) i s3_def [symmetric] v(1))
  then have "shell_loop S lit buf s =
        (if c = bytes_of ''exit'' then Some (0, s3)
         else if c = [] then shell_loop S lit buf s3
         else do { (rval, s4) \<leftarrow> ece391_execute S buf s3; s5 \<leftarrow> shell_report S lit rval s4; shell_loop S lit buf s5 })"
    unfolding v(2) e .
  then show ?thesis using s3 by blast
qed

lemma shell_law:
  assumes "runs_children S lo hi looks (set cmds) child"
    "looks s (cmds @ bytes_of ''exit'' # ls) ot" "strings_ok lo hi buf lit shell_strings (s_mem S s)"
    "\<forall>c \<in> set cmds. length c < 1023 \<and> 0 \<notin> set c \<and> c \<noteq> bytes_of ''exit''"
    "clean (ot @ concat (map (session child) cmds) @ bytes_of ''391OS> '')"
  shows "\<exists>s'. shell_loop S lit buf s = Some (0, s') \<and> looks s' ls (ot @ concat (map (session child) cmds) @ bytes_of ''391OS> '')"
  using assms
proof (induction cmds arbitrary: s ot)
  case Nil
  have "length (bytes_of ''exit'') < 1023" "0 \<notin> set (bytes_of ''exit'')" by (simp_all add: bytes_of_def)
  from command_read [OF _ _ Nil(3) this] Nil(2,5) show ?case by auto
next
  case (Cons c cmds)
  let ?p = "bytes_of ''391OS> ''"
  have rest: "runs_children S lo hi looks (set cmds) child" using Cons.prems(1) unfolding runs_children_def by simp
  have c: "length c < 1023" "0 \<notin> set c" "c \<noteq> bytes_of ''exit''" using Cons.prems(4) by auto
  have "clean (ot @ ?p)"
    using Cons.prems(5) clean_prefix [of "ot @ ?p"] by (simp add: session_def)
  then obtain s3 where s3: "looks s3 (cmds @ bytes_of ''exit'' # ls) (ot @ ?p)" "cstr (s_mem S s3) buf c"
    "strings_ok lo hi buf lit shell_strings (s_mem S s3)"
    "shell_loop S lit buf s = (if c = [] then shell_loop S lit buf s3
         else do { (rval, s4) \<leftarrow> ece391_execute S buf s3; s5 \<leftarrow> shell_report S lit rval s4; shell_loop S lit buf s5 })"
    using command_read [OF _ _ Cons.prems(3) c(1,2)] Cons.prems(2) c(3) by auto
  have b: "lo \<le> buf" "buf + length c < hi" using s3(3) c(1) by (simp_all add: strings_ok_def)
  show ?case
  proof (cases "c = []")
    case True
    then have sc: "session child c = ?p" "session child [] = ?p" by (simp_all add: session_def)
    have "\<exists>s'. shell_loop S lit buf s3 = Some (0, s') \<and> looks s' ls ((ot @ ?p) @ concat (map (session child) cmds) @ ?p)"
      using Cons.prems(4,5) rest s3(1,3) by (intro Cons.IH) (simp_all add: sc)
    then show ?thesis using s3(4) True by (simp add: sc)
  next
    case False
    obtain s4 where s4: "ece391_execute S buf s3 = Some (fst (child c), s4)" "looks s4 (cmds @ bytes_of ''exit'' # ls) ((ot @ ?p) @ snd (child c))"
      "\<forall>x. lo \<le> x \<and> x < hi \<longrightarrow> s_mem S s4 x = s_mem S s3 x"
      using Cons.prems(1) list.set_intros(1) [of c cmds] s3(1,2) b unfolding runs_children_def by blast
    obtain s5 where s5: "shell_report S lit (fst (child c)) s4 = Some s5"
      "looks s5 (cmds @ bytes_of ''exit'' # ls) (((ot @ ?p) @ snd (child c)) @ report_text (fst (child c)))"
      "strings_ok lo hi buf lit shell_strings (s_mem S s5)"
      using report_law [OF s4(2) strings_same [OF s3(3) s4(3)]] by blast
    have sc: "session child c = ?p @ snd (child c) @ report_text (fst (child c))" using False by (simp add: session_def)
    have "\<exists>s'. shell_loop S lit buf s5 = Some (0, s')
        \<and> looks s' ls ((((ot @ ?p) @ snd (child c)) @ report_text (fst (child c))) @ concat (map (session child) cmds) @ ?p)"
      using Cons.prems(4,5) rest s5(2,3) by (intro Cons.IH) (simp_all add: sc)
    then show ?thesis using s3(4) s4(1) s5(1) False by (simp add: sc)
  qed
qed

text \<open>The whole program.\<close>

lemma shell_main_law:
  assumes "runs_children S lo hi looks (set cmds) child"
    "looks s (cmds @ bytes_of ''exit'' # ls) ot" "strings_ok lo hi buf lit shell_strings (s_mem S s)"
    "\<forall>c \<in> set cmds. length c < 1023 \<and> 0 \<notin> set c \<and> c \<noteq> bytes_of ''exit''"
    "clean (ot @ bytes_of (nl ''Starting 391 Shell'') @ concat (map (session child) cmds) @ bytes_of ''391OS> '')"
  shows "\<exists>s'. shell_main S lit buf s = Some (0, s')
    \<and> looks s' ls (ot @ bytes_of (nl ''Starting 391 Shell'') @ concat (map (session child) cmds) @ bytes_of ''391OS> '')"
proof -
  have "nl ''Starting 391 Shell'' \<in> set shell_strings" by (simp add: shell_strings_def)
  from put_string [OF assms(2,3) this] obtain s1 where s1: "ece391_fdputs S 1 (lit (nl ''Starting 391 Shell'')) s = Some s1"
    "looks s1 (cmds @ bytes_of ''exit'' # ls) (ot @ bytes_of (nl ''Starting 391 Shell''))" "strings_ok lo hi buf lit shell_strings (s_mem S s1)"
    by blast
  show ?thesis using shell_law [OF assms(1) s1(2,3) assms(4)] assms(5) s1(1) by (simp add: shell_main_def)
qed

text \<open>\<^verbatim>\<open>counter\<close> prints the numbers, each on a line.\<close>

lemma count_loop_law:
  assumes "looks s r ot" "strings_ok lo hi buf lit [nl []] (s_mem S s)" "i + n < 1000000"
  shows "\<exists>s'. count_loop S lit buf i n s = Some s' \<and> looks s' r (ot @ concat (map (\<lambda>j. ascii_digits 10 j @ [10]) [i + 1..<i + n + 1]))"
  using assms
proof (induction n arbitrary: i s ot)
  case 0
  then show ?case by simp
next
  case (Suc n)
  let ?d = "ascii_digits 10 (i + 1)"
  let ?m = "store_list (s_mem S s) buf (?d @ [0])"
  have b: "lo \<le> buf" "buf + 1025 \<le> hi" using Suc.prems(2) by (simp_all add: strings_ok_def)
  have l: "length ?d \<le> 6" using length_ldigits_le [of 10 "i + 1" 6] Suc.prems(3) by (simp add: ascii_digits_def)
  have it: "ece391_itoa (s_mem S s) (i + 1) buf 10 = Some ?m" using ece391_itoa_digits [of 10 "i + 1" "s_mem S s" buf] Suc.prems(3) by simp
  have out: "\<forall>x. x < lo \<or> hi \<le> x \<longrightarrow> ?m x = s_mem S s x" using b l by (auto simp: store_list_def)
  have st: "looks (s_store S ?m s) r ot" "s_mem S (s_store S ?m s) = ?m" using store_law [OF Suc.prems(1) out] by simp_all
  have c: "cstr (s_mem S (s_store S ?m s)) buf ?d" using cstr_ascii_digits [of 10 "i + 1"] st by (simp add: cstr_store)
  have lt: "buf + length ?d < hi" using b l by simp
  obtain s1 where s1: "ece391_fdputs S 1 buf (s_store S ?m s) = Some s1" "looks s1 r (ot @ ?d)"
    "\<forall>x. lo \<le> x \<and> x < hi \<longrightarrow> s_mem S s1 x = ?m x"
    using puts_law [OF st(1) c b(1) lt] unfolding st(2) by blast
  have "str_in lo hi buf (s_mem S s1) (lit (nl [])) (bytes_of (nl []))"
  proof (rule str_in_cong)
    show "str_in lo hi buf (s_mem S s) (lit (nl [])) (bytes_of (nl []))" using Suc.prems(2) by (simp add: strings_ok_def)
    show "s_mem S s1 x = s_mem S s x" if "lo \<le> x" "x < hi" "x < buf \<or> buf + 1025 \<le> x" for x
      using s1(3) that l by (auto simp: store_list_def)
  qed
  then have ok: "strings_ok lo hi buf lit [nl []] (s_mem S s1)" using Suc.prems(2) by (simp add: strings_ok_def)
  obtain s2 where s2: "ece391_fdputs S 1 (lit (nl [])) s1 = Some s2" "looks s2 r ((ot @ ?d) @ bytes_of (nl []))"
    "strings_ok lo hi buf lit [nl []] (s_mem S s2)"
    using put_string [OF s1(2) ok] by auto
  have n: "bytes_of (nl []) = [10]" by (simp add: bytes_of_def)
  have "i + 1 + n < 1000000" using Suc.prems(3) by simp
  from Suc.IH [OF s2(2,3) this] obtain s' where s': "count_loop S lit buf (i + 1) n s2 = Some s'"
    "looks s' r (((ot @ ?d) @ [10]) @ concat (map (\<lambda>j. ascii_digits 10 j @ [10]) [i + 1 + 1..<i + 1 + n + 1]))"
    unfolding n by blast
  have u: "[i + 1..<i + Suc n + 1] = (i + 1) # [i + 1 + 1..<i + 1 + n + 1]" by (simp add: upt_conv_Cons del: upt_Suc)
  show ?case unfolding u using it s1(1) s2(1) s' by (intro exI [of _ s']) simp
qed

lemma counter_law:
  assumes "looks s ([d] # ls) ot" "clean (ot @ bytes_of count_menu)" "d \<in> {48, 49, 50}"
    "strings_ok lo hi buf lit [count_menu, nl []] (s_mem S s)"
  shows "\<exists>s'. counter_main S lit buf s = Some (0, s')
    \<and> looks s' ls (ot @ bytes_of count_menu @ concat (map (\<lambda>j. ascii_digits 10 j @ [10]) [1..<counter_max d + 1]))"
proof -
  let ?strs = "[count_menu, nl []]"
  obtain s1 where s1: "ece391_fdputs S 1 (lit count_menu) s = Some s1" "looks s1 ([d] # ls) (ot @ bytes_of count_menu)"
    "strings_ok lo hi buf lit ?strs (s_mem S s1)"
    using put_string [OF assms(1,4), of count_menu] by auto
  have "length [d] < 1023" "0 \<notin> set [d]" using assms(3) by auto
  from read_line [OF s1(2) assms(2) s1(3) this] obtain s2 where s2: "ece391_read S 0 buf 1023 s1 = Some (2, s2)"
    "\<forall>k \<in> {1, 2}. looks (poke_user S (buf + k) 0 s2) ls (ot @ bytes_of count_menu)
       \<and> cstr (s_mem S (poke_user S (buf + k) 0 s2)) buf (take k ([d] @ [10]))
       \<and> strings_ok lo hi buf lit ?strs (s_mem S (poke_user S (buf + k) 0 s2))"
    by auto
  define s3 where "s3 = poke_user S (buf + 2) 0 s2"
  have s3: "looks s3 ls (ot @ bytes_of count_menu)" "cstr (s_mem S s3) buf [d, 10]" "strings_ok lo hi buf lit ?strs (s_mem S s3)"
    using s2(2) by (simp_all add: s3_def)
  have len: "ece391_strlen (s_mem S s3) buf = Some 2" using ece391_strlen_cstr [OF s3(2)] by simp
  have m: "s_mem S s3 buf = d" using s3(2) by (simp add: cstr_def load_list_Suc numeral_2_eq_2)
  have "strings_ok lo hi buf lit [nl []] (s_mem S s3)" "0 + counter_max d < 1000000"
    using s3(3) by (auto simp: strings_ok_def counter_max_def)
  from count_loop_law [OF s3(1) this] obtain s4 where s4: "count_loop S lit buf 0 (counter_max d) s3 = Some s4"
    "looks s4 ls ((ot @ bytes_of count_menu) @ concat (map (\<lambda>j. ascii_digits 10 j @ [10]) [1..<counter_max d + 1]))" by auto
  have "\<not> (d < 48 \<or> d > 50)" using assms(3) by auto
  moreover have "to_u32 2 = 2" by (simp add: to_u32_def)
  ultimately show ?thesis
    using s1(1) s2(1) s4 len m by (intro exI [of _ s4]) (simp add: counter_main_def count_menu_def s3_def Let_def)
qed

end

subsection \<open>The kernel provides it\<close>

text \<open>
  Descriptor 0 is the terminal, the terminal of the process is on screen and at rest, and what arrives
  while the process waits are the keys of the lines.
\<close>

definition line_ready :: "'a user \<Rightarrow> byte list list \<Rightarrow> bool" where
  "line_ready u ls \<longleftrightarrow>
     used (get_file (cur (uk u), 0) (uk u)) \<and> file_ops (get_file (cur (uk u), 0) (uk u)) = stdin_file_ops_table
     \<and> (27 \<notin> set (uout u) \<longrightarrow>
          console (my_term (uk u)) (uk u)
          \<and> (\<exists>kss. u_irqs u = concat (map key_irqs kss) \<and> ls = map typed kss \<and> (\<forall>ks \<in> set kss. \<forall>k \<in> set ks. editing_key k)))"

definition line_looks :: "'a user \<Rightarrow> byte list list \<Rightarrow> byte list \<Rightarrow> bool" where
  "line_looks u ls ot \<longleftrightarrow> user_ok u \<and> ot = uout u \<and> line_ready u ls"

lemma write_text_line:
  "idle t s \<Longrightarrow> 27 \<notin> set xs \<Longrightarrow> console t s \<Longrightarrow> console t (write_bytes xs t s)"
proof (induction xs arbitrary: s)
  case (Cons x xs)
  then have x: "x \<noteq> 27" "27 \<notin> set xs" by auto
  note i = idle_facts [OF Cons.prems(1)] and w = write_text_char [OF Cons.prems(1) x(1)]
  have p: "term_write_char x t s = putc x t s" using i(3,6) x(1) by (simp add: term_write_char_def esc_parse_def)
  have th: "touches t s (putc x t s)" using i(3,4) by (intro putc.draw_touches)
  have "cur_term_ind (putc x t s) = cur_term_ind s" using th by (simp add: touches_def)
  moreover have "t = cur_term_ind s" "\<not> term_canon (tm t s)" "\<not> term_read_done (tm t s)" "abs_line (tm t s) = ([], [])"
    using Cons.prems(3) unfolding console_def by blast+
  ultimately have "console t (putc x t s)"
    using w touches_fields [OF th] touches_line [OF th] unfolding p console_def by simp
  then show ?case using Cons.IH [of "putc x t s"] w x(2) unfolding p by (simp add: write_bytes_def p)
qed (simp add: write_bytes_def)


lemma term_write_bytes:
  assumes "sys_ok s" "my_term s < 3" "0xBC000 \<le> buf"
  shows "snd (term_write buf n s) = write_bytes (load_list (mem s) buf n) (my_term s) (s\<lparr>cur_term := my_term s\<rparr>)"
proof -
  let ?t = "my_term s"
  have "fold (\<lambda>i s. term_write_char (mem s (buf + i)) ?t s) is s' = write_bytes (map (\<lambda>i. mem s (buf + i)) is) ?t s'"
    if "sys_ok s'" "\<forall>a \<ge> 0xBC000. mem s' a = mem s a" for "is" s'
    using that
  proof (induction "is" arbitrary: s')
    case (Cons i "is")
    let ?s = "term_write_char (mem s (buf + i)) ?t s'"
    have k: "keeps ?t s' ?s" by (rule keeps_term_write_char [OF Cons.prems(1) assms(2)])
    have "video_mem (tm ?t s') + 4000 \<le> 0xBC000" using Cons.prems(1) assms(2) by (auto simp: sys_ok_def)
    then have "\<forall>a \<ge> 0xBC000. mem ?s a = mem s a" using k Cons.prems(2) by (auto simp: keeps_def local_to_def)
    then show ?case using Cons.IH [of ?s] k Cons.prems(2) assms(3) by (simp add: keeps_def write_bytes_def)
  qed (simp add: write_bytes_def)
  from this [of "s\<lparr>cur_term := ?t\<rparr>" "[0..<n]"] show ?thesis
    using assms(1,2) by (simp add: term_write_def Let_def sys_ok_def load_list_def)
qed

lemma line_write_law:
  assumes "line_looks u ls ot" "0x8000000 \<le> a" "a + n \<le> 0x8400000"
  shows "\<exists>u'. user_write 1 a n u = (int n, u') \<and> line_looks u' ls (ot @ load_list (mem (uk u)) a n)
    \<and> term_sys.more (uk u') = term_sys.more (uk u)
    \<and> (\<forall>x. x < 0xB8000 \<or> 0xBC000 \<le> x \<longrightarrow> mem (uk u') x = mem (uk u) x)"
proof -
  let ?k = "uk u" and ?xs = "load_list (mem (uk u)) a n"
  have l: "user_ok u" "ot = uout u" "line_ready u ls" using assms(1) by (simp_all add: line_looks_def)
  obtain u' where w: "user_write 1 a n u = (int n, u')" "pcbs (uk u') = pcbs ?k" "cur (uk u') = cur ?k" "fsg (uk u') = fsg ?k"
    "sys_ok (uk u')" "uout u' = uout u @ ?xs" "\<forall>x. x < 0xB8000 \<or> 0xBC000 \<le> x \<longrightarrow> mem (uk u') x = mem ?k x"
    using user_write_law [OF l(1) assms(2,3)] by blast
  have ok: "user_ok u'" by (rule user_ok_same [OF l(1) w(2-5)]) (simp add: w(7))
  have g: "get_file r (uk u') = get_file r ?k" "my_term (uk u') = my_term ?k" for r by (simp_all add: get_file_def my_term_def w(2,3))
  have irq: "u_irqs u' = u_irqs u" "uk u' = snd (syscall_write (u_port u) 1 a n ?k)"
    using w(1) by (auto simp: user_write_def split: prod.splits)
  have "syscall_write (u_port u) 1 a n ?k = term_write a n ?k"
    using l(1) assms(2) by (simp add: syscall_write_def fd_used_def user_ok_def)
  then have uk: "uk u' = write_bytes ?xs (my_term ?k) (?k\<lparr>cur_term := my_term ?k\<rparr>)"
    using irq(2) l(1) assms(2) term_write_bytes [of ?k a n] by (simp add: user_ok_def)
  have "console (my_term ?k) (uk u')" if c: "console (my_term ?k) ?k" "27 \<notin> set ?xs"
  proof -
    have "console (my_term ?k) (?k\<lparr>cur_term := my_term ?k\<rparr>)"
      using l(1) by (intro console_cong [OF c(1)]) (simp_all add: user_ok_def)
    then show ?thesis using write_text_line [OF console_idle c(2)] unfolding uk by blast
  qed
  then have "line_ready u' ls" using l(3) by (auto simp: line_ready_def g irq(1) w(2,3,6))
  moreover have "term_sys.more (uk u') = term_sys.more ?k"
    using keeps_write_bytes [of "?k\<lparr>cur_term := my_term ?k\<rparr>" "my_term ?k" ?xs] l(1) unfolding uk
    by (simp add: user_ok_def sys_ok_def keeps_def local_to_def)
  ultimately show ?thesis using w ok l(2) by (auto simp: line_looks_def)
qed


lemma line_read_law:
  assumes "line_looks u (l # ls) ot" "27 \<notin> set ot" "0x8000000 \<le> a" "a + n \<le> 0x8400000"
  defines "X \<equiv> take n (l @ [10])"
  shows "\<exists>u'. user_read 0 a n u = Some (int (length X), u') \<and> line_looks u' ls ot
    \<and> term_sys.more (uk u') = term_sys.more (uk u)
    \<and> (\<forall>x. x < 0xB8000 \<or> 0xBC000 \<le> x \<longrightarrow> mem (uk u') x = store_list (mem (uk u)) a X x)"
proof -
  let ?k = "uk u" and ?t = "my_term (uk u)"
  have l: "user_ok u" "ot = uout u" "line_ready u (l # ls)" using assms(1) by (simp_all add: line_looks_def)
  have "27 \<notin> set (uout u)" using l(2) assms(2) by simp
  then have "console ?t ?k \<and> (\<exists>kss. u_irqs u = concat (map key_irqs kss) \<and> l # ls = map typed kss \<and> (\<forall>ks \<in> set kss. \<forall>k \<in> set ks. editing_key k))"
    using l(3) unfolding line_ready_def by simp
  then obtain kss where kss: "console ?t ?k" "u_irqs u = concat (map key_irqs kss)" "l # ls = map typed kss"
    "\<forall>ks \<in> set kss. \<forall>k \<in> set ks. editing_key k"
    by (elim conjE exE) (rule that)
  then obtain ks kss' where ks: "kss = ks # kss'" "l = typed ks" "ls = map typed kss'" by (cases kss) auto
  have X: "X = take n (typed ks @ [10])" by (simp add: X_def ks(2))
  have "a \<noteq> 0" "\<forall>k \<in> set ks. editing_key k" using assms(3) kss(4) ks(1) by auto
  then obtain k' where k': "term_read a n (key_irqs ks @ concat (map key_irqs kss')) ?k
      = Some (int (length X), k'\<lparr>mem := store_list (mem k') a X\<rparr>, concat (map key_irqs kss'))"
    "keeps ?t (?k\<lparr>cur_term := ?t\<rparr>) k'" "console ?t k'"
    using console_reads [OF kss(1) refl, of a ks n "concat (map key_irqs kss')"] unfolding X by blast
  define k2 where "k2 = k'\<lparr>mem := store_list (mem k') a X\<rparr>"
  define u' where "u' = u\<lparr>uk := k2, u_irqs := concat (map key_irqs kss')\<rparr>"
  have more: "term_sys.more k' = term_sys.more ?k" using k'(2) by (simp add: keeps_def local_to_def)
  have fld: "pcbs k2 = pcbs ?k" "cur k2 = cur ?k" "fsg k2 = fsg ?k" using more_kernel [OF more] by (simp_all add: k2_def)
  have lX: "length X \<le> n" by (simp add: X_def)
  have "0xB8000 \<le> video_mem (tm ?t ?k)" "video_mem (tm ?t ?k) + 4000 \<le> 0xBC000"
    using l(1) by (auto simp: user_ok_def sys_ok_def)
  then have m': "\<forall>x. x < 0xB8000 \<or> 0xBC000 \<le> x \<longrightarrow> mem k' x = mem ?k x" using k'(2) by (auto simp: keeps_def local_to_def)
  then have m: "\<forall>x. x < 0xB8000 \<or> 0xBC000 \<le> x \<longrightarrow> mem k2 x = store_list (mem ?k) a X x" by (auto simp: k2_def store_list_def)
  have ok2: "sys_ok k2" using k'(2) by (simp add: k2_def keeps_def sys_ok_def)
  have "mem k2 x = mem ?k x" if "x < 0xB8000 \<or> 0xBC000 \<le> x" "x < 0x8000000" for x
    using m that assms(3) by (auto simp: store_list_def)
  then have uok: "user_ok u'" using ok2 fld by (intro user_ok_same [OF l(1)]) (simp_all add: u'_def)
  have g: "get_file r k2 = get_file r ?k" "my_term k2 = ?t" for r by (simp_all add: get_file_def my_term_def fld)
  have "console ?t k2" using ok2 by (intro console_cong [OF k'(3)]) (simp_all add: k2_def sys_ok_def)
  then have "line_ready u' ls"
    using l(3) kss(4) ks by (auto simp: line_ready_def u'_def g fld)
  moreover have "syscall_read 0 a n (u_irqs u) ?k = Some (int (length X), k2, concat (map key_irqs kss'))"
    using l(3) k'(1) kss(2) ks(1) assms(3) by (simp add: syscall_read_def fd_used_def line_ready_def k2_def)
  ultimately show ?thesis
    using uok l(2) m more by (intro exI [of _ u']) (simp add: line_looks_def user_read_def u'_def k2_def)
qed

interpretation kline: line_io "kernel_sys run" "0x8000000" "0x8400000" line_looks "\<lambda>ot. 27 \<notin> set ot"
  for run :: "'a children"
proof
  show "(0x8400000 :: nat) < 2 ^ 31" by simp
  show "27 \<notin> set xs" if "27 \<notin> set (xs @ ys)" for xs ys :: "byte list" using that by simp
next
  fix u :: "'a user" and r ot and a n :: nat
  assume l: "line_looks u r ot" and a: "0x8000000 \<le> a" "a + n \<le> 0x8400000"
  show "\<exists>u'. ece391_write (kernel_sys run) 1 a n u = (int n, u') \<and> line_looks u' r (ot @ load_list (s_mem (kernel_sys run) u) a n)
      \<and> (\<forall>x. 0x8000000 \<le> x \<and> x < 0x8400000 \<longrightarrow> s_mem (kernel_sys run) u' x = s_mem (kernel_sys run) u x)"
    using line_write_law [OF l a] by auto
next
  fix u :: "'a user" and r ot and m :: mem
  assume l: "line_looks u r ot" and m: "\<forall>x. x < 0x8000000 \<or> 0x8400000 \<le> x \<longrightarrow> m x = s_mem (kernel_sys run) u x"
  let ?u = "u\<lparr>uk := (uk u)\<lparr>mem := m\<rparr>\<rparr>"
  have ok: "user_ok u" using l by (simp add: line_looks_def)
  then have "sys_ok (uk ?u)" by (simp add: user_ok_def sys_ok_def)
  then have "user_ok ?u" using m by (intro user_ok_same [OF ok]) auto
  moreover have "console (my_term (uk u)) (uk u) \<Longrightarrow> console (my_term (uk u)) ((uk u)\<lparr>mem := m\<rparr>)"
    using ok by (elim console_cong) (simp_all add: user_ok_def sys_ok_def)
  ultimately have "line_looks ?u r ot" using l unfolding line_looks_def line_ready_def by (simp add: my_term_def get_file_def)
  then show "line_looks (s_store (kernel_sys run) m u) r ot \<and> s_mem (kernel_sys run) (s_store (kernel_sys run) m u) = m" by simp
next
  fix u :: "'a user" and ls l ot and a n :: nat
  assume l: "line_looks u (l # ls) ot" and c: "27 \<notin> set ot" and a: "0 < a" "0x8000000 \<le> a" "a + n \<le> 0x8400000"
  show "\<exists>u'. ece391_read (kernel_sys run) 0 a n u = Some (int (length (take n (l @ [10]))), u') \<and> line_looks u' ls ot
      \<and> (\<forall>x. 0x8000000 \<le> x \<and> x < 0x8400000 \<longrightarrow>
           s_mem (kernel_sys run) u' x = store_list (s_mem (kernel_sys run) u) a (take n (l @ [10])) x)"
    using line_read_law [OF l c a(2,3)] by auto
qed

subsection \<open>The programs and their user\<close>

text \<open>A line has at most 127 characters.\<close>

definition line_size :: "zipper \<Rightarrow> nat" where
  "line_size z = length (fst z) + length (snd z)"

lemma edits_size:
  "line_size (line_delete z) \<le> line_size z" "line_size (line_left z) = line_size z" "line_size (line_right z) = line_size z"
  "line_size (line_insert c z) \<le> max 127 (line_size z)"
  by (cases z; cases "snd z"; simp add: line_size_def)+

lemma edits_size_pow:
  "line_size ((line_delete ^^ n) z) \<le> line_size z" "line_size ((line_left ^^ n) z) = line_size z" "line_size ((line_right ^^ n) z) = line_size z"
  by (induction n) (simp_all add: order_trans [OF edits_size(1)] edits_size(2,3))

lemma edit_key_size: "line_size z \<le> 127 \<Longrightarrow> line_size (edit_key k False True z) \<le> 127"
proof -
  assume z: "line_size z \<le> 127"
  have c: "line_size ([], fst z @ snd z) \<le> 127" "line_size (fst z @ snd z, []) \<le> 127" "line_size ([], snd z) \<le> 127"
    using z by (simp_all add: line_size_def)
  have "line_size (edit_ctrl x z) \<le> 127" "line_size (edit_alt x z) \<le> 127" for x
    using z c edits_size(1) [of z] edits_size_pow(1) [of "run_before z" z]
    by (auto simp: edit_ctrl_def edit_alt_def edits_size(2,3) edits_size_pow(2,3))
  then show ?thesis
    using z edits_size(1) [of z] edits_size(4) [of "key k" z] by (auto simp: edit_key_def Let_def edits_size(2,3))
qed

lemma typed_length: "length (typed ks) \<le> 127"
proof -
  have "line_size (fold (\<lambda>k. edit_key k False True) ks ([], [])) \<le> 127"
    by (rule fold_preserves) (simp_all add: edit_key_size, simp add: line_size_def)
  then show ?thesis by (auto simp: typed_def line_size_def split: prod.split)
qed

text \<open>
  C16: \<^verbatim>\<open>hello\<close> greets: on the kernel, for any sequence of editing keys and then Enter, the program ends
  with status 0 and has written the question, the greeting and exactly the line as edited. Editing
  keys are all keys but Enter, the interrupt key (Control and C), which ends the program, and the keys
  that switch to another terminal (Alt and F1 to F3). The line must not contain a NUL, at which
  the greeting would stop.
\<close>

theorem hello_greets:
  assumes "line_looks u [typed ks] []" "0 \<notin> set (typed ks)"
    "strings_ok 0x8000000 0x8400000 buf lit [''Hi, what's your name? '', ''Hello, ''] (mem (uk u))"
  shows "\<exists>u'. hello_main (kernel_sys run) lit buf u = Some (0, u')
    \<and> uout u' = bytes_of ''Hi, what's your name? '' @ bytes_of ''Hello, '' @ typed ks @ [10]"
proof -
  have "27 \<notin> set ([] @ bytes_of ''Hi, what's your name? '')" by (simp add: bytes_of_def)
  moreover have "length (typed ks) < 1023" using typed_length [of ks] by simp
  ultimately show ?thesis using kline.hello_law [OF assms(1) _ _ assms(2), where lit = lit and buf = buf and run = run] assms(3) by (auto simp: line_looks_def)
qed

text \<open>\<^verbatim>\<open>counter\<close> on the kernel: for the choices 0, 1 and 2 it prints the numbers from 1 to the chosen end, each on a line.\<close>

lemma counter_counts:
  assumes "line_looks u [typed ks] []" "typed ks = [d]" "d \<in> {48, 49, 50}"
    "strings_ok 0x8000000 0x8400000 buf lit [count_menu, nl []] (mem (uk u))"
  shows "\<exists>u'. counter_main (kernel_sys run) lit buf u = Some (0, u')
    \<and> uout u' = bytes_of count_menu @ concat (map (\<lambda>j. ascii_digits 10 j @ [10]) [1..<counter_max d + 1])"
proof -
  have "27 \<notin> set ([] @ bytes_of count_menu)" by (simp add: bytes_of_def count_menu_def)
  then show ?thesis using kline.counter_law [where s = u and ls = "[]" and ot = "[]" and d = d and buf = buf and lit = lit and run = run] assms
    by (auto simp: line_looks_def)
qed

subsection \<open>An example\<close>

text \<open>A process on the terminal of the booted system, with the keys of some lines to come.\<close>

definition demo_typist :: "string list \<Rightarrow> key_t list list \<Rightarrow> unit user" where
  "demo_typist texts kss = (demo_texts texts)\<lparr>u_irqs := concat (map key_irqs kss)\<rparr>"

lemma demo_console: "console 0 (uk (demo_texts texts))"
proof -
  have T: "tm 0 (uk (demo_texts texts)) = term_zero\<lparr>video_buffer := 0xB9000, video_mem := VIDEO, attr := 15\<rparr>"
    using init_term_terms [of "boot_sys (\<lambda>_. 0)"] by (simp add: demo_texts_def demo_user_def boot_sys_def)
  have "cur_term_ind (uk (demo_texts texts)) = 0" by (simp add: demo_texts_def demo_user_def)
  then show ?thesis using demo_texts_ok(1) [of texts] unfolding console_def idle_def T by (simp add: user_ok_def term_zero_def abs_line_def)
qed

lemma demo_typist_looks:
  assumes "\<forall>ks \<in> set kss. \<forall>k \<in> set ks. editing_key k"
  shows "line_looks (demo_typist texts kss) (map typed kss) []"
proof -
  let ?u = "demo_typist texts kss" and ?k = "uk (demo_texts texts)"
  have "used (get_file (0, 0) ?k)" "file_ops (get_file (0, 0) ?k) = stdin_file_ops_table" by (simp_all add: demo_texts_files)
  moreover have "user_ok ?u" using demo_texts_ok(1) [of texts] by (simp add: demo_typist_def user_ok_def)
  ultimately show ?thesis
    using demo_console assms by (auto simp: line_looks_def line_ready_def demo_typist_def demo_texts_ok(2))
qed

lemma demo_strings:
  assumes "\<forall>t \<in> set texts. length t < 64 \<and> 0 \<notin> set (bytes_of t)" "length texts < 100" "set xs \<subseteq> set texts"
  shows "strings_ok 0x8000000 0x8400000 0x8001000 (text_at texts) xs (text_mem texts)"
proof -
  have "str_in 0x8000000 0x8400000 0x8001000 (text_mem texts) (text_at texts x) (bytes_of x)" if "x \<in> set xs" for x
  proof -
    have x: "x \<in> set texts" using that assms(3) by blast
    have "length (bytes_of x) < 64" using bspec [OF assms(1) x] by (simp add: bytes_of_def)
    then show ?thesis using text_cstr [OF x assms(1)] assms(2) by (simp add: str_in_def disjoint_ranges_def)
  qed
  then show ?thesis by (simp add: strings_ok_def)
qed

text \<open>Typing the plain characters of a text types that text.\<close>

lemma plain_key:
  assumes "x < (128 :: byte)"
  shows "editing_key (key_P x)" "edit_key (key_P x) False True z = line_insert x z"
proof -
  have x: "x \<noteq> KEY_ENTER" "x \<noteq> KEY_BACK" "x \<noteq> KEY_LEFT" "x \<noteq> KEY_RIGHT" "x < KEY_F1"
    using assms by (auto simp: key_defs elim: less_trans)
  from this(1-4) this(5) [unfolded not_le [symmetric]] show "editing_key (key_P x)" "edit_key (key_P x) False True z = line_insert x z"
    by (simp_all add: editing_key_def typing_key_def key_P_def edit_key_def MOD_CTRL_def MOD_ALT_def)
qed

lemma typed_plain:
  assumes "\<forall>x \<in> set xs. x < 128" "length xs \<le> 127"
  shows "typed (map key_P xs) = xs"
proof -
  have "\<forall>x \<in> set xs. x < 128 \<Longrightarrow> length pre + length xs \<le> 127 \<Longrightarrow>
      fold (\<lambda>k. edit_key k False True) (map key_P xs) (pre, []) = (pre @ xs, [])" for pre
    by (induction xs arbitrary: pre) (simp_all add: plain_key(2))
  from this [of "[]"] assms show ?thesis by (simp add: typed_def)
qed

lemma typed_nothing: "typed [] = []"
  by (simp add: typed_def)

definition hello_texts :: "string list" where
  "hello_texts = [''Hi, what's your name? '', ''Hello, '']"

theorem hello_greets_witness:
  "\<exists>u'. hello_main (kernel_sys no_children) (text_at hello_texts) 0x8001000
       (demo_typist hello_texts [map key_P [65, 110, 120] @ [key_R KEY_BACK] @ map key_P [110]]) = Some (0, u')
     \<and> uout u' = bytes_of ''Hi, what's your name? '' @ bytes_of ''Hello, '' @ [65, 110, 110, 10]"
proof -
  let ?ks = "map key_P [65, 110, 120] @ [key_R KEY_BACK] @ map key_P [110]"
  let ?u = "demo_typist hello_texts [?ks]"
  have bs: "editing_key (key_R KEY_BACK)" "edit_key (key_R KEY_BACK) False True z = line_delete z" for z
    by (simp_all add: editing_key_def typing_key_def key_R_def edit_key_def key_defs)
  have t: "typed ?ks = [65, 110, 110]" by (simp add: typed_def plain_key(2) bs(2))
  have "\<forall>ks \<in> set [?ks]. \<forall>k \<in> set ks. editing_key k" by (simp add: plain_key(1) bs(1))
  from demo_typist_looks [OF this, of hello_texts] have l: "line_looks ?u [typed ?ks] []" by simp
  have h: "\<forall>t \<in> set hello_texts. length t < 64 \<and> 0 \<notin> set (bytes_of t)" by code_simp
  have "strings_ok 0x8000000 0x8400000 0x8001000 (text_at hello_texts) hello_texts (text_mem hello_texts)"
    by (rule demo_strings [OF h]) (simp_all add: hello_texts_def)
  then have s: "strings_ok 0x8000000 0x8400000 0x8001000 (text_at hello_texts) [''Hi, what's your name? '', ''Hello, ''] (mem (uk ?u))"
    by (simp add: demo_typist_def hello_texts_def)
  show ?thesis using hello_greets [OF l _ s, of no_children] unfolding t by simp
qed

end
