(* ===== verification/Shell.thy ===== *)
theory Shell
  imports Console
begin

text \<open>
  The shell with the kernel's own \<^verbatim>\<open>execute\<close> and \<^verbatim>\<open>halt\<close>. The locale \<open>line_io\<close> is interpreted once more, on
  states in which the shell is a process that can start others (\<open>shell_looks\<close>); what a program does
  between its first instruction and its end is the argument \<open>c_run\<close>, and \<open>children_behave\<close> states what the
  shell needs of it.
\<close>

subsection \<open>Commands\<close>

text \<open>A command line as \<^verbatim>\<open>_syscall_execute\<close> splits it: the name and the arguments.\<close>

definition split_command :: "byte list \<Rightarrow> byte list \<times> byte list option" where
  "split_command c =
     (let name = takeWhile (\<lambda>x. 32 < sint x) c; rest = dropWhile (\<lambda>x. x = 32) (drop (length name) c)
      in (name, if rest = [] then None else Some (take (u8 (length rest)) rest)))"

text \<open>A directory entry that can be executed, and its contents.\<close>

definition program_ok :: "mem \<Rightarrow> fs_globals \<Rightarrow> dentry_t \<Rightarrow> byte list \<Rightarrow> bool" where
  "program_ok M g d bs \<longleftrightarrow>
     filetype d = FILE_TYPE_REG \<and> 0 \<le> inode_num d \<and> inode_num d < 2 ^ 31 \<and> wf_file M g (nat (inode_num d))
     \<and> file_bytes M g (nat (inode_num d)) = bs
     \<and> 28 \<le> length bs \<and> length bs \<le> TASK_VIRT_PAGE_END - TASK_IMG_START_ADDR
     \<and> take 4 bs = [0x7F, 69, 76, 70] \<and> TASK_IMG_START_ADDR \<le> entry_of bs \<and> entry_of bs < 2 ^ 31"

text \<open>The commands considered: the name is that of a program, or it is not in the directory.\<close>

definition known :: "mem \<Rightarrow> fs_globals \<Rightarrow> byte list \<Rightarrow> bool" where
  "known M g c =
     (case lookup_name M g (fst (split_command c)) of
        None \<Rightarrow> True | Some d \<Rightarrow> program_ok M g d (file_bytes M g (nat (inode_num d))))"

text \<open>
  What a command returns and prints: -1 when there is no such program, otherwise what its program does
  with its arguments (\<open>behav\<close>).
\<close>

definition outcome :: "mem \<Rightarrow> fs_globals \<Rightarrow> (byte list \<Rightarrow> byte list option \<Rightarrow> nat \<times> byte list) \<Rightarrow> byte list \<Rightarrow> int \<times> byte list" where
  "outcome M g behav c =
     (case split_command c of (name, ar) \<Rightarrow>
        case lookup_name M g name of
          None \<Rightarrow> (-1, [])
        | Some d \<Rightarrow> (case behav (file_bytes M g (nat (inode_num d))) ar of (status, xs) \<Rightarrow> (int status, xs)))"

subsection \<open>Processes\<close>

text \<open>
  The shell's process: it is in the table under its own number, its page is mapped, there is a free
  number, the local arrays of \<^verbatim>\<open>_syscall_execute\<close> have their place, and the file system is that of \<open>M\<close>.
\<close>

definition shell_proc :: "exec_locals \<Rightarrow> mem \<Rightarrow> fs_globals \<Rightarrow> 'a kernel_scheme \<Rightarrow> bool" where
  "shell_proc loc M g k \<longleftrightarrow>
     0 < cur k \<and> cur k < MAX_PROC_NUM \<and> pid (pcbs k (cur k)) = cur k \<and> user_frame k = TASK_PAGE_INDEX (cur k)
     \<and> tables_ok (ptabs k) \<and> length (pid_used k) = MAX_PROC_NUM \<and> pid_used k ! cur k \<and> find_pid (pid_used k) \<noteq> None
     \<and> (\<forall>p. length (open_files (pcbs k p)) = TASK_MAX_FILES)
     \<and> fsg k = g \<and> load32 M (bblock_ptr g) \<le> 63 \<and> dentries g = bblock_ptr g + 64
     \<and> same_image g (image_size M g) M (mem k) \<and> exec_room loc 128 k"

definition shell_looks :: "exec_locals \<Rightarrow> mem \<Rightarrow> fs_globals \<Rightarrow> 'a user \<Rightarrow> byte list list \<Rightarrow> byte list \<Rightarrow> bool" where
  "shell_looks loc M g u ls ot \<longleftrightarrow> line_looks u ls ot \<and> shell_proc loc M g (uk u)"

text \<open>
  A program has been entered: its image is in its page, its arguments are in its PCB and it has no files
  open but the terminal.
\<close>

definition entered :: "'a user \<Rightarrow> byte list \<Rightarrow> byte list option \<Rightarrow> bool" where
  "entered u bs ar \<longleftrightarrow>
     load_list (mem (uk u)) TASK_IMG_START_ADDR (length bs) = bs \<and> cmd_args (pcbs (uk u) (cur (uk u))) = ar
     \<and> (\<forall>i \<in> {2..<TASK_MAX_FILES}. \<not> used (get_file (cur (uk u), i) (uk u)))"

text \<open>
  What a program leaves alone by the time it ends: the process table, the other processes and their
  pages, and the kernel's memory apart from the screens. It has no clock open any more.
\<close>

definition leaves_alone :: "'a kernel_scheme \<Rightarrow> 'a kernel_scheme \<Rightarrow> bool" where
  "leaves_alone k k' \<longleftrightarrow>
     cur k' = cur k \<and> ptabs k' = ptabs k \<and> pid_used k' = pid_used k \<and> fsg k' = fsg k
     \<and> (\<forall>q. q \<noteq> cur k \<and> pid_used k ! q \<longrightarrow> pcbs k' q = pcbs k q \<and> frames k' (TASK_PAGE_INDEX q) = frames k (TASK_PAGE_INDEX q))
     \<and> parent (pcbs k' (cur k)) = parent (pcbs k (cur k)) \<and> pid (pcbs k' (cur k)) = pid (pcbs k (cur k))
     \<and> term_ind (pcbs k' (cur k)) = term_ind (pcbs k (cur k))
     \<and> (\<forall>p. length (open_files (pcbs k' p)) = length (open_files (pcbs k p)))
     \<and> (\<forall>a < TASK_VIRT_PAGE_BEG. a < 0xB8000 \<or> 0xBC000 \<le> a \<longrightarrow> mem k' a = mem k a)
     \<and> (\<forall>i \<in> {2..<TASK_MAX_FILES}. used (get_file (cur k, i) k') \<longrightarrow> file_ops (get_file (cur k, i) k') \<noteq> rtc_file_ops_table)"

text \<open>
  Every program of the directory that is entered ends, with the status and the output that \<open>behav\<close> gives
  for its image and arguments, leaves the rest of the system alone and the terminal in line mode with an
  empty line, and does not read from the terminal.
\<close>

definition children_behave :: "'a children \<Rightarrow> mem \<Rightarrow> fs_globals \<Rightarrow> (byte list \<Rightarrow> byte list option \<Rightarrow> nat \<times> byte list) \<Rightarrow> bool" where
  "children_behave run M g behav \<longleftrightarrow>
     (\<forall>u ls name d bs ar. lookup_name M g name = Some d \<and> program_ok M g d bs \<and> line_looks u ls (uout u) \<and> entered u bs ar \<longrightarrow>
        (\<exists>c u'. c_run run u = Some (fst (behav bs ar), c, u') \<and> line_looks u' ls (uout u @ snd (behav bs ar))
           \<and> leaves_alone (uk u) (uk u')))"

subsection \<open>Names\<close>

lemma stored_name:
  assumes "0 \<notin> set nm"
  shows "name_at (store_list m a (nm @ [0])) a n = take n nm"
proof -
  have at: "store_list m a (nm @ [0]) (a + i) = (if i < length nm then nm ! i else 0)" if "i \<le> length nm" for i
    using that by (simp add: store_list_def nth_append)
  show ?thesis
  proof (cases "n \<le> length nm")
    case True
    have "load_list (store_list m a (nm @ [0])) a n = take n nm"
      by (rule nth_equalityI) (use True at in auto)
    moreover have "takeWhile (\<lambda>c. c \<noteq> 0) (take n nm) = take n nm" using assms by (auto simp: takeWhile_eq_all_conv dest: in_set_takeD)
    ultimately show ?thesis by (simp add: name_at_def)
  next
    case False
    let ?l = "length nm"
    have "load_list (store_list m a (nm @ [0])) a (?l + (n - ?l)) = nm @ load_list (store_list m a (nm @ [0])) (a + ?l) (n - ?l)"
    proof -
      have "load_list (store_list m a (nm @ [0])) a ?l = nm" by (rule nth_equalityI) (use at in auto)
      then show ?thesis by (simp add: load_list_append)
    qed
    moreover have "load_list (store_list m a (nm @ [0])) (a + ?l) (n - ?l) = 0 # load_list (store_list m a (nm @ [0])) (a + ?l + 1) (n - ?l - 1)"
      using False at [of ?l] load_list_Suc [of "store_list m a (nm @ [0])" "a + ?l" "n - ?l - 1"] by (simp add: Suc_diff_Suc)
    moreover have "takeWhile (\<lambda>c. c \<noteq> 0) (nm @ 0 # ys) = nm" for ys using assms by (subst takeWhile_append2) auto
    ultimately show ?thesis using False by (simp add: name_at_def)
  qed
qed

lemma split_command_facts:
  assumes "0 \<notin> set c"
  shows "0 \<notin> set (fst (split_command c))" "length (fst (split_command c)) \<le> length c"
  using assms by (auto simp: split_command_def Let_def length_takeWhile_le dest: set_takeWhileD)

lemma parse_split:
  assumes "cstr m a c" "length c < 2 ^ 31"
  shows "exec_parse m a = Some (split_command c)"
proof -
  have "strlen m a = Some (length c)" using assms by (intro strlen_cstr) simp_all
  moreover have "load_list m a (length c) = c" using assms(1) by (simp add: cstr_def)
  ultimately show ?thesis by (simp add: exec_parse_def split_command_def Let_def)
qed

text \<open>The name of a command in the directory, when the kernel has copied it to its local array.\<close>

lemma shell_procD:
  assumes "shell_proc loc M g k"
  shows "0 < cur k" "cur k < 10" "pid (pcbs k (cur k)) = cur k" "user_frame k = TASK_PAGE_INDEX (cur k)" "tables_ok (ptabs k)"
    "length (pid_used k) = 10" "pid_used k ! cur k" "\<exists>p. find_pid (pid_used k) = Some p" "length (open_files (pcbs k p)) = 8"
    "fsg k = g" "load32 M (bblock_ptr g) \<le> 63" "dentries g = bblock_ptr g + 64"
    "same_image g (image_size M g) M (mem k)" "exec_room loc 128 k" "image_size (mem k) g = image_size M g"
  using assms image_size_same [of g M "mem k"] by (auto simp: shell_proc_def)

lemma image_big: "4096 \<le> image_size M g"
  by (simp add: image_size_def)

lemma same_image_trans: "same_image g n m m' \<Longrightarrow> same_image g n m' m'' \<Longrightarrow> same_image g n m m''"
  by (simp add: same_image_def)

lemma same_image_mono: "same_image g n m m' \<Longrightarrow> n' \<le> n \<Longrightarrow> same_image g n' m m'"
  by (auto simp: same_image_def)

lemma exec_room_mono: "exec_room loc n k \<Longrightarrow> n' \<le> n \<Longrightarrow> exec_room loc n' k"
  by (auto simp: exec_room_def disjoint_ranges_def)

lemma command_lookup:
  assumes "shell_proc loc M g k" "0 \<notin> set nm" "length nm \<le> 127"
  defines "m0 \<equiv> store_list (mem k) (fname_at loc) (nm @ [0])"
  shows "same_image g (image_size M g) M m0" "read_dentry_by_name m0 g (fname_at loc) = lookup_name M g nm"
proof -
  note sp = shell_procD [OF assms(1)]
  have "exec_room loc (length nm + 1) k" using exec_room_mono [OF sp(14)] assms(3) by simp
  then have "same_image g (image_size M g) (mem k) m0"
    unfolding m0_def by (intro same_image_store) (simp add: exec_room_def sp(10,15))
  then show im: "same_image g (image_size M g) M m0" using same_image_trans sp(13) by blast
  note im4 = same_image_mono [OF im image_big]
  have "load32 m0 (bblock_ptr g) \<le> 63" using same_image_load32 [OF im4, of 0] sp(11) by simp
  then have "read_dentry_by_name m0 g (fname_at loc) = lookup_name m0 g nm"
    using stored_name [OF assms(2)] unfolding m0_def by (intro dentry_lookup) simp_all
  then show "read_dentry_by_name m0 g (fname_at loc) = lookup_name M g nm" using lookup_name_image [OF im4 sp(11,12)] by simp
qed

lemma program_executable:
  assumes "program_ok M g d bs" "same_image g (image_size M g) M m" "read_dentry_by_name m g fname = Some d"
  shows "executable m g fname bs"
proof -
  have p: "filetype d = FILE_TYPE_REG" "0 \<le> inode_num d" "inode_num d < 2 ^ 31" "wf_file M g (nat (inode_num d))"
    "file_bytes M g (nat (inode_num d)) = bs"
    using assms(1) by (simp_all add: program_ok_def)
  note w = same_image_wf [OF p(4) assms(2)]
  have "inode_num d = int (nat (inode_num d))" "nat (inode_num d) < 2 ^ 31" using p(2,3) by simp_all
  then show ?thesis using assms(1,3) p(1) w p(5) unfolding executable_def program_ok_def by blast
qed

subsection \<open>Terminals\<close>

lemma nth_cur_pid: "xs[t := (xs ! t)\<lparr>cur_pid := p\<rparr>] ! u = xs ! u \<or> xs[t := (xs ! t)\<lparr>cur_pid := p\<rparr>] ! u = (xs ! u)\<lparr>cur_pid := p\<rparr>"
  for xs :: "term_t list"
  by (cases "t < length xs"; cases "t = u") (auto simp: list_update_beyond)

lemma sys_ok_cur_pid:
  assumes "sys_ok s" "terms s' = (terms s)[t := (tm t s)\<lparr>cur_pid := p\<rparr>]" "cur_term_ind s' = cur_term_ind s" "cur_term s' = cur_term s"
  shows "sys_ok s'"
proof -
  have u: "tm u s' = tm u s \<or> tm u s' = (tm u s)\<lparr>cur_pid := p\<rparr>" for u unfolding assms(2) by (rule nth_cur_pid)
  have "line_ok (tm u s') = line_ok (tm u s)" "cursor_ok (tm u s') = cursor_ok (tm u s)" "esc_ok (tm u s') = esc_ok (tm u s)"
    "video_buffer (tm u s') = video_buffer (tm u s)" "video_mem (tm u s') = video_mem (tm u s)" for u
    using u [of u] by (auto simp: line_ok_def cursor_ok_def esc_ok_def)
  moreover have "length (terms s') = length (terms s)" by (simp add: assms(2))
  ultimately show ?thesis using assms(1,3,4) by (simp add: sys_ok_def)
qed

lemma console_cur_pid:
  assumes "console t s" "terms s' = (terms s)[t' := (tm t' s)\<lparr>cur_pid := p\<rparr>]" "cur_term_ind s' = cur_term_ind s" "cur_term s' = cur_term s"
  shows "console t s'"
proof -
  have "sys_ok s'" using sys_ok_cur_pid [OF _ assms(2-4)] assms(1) by (simp add: console_def idle_def)
  moreover have "tm t s' = tm t s \<or> tm t s' = (tm t s)\<lparr>cur_pid := p\<rparr>" unfolding assms(2) by (rule nth_cur_pid)
  then have "esc_state (tm t s') = esc_state (tm t s)" "term_canon (tm t s') = term_canon (tm t s)"
    "term_read_done (tm t s') = term_read_done (tm t s)" "abs_line (tm t s') = abs_line (tm t s)"
    by (auto simp: abs_line_def)
  ultimately show ?thesis using assms(1,3) unfolding console_def idle_def by metis
qed

lemma fold_unuse:
  fixes gs :: "FILE list"
  defines "f \<equiv> \<lambda>i fs :: FILE list. fs[i := (fs ! i)\<lparr>used := False\<rparr>]"
  shows "length (fold f xs gs) = length gs" "j \<notin> set xs \<Longrightarrow> fold f xs gs ! j = gs ! j"
    "j < length gs \<Longrightarrow> j \<in> set xs \<or> \<not> used (gs ! j) \<Longrightarrow> \<not> used (fold f xs gs ! j)"
proof -
  show "length (fold f xs gs) = length gs" by (induction xs arbitrary: gs) (simp_all add: f_def)
  show "j \<notin> set xs \<Longrightarrow> fold f xs gs ! j = gs ! j" by (induction xs arbitrary: gs) (simp_all add: f_def)
  show "j < length gs \<Longrightarrow> j \<in> set xs \<or> \<not> used (gs ! j) \<Longrightarrow> \<not> used (fold f xs gs ! j)"
  proof (induction xs arbitrary: gs)
    case (Cons i xs)
    have "j \<in> set xs \<or> \<not> used (f i gs ! j)" using Cons.prems by (cases "j = i") (auto simp: f_def)
    then show ?case using Cons.IH [of "f i gs"] Cons.prems(1) by (simp add: f_def)
  qed simp
qed

lemma setup_files_first:
  assumes "length fs = 8"
  shows "length (setup_files fs) = 8" "used (setup_files fs ! 0)" "file_ops (setup_files fs ! 0) = stdin_file_ops_table"
    "used (setup_files fs ! 1)" "file_ops (setup_files fs ! 1) = stdout_file_ops_table"
    "\<forall>i \<in> {2..<8}. \<not> used (setup_files fs ! i)"
  using assms by (simp_all add: setup_files_def Let_def fold_unuse del: upt_rec_numeral)

lemma line_looks_move:
  assumes l: "line_looks u ls ot" and u': "u_irqs u' = u_irqs u" "uout u' = uout u"
    and t: "terms (uk u') = (terms (uk u))[t := (tm t (uk u))\<lparr>cur_pid := p\<rparr>]" "cur_term_ind (uk u') = cur_term_ind (uk u)" "cur_term (uk u') = cur_term (uk u)"
    and fs: "fsg (uk u') = fsg (uk u)" "same_image (fsg (uk u)) (image_size (mem (uk u)) (fsg (uk u))) (mem (uk u)) (mem (uk u'))"
    and me: "my_term (uk u') = my_term (uk u)" "length (open_files (pcbs (uk u') (cur (uk u')))) = 8"
      "used (get_file (cur (uk u'), 0) (uk u'))" "file_ops (get_file (cur (uk u'), 0) (uk u')) = stdin_file_ops_table"
      "used (get_file (cur (uk u'), 1) (uk u'))" "file_ops (get_file (cur (uk u'), 1) (uk u')) = stdout_file_ops_table"
  shows "line_looks u' ls ot"
proof -
  have ok: "user_ok u" "ot = uout u" "line_ready u ls" using l by (simp_all add: line_looks_def)
  have "sys_ok (uk u')" using sys_ok_cur_pid [OF _ t] ok(1) by (simp add: user_ok_def)
  then have "user_ok u'" using ok(1) fs(1) image_size_same [OF fs(2)] me by (simp add: user_ok_def)
  moreover have "line_ready u' ls" using ok(3) console_cur_pid [OF _ t] me u' by (auto simp: line_ready_def)
  ultimately show ?thesis using ok(2) u'(2) by (simp add: line_looks_def)
qed

subsection \<open>Entering a program\<close>

text \<open>
  Process \<open>p\<close> is on the processor as the child of the shell that was in state \<open>k\<close>: the shell's page is
  kept in its frame and its PCB has its place on the kernel stack.
\<close>

definition child_of :: "exec_locals \<Rightarrow> mem \<Rightarrow> fs_globals \<Rightarrow> 'a kernel_scheme \<Rightarrow> nat \<Rightarrow> 'a kernel_scheme \<Rightarrow> bool" where
  "child_of loc M g k p k1 \<longleftrightarrow>
     cur k1 = p \<and> find_pid (pid_used k) = Some p
     \<and> parent (pcbs k1 p) = Some (cur k) \<and> pid (pcbs k1 p) = p \<and> term_ind (pcbs k1 p) = my_term k
     \<and> pcbs k1 (cur k) = (pcbs k (cur k))\<lparr>pcb_ebp := loc_ebp loc, pcb_esp := loc_esp loc\<rparr>
     \<and> pid_used k1 = (pid_used k)[p := True] \<and> user_frame k1 = TASK_PAGE_INDEX p \<and> tables_ok (ptabs k1)
     \<and> (\<forall>off. frames k1 (TASK_PAGE_INDEX (cur k)) off = mem k (0x8000000 + off)) \<and> fsg k1 = g
     \<and> (\<forall>q. length (open_files (pcbs k1 q)) = TASK_MAX_FILES) \<and> same_image g (image_size M g) M (mem k1)"

lemma setup_child:
  fixes k2 :: "'a kernel_scheme" and loc :: exec_locals and ar :: "byte list option"
  assumes "p \<noteq> cur k2" "0 < cur k2" "\<forall>q. length (open_files (pcbs k2 q)) = 8"
  defines "k1 \<equiv> (setup_task loc p ar (-1) k2)\<lparr>cur := p, IF := True\<rparr>"
  shows "terms k1 = (terms k2)[my_term k2 := (tm (my_term k2) k2)\<lparr>cur_pid := p\<rparr>]" "cur_term k1 = cur_term k2" "cur_term_ind k1 = cur_term_ind k2"
    "cur k1 = p" "fsg k1 = fsg k2" "pid_used k1 = (pid_used k2)[p := True]" "frames k1 = frames k2" "ptabs k1 = ptabs k2"
    "x < 0x8000000 \<or> 0x8001000 \<le> x \<Longrightarrow> mem k1 x = mem k2 x"
    "pcbs k1 (cur k2) = (pcbs k2 (cur k2))\<lparr>pcb_ebp := loc_ebp loc, pcb_esp := loc_esp loc\<rparr>"
    "parent (pcbs k1 p) = Some (cur k2)" "pid (pcbs k1 p) = p" "term_ind (pcbs k1 p) = my_term k2" "cmd_args (pcbs k1 p) = ar"
    "open_files (pcbs k1 p) = setup_files (open_files (pcbs k2 p))" "\<forall>q. length (open_files (pcbs k1 q)) = 8"
proof -
  note st = setup_task_simps [OF assms(1), of loc ar "-1"]
  have et: "exec_term (-1) k2 = my_term k2" by (simp add: exec_term_def my_term_def)
  show "cur_term k1 = cur_term k2" "cur_term_ind k1 = cur_term_ind k2"
    by (simp_all add: k1_def setup_task_def Let_def upd_pcb_def upd_term_def)
  show "terms k1 = (terms k2)[my_term k2 := (tm (my_term k2) k2)\<lparr>cur_pid := p\<rparr>]"
    "cur k1 = p" "fsg k1 = fsg k2" "pid_used k1 = (pid_used k2)[p := True]" "frames k1 = frames k2" "ptabs k1 = ptabs k2"
    by (simp_all add: k1_def st et)
  show "mem k1 x = mem k2 x" if "x < 0x8000000 \<or> 0x8001000 \<le> x"
    using that unfolding k1_def by (simp add: st) (rule store_obj_other, auto)
  have pc: "pcbs k1 (cur k2) = (pcbs k2 (cur k2))\<lparr>pcb_ebp := loc_ebp loc, pcb_esp := loc_esp loc\<rparr>"
    "open_files (pcbs k1 p) = setup_files (open_files (pcbs k2 p))"
    using assms(1,2) by (simp_all add: k1_def st et)
  then show "pcbs k1 (cur k2) = (pcbs k2 (cur k2))\<lparr>pcb_ebp := loc_ebp loc, pcb_esp := loc_esp loc\<rparr>"
    "open_files (pcbs k1 p) = setup_files (open_files (pcbs k2 p))" .
  show "parent (pcbs k1 p) = Some (cur k2)" "pid (pcbs k1 p) = p" "term_ind (pcbs k1 p) = my_term k2" "cmd_args (pcbs k1 p) = ar"
    using assms(1,2) by (simp_all add: k1_def st et)
  show "\<forall>q. length (open_files (pcbs k1 q)) = 8"
  proof
    fix q
    show "length (open_files (pcbs k1 q)) = 8"
      using assms(3) setup_files_first(1) pc by (cases "q = p"; cases "q = cur k2") (simp_all add: k1_def st)
  qed
qed

lemma enter_child:
  fixes u :: "'a user"
  assumes l: "line_looks u ls ot" and P: "shell_proc loc M g (uk u)"
    and c: "cstr (mem (uk u)) a c" "0 \<notin> set c" "length c \<le> 127" "split_command c = (name, ar)"
    and d: "lookup_name M g name = Some d" "program_ok M g d bs"
  defines "k \<equiv> uk u"
  shows "\<exists>p k1. syscall_execute loc a k = Some (Enters (entry_of bs), k1) \<and> child_of loc M g k p k1
    \<and> line_looks (u\<lparr>uk := k1\<rparr>) ls ot \<and> entered (u\<lparr>uk := k1\<rparr>) bs ar"
proof -
  note sp = shell_procD [OF P, folded k_def]
  have nm: "0 \<notin> set name" "length name \<le> 127" using split_command_facts [OF c(2)] c(3,4) by auto
  note look = command_lookup [OF P nm, folded k_def]
  have ex: "executable (store_list (mem k) (fname_at loc) (name @ [0])) (fsg k) (fname_at loc) bs"
    using program_executable [OF d(2) look(1)] look(2) d(1) sp(10) by simp
  have room: "exec_room loc (length name + 1) k" using exec_room_mono [OF sp(14)] nm(2) by simp
  obtain p where p: "find_pid (pid_used k) = Some p" using sp(8) by blast
  have pk: "p < 10" "p \<noteq> cur k" using find_pid_Some [OF p] sp(7) by auto
  obtain m1 m3 where ei: "exec_image loc p name ar (-1) k
        = Some (Enters (entry_of bs), (setup_task loc p ar (-1) ((map_user_page p (k\<lparr>mem := m1\<rparr>))\<lparr>mem := m3\<rparr>))\<lparr>cur := p, IF := True\<rparr>)"
    and m1: "\<forall>x \<ge> 0x8000000. m1 x = mem k x" and m3: "load_list m3 0x08048000 (length bs) = bs"
    "\<forall>x < 0x8000000. (x < fname_at loc \<or> fname_at loc + (length name + 1) \<le> x) \<and> (x < buf_at loc \<or> buf_at loc + 256 \<le> x) \<longrightarrow> m3 x = mem k x"
    using exec_image_loads [OF ex room, of p ar "-1"] by blast
  define k2 where "k2 = (map_user_page p (k\<lparr>mem := m1\<rparr>))\<lparr>mem := m3\<rparr>"
  define k1 where "k1 = (setup_task loc p ar (-1) k2)\<lparr>cur := p, IF := True\<rparr>"
  have "exec_parse (mem k) a = Some (name, ar)" using parse_split [OF c(1)] c(3,4) by (simp add: k_def)
  then have run: "syscall_execute loc a k = Some (Enters (entry_of bs), k1)"
    using p ei by (simp add: syscall_execute_def syscall_execute_at_def k1_def k2_def)
  have k2: "cur k2 = cur k" "pcbs k2 = pcbs k" "terms k2 = terms k" "fsg k2 = g" "pid_used k2 = pid_used k" "my_term k2 = my_term k"
    "cur_term_ind k2 = cur_term_ind k" "cur_term k2 = cur_term k" "mem k2 = m3" "ptabs k2 = ptabs (map_user_page p (k\<lparr>mem := m1\<rparr>))"
    "frames k2 = (frames k)(user_frame k := (\<lambda>off. m1 (0x8000000 + off)))"
    using sp(10) by (simp_all add: k2_def my_term_def) (simp_all add: map_user_page_def Let_def user_frame_def)
  have "p \<noteq> cur k2" "0 < cur k2" "\<forall>q. length (open_files (pcbs k2 q)) = 8" using pk(2) sp(1,9) k2(1,2) by simp_all
  note st = setup_child [OF this, where loc = loc and ar = ar, folded k1_def, unfolded k2(1-8)]
  have "mem k1 x = mem k x" if "bblock_ptr g \<le> x" "x < bblock_ptr g + image_size M g" for x
  proof -
    have "x < 0x8000000" "x < fname_at loc \<or> fname_at loc + (length name + 1) \<le> x" "x < buf_at loc \<or> buf_at loc + 256 \<le> x"
      using that room sp(10,15) by (auto simp: exec_room_def disjoint_ranges_def)
    then show ?thesis using m3(2) st(9) k2(9) by simp
  qed
  then have im: "same_image g (image_size M g) M (mem k1)" "same_image g (image_size M g) (mem k) (mem k1)"
    using sp(13) by (simp_all add: same_image_def)
  have "load_list (mem k1) 0x08048000 (length bs) = load_list m3 0x08048000 (length bs)"
    by (intro load_list_cong) (simp add: st(9) k2(9))
  then have en: "entered (u\<lparr>uk := k1\<rparr>) bs ar"
    using m3(1) st(4,14,15) setup_files_first(6) [OF sp(9) [of p]] by (simp add: entered_def get_file_def)
  have "tables_ok (ptabs k1)" "user_frame k1 = TASK_PAGE_INDEX p"
    using user_frame_map [of "k\<lparr>mem := m1\<rparr>" p] sp(5) pk(1) by (simp_all add: st(8) k2(10) user_frame_def)
  moreover have "\<forall>off. frames k1 (TASK_PAGE_INDEX (cur k)) off = mem k (0x8000000 + off)" using m1 by (simp add: st(7) k2(11) sp(4))
  ultimately have "child_of loc M g k p k1" using p im(1) st by (simp add: child_of_def)
  moreover have "line_looks (u\<lparr>uk := k1\<rparr>) ls ot"
  proof (rule line_looks_move [OF l, where t = "my_term k" and p = p])
    show "same_image (fsg (uk u)) (image_size (mem (uk u)) (fsg (uk u))) (mem (uk u)) (mem (uk (u\<lparr>uk := k1\<rparr>)))"
      using im(2) sp(10,15) by (simp add: k_def)
    show "my_term (uk (u\<lparr>uk := k1\<rparr>)) = my_term (uk u)" using st(4,13) by (simp add: my_term_def [of k1] k_def)
  qed (use st setup_files_first [OF sp(9) [of p]] sp(10) in \<open>simp_all add: k_def [symmetric] get_file_def\<close>)
  ultimately show ?thesis using run en by blast
qed

subsection \<open>Back in the shell\<close>

lemma close_all_id:
  assumes "\<forall>i \<in> {2..<8}. used (get_file (cur k, i) k) \<longrightarrow> file_ops (get_file (cur k, i) k) \<noteq> rtc_file_ops_table"
  shows "close_all prev k = k"
proof -
  define f where "f = (\<lambda>i k :: 'a kernel_scheme. if used (get_file (cur k, i) k)
                then snd (ops_close (file_ops (get_file (cur k, i) k)) prev (cur k, i) k) else k)"
  have "f i k = k" if "i \<in> {2..<8}" for i
    using assms that unfolding f_def by (cases "file_ops (get_file (cur k, i) k)") auto
  then have "fold f xs k = k" if "set xs \<subseteq> {2..<8}" for xs using that by (induction xs) auto
  from this [of "[2..<8]"] show ?thesis by (simp add: close_all_def f_def del: upt_rec_numeral)
qed

lemma halt_resumes:
  fixes k2 :: "'a kernel_scheme"
  assumes "parent (pcbs k2 (cur k2)) = Some q" "pid (pcbs k2 q) = q"
    "\<forall>i \<in> {2..<8}. used (get_file (cur k2, i) k2) \<longrightarrow> file_ops (get_file (cur k2, i) k2) \<noteq> rtc_file_ops_table"
  shows "\<exists>k3. syscall_halt_with prev status c k2 = (Resumes status, c, k3) \<and> cur k3 = q \<and> pcbs k3 = pcbs k2 \<and> fsg k3 = fsg k2
    \<and> pid_used k3 = (pid_used k2)[pid (pcbs k2 (cur k2)) := False] \<and> ptabs k3 = ptabs (map_user_page q k2)
    \<and> terms k3 = (terms k2)[term_ind (pcbs k2 (cur k2)) := (tm (term_ind (pcbs k2 (cur k2))) k2)\<lparr>cur_pid := q\<rparr>]
    \<and> cur_term_ind k3 = cur_term_ind k2 \<and> cur_term k3 = cur_term k2 \<and> mem k3 = mem (map_user_page q k2)"
proof -
  have "cur_term (map_user_page q k2) = cur_term k2" by (simp add: map_user_page_def Let_def)
  then show ?thesis
    unfolding syscall_halt_with_def Let_def close_all_id [OF assms(3)] by (simp add: assms(1,2) upd_term_def)
qed

lemma page_back:
  assumes "tables_ok (ptabs k)" "q < 10" "user_frame k \<noteq> TASK_PAGE_INDEX q" "x < 0x400000"
  shows "mem (map_user_page q k) (0x8000000 + x) = frames k (TASK_PAGE_INDEX q) x"
proof -
  have "phys (map_user_page q k) (TASK_PAGE_INDEX q) x = phys k (TASK_PAGE_INDEX q) x" by (rule map_user_page_phys [OF assms(4)])
  then show ?thesis using user_frame_map(1) [OF assms(1,2)] assms(3) by (simp add: phys_def)
qed

text \<open>A child that leaves the system alone is still the shell's child, and its end leads back to the shell.\<close>

lemma child_keeps:
  assumes ch: "child_of loc M g k p k1" and la: "leaves_alone k1 k2" and P: "shell_proc loc M g k"
    and dis: "disjoint_ranges 0xB8000 0x4000 (bblock_ptr g) (image_size M g)" "bblock_ptr g + image_size M g \<le> 0x8000000"
  shows "child_of loc M g k p k2"
    "\<forall>i \<in> {2..<8}. used (get_file (cur k2, i) k2) \<longrightarrow> file_ops (get_file (cur k2, i) k2) \<noteq> rtc_file_ops_table"
proof -
  note sp = shell_procD [OF P]
  have c: "cur k1 = p" "find_pid (pid_used k) = Some p" "pid_used k1 = (pid_used k)[p := True]" "same_image g (image_size M g) M (mem k1)"
    using ch by (simp_all add: child_of_def)
  have p: "p \<noteq> cur k" "pid_used k1 ! cur k" using find_pid_Some [OF c(2)] sp(2,6,7) by (auto simp: c(3) nth_list_update)
  then have "pcbs k2 (cur k) = pcbs k1 (cur k)" "frames k2 (TASK_PAGE_INDEX (cur k)) = frames k1 (TASK_PAGE_INDEX (cur k))"
    using la c(1) by (simp_all add: leaves_alone_def)
  moreover have "mem k2 x = mem k1 x" if "bblock_ptr g \<le> x" "x < bblock_ptr g + image_size M g" for x
    using la dis that by (auto simp: leaves_alone_def disjoint_ranges_def)
  then have "same_image g (image_size M g) M (mem k2)" using c(4) by (simp add: same_image_def)
  ultimately show "child_of loc M g k p k2" using ch la by (simp add: child_of_def leaves_alone_def user_frame_def)
  show "\<forall>i \<in> {2..<8}. used (get_file (cur k2, i) k2) \<longrightarrow> file_ops (get_file (cur k2, i) k2) \<noteq> rtc_file_ops_table"
    using la by (simp add: leaves_alone_def)
qed

lemma child_ends:
  fixes u2 :: "'a user"
  assumes ch: "child_of loc M g k p (uk u2)" and P: "shell_proc loc M g k" and l2: "line_looks u2 ls ot"
    and f0: "used (get_file (cur k, 0) k)" "file_ops (get_file (cur k, 0) k) = stdin_file_ops_table"
      "used (get_file (cur k, 1) k)" "file_ops (get_file (cur k, 1) k) = stdout_file_ops_table"
    and cl: "\<forall>i \<in> {2..<8}. used (get_file (cur (uk u2), i) (uk u2)) \<longrightarrow> file_ops (get_file (cur (uk u2), i) (uk u2)) \<noteq> rtc_file_ops_table"
  shows "\<exists>k3. syscall_halt_with prev status cc (uk u2) = (Resumes status, cc, k3) \<and> line_looks (u2\<lparr>uk := k3\<rparr>) ls ot
    \<and> shell_proc loc M g k3 \<and> (\<forall>x < 0x400000. mem k3 (0x8000000 + x) = mem k (0x8000000 + x))"
proof -
  let ?k2 = "uk u2" and ?q = "cur k"
  note sp = shell_procD [OF P]
  have a: "cur ?k2 = p" "find_pid (pid_used k) = Some p" "parent (pcbs ?k2 p) = Some ?q" "pid (pcbs ?k2 p) = p" "term_ind (pcbs ?k2 p) = my_term k"
    "pcbs ?k2 ?q = (pcbs k ?q)\<lparr>pcb_ebp := loc_ebp loc, pcb_esp := loc_esp loc\<rparr>" "pid_used ?k2 = (pid_used k)[p := True]"
    "user_frame ?k2 = TASK_PAGE_INDEX p" "tables_ok (ptabs ?k2)" "\<forall>off. frames ?k2 (TASK_PAGE_INDEX ?q) off = mem k (0x8000000 + off)"
    "fsg ?k2 = g" "\<forall>q. length (open_files (pcbs ?k2 q)) = 8" "same_image g (image_size M g) M (mem ?k2)"
    using ch by (simp_all add: child_of_def)
  have p: "p < 10" "\<not> pid_used k ! p" "p \<noteq> ?q" using find_pid_Some [OF a(2)] sp(7) by auto
  obtain k3 where h: "syscall_halt_with prev status cc ?k2 = (Resumes status, cc, k3)" "cur k3 = ?q"
    "pcbs k3 = pcbs ?k2" "fsg k3 = g" "pid_used k3 = (pid_used ?k2)[p := False]" "ptabs k3 = ptabs (map_user_page ?q ?k2)"
    "terms k3 = (terms ?k2)[my_term k := (tm (my_term k) ?k2)\<lparr>cur_pid := ?q\<rparr>]"
    "cur_term_ind k3 = cur_term_ind ?k2" "cur_term k3 = cur_term ?k2" "mem k3 = mem (map_user_page ?q ?k2)"
    using halt_resumes [of ?k2 ?q prev status cc] a cl sp(3) by auto
  have page: "mem k3 (0x8000000 + x) = mem k (0x8000000 + x)" if "x < 0x400000" for x
    using page_back [OF a(9) sp(2) _ that] a(8,10) p(3) by (simp add: h(10) TASK_PAGE_INDEX_def)
  have isz: "image_size (mem ?k2) g = image_size M g" using image_size_same [OF a(13)] .
  have "bblock_ptr g + image_size M g \<le> 0x8000000" using l2 a(11) isz by (simp add: line_looks_def user_ok_def)
  then have low: "same_image g (image_size M g) (mem ?k2) (mem k3)" using map_user_page_mem [of _ ?q ?k2] by (simp add: same_image_def h(10))
  then have im: "same_image g (image_size M g) M (mem k3)" using a(13) by (simp add: same_image_def)
  have used: "pid_used k3 = pid_used k" using p(1,2) sp(6) by (simp add: h(5) a(7) list_update_same_conv)
  have me: "my_term k3 = my_term k" "my_term ?k2 = my_term k" using h(2,3) a(1,5,6) by (simp_all add: my_term_def)
  have gf: "get_file (?q, i) k3 = get_file (?q, i) k" for i using h(3) a(6) by (simp add: get_file_def)
  have "line_looks (u2\<lparr>uk := k3\<rparr>) ls ot"
  proof (rule line_looks_move [OF l2, where t = "my_term k" and p = ?q])
    show "same_image (fsg ?k2) (image_size (mem ?k2) (fsg ?k2)) (mem ?k2) (mem (uk (u2\<lparr>uk := k3\<rparr>)))" using low isz a(11) by simp
  qed (use h me a(11,12) gf f0 in simp_all)
  moreover have "exec_room loc 128 k3" using sp(10,14,15) image_size_same [OF im] by (simp add: exec_room_def h(4))
  then have "shell_proc loc M g k3"
    using sp(1-3,6-8,11,12) used user_frame_map [OF a(9) sp(2)] a(6,12) h(2-4,6) im
    unfolding shell_proc_def by (simp add: user_frame_def)
  ultimately show ?thesis using h(1) page by blast
qed

text \<open>One command, from the shell's call of \<^verbatim>\<open>execute\<close> to its return.\<close>

lemma child_comes_back:
  fixes u :: "'a user"
  assumes l: "line_looks u ls ot" and P: "shell_proc (c_locals run) M g (uk u)" and b: "children_behave run M g behav"
    and c: "cstr (mem (uk u)) a c" "0 \<notin> set c" "length c \<le> 127" "split_command c = (name, ar)"
    and d: "lookup_name M g name = Some d" "program_ok M g d bs"
  shows "\<exists>u'. user_execute run a u = Some (int (fst (behav bs ar)), u') \<and> line_looks u' ls (ot @ snd (behav bs ar))
    \<and> shell_proc (c_locals run) M g (uk u') \<and> (\<forall>x < 0x400000. mem (uk u') (0x8000000 + x) = mem (uk u) (0x8000000 + x))"
proof -
  obtain p k1 where e: "syscall_execute (c_locals run) a (uk u) = Some (Enters (entry_of bs), k1)" "child_of (c_locals run) M g (uk u) p k1"
    "line_looks (u\<lparr>uk := k1\<rparr>) ls ot" "entered (u\<lparr>uk := k1\<rparr>) bs ar"
    using enter_child [OF l P c d] by blast
  have ot: "ot = uout u" using l by (simp add: line_looks_def)
  then have "line_looks (u\<lparr>uk := k1\<rparr>) ls (uout (u\<lparr>uk := k1\<rparr>))" using e(3) by simp
  from b [unfolded children_behave_def, rule_format, OF conjI [OF d(1) conjI [OF d(2) conjI [OF this e(4)]]]]
  obtain cc u2 where r: "c_run run (u\<lparr>uk := k1\<rparr>) = Some (fst (behav bs ar), cc, u2)" "line_looks u2 ls (ot @ snd (behav bs ar))" "leaves_alone k1 (uk u2)"
    by (auto simp: ot)
  have "disjoint_ranges 0xB8000 0x4000 (bblock_ptr g) (image_size M g)" "bblock_ptr g + image_size M g \<le> 0x8000000"
    using l shell_procD [OF P] by (simp_all add: line_looks_def user_ok_def)
  note ch = child_keeps [OF e(2) r(3) P this]
  obtain k3 where h: "syscall_halt_with (u_port u2) (fst (behav bs ar)) cc (uk u2) = (Resumes (fst (behav bs ar)), cc, k3)"
    "line_looks (u2\<lparr>uk := k3\<rparr>) ls (ot @ snd (behav bs ar))" "shell_proc (c_locals run) M g k3"
    "\<forall>x < 0x400000. mem k3 (0x8000000 + x) = mem (uk u) (0x8000000 + x)"
    using child_ends [OF ch(1) P r(2) _ _ _ _ ch(2), of "u_port u2" "fst (behav bs ar)" cc] l
    by (auto simp: line_looks_def line_ready_def user_ok_def)
  have "user_execute run a u = Some (int (fst (behav bs ar)), u2\<lparr>uk := k3\<rparr>)" using e(1) r(1) h(1) by (simp add: user_execute_def)
  then show ?thesis using h(2-4) by auto
qed

lemma missing_command:
  fixes u :: "'a user"
  assumes l: "line_looks u ls ot" and P: "shell_proc (c_locals run) M g (uk u)"
    and c: "cstr (mem (uk u)) a c" "0 \<notin> set c" "length c \<le> 127" "split_command c = (name, ar)" and d: "lookup_name M g name = None"
  shows "\<exists>u'. user_execute run a u = Some (-1, u') \<and> line_looks u' ls ot
    \<and> shell_proc (c_locals run) M g (uk u') \<and> (\<forall>x < 0x400000. mem (uk u') (0x8000000 + x) = mem (uk u) (0x8000000 + x))"
proof -
  let ?k = "uk u" and ?loc = "c_locals run"
  note sp = shell_procD [OF P]
  have nm: "0 \<notin> set name" "length name \<le> 127" using split_command_facts [OF c(2)] c(3,4) by auto
  note look = command_lookup [OF P nm]
  let ?m0 = "store_list (mem ?k) (fname_at ?loc) (name @ [0])"
  let ?u = "u\<lparr>uk := ?k\<lparr>mem := ?m0\<rparr>\<rparr>"
  obtain p where p: "find_pid (pid_used ?k) = Some p" using sp(8) by blast
  have "exec_parse (mem ?k) a = Some (name, ar)" using parse_split [OF c(1)] c(3,4) by simp
  moreover have "fs_open ?m0 (fsg ?k) (fname_at ?loc) (f_init ?loc) = (-1, f_init ?loc)" using look(2) d sp(10) by (simp add: fs_open_def)
  ultimately have run: "user_execute run a u = Some (-1, ?u)"
    using p by (simp add: user_execute_def syscall_execute_def syscall_execute_at_def exec_image_def)
  have room: "exec_room ?loc (length name + 1) ?k" using exec_room_mono [OF sp(14)] nm(2) by simp
  then have page: "?m0 (0x8000000 + x) = mem ?k (0x8000000 + x)" for x by (intro store_list_other) (auto simp: exec_room_def)
  have isz: "image_size ?m0 g = image_size M g" using image_size_same [OF look(1)] .
  have im: "same_image g (image_size M g) (mem ?k) ?m0" using look(1) sp(13) by (simp add: same_image_def)
  have "line_looks ?u ls ot"
  proof (rule line_looks_move [OF l, where t = 3 and p = 0])
    show "terms (uk ?u) = (terms ?k)[3 := (tm 3 ?k)\<lparr>cur_pid := 0\<rparr>]" using l by (auto simp: line_looks_def user_ok_def sys_ok_def list_update_beyond)
    show "same_image (fsg ?k) (image_size (mem ?k) (fsg ?k)) (mem ?k) (mem (uk ?u))" using im sp(10,15) by simp
  qed (use l sp(9) in \<open>simp_all add: my_term_def get_file_def line_looks_def line_ready_def user_ok_def\<close>)
  moreover have "exec_room ?loc 128 (?k\<lparr>mem := ?m0\<rparr>)" using sp(10,14,15) isz by (simp add: exec_room_def)
  then have "shell_proc ?loc M g (uk ?u)" using P look(1) by (simp add: shell_proc_def user_frame_def)
  ultimately show ?thesis using run page by auto
qed

text \<open>The kernel's \<^verbatim>\<open>execute\<close> and \<^verbatim>\<open>halt\<close> give the shell what it needs.\<close>

lemma kernel_runs_children:
  fixes run :: "'a children"
  assumes b: "children_behave run M g behav" and C: "\<forall>c \<in> C. 0 \<notin> set c \<and> length c \<le> 127 \<and> known M g c"
  shows "runs_children (kernel_sys run) 0x8000000 0x8400000 (shell_looks (c_locals run) M g) C (outcome M g behav)"
  unfolding runs_children_def
proof (intro allI ballI impI, elim conjE)
  fix u :: "'a user" and ls ot a c
  assume c: "c \<in> C" and l: "shell_looks (c_locals run) M g u ls ot" and s: "cstr (s_mem (kernel_sys run) u) a c"
  obtain name ar where n: "split_command c = (name, ar)" by fastforce
  have cc: "cstr (mem (uk u)) a c" "0 \<notin> set c" "length c \<le> 127" "known M g c" using c C s by auto
  have ll: "line_looks u ls ot" "shell_proc (c_locals run) M g (uk u)" using l by (simp_all add: shell_looks_def)
  have "\<exists>u'. user_execute run a u = Some (fst (outcome M g behav c), u') \<and> line_looks u' ls (ot @ snd (outcome M g behav c))
      \<and> shell_proc (c_locals run) M g (uk u') \<and> (\<forall>x < 0x400000. mem (uk u') (0x8000000 + x) = mem (uk u) (0x8000000 + x))"
  proof (cases "lookup_name M g name")
    case None
    then show ?thesis using missing_command [OF ll cc(1-3) n None] n by (simp add: outcome_def)
  next
    case (Some d)
    then have "program_ok M g d (file_bytes M g (nat (inode_num d)))" using cc(4) n by (simp add: known_def)
    from child_comes_back [OF ll b cc(1-3) n Some this] show ?thesis using n Some by (simp add: outcome_def split_beta)
  qed
  then obtain u' where u': "user_execute run a u = Some (fst (outcome M g behav c), u')" "line_looks u' ls (ot @ snd (outcome M g behav c))"
    "shell_proc (c_locals run) M g (uk u')" "\<forall>x < 0x400000. mem (uk u') (0x8000000 + x) = mem (uk u) (0x8000000 + x)" by blast
  have "mem (uk u') x = mem (uk u) x" if "0x8000000 \<le> x" "x < 0x8400000" for x
    using u'(4) [rule_format, of "x - 0x8000000"] that by simp
  then show "\<exists>u'. ece391_execute (kernel_sys run) a u = Some (fst (outcome M g behav c), u')
      \<and> shell_looks (c_locals run) M g u' ls (ot @ snd (outcome M g behav c))
      \<and> (\<forall>x. 0x8000000 \<le> x \<and> x < 0x8400000 \<longrightarrow> s_mem (kernel_sys run) u' x = s_mem (kernel_sys run) u x)"
    using u'(1-3) by (auto simp: shell_looks_def) (auto simp: kernel_sys_def)
qed

subsection \<open>The interface for the shell\<close>

lemma more_tables:
  fixes k k' :: "'a kernel_scheme"
  assumes "term_sys.more k' = term_sys.more k"
  shows "ptabs k' = ptabs k" "pid_used k' = pid_used k"
  using assms by (cases k, cases k', simp)+

lemma shell_proc_same:
  assumes "shell_proc loc M g (uk u)" "user_ok u" "term_sys.more k' = term_sys.more (uk u)"
    "\<And>x. x < 0xB8000 \<or> 0xBC000 \<le> x \<Longrightarrow> x < 0x8000000 \<Longrightarrow> mem k' x = mem (uk u) x"
  shows "shell_proc loc M g k'"
proof -
  note sp = shell_procD [OF assms(1)] and f = more_kernel [OF assms(3)] more_tables [OF assms(3)]
  have "same_image g (image_size M g) (mem (uk u)) (mem k')"
    using assms(2,4) sp(10,15) by (auto simp: same_image_def user_ok_def disjoint_ranges_def)
  then have im: "same_image g (image_size M g) M (mem k')" using sp(13) by (simp add: same_image_def)
  have "exec_room loc 128 k'" using sp(10,14,15) image_size_same [OF im] by (simp add: exec_room_def f)
  then show ?thesis using assms(1) im by (simp add: shell_proc_def f user_frame_def)
qed

interpretation kshell: line_io "kernel_sys run" "0x8000000" "0x8400000" "shell_looks el disk fs" "\<lambda>ot. 27 \<notin> set ot"
  for run :: "'a children" and el disk fs
proof
  show "(0x8400000 :: nat) < 2 ^ 31" by simp
  show "27 \<notin> set xs" if "27 \<notin> set (xs @ ys)" for xs ys :: "byte list" using that by simp
next
  fix u :: "'a user" and ls ot and a n :: nat
  assume l: "shell_looks el disk fs u ls ot" and a: "0x8000000 \<le> a" "a + n \<le> 0x8400000"
  then have ll: "line_looks u ls ot" "shell_proc el disk fs (uk u)" "user_ok u" by (simp_all add: shell_looks_def line_looks_def)
  obtain u' where u': "user_write 1 a n u = (int n, u')" "line_looks u' ls (ot @ load_list (mem (uk u)) a n)"
    "term_sys.more (uk u') = term_sys.more (uk u)" "\<forall>x. x < 0xB8000 \<or> 0xBC000 \<le> x \<longrightarrow> mem (uk u') x = mem (uk u) x"
    using line_write_law [OF ll(1) a] by blast
  have "shell_proc el disk fs (uk u')" using u'(4) by (intro shell_proc_same [OF ll(2,3) u'(3)]) blast
  then show "\<exists>u'. ece391_write (kernel_sys run) 1 a n u = (int n, u') \<and> shell_looks el disk fs u' ls (ot @ load_list (s_mem (kernel_sys run) u) a n)
      \<and> (\<forall>x. 0x8000000 \<le> x \<and> x < 0x8400000 \<longrightarrow> s_mem (kernel_sys run) u' x = s_mem (kernel_sys run) u x)"
    using u' by (auto simp: shell_looks_def)
next
  fix u :: "'a user" and ls ot and m :: mem
  assume l: "shell_looks el disk fs u ls ot" and m: "\<forall>x. x < 0x8000000 \<or> 0x8400000 \<le> x \<longrightarrow> m x = s_mem (kernel_sys run) u x"
  then have ll: "line_looks u ls ot" "shell_proc el disk fs (uk u)" "user_ok u" by (simp_all add: shell_looks_def line_looks_def)
  have "shell_proc el disk fs ((uk u)\<lparr>mem := m\<rparr>)" using m by (intro shell_proc_same [OF ll(2,3)]) simp_all
  then show "shell_looks el disk fs (s_store (kernel_sys run) m u) ls ot \<and> s_mem (kernel_sys run) (s_store (kernel_sys run) m u) = m"
    using kline.store_law [OF ll(1) m] by (simp add: shell_looks_def)
next
  fix u :: "'a user" and ls l ot and a n :: nat
  assume l: "shell_looks el disk fs u (l # ls) ot" and c: "27 \<notin> set ot" and a: "0 < a" "0x8000000 \<le> a" "a + n \<le> 0x8400000"
  then have ll: "line_looks u (l # ls) ot" "shell_proc el disk fs (uk u)" "user_ok u" by (simp_all add: shell_looks_def line_looks_def)
  obtain u' where u': "user_read 0 a n u = Some (int (length (take n (l @ [10]))), u')" "line_looks u' ls ot"
    "term_sys.more (uk u') = term_sys.more (uk u)"
    "\<forall>x. x < 0xB8000 \<or> 0xBC000 \<le> x \<longrightarrow> mem (uk u') x = store_list (mem (uk u)) a (take n (l @ [10])) x"
    using line_read_law [OF ll(1) c a(2,3)] by blast
  have "shell_proc el disk fs (uk u')" using u'(4) a(2) by (intro shell_proc_same [OF ll(2,3) u'(3)]) (auto simp: store_list_other)
  then show "\<exists>u'. ece391_read (kernel_sys run) 0 a n u = Some (int (length (take n (l @ [10]))), u') \<and> shell_looks el disk fs u' ls ot
      \<and> (\<forall>x. 0x8000000 \<le> x \<and> x < 0x8400000 \<longrightarrow>
           s_mem (kernel_sys run) u' x = store_list (s_mem (kernel_sys run) u) a (take n (l @ [10])) x)"
    using u' by (auto simp: shell_looks_def)
qed


subsection \<open>An example\<close>

text \<open>
  A directory with the program \<^verbatim>\<open>s\<close>, and a shell that runs as process 1. The program writes the first four
  bytes of its image and ends with status 7.
\<close>

definition shell_child_context :: hw_context_t where
  "shell_child_context = \<lparr>regs = replicate 8 0, irq_num = 0, ctx_error = 0, ctx_addr = 0, ctx_cs = 0, eflags = 0, ctx_esp = 0, ctx_ds = 0\<rparr>"

definition demo_child :: "unit children" where
  "demo_child = \<lparr>c_locals = demo_locals, c_run = (\<lambda>u. case user_write 1 TASK_IMG_START_ADDR 4 u of (v, u') \<Rightarrow> Some (7, shell_child_context, u'))\<rparr>"

definition demo_behav :: "byte list \<Rightarrow> byte list option \<Rightarrow> nat \<times> byte list" where
  "demo_behav bs ar = (7, take 4 bs)"

definition shell_mem :: mem where
  "shell_mem a = (if a < 0x8000000 then demo_disk a else text_mem shell_strings a)"

definition demo_shell :: "key_t list list \<Rightarrow> unit user" where
  "demo_shell kss = (demo_typist shell_strings kss)\<lparr>uk := (uk (demo_texts shell_strings))\<lparr>mem := shell_mem, cur := 1,
     pcbs := (\<lambda>_. pcb_zero\<lparr>pid := 1, open_files := (replicate 8 (demo_file\<lparr>used := False\<rparr>))
       [0 := demo_file\<lparr>used := True, file_ops := stdin_file_ops_table\<rparr>, 1 := demo_file\<lparr>used := True, file_ops := stdout_file_ops_table\<rparr>]\<rparr>),
     pid_used := (replicate 10 False)[1 := True], ptabs := set_user_page (TASK_PAGE_INDEX 1) (init_page 0x410 0x411)\<rparr>\<rparr>"

lemma more_frames:
  fixes k k' :: "'a kernel_scheme"
  assumes "term_sys.more k' = term_sys.more k"
  shows "frames k' = frames k"
  using assms by (cases k, cases k', simp)

lemma demo_child_behaves: "children_behave demo_child M g demo_behav"
  unfolding children_behave_def
proof (intro allI impI, elim conjE)
  fix u :: "unit user" and ls name d bs ar
  assume p: "program_ok M g d bs" and l: "line_looks u ls (uout u)" and e: "entered u bs ar"
  have n: "28 \<le> length bs" using p by (simp add: program_ok_def)
  obtain u' where u': "user_write 1 TASK_IMG_START_ADDR 4 u = (int 4, u')" "line_looks u' ls (uout u @ load_list (mem (uk u)) TASK_IMG_START_ADDR 4)"
    "term_sys.more (uk u') = term_sys.more (uk u)" "\<forall>x. x < 0xB8000 \<or> 0xBC000 \<le> x \<longrightarrow> mem (uk u') x = mem (uk u) x"
    using line_write_law [OF l, of TASK_IMG_START_ADDR 4] by auto
  note f = more_kernel [OF u'(3)] more_tables [OF u'(3)] more_frames [OF u'(3)]
  have "load_list (mem (uk u)) TASK_IMG_START_ADDR (4 + (length bs - 4)) = bs" using e n by (simp add: entered_def)
  then have "take 4 bs = load_list (mem (uk u)) TASK_IMG_START_ADDR 4"
    unfolding load_list_append by (metis append_eq_conv_conj length_load_list)
  moreover have "leaves_alone (uk u) (uk u')"
    using u'(4) e unfolding leaves_alone_def f entered_def get_file_def by simp
  ultimately show "\<exists>c u'. c_run demo_child u = Some (fst (demo_behav bs ar), c, u') \<and> line_looks u' ls (uout u @ snd (demo_behav bs ar))
      \<and> leaves_alone (uk u) (uk u')"
    using u'(1,2) by (simp add: demo_child_def demo_behav_def)
qed

lemma demo_shell_disk: "demo_like shell_mem" "demo_like demo_disk"
  by (simp_all add: demo_like_def shell_mem_def)

lemma demo_shell_simps [simp]:
  "mem (uk (demo_shell kss)) = shell_mem" "cur (uk (demo_shell kss)) = 1" "fsg (uk (demo_shell kss)) = demo_fs"
  "pid_used (uk (demo_shell kss)) = (replicate 10 False)[1 := True]" "uout (demo_shell kss) = []"
  "u_irqs (demo_shell kss) = concat (map key_irqs kss)"
  "ptabs (uk (demo_shell kss)) = set_user_page (TASK_PAGE_INDEX 1) (init_page 0x410 0x411)"
  by (simp_all add: demo_shell_def demo_typist_def)

lemma demo_shell_files:
  "open_files (pcbs (uk (demo_shell kss)) p) = (replicate 8 (demo_file\<lparr>used := False\<rparr>))
       [0 := demo_file\<lparr>used := True, file_ops := stdin_file_ops_table\<rparr>, 1 := demo_file\<lparr>used := True, file_ops := stdout_file_ops_table\<rparr>]"
  "pid (pcbs (uk (demo_shell kss)) p) = 1" "my_term (uk (demo_shell kss)) = 0"
  by (simp_all add: demo_shell_def my_term_def pcb_zero_def)

lemma demo_shell_proc: "shell_proc demo_locals demo_disk demo_fs (uk (demo_shell kss))"
proof -
  let ?k = "uk (demo_shell kss)"
  have t: "tables_ok (ptabs demo_kernel)" using init_page_tables_for unfolding tables_ok_def by fastforce
  have "user_frame ?k = user_frame (map_user_page 1 demo_kernel)" "ptabs ?k = ptabs (map_user_page 1 demo_kernel)"
    by (simp_all add: user_frame_def)
  then have u: "user_frame ?k = TASK_PAGE_INDEX 1" "tables_ok (ptabs ?k)" using user_frame_map [OF t, of 1] by simp_all
  have "find_pid (pid_used ?k) = Some 2" by (simp add: find_pid_def upt_rec [of _ 10])
  moreover have "same_image demo_fs 12288 demo_disk shell_mem" by (simp add: same_image_def demo_image shell_mem_def)
  moreover have "exec_room demo_locals 128 ?k"
    using demo_wf_file(3) [OF demo_shell_disk(1)] by (simp add: exec_room_def demo_locals_def demo_image disjoint_ranges_def)
  ultimately show ?thesis
    using u demo_wf_file(3) [OF demo_shell_disk(2)] demo_disk_image [OF demo_shell_disk(2)]
    unfolding shell_proc_def by (simp add: demo_shell_files demo_image)
qed

lemma demo_shell_looks:
  assumes "\<forall>ks \<in> set kss. \<forall>k \<in> set ks. editing_key k"
  shows "shell_looks demo_locals demo_disk demo_fs (demo_shell kss) (map typed kss) []"
proof -
  let ?u = "demo_shell kss" and ?k = "uk (demo_shell kss)" and ?d = "uk (demo_texts shell_strings)"
  have t: "terms ?k = terms ?d" "cur_term_ind ?k = cur_term_ind ?d" "cur_term ?k = cur_term ?d" by (simp_all add: demo_shell_def)
  have so: "sys_ok ?k" using demo_texts_ok(1) [of shell_strings] by (simp add: user_ok_def sys_ok_def t)
  have c: "console 0 ?k" using demo_console [of shell_strings] so unfolding console_def idle_def t by simp
  have "user_ok ?u" using so demo_wf_file(3) [OF demo_shell_disk(1)]
    by (simp add: user_ok_def demo_shell_files get_file_def demo_image disjoint_ranges_def)
  then have "line_looks ?u (map typed kss) []"
    using c assms by (auto simp: line_looks_def line_ready_def demo_shell_files get_file_def)
  then show ?thesis using demo_shell_proc by (simp add: shell_looks_def)
qed

lemma shell_disk_names:
  "lookup_name demo_disk demo_fs [120] = None"
  "\<exists>d. lookup_name demo_disk demo_fs [115] = Some d \<and> program_ok demo_disk demo_fs d demo_prog \<and> inode_num d = 0"
proof -
  note im = demo_disk_image [OF demo_shell_disk(2)]
  have n: "name_at demo_disk 0x1040 32 = [115]" by (subst name_at_one) (simp_all add: demo_disk_at)
  show "lookup_name demo_disk demo_fs [120] = None" by (simp add: lookup_name_def demo_image im n)
  have look: "read_dentry_by_name demo_disk demo_fs 0x1040 = lookup_name demo_disk demo_fs [115]"
    by (rule dentry_lookup) (simp_all add: demo_image im n)
  have "entry_of demo_prog = 0x08048018" by (simp add: entry_of_def load32_def demo_prog_def list_mem_def nth_append)
  then show "\<exists>d. lookup_name demo_disk demo_fs [115] = Some d \<and> program_ok demo_disk demo_fs d demo_prog \<and> inode_num d = 0"
    using demo_wf_file [OF demo_shell_disk(2)] demo_disk_dentry [OF demo_shell_disk(2), of "0x1040"] look
    by (auto simp: program_ok_def demo_disk_at FILE_TYPE_REG_def) (auto simp: demo_prog_def)
qed


end
