(* ===== verification/Spec2Isabelle.thy ===== *)
theory Spec2Isabelle
  imports Syserr Boot Game_Draw Shell
begin

text \<open>
  \<^bold>\<open>A verification of the operating system in \<^verbatim>\<open>src/\<close>\<close>

  The repository is a small operating system for a 386 with one processor: a kernel in C
  (\<^verbatim>\<open>src/student-distrib/\<close>) and user programs (\<^verbatim>\<open>src/syscalls/\<close>). The kernel has three text terminals,
  a read-only file system whose image the boot loader puts into memory, up to nine processes of one
  4 MB page each, a clock device that a process can read, signals, and a heap per process. The timer
  interrupt switches between the processes that run on the three terminals; a system call enters the
  kernel through the interrupt descriptor table and works on the state of all the other parts.

  \<^bold>\<open>How the theories correspond to the code\<close>

  Each theory models one part; its record is the part's global variables, its definitions have the
  names of the C functions. Records extend one another (\<open>machine\<close>, \<open>term_sys\<close>, \<open>proc_sys\<close>, \<open>rtc_sys\<close>,
  \<open>kernel\<close>, \<open>sched\<close>), so that the operations of a part apply to the state of the whole kernel.

  \<^item> \<open>Prelude\<close>, \<open>Memory\<close>: the C integer types and the conversions between them (\<^verbatim>\<open>types.h\<close>), memory as
    bytes, port output and the interrupt flag (\<^verbatim>\<open>lib.h\<close>).
  \<^item> \<open>Lib\<close>: \<^verbatim>\<open>lib.c\<close>. The number conversions, string and block routines, the latter with the loops of
    the assembly code, are shown equal to block copies, fills and the usual notion of digits.
  \<^item> \<open>Tasks\<close>: the structures of \<^verbatim>\<open>task.h\<close>, \<^verbatim>\<open>term.h\<close>, \<^verbatim>\<open>signals.h\<close>, \<^verbatim>\<open>kb.h\<close>.
  \<^item> \<open>File_Sys\<close>: \<^verbatim>\<open>file_sys.c\<close>. \<open>file_bytes\<close> is the contents an inode stands for; \<open>read_data\<close> delivers
    exactly these bytes. The locale \<open>chunk_reader\<close> is the contract of sequential reading.
  \<^item> \<open>Screen\<close>, \<open>Line_Edit\<close>, \<open>Term\<close>: \<^verbatim>\<open>term.c\<close>. Printing on video memory refines printing on an abstract
    screen (\<open>abs_screen\<close>), the key handler refines editing of a line with a cursor, \<open>term_read\<close> delivers
    that line, \<open>term_write\<close> parses escape sequences and never touches another terminal. Locales:
    \<open>drawing\<close> for the operations that draw, \<open>walk_back\<close> and \<open>walk_forward\<close> for the ones that move the
    cursor through a line.
  \<^item> \<open>Pic\<close>, \<open>Keyboard\<close>, \<open>Rtc\<close>: \<^verbatim>\<open>i8259.c\<close> (against a model of the chips), \<^verbatim>\<open>kb.c\<close> (scan codes to keys to the
    terminal), \<^verbatim>\<open>rtc.c\<close> (virtual clocks of any power-of-two frequency out of one hardware clock; locale
    \<open>slot_pass\<close> for the loops over the open clocks).
  \<^item> \<open>Paging\<close>: \<^verbatim>\<open>page.c\<close>. The tables as the processor walks them give exactly the intended map.
  \<^item> \<open>Heap\<close>, \<open>Syscall\<close>: \<^verbatim>\<open>syscall.c\<close>. The heap as a list of objects with first-fit allocation; all system
    calls on the state of the whole kernel, with the loader of programs.
  \<^item> \<open>Signals\<close>, \<open>Scheduling\<close>, \<open>Idt\<close>: \<^verbatim>\<open>signals.c\<close>, \<^verbatim>\<open>scheduling.c\<close>, \<^verbatim>\<open>idt.c\<close>. The step relation \<open>kstep\<close> has one
    rule for each event that changes the process table, and the invariant \<open>procs_ok\<close> holds in every
    state reachable from the booted kernel.
  \<^item> \<open>Serial\<close>, \<open>Boot\<close>, \<open>Linkage\<close>: \<^verbatim>\<open>serial.c\<close> and \<^verbatim>\<open>tuxctl.c\<close>, the start of the kernel (\<^verbatim>\<open>kernel.c\<close>), and the
    common entry of all interrupts with its table of system calls (\<^verbatim>\<open>idt_asm.S\<close>) and the wrappers of the
    user programs (\<^verbatim>\<open>ece391syscall.S\<close>). The start leads to the state the other theorems begin with, a
    wrapper carries out exactly the kernel's call, an exception ends in a handler or ends the program.
  \<^item> \<open>Ulib\<close>, \<open>Programs\<close>, \<open>Grep\<close>, \<open>User_Io\<close>: the user programs' library (\<^verbatim>\<open>ece391support.c\<close>) and the
    programs \<^verbatim>\<open>cat\<close>, \<^verbatim>\<open>ls\<close>, \<^verbatim>\<open>grep\<close>, \<^verbatim>\<open>shell\<close>, \<^verbatim>\<open>counter\<close>, \<^verbatim>\<open>hello\<close> over an interface of system calls (record
    \<open>sys\<close>). Its laws are the locales \<open>out_io\<close>, \<open>text_io\<close> and \<open>name_io\<close>; \<open>User_Io\<close> interprets them on the
    kernel's own system calls, so that what the programs print is a theorem about program and kernel.
  \<^item> \<open>User_Heap\<close>, \<open>Console\<close>, \<open>Shell\<close>: the library's routines over an allocator (locale \<open>allocator\<close>, interpreted on
    the kernel's \<^verbatim>\<open>malloc\<close>), and the programs that read lines from their user (locale \<open>line_io\<close>), interpreted
    in \<open>Console\<close> on the terminal with the keys still to be pressed, for \<^verbatim>\<open>hello\<close> and \<^verbatim>\<open>counter\<close> with their
    user, and in \<open>Shell\<close> on the process of a shell, whose commands go through the kernel's \<^verbatim>\<open>execute\<close> and \<^verbatim>\<open>halt\<close>.
    What a started program does in between is the argument \<open>c_run\<close> (record \<open>children\<close>).
  \<^item> \<open>Syserr\<close>: the error tests \<^verbatim>\<open>ece391syserr.c\<close> in the locale \<open>err_io\<close>; on the kernel they all pass.
  \<^item> \<open>Printf\<close>, \<open>Printf_Io\<close>: the user programs' \<^verbatim>\<open>printf.c\<close> over an interface for the place where the
    characters go (locale \<open>sink\<close>) and for user memory (locale \<open>user_memory\<close>). \<open>render\<close> is the text that a
    format and its arguments stand for; \<open>Printf_Io\<close> interprets the locales on the kernel.
  \<^item> \<open>Game2048\<close>, \<open>Draw\<close>, \<open>Game_Draw\<close>: the game \<^verbatim>\<open>2048.c\<close>. \<open>Game2048\<close> has the board, the moves and the main
    loop; \<open>Draw\<close> reads the bytes sent to a terminal as strokes (text, positions, colours) on the abstract
    screen; \<open>Game_Draw\<close> has every call of \<^verbatim>\<open>printf\<close> the game makes, and shows that the screen shows the
    board. Its triples of a condition on the screen, calls, and a condition compose like the program.

  \<^bold>\<open>Conventions\<close>

  A loop that may not end is a partial function whose value \<open>None\<close> is ``does not return''; theorems
  about it show that it returns. No definition uses fuel. A system call that sleeps takes the list of
  interrupts that are served meanwhile. What the code does not determine is an argument: values read
  from ports, contents of uninitialised variables that matter, addresses chosen by the compiler or the
  linker, the assembly entry points. Pointers into the kernel's own tables are indices; pointers to
  user memory are addresses. A pending interrupt takes effect only where the code waits with \<^verbatim>\<open>hlt\<close> or
  between system calls: the kernel is entered with interrupts disabled.

  \<^bold>\<open>What is not modelled\<close>

  The assembly that saves registers and the boot stub (\<^verbatim>\<open>boot.S\<close>, \<^verbatim>\<open>x86_desc.S\<close>, the pushes of
  \<^verbatim>\<open>idt_asm.S\<close>), and the writes to control registers; the kernel's tests (\<^verbatim>\<open>tests.c\<close>), which call routines
  the kernel no longer has (\<^verbatim>\<open>fs_dir_open\<close>, \<^verbatim>\<open>get_type\<close>, \<^verbatim>\<open>rtc_write_usr\<close>, a \<^verbatim>\<open>printf\<close> without a terminal) and
  are not compiled against it; the parts of \<^verbatim>\<open>printf.c\<close> for floating point, \<^verbatim>\<open>long long\<close> and \<^verbatim>\<open>ptrdiff_t\<close>,
  which its macros switch off; the emulation of the system calls under Linux (\<^verbatim>\<open>ece391emulate.c\<close>), the
  animations \<^verbatim>\<open>fish\<close> and \<^verbatim>\<open>pingpong\<close>, and the programs \<^verbatim>\<open>sigtest\<close> and \<^verbatim>\<open>testprint\<close>, whose work is output.
  What a read of a key shows on the screen is not part of \<open>screen_shows_board\<close>: the game switches echo
  off, and the text of the calls is taken without what other processes print meanwhile.
\<close>

end
